(* ===== verification/Obicall_Prelude.thy ===== *)
theory Obicall_Prelude
  imports Main "HOL-Library.Word" "HOL-Library.State_Monad" "HOL-Library.Sublist"
begin

text \<open>
  Shared vocabulary of the development: the widths of the C integer types, the
  collections that the component proofs draw on, the generic facts about lists, and the
  little-endian correspondence between words and bytes that every codec of
  \<^verbatim>\<open>src/core\<close> relies on.
\<close>

unbundle bit_operations_syntax

section \<open>Integer types\<close>

text \<open>
  Unsigned and signed C integers of the same width share one type: a signed value is read
  with \<^const>\<open>sint\<close>, an unsigned one with \<^const>\<open>uint\<close> or \<^const>\<open>unat\<close>. A cast between
  \<^verbatim>\<open>int64_t\<close> and \<^verbatim>\<open>uint64_t\<close> is then the identity, as it is on the bits.
\<close>

type_synonym u8 = "8 word"
type_synonym u16 = "16 word"
type_synonym u32 = "32 word"
type_synonym u64 = "64 word"
type_synonym i32 = "32 word"
type_synonym i64 = "64 word"
type_synonym bytes = "u8 list"

section \<open>Collections\<close>

named_theorems codec_intros "introduction rules that build a codec law field by field"
named_theorems layout_simps "unfolding of byte layouts and their lengths"

section \<open>Lists as C arrays\<close>

text \<open>\<^verbatim>\<open>memcpy(dst + off, src, n)\<close> with \<^verbatim>\<open>src\<close> holding exactly the copied bytes.\<close>

definition memcpy :: "'a list \<Rightarrow> nat \<Rightarrow> 'a list \<Rightarrow> 'a list" where
  "memcpy dst off src = take off dst @ src @ drop (off + length src) dst"

lemma length_memcpy [simp]:
  "off + length src \<le> length dst \<Longrightarrow> length (memcpy dst off src) = length dst"
  by (simp add: memcpy_def)

lemma memcpy_nil [simp]: "off \<le> length dst \<Longrightarrow> memcpy dst off [] = dst"
  by (simp add: memcpy_def)

lemma memcpy_append:
  assumes "off + length xs + length ys \<le> length dst"
  shows "memcpy (memcpy dst off xs) (off + length xs) ys = memcpy dst off (xs @ ys)"
  using assms by (simp add: memcpy_def ac_simps)

lemma drop_memcpy_beyond:
  assumes "off + length src \<le> k" and "off \<le> length dst"
  shows "drop k (memcpy dst off src) = drop k dst"
  using assms by (simp add: memcpy_def min_absorb2)

lemma take_memcpy_before:
  assumes "k \<le> off" and "off \<le> length dst"
  shows "take k (memcpy dst off src) = take k dst"
  using assms by (simp add: memcpy_def min_absorb1 min_absorb2)

lemma memcpy_zero: "memcpy dst 0 src = src @ drop (length src) dst"
  by (simp add: memcpy_def)

lemma memcpy_replicate: "k \<le> n \<Longrightarrow> memcpy (replicate n x) 0 (replicate k x) = replicate n x"
  by (simp add: memcpy_zero flip: replicate_add)

lemma list_all_trivial [simp]: "list_all (\<lambda>_. True) xs"
  by (simp add: list_all_iff)

lemma list_all_replicate [simp]: "list_all P (replicate n x) \<longleftrightarrow> n = 0 \<or> P x"
  by (auto simp: list_all_iff)

lemma find_snoc:
  "List.find P (xs @ [x]) = (case List.find P xs of Some y \<Rightarrow> Some y
     | None \<Rightarrow> if P x then Some x else None)"
  by (induction xs) auto

lemma find_upt_Some: "List.find P [0..<n] = Some i \<Longrightarrow> i < n \<and> P i"
  by (auto simp: find_Some_iff)

lemma find_upt_None: "List.find P [0..<n] = None \<longleftrightarrow> (\<forall>i < n. \<not> P i)"
  by (simp add: find_None_iff) 

section \<open>Words\<close>

lemma xor_right_cancel: "x XOR z = y XOR z \<longleftrightarrow> x = (y :: 'a::len word)"
proof
  assume "x XOR z = y XOR z"
  then have "(x XOR z) XOR z = (y XOR z) XOR z" by simp
  then show "x = y" by (simp add: xor.assoc)
qed simp

section \<open>Little-endian bytes\<close>

text \<open>
  \<^verbatim>\<open>b[i] = (uint8_t)(v >> (8 * i))\<close> for the \<open>n\<close> bytes of a word, and the converse
  \<^verbatim>\<open>v |= (uintN_t)b[i] << (8 * i)\<close>.
\<close>

definition le_bytes :: "nat \<Rightarrow> 'a::len word \<Rightarrow> bytes" where
  "le_bytes n v = map (\<lambda>i. ucast (drop_bit (8 * i) v)) [0..<n]"

definition le_word :: "bytes \<Rightarrow> 'a::len word" where
  "le_word bs = foldl (\<lambda>v i. v OR push_bit (8 * i) (ucast (bs ! i))) 0 [0..<length bs]"

lemma length_le_bytes [simp]: "length (le_bytes n v) = n"
  by (simp add: le_bytes_def)

lemma bit_foldl_or:
  "bit (foldl (\<lambda>v i. v OR f i) (a :: 'a::len word) xs) k
     \<longleftrightarrow> bit a k \<or> (\<exists>i \<in> set xs. bit (f i) k)"
  by (induction xs arbitrary: a) (auto simp: bit_simps)

lemma bit_push_byte:
  "bit (push_bit (8 * i) (ucast (b :: u8) :: 'a::len word)) k
     \<longleftrightarrow> k < LENGTH('a) \<and> k div 8 = i \<and> bit b (k mod 8)"
proof -
  have "8 * i \<le> k \<and> bit b (k - 8 * i) \<longleftrightarrow> k div 8 = i \<and> bit b (k mod 8)"
  proof
    assume h: "8 * i \<le> k \<and> bit b (k - 8 * i)"
    then have "k - 8 * i < 8" using bit_imp_le_length by fastforce
    with h have "k div 8 = i" by linarith
    moreover from this have "k - 8 * i = k mod 8" by presburger
    ultimately show "k div 8 = i \<and> bit b (k mod 8)" using h by simp
  next
    assume "k div 8 = i \<and> bit b (k mod 8)"
    then show "8 * i \<le> k \<and> bit b (k - 8 * i)"
      by (auto simp: minus_mult_div_eq_mod div_times_less_eq_dividend)
  qed
  then show ?thesis by (auto simp: bit_simps)
qed

lemma bit_le_word:
  "bit (le_word bs :: 'a::len word) k
     \<longleftrightarrow> k < LENGTH('a) \<and> k div 8 < length bs \<and> bit (bs ! (k div 8)) (k mod 8)"
  unfolding le_word_def by (auto simp: bit_foldl_or bit_push_byte)

lemma le_word_le_bytes [simp]:
  assumes "LENGTH('a) = 8 * n"
  shows "le_word (le_bytes n v) = (v :: 'a::len word)"
proof (rule bit_word_eqI)
  fix k assume k: "k < LENGTH('a)"
  then have "k div 8 < n" using assms by linarith
  then show "bit (le_word (le_bytes n v) :: 'a word) k = bit v k"
    using k by (simp add: bit_le_word le_bytes_def bit_simps)
qed

lemma le_bytes_le_word:
  assumes "LENGTH('a) = 8 * length bs"
  shows "le_bytes (length bs) (le_word bs :: 'a::len word) = bs"
proof (rule nth_equalityI)
  show "length (le_bytes (length bs) (le_word bs :: 'a word)) = length bs" by simp
next
  fix i assume "i < length (le_bytes (length bs) (le_word bs :: 'a word))"
  then have i: "i < length bs" by simp
  show "le_bytes (length bs) (le_word bs :: 'a word) ! i = bs ! i"
  proof (rule bit_word_eqI)
    fix k assume "k < LENGTH(8)"
    then have k: "k < 8" by simp
    then have "(8 * i + k) div 8 = i" and "(8 * i + k) mod 8 = k" by simp_all
    moreover have "8 * i + k < LENGTH('a)" using i k assms by linarith
    ultimately show "bit (le_bytes (length bs) (le_word bs :: 'a word) ! i) k = bit (bs ! i) k"
      using i k by (simp add: le_bytes_def bit_simps bit_le_word)
  qed
qed

lemma le_bytes_inject:
  assumes "LENGTH('a) = 8 * n"
  shows "le_bytes n v = le_bytes n (w :: 'a::len word) \<longleftrightarrow> v = w"
  by (metis assms le_word_le_bytes)

end
