(* ===== verification/Ieee_Double.thy ===== *)
theory Ieee_Double
  imports Obicall_Prelude
begin

text \<open>
  The C type \<^verbatim>\<open>double\<close> as IEEE-754 binary64: a value is its 64-bit pattern, so that the
  \<^verbatim>\<open>memcpy(&bits, &v, 8)\<close> of the codecs is the selector \<open>dbits\<close>. Arithmetic is executable and
  correctly rounded (to nearest, ties to even): an operation computes the exact rational result of
  finite operands over the integers and rounds once. Every operation rounds on its own, as on a
  target without excess precision and without contraction of products and sums; an invalid operation
  yields one canonical quiet NaN (the sign and payload of a NaN differ between machines).
\<close>

section \<open>Bit patterns and classification\<close>

datatype double = Double (dbits: u64)

definition dsign :: "double \<Rightarrow> bool" where
  "dsign d \<longleftrightarrow> uint (dbits d) \<ge> 2 ^ 63"

text \<open>The magnitude bits: exponent and fraction without the sign.\<close>

definition dmag :: "double \<Rightarrow> int" where
  "dmag d = uint (dbits d) mod 2 ^ 63"

abbreviation (input) inf_mag :: int where
  "inf_mag \<equiv> 2047 * 2 ^ 52"

definition isnan :: "double \<Rightarrow> bool" where
  "isnan d \<longleftrightarrow> dmag d > inf_mag"

definition isinf :: "double \<Rightarrow> bool" where
  "isinf d \<longleftrightarrow> dmag d = inf_mag"

definition isfinite :: "double \<Rightarrow> bool" where
  "isfinite d \<longleftrightarrow> dmag d < inf_mag"

definition mk_double :: "bool \<Rightarrow> int \<Rightarrow> double" where
  "mk_double s mag = Double (of_int ((if s then 2 ^ 63 else 0) + mag))"

definition dnan :: double where
  "dnan = Double 0x7FF8000000000000"

lemma dmag_less: "dmag d < 2 ^ 63" and dmag_nonneg [simp]: "0 \<le> dmag d"
  by (simp_all add: dmag_def)

lemma uint_dbits: "uint (dbits d) = (if dsign d then 2 ^ 63 else 0) + dmag d"
proof -
  have lt: "uint (dbits d) < 2 ^ LENGTH(64)" by (rule uint_lt2p)
  have ge: "0 \<le> uint (dbits d)" by simp
  show ?thesis
  proof (cases "dsign d")
    case True
    then have "(uint (dbits d) - 2 ^ 63) mod 2 ^ 63 = uint (dbits d) - 2 ^ 63"
      using lt by (intro mod_pos_pos_trivial) (simp_all add: dsign_def)
    then have "uint (dbits d) mod 2 ^ 63 = uint (dbits d) - 2 ^ 63"
      by (simp only: minus_mod_self2)
    then show ?thesis using True by (simp add: dmag_def)
  next
    case False
    then show ?thesis using ge by (simp add: dsign_def dmag_def)
  qed
qed

lemma mk_double_inverse [simp]: "mk_double (dsign d) (dmag d) = d"
  unfolding mk_double_def uint_dbits [symmetric] by simp

lemma uint_mk_double:
  assumes "0 \<le> mag" and "mag < 2 ^ 63"
  shows "uint (dbits (mk_double s mag)) = (if s then 2 ^ 63 else 0) + mag"
  using assms by (simp add: mk_double_def uint_word_of_int take_bit_eq_mod del: of_int_add)

lemma dsign_mk [simp]: "0 \<le> mag \<Longrightarrow> mag < 2 ^ 63 \<Longrightarrow> dsign (mk_double s mag) = s"
  by (simp add: dsign_def uint_mk_double)

lemma dmag_mk [simp]: "0 \<le> mag \<Longrightarrow> mag < 2 ^ 63 \<Longrightarrow> dmag (mk_double s mag) = mag"
  by (simp add: dmag_def uint_mk_double)

lemma double_eq_iff: "x = y \<longleftrightarrow> dsign x = dsign y \<and> dmag x = dmag y"
proof
  assume h: "dsign x = dsign y \<and> dmag x = dmag y"
  have "x = mk_double (dsign x) (dmag x)" by simp
  also have "\<dots> = y" using h by simp
  finally show "x = y" .
qed simp

section \<open>Rounding\<close>

function bitlen :: "int \<Rightarrow> int" where
  "bitlen n = (if n \<le> 0 then 0 else 1 + bitlen (n div 2))"
  by pat_completeness auto
termination by (relation "measure nat") auto

declare bitlen.simps [simp del]

text \<open>\<open>n / d\<close> to the nearest integer, ties to even.\<close>

definition rhe :: "int \<Rightarrow> int \<Rightarrow> int" where
  "rhe n d = (let q = n div d; r = n mod d in
     if 2 * r < d then q else if 2 * r > d then q + 1 else if even q then q else q + 1)"

text \<open>\<open>ratio_ge n d b\<close>: \<open>n / d \<ge> 2 ^ b\<close>.\<close>

definition ratio_ge :: "int \<Rightarrow> int \<Rightarrow> int \<Rightarrow> bool" where
  "ratio_ge n d b = (if b \<ge> 0 then n \<ge> d * 2 ^ nat b else n * 2 ^ nat (- b) \<ge> d)"

definition ilog2_ratio :: "int \<Rightarrow> int \<Rightarrow> int" where
  "ilog2_ratio n d = (let b = bitlen n - bitlen d in if ratio_ge n d b then b else b - 1)"

text \<open>
  The magnitude bits of \<open>n / d * 2 ^ e\<close>: the last place has weight \<open>2 ^ t\<close>, the significand is
  rounded there, and a carry into the exponent needs no special case because the exponent field sits
  directly above the fraction. Overflow gives infinity.
\<close>

definition round_mag :: "int \<Rightarrow> int \<Rightarrow> int \<Rightarrow> int" where
  "round_mag n d e =
     (let t = max (-1074) (ilog2_ratio n d + e - 52);
          m = (if e \<ge> t then rhe (n * 2 ^ nat (e - t)) d else rhe n (d * 2 ^ nat (t - e)))
      in min inf_mag ((t + 1074) * 2 ^ 52 + m))"

definition dround :: "bool \<Rightarrow> int \<Rightarrow> int \<Rightarrow> int \<Rightarrow> double" where
  "dround s n d e = mk_double s (if n = 0 then 0 else round_mag n d e)"

text \<open>A finite value is \<open>dmant d * 2 ^ dexpo d\<close> with the sign \<open>dsign d\<close>.\<close>

definition dmant :: "double \<Rightarrow> int" where
  "dmant d = (if dmag d < 2 ^ 52 then dmag d else 2 ^ 52 + dmag d mod 2 ^ 52)"

definition dexpo :: "double \<Rightarrow> int" where
  "dexpo d = (if dmag d < 2 ^ 52 then -1074 else dmag d div 2 ^ 52 - 1075)"

lemma rhe_nonneg: "0 \<le> n \<Longrightarrow> 0 < d \<Longrightarrow> 0 \<le> rhe n d"
  using pos_imp_zdiv_nonneg_iff [of d n] by (simp add: rhe_def Let_def)

lemma round_mag_bounds:
  assumes "0 \<le> n" and "0 < d"
  shows "0 \<le> round_mag n d e" and "round_mag n d e \<le> inf_mag"
proof -
  show "round_mag n d e \<le> inf_mag" unfolding round_mag_def Let_def by (rule min.cobounded1)
  have "0 \<le> rhe (n * 2 ^ k) d" and "0 \<le> rhe n (d * 2 ^ k)" for k
    using assms by (simp_all add: rhe_nonneg)
  then show "0 \<le> round_mag n d e" unfolding round_mag_def Let_def by (simp add: max_def)
qed

lemma dround_parts:
  assumes "0 \<le> n" and "0 < d"
  shows "dmag (dround s n d e) = (if n = 0 then 0 else round_mag n d e)"
    and "dsign (dround s n d e) = s" and "\<not> isnan (dround s n d e)"
  using round_mag_bounds [OF assms, of e] by (simp_all add: dround_def isnan_def)

section \<open>Operations\<close>

instantiation double :: "{zero, one, uminus, plus, minus, times, inverse, abs, ord}"
begin

definition zero_double :: double where
  "zero_double = Double 0"

definition one_double :: double where
  "one_double = Double 0x3FF0000000000000"

definition uminus_double :: "double \<Rightarrow> double" where
  "uminus_double x = mk_double (\<not> dsign x) (dmag x)"

definition abs_double :: "double \<Rightarrow> double" where
  "abs_double x = mk_double False (dmag x)"

definition plus_double :: "double \<Rightarrow> double \<Rightarrow> double" where
  "plus_double x y =
     (if isnan x \<or> isnan y then dnan
      else if isinf x then (if isinf y \<and> dsign x \<noteq> dsign y then dnan else x)
      else if isinf y then y
      else if dmag x = 0 \<and> dmag y = 0 then mk_double (dsign x \<and> dsign y) 0
      else if dmag x = 0 then y
      else if dmag y = 0 then x
      else let e = min (dexpo x) (dexpo y);
               a = (if dsign x then -1 else 1) * (dmant x * 2 ^ nat (dexpo x - e));
               b = (if dsign y then -1 else 1) * (dmant y * 2 ^ nat (dexpo y - e))
           in if a + b = 0 then 0
              else dround (a + b < 0) \<bar>a + b\<bar> 1 e)"

definition minus_double :: "double \<Rightarrow> double \<Rightarrow> double" where
  "minus_double x y = x + - y"

definition times_double :: "double \<Rightarrow> double \<Rightarrow> double" where
  "times_double x y =
     (let s = (dsign x \<noteq> dsign y)
      in if isnan x \<or> isnan y then dnan
         else if isinf x \<or> isinf y
         then (if dmag x = 0 \<or> dmag y = 0 then dnan else mk_double s inf_mag)
         else dround s (dmant x * dmant y) 1 (dexpo x + dexpo y))"

definition divide_double :: "double \<Rightarrow> double \<Rightarrow> double" where
  "divide_double x y =
     (let s = (dsign x \<noteq> dsign y)
      in if isnan x \<or> isnan y then dnan
         else if isinf x then (if isinf y then dnan else mk_double s inf_mag)
         else if isinf y then mk_double s 0
         else if dmag y = 0 then (if dmag x = 0 then dnan else mk_double s inf_mag)
         else dround s (dmant x) (dmant y) (dexpo x - dexpo y))"

definition inverse_double :: "double \<Rightarrow> double" where
  "inverse_double x = divide 1 x"

text \<open>Comparisons order the sign-magnitude integers; they are false as soon as a NaN is involved.\<close>

definition less_double :: "double \<Rightarrow> double \<Rightarrow> bool" where
  "less_double x y \<longleftrightarrow> \<not> isnan x \<and> \<not> isnan y \<and>
     (if dsign x then - dmag x else dmag x) <
     (if dsign y then - dmag y else dmag y)"

definition less_eq_double :: "double \<Rightarrow> double \<Rightarrow> bool" where
  "less_eq_double x y \<longleftrightarrow> \<not> isnan x \<and> \<not> isnan y \<and>
     (if dsign x then - dmag x else dmag x) \<le>
     (if dsign y then - dmag y else dmag y)"

instance ..

end

function isqrt :: "int \<Rightarrow> int" where
  "isqrt n = (if n \<le> 0 then 0
     else let r = 2 * isqrt (n div 4) in if (r + 1) * (r + 1) \<le> n then r + 1 else r)"
  by pat_completeness auto
termination by (relation "measure nat") auto

declare isqrt.simps [simp del]

text \<open>
  \<^verbatim>\<open>sqrt\<close>: the integer root of the significand scaled by \<open>4 ^ 60\<close>, with a sticky last bit when it is
  inexact, so that the single rounding sees on which side of a tie the root lies.
\<close>

definition dsqrt :: "double \<Rightarrow> double" where
  "dsqrt x =
     (if isnan x then dnan
      else if dmag x = 0 then x
      else if dsign x then dnan
      else if isinf x then x
      else let odd_e = (dexpo x mod 2 \<noteq> 0);
               m = (if odd_e then 2 * dmant x else dmant x) * 4 ^ 60;
               e = (if odd_e then dexpo x - 1 else dexpo x) div 2 - 60;
               r = isqrt m
           in dround False (2 * r + (if r * r = m then 0 else 1)) 1 (e - 1))"

text \<open>A conversion from an integer, and a decimal literal \<open>n / d\<close>.\<close>

definition double_of_int :: "int \<Rightarrow> double" where
  "double_of_int i = dround (i < 0) \<bar>i\<bar> 1 0"

definition double_lit :: "int \<Rightarrow> int \<Rightarrow> double" where
  "double_lit n d = dround False n d 0"

section \<open>Laws that survive rounding\<close>

text \<open>
  Rounded addition and multiplication are not associative, but they commute, a difference only
  changes its sign when its operands are exchanged, and comparison is a strict order.
\<close>

lemma dmag_bounds [simp]: "dmag d < 9223372036854775808"
  using dmag_less [of d] by simp

lemma dsign_uminus [simp]: "dsign (- x) = (\<not> dsign (x :: double))"
  and dmag_uminus [simp]: "dmag (- x) = dmag x"
  by (simp_all add: uminus_double_def)

lemma dsign_abs [simp]: "\<not> dsign \<bar>x :: double\<bar>"
  and dmag_abs [simp]: "dmag \<bar>x :: double\<bar> = dmag x"
  by (simp_all add: abs_double_def)

lemma double_class_uminus [simp]:
  "isnan (- x) = isnan x" "isinf (- x) = isinf x" "isfinite (- x) = isfinite x"
  "dmant (- x) = dmant x" "dexpo (- x) = dexpo x" for x :: double
  by (simp_all add: isnan_def isinf_def isfinite_def dmant_def dexpo_def)

lemma double_plus_commute: "x + y = y + (x :: double)"
proof -
  have "isinf x \<Longrightarrow> isinf y \<Longrightarrow> dsign x = dsign y \<Longrightarrow> x = y"
    by (simp add: isinf_def double_eq_iff)
  then show ?thesis
    by (auto simp: plus_double_def min.commute [of "dexpo x"] add.commute conj_commute Let_def)
qed

lemma double_times_commute: "x * y = y * (x :: double)"
  by (cases "dsign x"; cases "dsign y")
     (auto simp: times_double_def Let_def mult.commute add.commute)

lemma abs_double_eq_iff: "\<bar>x\<bar> = \<bar>y\<bar> \<longleftrightarrow> dmag x = dmag (y :: double)"
  by (simp add: double_eq_iff [of "\<bar>x\<bar>"])

lemma abs_double_minus_commute: "\<bar>x - y\<bar> = \<bar>y - (x :: double)\<bar>"
proof -
  have neg: "(if \<not> s then -1 else 1) * k = - ((if s then -1 else 1) * k)" for s and k :: int by simp
  have flip: "\<bar>- a - b\<bar> = \<bar>b + a\<bar>" for a b :: int by simp
  show ?thesis
    unfolding abs_double_eq_iff minus_double_def plus_double_def
    by (auto simp: Let_def neg flip isinf_def min.commute [of "dexpo x"] dround_parts
        abs_minus_commute)
qed

lemma double_less_irrefl [simp]: "\<not> x < (x :: double)"
  by (simp add: less_double_def)

lemma double_less_trans: "x < y \<Longrightarrow> y < z \<Longrightarrow> x < (z :: double)"
  unfolding less_double_def by linarith

lemma double_less_asym: "x < y \<Longrightarrow> \<not> y < (x :: double)"
  unfolding less_double_def by linarith

text \<open>Without NaNs, not less is the converse order.\<close>

lemma double_not_less: "\<not> isnan x \<Longrightarrow> \<not> isnan y \<Longrightarrow> \<not> x < y \<longleftrightarrow> y \<le> (x :: double)"
  unfolding less_double_def less_eq_double_def by auto

lemma double_le_trans: "x \<le> y \<Longrightarrow> y \<le> z \<Longrightarrow> x \<le> (z :: double)"
  unfolding less_eq_double_def by linarith

lemma double_le_less_trans: "x \<le> y \<Longrightarrow> y < z \<Longrightarrow> x < (z :: double)"
  unfolding less_eq_double_def less_double_def by linarith

lemma double_less_imp_le: "x < y \<Longrightarrow> x \<le> (y :: double)"
  unfolding less_eq_double_def less_double_def by linarith

lemma isfinite_not_isnan: "isfinite x \<Longrightarrow> \<not> isnan x"
  by (simp add: isfinite_def isnan_def)

lemma double_le_refl: "\<not> isnan x \<Longrightarrow> x \<le> (x :: double)"
  by (simp add: less_eq_double_def)

lemma double_zero [simp]: "dmag 0 = 0" "\<not> dsign 0"
  by (simp_all add: zero_double_def dmag_def dsign_def)

lemma abs_double_zero [simp]: "\<bar>0 :: double\<bar> = 0"
  by (simp add: double_eq_iff)

lemma isnan_dnan [simp]: "isnan dnan"
  by (simp add: isnan_def dnan_def dmag_def)

lemma double_diff_self: "isnan (x - x) \<or> x - x = (0 :: double)"
proof -
  have "mk_double False 0 = 0" by (simp add: mk_double_def zero_double_def)
  then show ?thesis by (cases "dsign x") (simp_all add: minus_double_def plus_double_def Let_def)
qed

lemma isnan_minus: "isnan x \<or> isnan y \<Longrightarrow> isnan (x - y)"
  by (simp add: minus_double_def plus_double_def)

lemma isnan_abs [simp]: "isnan \<bar>x\<bar> = isnan x"
  by (simp add: isnan_def)

lemma isnan_divide: "isnan x \<Longrightarrow> isnan (divide x y)"
  by (simp add: divide_double_def Let_def)

lemma not_less_nan: "isnan x \<Longrightarrow> \<not> y < x" "isnan x \<Longrightarrow> \<not> x < (y :: double)"
  by (simp_all add: less_double_def)

lemma dmag_not_neg [simp]: "\<not> dmag d < 0"
  by (simp add: not_less)

lemma divide_zero_pos: "0 < y \<Longrightarrow> divide 0 y = (0 :: double)"
proof -
  assume y: "0 < y"
  then have "\<not> isnan y" "\<not> dsign y" "dmag y \<noteq> 0"
    by (auto simp: less_double_def split: if_splits)
  moreover have "\<not> isnan 0" "\<not> isinf 0" "dmant 0 = 0" by (simp_all add: isnan_def isinf_def dmant_def)
  moreover have "mk_double False 0 = 0" by (simp add: mk_double_def zero_double_def)
  ultimately show ?thesis by (simp add: divide_double_def Let_def dround_def)
qed

text \<open>The comparison \<open>==\<close> of C: a NaN equals nothing, the zeros are equal.\<close>

definition double_eq :: "double \<Rightarrow> double \<Rightarrow> bool" where
  "double_eq x y \<longleftrightarrow> x \<le> y \<and> y \<le> x"

lemma double_eq_less:
  assumes "double_eq x y"
  shows "x < z \<longleftrightarrow> y < z" and "z < x \<longleftrightarrow> z < y" and "double_eq x z \<longleftrightarrow> double_eq y z"
  using assms unfolding double_eq_def less_double_def less_eq_double_def by linarith+

lemma double_eq_not_less: "double_eq x y \<Longrightarrow> \<not> x < y"
  unfolding double_eq_def less_double_def less_eq_double_def by linarith

lemma not_isnan_zero [simp]: "\<not> isnan 0"
  by (simp add: isnan_def)

text \<open>A decimal text \<open>m * 10 ^ e\<close>, rounded to nearest.\<close>

definition decimal_double :: "bool \<Rightarrow> int \<Rightarrow> int \<Rightarrow> double" where
  "decimal_double neg m e =
     (if e \<ge> 0 then dround neg (m * 10 ^ nat e) 1 0 else dround neg m (10 ^ nat (- e)) 0)"

lemma decimal_double_not_nan: "0 \<le> m \<Longrightarrow> \<not> isnan (decimal_double neg m e)"
  by (simp add: decimal_double_def dround_parts)

end
