(* ===== verification/Obicall_Types.thy ===== *)
theory Obicall_Types
  imports Ieee_Double
begin

text \<open>
  The ABI-facing data of \<^verbatim>\<open>include/obicall\<close>: status codes, bounds, enumerations and the structs
  that cross process boundaries. A struct is a record with the source's fields (prefixed, since
  record fields share one name space); a fixed-size array is a list, whose length the
  \<open>wf_\<close> predicates state; an enum-typed field is the \<^verbatim>\<open>uint32_t\<close> the source declares.
\<close>

section \<open>Status codes\<close>

datatype obicall_status =
    OBICALL_OK
  | OBICALL_ERR_INVALID_ARGUMENT
  | OBICALL_ERR_NULL_POINTER
  | OBICALL_ERR_OUT_OF_RANGE
  | OBICALL_ERR_BUFFER_TOO_SMALL
  | OBICALL_ERR_NOT_FOUND
  | OBICALL_ERR_ALREADY_EXISTS
  | OBICALL_ERR_UNSUPPORTED
  | OBICALL_ERR_ABI_VERSION_MISMATCH
  | OBICALL_ERR_ABI_STRUCT_SIZE_MISMATCH
  | OBICALL_ERR_SYMBOL_NOT_FOUND
  | OBICALL_ERR_ARCHITECTURE_MISMATCH
  | OBICALL_ERR_ARTIFACT_INTEGRITY
  | OBICALL_ERR_DEPENDENCY_CYCLE
  | OBICALL_ERR_DEPENDENCY_MISSING
  | OBICALL_ERR_CONFORMANCE_FAILED
  | OBICALL_ERR_LOAD_FAILED
  | OBICALL_ERR_VALIDATION_NON_FINITE
  | OBICALL_ERR_VALIDATION_DIMENSION
  | OBICALL_ERR_VALIDATION_COVARIANCE
  | OBICALL_ERR_VALIDATION_SEQUENCE
  | OBICALL_ERR_VALIDATION_TIMING
  | OBICALL_ERR_ADMISSION_DUPLICATE
  | OBICALL_ERR_ADMISSION_LATE
  | OBICALL_ERR_ADMISSION_OVERFLOW
  | OBICALL_ERR_WIRE_MALFORMED
  | OBICALL_ERR_WIRE_TOO_LARGE
  | OBICALL_ERR_WIRE_VERSION_UNSUPPORTED
  | OBICALL_ERR_WIRE_CHECKSUM
  | OBICALL_ERR_IO
  | OBICALL_ERR_TIMEOUT
  | OBICALL_ERR_AUTH
  | OBICALL_ERR_CONNECTION_CLOSED
  | OBICALL_ERR_GATE_NOT_OWNER
  | OBICALL_ERR_GATE_STALE_EPOCH
  | OBICALL_ERR_GATE_DUPLICATE_WINDOW
  | OBICALL_ERR_GATE_EXPIRED
  | OBICALL_ERR_GATE_INCOMPATIBLE
  | OBICALL_ERR_GATE_NOT_READY
  | OBICALL_ERR_GATE_PERSISTENCE
  | OBICALL_ERR_PROCESS_SPAWN
  | OBICALL_ERR_PROCESS_NOT_RUNNING
  | OBICALL_ERR_ALREADY_RUNNING
  | OBICALL_ERR_DGT_NO_ELIGIBLE_ACTION
  | OBICALL_ERR_DGT_INVALID_SCORE
  | OBICALL_ERR_INTERNAL

primrec status_code :: "obicall_status \<Rightarrow> i32" where
  "status_code OBICALL_OK = 0"
| "status_code OBICALL_ERR_INVALID_ARGUMENT = 1"
| "status_code OBICALL_ERR_NULL_POINTER = 2"
| "status_code OBICALL_ERR_OUT_OF_RANGE = 3"
| "status_code OBICALL_ERR_BUFFER_TOO_SMALL = 4"
| "status_code OBICALL_ERR_NOT_FOUND = 5"
| "status_code OBICALL_ERR_ALREADY_EXISTS = 6"
| "status_code OBICALL_ERR_UNSUPPORTED = 7"
| "status_code OBICALL_ERR_ABI_VERSION_MISMATCH = 20"
| "status_code OBICALL_ERR_ABI_STRUCT_SIZE_MISMATCH = 21"
| "status_code OBICALL_ERR_SYMBOL_NOT_FOUND = 22"
| "status_code OBICALL_ERR_ARCHITECTURE_MISMATCH = 23"
| "status_code OBICALL_ERR_ARTIFACT_INTEGRITY = 24"
| "status_code OBICALL_ERR_DEPENDENCY_CYCLE = 25"
| "status_code OBICALL_ERR_DEPENDENCY_MISSING = 26"
| "status_code OBICALL_ERR_CONFORMANCE_FAILED = 27"
| "status_code OBICALL_ERR_LOAD_FAILED = 28"
| "status_code OBICALL_ERR_VALIDATION_NON_FINITE = 40"
| "status_code OBICALL_ERR_VALIDATION_DIMENSION = 41"
| "status_code OBICALL_ERR_VALIDATION_COVARIANCE = 42"
| "status_code OBICALL_ERR_VALIDATION_SEQUENCE = 43"
| "status_code OBICALL_ERR_VALIDATION_TIMING = 44"
| "status_code OBICALL_ERR_ADMISSION_DUPLICATE = 45"
| "status_code OBICALL_ERR_ADMISSION_LATE = 46"
| "status_code OBICALL_ERR_ADMISSION_OVERFLOW = 47"
| "status_code OBICALL_ERR_WIRE_MALFORMED = 60"
| "status_code OBICALL_ERR_WIRE_TOO_LARGE = 61"
| "status_code OBICALL_ERR_WIRE_VERSION_UNSUPPORTED = 62"
| "status_code OBICALL_ERR_WIRE_CHECKSUM = 63"
| "status_code OBICALL_ERR_IO = 64"
| "status_code OBICALL_ERR_TIMEOUT = 65"
| "status_code OBICALL_ERR_AUTH = 66"
| "status_code OBICALL_ERR_CONNECTION_CLOSED = 67"
| "status_code OBICALL_ERR_GATE_NOT_OWNER = 80"
| "status_code OBICALL_ERR_GATE_STALE_EPOCH = 81"
| "status_code OBICALL_ERR_GATE_DUPLICATE_WINDOW = 82"
| "status_code OBICALL_ERR_GATE_EXPIRED = 83"
| "status_code OBICALL_ERR_GATE_INCOMPATIBLE = 84"
| "status_code OBICALL_ERR_GATE_NOT_READY = 85"
| "status_code OBICALL_ERR_GATE_PERSISTENCE = 86"
| "status_code OBICALL_ERR_PROCESS_SPAWN = 100"
| "status_code OBICALL_ERR_PROCESS_NOT_RUNNING = 101"
| "status_code OBICALL_ERR_ALREADY_RUNNING = 102"
| "status_code OBICALL_ERR_DGT_NO_ELIGIBLE_ACTION = 120"
| "status_code OBICALL_ERR_DGT_INVALID_SCORE = 121"
| "status_code OBICALL_ERR_INTERNAL = 255"

text \<open>An operation that returns a status and fills an out-parameter.\<close>

type_synonym 'a res = "obicall_status + 'a"

section \<open>Bounds and enumerations\<close>

abbreviation (input) OBICALL_MAX_PAYLOAD_DOUBLES :: u32 where "OBICALL_MAX_PAYLOAD_DOUBLES \<equiv> 6"
abbreviation (input) OBICALL_MAX_COV_DOUBLES :: u32 where "OBICALL_MAX_COV_DOUBLES \<equiv> 36"
abbreviation (input) OBICALL_MAX_SOURCES :: u32 where "OBICALL_MAX_SOURCES \<equiv> 8"
abbreviation (input) OBICALL_SENSOR_ID_LEN :: u32 where "OBICALL_SENSOR_ID_LEN \<equiv> 32"
abbreviation (input) OBICALL_PIPELINE_ID_LEN :: u32 where "OBICALL_PIPELINE_ID_LEN \<equiv> 32"
abbreviation (input) OBICALL_DIGEST_LEN :: u32 where "OBICALL_DIGEST_LEN \<equiv> 32"
abbreviation (input) OBICALL_RUN_TOKEN_LEN :: u32 where "OBICALL_RUN_TOKEN_LEN \<equiv> 32"
abbreviation (input) OBICALL_WIRE_MAX_PAYLOAD :: u32 where "OBICALL_WIRE_MAX_PAYLOAD \<equiv> 1048576"
abbreviation (input) OBICALL_MAX_TRACKED_SOURCES :: u32 where "OBICALL_MAX_TRACKED_SOURCES \<equiv> 16"
abbreviation (input) OBICALL_MAX_STATE_DIM :: u32 where "OBICALL_MAX_STATE_DIM \<equiv> 6"
abbreviation (input) OBICALL_CHECKPOINT_SCHEMA_VERSION :: u32 where "OBICALL_CHECKPOINT_SCHEMA_VERSION \<equiv> 1"
abbreviation (input) OBICALL_OBSERVATION_SCHEMA_VERSION :: u32 where "OBICALL_OBSERVATION_SCHEMA_VERSION \<equiv> 1"
abbreviation (input) OBICALL_RESULT_SCHEMA_VERSION :: u32 where "OBICALL_RESULT_SCHEMA_VERSION \<equiv> 1"

abbreviation (input) OBICALL_FRAME_UNSPECIFIED :: u32 where "OBICALL_FRAME_UNSPECIFIED \<equiv> 0"
abbreviation (input) OBICALL_FRAME_LOCAL_ENU :: u32 where "OBICALL_FRAME_LOCAL_ENU \<equiv> 1"
abbreviation (input) OBICALL_UNITS_UNSPECIFIED :: u32 where "OBICALL_UNITS_UNSPECIFIED \<equiv> 0"
abbreviation (input) OBICALL_UNITS_METERS :: u32 where "OBICALL_UNITS_METERS \<equiv> 1"
abbreviation (input) OBICALL_SHAPE_POSITION_1D :: u32 where "OBICALL_SHAPE_POSITION_1D \<equiv> 1"
abbreviation (input) OBICALL_SHAPE_POSITION_2D :: u32 where "OBICALL_SHAPE_POSITION_2D \<equiv> 2"
abbreviation (input) OBICALL_SHAPE_POSITION_2D_VELOCITY :: u32 where "OBICALL_SHAPE_POSITION_2D_VELOCITY \<equiv> 3"
abbreviation (input) OBICALL_SHAPE_RANGE_1D :: u32 where "OBICALL_SHAPE_RANGE_1D \<equiv> 4"
abbreviation (input) OBICALL_RESULT_INVALID :: u32 where "OBICALL_RESULT_INVALID \<equiv> 0"
abbreviation (input) OBICALL_RESULT_DEGRADED :: u32 where "OBICALL_RESULT_DEGRADED \<equiv> 1"
abbreviation (input) OBICALL_RESULT_VALID :: u32 where "OBICALL_RESULT_VALID \<equiv> 2"
abbreviation (input) OBICALL_BROKER_NONE :: u32 where "OBICALL_BROKER_NONE \<equiv> 0"
abbreviation (input) OBICALL_BROKER_A :: u32 where "OBICALL_BROKER_A \<equiv> 1"
abbreviation (input) OBICALL_BROKER_B :: u32 where "OBICALL_BROKER_B \<equiv> 2"
abbreviation (input) OBICALL_EPOCH_NONE :: u64 where "OBICALL_EPOCH_NONE \<equiv> 0"

abbreviation (input) OBICALL_MSG_AUTH_HELLO :: u8 where "OBICALL_MSG_AUTH_HELLO \<equiv> 1"
abbreviation (input) OBICALL_MSG_HEARTBEAT :: u8 where "OBICALL_MSG_HEARTBEAT \<equiv> 2"
abbreviation (input) OBICALL_MSG_OBSERVATION_SUBMIT :: u8 where "OBICALL_MSG_OBSERVATION_SUBMIT \<equiv> 3"
abbreviation (input) OBICALL_MSG_EVENT :: u8 where "OBICALL_MSG_EVENT \<equiv> 4"
abbreviation (input) OBICALL_MSG_ADMISSION_DECISION :: u8 where "OBICALL_MSG_ADMISSION_DECISION \<equiv> 5"
abbreviation (input) OBICALL_MSG_RESULT_PUBLISH :: u8 where "OBICALL_MSG_RESULT_PUBLISH \<equiv> 6"
abbreviation (input) OBICALL_MSG_RESULT_ACK :: u8 where "OBICALL_MSG_RESULT_ACK \<equiv> 7"
abbreviation (input) OBICALL_MSG_EPOCH_GRANT :: u8 where "OBICALL_MSG_EPOCH_GRANT \<equiv> 8"
abbreviation (input) OBICALL_MSG_EPOCH_REVOKE :: u8 where "OBICALL_MSG_EPOCH_REVOKE \<equiv> 9"
abbreviation (input) OBICALL_MSG_READINESS_REPORT :: u8 where "OBICALL_MSG_READINESS_REPORT \<equiv> 10"
abbreviation (input) OBICALL_MSG_CHECKPOINT_TRANSFER :: u8 where "OBICALL_MSG_CHECKPOINT_TRANSFER \<equiv> 11"
abbreviation (input) OBICALL_MSG_REPLAY_REQUEST :: u8 where "OBICALL_MSG_REPLAY_REQUEST \<equiv> 12"
abbreviation (input) OBICALL_MSG_REPLAY_DATA :: u8 where "OBICALL_MSG_REPLAY_DATA \<equiv> 13"
abbreviation (input) OBICALL_MSG_REPLAY_END :: u8 where "OBICALL_MSG_REPLAY_END \<equiv> 14"
abbreviation (input) OBICALL_MSG_STATUS_QUERY :: u8 where "OBICALL_MSG_STATUS_QUERY \<equiv> 15"
abbreviation (input) OBICALL_MSG_STATUS_REPLY :: u8 where "OBICALL_MSG_STATUS_REPLY \<equiv> 16"
abbreviation (input) OBICALL_MSG_SHUTDOWN :: u8 where "OBICALL_MSG_SHUTDOWN \<equiv> 17"
abbreviation (input) OBICALL_MSG_ERROR :: u8 where "OBICALL_MSG_ERROR \<equiv> 18"

abbreviation (input) OBICALL_ROLE_UNKNOWN :: u32 where "OBICALL_ROLE_UNKNOWN \<equiv> 0"
abbreviation (input) OBICALL_ROLE_WORKER :: u32 where "OBICALL_ROLE_WORKER \<equiv> 1"
abbreviation (input) OBICALL_ROLE_BROKER :: u32 where "OBICALL_ROLE_BROKER \<equiv> 2"
abbreviation (input) OBICALL_ROLE_GATE :: u32 where "OBICALL_ROLE_GATE \<equiv> 3"
abbreviation (input) OBICALL_ROLE_JOURNAL :: u32 where "OBICALL_ROLE_JOURNAL \<equiv> 4"
abbreviation (input) OBICALL_ROLE_CLI :: u32 where "OBICALL_ROLE_CLI \<equiv> 5"
abbreviation (input) OBICALL_ROLE_SUPERVISOR :: u32 where "OBICALL_ROLE_SUPERVISOR \<equiv> 6"

section \<open>Structs\<close>

record obicall_observation =
  obs_struct_size :: u32
  obs_schema_version :: u32
  obs_sensor_id :: bytes
  obs_source_boot_id :: u64
  obs_sequence :: u64
  obs_sample_time_ns :: i64
  obs_arrival_time_ns :: i64
  obs_clock_domain :: u32
  obs_time_uncertainty_s :: double
  obs_coordinate_frame :: u32
  obs_units :: u32
  obs_calibration_version :: u32
  obs_payload_shape :: u32
  obs_payload_count :: u32
  obs_payload :: "double list"
  obs_covariance_count :: u32
  obs_covariance :: "double list"

record obicall_result =
  res_struct_size :: u32
  res_schema_version :: u32
  res_pipeline_id :: bytes
  res_window_seq :: u64
  res_broker_id :: u32
  res_epoch :: u64
  res_status :: u32
  res_payload_shape :: u32
  res_payload_count :: u32
  res_payload :: "double list"
  res_covariance_count :: u32
  res_covariance :: "double list"
  res_input_digest :: bytes
  res_config_digest :: bytes
  res_timestamp_ns :: i64
  res_valid_until_ns :: i64
  res_source_count :: u32
  res_sources :: "bytes list"
  res_dgt_action_id :: u32

record obicall_source_position =
  sp_sensor_id :: bytes
  sp_source_boot_id :: u64
  sp_last_sequence :: u64

record obicall_checkpoint =
  ck_struct_size :: u32
  ck_schema_version :: u32
  ck_pipeline_id :: bytes
  ck_window_seq :: u64
  ck_estimator_mode :: u32
  ck_state_dim :: u32
  ck_state_mean :: "double list"
  ck_state_covariance :: "double list"
  ck_calibration_version :: u32
  ck_policy_version :: u32
  ck_dgt_action_id :: u32
  ck_source_count :: u32
  ck_sources :: "obicall_source_position list"
  ck_created_at_ns :: i64

text \<open>The borrowed \<^verbatim>\<open>obicall_buffer_t\<close> payload of an event is the bytes it views, with its length field.\<close>

record obicall_event =
  ev_struct_size :: u32
  ev_schema_version :: u32
  ev_event_type :: u32
  ev_reserved :: u32
  ev_timestamp_ns :: i64
  ev_payload_data :: bytes
  ev_payload_len :: u32

text \<open>\<^verbatim>\<open>sizeof\<close> of the structs whose decoders store it, on an LP64 target with 8-byte aligned doubles.\<close>

abbreviation (input) sizeof_observation :: u32 where "sizeof_observation \<equiv> 456"
abbreviation (input) sizeof_result :: u32 where "sizeof_result \<equiv> 768"
abbreviation (input) sizeof_checkpoint :: u32 where "sizeof_checkpoint \<equiv> 1184"
abbreviation (input) sizeof_event :: u32 where "sizeof_event \<equiv> 40"

end
