(* ===== verification/Wire_Cursor.thy ===== *)
theory Wire_Cursor
  imports Obicall_Types
begin

text \<open>
  The bounds-checked cursors of \<^verbatim>\<open>src/core/wire_cursor.h\<close>. The C functions thread a cursor and an
  \<^verbatim>\<open>int* ok\<close> flag through every call; here both are one state, and a codec body is a program of
  the state monad. Two laws describe such programs once and for all: \<open>writes m bs\<close> (the writer
  \<open>m\<close> appends exactly \<open>bs\<close> when there is room, and otherwise fails without touching anything
  outside the free part of the buffer) and \<open>accepts E d L\<close> (the decoder \<open>d\<close> returns \<open>m\<close> exactly
  on the inputs that start with some \<open>bs\<close> related to \<open>m\<close> by \<open>L\<close>). The codecs of every message
  are then built field by field with the rules collected in \<open>codec_intros\<close>.
\<close>

section \<open>Writing\<close>

record wcursor =
  wc_p :: bytes
  wc_cap :: u32
  wc_off :: u32
  wc_ok :: bool

definition wc_bytes :: "bytes \<Rightarrow> u32 \<Rightarrow> (wcursor, unit) state" where
  "wc_bytes src n = State (\<lambda>c.
     if \<not> wc_ok c then ((), c)
     else if n > wc_cap c - wc_off c then ((), c\<lparr>wc_ok := False\<rparr>)
     else ((), c\<lparr>wc_p := memcpy (wc_p c) (unat (wc_off c)) (take (unat n) src),
                 wc_off := wc_off c + n\<rparr>))"

definition wc_u8 :: "u8 \<Rightarrow> (wcursor, unit) state" where
  "wc_u8 v = wc_bytes [v] 1"

definition wc_u16 :: "u16 \<Rightarrow> (wcursor, unit) state" where
  "wc_u16 v = wc_bytes (le_bytes 2 v) 2"

definition wc_u32 :: "u32 \<Rightarrow> (wcursor, unit) state" where
  "wc_u32 v = wc_bytes (le_bytes 4 v) 4"

definition wc_u64 :: "u64 \<Rightarrow> (wcursor, unit) state" where
  "wc_u64 v = wc_bytes (le_bytes 8 v) 8"

definition wc_i64 :: "i64 \<Rightarrow> (wcursor, unit) state" where
  "wc_i64 v = wc_u64 v"

definition wc_i32 :: "i32 \<Rightarrow> (wcursor, unit) state" where
  "wc_i32 v = wc_u32 v"

definition wc_f64 :: "double \<Rightarrow> (wcursor, unit) state" where
  "wc_f64 v = wc_u64 (dbits v)"

definition wc_fixed :: "bytes \<Rightarrow> u32 \<Rightarrow> (wcursor, unit) state" where
  "wc_fixed s fixed_len = wc_bytes s fixed_len"

text \<open>\<^verbatim>\<open>for (i = 0; i < n; ++i) body(a[i])\<close> over the first \<open>n\<close> elements of an array.\<close>

primrec wc_each :: "('x \<Rightarrow> (wcursor, unit) state) \<Rightarrow> 'x list \<Rightarrow> (wcursor, unit) state" where
  "wc_each f [] = State_Monad.return ()"
| "wc_each f (x # xs) = do { f x; wc_each f xs }"

text \<open>
  The frame of every encoder: a cursor over \<^verbatim>\<open>out\<close>, the field writes, then
  \<^verbatim>\<open>if (!ok) return OBICALL_ERR_BUFFER_TOO_SMALL; *out_len = c.off; return OBICALL_OK;\<close>.
  A success carries the new contents of \<^verbatim>\<open>out\<close> and \<^verbatim>\<open>*out_len\<close>.
\<close>

definition wc_run :: "(wcursor, unit) state \<Rightarrow> bytes \<Rightarrow> u32 \<Rightarrow> (bytes \<times> u32) res" where
  "wc_run body out out_cap =
     (let c = snd (run_state body \<lparr>wc_p = out, wc_cap = out_cap, wc_off = 0, wc_ok = True\<rparr>)
      in if \<not> wc_ok c then Inl OBICALL_ERR_BUFFER_TOO_SMALL else Inr (wc_p c, wc_off c))"

section \<open>Reading\<close>

record rcursor =
  rc_p :: bytes
  rc_len :: u32
  rc_off :: u32
  rc_ok :: bool

text \<open>\<open>dst\<close> is the destination before the call; the value is its contents afterwards.\<close>

definition rc_bytes :: "bytes \<Rightarrow> u32 \<Rightarrow> (rcursor, bytes) state" where
  "rc_bytes dst n = State (\<lambda>c.
     if \<not> rc_ok c then (dst, c)
     else if n > rc_len c - rc_off c then (dst, c\<lparr>rc_ok := False\<rparr>)
     else (memcpy dst 0 (take (unat n) (drop (unat (rc_off c)) (rc_p c))),
           c\<lparr>rc_off := rc_off c + n\<rparr>))"

definition rc_u8 :: "(rcursor, u8) state" where
  "rc_u8 = do { b \<leftarrow> rc_bytes [0] 1; State_Monad.return (b ! 0) }"

definition rc_u16 :: "(rcursor, u16) state" where
  "rc_u16 = do { b \<leftarrow> rc_bytes [0, 0] 2; State_Monad.return (le_word b) }"

definition rc_u32 :: "(rcursor, u32) state" where
  "rc_u32 = do { b \<leftarrow> rc_bytes (replicate 4 0) 4; State_Monad.return (le_word b) }"

definition rc_u64 :: "(rcursor, u64) state" where
  "rc_u64 = do { b \<leftarrow> rc_bytes (replicate 8 0) 8; State_Monad.return (le_word b) }"

definition rc_i64 :: "(rcursor, i64) state" where
  "rc_i64 = rc_u64"

definition rc_i32 :: "(rcursor, i32) state" where
  "rc_i32 = rc_u32"

definition rc_f64 :: "(rcursor, double) state" where
  "rc_f64 = do { bits \<leftarrow> rc_u64; State_Monad.return (Double bits) }"

definition rc_fixed :: "bytes \<Rightarrow> u32 \<Rightarrow> (rcursor, bytes) state" where
  "rc_fixed dst fixed_len = rc_bytes dst fixed_len"

primrec rc_each :: "nat \<Rightarrow> (rcursor, 'a) state \<Rightarrow> (rcursor, 'a list) state" where
  "rc_each 0 f = State_Monad.return []"
| "rc_each (Suc n) f = do { x \<leftarrow> f; xs \<leftarrow> rc_each n f; State_Monad.return (x # xs) }"

text \<open>The value of \<^verbatim>\<open>ok\<close>, read by the early returns of the decoders.\<close>

definition rc_check :: "(rcursor, bool) state" where
  "rc_check = State (\<lambda>c. (rc_ok c, c))"

text \<open>\<^verbatim>\<open>if (!ok || bad) return OBICALL_ERR_WIRE_MALFORMED;\<close> followed by the rest of the body.\<close>

definition rc_guard :: "bool \<Rightarrow> (rcursor, 'm res) state \<Rightarrow> (rcursor, 'm res) state" where
  "rc_guard bad k = do { ok \<leftarrow> rc_check;
     if \<not> ok \<or> bad then State_Monad.return (Inl OBICALL_ERR_WIRE_MALFORMED) else k }"

text \<open>\<^verbatim>\<open>return ok ? OBICALL_OK : OBICALL_ERR_WIRE_MALFORMED;\<close> with \<^verbatim>\<open>*out\<close> filled.\<close>

definition rc_end :: "'m \<Rightarrow> (rcursor, 'm res) state" where
  "rc_end m = do { ok \<leftarrow> rc_check;
     State_Monad.return (if ok then Inr m else Inl OBICALL_ERR_WIRE_MALFORMED) }"

definition rc_run :: "(rcursor, 'm res) state \<Rightarrow> bytes \<Rightarrow> u32 \<Rightarrow> 'm res" where
  "rc_run body inp in_len =
     fst (run_state body \<lparr>rc_p = inp, rc_len = in_len, rc_off = 0, rc_ok = True\<rparr>)"

section \<open>The law of writers\<close>

definition wc_inv :: "wcursor \<Rightarrow> bool" where
  "wc_inv c \<longleftrightarrow> wc_off c \<le> wc_cap c \<and> unat (wc_cap c) \<le> length (wc_p c)"

definition wroom :: "wcursor \<Rightarrow> nat" where
  "wroom c = unat (wc_cap c) - unat (wc_off c)"

definition wput :: "wcursor \<Rightarrow> bytes \<Rightarrow> wcursor" where
  "wput c bs = c\<lparr>wc_p := memcpy (wc_p c) (unat (wc_off c)) bs,
                wc_off := wc_off c + of_nat (length bs)\<rparr>"

definition wframe :: "wcursor \<Rightarrow> wcursor \<Rightarrow> bool" where
  "wframe c c' \<longleftrightarrow> wc_cap c' = wc_cap c \<and> length (wc_p c') = length (wc_p c)
     \<and> wc_off c \<le> wc_off c' \<and> wc_off c' \<le> wc_cap c
     \<and> take (unat (wc_off c)) (wc_p c') = take (unat (wc_off c)) (wc_p c)
     \<and> drop (unat (wc_cap c)) (wc_p c') = drop (unat (wc_cap c)) (wc_p c)"

definition writes :: "(wcursor, unit) state \<Rightarrow> bytes \<Rightarrow> bool" where
  "writes m bs \<longleftrightarrow> (\<forall>c. wc_inv c \<longrightarrow>
     (if wc_ok c \<and> length bs \<le> wroom c then run_state m c = ((), wput c bs)
      else \<exists>c'. run_state m c = ((), c') \<and> \<not> wc_ok c' \<and> wframe c c'))"

lemma wframe_refl: "wc_inv c \<Longrightarrow> wframe c c"
  by (simp add: wframe_def wc_inv_def)

lemma wframe_trans: "wframe c d \<Longrightarrow> wframe d e \<Longrightarrow> wframe c e"
  unfolding wframe_def word_le_nat_alt
  by (auto intro: le_trans) (metis min.absorb1 take_take)

lemma wframe_inv: "wframe c d \<Longrightarrow> wc_inv c \<Longrightarrow> wc_inv d"
  by (simp add: wframe_def wc_inv_def)

lemma unat_off_advance:
  fixes cap off :: u32
  assumes "off \<le> cap" and "n \<le> unat cap - unat off"
  shows "unat (off + of_nat n) = unat off + n"
proof -
  have "unat cap < 2 ^ LENGTH(32)" by (rule unsigned_less)
  then have "unat off + n < 2 ^ 32" using assms by (simp add: word_le_nat_alt)
  then show ?thesis by (simp add: unat_word_ariths unat_of_nat)
qed

lemma wput_facts:
  assumes "wc_inv c" and "length bs \<le> wroom c"
  shows "wframe c (wput c bs)" and "wc_inv (wput c bs)" and "wc_ok (wput c bs) = wc_ok c"
    and "wroom (wput c bs) = wroom c - length bs"
    and "unat (wc_off (wput c bs)) = unat (wc_off c) + length bs"
proof -
  have le: "unat (wc_off c) \<le> unat (wc_cap c)" and cap: "unat (wc_cap c) \<le> length (wc_p c)"
    using assms(1) by (simp_all add: wc_inv_def word_le_nat_alt)
  have off: "unat (wc_off c + of_nat (length bs)) = unat (wc_off c) + length bs"
    using assms unat_off_advance [of "wc_off c" "wc_cap c"] by (simp add: wc_inv_def wroom_def)
  show fr: "wframe c (wput c bs)"
    using le cap off assms(2)
    by (simp add: wframe_def wput_def wroom_def word_le_nat_alt take_memcpy_before
        drop_memcpy_beyond)
  show "wc_inv (wput c bs)" using fr assms(1) by (rule wframe_inv)
  show "wc_ok (wput c bs) = wc_ok c"
    and "wroom (wput c bs) = wroom c - length bs"
    and "unat (wc_off (wput c bs)) = unat (wc_off c) + length bs"
    using off by (simp_all add: wput_def wroom_def)
qed

lemma wput_append:
  assumes "wc_inv c" and "length xs + length ys \<le> wroom c"
  shows "wput (wput c xs) ys = wput c (xs @ ys)"
proof -
  have off: "unat (wc_off c + of_nat (length xs)) = unat (wc_off c) + length xs"
    using assms unat_off_advance [of "wc_off c" "wc_cap c"] by (simp add: wc_inv_def wroom_def)
  have "unat (wc_off c) + length xs + length ys \<le> length (wc_p c)"
    using assms unfolding wc_inv_def wroom_def word_le_nat_alt by linarith
  then show ?thesis by (simp add: wput_def off memcpy_append add.assoc)
qed

lemma writes_bytes [codec_intros]:
  assumes "unat n = length src"
  shows "writes (wc_bytes src n) src"
  unfolding writes_def
proof (intro allI impI)
  fix c assume inv: "wc_inv c"
  then have room: "unat (wc_cap c - wc_off c) = wroom c"
    by (simp add: wc_inv_def wroom_def unat_sub)
  have "n = of_nat (length src)" by (simp flip: assms)
  then show "if wc_ok c \<and> length src \<le> wroom c then run_state (wc_bytes src n) c = ((), wput c src)
    else \<exists>c'. run_state (wc_bytes src n) c = ((), c') \<and> \<not> wc_ok c' \<and> wframe c c'"
    using inv wframe_refl [OF inv] room assms
    by (auto simp: wc_bytes_def wput_def word_less_nat_alt wframe_def)
qed

lemma writes_seq [codec_intros]:
  assumes m: "writes m xs" and n: "writes n ys"
  shows "writes (do { m; n }) (xs @ ys)"
  unfolding writes_def
proof (intro allI impI)
  fix c assume inv: "wc_inv c"
  have n': "\<exists>c''. run_state n c' = ((), c'') \<and> \<not> wc_ok c'' \<and> wframe c' c''"
    if "wc_inv c'" "\<not> (wc_ok c' \<and> length ys \<le> wroom c')" for c'
    using n that unfolding writes_def by meson
  show "if wc_ok c \<and> length (xs @ ys) \<le> wroom c
    then run_state (do { m; n }) c = ((), wput c (xs @ ys))
    else \<exists>c'. run_state (do { m; n }) c = ((), c') \<and> \<not> wc_ok c' \<and> wframe c c'"
  proof (cases "wc_ok c \<and> length xs \<le> wroom c")
    case True
    then have rm: "run_state m c = ((), wput c xs)" using m inv by (simp add: writes_def)
    note f = wput_facts [OF inv, of xs]
    show ?thesis
    proof (cases "length ys \<le> wroom (wput c xs)")
      case fits: True
      then have "run_state n (wput c xs) = ((), wput (wput c xs) ys)"
        using n f True by (simp add: writes_def)
      then show ?thesis using fits True f(4) rm wput_append [OF inv, of xs ys] by auto
    next
      case False
      then obtain c'' where "run_state n (wput c xs) = ((), c'')" "\<not> wc_ok c''"
        "wframe (wput c xs) c''" using n' f True by blast
      then show ?thesis
        using False True f rm wframe_trans [OF f(1)] by auto
    qed
  next
    case False
    then obtain c' where c': "run_state m c = ((), c')" "\<not> wc_ok c'" "wframe c c'"
      using m inv unfolding writes_def by meson
    then obtain c'' where "run_state n c' = ((), c'')" "\<not> wc_ok c''" "wframe c' c''"
      using n' wframe_inv [OF _ inv] by blast
    then show ?thesis using False c' wframe_trans [OF c'(3)] by auto
  qed
qed

lemma writes_return [codec_intros]: "writes (State_Monad.return ()) []"
  by (auto simp: writes_def State_Monad.return_def wput_def wc_inv_def word_le_nat_alt
      intro!: wframe_refl)

lemma writes_each [codec_intros]:
  assumes "\<And>x. x \<in> set xs \<Longrightarrow> writes (f x) (g x)"
  shows "writes (wc_each f xs) (concat (map g xs))"
  using assms by (induction xs) (simp_all add: writes_return writes_seq)

lemma writes_u8 [codec_intros]: "writes (wc_u8 v) [v]"
  unfolding wc_u8_def by (rule writes_bytes) simp

lemma writes_u16 [codec_intros]: "writes (wc_u16 v) (le_bytes 2 v)"
  unfolding wc_u16_def by (rule writes_bytes) simp

lemma writes_u32 [codec_intros]: "writes (wc_u32 v) (le_bytes 4 v)"
  unfolding wc_u32_def by (rule writes_bytes) simp

lemma writes_u64 [codec_intros]: "writes (wc_u64 v) (le_bytes 8 v)"
  unfolding wc_u64_def by (rule writes_bytes) simp

lemma writes_i64 [codec_intros]: "writes (wc_i64 v) (le_bytes 8 v)"
  unfolding wc_i64_def by (rule writes_u64)

lemma writes_i32 [codec_intros]: "writes (wc_i32 v) (le_bytes 4 v)"
  unfolding wc_i32_def by (rule writes_u32)

lemma writes_f64 [codec_intros]: "writes (wc_f64 v) (le_bytes 8 (dbits v))"
  unfolding wc_f64_def by (rule writes_u64)

lemma writes_fixed [codec_intros]: "unat n = length s \<Longrightarrow> writes (wc_fixed s n) s"
  unfolding wc_fixed_def by (rule writes_bytes)

lemma wc_run_writes:
  assumes w: "writes m bs" and cap: "unat cap \<le> length out"
  shows "wc_run m out cap =
    (if length bs \<le> unat cap then Inr (memcpy out 0 bs, of_nat (length bs))
     else Inl OBICALL_ERR_BUFFER_TOO_SMALL)"
proof -
  let ?c = "\<lparr>wc_p = out, wc_cap = cap, wc_off = 0, wc_ok = True\<rparr>"
  have "wc_inv ?c" and room: "wroom ?c = unat cap"
    using cap by (simp_all add: wc_inv_def wroom_def)
  then have "if length bs \<le> unat cap then run_state m ?c = ((), wput ?c bs)
      else \<exists>c'. run_state m ?c = ((), c') \<and> \<not> wc_ok c' \<and> wframe ?c c'"
    using w by (auto simp: writes_def)
  then show ?thesis by (auto simp: wc_run_def wput_def)
qed

section \<open>The law of readers and decoders\<close>

definition rc_inv :: "rcursor \<Rightarrow> bool" where
  "rc_inv c \<longleftrightarrow> rc_off c \<le> rc_len c \<and> unat (rc_len c) \<le> length (rc_p c)"

text \<open>The bytes not yet consumed.\<close>

definition rc_rest :: "rcursor \<Rightarrow> bytes" where
  "rc_rest c = drop (unat (rc_off c)) (take (unat (rc_len c)) (rc_p c))"

definition radv :: "rcursor \<Rightarrow> nat \<Rightarrow> rcursor" where
  "radv c n = c\<lparr>rc_off := rc_off c + of_nat n\<rparr>"

text \<open>
  \<open>reads f enc P\<close>: \<open>f\<close> consumes \<open>enc v\<close> and yields \<open>v\<close>; if it leaves \<^verbatim>\<open>ok\<close> set then it did so;
  and whether or not it succeeded its value satisfies \<open>P\<close>.
\<close>

definition reads :: "(rcursor, 'a) state \<Rightarrow> ('a \<Rightarrow> bytes) \<Rightarrow> ('a \<Rightarrow> bool) \<Rightarrow> bool" where
  "reads f enc P \<longleftrightarrow> (\<forall>c. rc_inv c \<longrightarrow>
     P (fst (run_state f c)) \<and> rc_inv (snd (run_state f c)) \<and>
     (\<forall>v ys. rc_ok c \<longrightarrow> P v \<longrightarrow> rc_rest c = enc v @ ys \<longrightarrow>
        run_state f c = (v, radv c (length (enc v)))) \<and>
     (rc_ok (snd (run_state f c)) \<longrightarrow>
        rc_ok c \<and> (\<exists>ys. rc_rest c = enc (fst (run_state f c)) @ ys)))"

definition accepts ::
  "obicall_status set \<Rightarrow> (rcursor, 'm res) state \<Rightarrow> (bytes \<Rightarrow> 'm \<Rightarrow> bool) \<Rightarrow> bool" where
  "accepts E d L \<longleftrightarrow> (\<forall>c. rc_inv c \<longrightarrow>
     (\<forall>m. fst (run_state d c) = Inr m \<longleftrightarrow>
        rc_ok c \<and> (\<exists>bs ys. rc_rest c = bs @ ys \<and> L bs m)) \<and>
     (\<forall>e. fst (run_state d c) = Inl e \<longrightarrow> e \<in> E))"

lemma length_rc_rest: "rc_inv c \<Longrightarrow> length (rc_rest c) = unat (rc_len c) - unat (rc_off c)"
  by (simp add: rc_inv_def rc_rest_def)

lemma radv_facts:
  assumes inv: "rc_inv c" and n: "n \<le> length (rc_rest c)"
  shows "rc_inv (radv c n)" and "rc_rest (radv c n) = drop n (rc_rest c)"
    and "rc_ok (radv c n) = rc_ok c"
proof -
  have off: "unat (rc_off c + of_nat n) = unat (rc_off c) + n"
    using inv n unat_off_advance [of "rc_off c" "rc_len c" n]
    by (simp add: length_rc_rest) (simp add: rc_inv_def)
  show "rc_inv (radv c n)"
    using inv n off by (simp add: length_rc_rest) (auto simp: rc_inv_def radv_def word_le_nat_alt)
  show "rc_rest (radv c n) = drop n (rc_rest c)"
    using off by (simp add: rc_rest_def radv_def add.commute)
  show "rc_ok (radv c n) = rc_ok c" by (simp add: radv_def)
qed

lemma radv_radv: "radv (radv c m) n = radv c (m + n)"
  by (simp add: radv_def add.assoc)

lemma run_rc_bytes:
  assumes inv: "rc_inv c" and len: "length dst = unat n"
  shows "run_state (rc_bytes dst n) c =
    (if rc_ok c \<and> unat n \<le> length (rc_rest c)
     then (take (unat n) (rc_rest c), radv c (unat n))
     else (dst, c\<lparr>rc_ok := False\<rparr>))"
proof -
  have "unat (rc_len c - rc_off c) = length (rc_rest c)"
    using inv by (simp add: length_rc_rest) (simp add: rc_inv_def unat_sub)
  moreover have "take k (drop (unat (rc_off c)) (rc_p c)) = take k (rc_rest c)"
    if "k \<le> length (rc_rest c)" for k
    using that unfolding length_rc_rest [OF inv] by (simp add: rc_rest_def drop_take min_absorb1)
  ultimately show ?thesis
    using inv len by (auto simp: rc_bytes_def radv_def memcpy_zero word_less_nat_alt rc_rest_def)
qed

lemma reads_bytes [codec_intros]:
  assumes "length dst = unat n"
  shows "reads (rc_bytes dst n) (\<lambda>v. v) (\<lambda>v. length v = unat n)"
  unfolding reads_def
proof (intro allI impI)
  fix c assume inv: "rc_inv c"
  have inv': "rc_inv (c\<lparr>rc_ok := False\<rparr>)" using inv by (simp add: rc_inv_def)
  show "length (fst (run_state (rc_bytes dst n) c)) = unat n \<and>
     rc_inv (snd (run_state (rc_bytes dst n) c)) \<and>
     (\<forall>v ys. rc_ok c \<longrightarrow> length v = unat n \<longrightarrow> rc_rest c = v @ ys \<longrightarrow>
        run_state (rc_bytes dst n) c = (v, radv c (length v))) \<and>
     (rc_ok (snd (run_state (rc_bytes dst n) c)) \<longrightarrow>
        rc_ok c \<and> (\<exists>ys. rc_rest c = fst (run_state (rc_bytes dst n) c) @ ys))"
    using assms radv_facts [OF inv, of "unat n"] inv'
    by (auto simp: run_rc_bytes [OF inv assms] min_def intro!: exI [of _ "drop (unat n) (rc_rest c)"])
qed

lemma reads_mapped:
  assumes f: "reads f enc P" and inv: "\<And>v. P v \<Longrightarrow> Q (h v)"
    and enc: "\<And>v. P v \<Longrightarrow> enc' (h v) = enc v"
    and dec: "\<And>w. Q w \<Longrightarrow> P (g w) \<and> h (g w) = w"
  shows "reads (do { v \<leftarrow> f; State_Monad.return (h v) }) enc' Q"
  unfolding reads_def
proof (intro allI impI conjI)
  fix c assume c: "rc_inv c"
  note fc = f [unfolded reads_def, rule_format, OF c]
  have P: "P (fst (run_state f c))" using fc by blast
  let ?r = "run_state (do { v \<leftarrow> f; State_Monad.return (h v) }) c"
  have r: "?r = (h (fst (run_state f c)), snd (run_state f c))"
    by (simp add: State_Monad.return_def case_prod_unfold)
  show "Q (fst ?r)" using inv [OF P] unfolding r by simp
  show "rc_inv (snd ?r)" using fc unfolding r by simp
  show "run_state (do { v \<leftarrow> f; State_Monad.return (h v) }) c = (v, radv c (length (enc' v)))"
    if "rc_ok c" "Q v" "rc_rest c = enc' v @ ys" for v ys
  proof -
    have g: "P (g v)" "h (g v) = v" using dec [OF that(2)] by auto
    then have "rc_rest c = enc (g v) @ ys" using that enc [OF g(1)] by simp
    then have "run_state f c = (g v, radv c (length (enc (g v))))"
      using fc g(1) that(1) by blast
    then show ?thesis using enc [OF g(1)] g unfolding r by simp
  qed
  assume "rc_ok (snd ?r)"
  then have "rc_ok (snd (run_state f c))" unfolding r by simp
  then show "rc_ok c" and "\<exists>ys. rc_rest c = enc' (fst ?r) @ ys"
    using fc enc [OF P] unfolding r by simp_all
qed

lemma reads_u8 [codec_intros]: "reads rc_u8 (\<lambda>v. [v]) (\<lambda>_. True)"
  unfolding rc_u8_def
  by (rule reads_mapped [where g = "\<lambda>v. [v]", OF reads_bytes])
     (auto simp: length_Suc_conv numeral_2_eq_2)

lemma reads_le_word:
  assumes "LENGTH('a) = 8 * k" and "unat n = k" and "length dst = k"
  shows "reads (do { b \<leftarrow> rc_bytes dst n; State_Monad.return (le_word b :: 'a::len word) })
    (le_bytes k) (\<lambda>_. True)"
  by (rule reads_mapped [where g = "le_bytes k", OF reads_bytes])
     (use assms le_bytes_le_word [where 'a = 'a] in auto)

lemma reads_u16 [codec_intros]: "reads rc_u16 (le_bytes 2) (\<lambda>_. True)"
  unfolding rc_u16_def by (rule reads_le_word) simp_all

lemma reads_u32 [codec_intros]: "reads rc_u32 (le_bytes 4) (\<lambda>_. True)"
  unfolding rc_u32_def by (rule reads_le_word) simp_all

lemma reads_u64 [codec_intros]: "reads rc_u64 (le_bytes 8) (\<lambda>_. True)"
  unfolding rc_u64_def by (rule reads_le_word) simp_all

lemma reads_i64 [codec_intros]: "reads rc_i64 (le_bytes 8) (\<lambda>_. True)"
  unfolding rc_i64_def by (rule reads_u64)

lemma reads_i32 [codec_intros]: "reads rc_i32 (le_bytes 4) (\<lambda>_. True)"
  unfolding rc_i32_def by (rule reads_u32)

lemma reads_f64 [codec_intros]: "reads rc_f64 (\<lambda>v. le_bytes 8 (dbits v)) (\<lambda>_. True)"
  unfolding rc_f64_def by (rule reads_mapped [where g = dbits, OF reads_u64]) simp_all

lemma reads_fixed [codec_intros]:
  "length dst = unat n \<Longrightarrow> reads (rc_fixed dst n) (\<lambda>v. v) (\<lambda>v. length v = unat n)"
  unfolding rc_fixed_def by (rule reads_bytes)

text \<open>Reading one field after another, where the final value determines the first field.\<close>

lemma reads_bind:
  assumes f: "reads f e P" and g: "\<And>a. P a \<Longrightarrow> reads (g a) e' (\<lambda>v. Q v \<and> pr v = a)"
  shows "reads (f \<bind> g) (\<lambda>v. e (pr v) @ e' v) (\<lambda>v. P (pr v) \<and> Q v)"
  unfolding reads_def
proof (intro allI impI conjI)
  fix c assume c: "rc_inv c"
  define a c1 where "a = fst (run_state f c)" and "c1 = snd (run_state f c)"
  note fc = f [unfolded reads_def, rule_format, OF c]
  have a: "P a" and c1: "rc_inv c1" using fc by (simp_all add: a_def c1_def)
  have run: "run_state (f \<bind> g) c = run_state (g a) c1"
    by (simp add: a_def c1_def case_prod_unfold)
  note ga = g [OF a, unfolded reads_def, rule_format, OF c1]
  show "P (pr (fst (run_state (f \<bind> g) c)))" and "Q (fst (run_state (f \<bind> g) c))"
    and "rc_inv (snd (run_state (f \<bind> g) c))" using ga a unfolding run by simp_all
  show "run_state (f \<bind> g) c = (v, radv c (length (e (pr v) @ e' v)))"
    if "rc_ok c" "P (pr v) \<and> Q v" "rc_rest c = (e (pr v) @ e' v) @ ys" for v ys
  proof -
    have "run_state f c = (pr v, radv c (length (e (pr v))))"
      using fc that by (metis append.assoc)
    then have eq: "a = pr v" "c1 = radv c (length (e (pr v)))" by (simp_all add: a_def c1_def)
    have "rc_ok c1" "rc_rest c1 = e' v @ ys"
      using that radv_facts [OF c, of "length (e (pr v))"] by (simp_all add: eq)
    then have "run_state (g a) c1 = (v, radv c1 (length (e' v)))"
      using ga that eq by blast
    then show ?thesis unfolding run by (simp add: eq radv_radv)
  qed
  assume "rc_ok (snd (run_state (f \<bind> g) c))"
  then have ok: "rc_ok (snd (run_state (g a) c1))" unfolding run .
  then have ok1: "rc_ok c1" and "\<exists>ys. rc_rest c1 = e' (fst (run_state (g a) c1)) @ ys"
    using ga by blast+
  then obtain ys where ys: "rc_rest c1 = e' (fst (run_state (g a) c1)) @ ys" by blast
  have okc: "rc_ok c" and "\<exists>zs. rc_rest c = e a @ zs"
    using fc ok1 unfolding a_def c1_def by blast+
  then obtain zs where zs: "rc_rest c = e a @ zs" by blast
  then have "run_state f c = (a, radv c (length (e a)))"
    using fc a okc by blast
  then have "c1 = radv c (length (e a))" by (simp add: c1_def)
  then have "rc_rest c1 = zs" using radv_facts [OF c, of "length (e a)"] zs by simp
  then show "rc_ok c" and "\<exists>ys. rc_rest c = (e (pr (fst (run_state (f \<bind> g) c)))
      @ e' (fst (run_state (f \<bind> g) c))) @ ys"
    using okc zs ys ga unfolding run by auto
qed

lemma reads_return: "reads (State_Monad.return x) (\<lambda>_. []) (\<lambda>v. v = x)"
  by (auto simp: reads_def State_Monad.return_def radv_def)

lemma reads_cong:
  assumes "reads f e P" and "\<And>v. P v \<longleftrightarrow> P' v" and "\<And>v. P' v \<Longrightarrow> e v = e' v"
  shows "reads f e' P'"
  unfolding reads_def
proof (intro allI impI conjI)
  fix c assume "rc_inv c"
  note fc = assms(1) [unfolded reads_def, rule_format, OF this]
  have P': "P' (fst (run_state f c))" using fc assms(2) by blast
  show "P' (fst (run_state f c))" and "rc_inv (snd (run_state f c))" using P' fc by blast+
  show "run_state f c = (v, radv c (length (e' v)))"
    if "rc_ok c" "P' v" "rc_rest c = e' v @ ys" for v ys
    using that fc assms(2) [of v] assms(3) [of v] by metis
  assume "rc_ok (snd (run_state f c))"
  then show "rc_ok c" and "\<exists>ys. rc_rest c = e' (fst (run_state f c)) @ ys"
    using fc assms(3) [OF P'] by simp_all
qed

lemma reads_each [codec_intros]:
  assumes "reads f enc P"
  shows "reads (rc_each n f) (\<lambda>xs. concat (map enc xs)) (\<lambda>xs. length xs = n \<and> list_all P xs)"
proof (induction n)
  case 0
  show ?case unfolding rc_each.simps by (rule reads_cong [OF reads_return]) auto
next
  case (Suc n)
  have "reads (do { xs \<leftarrow> rc_each n f; State_Monad.return (a # xs) })
      (\<lambda>v. concat (map enc (tl v))) (\<lambda>v. (length v = Suc n \<and> list_all P (tl v)) \<and> hd v = a)" for a
    by (rule reads_mapped [where g = tl, OF Suc]) (auto simp: length_Suc_conv)
  note reads_bind [OF assms this]
  then show ?case
    unfolding rc_each.simps
    by (rule reads_cong) (auto simp: length_Suc_conv)
qed

lemma accepts_read [codec_intros]:
  assumes f: "reads f enc P" and k: "\<And>a. P a \<Longrightarrow> accepts E (k a) (L a)"
  shows "accepts E (f \<bind> k) (\<lambda>bs m. \<exists>a bs'. P a \<and> bs = enc a @ bs' \<and> L a bs' m)"
  unfolding accepts_def
proof (intro allI impI conjI)
  fix c assume c: "rc_inv c"
  define a c1 where "a = fst (run_state f c)" and "c1 = snd (run_state f c)"
  note fc = f [unfolded reads_def, rule_format, OF c]
  have a: "P a" and c1: "rc_inv c1" using fc by (simp_all add: a_def c1_def)
  have run: "run_state (f \<bind> k) c = run_state (k a) c1"
    by (simp add: a_def c1_def case_prod_unfold)
  note ka = k [OF a, unfolded accepts_def, rule_format, OF c1]
  show "e \<in> E" if "fst (run_state (f \<bind> k) c) = Inl e" for e
    using that ka unfolding run by blast
  show "fst (run_state (f \<bind> k) c) = Inr m \<longleftrightarrow> rc_ok c \<and>
      (\<exists>bs ys. rc_rest c = bs @ ys \<and> (\<exists>a bs'. P a \<and> bs = enc a @ bs' \<and> L a bs' m))" for m
  proof
    assume "fst (run_state (f \<bind> k) c) = Inr m"
    then have "rc_ok c1" and "\<exists>bs ys. rc_rest c1 = bs @ ys \<and> L a bs m"
      using ka unfolding run by blast+
    then obtain bs ys where bs: "rc_rest c1 = bs @ ys" "L a bs m" by blast
    have ok: "rc_ok c" and "\<exists>zs. rc_rest c = enc a @ zs"
      using fc \<open>rc_ok c1\<close> unfolding a_def c1_def by blast+
    then obtain zs where zs: "rc_rest c = enc a @ zs" by blast
    then have "run_state f c = (a, radv c (length (enc a)))" using fc a ok by blast
    then have "rc_rest c1 = zs"
      using radv_facts [OF c, of "length (enc a)"] zs by (simp add: c1_def)
    then show "rc_ok c \<and>
      (\<exists>bs ys. rc_rest c = bs @ ys \<and> (\<exists>a bs'. P a \<and> bs = enc a @ bs' \<and> L a bs' m))"
      using ok zs bs a by (metis append.assoc)
  next
    assume "rc_ok c \<and>
      (\<exists>bs ys. rc_rest c = bs @ ys \<and> (\<exists>a bs'. P a \<and> bs = enc a @ bs' \<and> L a bs' m))"
    then obtain b bs ys where h: "rc_ok c" "P b" "rc_rest c = enc b @ bs @ ys" "L b bs m"
      by auto
    then have "run_state f c = (b, radv c (length (enc b)))" using fc by blast
    then have ab: "a = b" "c1 = radv c (length (enc b))" by (simp_all add: a_def c1_def)
    then have "rc_ok c1" "rc_rest c1 = bs @ ys"
      using radv_facts [OF c, of "length (enc b)"] h by simp_all
    then show "fst (run_state (f \<bind> k) c) = Inr m"
      using ka h ab unfolding run by blast
  qed
qed

lemma run_rc_check: "run_state (rc_check \<bind> k) c = run_state (k (rc_ok c)) c"
  by (simp add: rc_check_def)

lemma accepts_guard [codec_intros]:
  assumes "OBICALL_ERR_WIRE_MALFORMED \<in> E" and "\<not> bad \<Longrightarrow> accepts E k L"
  shows "accepts E (rc_guard bad k) (\<lambda>bs m. \<not> bad \<and> L bs m)"
  using assms unfolding accepts_def rc_guard_def run_rc_check
  by (auto simp: State_Monad.return_def)

lemma accepts_end [codec_intros]:
  assumes "OBICALL_ERR_WIRE_MALFORMED \<in> E"
  shows "accepts E (rc_end m) (\<lambda>bs m'. bs = [] \<and> m' = m)"
  using assms unfolding accepts_def rc_end_def run_rc_check
  by (auto simp: State_Monad.return_def)

lemma accepts_if [codec_intros]:
  assumes "b \<Longrightarrow> accepts E k L" and "\<not> b \<Longrightarrow> accepts E k' L'"
  shows "accepts E (if b then k else k') (\<lambda>bs m. if b then L bs m else L' bs m)"
  using assms by (cases b) simp_all

lemma accepts_fail [codec_intros]:
  assumes "e \<in> E"
  shows "accepts E (State_Monad.return (Inl e)) (\<lambda>bs m. False)"
  using assms by (simp add: accepts_def State_Monad.return_def)

lemma rc_run_accepts:
  assumes d: "accepts E d L" and len: "unat len \<le> length inp"
  shows "rc_run d inp len = Inr m \<longleftrightarrow> (\<exists>bs. prefix bs (take (unat len) inp) \<and> L bs m)"
    and "rc_run d inp len = Inl e \<Longrightarrow> e \<in> E"
proof -
  let ?c = "\<lparr>rc_p = inp, rc_len = len, rc_off = 0, rc_ok = True\<rparr>"
  have "rc_inv ?c" and rest: "rc_rest ?c = take (unat len) inp"
    using len by (simp_all add: rc_inv_def rc_rest_def)
  note dc = d [unfolded accepts_def, rule_format, OF this(1)]
  show "rc_run d inp len = Inr m \<longleftrightarrow> (\<exists>bs. prefix bs (take (unat len) inp) \<and> L bs m)"
    using dc rest by (auto simp: rc_run_def prefix_def)
  show "rc_run d inp len = Inl e \<Longrightarrow> e \<in> E"
    using dc by (auto simp: rc_run_def)
qed

text \<open>
  \<open>yields d xs r\<close>: on exactly the remaining bytes \<open>xs\<close>, decoder \<open>d\<close> returns \<open>r\<close>. It gives the error
  paths that \<open>accepts\<close> leaves open.
\<close>

definition yields :: "(rcursor, 'm res) state \<Rightarrow> bytes \<Rightarrow> 'm res \<Rightarrow> bool" where
  "yields d xs r \<longleftrightarrow>
     (\<forall>c. rc_inv c \<longrightarrow> rc_ok c \<longrightarrow> rc_rest c = xs \<longrightarrow> fst (run_state d c) = r)"

lemma yields_read:
  assumes "reads f enc P" and "P v" and "yields (k v) ys r"
  shows "yields (f \<bind> k) (enc v @ ys) r"
  unfolding yields_def
proof (intro allI impI)
  fix c assume c: "rc_inv c" "rc_ok c" "rc_rest c = enc v @ ys"
  then have f: "run_state f c = (v, radv c (length (enc v)))"
    using assms(1,2) unfolding reads_def by blast
  have "run_state (f \<bind> k) c = run_state (k v) (radv c (length (enc v)))"
    by (simp add: f)
  then show "fst (run_state (f \<bind> k) c) = r"
    using assms(3) c radv_facts [OF c(1), of "length (enc v)"] by (simp add: yields_def)
qed

lemma yields_guard:
  assumes "bad \<Longrightarrow> r = Inl OBICALL_ERR_WIRE_MALFORMED" and "\<not> bad \<Longrightarrow> yields k xs r"
  shows "yields (rc_guard bad k) xs r"
  using assms unfolding yields_def rc_guard_def run_rc_check
  by (cases bad) (simp_all add: State_Monad.return_def)

lemma yields_if:
  assumes "b \<Longrightarrow> yields k xs r" and "\<not> b \<Longrightarrow> yields k' xs r"
  shows "yields (if b then k else k') xs r"
  using assms by (cases b) simp_all

lemma yields_return: "r' = r \<Longrightarrow> yields (State_Monad.return r') xs r"
  by (simp add: yields_def State_Monad.return_def)

lemma yields_end: "r = Inr m \<Longrightarrow> yields (rc_end m) xs r"
  unfolding yields_def rc_end_def run_rc_check by (simp add: State_Monad.return_def)

lemma rc_run_yields:
  assumes "yields d (take (unat len) inp) r" and "unat len \<le> length inp"
  shows "rc_run d inp len = r"
  using assms by (simp add: yields_def rc_run_def rc_inv_def rc_rest_def)

end
