(* ===== verification/Wire_Codec.thy ===== *)
theory Wire_Codec
  imports Wire_Cursor
begin

text \<open>
  The contract of the payload codecs of \<^verbatim>\<open>include/obicall/wire.h\<close>, as two locales. An encoder
  writes the layout of a valid message and reports its length, or fails because the buffer is too
  small; a codec moreover has a decoder that accepts exactly the inputs starting with the layout of
  a valid message. What clients rely on (round trip, rejection of truncated input, no access beyond
  the declared lengths) is proved here once, and holds for every message by interpretation.

  A pointer argument is an \<open>option\<close>: \<open>None\<close> is \<^verbatim>\<open>NULL\<close>, and \<open>Some\<close> the contents before the call.
\<close>

abbreviation le_doubles :: "double list \<Rightarrow> bytes" where
  "le_doubles xs \<equiv> concat (map (\<lambda>d. le_bytes 8 (dbits d)) xs)"

lemma length_le_doubles [simp]: "length (le_doubles xs) = 8 * length xs"
  by (induction xs) simp_all

lemma le_doubles_inject:
  "length xs = length ys \<Longrightarrow> le_doubles xs = le_doubles ys \<longleftrightarrow> xs = ys"
  by (induction xs ys rule: list_induct2) (auto simp: le_bytes_inject double.expand)

lemma length_concat_const:
  "list_all (\<lambda>x. length x = n) xss \<Longrightarrow> length (concat xss) = n * length xss"
  by (induction xss) simp_all

lemma concat_const_inject:
  assumes "length xss = length yss"
    and "list_all (\<lambda>x. length x = n) xss" and "list_all (\<lambda>x. length x = n) yss"
  shows "concat xss = concat yss \<longleftrightarrow> xss = yss"
  using assms by (induction xss yss rule: list_induct2) auto

lemma accepts_cong:
  assumes "accepts E d L" and "\<And>bs m. L bs m \<longleftrightarrow> L' bs m"
  shows "accepts E d L'"
proof -
  have "L = L'" using assms(2) by (intro ext)
  then show ?thesis using assms(1) by simp
qed

text \<open>
  For the messages with many fields the two halves are proved separately: soundness from the
  relation that the rules synthesise, completeness by running the decoder.
\<close>

lemma accepts_sound_complete:
  assumes "accepts E d L" and "\<And>bs m. L bs m \<Longrightarrow> L' bs m"
    and "\<And>bs ys m. L' bs m \<Longrightarrow> yields d (bs @ ys) (Inr m)"
  shows "accepts E d L'"
  using assms unfolding accepts_def yields_def by metis

lemmas yields_fields = yields_guard yields_if yields_end yields_return
  yields_read [OF reads_u8] yields_read [OF reads_u32] yields_read [OF reads_u64]
  yields_read [OF reads_i64] yields_read [OF reads_i32] yields_read [OF reads_f64]
  yields_read [OF reads_bytes] yields_read [OF reads_fixed]
  yields_read [OF reads_each [OF reads_f64]]

locale wire_encoder =
  fixes encode :: "'m option \<Rightarrow> bytes option \<Rightarrow> u32 \<Rightarrow> u32 option \<Rightarrow> (bytes \<times> u32) res"
    and layout :: "'m \<Rightarrow> bytes"
    and valid :: "'m \<Rightarrow> bool"
  assumes encode_run: "valid m \<Longrightarrow> unat cap \<le> length out \<Longrightarrow>
      encode (Some m) (Some out) cap (Some l) =
        (if length (layout m) \<le> unat cap
         then Inr (memcpy out 0 (layout m), of_nat (length (layout m)))
         else Inl OBICALL_ERR_BUFFER_TOO_SMALL)"
    and encode_null: "pm = None \<or> pout = None \<or> plen = None \<Longrightarrow>
      encode pm pout cap plen = Inl OBICALL_ERR_NULL_POINTER"
begin

lemma encode_Inr:
  assumes "valid m" and "unat cap \<le> length out"
    and "encode (Some m) (Some out) cap (Some l) = Inr (out', n)"
  shows "unat n = length (layout m)" and "n \<le> cap" and "length out' = length out"
    and "take (unat n) out' = layout m" and "drop (unat n) out' = drop (unat n) out"
proof -
  have fits: "length (layout m) \<le> unat cap"
    and out': "out' = memcpy out 0 (layout m)" and n: "n = of_nat (length (layout m))"
    using assms encode_run [OF assms(1,2)] by (auto split: if_splits)
  have "unat cap < 2 ^ LENGTH(32)" by (rule unsigned_less)
  then show un: "unat n = length (layout m)"
    using fits n by (simp add: unat_of_nat)
  then show "n \<le> cap" using fits by (simp add: word_le_nat_alt)
  show "length out' = length out" using fits assms(2) by (simp add: out')
  show "take (unat n) out' = layout m" and "drop (unat n) out' = drop (unat n) out"
    by (simp_all add: un out' memcpy_zero)
qed

lemma encode_succeeds_iff:
  assumes "valid m" and "unat cap \<le> length out"
  shows "(\<exists>r. encode (Some m) (Some out) cap (Some l) = Inr r) \<longleftrightarrow> length (layout m) \<le> unat cap"
  by (simp add: encode_run [OF assms])

end

locale wire_codec = wire_encoder encode layout valid
  for encode :: "'m option \<Rightarrow> bytes option \<Rightarrow> u32 \<Rightarrow> u32 option \<Rightarrow> (bytes \<times> u32) res"
    and layout :: "'m \<Rightarrow> bytes"
    and valid :: "'m \<Rightarrow> bool" +
  fixes decode :: "bytes option \<Rightarrow> u32 \<Rightarrow> 'm option \<Rightarrow> 'm res"
    and norm :: "'m \<Rightarrow> 'm"
  assumes decode_iff: "unat len \<le> length inp \<Longrightarrow>
      decode (Some inp) len (Some old) = Inr m \<longleftrightarrow>
        (\<exists>m0. valid m0 \<and> m = norm m0 \<and> prefix (layout m0) (take (unat len) inp))"
    and decode_error: "unat len \<le> length inp \<Longrightarrow>
      decode (Some inp) len (Some old) = Inl e \<Longrightarrow> e = OBICALL_ERR_WIRE_MALFORMED"
    and decode_null: "pin = None \<or> pout = None \<Longrightarrow>
      decode pin len pout = Inl OBICALL_ERR_NULL_POINTER"
    and valid_norm: "valid m \<Longrightarrow> valid (norm m)"
    and norm_norm: "valid m \<Longrightarrow> norm (norm m) = norm m"
    and length_layout_norm: "valid m \<Longrightarrow> length (layout (norm m)) = length (layout m)"
begin

lemma decode_prefix:
  assumes "valid m" and "unat len \<le> length inp" and "prefix (layout m) (take (unat len) inp)"
  shows "decode (Some inp) len (Some old) = Inr (norm m)"
  using assms decode_iff by blast

lemma roundtrip:
  assumes "valid m" and "unat cap \<le> length out" and "length (layout m) \<le> unat cap"
  shows "\<exists>out' n. encode (Some m) (Some out) cap (Some l) = Inr (out', n)
    \<and> decode (Some out') n (Some old) = Inr (norm m)"
proof -
  obtain out' n where e: "encode (Some m) (Some out) cap (Some l) = Inr (out', n)"
    using assms encode_run by simp
  note f = encode_Inr [OF assms(1,2) e]
  have "unat n \<le> length out'" using f assms(2) by (simp add: word_le_nat_alt)
  moreover have "prefix (layout m) (take (unat n) out')" unfolding f(4) by simp
  ultimately show ?thesis using e decode_prefix [OF assms(1)] by blast
qed

text \<open>Valid messages whose encodings are comparable as prefixes are the same message.\<close>

lemma layout_prefix_unique:
  assumes "valid m" and "valid m'" and "prefix (layout m) bs" and "prefix (layout m') bs"
    and "length bs < 2 ^ 32"
  shows "norm m = norm m'"
proof -
  have "unat (of_nat (length bs) :: u32) = length bs" using assms(5) by (simp add: unat_of_nat)
  then have "decode (Some bs) (of_nat (length bs)) (Some m) = Inr (norm x)"
    if "valid x" "prefix (layout x) bs" for x
    using that decode_prefix [of x "of_nat (length bs)" bs] by simp
  from this [OF assms(1,3)] this [OF assms(2,4)] show ?thesis by simp
qed

lemma decode_truncated:
  assumes m: "valid m" and "unat cap \<le> length out"
    and "encode (Some m) (Some out) cap (Some l) = Inr (out', n)" and k: "k < n"
  shows "decode (Some out') k (Some old) = Inl OBICALL_ERR_WIRE_MALFORMED"
proof -
  note f = encode_Inr [OF assms(1-3)]
  have kn: "unat k < length (layout m)" and klen: "unat k \<le> length out'"
    using k f assms(2) by (simp_all add: word_less_nat_alt word_le_nat_alt)
  have "decode (Some out') k (Some old) \<noteq> Inr m'" for m'
  proof
    assume "decode (Some out') k (Some old) = Inr m'"
    then obtain m0 where m0: "valid m0" "prefix (layout m0) (take (unat k) out')"
      using decode_iff [OF klen] by blast
    have "take (unat k) out' = take (unat k) (layout m)"
      using f(4) kn f(1) by (metis less_imp_le min.absorb1 take_take)
    then have p: "prefix (layout m0) (layout m)" using m0(2) by (metis prefix_order.trans take_is_prefix)
    have "length (layout m) < 2 ^ 32"
      unfolding f(1) [symmetric] using unsigned_less [of n, where ?'a = nat] by simp
    then have "norm m0 = norm m" using layout_prefix_unique [OF m0(1) m p] by simp
    then have "length (layout m0) = length (layout m)"
      using length_layout_norm m m0(1) by metis
    moreover have "length (layout m0) \<le> unat k"
      using m0(2) prefix_length_le by fastforce
    ultimately show False using kn by simp
  qed
  then show ?thesis using decode_error [OF klen] by (cases "decode (Some out') k (Some old)") auto
qed

text \<open>The decoder reads nothing beyond the declared length.\<close>

lemma decode_local:
  assumes "unat len \<le> length inp" and "unat len \<le> length inp'"
    and "take (unat len) inp = take (unat len) inp'"
  shows "decode (Some inp) len (Some old) = decode (Some inp') len (Some old')"
proof (cases "decode (Some inp) len (Some old)")
  case (Inr m)
  then show ?thesis using decode_iff [OF assms(1)] decode_iff [OF assms(2)] assms(3) by metis
next
  case (Inl e)
  then have "decode (Some inp') len (Some old') \<noteq> Inr m" for m
    using decode_iff [OF assms(1)] decode_iff [OF assms(2)] assms(3)
    by (metis Inl_Inr_False)
  then show ?thesis
    using Inl decode_error [OF assms(1)] decode_error [OF assms(2)]
    by (cases "decode (Some inp') len (Some old')") auto
qed

text \<open>What an accepted input decodes to re-encodes to the bytes it was read from, up to \<open>norm\<close>.\<close>

lemma decode_canonical:
  assumes "unat len \<le> length inp" and "decode (Some inp) len (Some old) = Inr m"
  shows "valid m" and "norm m = m" and "length (layout m) \<le> unat len"
proof -
  obtain m0 where m0: "valid m0" "m = norm m0" "prefix (layout m0) (take (unat len) inp)"
    using assms decode_iff by blast
  show "valid m" and "norm m = m" using m0 valid_norm norm_norm by simp_all
  show "length (layout m) \<le> unat len"
    using m0 length_layout_norm [OF m0(1)] prefix_length_le [OF m0(3)] assms(1) by simp
qed

end

section \<open>The frame of an encoder and a decoder\<close>

text \<open>
  \<^verbatim>\<open>if (!m || !out || !out_len) return OBICALL_ERR_NULL_POINTER;\<close>, the message's own bound check,
  then the field writes over a cursor on \<^verbatim>\<open>out\<close>.
\<close>

definition wire_encode :: "('m \<Rightarrow> bool) \<Rightarrow> ('m \<Rightarrow> (wcursor, unit) state) \<Rightarrow>
    'm option \<Rightarrow> bytes option \<Rightarrow> u32 \<Rightarrow> u32 option \<Rightarrow> (bytes \<times> u32) res" where
  "wire_encode malformed put m out out_cap out_len =
     (case (m, out, out_len) of
        (Some m, Some out, Some _) \<Rightarrow>
          if malformed m then Inl OBICALL_ERR_WIRE_MALFORMED else wc_run (put m) out out_cap
      | _ \<Rightarrow> Inl OBICALL_ERR_NULL_POINTER)"

definition wire_decode :: "(rcursor, 'm res) state \<Rightarrow> bytes option \<Rightarrow> u32 \<Rightarrow> 'm option \<Rightarrow> 'm res" where
  "wire_decode get inp in_len out =
     (case (inp, out) of
        (Some inp, Some _) \<Rightarrow> rc_run get inp in_len
      | _ \<Rightarrow> Inl OBICALL_ERR_NULL_POINTER)"

lemma wire_encoder_intro:
  assumes "\<And>m. valid m \<Longrightarrow> \<not> malformed m"
    and "\<And>m. valid m \<Longrightarrow> writes (put m) (layout m)"
  shows "wire_encoder (wire_encode malformed put) layout valid"
  by unfold_locales
     (auto simp: wire_encode_def assms wc_run_writes split: option.split)

lemma wire_codec_intro:
  assumes "\<And>m. valid m \<Longrightarrow> \<not> malformed m"
    and "\<And>m. valid m \<Longrightarrow> writes (put m) (layout m)"
    and get: "accepts {OBICALL_ERR_WIRE_MALFORMED} get
      (\<lambda>bs m. \<exists>m0. valid m0 \<and> m = norm m0 \<and> bs = layout m0)"
    and norm: "\<And>m. valid m \<Longrightarrow>
      valid (norm m) \<and> norm (norm m) = norm m \<and> length (layout (norm m)) = length (layout m)"
  shows "wire_codec (wire_encode malformed put) layout valid (wire_decode get) norm"
proof (rule wire_codec.intro [OF wire_encoder_intro [OF assms(1,2)]], assumption, assumption,
    unfold_locales)
  fix len :: u32 and inp :: bytes and old m and e
  assume len: "unat len \<le> length inp"
  show "wire_decode get (Some inp) len (Some old) = Inr m \<longleftrightarrow>
      (\<exists>m0. valid m0 \<and> m = norm m0 \<and> prefix (layout m0) (take (unat len) inp))"
    using rc_run_accepts(1) [OF get len] by (auto simp: wire_decode_def)
  show "e = OBICALL_ERR_WIRE_MALFORMED" if "wire_decode get (Some inp) len (Some old) = Inl e"
    using rc_run_accepts(2) [OF get len] that by (auto simp: wire_decode_def)
qed (use norm in \<open>auto simp: wire_decode_def split: option.split\<close>)

end
