(* ===== verification/Wire_Control.thy ===== *)
theory Wire_Control
  imports Wire_Codec
begin

text \<open>
  The frame header and the fixed-size control messages of \<^verbatim>\<open>src/core/wire.c\<close>: for each message
  its record, the field-by-field writer and reader, the two entry points, the byte layout they
  implement, and the interpretation of \<open>wire_codec\<close> that discharges the codec contract.
\<close>

section \<open>Control messages\<close>

subsection \<open>auth_hello\<close>

record obicall_msg_auth_hello =
  ah_protocol_version :: u32
  ah_role :: u32
  ah_run_token :: bytes

definition put_auth_hello :: "obicall_msg_auth_hello \<Rightarrow> (wcursor, unit) state" where
  "put_auth_hello m = do {
     wc_u32 (ah_protocol_version m);
     wc_u32 (ah_role m);
     wc_bytes (ah_run_token m) OBICALL_RUN_TOKEN_LEN }"

definition get_auth_hello :: "(rcursor, obicall_msg_auth_hello res) state" where
  "get_auth_hello = do {
     protocol_version \<leftarrow> rc_u32;
     role \<leftarrow> rc_u32;
     run_token \<leftarrow> rc_bytes (replicate 32 0) OBICALL_RUN_TOKEN_LEN;
     rc_end \<lparr>ah_protocol_version = protocol_version, ah_role = role,
       ah_run_token = run_token\<rparr> }"

definition obicall_wire_encode_auth_hello where
  "obicall_wire_encode_auth_hello = wire_encode (\<lambda>_. False) put_auth_hello"

definition obicall_wire_decode_auth_hello where
  "obicall_wire_decode_auth_hello = wire_decode get_auth_hello"

definition auth_hello_layout :: "obicall_msg_auth_hello \<Rightarrow> bytes" where
  "auth_hello_layout m =
     le_bytes 4 (ah_protocol_version m) @ le_bytes 4 (ah_role m) @ ah_run_token m"

definition wf_auth_hello :: "obicall_msg_auth_hello \<Rightarrow> bool" where
  "wf_auth_hello m \<longleftrightarrow> length (ah_run_token m) = 32"

lemma length_auth_hello_layout [layout_simps]: "wf_auth_hello m \<Longrightarrow> length (auth_hello_layout m) = 40"
  by (simp add: auth_hello_layout_def wf_auth_hello_def)

interpretation auth_hello: wire_codec obicall_wire_encode_auth_hello auth_hello_layout wf_auth_hello
  obicall_wire_decode_auth_hello "\<lambda>m. m"
  unfolding obicall_wire_encode_auth_hello_def obicall_wire_decode_auth_hello_def
proof (rule wire_codec_intro)
  show "writes (put_auth_hello m) (auth_hello_layout m)" if "wf_auth_hello m" for m
    using that unfolding put_auth_hello_def auth_hello_layout_def wf_auth_hello_def
    by (intro codec_intros) simp_all
  show "accepts {OBICALL_ERR_WIRE_MALFORMED} get_auth_hello
      (\<lambda>bs m. \<exists>m0. wf_auth_hello m0 \<and> m = m0 \<and> bs = auth_hello_layout m0)"
    unfolding get_auth_hello_def
    by (rule accepts_cong, ((rule codec_intros | simp)+)[1])
       (auto simp: auth_hello_layout_def wf_auth_hello_def le_bytes_inject cong: conj_cong)
qed simp_all

subsection \<open>heartbeat\<close>

record obicall_msg_heartbeat =
  hb_broker_id :: u32
  hb_epoch :: u64
  hb_last_window_seq :: u64
  hb_config_digest :: bytes
  hb_checkpoint_schema_version :: u32
  hb_healthy :: u32
  hb_sent_at_ns :: i64

definition put_heartbeat :: "obicall_msg_heartbeat \<Rightarrow> (wcursor, unit) state" where
  "put_heartbeat m = do {
     wc_u32 (hb_broker_id m);
     wc_u64 (hb_epoch m);
     wc_u64 (hb_last_window_seq m);
     wc_bytes (hb_config_digest m) OBICALL_DIGEST_LEN;
     wc_u32 (hb_checkpoint_schema_version m);
     wc_u32 (hb_healthy m);
     wc_i64 (hb_sent_at_ns m) }"

definition get_heartbeat :: "(rcursor, obicall_msg_heartbeat res) state" where
  "get_heartbeat = do {
     broker_id \<leftarrow> rc_u32;
     epoch \<leftarrow> rc_u64;
     last_window_seq \<leftarrow> rc_u64;
     config_digest \<leftarrow> rc_bytes (replicate 32 0) OBICALL_DIGEST_LEN;
     checkpoint_schema_version \<leftarrow> rc_u32;
     healthy \<leftarrow> rc_u32;
     sent_at_ns \<leftarrow> rc_i64;
     rc_end \<lparr>hb_broker_id = broker_id, hb_epoch = epoch,
       hb_last_window_seq = last_window_seq, hb_config_digest = config_digest,
       hb_checkpoint_schema_version = checkpoint_schema_version, hb_healthy = healthy,
       hb_sent_at_ns = sent_at_ns\<rparr> }"

definition obicall_wire_encode_heartbeat where
  "obicall_wire_encode_heartbeat = wire_encode (\<lambda>_. False) put_heartbeat"

definition obicall_wire_decode_heartbeat where
  "obicall_wire_decode_heartbeat = wire_decode get_heartbeat"

definition heartbeat_layout :: "obicall_msg_heartbeat \<Rightarrow> bytes" where
  "heartbeat_layout m =
     le_bytes 4 (hb_broker_id m) @ le_bytes 8 (hb_epoch m) @ le_bytes 8 (hb_last_window_seq m) @
     hb_config_digest m @ le_bytes 4 (hb_checkpoint_schema_version m) @
     le_bytes 4 (hb_healthy m) @ le_bytes 8 (hb_sent_at_ns m)"

definition wf_heartbeat :: "obicall_msg_heartbeat \<Rightarrow> bool" where
  "wf_heartbeat m \<longleftrightarrow> length (hb_config_digest m) = 32"

lemma length_heartbeat_layout [layout_simps]: "wf_heartbeat m \<Longrightarrow> length (heartbeat_layout m) = 68"
  by (simp add: heartbeat_layout_def wf_heartbeat_def)

interpretation heartbeat: wire_codec obicall_wire_encode_heartbeat heartbeat_layout wf_heartbeat
  obicall_wire_decode_heartbeat "\<lambda>m. m"
  unfolding obicall_wire_encode_heartbeat_def obicall_wire_decode_heartbeat_def
proof (rule wire_codec_intro)
  show "writes (put_heartbeat m) (heartbeat_layout m)" if "wf_heartbeat m" for m
    using that unfolding put_heartbeat_def heartbeat_layout_def wf_heartbeat_def
    by (intro codec_intros) simp_all
  show "accepts {OBICALL_ERR_WIRE_MALFORMED} get_heartbeat
      (\<lambda>bs m. \<exists>m0. wf_heartbeat m0 \<and> m = m0 \<and> bs = heartbeat_layout m0)"
    unfolding get_heartbeat_def
    by (rule accepts_cong, ((rule codec_intros | simp)+)[1])
       (auto simp: heartbeat_layout_def wf_heartbeat_def le_bytes_inject cong: conj_cong)
qed simp_all

subsection \<open>epoch_grant\<close>

record obicall_msg_epoch_grant =
  eg_new_epoch :: u64
  eg_granted_to_broker_id :: u32
  eg_granted_at_ns :: i64

definition put_epoch_grant :: "obicall_msg_epoch_grant \<Rightarrow> (wcursor, unit) state" where
  "put_epoch_grant m = do {
     wc_u64 (eg_new_epoch m);
     wc_u32 (eg_granted_to_broker_id m);
     wc_i64 (eg_granted_at_ns m) }"

definition get_epoch_grant :: "(rcursor, obicall_msg_epoch_grant res) state" where
  "get_epoch_grant = do {
     new_epoch \<leftarrow> rc_u64;
     granted_to_broker_id \<leftarrow> rc_u32;
     granted_at_ns \<leftarrow> rc_i64;
     rc_end \<lparr>eg_new_epoch = new_epoch, eg_granted_to_broker_id = granted_to_broker_id,
       eg_granted_at_ns = granted_at_ns\<rparr> }"

definition obicall_wire_encode_epoch_grant where
  "obicall_wire_encode_epoch_grant = wire_encode (\<lambda>_. False) put_epoch_grant"

definition obicall_wire_decode_epoch_grant where
  "obicall_wire_decode_epoch_grant = wire_decode get_epoch_grant"

definition epoch_grant_layout :: "obicall_msg_epoch_grant \<Rightarrow> bytes" where
  "epoch_grant_layout m =
     le_bytes 8 (eg_new_epoch m) @ le_bytes 4 (eg_granted_to_broker_id m) @
     le_bytes 8 (eg_granted_at_ns m)"

definition wf_epoch_grant :: "obicall_msg_epoch_grant \<Rightarrow> bool" where
  "wf_epoch_grant m \<longleftrightarrow> True"

lemma length_epoch_grant_layout [layout_simps]: "wf_epoch_grant m \<Longrightarrow> length (epoch_grant_layout m) = 20"
  by (simp add: epoch_grant_layout_def wf_epoch_grant_def)

interpretation epoch_grant: wire_codec obicall_wire_encode_epoch_grant epoch_grant_layout wf_epoch_grant
  obicall_wire_decode_epoch_grant "\<lambda>m. m"
  unfolding obicall_wire_encode_epoch_grant_def obicall_wire_decode_epoch_grant_def
proof (rule wire_codec_intro)
  show "writes (put_epoch_grant m) (epoch_grant_layout m)" if "wf_epoch_grant m" for m
    using that unfolding put_epoch_grant_def epoch_grant_layout_def wf_epoch_grant_def
    by (intro codec_intros)
  show "accepts {OBICALL_ERR_WIRE_MALFORMED} get_epoch_grant
      (\<lambda>bs m. \<exists>m0. wf_epoch_grant m0 \<and> m = m0 \<and> bs = epoch_grant_layout m0)"
    unfolding get_epoch_grant_def
    by (rule accepts_cong, ((rule codec_intros | simp)+)[1])
       (auto simp: epoch_grant_layout_def wf_epoch_grant_def le_bytes_inject cong: conj_cong)
qed simp_all

subsection \<open>epoch_revoke\<close>

record obicall_msg_epoch_revoke =
  er_revoked_epoch :: u64
  er_revoked_broker_id :: u32
  er_revoked_at_ns :: i64
  er_reason_code :: u32

definition put_epoch_revoke :: "obicall_msg_epoch_revoke \<Rightarrow> (wcursor, unit) state" where
  "put_epoch_revoke m = do {
     wc_u64 (er_revoked_epoch m);
     wc_u32 (er_revoked_broker_id m);
     wc_i64 (er_revoked_at_ns m);
     wc_u32 (er_reason_code m) }"

definition get_epoch_revoke :: "(rcursor, obicall_msg_epoch_revoke res) state" where
  "get_epoch_revoke = do {
     revoked_epoch \<leftarrow> rc_u64;
     revoked_broker_id \<leftarrow> rc_u32;
     revoked_at_ns \<leftarrow> rc_i64;
     reason_code \<leftarrow> rc_u32;
     rc_end \<lparr>er_revoked_epoch = revoked_epoch, er_revoked_broker_id = revoked_broker_id,
       er_revoked_at_ns = revoked_at_ns, er_reason_code = reason_code\<rparr> }"

definition obicall_wire_encode_epoch_revoke where
  "obicall_wire_encode_epoch_revoke = wire_encode (\<lambda>_. False) put_epoch_revoke"

definition obicall_wire_decode_epoch_revoke where
  "obicall_wire_decode_epoch_revoke = wire_decode get_epoch_revoke"

definition epoch_revoke_layout :: "obicall_msg_epoch_revoke \<Rightarrow> bytes" where
  "epoch_revoke_layout m =
     le_bytes 8 (er_revoked_epoch m) @ le_bytes 4 (er_revoked_broker_id m) @
     le_bytes 8 (er_revoked_at_ns m) @ le_bytes 4 (er_reason_code m)"

definition wf_epoch_revoke :: "obicall_msg_epoch_revoke \<Rightarrow> bool" where
  "wf_epoch_revoke m \<longleftrightarrow> True"

lemma length_epoch_revoke_layout [layout_simps]: "wf_epoch_revoke m \<Longrightarrow> length (epoch_revoke_layout m) = 24"
  by (simp add: epoch_revoke_layout_def wf_epoch_revoke_def)

interpretation epoch_revoke: wire_codec obicall_wire_encode_epoch_revoke epoch_revoke_layout wf_epoch_revoke
  obicall_wire_decode_epoch_revoke "\<lambda>m. m"
  unfolding obicall_wire_encode_epoch_revoke_def obicall_wire_decode_epoch_revoke_def
proof (rule wire_codec_intro)
  show "writes (put_epoch_revoke m) (epoch_revoke_layout m)" if "wf_epoch_revoke m" for m
    using that unfolding put_epoch_revoke_def epoch_revoke_layout_def wf_epoch_revoke_def
    by (intro codec_intros)
  show "accepts {OBICALL_ERR_WIRE_MALFORMED} get_epoch_revoke
      (\<lambda>bs m. \<exists>m0. wf_epoch_revoke m0 \<and> m = m0 \<and> bs = epoch_revoke_layout m0)"
    unfolding get_epoch_revoke_def
    by (rule accepts_cong, ((rule codec_intros | simp)+)[1])
       (auto simp: epoch_revoke_layout_def wf_epoch_revoke_def le_bytes_inject cong: conj_cong)
qed simp_all

subsection \<open>readiness_report\<close>

record obicall_msg_readiness_report =
  rr_broker_id :: u32
  rr_config_digest :: bytes
  rr_checkpoint_schema_version :: u32
  rr_last_processed_window_seq :: u64
  rr_healthy :: u32

definition put_readiness_report :: "obicall_msg_readiness_report \<Rightarrow> (wcursor, unit) state" where
  "put_readiness_report m = do {
     wc_u32 (rr_broker_id m);
     wc_bytes (rr_config_digest m) OBICALL_DIGEST_LEN;
     wc_u32 (rr_checkpoint_schema_version m);
     wc_u64 (rr_last_processed_window_seq m);
     wc_u32 (rr_healthy m) }"

definition get_readiness_report :: "(rcursor, obicall_msg_readiness_report res) state" where
  "get_readiness_report = do {
     broker_id \<leftarrow> rc_u32;
     config_digest \<leftarrow> rc_bytes (replicate 32 0) OBICALL_DIGEST_LEN;
     checkpoint_schema_version \<leftarrow> rc_u32;
     last_processed_window_seq \<leftarrow> rc_u64;
     healthy \<leftarrow> rc_u32;
     rc_end \<lparr>rr_broker_id = broker_id, rr_config_digest = config_digest,
       rr_checkpoint_schema_version = checkpoint_schema_version,
       rr_last_processed_window_seq = last_processed_window_seq, rr_healthy = healthy\<rparr> }"

definition obicall_wire_encode_readiness_report where
  "obicall_wire_encode_readiness_report = wire_encode (\<lambda>_. False) put_readiness_report"

definition obicall_wire_decode_readiness_report where
  "obicall_wire_decode_readiness_report = wire_decode get_readiness_report"

definition readiness_report_layout :: "obicall_msg_readiness_report \<Rightarrow> bytes" where
  "readiness_report_layout m =
     le_bytes 4 (rr_broker_id m) @ rr_config_digest m @
     le_bytes 4 (rr_checkpoint_schema_version m) @ le_bytes 8 (rr_last_processed_window_seq m) @
     le_bytes 4 (rr_healthy m)"

definition wf_readiness_report :: "obicall_msg_readiness_report \<Rightarrow> bool" where
  "wf_readiness_report m \<longleftrightarrow> length (rr_config_digest m) = 32"

lemma length_readiness_report_layout [layout_simps]: "wf_readiness_report m \<Longrightarrow> length (readiness_report_layout m) = 52"
  by (simp add: readiness_report_layout_def wf_readiness_report_def)

interpretation readiness_report: wire_codec obicall_wire_encode_readiness_report readiness_report_layout wf_readiness_report
  obicall_wire_decode_readiness_report "\<lambda>m. m"
  unfolding obicall_wire_encode_readiness_report_def obicall_wire_decode_readiness_report_def
proof (rule wire_codec_intro)
  show "writes (put_readiness_report m) (readiness_report_layout m)" if "wf_readiness_report m" for m
    using that unfolding put_readiness_report_def readiness_report_layout_def wf_readiness_report_def
    by (intro codec_intros) simp_all
  show "accepts {OBICALL_ERR_WIRE_MALFORMED} get_readiness_report
      (\<lambda>bs m. \<exists>m0. wf_readiness_report m0 \<and> m = m0 \<and> bs = readiness_report_layout m0)"
    unfolding get_readiness_report_def
    by (rule accepts_cong, ((rule codec_intros | simp)+)[1])
       (auto simp: readiness_report_layout_def wf_readiness_report_def le_bytes_inject cong: conj_cong)
qed simp_all

subsection \<open>replay_request\<close>

record obicall_msg_replay_request =
  rq_pipeline_id :: bytes
  rq_from_window_seq :: u64

definition put_replay_request :: "obicall_msg_replay_request \<Rightarrow> (wcursor, unit) state" where
  "put_replay_request m = do {
     wc_fixed (rq_pipeline_id m) OBICALL_PIPELINE_ID_LEN;
     wc_u64 (rq_from_window_seq m) }"

definition get_replay_request :: "(rcursor, obicall_msg_replay_request res) state" where
  "get_replay_request = do {
     pipeline_id \<leftarrow> rc_fixed (replicate 32 0) OBICALL_PIPELINE_ID_LEN;
     from_window_seq \<leftarrow> rc_u64;
     rc_end \<lparr>rq_pipeline_id = pipeline_id, rq_from_window_seq = from_window_seq\<rparr> }"

definition obicall_wire_encode_replay_request where
  "obicall_wire_encode_replay_request = wire_encode (\<lambda>_. False) put_replay_request"

definition obicall_wire_decode_replay_request where
  "obicall_wire_decode_replay_request = wire_decode get_replay_request"

definition replay_request_layout :: "obicall_msg_replay_request \<Rightarrow> bytes" where
  "replay_request_layout m =
     rq_pipeline_id m @ le_bytes 8 (rq_from_window_seq m)"

definition wf_replay_request :: "obicall_msg_replay_request \<Rightarrow> bool" where
  "wf_replay_request m \<longleftrightarrow> length (rq_pipeline_id m) = 32"

lemma length_replay_request_layout [layout_simps]: "wf_replay_request m \<Longrightarrow> length (replay_request_layout m) = 40"
  by (simp add: replay_request_layout_def wf_replay_request_def)

interpretation replay_request: wire_codec obicall_wire_encode_replay_request replay_request_layout wf_replay_request
  obicall_wire_decode_replay_request "\<lambda>m. m"
  unfolding obicall_wire_encode_replay_request_def obicall_wire_decode_replay_request_def
proof (rule wire_codec_intro)
  show "writes (put_replay_request m) (replay_request_layout m)" if "wf_replay_request m" for m
    using that unfolding put_replay_request_def replay_request_layout_def wf_replay_request_def
    by (intro codec_intros) simp_all
  show "accepts {OBICALL_ERR_WIRE_MALFORMED} get_replay_request
      (\<lambda>bs m. \<exists>m0. wf_replay_request m0 \<and> m = m0 \<and> bs = replay_request_layout m0)"
    unfolding get_replay_request_def
    by (rule accepts_cong, ((rule codec_intros | simp)+)[1])
       (auto simp: replay_request_layout_def wf_replay_request_def le_bytes_inject cong: conj_cong)
qed simp_all

subsection \<open>admission_decision\<close>

record obicall_msg_admission_decision =
  ad_pipeline_id :: bytes
  ad_window_seq :: u64
  ad_sensor_id :: bytes
  ad_sequence :: u64
  ad_admitted :: u32
  ad_reason_code :: u32
  ad_decided_at_ns :: i64

definition put_admission_decision :: "obicall_msg_admission_decision \<Rightarrow> (wcursor, unit) state" where
  "put_admission_decision m = do {
     wc_fixed (ad_pipeline_id m) OBICALL_PIPELINE_ID_LEN;
     wc_u64 (ad_window_seq m);
     wc_fixed (ad_sensor_id m) OBICALL_SENSOR_ID_LEN;
     wc_u64 (ad_sequence m);
     wc_u32 (ad_admitted m);
     wc_u32 (ad_reason_code m);
     wc_i64 (ad_decided_at_ns m) }"

definition get_admission_decision :: "(rcursor, obicall_msg_admission_decision res) state" where
  "get_admission_decision = do {
     pipeline_id \<leftarrow> rc_fixed (replicate 32 0) OBICALL_PIPELINE_ID_LEN;
     window_seq \<leftarrow> rc_u64;
     sensor_id \<leftarrow> rc_fixed (replicate 32 0) OBICALL_SENSOR_ID_LEN;
     sequence \<leftarrow> rc_u64;
     admitted \<leftarrow> rc_u32;
     reason_code \<leftarrow> rc_u32;
     decided_at_ns \<leftarrow> rc_i64;
     rc_end \<lparr>ad_pipeline_id = pipeline_id, ad_window_seq = window_seq,
       ad_sensor_id = sensor_id, ad_sequence = sequence, ad_admitted = admitted,
       ad_reason_code = reason_code, ad_decided_at_ns = decided_at_ns\<rparr> }"

definition obicall_wire_encode_admission_decision where
  "obicall_wire_encode_admission_decision = wire_encode (\<lambda>_. False) put_admission_decision"

definition obicall_wire_decode_admission_decision where
  "obicall_wire_decode_admission_decision = wire_decode get_admission_decision"

definition admission_decision_layout :: "obicall_msg_admission_decision \<Rightarrow> bytes" where
  "admission_decision_layout m =
     ad_pipeline_id m @ le_bytes 8 (ad_window_seq m) @ ad_sensor_id m @
     le_bytes 8 (ad_sequence m) @ le_bytes 4 (ad_admitted m) @ le_bytes 4 (ad_reason_code m) @
     le_bytes 8 (ad_decided_at_ns m)"

definition wf_admission_decision :: "obicall_msg_admission_decision \<Rightarrow> bool" where
  "wf_admission_decision m \<longleftrightarrow> length (ad_pipeline_id m) = 32 \<and> length (ad_sensor_id m) = 32"

lemma length_admission_decision_layout [layout_simps]: "wf_admission_decision m \<Longrightarrow> length (admission_decision_layout m) = 96"
  by (simp add: admission_decision_layout_def wf_admission_decision_def)

interpretation admission_decision: wire_codec obicall_wire_encode_admission_decision admission_decision_layout wf_admission_decision
  obicall_wire_decode_admission_decision "\<lambda>m. m"
  unfolding obicall_wire_encode_admission_decision_def obicall_wire_decode_admission_decision_def
proof (rule wire_codec_intro)
  show "writes (put_admission_decision m) (admission_decision_layout m)" if "wf_admission_decision m" for m
    using that unfolding put_admission_decision_def admission_decision_layout_def wf_admission_decision_def
    by (intro codec_intros) simp_all
  show "accepts {OBICALL_ERR_WIRE_MALFORMED} get_admission_decision
      (\<lambda>bs m. \<exists>m0. wf_admission_decision m0 \<and> m = m0 \<and> bs = admission_decision_layout m0)"
    unfolding get_admission_decision_def
    by (rule accepts_cong, ((rule codec_intros | simp)+)[1])
       (auto simp: admission_decision_layout_def wf_admission_decision_def le_bytes_inject cong: conj_cong)
qed simp_all

subsection \<open>result_ack\<close>

record obicall_msg_result_ack =
  ra_pipeline_id :: bytes
  ra_window_seq :: u64
  ra_accepted :: u32
  ra_reject_status :: i32

definition put_result_ack :: "obicall_msg_result_ack \<Rightarrow> (wcursor, unit) state" where
  "put_result_ack m = do {
     wc_fixed (ra_pipeline_id m) OBICALL_PIPELINE_ID_LEN;
     wc_u64 (ra_window_seq m);
     wc_u32 (ra_accepted m);
     wc_i32 (ra_reject_status m) }"

definition get_result_ack :: "(rcursor, obicall_msg_result_ack res) state" where
  "get_result_ack = do {
     pipeline_id \<leftarrow> rc_fixed (replicate 32 0) OBICALL_PIPELINE_ID_LEN;
     window_seq \<leftarrow> rc_u64;
     accepted \<leftarrow> rc_u32;
     reject_status \<leftarrow> rc_i32;
     rc_end \<lparr>ra_pipeline_id = pipeline_id, ra_window_seq = window_seq,
       ra_accepted = accepted, ra_reject_status = reject_status\<rparr> }"

definition obicall_wire_encode_result_ack where
  "obicall_wire_encode_result_ack = wire_encode (\<lambda>_. False) put_result_ack"

definition obicall_wire_decode_result_ack where
  "obicall_wire_decode_result_ack = wire_decode get_result_ack"

definition result_ack_layout :: "obicall_msg_result_ack \<Rightarrow> bytes" where
  "result_ack_layout m =
     ra_pipeline_id m @ le_bytes 8 (ra_window_seq m) @ le_bytes 4 (ra_accepted m) @
     le_bytes 4 (ra_reject_status m)"

definition wf_result_ack :: "obicall_msg_result_ack \<Rightarrow> bool" where
  "wf_result_ack m \<longleftrightarrow> length (ra_pipeline_id m) = 32"

lemma length_result_ack_layout [layout_simps]: "wf_result_ack m \<Longrightarrow> length (result_ack_layout m) = 48"
  by (simp add: result_ack_layout_def wf_result_ack_def)

interpretation result_ack: wire_codec obicall_wire_encode_result_ack result_ack_layout wf_result_ack
  obicall_wire_decode_result_ack "\<lambda>m. m"
  unfolding obicall_wire_encode_result_ack_def obicall_wire_decode_result_ack_def
proof (rule wire_codec_intro)
  show "writes (put_result_ack m) (result_ack_layout m)" if "wf_result_ack m" for m
    using that unfolding put_result_ack_def result_ack_layout_def wf_result_ack_def
    by (intro codec_intros) simp_all
  show "accepts {OBICALL_ERR_WIRE_MALFORMED} get_result_ack
      (\<lambda>bs m. \<exists>m0. wf_result_ack m0 \<and> m = m0 \<and> bs = result_ack_layout m0)"
    unfolding get_result_ack_def
    by (rule accepts_cong, ((rule codec_intros | simp)+)[1])
       (auto simp: result_ack_layout_def wf_result_ack_def le_bytes_inject cong: conj_cong)
qed simp_all

subsection \<open>status_reply\<close>

record obicall_msg_status_reply =
  sr_running :: u32
  sr_gate_epoch :: u64
  sr_owner_broker_id :: u32
  sr_last_committed_window_seq :: u64
  sr_uptime_ns :: i64

definition put_status_reply :: "obicall_msg_status_reply \<Rightarrow> (wcursor, unit) state" where
  "put_status_reply m = do {
     wc_u32 (sr_running m);
     wc_u64 (sr_gate_epoch m);
     wc_u32 (sr_owner_broker_id m);
     wc_u64 (sr_last_committed_window_seq m);
     wc_i64 (sr_uptime_ns m) }"

definition get_status_reply :: "(rcursor, obicall_msg_status_reply res) state" where
  "get_status_reply = do {
     running \<leftarrow> rc_u32;
     gate_epoch \<leftarrow> rc_u64;
     owner_broker_id \<leftarrow> rc_u32;
     last_committed_window_seq \<leftarrow> rc_u64;
     uptime_ns \<leftarrow> rc_i64;
     rc_end \<lparr>sr_running = running, sr_gate_epoch = gate_epoch,
       sr_owner_broker_id = owner_broker_id,
       sr_last_committed_window_seq = last_committed_window_seq, sr_uptime_ns = uptime_ns\<rparr> }"

definition obicall_wire_encode_status_reply where
  "obicall_wire_encode_status_reply = wire_encode (\<lambda>_. False) put_status_reply"

definition obicall_wire_decode_status_reply where
  "obicall_wire_decode_status_reply = wire_decode get_status_reply"

definition status_reply_layout :: "obicall_msg_status_reply \<Rightarrow> bytes" where
  "status_reply_layout m =
     le_bytes 4 (sr_running m) @ le_bytes 8 (sr_gate_epoch m) @
     le_bytes 4 (sr_owner_broker_id m) @ le_bytes 8 (sr_last_committed_window_seq m) @
     le_bytes 8 (sr_uptime_ns m)"

definition wf_status_reply :: "obicall_msg_status_reply \<Rightarrow> bool" where
  "wf_status_reply m \<longleftrightarrow> True"

lemma length_status_reply_layout [layout_simps]: "wf_status_reply m \<Longrightarrow> length (status_reply_layout m) = 32"
  by (simp add: status_reply_layout_def wf_status_reply_def)

interpretation status_reply: wire_codec obicall_wire_encode_status_reply status_reply_layout wf_status_reply
  obicall_wire_decode_status_reply "\<lambda>m. m"
  unfolding obicall_wire_encode_status_reply_def obicall_wire_decode_status_reply_def
proof (rule wire_codec_intro)
  show "writes (put_status_reply m) (status_reply_layout m)" if "wf_status_reply m" for m
    using that unfolding put_status_reply_def status_reply_layout_def wf_status_reply_def
    by (intro codec_intros)
  show "accepts {OBICALL_ERR_WIRE_MALFORMED} get_status_reply
      (\<lambda>bs m. \<exists>m0. wf_status_reply m0 \<and> m = m0 \<and> bs = status_reply_layout m0)"
    unfolding get_status_reply_def
    by (rule accepts_cong, ((rule codec_intros | simp)+)[1])
       (auto simp: status_reply_layout_def wf_status_reply_def le_bytes_inject cong: conj_cong)
qed simp_all

section \<open>Frame header\<close>

record obicall_wire_header =
  wh_wire_version :: u8
  wh_msg_type :: u8
  wh_flags :: u16
  wh_payload_len :: u32
  wh_crc32 :: u32

abbreviation (input) OBICALL_WIRE_MAGIC0 :: u8 where "OBICALL_WIRE_MAGIC0 \<equiv> 0x4F"
abbreviation (input) OBICALL_WIRE_MAGIC1 :: u8 where "OBICALL_WIRE_MAGIC1 \<equiv> 0x42"
abbreviation (input) OBICALL_WIRE_MAGIC2 :: u8 where "OBICALL_WIRE_MAGIC2 \<equiv> 0x57"
abbreviation (input) OBICALL_WIRE_MAGIC3 :: u8 where "OBICALL_WIRE_MAGIC3 \<equiv> 0x46"
abbreviation (input) OBICALL_WIRE_VERSION :: u8 where "OBICALL_WIRE_VERSION \<equiv> 1"
abbreviation (input) OBICALL_WIRE_HEADER_LEN :: u32 where "OBICALL_WIRE_HEADER_LEN \<equiv> 16"

definition put_header :: "obicall_wire_header \<Rightarrow> (wcursor, unit) state" where
  "put_header h = do {
     wc_u8 OBICALL_WIRE_MAGIC0;
     wc_u8 OBICALL_WIRE_MAGIC1;
     wc_u8 OBICALL_WIRE_MAGIC2;
     wc_u8 OBICALL_WIRE_MAGIC3;
     wc_u8 (wh_wire_version h);
     wc_u8 (wh_msg_type h);
     wc_u16 (wh_flags h);
     wc_u32 (wh_payload_len h);
     wc_u32 (wh_crc32 h) }"

text \<open>
  The header encoder has no capacity argument (the caller's array has \<^verbatim>\<open>OBICALL_WIRE_HEADER_LEN\<close>
  bytes) and reports failure as \<^verbatim>\<open>OBICALL_ERR_WIRE_MALFORMED\<close>. The value is the array afterwards.
\<close>

definition obicall_wire_encode_header ::
  "obicall_wire_header option \<Rightarrow> bytes option \<Rightarrow> bytes res" where
  "obicall_wire_encode_header header out =
     (case (header, out) of
        (Some h, Some out) \<Rightarrow>
          let c = snd (run_state (put_header h)
                \<lparr>wc_p = out, wc_cap = OBICALL_WIRE_HEADER_LEN, wc_off = 0, wc_ok = True\<rparr>)
          in if wc_ok c then Inr (wc_p c) else Inl OBICALL_ERR_WIRE_MALFORMED
      | _ \<Rightarrow> Inl OBICALL_ERR_NULL_POINTER)"

definition get_header :: "(rcursor, obicall_wire_header res) state" where
  "get_header = do {
     m0 \<leftarrow> rc_u8;
     m1 \<leftarrow> rc_u8;
     m2 \<leftarrow> rc_u8;
     m3 \<leftarrow> rc_u8;
     rc_guard (m0 \<noteq> OBICALL_WIRE_MAGIC0 \<or> m1 \<noteq> OBICALL_WIRE_MAGIC1 \<or>
               m2 \<noteq> OBICALL_WIRE_MAGIC2 \<or> m3 \<noteq> OBICALL_WIRE_MAGIC3) (do {
       wire_version \<leftarrow> rc_u8;
       msg_type \<leftarrow> rc_u8;
       flags \<leftarrow> rc_u16;
       payload_len \<leftarrow> rc_u32;
       crc32 \<leftarrow> rc_u32;
       rc_guard False (
         if wire_version \<noteq> OBICALL_WIRE_VERSION
         then State_Monad.return (Inl OBICALL_ERR_WIRE_VERSION_UNSUPPORTED)
         else if payload_len > OBICALL_WIRE_MAX_PAYLOAD
         then State_Monad.return (Inl OBICALL_ERR_WIRE_TOO_LARGE)
         else State_Monad.return (Inr \<lparr>wh_wire_version = wire_version, wh_msg_type = msg_type,
           wh_flags = flags, wh_payload_len = payload_len, wh_crc32 = crc32\<rparr>)) }) }"

definition obicall_wire_decode_header ::
  "bytes option \<Rightarrow> obicall_wire_header option \<Rightarrow> obicall_wire_header res" where
  "obicall_wire_decode_header inp out =
     (case (inp, out) of
        (Some inp, Some _) \<Rightarrow> rc_run get_header inp OBICALL_WIRE_HEADER_LEN
      | _ \<Rightarrow> Inl OBICALL_ERR_NULL_POINTER)"

definition header_fields :: "obicall_wire_header \<Rightarrow> bytes" where
  "header_fields h = wh_wire_version h # wh_msg_type h # le_bytes 2 (wh_flags h) @
     le_bytes 4 (wh_payload_len h) @ le_bytes 4 (wh_crc32 h)"

abbreviation (input) header_magic :: bytes where
  "header_magic \<equiv> [0x4F, 0x42, 0x57, 0x46]"

definition header_layout :: "obicall_wire_header \<Rightarrow> bytes" where
  "header_layout h = header_magic @ header_fields h"

lemma length_header_layout [simp]: "length (header_layout h) = 16"
  by (simp add: header_layout_def header_fields_def)

lemma encode_header_layout:
  assumes "length out = 16"
  shows "obicall_wire_encode_header (Some h) (Some out) = Inr (header_layout h)"
proof -
  let ?c = "\<lparr>wc_p = out, wc_cap = 16, wc_off = 0, wc_ok = True\<rparr>"
  have "writes (put_header h) ([0x4F] @ [0x42] @ [0x57] @ [0x46] @ [wh_wire_version h] @
      [wh_msg_type h] @ le_bytes 2 (wh_flags h) @ le_bytes 4 (wh_payload_len h) @
      le_bytes 4 (wh_crc32 h))"
    unfolding put_header_def by (intro codec_intros)
  then have "writes (put_header h) (header_layout h)"
    by (simp add: header_layout_def header_fields_def)
  moreover have "wc_inv ?c" and "wroom ?c = 16"
    using assms by (simp_all add: wc_inv_def wroom_def)
  ultimately have "run_state (put_header h) ?c = ((), wput ?c (header_layout h))"
    by (simp add: writes_def)
  then show ?thesis
    using assms by (simp add: obicall_wire_encode_header_def wput_def memcpy_zero)
qed

text \<open>Every 16 bytes are four magic bytes followed by the fields of exactly one header.\<close>

lemma header_bytes_exist:
  assumes "length bs = 16"
  shows "\<exists>m0 m1 m2 m3 h. bs = [m0, m1, m2, m3] @ header_fields h"
proof -
  obtain m0 m1 m2 m3 v t rest where bs: "bs = m0 # m1 # m2 # m3 # v # t # rest" "length rest = 10"
    using assms by (auto simp: numeral_eq_Suc length_Suc_conv)
  define fl :: u16 where "fl = le_word (take 2 rest)"
  define pl :: u32 where "pl = le_word (take 4 (drop 2 rest))"
  define crc :: u32 where "crc = le_word (drop 6 rest)"
  have parts: "le_bytes 2 fl = take 2 rest" "le_bytes 4 pl = take 4 (drop 2 rest)"
    "le_bytes 4 crc = drop 6 rest"
    using bs(2) le_bytes_le_word [where 'a = 16, of "take 2 rest"]
      le_bytes_le_word [where 'a = 32, of "take 4 (drop 2 rest)"]
      le_bytes_le_word [where 'a = 32, of "drop 6 rest"]
    by (simp_all add: fl_def pl_def crc_def)
  have "rest = take 2 rest @ take 4 (drop 2 rest) @ drop 6 rest"
    using append_take_drop_id [of 2 rest] append_take_drop_id [of 4 "drop 2 rest"] by simp
  then have "bs = [m0, m1, m2, m3] @ header_fields \<lparr>wh_wire_version = v, wh_msg_type = t,
      wh_flags = fl, wh_payload_len = pl, wh_crc32 = crc\<rparr>"
    by (simp add: bs(1) header_fields_def parts)
  then show ?thesis by blast
qed

lemma decode_header_fields:
  "obicall_wire_decode_header (Some ([m0, m1, m2, m3] @ header_fields h @ rest)) (Some old) =
     (if [m0, m1, m2, m3] \<noteq> header_magic then Inl OBICALL_ERR_WIRE_MALFORMED
      else if wh_wire_version h \<noteq> OBICALL_WIRE_VERSION
      then Inl OBICALL_ERR_WIRE_VERSION_UNSUPPORTED
      else if wh_payload_len h > OBICALL_WIRE_MAX_PAYLOAD then Inl OBICALL_ERR_WIRE_TOO_LARGE
      else Inr h)" (is "_ = ?r")
proof -
  let ?inp = "[m0, m1, m2, m3] @ header_fields h @ rest"
  have "take 16 ?inp = [m0] @ [m1] @ [m2] @ [m3] @ [wh_wire_version h] @ [wh_msg_type h] @
      le_bytes 2 (wh_flags h) @ le_bytes 4 (wh_payload_len h) @ le_bytes 4 (wh_crc32 h) @ []"
    by (simp add: header_fields_def)
  moreover have "yields get_header ([m0] @ [m1] @ [m2] @ [m3] @ [wh_wire_version h] @
      [wh_msg_type h] @ le_bytes 2 (wh_flags h) @ le_bytes 4 (wh_payload_len h) @
      le_bytes 4 (wh_crc32 h) @ []) ?r"
    unfolding get_header_def
    by (intro yields_guard yields_read [OF reads_u8] yields_read [OF reads_u16]
        yields_read [OF reads_u32] TrueI)
      (auto simp: yields_def State_Monad.return_def intro: obicall_wire_header.equality)
  ultimately have "rc_run get_header ?inp 16 = ?r"
    by (intro rc_run_yields) (simp_all add: header_fields_def)
  then show ?thesis by (simp add: obicall_wire_decode_header_def)
qed

end
