(* ===== verification/Wire_Data.thy ===== *)
theory Wire_Data
  imports Wire_Codec
begin

text \<open>
  The data messages of \<^verbatim>\<open>src/core/wire.c\<close>: observation, result, checkpoint and event. They carry
  arrays with a declared element count, so their writers refuse counts beyond the array bounds and
  their readers check a count before the loop that trusts it. The arrays travel without their unused
  tail, and the receiver stores its own \<^verbatim>\<open>sizeof\<close>: the \<open>norm_\<close> functions state that loss exactly.
\<close>

section \<open>observation\<close>

definition put_observation :: "obicall_observation \<Rightarrow> (wcursor, unit) state" where
  "put_observation obs = do {
     wc_u32 (obs_struct_size obs);
     wc_u32 (obs_schema_version obs);
     wc_fixed (obs_sensor_id obs) OBICALL_SENSOR_ID_LEN;
     wc_u64 (obs_source_boot_id obs);
     wc_u64 (obs_sequence obs);
     wc_i64 (obs_sample_time_ns obs);
     wc_i64 (obs_arrival_time_ns obs);
     wc_u32 (obs_clock_domain obs);
     wc_f64 (obs_time_uncertainty_s obs);
     wc_u32 (obs_coordinate_frame obs);
     wc_u32 (obs_units obs);
     wc_u32 (obs_calibration_version obs);
     wc_u32 (obs_payload_shape obs);
     wc_u32 (obs_payload_count obs);
     wc_each wc_f64 (take (unat (obs_payload_count obs)) (obs_payload obs));
     wc_u32 (obs_covariance_count obs);
     wc_each wc_f64 (take (unat (obs_covariance_count obs)) (obs_covariance obs)) }"

definition get_observation :: "(rcursor, obicall_observation res) state" where
  "get_observation = do {
     struct_size \<leftarrow> rc_u32;
     schema_version \<leftarrow> rc_u32;
     sensor_id \<leftarrow> rc_fixed (replicate 32 0) OBICALL_SENSOR_ID_LEN;
     source_boot_id \<leftarrow> rc_u64;
     sequence \<leftarrow> rc_u64;
     sample_time_ns \<leftarrow> rc_i64;
     arrival_time_ns \<leftarrow> rc_i64;
     clock_domain \<leftarrow> rc_u32;
     time_uncertainty_s \<leftarrow> rc_f64;
     coordinate_frame \<leftarrow> rc_u32;
     units \<leftarrow> rc_u32;
     calibration_version \<leftarrow> rc_u32;
     payload_shape \<leftarrow> rc_u32;
     payload_count \<leftarrow> rc_u32;
     rc_guard (payload_count > OBICALL_MAX_PAYLOAD_DOUBLES) (do {
       payload \<leftarrow> rc_each (unat payload_count) rc_f64;
       covariance_count \<leftarrow> rc_u32;
       rc_guard (covariance_count > OBICALL_MAX_COV_DOUBLES) (do {
         covariance \<leftarrow> rc_each (unat covariance_count) rc_f64;
         rc_end \<lparr>obs_struct_size = sizeof_observation, obs_schema_version = schema_version,
           obs_sensor_id = sensor_id, obs_source_boot_id = source_boot_id, obs_sequence = sequence,
           obs_sample_time_ns = sample_time_ns, obs_arrival_time_ns = arrival_time_ns,
           obs_clock_domain = clock_domain, obs_time_uncertainty_s = time_uncertainty_s,
           obs_coordinate_frame = coordinate_frame, obs_units = units,
           obs_calibration_version = calibration_version, obs_payload_shape = payload_shape,
           obs_payload_count = payload_count, obs_payload = memcpy (replicate 6 0) 0 payload,
           obs_covariance_count = covariance_count,
           obs_covariance = memcpy (replicate 36 0) 0 covariance\<rparr> }) }) }"

definition obicall_wire_encode_observation where
  "obicall_wire_encode_observation = wire_encode
     (\<lambda>obs. obs_payload_count obs > OBICALL_MAX_PAYLOAD_DOUBLES \<or>
            obs_covariance_count obs > OBICALL_MAX_COV_DOUBLES) put_observation"

definition obicall_wire_decode_observation where
  "obicall_wire_decode_observation = wire_decode get_observation"

definition observation_layout :: "obicall_observation \<Rightarrow> bytes" where
  "observation_layout m =
     le_bytes 4 (obs_struct_size m) @ le_bytes 4 (obs_schema_version m) @ obs_sensor_id m @
     le_bytes 8 (obs_source_boot_id m) @ le_bytes 8 (obs_sequence m) @
     le_bytes 8 (obs_sample_time_ns m) @ le_bytes 8 (obs_arrival_time_ns m) @
     le_bytes 4 (obs_clock_domain m) @ le_bytes 8 (dbits (obs_time_uncertainty_s m)) @
     le_bytes 4 (obs_coordinate_frame m) @ le_bytes 4 (obs_units m) @
     le_bytes 4 (obs_calibration_version m) @ le_bytes 4 (obs_payload_shape m) @
     le_bytes 4 (obs_payload_count m) @
     le_doubles (take (unat (obs_payload_count m)) (obs_payload m)) @
     le_bytes 4 (obs_covariance_count m) @
     le_doubles (take (unat (obs_covariance_count m)) (obs_covariance m))"

text \<open>The array shapes the C type guarantees, and the counts the encoder insists on.\<close>

definition wf_observation :: "obicall_observation \<Rightarrow> bool" where
  "wf_observation m \<longleftrightarrow> length (obs_sensor_id m) = 32 \<and> length (obs_payload m) = 6 \<and>
     length (obs_covariance m) = 36"

definition encodable_observation :: "obicall_observation \<Rightarrow> bool" where
  "encodable_observation m \<longleftrightarrow> wf_observation m \<and>
     obs_payload_count m \<le> OBICALL_MAX_PAYLOAD_DOUBLES \<and>
     obs_covariance_count m \<le> OBICALL_MAX_COV_DOUBLES"

definition norm_observation :: "obicall_observation \<Rightarrow> obicall_observation" where
  "norm_observation m = m\<lparr>obs_struct_size := sizeof_observation,
     obs_payload := memcpy (replicate 6 0) 0 (take (unat (obs_payload_count m)) (obs_payload m)),
     obs_covariance :=
       memcpy (replicate 36 0) 0 (take (unat (obs_covariance_count m)) (obs_covariance m))\<rparr>"

lemma take_memcpy_zero: "take (length xs) (memcpy dst 0 xs) = xs"
  by (simp add: memcpy_zero)

lemma encodable_facts:
  assumes "encodable_observation m"
  shows "length (obs_sensor_id m) = 32" and "length (obs_payload m) = 6"
    and "length (obs_covariance m) = 36" and "unat (obs_payload_count m) \<le> 6"
    and "unat (obs_covariance_count m) \<le> 36"
    and "\<not> 6 < obs_payload_count m" and "\<not> 36 < obs_covariance_count m"
  using assms by (simp_all add: encodable_observation_def wf_observation_def word_le_nat_alt
      word_less_nat_alt)

lemma length_observation_layout [layout_simps]:
  assumes "encodable_observation m"
  shows "length (observation_layout m) =
    108 + 8 * unat (obs_payload_count m) + 8 * unat (obs_covariance_count m)"
  by (simp add: observation_layout_def encodable_facts [OF assms])

lemma accepts_observation:
  "accepts {OBICALL_ERR_WIRE_MALFORMED} get_observation
     (\<lambda>bs m. \<exists>m0. encodable_observation m0 \<and> m = norm_observation m0 \<and> bs = observation_layout m0)"
  unfolding get_observation_def
proof (rule accepts_sound_complete, ((rule codec_intros | simp)+)[1], goal_cases)
  case (1 bs m)
  then show ?case
  proof (elim exE conjE, goal_cases)
    case (1 s)
    then show ?case
      by (intro exI [of _ "m\<lparr>obs_struct_size := s\<rparr>"] conjI)
         (simp_all add: encodable_observation_def wf_observation_def norm_observation_def
          observation_layout_def memcpy_zero word_less_nat_alt word_le_nat_alt)
  qed
next
  case (2 bs ys m)
  then obtain m0 where m0: "encodable_observation m0" "m = norm_observation m0"
    "bs = observation_layout m0" by blast
  show ?case
    unfolding m0(2,3) observation_layout_def append_assoc
    by (rule yields_fields | (simp add: encodable_facts [OF m0(1)] norm_observation_def; fail))+
qed

interpretation observation: wire_codec obicall_wire_encode_observation observation_layout
  encodable_observation obicall_wire_decode_observation norm_observation
  unfolding obicall_wire_encode_observation_def obicall_wire_decode_observation_def
proof (rule wire_codec_intro)
  fix m assume m: "encodable_observation m"
  note f = encodable_facts [OF m]
  show "\<not> (6 < obs_payload_count m \<or> 36 < obs_covariance_count m)" using f by simp
  show "writes (put_observation m) (observation_layout m)"
    unfolding put_observation_def observation_layout_def by (intro codec_intros) (simp add: f)
  have "encodable_observation (norm_observation m)"
    using m f by (simp add: encodable_observation_def wf_observation_def norm_observation_def)
  moreover from this have "length (observation_layout (norm_observation m)) =
      length (observation_layout m)"
    using m by (simp add: layout_simps) (simp add: norm_observation_def)
  ultimately show "encodable_observation (norm_observation m) \<and>
      norm_observation (norm_observation m) = norm_observation m \<and>
      length (observation_layout (norm_observation m)) = length (observation_layout m)"
    by (simp add: norm_observation_def memcpy_zero f)
qed (rule accepts_observation)

section \<open>result\<close>

definition put_result :: "obicall_result \<Rightarrow> (wcursor, unit) state" where
  "put_result r = do {
     wc_u32 (res_struct_size r);
     wc_u32 (res_schema_version r);
     wc_fixed (res_pipeline_id r) OBICALL_PIPELINE_ID_LEN;
     wc_u64 (res_window_seq r);
     wc_u32 (res_broker_id r);
     wc_u64 (res_epoch r);
     wc_u32 (res_status r);
     wc_u32 (res_payload_shape r);
     wc_u32 (res_payload_count r);
     wc_each wc_f64 (take (unat (res_payload_count r)) (res_payload r));
     wc_u32 (res_covariance_count r);
     wc_each wc_f64 (take (unat (res_covariance_count r)) (res_covariance r));
     wc_bytes (res_input_digest r) OBICALL_DIGEST_LEN;
     wc_bytes (res_config_digest r) OBICALL_DIGEST_LEN;
     wc_i64 (res_timestamp_ns r);
     wc_i64 (res_valid_until_ns r);
     wc_u32 (res_source_count r);
     wc_each (\<lambda>src. wc_fixed src OBICALL_SENSOR_ID_LEN)
       (take (unat (res_source_count r)) (res_sources r));
     wc_u32 (res_dgt_action_id r) }"

definition get_result :: "(rcursor, obicall_result res) state" where
  "get_result = do {
     struct_size \<leftarrow> rc_u32;
     schema_version \<leftarrow> rc_u32;
     pipeline_id \<leftarrow> rc_fixed (replicate 32 0) OBICALL_PIPELINE_ID_LEN;
     window_seq \<leftarrow> rc_u64;
     broker_id \<leftarrow> rc_u32;
     epoch \<leftarrow> rc_u64;
     status \<leftarrow> rc_u32;
     payload_shape \<leftarrow> rc_u32;
     payload_count \<leftarrow> rc_u32;
     rc_guard (payload_count > OBICALL_MAX_PAYLOAD_DOUBLES) (do {
       payload \<leftarrow> rc_each (unat payload_count) rc_f64;
       covariance_count \<leftarrow> rc_u32;
       rc_guard (covariance_count > OBICALL_MAX_COV_DOUBLES) (do {
         covariance \<leftarrow> rc_each (unat covariance_count) rc_f64;
         input_digest \<leftarrow> rc_bytes (replicate 32 0) OBICALL_DIGEST_LEN;
         config_digest \<leftarrow> rc_bytes (replicate 32 0) OBICALL_DIGEST_LEN;
         timestamp_ns \<leftarrow> rc_i64;
         valid_until_ns \<leftarrow> rc_i64;
         source_count \<leftarrow> rc_u32;
         rc_guard (source_count > OBICALL_MAX_SOURCES) (do {
           sources \<leftarrow> rc_each (unat source_count)
             (rc_fixed (replicate 32 0) OBICALL_SENSOR_ID_LEN);
           dgt_action_id \<leftarrow> rc_u32;
           rc_end \<lparr>res_struct_size = sizeof_result, res_schema_version = schema_version,
             res_pipeline_id = pipeline_id, res_window_seq = window_seq, res_broker_id = broker_id,
             res_epoch = epoch, res_status = status, res_payload_shape = payload_shape,
             res_payload_count = payload_count, res_payload = memcpy (replicate 6 0) 0 payload,
             res_covariance_count = covariance_count,
             res_covariance = memcpy (replicate 36 0) 0 covariance,
             res_input_digest = input_digest, res_config_digest = config_digest,
             res_timestamp_ns = timestamp_ns, res_valid_until_ns = valid_until_ns,
             res_source_count = source_count,
             res_sources = memcpy (replicate 8 (replicate 32 0)) 0 sources,
             res_dgt_action_id = dgt_action_id\<rparr> }) }) }) }"

definition obicall_wire_encode_result where
  "obicall_wire_encode_result = wire_encode
     (\<lambda>r. res_payload_count r > OBICALL_MAX_PAYLOAD_DOUBLES \<or>
          res_covariance_count r > OBICALL_MAX_COV_DOUBLES \<or>
          res_source_count r > OBICALL_MAX_SOURCES) put_result"

definition obicall_wire_decode_result where
  "obicall_wire_decode_result = wire_decode get_result"

definition result_layout :: "obicall_result \<Rightarrow> bytes" where
  "result_layout m =
     le_bytes 4 (res_struct_size m) @ le_bytes 4 (res_schema_version m) @ res_pipeline_id m @
     le_bytes 8 (res_window_seq m) @ le_bytes 4 (res_broker_id m) @ le_bytes 8 (res_epoch m) @
     le_bytes 4 (res_status m) @ le_bytes 4 (res_payload_shape m) @
     le_bytes 4 (res_payload_count m) @
     le_doubles (take (unat (res_payload_count m)) (res_payload m)) @
     le_bytes 4 (res_covariance_count m) @
     le_doubles (take (unat (res_covariance_count m)) (res_covariance m)) @
     res_input_digest m @ res_config_digest m @ le_bytes 8 (res_timestamp_ns m) @
     le_bytes 8 (res_valid_until_ns m) @ le_bytes 4 (res_source_count m) @
     concat (map (\<lambda>s. s) (take (unat (res_source_count m)) (res_sources m))) @
     le_bytes 4 (res_dgt_action_id m)"

definition wf_result :: "obicall_result \<Rightarrow> bool" where
  "wf_result m \<longleftrightarrow> length (res_pipeline_id m) = 32 \<and> length (res_payload m) = 6 \<and>
     length (res_covariance m) = 36 \<and> length (res_input_digest m) = 32 \<and>
     length (res_config_digest m) = 32 \<and> length (res_sources m) = 8 \<and>
     list_all (\<lambda>s. length s = 32) (res_sources m)"

definition encodable_result :: "obicall_result \<Rightarrow> bool" where
  "encodable_result m \<longleftrightarrow> wf_result m \<and> res_payload_count m \<le> OBICALL_MAX_PAYLOAD_DOUBLES \<and>
     res_covariance_count m \<le> OBICALL_MAX_COV_DOUBLES \<and> res_source_count m \<le> OBICALL_MAX_SOURCES"

definition norm_result :: "obicall_result \<Rightarrow> obicall_result" where
  "norm_result m = m\<lparr>res_struct_size := sizeof_result,
     res_payload := memcpy (replicate 6 0) 0 (take (unat (res_payload_count m)) (res_payload m)),
     res_covariance :=
       memcpy (replicate 36 0) 0 (take (unat (res_covariance_count m)) (res_covariance m)),
     res_sources := memcpy (replicate 8 (replicate 32 0)) 0
       (take (unat (res_source_count m)) (res_sources m))\<rparr>"

lemma result_facts:
  assumes "encodable_result m"
  shows "length (res_pipeline_id m) = 32" and "length (res_payload m) = 6"
    and "length (res_covariance m) = 36" and "length (res_input_digest m) = 32"
    and "length (res_config_digest m) = 32" and "length (res_sources m) = 8"
    and "list_all (\<lambda>s. length s = 32) (take k (res_sources m))"
    and "unat (res_payload_count m) \<le> 6" and "unat (res_covariance_count m) \<le> 36"
    and "unat (res_source_count m) \<le> 8" and "\<not> 6 < res_payload_count m"
    and "\<not> 36 < res_covariance_count m" and "\<not> 8 < res_source_count m"
  using assms by (auto simp: encodable_result_def wf_result_def word_le_nat_alt word_less_nat_alt
      list_all_iff dest: in_set_takeD)

lemma length_result_layout [layout_simps]:
  assumes "encodable_result m"
  shows "length (result_layout m) = 164 + 8 * unat (res_payload_count m) +
    8 * unat (res_covariance_count m) + 32 * unat (res_source_count m)"
  using result_facts [OF assms]
  by (simp add: result_layout_def length_concat_const [OF result_facts(7) [OF assms]])

lemma accepts_result:
  "accepts {OBICALL_ERR_WIRE_MALFORMED} get_result
     (\<lambda>bs m. \<exists>m0. encodable_result m0 \<and> m = norm_result m0 \<and> bs = result_layout m0)"
  unfolding get_result_def
proof (rule accepts_sound_complete, ((rule codec_intros | simp)+)[1], goal_cases)
  case (1 bs m)
  then show ?case
  proof (elim exE conjE, goal_cases)
    case (1 s)
    then show ?case
      by (intro exI [of _ "m\<lparr>res_struct_size := s\<rparr>"] conjI)
         (simp_all add: encodable_result_def wf_result_def norm_result_def result_layout_def
          memcpy_zero word_less_nat_alt word_le_nat_alt)
  qed
next
  case (2 bs ys m)
  then obtain m0 where m0: "encodable_result m0" "m = norm_result m0" "bs = result_layout m0"
    by blast
  show ?case
    unfolding m0(2,3) result_layout_def append_assoc
    by (rule yields_fields yields_read [OF reads_each [OF reads_fixed]] |
        (simp add: result_facts [OF m0(1)] norm_result_def; fail))+
qed

interpretation result: wire_codec obicall_wire_encode_result result_layout encodable_result
  obicall_wire_decode_result norm_result
  unfolding obicall_wire_encode_result_def obicall_wire_decode_result_def
proof (rule wire_codec_intro)
  fix m assume m: "encodable_result m"
  note f = result_facts [OF m]
  show "\<not> (6 < res_payload_count m \<or> 36 < res_covariance_count m \<or> 8 < res_source_count m)"
    using f by simp
  have src: "length s = 32" if "s \<in> set (take (unat (res_source_count m)) (res_sources m))"
    for s using f(7) [of "unat (res_source_count m)"] that by (simp add: list_all_iff)
  show "writes (put_result m) (result_layout m)"
    unfolding put_result_def result_layout_def
    by (intro codec_intros) (simp_all add: f src)
  have "encodable_result (norm_result m)"
    using m f by (simp add: encodable_result_def wf_result_def norm_result_def memcpy_zero)
  moreover from this have "length (result_layout (norm_result m)) = length (result_layout m)"
    using m by (simp add: layout_simps) (simp add: norm_result_def)
  ultimately show "encodable_result (norm_result m) \<and> norm_result (norm_result m) = norm_result m \<and>
      length (result_layout (norm_result m)) = length (result_layout m)"
    by (simp add: norm_result_def memcpy_zero f)
qed (rule accepts_result)

section \<open>checkpoint\<close>

definition put_source_position :: "obicall_source_position \<Rightarrow> (wcursor, unit) state" where
  "put_source_position sp = do {
     wc_fixed (sp_sensor_id sp) OBICALL_SENSOR_ID_LEN;
     wc_u64 (sp_source_boot_id sp);
     wc_u64 (sp_last_sequence sp) }"

definition put_checkpoint :: "obicall_checkpoint \<Rightarrow> (wcursor, unit) state" where
  "put_checkpoint k = do {
     wc_u32 (ck_struct_size k);
     wc_u32 (ck_schema_version k);
     wc_fixed (ck_pipeline_id k) OBICALL_PIPELINE_ID_LEN;
     wc_u64 (ck_window_seq k);
     wc_u32 (ck_estimator_mode k);
     wc_u32 (ck_state_dim k);
     wc_each wc_f64 (take (unat (ck_state_dim k)) (ck_state_mean k));
     wc_each wc_f64 (take (unat (ck_state_dim k * ck_state_dim k)) (ck_state_covariance k));
     wc_u32 (ck_calibration_version k);
     wc_u32 (ck_policy_version k);
     wc_u32 (ck_dgt_action_id k);
     wc_u32 (ck_source_count k);
     wc_each put_source_position (take (unat (ck_source_count k)) (ck_sources k));
     wc_i64 (ck_created_at_ns k) }"

definition get_source_position :: "(rcursor, obicall_source_position) state" where
  "get_source_position = do {
     sensor_id \<leftarrow> rc_fixed (replicate 32 0) OBICALL_SENSOR_ID_LEN;
     source_boot_id \<leftarrow> rc_u64;
     last_sequence \<leftarrow> rc_u64;
     State_Monad.return \<lparr>sp_sensor_id = sensor_id, sp_source_boot_id = source_boot_id,
       sp_last_sequence = last_sequence\<rparr> }"

text \<open>An array element that \<^verbatim>\<open>memset(out, 0, sizeof(*out))\<close> leaves behind.\<close>

definition zero_source_position :: obicall_source_position where
  "zero_source_position =
     \<lparr>sp_sensor_id = replicate 32 0, sp_source_boot_id = 0, sp_last_sequence = 0\<rparr>"

definition get_checkpoint :: "(rcursor, obicall_checkpoint res) state" where
  "get_checkpoint = do {
     struct_size \<leftarrow> rc_u32;
     schema_version \<leftarrow> rc_u32;
     pipeline_id \<leftarrow> rc_fixed (replicate 32 0) OBICALL_PIPELINE_ID_LEN;
     window_seq \<leftarrow> rc_u64;
     estimator_mode \<leftarrow> rc_u32;
     state_dim \<leftarrow> rc_u32;
     rc_guard (state_dim > OBICALL_MAX_STATE_DIM) (do {
       state_mean \<leftarrow> rc_each (unat state_dim) rc_f64;
       state_covariance \<leftarrow> rc_each (unat (state_dim * state_dim)) rc_f64;
       calibration_version \<leftarrow> rc_u32;
       policy_version \<leftarrow> rc_u32;
       dgt_action_id \<leftarrow> rc_u32;
       source_count \<leftarrow> rc_u32;
       rc_guard (source_count > OBICALL_MAX_TRACKED_SOURCES) (do {
         sources \<leftarrow> rc_each (unat source_count) get_source_position;
         created_at_ns \<leftarrow> rc_i64;
         rc_end \<lparr>ck_struct_size = sizeof_checkpoint, ck_schema_version = schema_version,
           ck_pipeline_id = pipeline_id, ck_window_seq = window_seq,
           ck_estimator_mode = estimator_mode, ck_state_dim = state_dim,
           ck_state_mean = memcpy (replicate 6 0) 0 state_mean,
           ck_state_covariance = memcpy (replicate 36 0) 0 state_covariance,
           ck_calibration_version = calibration_version, ck_policy_version = policy_version,
           ck_dgt_action_id = dgt_action_id, ck_source_count = source_count,
           ck_sources = memcpy (replicate 16 zero_source_position) 0 sources,
           ck_created_at_ns = created_at_ns\<rparr> }) }) }"

definition obicall_wire_encode_checkpoint where
  "obicall_wire_encode_checkpoint = wire_encode
     (\<lambda>k. ck_state_dim k > OBICALL_MAX_STATE_DIM \<or>
          ck_source_count k > OBICALL_MAX_TRACKED_SOURCES) put_checkpoint"

definition obicall_wire_decode_checkpoint where
  "obicall_wire_decode_checkpoint = wire_decode get_checkpoint"

definition source_position_layout :: "obicall_source_position \<Rightarrow> bytes" where
  "source_position_layout sp =
     sp_sensor_id sp @ le_bytes 8 (sp_source_boot_id sp) @ le_bytes 8 (sp_last_sequence sp)"

definition checkpoint_layout :: "obicall_checkpoint \<Rightarrow> bytes" where
  "checkpoint_layout m =
     le_bytes 4 (ck_struct_size m) @ le_bytes 4 (ck_schema_version m) @ ck_pipeline_id m @
     le_bytes 8 (ck_window_seq m) @ le_bytes 4 (ck_estimator_mode m) @
     le_bytes 4 (ck_state_dim m) @
     le_doubles (take (unat (ck_state_dim m)) (ck_state_mean m)) @
     le_doubles (take (unat (ck_state_dim m * ck_state_dim m)) (ck_state_covariance m)) @
     le_bytes 4 (ck_calibration_version m) @ le_bytes 4 (ck_policy_version m) @
     le_bytes 4 (ck_dgt_action_id m) @ le_bytes 4 (ck_source_count m) @
     concat (map source_position_layout (take (unat (ck_source_count m)) (ck_sources m))) @
     le_bytes 8 (ck_created_at_ns m)"

definition wf_checkpoint :: "obicall_checkpoint \<Rightarrow> bool" where
  "wf_checkpoint m \<longleftrightarrow> length (ck_pipeline_id m) = 32 \<and> length (ck_state_mean m) = 6 \<and>
     length (ck_state_covariance m) = 36 \<and> length (ck_sources m) = 16 \<and>
     list_all (\<lambda>sp. length (sp_sensor_id sp) = 32) (ck_sources m)"

definition encodable_checkpoint :: "obicall_checkpoint \<Rightarrow> bool" where
  "encodable_checkpoint m \<longleftrightarrow> wf_checkpoint m \<and> ck_state_dim m \<le> OBICALL_MAX_STATE_DIM \<and>
     ck_source_count m \<le> OBICALL_MAX_TRACKED_SOURCES"

definition norm_checkpoint :: "obicall_checkpoint \<Rightarrow> obicall_checkpoint" where
  "norm_checkpoint m = m\<lparr>ck_struct_size := sizeof_checkpoint,
     ck_state_mean := memcpy (replicate 6 0) 0 (take (unat (ck_state_dim m)) (ck_state_mean m)),
     ck_state_covariance := memcpy (replicate 36 0) 0
       (take (unat (ck_state_dim m * ck_state_dim m)) (ck_state_covariance m)),
     ck_sources := memcpy (replicate 16 zero_source_position) 0
       (take (unat (ck_source_count m)) (ck_sources m))\<rparr>"

lemma reads_source_position:
  "reads get_source_position source_position_layout (\<lambda>sp. length (sp_sensor_id sp) = 32)"
proof -
  have "reads (State_Monad.return \<lparr>sp_sensor_id = a, sp_source_boot_id = b, sp_last_sequence = c\<rparr>)
      (\<lambda>_. []) (\<lambda>v. ((True \<and> sp_sensor_id v = a) \<and> sp_source_boot_id v = b) \<and>
        sp_last_sequence v = c)" for a b c
    by (rule reads_cong [OF reads_return]) auto
  then have "reads (do { c \<leftarrow> rc_u64;
      State_Monad.return \<lparr>sp_sensor_id = a, sp_source_boot_id = b, sp_last_sequence = c\<rparr> })
      (\<lambda>v. le_bytes 8 (sp_last_sequence v) @ [])
      (\<lambda>v. True \<and> (True \<and> sp_sensor_id v = a) \<and> sp_source_boot_id v = b)" for a b
    by (rule reads_bind [OF reads_u64])
  then have "reads (do { c \<leftarrow> rc_u64;
      State_Monad.return \<lparr>sp_sensor_id = a, sp_source_boot_id = b, sp_last_sequence = c\<rparr> })
      (\<lambda>v. le_bytes 8 (sp_last_sequence v))
      (\<lambda>v. (True \<and> sp_sensor_id v = a) \<and> sp_source_boot_id v = b)" for a b
    by (rule reads_cong) auto
  then have "reads (do { b \<leftarrow> rc_u64; c \<leftarrow> rc_u64;
      State_Monad.return \<lparr>sp_sensor_id = a, sp_source_boot_id = b, sp_last_sequence = c\<rparr> })
      (\<lambda>v. le_bytes 8 (sp_source_boot_id v) @ le_bytes 8 (sp_last_sequence v))
      (\<lambda>v. True \<and> True \<and> sp_sensor_id v = a)" for a
    by (rule reads_bind [OF reads_u64])
  then have "reads (do { b \<leftarrow> rc_u64; c \<leftarrow> rc_u64;
      State_Monad.return \<lparr>sp_sensor_id = a, sp_source_boot_id = b, sp_last_sequence = c\<rparr> })
      (\<lambda>v. le_bytes 8 (sp_source_boot_id v) @ le_bytes 8 (sp_last_sequence v))
      (\<lambda>v. True \<and> sp_sensor_id v = a)" for a
    by (rule reads_cong) auto
  from reads_bind [OF reads_fixed this, of "replicate 32 0" 32] show ?thesis
    unfolding get_source_position_def
    by (auto simp: source_position_layout_def elim: reads_cong)
qed

lemma checkpoint_facts:
  assumes "encodable_checkpoint m"
  shows "length (ck_pipeline_id m) = 32" and "length (ck_state_mean m) = 6"
    and "length (ck_state_covariance m) = 36" and "length (ck_sources m) = 16"
    and "list_all (\<lambda>sp. length (sp_sensor_id sp) = 32) (take k (ck_sources m))"
    and "unat (ck_state_dim m) \<le> 6" and "unat (ck_state_dim m * ck_state_dim m) \<le> 36"
    and "unat (ck_source_count m) \<le> 16"
    and "\<not> 6 < ck_state_dim m" and "\<not> 16 < ck_source_count m"
proof -
  show d: "unat (ck_state_dim m) \<le> 6"
    using assms by (simp add: encodable_checkpoint_def word_le_nat_alt)
  then have "unat (ck_state_dim m) * unat (ck_state_dim m) \<le> 6 * 6" by (rule mult_le_mono) (rule d)
  then show "unat (ck_state_dim m * ck_state_dim m) \<le> 36" by (simp add: unat_word_ariths)
qed (use assms in \<open>auto simp: encodable_checkpoint_def wf_checkpoint_def word_le_nat_alt
      word_less_nat_alt list_all_iff dest: in_set_takeD\<close>)

lemma length_source_positions:
  "list_all (\<lambda>sp. length (sp_sensor_id sp) = 32) sps \<Longrightarrow>
     length (concat (map source_position_layout sps)) = 48 * length sps"
  by (induction sps) (simp_all add: source_position_layout_def)

lemma length_checkpoint_layout [layout_simps]:
  assumes "encodable_checkpoint m"
  shows "length (checkpoint_layout m) = 80 + 8 * unat (ck_state_dim m) +
    8 * unat (ck_state_dim m * ck_state_dim m) + 48 * unat (ck_source_count m)"
  using checkpoint_facts [OF assms]
  by (simp add: checkpoint_layout_def length_source_positions [OF checkpoint_facts(5) [OF assms]])

lemma accepts_checkpoint:
  "accepts {OBICALL_ERR_WIRE_MALFORMED} get_checkpoint
     (\<lambda>bs m. \<exists>m0. encodable_checkpoint m0 \<and> m = norm_checkpoint m0 \<and> bs = checkpoint_layout m0)"
  unfolding get_checkpoint_def
proof (rule accepts_sound_complete,
    ((rule codec_intros reads_source_position | simp)+)[1], goal_cases)
  case (1 bs m)
  then show ?case
  proof (elim exE conjE, goal_cases)
    case (1 s _ _ _ _ _ _ _ _ _ d)
    then have "encodable_checkpoint m"
      using mult_le_mono [of "unat d" 6 "unat d" 6]
      by (simp add: encodable_checkpoint_def wf_checkpoint_def memcpy_zero word_less_nat_alt
          word_le_nat_alt zero_source_position_def unat_word_ariths)
    with 1 show ?case
      by (intro exI [of _ "m\<lparr>ck_struct_size := s\<rparr>"] conjI)
         (simp_all add: encodable_checkpoint_def wf_checkpoint_def norm_checkpoint_def
          checkpoint_layout_def memcpy_zero)
  qed
next
  case (2 bs ys m)
  then obtain m0 where m0: "encodable_checkpoint m0" "m = norm_checkpoint m0"
    "bs = checkpoint_layout m0" by blast
  show ?case
    unfolding m0(2,3) checkpoint_layout_def append_assoc
    by (rule yields_fields yields_read [OF reads_each [OF reads_source_position]] |
        (simp add: checkpoint_facts [OF m0(1)] norm_checkpoint_def; fail))+
qed

interpretation checkpoint: wire_codec obicall_wire_encode_checkpoint checkpoint_layout
  encodable_checkpoint obicall_wire_decode_checkpoint norm_checkpoint
  unfolding obicall_wire_encode_checkpoint_def obicall_wire_decode_checkpoint_def
proof (rule wire_codec_intro)
  fix m assume m: "encodable_checkpoint m"
  note f = checkpoint_facts [OF m]
  show "\<not> (6 < ck_state_dim m \<or> 16 < ck_source_count m)" using f by simp
  have "writes (put_source_position sp) (source_position_layout sp)"
    if "sp \<in> set (take (unat (ck_source_count m)) (ck_sources m))" for sp
    unfolding put_source_position_def source_position_layout_def
    using f(5) [of "unat (ck_source_count m)"] that
    by (intro codec_intros) (simp add: list_all_iff)
  then show "writes (put_checkpoint m) (checkpoint_layout m)"
    unfolding put_checkpoint_def checkpoint_layout_def
    by (intro codec_intros) (simp_all add: f)
  have "encodable_checkpoint (norm_checkpoint m)"
    using m f by (simp add: encodable_checkpoint_def wf_checkpoint_def norm_checkpoint_def
        memcpy_zero zero_source_position_def)
  moreover from this have "length (checkpoint_layout (norm_checkpoint m)) =
      length (checkpoint_layout m)"
    using m by (simp add: layout_simps) (simp add: norm_checkpoint_def)
  ultimately show "encodable_checkpoint (norm_checkpoint m) \<and>
      norm_checkpoint (norm_checkpoint m) = norm_checkpoint m \<and>
      length (checkpoint_layout (norm_checkpoint m)) = length (checkpoint_layout m)"
    by (simp add: norm_checkpoint_def memcpy_zero f)
qed (rule accepts_checkpoint)

section \<open>event\<close>

text \<open>
  The event carries a variable-length payload. Its encoder answers an oversized payload with
  \<^verbatim>\<open>OBICALL_ERR_WIRE_TOO_LARGE\<close>, and its decoder copies the payload into storage the caller lends;
  \<open>payload_storage\<close> is that storage (\<open>None\<close> for \<^verbatim>\<open>NULL\<close>), of which a payload of length \<open>n\<close> overwrites
  and views the first \<open>n\<close> bytes.
\<close>

definition put_event :: "obicall_event \<Rightarrow> (wcursor, unit) state" where
  "put_event e = do {
     wc_u32 (ev_struct_size e);
     wc_u32 (ev_schema_version e);
     wc_u32 (ev_event_type e);
     wc_u32 (ev_reserved e);
     wc_i64 (ev_timestamp_ns e);
     wc_u32 (ev_payload_len e);
     (if ev_payload_len e > 0 then wc_bytes (ev_payload_data e) (ev_payload_len e)
      else State_Monad.return ()) }"

definition obicall_wire_encode_event ::
  "obicall_event option \<Rightarrow> bytes option \<Rightarrow> u32 \<Rightarrow> u32 option \<Rightarrow> (bytes \<times> u32) res" where
  "obicall_wire_encode_event e out out_cap out_len =
     (case (e, out, out_len) of
        (Some e, Some out, Some _) \<Rightarrow>
          if ev_payload_len e > OBICALL_WIRE_MAX_PAYLOAD then Inl OBICALL_ERR_WIRE_TOO_LARGE
          else wc_run (put_event e) out out_cap
      | _ \<Rightarrow> Inl OBICALL_ERR_NULL_POINTER)"

definition get_event :: "bytes option \<Rightarrow> u32 \<Rightarrow> (rcursor, obicall_event res) state" where
  "get_event payload_storage payload_storage_cap = do {
     struct_size \<leftarrow> rc_u32;
     schema_version \<leftarrow> rc_u32;
     event_type \<leftarrow> rc_u32;
     reserved \<leftarrow> rc_u32;
     timestamp_ns \<leftarrow> rc_i64;
     payload_len \<leftarrow> rc_u32;
     rc_guard (payload_len > OBICALL_WIRE_MAX_PAYLOAD) (
       if payload_len > 0 then
         (if payload_storage = None \<or> payload_storage_cap < payload_len
          then State_Monad.return (Inl OBICALL_ERR_BUFFER_TOO_SMALL)
          else do {
            data \<leftarrow> rc_bytes (take (unat payload_len) (the payload_storage)) payload_len;
            rc_end \<lparr>ev_struct_size = sizeof_event, ev_schema_version = schema_version,
              ev_event_type = event_type, ev_reserved = reserved, ev_timestamp_ns = timestamp_ns,
              ev_payload_data = data, ev_payload_len = payload_len\<rparr> })
       else rc_end \<lparr>ev_struct_size = sizeof_event, ev_schema_version = schema_version,
              ev_event_type = event_type, ev_reserved = reserved, ev_timestamp_ns = timestamp_ns,
              ev_payload_data = [], ev_payload_len = 0\<rparr>) }"

definition obicall_wire_decode_event ::
  "bytes option \<Rightarrow> u32 \<Rightarrow> bytes option \<Rightarrow> u32 \<Rightarrow> obicall_event option \<Rightarrow> obicall_event res" where
  "obicall_wire_decode_event inp in_len payload_storage payload_storage_cap out =
     wire_decode (get_event payload_storage payload_storage_cap) inp in_len out"

definition event_layout :: "obicall_event \<Rightarrow> bytes" where
  "event_layout m =
     le_bytes 4 (ev_struct_size m) @ le_bytes 4 (ev_schema_version m) @
     le_bytes 4 (ev_event_type m) @ le_bytes 4 (ev_reserved m) @ le_bytes 8 (ev_timestamp_ns m) @
     le_bytes 4 (ev_payload_len m) @ ev_payload_data m"

definition encodable_event :: "obicall_event \<Rightarrow> bool" where
  "encodable_event m \<longleftrightarrow> length (ev_payload_data m) = unat (ev_payload_len m) \<and>
     ev_payload_len m \<le> OBICALL_WIRE_MAX_PAYLOAD"

definition norm_event :: "obicall_event \<Rightarrow> obicall_event" where
  "norm_event m = m\<lparr>ev_struct_size := sizeof_event\<rparr>"

interpretation event: wire_encoder obicall_wire_encode_event event_layout encodable_event
proof
  fix m and cap :: u32 and out :: bytes and l
  assume m: "encodable_event m" and cap: "unat cap \<le> length out"
  have "writes (if ev_payload_len m > 0 then wc_bytes (ev_payload_data m) (ev_payload_len m)
      else State_Monad.return ()) (ev_payload_data m)"
    using m writes_bytes [of "ev_payload_len m" "ev_payload_data m"] writes_return
    by (auto simp: encodable_event_def word_gt_0)
  then have "writes (put_event m) (event_layout m)"
    unfolding put_event_def event_layout_def by (intro codec_intros)
  moreover have "\<not> OBICALL_WIRE_MAX_PAYLOAD < ev_payload_len m"
    using m by (simp add: encodable_event_def not_less)
  ultimately show "obicall_wire_encode_event (Some m) (Some out) cap (Some l) =
      (if length (event_layout m) \<le> unat cap
       then Inr (memcpy out 0 (event_layout m), of_nat (length (event_layout m)))
       else Inl OBICALL_ERR_BUFFER_TOO_SMALL)"
    using cap by (simp add: obicall_wire_encode_event_def wc_run_writes)
qed (auto simp: obicall_wire_encode_event_def split: option.split)

text \<open>
  With storage for the payload the decoder accepts exactly the encodings; without, it says so
  before reading the payload.
\<close>

lemma decode_event_layout:
  assumes m: "encodable_event m" and len: "unat len \<le> length inp"
    and p: "prefix (event_layout m) (take (unat len) inp)" and st: "unat cap \<le> length st"
  shows "obicall_wire_decode_event (Some inp) len (Some st) cap (Some old) =
    (if ev_payload_len m \<le> cap then Inr (norm_event m) else Inl OBICALL_ERR_BUFFER_TOO_SMALL)"
proof -
  obtain ys where ys: "take (unat len) inp = event_layout m @ ys" using p by (auto simp: prefix_def)
  have f: "length (ev_payload_data m) = unat (ev_payload_len m)"
    "\<not> OBICALL_WIRE_MAX_PAYLOAD < ev_payload_len m"
    using m by (simp_all add: encodable_event_def not_less)
  have z: "ev_payload_len m = 0 \<and> ev_payload_data m = []" if "\<not> 0 < ev_payload_len m"
    using that f by (simp add: word_gt_0)
  have "yields (get_event (Some st) cap) (event_layout m @ ys)
    (if ev_payload_len m \<le> cap then Inr (norm_event m) else Inl OBICALL_ERR_BUFFER_TOO_SMALL)"
    unfolding get_event_def event_layout_def append_assoc
    by (rule yields_fields |
        (use f st z in \<open>auto simp: norm_event_def word_le_nat_alt word_less_nat_alt
          intro: obicall_event.equality\<close>; fail))+
  then show ?thesis
    using rc_run_yields [OF _ len, of "get_event (Some st) cap"]
    by (simp add: obicall_wire_decode_event_def wire_decode_def ys)
qed

end
