(* ===== verification/Wire.thy ===== *)
theory Wire
  imports Wire_Control Wire_Data
begin

text \<open>
  What the processes rely on when they exchange messages through \<^verbatim>\<open>src/core/wire.c\<close>: messages
  survive the trip, the fixed buffers of the callers are large enough, a decoder accepts exactly the
  encodings and never trusts a count or length it has not checked. The proofs instantiate the codec
  contract of \<open>Wire_Codec\<close> at each message.
\<close>

section \<open>Bounds of the encodings\<close>

lemma observation_layout_max: "encodable_observation m \<Longrightarrow> length (observation_layout m) \<le> 444"
  using encodable_facts(4,5) [of m] by (simp add: layout_simps)

lemma result_layout_max: "encodable_result m \<Longrightarrow> length (result_layout m) \<le> 756"
  using result_facts(8,9,10) [of m] by (simp add: layout_simps)

lemma checkpoint_layout_max: "encodable_checkpoint m \<Longrightarrow> length (checkpoint_layout m) \<le> 1184"
  using checkpoint_facts(6,7,8) [of m] by (simp add: layout_simps)

section \<open>Concrete messages\<close>

definition zero_digest :: bytes where
  "zero_digest = replicate 32 0"

definition example_sensor_reading :: obicall_observation where
  "example_sensor_reading = \<lparr>obs_struct_size = 456, obs_schema_version = 1,
     obs_sensor_id = 0x67 # replicate 31 0, obs_source_boot_id = 7, obs_sequence = 3,
     obs_sample_time_ns = 100, obs_arrival_time_ns = 120, obs_clock_domain = 1,
     obs_time_uncertainty_s = Double 0, obs_coordinate_frame = 1, obs_units = 1,
     obs_calibration_version = 1, obs_payload_shape = 2, obs_payload_count = 2,
     obs_payload = replicate 6 (Double 0), obs_covariance_count = 4,
     obs_covariance = replicate 36 (Double 0)\<rparr>"

definition example_result :: obicall_result where
  "example_result = \<lparr>res_struct_size = 768, res_schema_version = 1,
     res_pipeline_id = 0x70 # replicate 31 0, res_window_seq = 9, res_broker_id = 1, res_epoch = 1,
     res_status = 2, res_payload_shape = 2, res_payload_count = 2,
     res_payload = replicate 6 (Double 0), res_covariance_count = 4,
     res_covariance = replicate 36 (Double 0), res_input_digest = zero_digest,
     res_config_digest = zero_digest, res_timestamp_ns = 100, res_valid_until_ns = 600,
     res_source_count = 1, res_sources = replicate 8 (replicate 32 0), res_dgt_action_id = 1\<rparr>"

definition example_checkpoint :: obicall_checkpoint where
  "example_checkpoint = \<lparr>ck_struct_size = 1184, ck_schema_version = 1,
     ck_pipeline_id = 0x70 # replicate 31 0, ck_window_seq = 9, ck_estimator_mode = 1,
     ck_state_dim = 4, ck_state_mean = replicate 6 (Double 0),
     ck_state_covariance = replicate 36 (Double 0), ck_calibration_version = 1,
     ck_policy_version = 1, ck_dgt_action_id = 1, ck_source_count = 1,
     ck_sources = replicate 16 zero_source_position, ck_created_at_ns = 100\<rparr>"

definition example_event :: obicall_event where
  "example_event = \<lparr>ev_struct_size = 40, ev_schema_version = 1, ev_event_type = 2, ev_reserved = 0,
     ev_timestamp_ns = 5, ev_payload_data = [1, 2, 3], ev_payload_len = 3\<rparr>"

lemma example_messages_ok:
  "encodable_observation example_sensor_reading" "encodable_result example_result"
  "encodable_checkpoint example_checkpoint"
  by (simp_all add: encodable_observation_def wf_observation_def example_sensor_reading_def
      encodable_result_def wf_result_def example_result_def zero_digest_def
      encodable_checkpoint_def wf_checkpoint_def example_checkpoint_def zero_source_position_def)

section \<open>Data messages\<close>

text \<open>
  every observation within the array bounds fits the smallest buffer a caller provides (1024
  bytes; 444 already suffice), and the receiver decodes from the bytes the encoder reports exactly
  the observation that was sent, up to the unused array tail and its own struct size.
\<close>

theorem observation_round_trip:
  assumes "encodable_observation m" and "444 \<le> unat cap" and "unat cap \<le> length out"
  shows "\<exists>out' n. obicall_wire_encode_observation (Some m) (Some out) cap (Some l) = Inr (out', n) \<and>
    unat n \<le> 444 \<and> length out' = length out \<and> drop (unat n) out' = drop (unat n) out \<and>
    obicall_wire_decode_observation (Some out') n (Some old) = Inr (norm_observation m)"
proof -
  note max = observation_layout_max [OF assms(1)]
  obtain out' n where e: "obicall_wire_encode_observation (Some m) (Some out) cap (Some l) = Inr (out', n)"
    "obicall_wire_decode_observation (Some out') n (Some old) = Inr (norm_observation m)"
    using observation.roundtrip [OF assms(1,3)] max assms(2) le_trans by blast
  show ?thesis using e max observation.encode_Inr [OF assms(1,3) e(1)] by auto
qed

theorem observation_round_trip_witness:
  "\<exists>out' n. obicall_wire_encode_observation (Some example_sensor_reading)
      (Some (replicate 1024 0)) 1024 (Some 0) = Inr (out', n) \<and>
    obicall_wire_decode_observation (Some out') n (Some example_sensor_reading) =
      Inr (norm_observation example_sensor_reading)"
  using observation_round_trip [OF example_messages_ok(1), of 1024 "replicate 1024 0" 0
      example_sensor_reading] by auto

text \<open>
  Every result within the array bounds fits the 1024-byte buffer of the command line and the
  2048-byte buffer of the broker (756 bytes suffice), and the gate decodes exactly what was sent.
\<close>

theorem result_round_trip:
  assumes "encodable_result m" and "756 \<le> unat cap" and "unat cap \<le> length out"
  shows "\<exists>out' n. obicall_wire_encode_result (Some m) (Some out) cap (Some l) = Inr (out', n) \<and>
    unat n \<le> 756 \<and> length out' = length out \<and> drop (unat n) out' = drop (unat n) out \<and>
    obicall_wire_decode_result (Some out') n (Some old) = Inr (norm_result m)"
proof -
  note max = result_layout_max [OF assms(1)]
  obtain out' n where e: "obicall_wire_encode_result (Some m) (Some out) cap (Some l) = Inr (out', n)"
    "obicall_wire_decode_result (Some out') n (Some old) = Inr (norm_result m)"
    using result.roundtrip [OF assms(1,3)] max assms(2) le_trans by blast
  show ?thesis using e max result.encode_Inr [OF assms(1,3) e(1)] by auto
qed

theorem result_round_trip_witness:
  "\<exists>out' n. obicall_wire_encode_result (Some example_result)
      (Some (replicate 1024 0)) 1024 (Some 0) = Inr (out', n) \<and>
    obicall_wire_decode_result (Some out') n (Some example_result) = Inr (norm_result example_result)"
  using result_round_trip [OF example_messages_ok(2), of 1024 "replicate 1024 0" 0 example_result]
  by auto

text \<open>
  C38: a checkpoint within its bounds takes at most 1184 bytes and decodes to what was saved: the
  estimator state, its covariance (the \<open>dim * dim\<close> part) and every source position.
\<close>

theorem checkpoint_round_trip:
  assumes "encodable_checkpoint m" and "1184 \<le> unat cap" and "unat cap \<le> length out"
  shows "\<exists>out' n. obicall_wire_encode_checkpoint (Some m) (Some out) cap (Some l) = Inr (out', n) \<and>
    unat n \<le> 1184 \<and> length out' = length out \<and> drop (unat n) out' = drop (unat n) out \<and>
    obicall_wire_decode_checkpoint (Some out') n (Some old) = Inr (norm_checkpoint m)"
proof -
  note max = checkpoint_layout_max [OF assms(1)]
  obtain out' n where e: "obicall_wire_encode_checkpoint (Some m) (Some out) cap (Some l) = Inr (out', n)"
    "obicall_wire_decode_checkpoint (Some out') n (Some old) = Inr (norm_checkpoint m)"
    using checkpoint.roundtrip [OF assms(1,3)] max assms(2) le_trans by blast
  show ?thesis using e max checkpoint.encode_Inr [OF assms(1,3) e(1)] by auto
qed

theorem checkpoint_round_trip_witness:
  "\<exists>out' n. obicall_wire_encode_checkpoint (Some example_checkpoint)
      (Some (replicate 1184 0)) 1184 (Some 0) = Inr (out', n) \<and>
    obicall_wire_decode_checkpoint (Some out') n (Some example_checkpoint) =
      Inr (norm_checkpoint example_checkpoint)"
  using checkpoint_round_trip [OF example_messages_ok(3), of 1184 "replicate 1184 0" 0
      example_checkpoint] by auto

text \<open>
  C37: the result decoder is exact. It accepts an input if and only if the input starts with the
  encoding of a result within the array bounds, and then returns that result; every other input,
  hostile counts included, is answered with \<^verbatim>\<open>OBICALL_ERR_WIRE_MALFORMED\<close>; and what it returns never
  depends on bytes beyond the declared length.
\<close>

theorem result_decoder_exact:
  assumes "unat len \<le> length inp"
  shows "(obicall_wire_decode_result (Some inp) len (Some old) = Inr m \<longleftrightarrow>
      (\<exists>m0. encodable_result m0 \<and> m = norm_result m0 \<and>
        prefix (result_layout m0) (take (unat len) inp))) \<and>
    (obicall_wire_decode_result (Some inp) len (Some old) = Inl OBICALL_ERR_WIRE_MALFORMED \<or>
      (\<exists>m'. obicall_wire_decode_result (Some inp) len (Some old) = Inr m')) \<and>
    obicall_wire_decode_result (Some (take (unat len) inp @ junk)) len (Some old) =
      obicall_wire_decode_result (Some inp) len (Some old)"
proof (intro conjI)
  show "obicall_wire_decode_result (Some inp) len (Some old) = Inr m \<longleftrightarrow>
      (\<exists>m0. encodable_result m0 \<and> m = norm_result m0 \<and>
        prefix (result_layout m0) (take (unat len) inp))"
    by (rule result.decode_iff [OF assms])
  show "obicall_wire_decode_result (Some inp) len (Some old) = Inl OBICALL_ERR_WIRE_MALFORMED \<or>
      (\<exists>m'. obicall_wire_decode_result (Some inp) len (Some old) = Inr m')"
    using result.decode_error [OF assms]
    by (cases "obicall_wire_decode_result (Some inp) len (Some old)") auto
  show "obicall_wire_decode_result (Some (take (unat len) inp @ junk)) len (Some old) =
      obicall_wire_decode_result (Some inp) len (Some old)"
    using assms by (intro result.decode_local) simp_all
qed

theorem result_decoder_exact_witness:
  "obicall_wire_decode_result (Some (result_layout example_result)) 244 (Some example_result) =
     Inr (norm_result example_result)"
proof -
  have "length (result_layout example_result) = 244"
    using length_result_layout [OF example_messages_ok(2)] by (simp add: example_result_def)
  then show ?thesis
    using result_decoder_exact [of 244 "result_layout example_result" example_result
        "norm_result example_result" "[]"] example_messages_ok(2) by auto
qed

text \<open>
  A result cut short anywhere is rejected; no strict prefix of an encoding decodes to anything.
\<close>

theorem result_truncation_rejected:
  assumes "encodable_result m" and "unat cap \<le> length out"
    and "obicall_wire_encode_result (Some m) (Some out) cap (Some l) = Inr (out', n)" and "k < n"
  shows "obicall_wire_decode_result (Some out') k (Some old) = Inl OBICALL_ERR_WIRE_MALFORMED"
  using assms by (rule result.decode_truncated)

theorem result_truncation_rejected_witness:
  "\<exists>out' n. obicall_wire_encode_result (Some example_result) (Some (replicate 1024 0)) 1024 (Some 0) =
      Inr (out', n) \<and>
    obicall_wire_decode_result (Some out') 200 (Some example_result) = Inl OBICALL_ERR_WIRE_MALFORMED"
proof -
  have len: "length (result_layout example_result) = 244"
    using length_result_layout [OF example_messages_ok(2)] by (simp add: example_result_def)
  then have e: "obicall_wire_encode_result (Some example_result) (Some (replicate 1024 0)) 1024 (Some 0) =
      Inr (memcpy (replicate 1024 0) 0 (result_layout example_result), 244)"
    using result.encode_run [OF example_messages_ok(2), of 1024 "replicate 1024 0" 0] by simp
  then show ?thesis
    using result_truncation_rejected [OF example_messages_ok(2) _ e, of 200 example_result] by simp
qed

text \<open>
  C28: an event of at most one mebibyte of payload decodes to the event that was sent when the
  receiver lends at least as much storage as the payload takes, and otherwise is refused with
  \<^verbatim>\<open>OBICALL_ERR_BUFFER_TOO_SMALL\<close>.
\<close>

theorem event_round_trip:
  assumes "encodable_event m" and "unat cap \<le> length out"
    and "28 + unat (ev_payload_len m) \<le> unat cap" and "unat storage_cap \<le> length storage"
  shows "\<exists>out' n. obicall_wire_encode_event (Some m) (Some out) cap (Some l) = Inr (out', n) \<and>
    unat n = 28 + unat (ev_payload_len m) \<and>
    obicall_wire_decode_event (Some out') n (Some storage) storage_cap (Some old) =
      (if ev_payload_len m \<le> storage_cap then Inr (norm_event m)
       else Inl OBICALL_ERR_BUFFER_TOO_SMALL)"
proof -
  have len: "length (event_layout m) = 28 + unat (ev_payload_len m)"
    using assms(1) by (simp add: event_layout_def encodable_event_def)
  then obtain out' n where e:
    "obicall_wire_encode_event (Some m) (Some out) cap (Some l) = Inr (out', n)"
    using event.encode_succeeds_iff [OF assms(1,2)] assms(3) by (metis prod.exhaust)
  note f = event.encode_Inr [OF assms(1,2) e]
  have "unat n \<le> length out'" using f assms(2) by (simp add: word_le_nat_alt)
  moreover have "prefix (event_layout m) (take (unat n) out')" unfolding f(4) by simp
  ultimately show ?thesis
    using e f(1) len decode_event_layout [OF assms(1) _ _ assms(4)] by simp
qed

theorem event_round_trip_witness:
  "\<exists>out' n. obicall_wire_encode_event (Some example_event) (Some (replicate 64 0)) 64 (Some 0) =
      Inr (out', n) \<and>
    obicall_wire_decode_event (Some out') n (Some [0, 0, 0]) 3 (Some example_event) =
      Inr (norm_event example_event)"
  using event_round_trip [of example_event 64 "replicate 64 0" 3 "[0, 0, 0]" 0 example_event]
  by (auto simp: encodable_event_def example_event_def)

section \<open>Frame header\<close>

text \<open>
  the header decoder classifies every 16 bytes it is given. They are four magic bytes and the
  fields of exactly one header; the header is returned only when the magic is right, the version is
  the supported one and the announced payload is at most one mebibyte, and otherwise the first of these
  checks that fails names the error. A receiver therefore never allocates or reads more than the bound.
\<close>

theorem header_decoder_classifies:
  assumes "16 \<le> length inp"
  shows "\<exists>m0 m1 m2 m3 h. take 16 inp = [m0, m1, m2, m3] @ header_fields h \<and>
    obicall_wire_decode_header (Some inp) (Some old) =
      (if [m0, m1, m2, m3] \<noteq> [0x4F, 0x42, 0x57, 0x46] then Inl OBICALL_ERR_WIRE_MALFORMED
       else if wh_wire_version h \<noteq> 1 then Inl OBICALL_ERR_WIRE_VERSION_UNSUPPORTED
       else if wh_payload_len h > 1048576 then Inl OBICALL_ERR_WIRE_TOO_LARGE
       else Inr h)"
proof -
  have "length (take 16 inp) = 16" using assms by simp
  then obtain m0 m1 m2 m3 h where h: "take 16 inp = [m0, m1, m2, m3] @ header_fields h"
    using header_bytes_exist by blast
  have "inp = [m0, m1, m2, m3] @ header_fields h @ drop 16 inp"
    using append_take_drop_id [of 16 inp] unfolding h by simp
  then show ?thesis
    using h decode_header_fields [of m0 m1 m2 m3 h "drop 16 inp" old] by metis
qed

definition example_header :: obicall_wire_header where
  "example_header = \<lparr>wh_wire_version = 1, wh_msg_type = 4, wh_flags = 0, wh_payload_len = 444,
     wh_crc32 = 0xDEADBEEF\<rparr>"

theorem header_decoder_classifies_witness:
  "\<exists>m0 m1 m2 m3 h. take 16 (header_layout example_header) = [m0, m1, m2, m3] @ header_fields h \<and>
    obicall_wire_decode_header (Some (header_layout example_header)) (Some example_header) =
      (if [m0, m1, m2, m3] \<noteq> [0x4F, 0x42, 0x57, 0x46] then Inl OBICALL_ERR_WIRE_MALFORMED
       else if wh_wire_version h \<noteq> 1 then Inl OBICALL_ERR_WIRE_VERSION_UNSUPPORTED
       else if wh_payload_len h > 1048576 then Inl OBICALL_ERR_WIRE_TOO_LARGE
       else Inr h)"
  by (rule header_decoder_classifies) simp

text \<open>
  The header written for a frame is read back as written; a frame of another protocol version or
  with an oversized payload is refused by the receiver even when its sender produced it.
\<close>

theorem header_round_trip:
  assumes "length out = 16"
  shows "\<exists>out'. obicall_wire_encode_header (Some h) (Some out) = Inr out' \<and> length out' = 16 \<and>
    obicall_wire_decode_header (Some (out' @ rest)) (Some old) =
      (if wh_wire_version h \<noteq> 1 then Inl OBICALL_ERR_WIRE_VERSION_UNSUPPORTED
       else if wh_payload_len h > 1048576 then Inl OBICALL_ERR_WIRE_TOO_LARGE
       else Inr h)"
  using encode_header_layout [OF assms, of h]
    decode_header_fields [of "0x4F" "0x42" "0x57" "0x46" h rest old]
  by (simp add: header_layout_def header_fields_def)

theorem header_round_trip_witness:
  "\<exists>out'. obicall_wire_encode_header (Some example_header) (Some (replicate 16 0)) = Inr out' \<and>
    obicall_wire_decode_header (Some (out' @ [])) (Some example_header) = Inr example_header"
  using header_round_trip [of "replicate 16 0" example_header "[]" example_header]
  by (auto simp: example_header_def)

section \<open>Control messages\<close>

text \<open>
  A message is delivered through a buffer of \<open>cap\<close> bytes when encoding it there succeeds with \<open>n\<close> bytes
  and decoding those gives the message back, whatever the buffer and the receiver's struct held.
\<close>

definition delivered ::
  "('m option \<Rightarrow> bytes option \<Rightarrow> u32 \<Rightarrow> u32 option \<Rightarrow> (bytes \<times> u32) res) \<Rightarrow>
   (bytes option \<Rightarrow> u32 \<Rightarrow> 'm option \<Rightarrow> 'm res) \<Rightarrow> u32 \<Rightarrow> u32 \<Rightarrow> 'm \<Rightarrow> bool" where
  "delivered encode decode cap n m \<longleftrightarrow>
     (\<forall>out l old. length out = unat cap \<longrightarrow>
        (\<exists>out'. encode (Some m) (Some out) cap (Some l) = Inr (out', n) \<and>
           decode (Some out') n (Some old) = Inr m))"

context wire_codec
begin

lemma delivered_intro:
  assumes "valid m" and "norm m = m" and "length (layout m) = unat n" and "n \<le> cap"
  shows "delivered encode decode cap n m"
  unfolding delivered_def
proof (intro allI impI)
  fix out :: bytes and l old assume out: "length out = unat cap"
  then obtain out' n' where e: "encode (Some m) (Some out) cap (Some l) = Inr (out', n')"
    "decode (Some out') n' (Some old) = Inr (norm m)"
    using roundtrip [OF assms(1), of cap out l old] assms(3,4) by (auto simp: word_le_nat_alt)
  have "n' = n" using encode_Inr(1) [OF assms(1) _ e(1)] out assms(3) by (simp add: word_unat_eq_iff)
  then show "\<exists>out'. encode (Some m) (Some out) cap (Some l) = Inr (out', n) \<and>
      decode (Some out') n (Some old) = Inr m"
    using e assms(2) by auto
qed

end

text \<open>
  C40: each of the nine control messages has one size, fits the buffer its sender allocates for it (64
  bytes for the smaller ones, 128 and 256 for heartbeats and admission decisions), and arrives
  unchanged.
\<close>

theorem control_messages_delivered:
  assumes "wf_auth_hello ah" and "wf_heartbeat hb" and "wf_epoch_grant eg" and "wf_epoch_revoke er"
    and "wf_readiness_report rr" and "wf_replay_request rq" and "wf_admission_decision ad"
    and "wf_result_ack ra" and "wf_status_reply sr"
  shows "delivered obicall_wire_encode_auth_hello obicall_wire_decode_auth_hello 64 40 ah \<and>
    delivered obicall_wire_encode_heartbeat obicall_wire_decode_heartbeat 128 68 hb \<and>
    delivered obicall_wire_encode_epoch_grant obicall_wire_decode_epoch_grant 64 20 eg \<and>
    delivered obicall_wire_encode_epoch_revoke obicall_wire_decode_epoch_revoke 64 24 er \<and>
    delivered obicall_wire_encode_readiness_report obicall_wire_decode_readiness_report 64 52 rr \<and>
    delivered obicall_wire_encode_replay_request obicall_wire_decode_replay_request 128 40 rq \<and>
    delivered obicall_wire_encode_admission_decision obicall_wire_decode_admission_decision 256 96 ad \<and>
    delivered obicall_wire_encode_result_ack obicall_wire_decode_result_ack 128 48 ra \<and>
    delivered obicall_wire_encode_status_reply obicall_wire_decode_status_reply 64 32 sr"
  using auth_hello.delivered_intro [OF assms(1) refl, of 40 64]
    heartbeat.delivered_intro [OF assms(2) refl, of 68 128]
    epoch_grant.delivered_intro [OF assms(3) refl, of 20 64]
    epoch_revoke.delivered_intro [OF assms(4) refl, of 24 64]
    readiness_report.delivered_intro [OF assms(5) refl, of 52 64]
    replay_request.delivered_intro [OF assms(6) refl, of 40 128]
    admission_decision.delivered_intro [OF assms(7) refl, of 96 256]
    result_ack.delivered_intro [OF assms(8) refl, of 48 128]
    status_reply.delivered_intro [OF assms(9) refl, of 32 64]
  by (simp add: layout_simps assms)

theorem control_messages_delivered_witness:
  "delivered obicall_wire_encode_heartbeat obicall_wire_decode_heartbeat 128 68
     \<lparr>hb_broker_id = 1, hb_epoch = 2, hb_last_window_seq = 3, hb_config_digest = zero_digest,
      hb_checkpoint_schema_version = 1, hb_healthy = 1, hb_sent_at_ns = 4\<rparr>"
proof -
  note wfs = wf_auth_hello_def wf_heartbeat_def wf_epoch_grant_def wf_epoch_revoke_def
    wf_readiness_report_def wf_replay_request_def wf_admission_decision_def wf_result_ack_def
    wf_status_reply_def zero_digest_def
  show ?thesis
    using control_messages_delivered
      [of "\<lparr>ah_protocol_version = 1, ah_role = 1, ah_run_token = zero_digest\<rparr>"
        "\<lparr>hb_broker_id = 1, hb_epoch = 2, hb_last_window_seq = 3, hb_config_digest = zero_digest,
          hb_checkpoint_schema_version = 1, hb_healthy = 1, hb_sent_at_ns = 4\<rparr>"
        "\<lparr>eg_new_epoch = 1, eg_granted_to_broker_id = 1, eg_granted_at_ns = 5\<rparr>"
        "\<lparr>er_revoked_epoch = 1, er_revoked_broker_id = 1, er_revoked_at_ns = 5, er_reason_code = 0\<rparr>"
        "\<lparr>rr_broker_id = 2, rr_config_digest = zero_digest, rr_checkpoint_schema_version = 1,
          rr_last_processed_window_seq = 3, rr_healthy = 1\<rparr>"
        "\<lparr>rq_pipeline_id = zero_digest, rq_from_window_seq = 1\<rparr>"
        "\<lparr>ad_pipeline_id = zero_digest, ad_window_seq = 1, ad_sensor_id = zero_digest,
          ad_sequence = 1, ad_admitted = 1, ad_reason_code = 0, ad_decided_at_ns = 5\<rparr>"
        "\<lparr>ra_pipeline_id = zero_digest, ra_window_seq = 1, ra_accepted = 1, ra_reject_status = 0\<rparr>"
        "\<lparr>sr_running = 1, sr_gate_epoch = 1, sr_owner_broker_id = 1,
          sr_last_committed_window_seq = 3, sr_uptime_ns = 9\<rparr>"]
    by (simp add: wfs)
qed

end
