(* ===== verification/Digest.thy ===== *)
theory Digest
  imports Obicall_Types "HOL-Library.Monad_Syntax"
begin

text \<open>
  \<^verbatim>\<open>src/core/digest.c\<close>: CRC-32 and SHA-256. The CRC of the code, one table entry per byte, is shown
  equal to the bit-serial register, and that register to lose no information over 32 bits, which is
  what makes the frame, journal and gate-state checks detect every error burst of up to four bytes.
  The streaming SHA-256 is shown to return, and to compute the block fold over the padded message
  whatever way the message is cut into updates.
\<close>

section \<open>CRC-32\<close>

abbreviation (input) crc32_poly :: u32 where "crc32_poly \<equiv> 0xEDB88320"

definition crc32_step :: "u32 \<Rightarrow> u32" where
  "crc32_step c = (if c AND 1 \<noteq> 0 then crc32_poly XOR drop_bit 1 c else drop_bit 1 c)"

definition crc32_table_entry :: "u32 \<Rightarrow> u32" where
  "crc32_table_entry i = (crc32_step ^^ 8) i"

definition crc32_update :: "u32 \<Rightarrow> u8 \<Rightarrow> u32" where
  "crc32_update crc b = crc32_table_entry ((crc XOR ucast b) AND 0xFF) XOR drop_bit 8 crc"

definition obicall_crc32 :: "bytes \<Rightarrow> u32 \<Rightarrow> u32" where
  "obicall_crc32 data len =
     foldl crc32_update 0xFFFFFFFF (take (unat len) data) XOR 0xFFFFFFFF"

text \<open>The reference: a reflected shift register that absorbs a byte and shifts eight times.\<close>

definition crc32_serial :: "u32 \<Rightarrow> bytes \<Rightarrow> u32" where
  "crc32_serial crc data = foldl (\<lambda>c b. (crc32_step ^^ 8) (c XOR ucast b)) crc data"

lemma bit_crc32_step:
  "bit (crc32_step c) k \<longleftrightarrow> k < 32 \<and> bit c (Suc k) \<noteq> (bit c 0 \<and> bit crc32_poly k)"
proof -
  have "c AND 1 \<noteq> 0 \<longleftrightarrow> bit c 0"
    by (simp add: bit_0 and_one_eq odd_iff_mod_2_eq_one)
  then show ?thesis by (auto simp: crc32_step_def bit_simps dest: bit_imp_le_length)
qed

lemma crc32_step_linear: "crc32_step (x XOR y) = crc32_step x XOR crc32_step y"
  by (rule bit_word_eqI) (auto simp: bit_crc32_step bit_xor_iff)

lemma crc32_steps_linear:
  "(crc32_step ^^ n) (x XOR y) = (crc32_step ^^ n) x XOR (crc32_step ^^ n) y"
  by (induction n) (simp_all add: crc32_step_linear)

lemma crc32_step_inject: "crc32_step x = crc32_step y \<longleftrightarrow> x = y"
proof
  assume eq: "crc32_step x = crc32_step y"
  have top: "bit crc32_poly 31" by simp
  have "\<not> bit z 32" for z :: u32 using bit_imp_le_length [of z 32] by auto
  then have b0: "bit x 0 = bit y 0"
    using arg_cong [OF eq, of "\<lambda>w. bit w 31"] top by (simp add: bit_crc32_step)
  show "x = y"
  proof (rule bit_word_eqI)
    fix k assume "k < LENGTH(32)"
    then show "bit x k = bit y k"
      using b0 arg_cong [OF eq, of "\<lambda>w. bit w (k - 1)"]
      by (cases k) (auto simp: bit_crc32_step)
  qed
qed simp

lemma crc32_steps_inject: "(crc32_step ^^ n) x = (crc32_step ^^ n) y \<longleftrightarrow> x = y"
  by (induction n) (simp_all add: crc32_step_inject)

text \<open>While only zero bits leave the register, shifting is all that happens.\<close>

lemma crc32_steps_shift:
  assumes "\<And>j. j < n \<Longrightarrow> \<not> bit x j"
  shows "(crc32_step ^^ n) x = drop_bit n x"
  using assms
proof (induction n)
  case (Suc n)
  then have "(crc32_step ^^ n) x = drop_bit n x" and "\<not> bit x n" by simp_all
  then show ?case
    by (auto intro!: bit_word_eqI simp: bit_crc32_step bit_simps)
qed simp

lemma crc32_update_serial: "crc32_update crc b = (crc32_step ^^ 8) (crc XOR ucast b)"
proof -
  let ?x = "crc XOR ucast b"
  have ff: "(0xFF :: u32) = mask 8" by (simp add: mask_eq_exp_minus_1)
  have "drop_bit 8 (?x AND NOT 0xFF) = drop_bit 8 crc"
    unfolding ff by (rule bit_word_eqI) (auto simp: bit_simps dest: bit_imp_le_length)
  moreover have "(crc32_step ^^ 8) (?x AND NOT 0xFF) = drop_bit 8 (?x AND NOT 0xFF)"
    unfolding ff by (rule crc32_steps_shift) (simp add: bit_simps)
  moreover have "?x = (?x AND 0xFF) XOR (?x AND NOT 0xFF)"
    by (rule bit_word_eqI) (auto simp: bit_simps)
  ultimately show ?thesis
    using crc32_steps_linear [of 8 "?x AND 0xFF" "?x AND NOT 0xFF"]
    by (simp add: crc32_update_def crc32_table_entry_def)
qed

lemma foldl_crc32_update: "foldl crc32_update crc data = crc32_serial crc data"
proof -
  have "crc32_update = (\<lambda>c b. (crc32_step ^^ 8) (c XOR ucast b))"
    by (intro ext) (rule crc32_update_serial)
  then show ?thesis by (simp add: crc32_serial_def)
qed

lemma crc32_serial_inject: "crc32_serial x data = crc32_serial y data \<longleftrightarrow> x = y"
  unfolding crc32_serial_def
proof (induction data arbitrary: x y)
  case (Cons b data)
  show ?case by (simp add: Cons crc32_steps_inject xor_right_cancel)
qed simp

text \<open>Up to four bytes enter the register like one word.\<close>

lemma crc32_serial_le_word:
  assumes "length bs \<le> 4"
  shows "crc32_serial crc bs = (crc32_step ^^ (8 * length bs)) (crc XOR le_word bs)"
  using assms
proof (induction bs rule: rev_induct)
  case Nil
  show ?case by (simp add: crc32_serial_def le_word_def)
next
  case (snoc b bs)
  let ?n = "8 * length bs"
  let ?hi = "push_bit ?n (ucast b) :: u32"
  have n: "length bs < 4" using snoc.prems by simp
  have "(crc32_step ^^ ?n) ?hi = drop_bit ?n ?hi"
    by (rule crc32_steps_shift) (simp add: bit_simps)
  moreover have "drop_bit ?n ?hi = ucast b"
    using n by (intro bit_word_eqI) (auto simp: bit_simps dest: bit_imp_le_length)
  moreover have "le_word (bs @ [b]) = (le_word bs :: u32) XOR ?hi"
    by (intro bit_word_eqI)
       (auto simp: bit_le_word bit_push_byte bit_xor_iff nth_append less_Suc_eq)
  ultimately have "(crc32_step ^^ ?n) (crc XOR le_word (bs @ [b])) =
      (crc32_step ^^ ?n) (crc XOR le_word bs) XOR ucast b"
    by (simp add: crc32_steps_linear xor.assoc [symmetric])
  then show ?case
    using snoc.IH n by (simp add: crc32_serial_def funpow_add [of 8 ?n, simplified] add.commute)
qed

lemma le_word_inject:
  assumes "length bs = length cs" and "length bs \<le> 4"
  shows "(le_word bs :: u32) = le_word cs \<longleftrightarrow> bs = cs"
proof
  assume eq: "(le_word bs :: u32) = le_word cs"
  show "bs = cs"
  proof (rule nth_equalityI)
    fix i assume i: "i < length bs"
    show "bs ! i = cs ! i"
    proof (rule bit_word_eqI)
      fix k assume "k < LENGTH(8)"
      then have "k < 8" by simp
      then have "(8 * i + k) div 8 = i" "(8 * i + k) mod 8 = k" "8 * i + k < 32"
        using i assms by simp_all
      then show "bit (bs ! i) k = bit (cs ! i) k"
        using i assms arg_cong [OF eq, of "\<lambda>w. bit w (8 * i + k)"] by (simp add: bit_le_word)
    qed
  qed (rule assms)
qed simp

lemma obicall_crc32_serial:
  "obicall_crc32 data len = crc32_serial 0xFFFFFFFF (take (unat len) data) XOR 0xFFFFFFFF"
  by (simp add: obicall_crc32_def foldl_crc32_update)

lemma crc32_serial_append: "crc32_serial crc (xs @ ys) = crc32_serial (crc32_serial crc xs) ys"
  by (simp add: crc32_serial_def)

lemma crc32_serial_burst:
  assumes "length bs = length bs'" and "length bs \<le> 4"
  shows "crc32_serial crc (pre @ bs @ post) = crc32_serial crc (pre @ bs' @ post) \<longleftrightarrow> bs = bs'"
  using assms
  by (simp add: crc32_serial_append crc32_serial_inject crc32_serial_le_word crc32_steps_inject
      xor_right_cancel le_word_inject xor.commute [of "crc32_serial crc pre"])

text \<open>
  the table-driven CRC-32 of the code equals the bit-serial reflected register with polynomial
  0xEDB88320, initial value and final complement 0xFFFFFFFF, on every input.
\<close>

theorem crc32_is_bit_serial:
  "obicall_crc32 data len =
     foldl (\<lambda>c b. (crc32_step ^^ 8) (c XOR ucast b)) 0xFFFFFFFF (take (unat len) data)
       XOR 0xFFFFFFFF"
  unfolding obicall_crc32_serial crc32_serial_def by (rule refl)

lemma crc32_burst:
  assumes "unat len = length (pre @ bs @ post)" and "length bs' = length bs" and "length bs \<le> 4"
    and "bs \<noteq> bs'"
  shows "obicall_crc32 (pre @ bs @ post) len \<noteq> obicall_crc32 (pre @ bs' @ post) len"
  using assms crc32_serial_burst [of bs bs' "0xFFFFFFFF" pre post]
  by (simp add: obicall_crc32_serial xor_right_cancel)

text \<open>
  The CRC detects every change that is confined to four consecutive bytes, wherever it is in the
  checksummed data and whatever surrounds it.
\<close>

theorem crc32_detects_burst:
  assumes "unat len = length (pre @ bs @ post)" and "length bs' = length bs" and "length bs \<le> 4"
    and "bs \<noteq> bs'"
  shows "obicall_crc32 (pre @ bs @ post) len \<noteq> obicall_crc32 (pre @ bs' @ post) len"
  using assms by (rule crc32_burst)

theorem crc32_detects_burst_witness:
  "obicall_crc32 ([1] @ [2, 3] @ [4]) 4 \<noteq> obicall_crc32 ([1] @ [9, 3] @ [4]) 4"
  by (rule crc32_detects_burst) simp_all

section \<open>SHA-256\<close>

definition k_sha256_k :: "u32 list" where
  "k_sha256_k = [
    0x428a2f98, 0x71374491, 0xb5c0fbcf, 0xe9b5dba5, 0x3956c25b, 0x59f111f1, 0x923f82a4, 0xab1c5ed5,
    0xd807aa98, 0x12835b01, 0x243185be, 0x550c7dc3, 0x72be5d74, 0x80deb1fe, 0x9bdc06a7, 0xc19bf174,
    0xe49b69c1, 0xefbe4786, 0x0fc19dc6, 0x240ca1cc, 0x2de92c6f, 0x4a7484aa, 0x5cb0a9dc, 0x76f988da,
    0x983e5152, 0xa831c66d, 0xb00327c8, 0xbf597fc7, 0xc6e00bf3, 0xd5a79147, 0x06ca6351, 0x14292967,
    0x27b70a85, 0x2e1b2138, 0x4d2c6dfc, 0x53380d13, 0x650a7354, 0x766a0abb, 0x81c2c92e, 0x92722c85,
    0xa2bfe8a1, 0xa81a664b, 0xc24b8b70, 0xc76c51a3, 0xd192e819, 0xd6990624, 0xf40e3585, 0x106aa070,
    0x19a4c116, 0x1e376c08, 0x2748774c, 0x34b0bcb5, 0x391c0cb3, 0x4ed8aa4a, 0x5b9cca4f, 0x682e6ff3,
    0x748f82ee, 0x78a5636f, 0x84c87814, 0x8cc70208, 0x90befffa, 0xa4506ceb, 0xbef9a3f7, 0xc67178f2]"

definition rotr32 :: "u32 \<Rightarrow> nat \<Rightarrow> u32" where
  "rotr32 x n = drop_bit n x OR push_bit (32 - n) x"

definition sha256_load :: "bytes \<Rightarrow> u32 list" where
  "sha256_load block = map (\<lambda>i.
     push_bit 24 (ucast (block ! (i * 4))) OR push_bit 16 (ucast (block ! (i * 4 + 1))) OR
     push_bit 8 (ucast (block ! (i * 4 + 2))) OR ucast (block ! (i * 4 + 3))) [0..<16]"

text \<open>The message schedule, extended one word at a time (\<^verbatim>\<open>w[i]\<close> is written once, from \<^verbatim>\<open>w[0..i-1]\<close>).\<close>

definition sha256_extend :: "u32 list \<Rightarrow> nat \<Rightarrow> u32 list" where
  "sha256_extend w i =
     (let s0 = rotr32 (w ! (i - 15)) 7 XOR rotr32 (w ! (i - 15)) 18 XOR drop_bit 3 (w ! (i - 15));
          s1 = rotr32 (w ! (i - 2)) 17 XOR rotr32 (w ! (i - 2)) 19 XOR drop_bit 10 (w ! (i - 2))
      in w @ [w ! (i - 16) + s0 + w ! (i - 7) + s1])"

type_synonym sha256_vars = "u32 \<times> u32 \<times> u32 \<times> u32 \<times> u32 \<times> u32 \<times> u32 \<times> u32"

definition sha256_round :: "u32 list \<Rightarrow> sha256_vars \<Rightarrow> nat \<Rightarrow> sha256_vars" where
  "sha256_round w vars i = (case vars of (a, b, c, d, e, f, g, h) \<Rightarrow>
     (let s1 = rotr32 e 6 XOR rotr32 e 11 XOR rotr32 e 25;
          ch = (e AND f) XOR (NOT e AND g);
          temp1 = h + s1 + ch + k_sha256_k ! i + w ! i;
          s0 = rotr32 a 2 XOR rotr32 a 13 XOR rotr32 a 22;
          maj = (a AND b) XOR (a AND c) XOR (b AND c);
          temp2 = s0 + maj
      in (temp1 + temp2, a, b, c, d + temp1, e, f, g)))"

definition sha256_compress :: "u32 list \<Rightarrow> bytes \<Rightarrow> u32 list" where
  "sha256_compress state block =
     (let w = foldl sha256_extend (sha256_load block) [16..<64]
      in case foldl (sha256_round w)
           (state ! 0, state ! 1, state ! 2, state ! 3, state ! 4, state ! 5, state ! 6, state ! 7)
           [0..<64]
         of (a, b, c, d, e, f, g, h) \<Rightarrow>
           [state ! 0 + a, state ! 1 + b, state ! 2 + c, state ! 3 + d,
            state ! 4 + e, state ! 5 + f, state ! 6 + g, state ! 7 + h])"

record obicall_sha256_ctx =
  sha_state :: "u32 list"
  sha_total_len :: u64
  sha_buffer :: bytes
  sha_buffer_len :: u32

abbreviation (input) sha256_h0 :: "u32 list" where
  "sha256_h0 \<equiv> [0x6a09e667, 0xbb67ae85, 0x3c6ef372, 0xa54ff53a,
                0x510e527f, 0x9b05688c, 0x1f83d9ab, 0x5be0cd19]"

definition obicall_sha256_init :: "obicall_sha256_ctx \<Rightarrow> obicall_sha256_ctx" where
  "obicall_sha256_init ctx =
     ctx\<lparr>sha_state := sha256_h0, sha_total_len := 0, sha_buffer_len := 0\<rparr>"

text \<open>
  One iteration of the loop of \<^verbatim>\<open>obicall_sha256_update\<close>: copy what fits, compress a full buffer.
  \<^verbatim>\<open>64 - ctx->buffer_len\<close> is computed in 32 bits.
\<close>

definition sha256_absorb :: "obicall_sha256_ctx \<Rightarrow> bytes \<Rightarrow> obicall_sha256_ctx \<times> bytes" where
  "sha256_absorb ctx data =
     (let n = unat (64 - sha_buffer_len ctx);
          n = (if n > length data then length data else n);
          ctx = ctx\<lparr>sha_buffer := memcpy (sha_buffer ctx) (unat (sha_buffer_len ctx)) (take n data),
                    sha_buffer_len := sha_buffer_len ctx + of_nat n\<rparr>;
          data = drop n data
      in if sha_buffer_len ctx = 64
         then (ctx\<lparr>sha_state := sha256_compress (sha_state ctx) (sha_buffer ctx),
                   sha_buffer_len := 0\<rparr>, data)
         else (ctx, data))"

partial_function (option) sha256_update_loop ::
  "obicall_sha256_ctx \<Rightarrow> bytes \<Rightarrow> obicall_sha256_ctx option" where
  [code]: "sha256_update_loop ctx data =
     (if data = [] then Some ctx
      else case sha256_absorb ctx data of (ctx', data') \<Rightarrow> sha256_update_loop ctx' data')"

definition obicall_sha256_update :: "obicall_sha256_ctx \<Rightarrow> bytes \<Rightarrow> obicall_sha256_ctx option" where
  "obicall_sha256_update ctx data =
     sha256_update_loop (ctx\<lparr>sha_total_len := sha_total_len ctx + of_nat (length data)\<rparr>) data"

partial_function (option) sha256_pad_loop :: "obicall_sha256_ctx \<Rightarrow> obicall_sha256_ctx option" where
  [code]: "sha256_pad_loop ctx =
     (if sha_buffer_len ctx = 56 then Some ctx
      else Option.bind (obicall_sha256_update ctx [0]) sha256_pad_loop)"

definition be_bytes :: "nat \<Rightarrow> 'a::len word \<Rightarrow> bytes" where
  "be_bytes n v = rev (le_bytes n v)"

lemma length_be_bytes [simp]: "length (be_bytes n v) = n"
  by (simp add: be_bytes_def)

definition obicall_sha256_final ::
  "obicall_sha256_ctx \<Rightarrow> (obicall_sha256_ctx \<times> bytes) option" where
  "obicall_sha256_final ctx =
     (let bit_len = sha_total_len ctx * 8 in do {
        ctx \<leftarrow> obicall_sha256_update ctx [0x80];
        ctx \<leftarrow> sha256_pad_loop ctx;
        let ctx = ctx\<lparr>sha_buffer :=
          memcpy (sha_buffer ctx) (unat (sha_buffer_len ctx)) (be_bytes 8 bit_len)\<rparr>;
        let ctx = ctx\<lparr>sha_state := sha256_compress (sha_state ctx) (sha_buffer ctx),
                      sha_buffer_len := 0\<rparr>;
        Some (ctx, concat (map (be_bytes 4) (sha_state ctx))) })"

text \<open>The context on the stack starts with arbitrary contents, of which only the lengths matter.\<close>

definition obicall_sha256 :: "bytes \<Rightarrow> bytes option" where
  "obicall_sha256 data = do {
     let ctx = obicall_sha256_init
       \<lparr>sha_state = replicate 8 0, sha_total_len = 0, sha_buffer = replicate 64 0,
        sha_buffer_len = 0\<rparr>;
     ctx \<leftarrow> obicall_sha256_update ctx data;
     (ctx, out) \<leftarrow> obicall_sha256_final ctx;
     Some out }"

subsection \<open>What the streaming context has absorbed\<close>

fun sha256_blocks :: "bytes \<Rightarrow> bytes list" where
  "sha256_blocks xs = (if length xs < 64 then [] else take 64 xs # sha256_blocks (drop 64 xs))"

declare sha256_blocks.simps [simp del]

text \<open>The specification: fold the compression function over the blocks of the padded message.\<close>

definition sha256_fold :: "bytes \<Rightarrow> u32 list" where
  "sha256_fold msg = foldl sha256_compress sha256_h0 (sha256_blocks msg)"

definition sha256_padding :: "bytes \<Rightarrow> bytes" where
  "sha256_padding msg = 0x80 # replicate ((119 - length msg mod 64) mod 64) 0 @
     be_bytes 8 (of_nat (8 * length msg) :: u64)"

definition sha256_spec :: "bytes \<Rightarrow> bytes" where
  "sha256_spec msg = concat (map (be_bytes 4) (sha256_fold (msg @ sha256_padding msg)))"

definition absorbed :: "obicall_sha256_ctx \<Rightarrow> bytes \<Rightarrow> bool" where
  "absorbed ctx msg \<longleftrightarrow> sha_buffer_len ctx < 64 \<and> length (sha_buffer ctx) = 64 \<and>
     sha_total_len ctx = of_nat (length msg) \<and>
     (\<exists>full. msg = full @ take (unat (sha_buffer_len ctx)) (sha_buffer ctx) \<and>
        length full mod 64 = 0 \<and> sha_state ctx = sha256_fold full)"

lemma length_sha256_fold: "length (sha256_fold msg) = 8"
proof -
  have "length (sha256_compress st b) = 8" for st b
    by (simp add: sha256_compress_def Let_def split: prod.split)
  then have "length st = 8 \<Longrightarrow> length (foldl sha256_compress st bs) = 8" for st bs
    by (induction bs arbitrary: st) simp_all
  then show ?thesis by (simp add: sha256_fold_def)
qed

lemma length_sha256_spec: "length (sha256_spec msg) = 32"
proof -
  have "length (concat (map (be_bytes 4) ws)) = 4 * length ws" for ws :: "u32 list"
    by (induction ws) simp_all
  then show ?thesis by (simp add: sha256_spec_def length_sha256_fold)
qed

lemma sha256_blocks_append:
  "length xs mod 64 = 0 \<Longrightarrow> sha256_blocks (xs @ ys) = sha256_blocks xs @ sha256_blocks ys"
proof (induction xs rule: sha256_blocks.induct)
  case (1 xs)
  show ?case
  proof (cases "length xs < 64")
    case True
    then have "xs = []" using "1.prems" by simp
    then show ?thesis by (simp add: sha256_blocks.simps [of "[]"])
  next
    case False
    then have "length (drop 64 xs) mod 64 = 0" using "1.prems" by (simp add: mod_eq_0_iff_dvd)
    then show ?thesis
      using 1 False by (simp add: sha256_blocks.simps [of "xs @ ys"] sha256_blocks.simps [of xs])
  qed
qed

lemma sha256_fold_block:
  assumes "length full mod 64 = 0" and "length block = 64"
  shows "sha256_fold (full @ block) = sha256_compress (sha256_fold full) block"
proof -
  have "sha256_blocks block = [block]"
    using assms(2) by (simp add: sha256_blocks.simps [of block] sha256_blocks.simps [of "[]"])
  then show ?thesis by (simp add: sha256_fold_def sha256_blocks_append [OF assms(1)])
qed

text \<open>One iteration makes progress and keeps track of what was consumed.\<close>

lemma sha256_absorb_step:
  assumes inv: "absorbed ctx msg" and ne: "data \<noteq> []"
    and r: "sha256_absorb (ctx\<lparr>sha_total_len := t\<rparr>) data = (ctx', data')"
  shows "\<exists>n > 0. data' = drop n data \<and> n \<le> length data \<and> sha_total_len ctx' = t \<and>
    absorbed (ctx'\<lparr>sha_total_len := of_nat (length (msg @ take n data))\<rparr>) (msg @ take n data)"
proof -
  define bl where "bl = unat (sha_buffer_len ctx)"
  define n where "n = min (64 - bl) (length data)"
  obtain full where full: "msg = full @ take bl (sha_buffer ctx)" "length full mod 64 = 0"
    "sha_state ctx = sha256_fold full"
    using inv by (auto simp: absorbed_def bl_def)
  have bl: "bl < 64" and blen: "length (sha_buffer ctx) = 64"
    using inv by (auto simp: absorbed_def bl_def word_less_nat_alt)
  have room: "unat (64 - sha_buffer_len ctx) = 64 - bl"
    using inv by (simp add: absorbed_def bl_def unat_sub word_less_nat_alt word_le_nat_alt)
  have bl': "unat (sha_buffer_len ctx + of_nat n) = bl + n"
    using bl by (simp add: unat_word_ariths unat_of_nat n_def flip: bl_def)
  define buf where "buf = memcpy (sha_buffer ctx) bl (take n data)"
  have buf: "length buf = 64" "take (bl + n) buf = take bl (sha_buffer ctx) @ take n data"
    using bl blen by (simp_all add: buf_def memcpy_def n_def)
  have full_iff: "sha_buffer_len ctx + of_nat n = 64 \<longleftrightarrow> bl + n = 64"
    by (simp add: bl' word_unat_eq_iff)
  have pos: "0 < n" using bl ne by (simp add: n_def)
  have rr: "(ctx', data') = (if bl + n = 64
      then (ctx\<lparr>sha_total_len := t, sha_buffer := buf,
                sha_state := sha256_compress (sha_state ctx) buf, sha_buffer_len := 0\<rparr>, drop n data)
      else (ctx\<lparr>sha_total_len := t, sha_buffer := buf,
                sha_buffer_len := sha_buffer_len ctx + of_nat n\<rparr>, drop n data))"
    using r full_iff by (auto simp: sha256_absorb_def room Let_def buf_def bl_def n_def min_def)
  show ?thesis
  proof (cases "bl + n = 64")
    case True
    then have "buf = take bl (sha_buffer ctx) @ take n data" using buf by simp
    then have "sha256_fold (msg @ take n data) = sha256_compress (sha256_fold full) buf"
      using sha256_fold_block [OF full(2) buf(1)] by (simp add: full(1))
    moreover have "length (msg @ take n data) mod 64 = 0"
      using full(2) True buf by (simp add: full(1))
    ultimately show ?thesis
      using rr True pos buf(1) full(3)
      by (intro exI [of _ n]) (simp add: absorbed_def n_def)
  next
    case False
    then have "bl + n < 64" using bl unfolding n_def by linarith
    then show ?thesis
      using rr False pos buf full bl'
      by (intro exI [of _ n]) (auto simp: absorbed_def n_def word_less_nat_alt)
  qed
qed

lemma sha256_update_loop_absorbs:
  assumes "absorbed (ctx\<lparr>sha_total_len := of_nat (length msg)\<rparr>) msg"
  shows "\<exists>ctx'. sha256_update_loop ctx data = Some ctx' \<and> sha_total_len ctx' = sha_total_len ctx \<and>
    absorbed (ctx'\<lparr>sha_total_len := of_nat (length (msg @ data))\<rparr>) (msg @ data)"
  using assms
proof (induction "length data" arbitrary: data ctx msg rule: less_induct)
  case less
  show ?case
  proof (cases "data = []")
    case True
    then show ?thesis using less.prems by (simp add: sha256_update_loop.simps [of ctx])
  next
    case False
    obtain ctx1 data1 where step: "sha256_absorb ctx data = (ctx1, data1)" by fastforce
    then obtain n where n: "0 < n" "data1 = drop n data" "n \<le> length data"
      "sha_total_len ctx1 = sha_total_len ctx"
      "absorbed (ctx1\<lparr>sha_total_len := of_nat (length (msg @ take n data))\<rparr>) (msg @ take n data)"
      using sha256_absorb_step [OF less.prems False, of "sha_total_len ctx" ctx1 data1] by auto
    then have "\<exists>ctx'. sha256_update_loop ctx1 data1 = Some ctx' \<and>
        sha_total_len ctx' = sha_total_len ctx1 \<and>
        absorbed (ctx'\<lparr>sha_total_len := of_nat (length ((msg @ take n data) @ data1))\<rparr>)
          ((msg @ take n data) @ data1)"
      by (intro less.hyps) simp_all
    then show ?thesis
      using n False by (simp add: sha256_update_loop.simps [of ctx] step)
  qed
qed

lemma sha256_update_absorbs:
  assumes "absorbed ctx msg"
  shows "\<exists>ctx'. obicall_sha256_update ctx data = Some ctx' \<and> absorbed ctx' (msg @ data)"
proof -
  let ?t = "sha_total_len ctx + of_nat (length data)"
  have t: "?t = of_nat (length (msg @ data))" and m: "sha_total_len ctx = of_nat (length msg)"
    using assms by (simp_all add: absorbed_def)
  have "absorbed (ctx\<lparr>sha_total_len := ?t, sha_total_len := of_nat (length msg)\<rparr>) msg"
    using assms by (simp flip: m)
  then obtain ctx' where c: "obicall_sha256_update ctx data = Some ctx'" "sha_total_len ctx' = ?t"
    "absorbed (ctx'\<lparr>sha_total_len := of_nat (length (msg @ data))\<rparr>) (msg @ data)"
    using sha256_update_loop_absorbs
      [where ctx = "ctx\<lparr>sha_total_len := ?t\<rparr>" and data = data and msg = msg]
    by (auto simp: obicall_sha256_update_def)
  have "ctx'\<lparr>sha_total_len := of_nat (length (msg @ data))\<rparr> = ctx'"
    using c(2) unfolding t by (intro obicall_sha256_ctx.equality) simp_all
  with c(1,3) show ?thesis by simp
qed

lemma absorbed_buffer_len:
  assumes "absorbed ctx msg"
  shows "unat (sha_buffer_len ctx) = length msg mod 64"
proof -
  obtain full where "msg = full @ take (unat (sha_buffer_len ctx)) (sha_buffer ctx)"
    "length full mod 64 = 0" using assms by (auto simp: absorbed_def)
  moreover have "unat (sha_buffer_len ctx) < 64" "length (sha_buffer ctx) = 64"
    using assms by (simp_all add: absorbed_def word_less_nat_alt)
  ultimately have "length msg = length full + unat (sha_buffer_len ctx)" by (metis length_append
      length_take less_imp_le min.absorb2 min.commute)
  then show ?thesis
    using \<open>length full mod 64 = 0\<close> \<open>unat (sha_buffer_len ctx) < 64\<close>
    by (simp flip: mod_add_left_eq [of "length full"])
qed

text \<open>How many zero bytes lead from a buffer length to 56, going through a full buffer if need be.\<close>

lemma sha256_zeros:
  "(120 - l mod 64) mod 64 = (if l mod 64 \<le> 56 then 56 - l mod 64 else 120 - l mod 64)"
  "(119 - l mod 64) mod 64 = (if l mod 64 \<le> 55 then 55 - l mod 64 else 119 - l mod 64)" for l :: nat
  using mod_less_divisor [of 64 l] by (auto simp: mod_if [of "_ - l mod 64"])

lemma sha256_pad_loop_absorbs:
  assumes "absorbed ctx msg"
  shows "\<exists>ctx'. sha256_pad_loop ctx = Some ctx' \<and> sha_buffer_len ctx' = 56 \<and>
    absorbed ctx' (msg @ replicate ((120 - length msg mod 64) mod 64) 0)"
  using assms
proof (induction "(120 - length msg mod 64) mod 64" arbitrary: ctx msg)
  case 0
  from "0.hyps" have "length msg mod 64 = 56"
    using mod_less_divisor [of 64 "length msg"] by (simp add: sha256_zeros split: if_splits)
  then have "sha_buffer_len ctx = 56"
    using absorbed_buffer_len [OF "0.prems"] by (simp add: word_unat_eq_iff)
  moreover have "(120 - length msg mod 64) mod 64 = 0" using 0 by simp
  ultimately show ?case using "0.prems" by (simp add: sha256_pad_loop.simps [of ctx])
next
  case (Suc z)
  from Suc.hyps(2) have "length msg mod 64 \<noteq> 56" by auto
  then have ne: "sha_buffer_len ctx \<noteq> 56"
    using absorbed_buffer_len [OF Suc.prems] by auto
  obtain ctx1 where c1: "obicall_sha256_update ctx [0] = Some ctx1" "absorbed ctx1 (msg @ [0])"
    using sha256_update_absorbs [OF Suc.prems] by blast
  have z: "z = (120 - length (msg @ [0 :: u8]) mod 64) mod 64"
    using Suc.hyps(2) by (auto simp: sha256_zeros mod_Suc split: if_splits)
  have "replicate ((120 - length msg mod 64) mod 64) (0 :: u8) = 0 # replicate z 0"
    using Suc.hyps(2) by (metis replicate_Suc)
  then show ?case
    using Suc.hyps(1) [OF z c1(2)] ne c1(1) z
    by (simp add: sha256_pad_loop.simps [of ctx])
qed

lemma sha256_final_absorbed:
  assumes "absorbed ctx msg"
  shows "\<exists>ctx'. obicall_sha256_final ctx = Some (ctx', sha256_spec msg)"
proof -
  let ?len = "be_bytes 8 (of_nat (8 * length msg) :: u64)"
  let ?z = "(119 - length msg mod 64) mod 64"
  let ?m = "msg @ 0x80 # replicate ?z 0"
  obtain ctx1 where c1: "obicall_sha256_update ctx [0x80] = Some ctx1" "absorbed ctx1 (msg @ [0x80])"
    using sha256_update_absorbs [OF assms] by blast
  have "(120 - length (msg @ [0x80 :: u8]) mod 64) mod 64 = ?z"
    using mod_less_divisor [of 64 "length msg"] by (auto simp: sha256_zeros mod_Suc)
  then obtain ctx2 where c2: "sha256_pad_loop ctx1 = Some ctx2" "sha_buffer_len ctx2 = 56"
    "absorbed ctx2 ?m"
    using sha256_pad_loop_absorbs [OF c1(2)] by auto
  then obtain full where full: "?m = full @ take 56 (sha_buffer ctx2)" "length full mod 64 = 0"
    "sha_state ctx2 = sha256_fold full" and len: "length (sha_buffer ctx2) = 64"
    by (auto simp: absorbed_def)
  have block: "memcpy (sha_buffer ctx2) 56 ?len = take 56 (sha_buffer ctx2) @ ?len"
    using len by (simp add: memcpy_def)
  have "full @ take 56 (sha_buffer ctx2) @ ?len = msg @ sha256_padding msg"
    using full(1) by (simp add: sha256_padding_def flip: append_assoc)
  then have "sha256_compress (sha_state ctx2) (memcpy (sha_buffer ctx2) 56 ?len) =
      sha256_fold (msg @ sha256_padding msg)"
    using sha256_fold_block [OF full(2), of "take 56 (sha_buffer ctx2) @ ?len"] len
    unfolding block full(3) by simp
  moreover have "sha_total_len ctx * 8 = of_nat (8 * length msg)"
    using assms by (simp add: absorbed_def mult.commute)
  ultimately show ?thesis
    by (simp add: obicall_sha256_final_def c1 c2 sha256_spec_def)
qed

lemma absorbed_init: "length (sha_buffer ctx) = 64 \<Longrightarrow> absorbed (obicall_sha256_init ctx) []"
  by (simp add: absorbed_def obicall_sha256_init_def sha256_fold_def sha256_blocks.simps)

lemma sha256_is_spec: "obicall_sha256 data = Some (sha256_spec data)"
proof -
  let ?c = "\<lparr>sha_state = replicate 8 0, sha_total_len = 0, sha_buffer = replicate 64 0,
    sha_buffer_len = 0\<rparr> :: obicall_sha256_ctx"
  obtain ctx where "obicall_sha256_update (obicall_sha256_init ?c) data = Some ctx"
    "absorbed ctx data"
    using sha256_update_absorbs [OF absorbed_init, of ?c data] by auto
  then show ?thesis
    using sha256_final_absorbed [of ctx data]
    by (auto simp: obicall_sha256_def)
qed


text \<open>A sequence of updates, as the config and result digests of the processes use the interface.\<close>

primrec sha256_update_all :: "obicall_sha256_ctx \<Rightarrow> bytes list \<Rightarrow> obicall_sha256_ctx option" where
  "sha256_update_all ctx [] = Some ctx"
| "sha256_update_all ctx (c # cs) =
     Option.bind (obicall_sha256_update ctx c) (\<lambda>ctx. sha256_update_all ctx cs)"

lemma sha256_update_all_absorbs:
  "absorbed ctx msg \<Longrightarrow>
     \<exists>ctx'. sha256_update_all ctx cs = Some ctx' \<and> absorbed ctx' (msg @ concat cs)"
proof (induction cs arbitrary: ctx msg)
  case (Cons c cs)
  then obtain ctx1 where "obicall_sha256_update ctx c = Some ctx1" "absorbed ctx1 (msg @ c)"
    using sha256_update_absorbs by blast
  then show ?case using Cons.IH [of ctx1 "msg @ c"] by simp
qed simp

text \<open>
  hashing is independent of how the input is cut up: feeding any sequence of chunks to an
  initialised context and finalising gives the one-shot digest of their concatenation.
\<close>

theorem sha256_streaming:
  assumes "length (sha_buffer ctx) = 64"
  shows "map_option snd (Option.bind (sha256_update_all (obicall_sha256_init ctx) chunks)
      obicall_sha256_final) = obicall_sha256 (concat chunks)"
proof -
  obtain ctx1 where "sha256_update_all (obicall_sha256_init ctx) chunks = Some ctx1"
    "absorbed ctx1 (concat chunks)"
    using sha256_update_all_absorbs [OF absorbed_init [OF assms]] by auto
  then show ?thesis
    using sha256_final_absorbed [of ctx1 "concat chunks"] sha256_is_spec [of "concat chunks"]
    by auto
qed

theorem sha256_streaming_witness:
  "map_option snd (Option.bind (sha256_update_all (obicall_sha256_init
      \<lparr>sha_state = [], sha_total_len = 7, sha_buffer = replicate 64 0, sha_buffer_len = 9\<rparr>)
      [[1, 2], [], [3]]) obicall_sha256_final) = obicall_sha256 [1, 2, 3]"
  using sha256_streaming [of "\<lparr>sha_state = [], sha_total_len = 7, sha_buffer = replicate 64 0,
      sha_buffer_len = 9\<rparr>" "[[1, 2], [], [3]]"] by simp

end
