(* ===== verification/Observation.thy ===== *)
theory Observation
  imports Obicall_Types
begin

text \<open>
  \<^verbatim>\<open>src/core/observation.c\<close>: the stateless validation every observation passes before admission. The
  model keeps the order of the checks, the first error, and the list of issues the callback receives.
\<close>

definition obicall_payload_shape_dimension :: "u32 \<Rightarrow> u32" where
  "obicall_payload_shape_dimension shape =
     (if shape = OBICALL_SHAPE_POSITION_1D then 1
      else if shape = OBICALL_SHAPE_POSITION_2D then 2
      else if shape = OBICALL_SHAPE_POSITION_2D_VELOCITY then 4
      else if shape = OBICALL_SHAPE_RANGE_1D then 1
      else 0)"

datatype obicall_validation_issue =
    OBICALL_ISSUE_NONE
  | OBICALL_ISSUE_NON_FINITE_PAYLOAD
  | OBICALL_ISSUE_NON_FINITE_COVARIANCE
  | OBICALL_ISSUE_DIMENSION_MISMATCH
  | OBICALL_ISSUE_PAYLOAD_COUNT_OUT_OF_RANGE
  | OBICALL_ISSUE_COVARIANCE_COUNT_OUT_OF_RANGE
  | OBICALL_ISSUE_COVARIANCE_NOT_SYMMETRIC
  | OBICALL_ISSUE_COVARIANCE_NOT_PSD
  | OBICALL_ISSUE_SENSOR_ID_EMPTY
  | OBICALL_ISSUE_UNSUPPORTED_FRAME_OR_UNITS
  | OBICALL_ISSUE_TIME_UNCERTAINTY_NEGATIVE
  | OBICALL_ISSUE_STRUCT_SIZE_MISMATCH

abbreviation (input) eps_1e9 :: double where "eps_1e9 \<equiv> double_lit 1 1000000000"

section \<open>Covariance checks\<close>

definition psd_subtract :: "double list list \<Rightarrow> nat \<Rightarrow> nat \<Rightarrow> double \<Rightarrow> nat \<Rightarrow> double" where
  "psd_subtract l i j acc k = acc - l ! i ! k * l ! j ! k"

text \<open>One entry of the semi-definite Cholesky factor; \<open>None\<close> is \<^verbatim>\<open>return 0\<close>.\<close>

definition psd_entry ::
  "double list \<Rightarrow> nat \<Rightarrow> double \<Rightarrow> double list list \<Rightarrow> nat \<times> nat \<Rightarrow> double list list option" where
  "psd_entry cov dim epsilon l ij = (case ij of (i, j) \<Rightarrow>
     (let acc = foldl (psd_subtract l i j) (cov ! (i * dim + j)) [0..<j]
      in if i = j
         then (if acc < - epsilon then None
               else Some (l[i := (l ! i)[j := (if acc > 0 then dsqrt acc else 0)]]))
         else Some (l[i := (l ! i)[j :=
                (if l ! j ! j > epsilon then acc / (l ! j ! j) else 0)]])))"

definition psd_order :: "nat \<Rightarrow> (nat \<times> nat) list" where
  "psd_order dim = concat (map (\<lambda>i. map (Pair i) [0..<Suc i]) [0..<dim])"

primrec psd_loop ::
  "double list \<Rightarrow> nat \<Rightarrow> double \<Rightarrow> double list list \<Rightarrow> (nat \<times> nat) list \<Rightarrow> double list list option" where
  "psd_loop cov dim epsilon l [] = Some l"
| "psd_loop cov dim epsilon l (ij # rest) =
     (case psd_entry cov dim epsilon l ij of
        None \<Rightarrow> None
      | Some l' \<Rightarrow> psd_loop cov dim epsilon l' rest)"

definition covariance_is_psd :: "double list \<Rightarrow> u32 \<Rightarrow> double \<Rightarrow> bool" where
  "covariance_is_psd cov dim epsilon =
     (psd_loop cov (unat dim) epsilon (replicate 6 (replicate 6 0)) (psd_order (unat dim)) \<noteq> None)"

definition symmetric_entry :: "double list \<Rightarrow> nat \<Rightarrow> nat \<Rightarrow> nat \<Rightarrow> bool" where
  "symmetric_entry cov dim i j =
     (let a = cov ! (i * dim + j); b = cov ! (j * dim + i)
      in \<not> \<bar>a - b\<bar> > eps_1e9 * (1 + \<bar>a\<bar> + \<bar>b\<bar>))"

definition symmetric_row :: "double list \<Rightarrow> nat \<Rightarrow> nat \<Rightarrow> bool" where
  "symmetric_row cov dim i = list_all (symmetric_entry cov dim i) [0..<dim]"

definition covariance_is_symmetric :: "double list \<Rightarrow> u32 \<Rightarrow> bool" where
  "covariance_is_symmetric cov dim =
     list_all (symmetric_row cov (unat dim)) [0..<unat dim]"

section \<open>Validation\<close>

text \<open>
  \<^verbatim>\<open>NOTE(issue, err)\<close> reports the issue and keeps the first error. The callback is represented by the
  list of issues it receives, in order; with a NULL callback the same status is returned.
\<close>

type_synonym validation = "obicall_status \<times> obicall_validation_issue list"

definition NOTE :: "obicall_validation_issue \<Rightarrow> obicall_status \<Rightarrow> validation \<Rightarrow> validation" where
  "NOTE issue err v = (case v of (first_error, issues) \<Rightarrow>
     (if first_error = OBICALL_OK then err else first_error, issues @ [issue]))"

definition check_struct_size :: "obicall_observation \<Rightarrow> validation \<Rightarrow> validation" where
  "check_struct_size obs v =
     (if obs_struct_size obs \<noteq> sizeof_observation
      then NOTE OBICALL_ISSUE_STRUCT_SIZE_MISMATCH OBICALL_ERR_INVALID_ARGUMENT v else v)"

definition check_sensor_id :: "obicall_observation \<Rightarrow> validation \<Rightarrow> validation" where
  "check_sensor_id obs v =
     (let v = (if obs_sensor_id obs ! 0 = 0
               then NOTE OBICALL_ISSUE_SENSOR_ID_EMPTY OBICALL_ERR_INVALID_ARGUMENT v else v);
          has_terminator = list_ex (\<lambda>i. obs_sensor_id obs ! i = 0) [0..<unat OBICALL_SENSOR_ID_LEN]
      in if \<not> has_terminator
         then NOTE OBICALL_ISSUE_SENSOR_ID_EMPTY OBICALL_ERR_INVALID_ARGUMENT v else v)"

definition check_frame_units :: "obicall_observation \<Rightarrow> validation \<Rightarrow> validation" where
  "check_frame_units obs v =
     (if obs_coordinate_frame obs = OBICALL_FRAME_UNSPECIFIED \<or>
         obs_units obs = OBICALL_UNITS_UNSPECIFIED
      then NOTE OBICALL_ISSUE_UNSUPPORTED_FRAME_OR_UNITS OBICALL_ERR_UNSUPPORTED v else v)"

definition check_time_uncertainty :: "obicall_observation \<Rightarrow> validation \<Rightarrow> validation" where
  "check_time_uncertainty obs v =
     (if \<not> isfinite (obs_time_uncertainty_s obs) \<or> obs_time_uncertainty_s obs < 0
      then NOTE OBICALL_ISSUE_TIME_UNCERTAINTY_NEGATIVE OBICALL_ERR_VALIDATION_TIMING v else v)"

definition check_payload :: "obicall_observation \<Rightarrow> u32 \<Rightarrow> validation \<Rightarrow> validation" where
  "check_payload obs expected_dim v =
     (if expected_dim = 0 \<or> obs_payload_count obs \<noteq> expected_dim \<or>
         obs_payload_count obs > OBICALL_MAX_PAYLOAD_DOUBLES
      then NOTE OBICALL_ISSUE_PAYLOAD_COUNT_OUT_OF_RANGE OBICALL_ERR_VALIDATION_DIMENSION v
      else if list_ex (\<lambda>i. \<not> isfinite (obs_payload obs ! i)) [0..<unat (obs_payload_count obs)]
      then NOTE OBICALL_ISSUE_NON_FINITE_PAYLOAD OBICALL_ERR_VALIDATION_NON_FINITE v
      else v)"

definition check_covariance :: "obicall_observation \<Rightarrow> u32 \<Rightarrow> validation \<Rightarrow> validation" where
  "check_covariance obs expected_dim v =
     (let expected_cov = expected_dim * expected_dim
      in if expected_dim = 0 \<or> obs_covariance_count obs \<noteq> expected_cov \<or>
            obs_covariance_count obs > OBICALL_MAX_COV_DOUBLES
         then NOTE OBICALL_ISSUE_COVARIANCE_COUNT_OUT_OF_RANGE OBICALL_ERR_VALIDATION_COVARIANCE v
         else if list_ex (\<lambda>i. \<not> isfinite (obs_covariance obs ! i))
                   [0..<unat (obs_covariance_count obs)]
         then NOTE OBICALL_ISSUE_NON_FINITE_COVARIANCE OBICALL_ERR_VALIDATION_NON_FINITE v
         else if \<not> covariance_is_symmetric (obs_covariance obs) expected_dim
         then NOTE OBICALL_ISSUE_COVARIANCE_NOT_SYMMETRIC OBICALL_ERR_VALIDATION_COVARIANCE v
         else if \<not> covariance_is_psd (obs_covariance obs) expected_dim eps_1e9
         then NOTE OBICALL_ISSUE_COVARIANCE_NOT_PSD OBICALL_ERR_VALIDATION_COVARIANCE v
         else v)"

definition obicall_observation_validate :: "obicall_observation option \<Rightarrow> validation" where
  "obicall_observation_validate obs =
     (case obs of
        None \<Rightarrow> (OBICALL_ERR_NULL_POINTER, [])
      | Some obs \<Rightarrow>
          (let expected_dim = obicall_payload_shape_dimension (obs_payload_shape obs)
           in check_covariance obs expected_dim (check_payload obs expected_dim
                (check_time_uncertainty obs (check_frame_units obs (check_sensor_id obs
                  (check_struct_size obs (OBICALL_OK, []))))))))"

section \<open>What a validated observation satisfies\<close>

definition observation_ok :: "obicall_observation \<Rightarrow> bool" where
  "observation_ok obs \<longleftrightarrow>
     (let dim = obicall_payload_shape_dimension (obs_payload_shape obs) in
      obs_struct_size obs = sizeof_observation \<and>
      obs_sensor_id obs ! 0 \<noteq> 0 \<and> 0 \<in> set (take 32 (obs_sensor_id obs)) \<and>
      obs_coordinate_frame obs \<noteq> OBICALL_FRAME_UNSPECIFIED \<and>
      obs_units obs \<noteq> OBICALL_UNITS_UNSPECIFIED \<and>
      isfinite (obs_time_uncertainty_s obs) \<and> 0 \<le> obs_time_uncertainty_s obs \<and>
      dim \<noteq> 0 \<and> obs_payload_count obs = dim \<and>
      list_all isfinite (take (unat dim) (obs_payload obs)) \<and>
      obs_covariance_count obs = dim * dim \<and>
      list_all isfinite (take (unat (dim * dim)) (obs_covariance obs)) \<and>
      covariance_is_symmetric (obs_covariance obs) dim \<and>
      covariance_is_psd (obs_covariance obs) dim eps_1e9)"

text \<open>A status that is OK exactly when nothing was reported, and otherwise the first error.\<close>

definition consistent :: "validation \<Rightarrow> bool" where
  "consistent v \<longleftrightarrow> (fst v = OBICALL_OK \<longleftrightarrow> snd v = [])"

lemma NOTE_simps [simp]:
  "fst (NOTE i e v) = (if fst v = OBICALL_OK then e else fst v)" "snd (NOTE i e v) = snd v @ [i]"
  by (simp_all add: NOTE_def case_prod_unfold)

lemmas check_defs = check_struct_size_def check_sensor_id_def check_frame_units_def
  check_time_uncertainty_def check_payload_def check_covariance_def

lemma validate_ignores_sequence:
  "check_struct_size (obs\<lparr>obs_sequence := n\<rparr>) v = check_struct_size obs v"
  "check_sensor_id (obs\<lparr>obs_sequence := n\<rparr>) v = check_sensor_id obs v"
  "check_frame_units (obs\<lparr>obs_sequence := n\<rparr>) v = check_frame_units obs v"
  "check_time_uncertainty (obs\<lparr>obs_sequence := n\<rparr>) v = check_time_uncertainty obs v"
  "check_payload (obs\<lparr>obs_sequence := n\<rparr>) d v = check_payload obs d v"
  "check_covariance (obs\<lparr>obs_sequence := n\<rparr>) d v = check_covariance obs d v"
  unfolding check_defs by simp_all

lemma validate_sequence:
  "obicall_observation_validate (Some (obs\<lparr>obs_sequence := n\<rparr>)) =
     obicall_observation_validate (Some obs)"
  by (simp add: obicall_observation_validate_def validate_ignores_sequence)

lemma check_consistent:
  assumes "consistent v"
  shows "consistent (check_struct_size obs v)" "consistent (check_sensor_id obs v)"
    "consistent (check_frame_units obs v)" "consistent (check_time_uncertainty obs v)"
    "consistent (check_payload obs d v)" "consistent (check_covariance obs d v)"
  using assms by (simp_all add: consistent_def check_defs Let_def)

lemma dimension_cases:
  "obicall_payload_shape_dimension s \<in> {0, 1, 2, 4}"
  by (simp add: obicall_payload_shape_dimension_def)

lemma list_ex_upt_iff:
  "n \<le> length xs \<Longrightarrow> list_ex (\<lambda>i. P (xs ! i)) [0..<n] \<longleftrightarrow> \<not> list_all (\<lambda>x. \<not> P x) (take n xs)"
  by (fastforce simp: list_ex_iff list_all_iff in_set_conv_nth)

text \<open>What each check adds to the condition that nothing is reported.\<close>

lemma check_silent:
  "snd (check_struct_size obs v) = [] \<longleftrightarrow> snd v = [] \<and> obs_struct_size obs = sizeof_observation"
  "snd (check_frame_units obs v) = [] \<longleftrightarrow> snd v = [] \<and>
     obs_coordinate_frame obs \<noteq> OBICALL_FRAME_UNSPECIFIED \<and> obs_units obs \<noteq> OBICALL_UNITS_UNSPECIFIED"
  "snd (check_time_uncertainty obs v) = [] \<longleftrightarrow> snd v = [] \<and>
     isfinite (obs_time_uncertainty_s obs) \<and> 0 \<le> obs_time_uncertainty_s obs"
  using double_not_less [of "obs_time_uncertainty_s obs" 0]
  by (auto simp: check_defs isfinite_not_isnan)

lemma check_sensor_id_silent:
  "length (obs_sensor_id obs) = 32 \<Longrightarrow> snd (check_sensor_id obs v) = [] \<longleftrightarrow>
     snd v = [] \<and> obs_sensor_id obs ! 0 \<noteq> 0 \<and> 0 \<in> set (take 32 (obs_sensor_id obs))"
  using list_ex_upt_iff [of 32 "obs_sensor_id obs" "\<lambda>x. x = 0"]
  by (auto simp: check_sensor_id_def Let_def list_all_iff simp del: upt_conv_Cons)

lemma check_arrays_silent:
  assumes "d \<in> {0, 1, 2, 4}" and "length (obs_payload obs) = 6" and "length (obs_covariance obs) = 36"
  shows "snd (check_payload obs d v) = [] \<longleftrightarrow>
     snd v = [] \<and> d \<noteq> 0 \<and> obs_payload_count obs = d \<and>
     list_all isfinite (take (unat d) (obs_payload obs))"
    and "snd (check_covariance obs d v) = [] \<longleftrightarrow>
     snd v = [] \<and> d \<noteq> 0 \<and> obs_covariance_count obs = d * d \<and>
     list_all isfinite (take (unat (d * d)) (obs_covariance obs)) \<and>
     covariance_is_symmetric (obs_covariance obs) d \<and>
     covariance_is_psd (obs_covariance obs) d eps_1e9"
proof -
  have "unat d \<le> 6" "unat (d * d) \<le> 36" and big: "\<not> 6 < d" "\<not> 36 < d * d"
    using assms(1) by auto
  then have "list_ex (\<lambda>i. \<not> isfinite (obs_payload obs ! i)) [0..<unat d] \<longleftrightarrow>
      \<not> list_all isfinite (take (unat d) (obs_payload obs))"
    and "list_ex (\<lambda>i. \<not> isfinite (obs_covariance obs ! i)) [0..<unat (d * d)] \<longleftrightarrow>
      \<not> list_all isfinite (take (unat (d * d)) (obs_covariance obs))"
    using assms(2,3) list_ex_upt_iff [where P = "\<lambda>x. \<not> isfinite x"] by simp_all
  with big show "snd (check_payload obs d v) = [] \<longleftrightarrow>
     snd v = [] \<and> d \<noteq> 0 \<and> obs_payload_count obs = d \<and>
     list_all isfinite (take (unat d) (obs_payload obs))"
    and "snd (check_covariance obs d v) = [] \<longleftrightarrow>
     snd v = [] \<and> d \<noteq> 0 \<and> obs_covariance_count obs = d * d \<and>
     list_all isfinite (take (unat (d * d)) (obs_covariance obs)) \<and>
     covariance_is_symmetric (obs_covariance obs) d \<and>
     covariance_is_psd (obs_covariance obs) d eps_1e9"
    by (auto simp: check_payload_def check_covariance_def Let_def)
qed

text \<open>A one-dimensional observation with payload 2 and variance 1.\<close>

definition example_observation :: obicall_observation where
  "example_observation =
     \<lparr>obs_struct_size = 456, obs_schema_version = 1,
      obs_sensor_id = 0x61 # replicate 31 0, obs_source_boot_id = 7, obs_sequence = 1,
      obs_sample_time_ns = 1000, obs_arrival_time_ns = 2000, obs_clock_domain = 1,
      obs_time_uncertainty_s = 0, obs_coordinate_frame = 1, obs_units = 1,
      obs_calibration_version = 1, obs_payload_shape = 1, obs_payload_count = 1,
      obs_payload = Double 0x4000000000000000 # replicate 5 0, obs_covariance_count = 1,
      obs_covariance = 1 # replicate 35 0\<rparr>"

lemma example_observation_fields [simp]:
  "obs_source_boot_id example_observation = 7" "obs_sequence example_observation = 1"
  "obs_sample_time_ns example_observation = 1000"
  by (simp_all add: example_observation_def)

lemma example_observation_ok:
  "fst (obicall_observation_validate (Some example_observation)) = OBICALL_OK"
  by code_simp

lemma validate_characterised:
  assumes "length (obs_sensor_id obs) = 32" and "length (obs_payload obs) = 6"
    and "length (obs_covariance obs) = 36"
  shows "(fst (obicall_observation_validate (Some obs)) = OBICALL_OK \<longleftrightarrow> observation_ok obs) \<and>
    (snd (obicall_observation_validate (Some obs)) = [] \<longleftrightarrow> observation_ok obs)"
proof -
  let ?v = "obicall_observation_validate (Some obs)"
  have "consistent ?v"
    unfolding obicall_observation_validate_def Let_def option.case
    by (intro check_consistent) (simp add: consistent_def)
  moreover have "snd ?v = [] \<longleftrightarrow> observation_ok obs"
    by (simp add: obicall_observation_validate_def observation_ok_def Let_def check_silent
        check_sensor_id_silent [OF assms(1)]
        check_arrays_silent [OF dimension_cases assms(2,3)] conj_ac)
  ultimately show ?thesis by (simp add: consistent_def)
qed

text \<open>
  an observation passes validation exactly when every clause of its contract holds: native
  struct size, a non-empty NUL-terminated sensor id, a specified frame and unit, a finite
  non-negative time uncertainty, a payload of the dimension its shape declares with finite entries,
  and a square covariance of that dimension that is finite, symmetric within tolerance and passes
  the semi-definite Cholesky test. Otherwise at least one issue is reported and the status is an
  error.
\<close>

theorem observation_validate_iff:
  assumes "length (obs_sensor_id obs) = 32" and "length (obs_payload obs) = 6"
    and "length (obs_covariance obs) = 36"
  shows "(fst (obicall_observation_validate (Some obs)) = OBICALL_OK \<longleftrightarrow> observation_ok obs) \<and>
    (snd (obicall_observation_validate (Some obs)) = [] \<longleftrightarrow> observation_ok obs)"
  using assms by (rule validate_characterised)

theorem observation_validate_iff_witness:
  "fst (obicall_observation_validate (Some example_observation)) = OBICALL_OK"
proof -
  have "observation_ok example_observation" by code_simp
  moreover have "length (obs_sensor_id example_observation) = 32"
    "length (obs_payload example_observation) = 6"
    "length (obs_covariance example_observation) = 36"
    by (simp_all add: example_observation_def)
  ultimately show ?thesis using observation_validate_iff [of example_observation] by simp
qed

text \<open>
  The semi-definite test is only a necessary condition: where a pivot vanishes the factor's column is
  set to zero without looking at the entries below it, so an indefinite matrix such as
  \<open>((0, 1), (1, 0))\<close>, whose determinant is \<open>-1\<close>, passes.
\<close>

theorem indefinite_covariance_passes:
  "covariance_is_symmetric [0, 1, 1, 0] 2 \<and> covariance_is_psd [0, 1, 1, 0] 2 eps_1e9"
  by code_simp

end
