(* ===== verification/Stdio.thy ===== *)
theory Stdio
  imports Obicall_Types
begin

text \<open>
  The C \<^verbatim>\<open>FILE\<close> as the journal and the gate use it: the bytes on the device, a read position, and
  what the environment may refuse. \<open>f_room\<close> is how many more bytes the device takes: an \<open>fwrite\<close> that
  exceeds it is short and leaves a torn tail. \<open>f_flush_ok\<close> and \<open>f_sync_ok\<close> are the outcomes of
  \<^verbatim>\<open>fflush\<close> and \<^verbatim>\<open>fsync\<close>. Writes go to the end of the file (both users open it for appending or fresh);
  read errors of the device are not modelled, so a short read is an end of file.
\<close>

record FILE =
  f_data :: bytes
  f_pos :: nat
  f_room :: nat
  f_eof :: bool
  f_flush_ok :: bool
  f_sync_ok :: bool

definition fwrite :: "bytes \<Rightarrow> FILE \<Rightarrow> nat \<times> FILE" where
  "fwrite bs f = (let n = min (length bs) (f_room f)
     in (n, f\<lparr>f_data := f_data f @ take n bs, f_room := f_room f - n\<rparr>))"

definition fread :: "nat \<Rightarrow> FILE \<Rightarrow> bytes \<times> FILE" where
  "fread n f = (let bs = take n (drop (f_pos f) (f_data f))
     in (bs, f\<lparr>f_pos := f_pos f + length bs, f_eof := length bs < n\<rparr>))"

definition ftell :: "FILE \<Rightarrow> nat" where
  "ftell f = f_pos f"

definition fseek :: "FILE \<Rightarrow> nat \<Rightarrow> FILE" where
  "fseek f pos = f\<lparr>f_pos := pos, f_eof := False\<rparr>"

definition fflush :: "FILE \<Rightarrow> bool" where
  "fflush f = f_flush_ok f"

definition durable_sync :: "FILE \<Rightarrow> bool" where
  "durable_sync f = f_sync_ok f"

text \<open>
  \<^verbatim>\<open>osal_file_atomic_replace\<close>: \<^verbatim>\<open>rename\<close> either fails, and \<^verbatim>\<open>final_path\<close> keeps its contents, or
  replaces them at once. The value is the return code and the contents of \<^verbatim>\<open>final_path\<close> afterwards.
\<close>

definition osal_file_atomic_replace :: "bool \<Rightarrow> bytes \<Rightarrow> bytes option \<Rightarrow> int \<times> bytes option" where
  "osal_file_atomic_replace rename_ok tmp final = (if \<not> rename_ok then (-1, final) else (0, Some tmp))"

section \<open>Fixed-size identifiers\<close>

text \<open>
  \<^verbatim>\<open>strncpy(dst, src, 31)\<close> into a zeroed array of 32 bytes, and \<^verbatim>\<open>strncmp(a, b, 32) == 0\<close>: both look
  at the bytes before the first NUL.
\<close>

definition cstr :: "bytes \<Rightarrow> bytes" where
  "cstr bs = takeWhile (\<lambda>b. b \<noteq> 0) (take 32 bs)"

definition strncpy_id :: "bytes \<Rightarrow> bytes" where
  "strncpy_id src = (let s = takeWhile (\<lambda>b. b \<noteq> 0) (take 31 src) in s @ replicate (32 - length s) 0)"

definition strncmp_eq :: "bytes \<Rightarrow> bytes \<Rightarrow> bool" where
  "strncmp_eq a b \<longleftrightarrow> cstr a = cstr b"

lemma length_strncpy_id: "length (strncpy_id src) = 32"
proof -
  have "length (takeWhile (\<lambda>b. b \<noteq> 0) (take 31 src)) \<le> 32"
    using length_takeWhile_le [of "\<lambda>b. b \<noteq> 0" "take 31 src"] by simp
  then show ?thesis by (simp add: strncpy_id_def Let_def)
qed

text \<open>The copy of a terminated identifier names the same string.\<close>

lemma cstr_strncpy_id:
  assumes "0 \<in> set (take 32 src)"
  shows "cstr (strncpy_id src) = cstr src"
proof -
  let ?P = "\<lambda>b :: u8. b \<noteq> 0"
  have split: "take 32 src = take 31 src @ take 1 (drop 31 src)"
    using take_add [of 31 1 src] by simp
  have tw: "takeWhile ?P (take 32 src) = takeWhile ?P (take 31 src)"
  proof (cases "0 \<in> set (take 31 src)")
    case True
    then show ?thesis unfolding split by (intro takeWhile_append1) auto
  next
    case False
    then have all: "takeWhile ?P (take 31 src) = take 31 src" by (auto simp: takeWhile_eq_all_conv)
    have "0 \<in> set (take 1 (drop 31 src))" using assms False unfolding split by simp
    then have "takeWhile ?P (take 1 (drop 31 src)) = []" by (cases "drop 31 src") auto
    moreover have "takeWhile ?P (take 31 src @ take 1 (drop 31 src)) =
        take 31 src @ takeWhile ?P (take 1 (drop 31 src))"
      using False by (intro takeWhile_append2) auto
    ultimately show ?thesis unfolding split by (simp only: all append_Nil2)
  qed
  let ?s = "takeWhile ?P (take 31 src)"
  have len: "length ?s \<le> 31" using length_takeWhile_le [of ?P "take 31 src"] by simp
  then obtain k where k: "32 - length ?s = Suc k" by (cases "32 - length ?s") auto
  have "takeWhile ?P (?s @ 0 # replicate k 0) = ?s"
    by (subst takeWhile_append2) (auto dest: set_takeWhileD)
  then show ?thesis
    using len k tw by (simp add: cstr_def strncpy_id_def Let_def)
qed

section \<open>Laws of files\<close>

text \<open>Writing a buffer in two pieces, stopping when the first is short, writes one prefix of the whole.\<close>

lemma fwrite_seq:
  assumes "length xs \<le> f_room f"
  shows "snd (fwrite ys (snd (fwrite xs f))) = snd (fwrite (xs @ ys) f)"
    and "fst (fwrite ys (snd (fwrite xs f))) = min (length ys) (f_room f - length xs)"
  using assms by (simp_all add: fwrite_def Let_def min_def)

lemma fwrite_short:
  assumes "f_room f < length xs"
  shows "snd (fwrite xs f) = snd (fwrite (xs @ ys) f)"
  using assms by (simp add: fwrite_def Let_def min_def)

lemma fread_exact:
  assumes "drop (f_pos f) (f_data f) = xs @ ys" and "n = length xs"
  shows "fread n f = (xs, f\<lparr>f_pos := f_pos f + n, f_eof := False\<rparr>)"
  using assms by (simp add: fread_def)

lemma fread_short:
  assumes "drop (f_pos f) (f_data f) = xs" and "length xs < n"
  shows "fread n f = (xs, f\<lparr>f_pos := f_pos f + length xs, f_eof := True\<rparr>)"
  using assms by (simp add: fread_def)

end
