(* ===== verification/Journal.thy ===== *)
theory Journal
  imports Wire_Data Digest Observation Stdio
begin

text \<open>
  \<^verbatim>\<open>src/core/journal.c\<close>: the admission decision and the durable record format. The record laws are
  stated on the file model: an append that reports success has put one whole record at the end of the
  segment, reading it back returns it, a torn or damaged record is reported and the file is left
  positioned at its start, and replaying a segment returns exactly the records whose appends succeeded.
\<close>

section \<open>Admission\<close>

datatype obicall_admission_reason =
    OBICALL_ADMIT_OK
  | OBICALL_REJECT_VALIDATION
  | OBICALL_REJECT_DUPLICATE
  | OBICALL_REJECT_LATE
  | OBICALL_REJECT_OVERFLOW
  | OBICALL_REJECT_SEQUENCE_REGRESSION

primrec admission_code :: "obicall_admission_reason \<Rightarrow> u32" where
  "admission_code OBICALL_ADMIT_OK = 0"
| "admission_code OBICALL_REJECT_VALIDATION = 1"
| "admission_code OBICALL_REJECT_DUPLICATE = 2"
| "admission_code OBICALL_REJECT_LATE = 3"
| "admission_code OBICALL_REJECT_OVERFLOW = 4"
| "admission_code OBICALL_REJECT_SEQUENCE_REGRESSION = 5"

record obicall_journal_config =
  jc_reorder_window_n :: u64
  jc_max_lateness_ns :: i64
  jc_max_pending_per_pipeline :: u32
  jc_overflow_policy :: u32

record obicall_sensor_track =
  tr_sensor_id :: bytes
  tr_source_boot_id :: u64
  tr_has_data :: u32
  tr_highest_sequence_seen :: u64
  tr_watermark_sample_time_ns :: i64

text \<open>The decision and the track afterwards; \<^verbatim>\<open>int64_t\<close> comparisons are on \<open>sint\<close>.\<close>

definition obicall_journal_admit ::
  "obicall_journal_config option \<Rightarrow> obicall_sensor_track option \<Rightarrow> obicall_observation option \<Rightarrow>
   u32 \<Rightarrow> obicall_admission_reason \<times> obicall_sensor_track option" where
  "obicall_journal_admit cfg track obs current_pending_count =
     (case (cfg, track, obs) of
        (Some cfg, Some track, Some obs) \<Rightarrow>
          if fst (obicall_observation_validate (Some obs)) \<noteq> OBICALL_OK
          then (OBICALL_REJECT_VALIDATION, Some track)
          else
            (let is_new_session = (tr_has_data track = 0 \<or>
                   tr_source_boot_id track \<noteq> obs_source_boot_id obs)
             in if \<not> is_new_session \<and> obs_sequence obs \<le> tr_highest_sequence_seen track
                then (let behind = tr_highest_sequence_seen track - obs_sequence obs
                      in (if behind > jc_reorder_window_n cfg then OBICALL_REJECT_LATE
                          else OBICALL_REJECT_DUPLICATE, Some track))
                else if \<not> is_new_session \<and> sint (obs_sample_time_ns obs) <
                        sint (tr_watermark_sample_time_ns track - jc_max_lateness_ns cfg)
                then (OBICALL_REJECT_LATE, Some track)
                else if current_pending_count \<ge> jc_max_pending_per_pipeline cfg
                then (OBICALL_REJECT_OVERFLOW, Some track)
                else (OBICALL_ADMIT_OK, Some
                  \<lparr>tr_sensor_id = obs_sensor_id obs,
                   tr_source_boot_id = obs_source_boot_id obs,
                   tr_has_data = 1,
                   tr_highest_sequence_seen = obs_sequence obs,
                   tr_watermark_sample_time_ns =
                     (if is_new_session \<or> sint (obs_sample_time_ns obs) >
                           sint (tr_watermark_sample_time_ns track)
                      then obs_sample_time_ns obs else tr_watermark_sample_time_ns track)\<rparr>))
      | _ \<Rightarrow> (OBICALL_REJECT_VALIDATION, track))"

section \<open>Record format\<close>

record obicall_journal_record_header =
  jh_magic :: u32
  jh_record_len :: u32
  jh_observation_len :: u32
  jh_crc32 :: u32
  jh_window_seq :: u64
  jh_admitted_at_ns :: i64
  jh_admission_reason :: u32
  jh_reserved :: u32

abbreviation (input) OBICALL_JOURNAL_RECORD_MAGIC :: u32 where
  "OBICALL_JOURNAL_RECORD_MAGIC \<equiv> 0x4A4F5242"
abbreviation (input) OBICALL_JOURNAL_RECORD_HEADER_LEN :: u32 where
  "OBICALL_JOURNAL_RECORD_HEADER_LEN \<equiv> 40"
abbreviation (input) OBICALL_JOURNAL_MAX_RECORD_OBS_LEN :: u32 where
  "OBICALL_JOURNAL_MAX_RECORD_OBS_LEN \<equiv> 4096"

definition put_record_header :: "obicall_journal_record_header \<Rightarrow> (wcursor, unit) state" where
  "put_record_header hdr = do {
     wc_u32 (jh_magic hdr);
     wc_u32 (jh_record_len hdr);
     wc_u32 (jh_observation_len hdr);
     wc_u32 (jh_crc32 hdr);
     wc_u64 (jh_window_seq hdr);
     wc_i64 (jh_admitted_at_ns hdr);
     wc_u32 (jh_admission_reason hdr);
     wc_u32 (jh_reserved hdr) }"

definition obicall_journal_encode_record_header ::
  "obicall_journal_record_header option \<Rightarrow> bytes option \<Rightarrow> bytes res" where
  "obicall_journal_encode_record_header hdr out =
     (case (hdr, out) of
        (Some hdr, Some out) \<Rightarrow>
          let c = snd (run_state (put_record_header hdr)
                \<lparr>wc_p = out, wc_cap = OBICALL_JOURNAL_RECORD_HEADER_LEN, wc_off = 0, wc_ok = True\<rparr>)
          in if wc_ok c then Inr (wc_p c) else Inl OBICALL_ERR_WIRE_MALFORMED
      | _ \<Rightarrow> Inl OBICALL_ERR_NULL_POINTER)"

definition get_record_header :: "(rcursor, obicall_journal_record_header res) state" where
  "get_record_header = do {
     magic \<leftarrow> rc_u32;
     record_len \<leftarrow> rc_u32;
     observation_len \<leftarrow> rc_u32;
     crc32 \<leftarrow> rc_u32;
     window_seq \<leftarrow> rc_u64;
     admitted_at_ns \<leftarrow> rc_i64;
     admission_reason \<leftarrow> rc_u32;
     reserved \<leftarrow> rc_u32;
     rc_end \<lparr>jh_magic = magic, jh_record_len = record_len, jh_observation_len = observation_len,
       jh_crc32 = crc32, jh_window_seq = window_seq, jh_admitted_at_ns = admitted_at_ns,
       jh_admission_reason = admission_reason, jh_reserved = reserved\<rparr> }"

definition obicall_journal_decode_record_header ::
  "bytes option \<Rightarrow> obicall_journal_record_header option \<Rightarrow> obicall_journal_record_header res" where
  "obicall_journal_decode_record_header inp out =
     (case (inp, out) of
        (Some inp, Some _) \<Rightarrow> rc_run get_record_header inp OBICALL_JOURNAL_RECORD_HEADER_LEN
      | _ \<Rightarrow> Inl OBICALL_ERR_NULL_POINTER)"

section \<open>Appending and reading records\<close>

definition obicall_journal_append_record ::
  "FILE option \<Rightarrow> u64 \<Rightarrow> i64 \<Rightarrow> obicall_admission_reason \<Rightarrow> obicall_observation option \<Rightarrow>
   obicall_status \<times> FILE option" where
  "obicall_journal_append_record f window_seq admitted_at_ns reason obs =
     (case (f, obs) of
        (Some f, Some obs) \<Rightarrow>
          (case obicall_wire_encode_observation (Some obs) (Some (replicate 4096 0))
                  OBICALL_JOURNAL_MAX_RECORD_OBS_LEN (Some 0) of
             Inl st \<Rightarrow> (st, Some f)
           | Inr (obs_buf, obs_len) \<Rightarrow>
               (let hdr = \<lparr>jh_magic = OBICALL_JOURNAL_RECORD_MAGIC,
                      jh_record_len = OBICALL_JOURNAL_RECORD_HEADER_LEN + obs_len,
                      jh_observation_len = obs_len,
                      jh_crc32 = obicall_crc32 obs_buf obs_len,
                      jh_window_seq = window_seq,
                      jh_admitted_at_ns = admitted_at_ns,
                      jh_admission_reason = admission_code reason,
                      jh_reserved = 0\<rparr>
                in case obicall_journal_encode_record_header (Some hdr) (Some (replicate 40 0)) of
                     Inl st \<Rightarrow> (st, Some f)
                   | Inr hdr_buf \<Rightarrow>
                       (case fwrite hdr_buf f of (n, f) \<Rightarrow>
                          if n \<noteq> 40 then (OBICALL_ERR_IO, Some f)
                          else
                            (case (if obs_len > 0 then fwrite (take (unat obs_len) obs_buf) f
                                   else (0, f)) of (n, f) \<Rightarrow>
                               if n \<noteq> unat obs_len then (OBICALL_ERR_IO, Some f)
                               else if \<not> fflush f then (OBICALL_ERR_IO, Some f)
                               else if \<not> durable_sync f then (OBICALL_ERR_IO, Some f)
                               else (OBICALL_OK, Some f)))))
      | _ \<Rightarrow> (OBICALL_ERR_NULL_POINTER, f))"

definition obicall_journal_read_record ::
  "FILE option \<Rightarrow> obicall_journal_record_header option \<Rightarrow> obicall_observation option \<Rightarrow>
   (obicall_journal_record_header \<times> obicall_observation) res \<times> FILE option" where
  "obicall_journal_read_record f out_header out_obs =
     (case (f, out_header, out_obs) of
        (Some f, Some _, Some out_obs) \<Rightarrow>
          (let start_pos = ftell f in
           case fread 40 f of (hdr_buf, f) \<Rightarrow>
             if length hdr_buf = 0 \<and> f_eof f then (Inl OBICALL_ERR_NOT_FOUND, Some f)
             else if length hdr_buf \<noteq> 40
             then (Inl OBICALL_ERR_WIRE_MALFORMED, Some (fseek f start_pos))
             else
               (case obicall_journal_decode_record_header (Some hdr_buf) out_header of
                  Inl _ \<Rightarrow> (Inl OBICALL_ERR_WIRE_MALFORMED, Some (fseek f start_pos))
                | Inr hdr \<Rightarrow>
                    if jh_magic hdr \<noteq> OBICALL_JOURNAL_RECORD_MAGIC
                    then (Inl OBICALL_ERR_WIRE_MALFORMED, Some (fseek f start_pos))
                    else if jh_observation_len hdr > OBICALL_JOURNAL_MAX_RECORD_OBS_LEN \<or>
                            jh_record_len hdr \<noteq> OBICALL_JOURNAL_RECORD_HEADER_LEN + jh_observation_len hdr
                    then (Inl OBICALL_ERR_WIRE_TOO_LARGE, Some (fseek f start_pos))
                    else
                      (case fread (unat (jh_observation_len hdr)) f of (obs_buf, f) \<Rightarrow>
                         if length obs_buf \<noteq> unat (jh_observation_len hdr)
                         then (Inl OBICALL_ERR_WIRE_MALFORMED, Some (fseek f start_pos))
                         else if obicall_crc32 obs_buf (jh_observation_len hdr) \<noteq> jh_crc32 hdr
                         then (Inl OBICALL_ERR_WIRE_CHECKSUM, Some (fseek f start_pos))
                         else
                           (case obicall_wire_decode_observation (Some obs_buf)
                                   (jh_observation_len hdr) (Some out_obs) of
                              Inl st \<Rightarrow> (Inl st, Some (fseek f start_pos))
                            | Inr obs \<Rightarrow> (Inr (hdr, obs), Some f)))))
      | _ \<Rightarrow> (Inl OBICALL_ERR_NULL_POINTER, f))"

section \<open>Laws of admission\<close>

text \<open>Every decision but \<open>OBICALL_ADMIT_OK\<close> leaves the track as it was.\<close>

lemma admit_reject_keeps_track:
  "obicall_journal_admit cfg track obs n = (reason, track') \<Longrightarrow> reason \<noteq> OBICALL_ADMIT_OK \<Longrightarrow> track' = track"
  by (auto simp: obicall_journal_admit_def Let_def split: option.splits if_splits)

lemma admit_okE:
  assumes "obicall_journal_admit (Some cfg) (Some track) (Some obs) n = (OBICALL_ADMIT_OK, track')"
  obtains t where "track' = Some t"
    and "fst (obicall_observation_validate (Some obs)) = OBICALL_OK"
    and "tr_source_boot_id t = obs_source_boot_id obs" and "tr_has_data t = 1"
    and "tr_highest_sequence_seen t = obs_sequence obs" and "tr_sensor_id t = obs_sensor_id obs"
    and "n < jc_max_pending_per_pipeline cfg"
    and "tr_has_data track \<noteq> 0 \<Longrightarrow> tr_source_boot_id track = obs_source_boot_id obs \<Longrightarrow>
      tr_highest_sequence_seen track < obs_sequence obs"
  using assms by (auto simp: obicall_journal_admit_def Let_def not_le not_less split: if_splits)

lemma admit_keeps_some:
  "\<exists>t. snd (obicall_journal_admit (Some cfg) (Some track) (Some obs) n) = Some t"
  by (auto simp: obicall_journal_admit_def Let_def)

text \<open>The observations a track admits from a sequence of submissions with the given backlog depths.\<close>

fun admitted_run :: "obicall_journal_config \<Rightarrow> obicall_sensor_track \<Rightarrow>
    (obicall_observation \<times> u32) list \<Rightarrow> obicall_observation list" where
  "admitted_run cfg track [] = []"
| "admitted_run cfg track ((obs, pending) # rest) =
     (case obicall_journal_admit (Some cfg) (Some track) (Some obs) pending of
        (reason, track') \<Rightarrow>
          (if reason = OBICALL_ADMIT_OK then [obs] else []) @ admitted_run cfg (the track') rest)"

definition track_before :: "obicall_sensor_track \<Rightarrow> obicall_observation \<Rightarrow> bool" where
  "track_before track obs \<longleftrightarrow>
     (tr_has_data track \<noteq> 0 \<longrightarrow> tr_source_boot_id track = obs_source_boot_id obs \<longrightarrow>
        tr_highest_sequence_seen track < obs_sequence obs)"

lemma admitted_run_ordered:
  "(case admitted_run cfg track inputs of [] \<Rightarrow> True | obs # _ \<Rightarrow> track_before track obs) \<and>
   successively (\<lambda>o1 o2. obs_source_boot_id o1 = obs_source_boot_id o2 \<longrightarrow>
      obs_sequence o1 < obs_sequence o2) (admitted_run cfg track inputs)"
proof (induction inputs arbitrary: track)
  case (Cons input rest)
  obtain obs pending where input: "input = (obs, pending)" by fastforce
  obtain reason t where r:
    "obicall_journal_admit (Some cfg) (Some track) (Some obs) pending = (reason, Some t)"
    using admit_keeps_some [of cfg track obs pending] by (metis prod.collapse)
  show ?case
  proof (cases "reason = OBICALL_ADMIT_OK")
    case True
    then have t: "track_before track obs"
      "\<And>o2. track_before t o2 \<Longrightarrow> obs_source_boot_id obs = obs_source_boot_id o2 \<Longrightarrow>
         obs_sequence obs < obs_sequence o2"
      using r by (auto simp: track_before_def elim!: admit_okE)
    then show ?thesis
      using r True Cons.IH [of t]
      by (cases "admitted_run cfg t rest") (auto simp: input)
  next
    case False
    then have "t = track" using admit_reject_keeps_track [OF r] by simp
    then show ?thesis using r False Cons.IH [of track] by (simp add: input)
  qed
qed simp

text \<open>
  whatever is submitted to a sensor track, in whatever order and under whatever backlog, two
  consecutive admissions of the same source session carry strictly increasing sequence numbers; so
  no reading is admitted twice within a session and none is admitted out of order.
\<close>

theorem admission_sequences_increase:
  "successively (\<lambda>o1 o2. obs_source_boot_id o1 = obs_source_boot_id o2 \<longrightarrow>
     obs_sequence o1 < obs_sequence o2) (admitted_run cfg track inputs)"
  using admitted_run_ordered by blast

abbreviation (input) example_config :: obicall_journal_config where
  "example_config \<equiv> \<lparr>jc_reorder_window_n = 8, jc_max_lateness_ns = 2000,
     jc_max_pending_per_pipeline = 16, jc_overflow_policy = 1\<rparr>"

definition example_track :: obicall_sensor_track where
  "example_track = \<lparr>tr_sensor_id = 0x61 # replicate 31 0, tr_source_boot_id = 0, tr_has_data = 0,
     tr_highest_sequence_seen = 0, tr_watermark_sample_time_ns = 0\<rparr>"

lemma example_observation_valid:
  "fst (obicall_observation_validate (Some (example_observation\<lparr>obs_sequence := n\<rparr>))) = OBICALL_OK"
  by (simp add: validate_sequence example_observation_ok)

theorem admission_sequences_increase_witness:
  "map obs_sequence (admitted_run example_config example_track
     [(example_observation\<lparr>obs_sequence := 5\<rparr>, 0), (example_observation\<lparr>obs_sequence := 3\<rparr>, 0),
      (example_observation\<lparr>obs_sequence := 6\<rparr>, 0)]) = [5, 6] \<and>
   successively (\<lambda>o1 o2. obs_source_boot_id o1 = obs_source_boot_id o2 \<longrightarrow>
     obs_sequence o1 < obs_sequence o2) (admitted_run example_config example_track
     [(example_observation\<lparr>obs_sequence := 5\<rparr>, 0), (example_observation\<lparr>obs_sequence := 3\<rparr>, 0),
      (example_observation\<lparr>obs_sequence := 6\<rparr>, 0)])"
  by (rule conjI [OF _ admission_sequences_increase])
     (simp add: obicall_journal_admit_def example_observation_valid example_track_def Let_def)

text \<open>
  A retransmission of an admitted observation is always rejected as a duplicate and changes
  nothing, whatever the backlog is by then.
\<close>

theorem admission_idempotent:
  assumes "obicall_journal_admit (Some cfg) (Some track) (Some obs) n = (OBICALL_ADMIT_OK, track')"
  shows "obicall_journal_admit (Some cfg) track' (Some obs) n' = (OBICALL_REJECT_DUPLICATE, track')"
  using assms by (elim admit_okE) (simp add: obicall_journal_admit_def Let_def)

theorem admission_idempotent_witness:
  "obicall_journal_admit (Some example_config)
     (snd (obicall_journal_admit (Some example_config) (Some example_track)
        (Some example_observation) 0)) (Some example_observation) 15 =
   (OBICALL_REJECT_DUPLICATE, snd (obicall_journal_admit (Some example_config) (Some example_track)
        (Some example_observation) 0))"
proof (rule admission_idempotent)
  show "obicall_journal_admit (Some example_config) (Some example_track) (Some example_observation) 0 =
    (OBICALL_ADMIT_OK, snd (obicall_journal_admit (Some example_config) (Some example_track)
        (Some example_observation) 0))"
    by (simp add: obicall_journal_admit_def example_observation_ok example_track_def Let_def)
qed

text \<open>
  Within a session nothing at or below the highest admitted sequence is ever admitted, also
  inside the configured reordering window: there it is classified as a duplicate.
\<close>

theorem admission_never_reorders:
  assumes "tr_has_data track \<noteq> 0" and "tr_source_boot_id track = obs_source_boot_id obs"
    and "obs_sequence obs \<le> tr_highest_sequence_seen track"
    and "fst (obicall_observation_validate (Some obs)) = OBICALL_OK"
  shows "obicall_journal_admit (Some cfg) (Some track) (Some obs) n =
    (if tr_highest_sequence_seen track - obs_sequence obs > jc_reorder_window_n cfg
     then OBICALL_REJECT_LATE else OBICALL_REJECT_DUPLICATE, Some track)"
  using assms by (simp add: obicall_journal_admit_def Let_def)

theorem admission_never_reorders_witness:
  "obicall_journal_admit (Some example_config) (Some (example_track
      \<lparr>tr_has_data := 1, tr_source_boot_id := 7, tr_highest_sequence_seen := 10\<rparr>))
      (Some (example_observation\<lparr>obs_sequence := 9\<rparr>)) 0 =
    (OBICALL_REJECT_DUPLICATE, Some (example_track
      \<lparr>tr_has_data := 1, tr_source_boot_id := 7, tr_highest_sequence_seen := 10\<rparr>))"
  using admission_never_reorders
    [of "example_track\<lparr>tr_has_data := 1, tr_source_boot_id := 7, tr_highest_sequence_seen := 10\<rparr>"
      "example_observation\<lparr>obs_sequence := 9\<rparr>" example_config 0]
  by (simp add: example_observation_valid)

section \<open>Laws of the record format\<close>

definition record_header_layout :: "obicall_journal_record_header \<Rightarrow> bytes" where
  "record_header_layout h = le_bytes 4 (jh_magic h) @ le_bytes 4 (jh_record_len h) @
     le_bytes 4 (jh_observation_len h) @ le_bytes 4 (jh_crc32 h) @ le_bytes 8 (jh_window_seq h) @
     le_bytes 8 (jh_admitted_at_ns h) @ le_bytes 4 (jh_admission_reason h) @
     le_bytes 4 (jh_reserved h)"

lemma length_record_header_layout [simp]: "length (record_header_layout h) = 40"
  by (simp add: record_header_layout_def)

lemma encode_record_header_layout:
  assumes "length out = 40"
  shows "obicall_journal_encode_record_header (Some h) (Some out) = Inr (record_header_layout h)"
proof -
  let ?c = "\<lparr>wc_p = out, wc_cap = 40, wc_off = 0, wc_ok = True\<rparr>"
  have "writes (put_record_header h) (record_header_layout h)"
    unfolding put_record_header_def record_header_layout_def by (intro codec_intros)
  moreover have "wc_inv ?c" and "wroom ?c = 40"
    using assms by (simp_all add: wc_inv_def wroom_def)
  ultimately have "run_state (put_record_header h) ?c = ((), wput ?c (record_header_layout h))"
    by (simp add: writes_def)
  then show ?thesis
    using assms by (simp add: obicall_journal_encode_record_header_def wput_def memcpy_zero)
qed

lemma decode_record_header_layout:
  "obicall_journal_decode_record_header (Some (record_header_layout h)) (Some old) = Inr h"
proof -
  have "yields get_record_header (record_header_layout h @ []) (Inr h)"
    unfolding get_record_header_def record_header_layout_def append_assoc
    by (rule yields_fields TrueI | simp)+
  then have "rc_run get_record_header (record_header_layout h) 40 = Inr h"
    by (intro rc_run_yields) simp_all
  then show ?thesis by (simp add: obicall_journal_decode_record_header_def)
qed

text \<open>What one append puts on the device.\<close>

type_synonym journal_entry = "u64 \<times> i64 \<times> obicall_admission_reason \<times> obicall_observation"

fun entry_header :: "journal_entry \<Rightarrow> obicall_journal_record_header" where
  "entry_header (ws, at, reason, obs) =
     (let len = of_nat (length (observation_layout obs)) in
      \<lparr>jh_magic = OBICALL_JOURNAL_RECORD_MAGIC,
       jh_record_len = OBICALL_JOURNAL_RECORD_HEADER_LEN + len,
       jh_observation_len = len,
       jh_crc32 = obicall_crc32 (observation_layout obs) len,
       jh_window_seq = ws, jh_admitted_at_ns = at, jh_admission_reason = admission_code reason,
       jh_reserved = 0\<rparr>)"

definition entry_obs :: "journal_entry \<Rightarrow> obicall_observation" where
  "entry_obs e = snd (snd (snd e))"

definition entry_bytes :: "journal_entry \<Rightarrow> bytes" where
  "entry_bytes e = record_header_layout (entry_header e) @ observation_layout (entry_obs e)"

definition append_entry :: "FILE \<Rightarrow> journal_entry \<Rightarrow> obicall_status \<times> FILE option" where
  "append_entry f e = (case e of (ws, at, reason, obs) \<Rightarrow>
     obicall_journal_append_record (Some f) ws at reason (Some obs))"

lemma observation_layout_bounds:
  assumes "encodable_observation obs"
  shows "length (observation_layout obs) \<le> 444" and "108 \<le> length (observation_layout obs)"
    and "unat (of_nat (length (observation_layout obs)) :: u32) = length (observation_layout obs)"
proof -
  show le: "length (observation_layout obs) \<le> 444" and "108 \<le> length (observation_layout obs)"
    using encodable_facts [OF assms] by (simp_all add: length_observation_layout [OF assms])
  then show "unat (of_nat (length (observation_layout obs)) :: u32) = length (observation_layout obs)"
    by (simp add: unat_of_nat)
qed

lemma obicall_crc32_take:
  "unat len \<le> length xs \<Longrightarrow> obicall_crc32 (xs @ ys) len = obicall_crc32 xs len"
  by (simp add: obicall_crc32_def)

text \<open>An append writes a prefix of the record: all of it, or as much as the device takes.\<close>

lemma append_entry_eq:
  assumes enc: "encodable_observation (entry_obs e)"
  shows "append_entry f e =
    (if f_room f < length (entry_bytes e) \<or> \<not> f_flush_ok f \<or> \<not> f_sync_ok f
     then OBICALL_ERR_IO else OBICALL_OK, Some (snd (fwrite (entry_bytes e) f)))"
proof -
  obtain ws at reason obs where e: "e = (ws, at, reason, obs)" by (cases e) auto
  then have obs: "entry_obs e = obs" by (simp add: entry_obs_def)
  note b = observation_layout_bounds [OF enc, unfolded obs]
  let ?lay = "observation_layout obs"
  let ?n = "of_nat (length ?lay) :: u32"
  let ?hdr = "record_header_layout (entry_header (ws, at, reason, obs))"
  have run: "obicall_wire_encode_observation (Some obs) (Some (replicate 4096 0)) 4096 (Some 0) =
      Inr (?lay @ replicate (4096 - length ?lay) 0, ?n)"
    using observation.encode_run [of obs 4096 "replicate 4096 0" 0] enc b
    by (simp add: obs memcpy_zero)
  have pos: "?n > 0" using b by (subst word_less_nat_alt) auto
  have bytes: "entry_bytes (ws, at, reason, obs) = ?hdr @ ?lay"
    by (simp add: entry_bytes_def entry_obs_def)
  show ?thesis
  proof (cases "f_room f < 40")
    case True
    then show ?thesis
      using fwrite_short [of f ?hdr ?lay] unfolding e
      by (simp add: append_entry_def obicall_journal_append_record_def run Let_def
          encode_record_header_layout obicall_crc32_take b bytes)
         (simp add: fwrite_def Let_def min_def)
  next
    case False
    then have "snd (fwrite ?lay (snd (fwrite ?hdr f))) = snd (fwrite (?hdr @ ?lay) f)"
      and "fst (fwrite ?lay (snd (fwrite ?hdr f))) = min (length ?lay) (f_room f - 40)"
      and "fst (fwrite ?hdr f) = 40"
      using fwrite_seq [of ?hdr f ?lay] by (simp_all add: fwrite_def Let_def)
    then show ?thesis
      using False pos b unfolding e
      by (auto simp: append_entry_def obicall_journal_append_record_def run Let_def
          encode_record_header_layout obicall_crc32_take bytes case_prod_unfold fflush_def
          durable_sync_def min_def) (simp_all add: fwrite_def Let_def)
  qed
qed

text \<open>Reading: the four things the bytes at the read position can be.\<close>

lemma read_after_header:
  assumes d: "drop (f_pos f) (f_data f) = record_header_layout h @ rest"
    and h: "jh_magic h = OBICALL_JOURNAL_RECORD_MAGIC" "jh_observation_len h \<le> 4096"
      "jh_record_len h = 40 + jh_observation_len h"
  shows "obicall_journal_read_record (Some f) (Some h0) (Some o0) =
    (let n = unat (jh_observation_len h); buf = take n rest;
         back = f\<lparr>f_pos := f_pos f, f_eof := False\<rparr>
     in if length rest < n then (Inl OBICALL_ERR_WIRE_MALFORMED, Some back)
        else if obicall_crc32 buf (jh_observation_len h) \<noteq> jh_crc32 h
        then (Inl OBICALL_ERR_WIRE_CHECKSUM, Some back)
        else case obicall_wire_decode_observation (Some buf) (jh_observation_len h) (Some o0) of
               Inl st \<Rightarrow> (Inl st, Some back)
             | Inr obs \<Rightarrow> (Inr (h, obs), Some (f\<lparr>f_pos := f_pos f + 40 + n, f_eof := False\<rparr>)))"
proof -
  have r: "fread 40 f = (record_header_layout h, f\<lparr>f_pos := f_pos f + 40, f_eof := False\<rparr>)"
    using d by (rule fread_exact) simp
  have d': "drop (f_pos f + 40) (f_data f) = rest"
    using arg_cong [OF d, of "drop 40"] by (simp add: add.commute)
  have r2: "fread n (f\<lparr>f_pos := f_pos f + 40, f_eof := False\<rparr>) = (take n rest,
      f\<lparr>f_pos := f_pos f + 40 + length (take n rest), f_eof := length (take n rest) < n\<rparr>)" for n
    by (simp add: fread_def d')
  have big: "\<not> 4096 < jh_observation_len h" using h(2) by (simp add: not_less)
  show ?thesis
    using big
    by (simp add: obicall_journal_read_record_def r r2 decode_record_header_layout h ftell_def Let_def
        fseek_def not_le min_def split: sum.split)
qed

lemma read_entry:
  assumes enc: "encodable_observation (entry_obs e)"
    and d: "drop (f_pos f) (f_data f) = entry_bytes e @ rest"
  shows "obicall_journal_read_record (Some f) (Some h0) (Some o0) =
    (Inr (entry_header e, norm_observation (entry_obs e)),
     Some (f\<lparr>f_pos := f_pos f + length (entry_bytes e), f_eof := False\<rparr>))"
proof -
  note b = observation_layout_bounds [OF enc]
  obtain ws at reason obs where e: "e = (ws, at, reason, obs)" by (cases e) auto
  let ?lay = "observation_layout (entry_obs e)"
  have h: "jh_magic (entry_header e) = OBICALL_JOURNAL_RECORD_MAGIC"
    "jh_observation_len (entry_header e) = of_nat (length ?lay)"
    "jh_record_len (entry_header e) = 40 + jh_observation_len (entry_header e)"
    "jh_crc32 (entry_header e) = obicall_crc32 ?lay (of_nat (length ?lay))"
    by (simp_all add: e entry_obs_def Let_def)
  have "(of_nat (length ?lay) :: u32) \<le> 4096" using b by (simp add: word_le_nat_alt)
  moreover have "obicall_wire_decode_observation (Some ?lay) (of_nat (length ?lay)) (Some o0) =
      Inr (norm_observation (entry_obs e))"
    by (rule observation.decode_prefix [OF enc]) (simp_all add: b)
  moreover have "drop (f_pos f) (f_data f) = record_header_layout (entry_header e) @ ?lay @ rest"
    using d by (simp add: entry_bytes_def)
  ultimately show ?thesis
    using b(3) by (subst read_after_header [where h = "entry_header e" and rest = "?lay @ rest"])
      (simp_all add: h Let_def entry_bytes_def)
qed

text \<open>A record of which only a proper part was written: the torn tail after a crash.\<close>

lemma read_torn:
  assumes enc: "encodable_observation (entry_obs e)"
    and d: "drop (f_pos f) (f_data f) = take k (entry_bytes e)"
    and k: "0 < k" "k < length (entry_bytes e)"
  shows "obicall_journal_read_record (Some f) (Some h0) (Some o0) =
    (Inl OBICALL_ERR_WIRE_MALFORMED, Some (f\<lparr>f_pos := f_pos f, f_eof := False\<rparr>))"
proof (cases "k < 40")
  case True
  have len: "length (take k (entry_bytes e)) = k" using k by simp
  have "fread 40 f = (take k (entry_bytes e), f\<lparr>f_pos := f_pos f + k, f_eof := True\<rparr>)"
    using fread_short [OF d, of 40] True len by simp
  then show ?thesis
    using True k len
    by (auto simp: obicall_journal_read_record_def ftell_def fseek_def Let_def simp del: length_take)
next
  case False
  note b = observation_layout_bounds [OF enc]
  let ?lay = "observation_layout (entry_obs e)"
  obtain ws at reason obs where e: "e = (ws, at, reason, obs)" by (cases e) auto
  have "drop (f_pos f) (f_data f) = record_header_layout (entry_header e) @ take (k - 40) ?lay"
    using d False by (simp add: entry_bytes_def)
  moreover have "(of_nat (length ?lay) :: u32) \<le> 4096" using b by (simp add: word_le_nat_alt)
  moreover have "k - 40 < length ?lay" using k False by (simp add: entry_bytes_def)
  ultimately show ?thesis
    using b(3)
    by (subst read_after_header [where h = "entry_header e" and rest = "take (k - 40) ?lay"])
       (simp_all add: e entry_obs_def Let_def)
qed

text \<open>A record whose observation bytes no longer match the checksum.\<close>

lemma read_damaged:
  assumes enc: "encodable_observation (entry_obs e)"
    and d: "drop (f_pos f) (f_data f) = record_header_layout (entry_header e) @ bad @ rest"
    and len: "length bad = length (observation_layout (entry_obs e))"
    and crc: "obicall_crc32 bad (of_nat (length bad)) \<noteq>
      obicall_crc32 (observation_layout (entry_obs e)) (of_nat (length bad))"
  shows "obicall_journal_read_record (Some f) (Some h0) (Some o0) =
    (Inl OBICALL_ERR_WIRE_CHECKSUM, Some (f\<lparr>f_pos := f_pos f, f_eof := False\<rparr>))"
proof -
  note b = observation_layout_bounds [OF enc]
  obtain ws at reason obs where e: "e = (ws, at, reason, obs)" by (cases e) auto
  have "(of_nat (length bad) :: u32) \<le> 4096" using b len by (simp add: word_le_nat_alt)
  then show ?thesis
    using d b(3) crc len
    by (subst read_after_header [where h = "entry_header e" and rest = "bad @ rest"])
       (simp_all add: e entry_obs_def Let_def)
qed

lemma read_end:
  assumes "drop (f_pos f) (f_data f) = []"
  shows "obicall_journal_read_record (Some f) (Some h0) (Some o0) =
    (Inl OBICALL_ERR_NOT_FOUND, Some (f\<lparr>f_eof := True\<rparr>))"
  using assms by (simp add: obicall_journal_read_record_def fread_def)

section \<open>Recovery of a segment\<close>

text \<open>
  The journal process appends admitted and rejected observations alike and goes on after a failed
  append; \<open>journal_write\<close> is a run of such appends with the status of each.
\<close>

primrec journal_write :: "FILE \<Rightarrow> journal_entry list \<Rightarrow> obicall_status list \<times> FILE" where
  "journal_write f [] = ([], f)"
| "journal_write f (e # es) =
     (case append_entry f e of (st, f1) \<Rightarrow>
        case journal_write (the f1) es of (sts, f2) \<Rightarrow> (st # sts, f2))"

text \<open>
  The reading loop of the replay command: records until the first status that is not OK. The value
  holds the records, that status, and the file. \<open>h0\<close> and \<open>o0\<close> are the loop's uninitialised locals.
\<close>

partial_function (option) replay_records ::
  "obicall_journal_record_header \<Rightarrow> obicall_observation \<Rightarrow> FILE \<Rightarrow>
   ((obicall_journal_record_header \<times> obicall_observation) list \<times> obicall_status \<times> FILE) option" where
  [code]: "replay_records h0 o0 f =
     (case obicall_journal_read_record (Some f) (Some h0) (Some o0) of
        (Inl st, f1) \<Rightarrow> Some ([], st, the f1)
      | (Inr r, f1) \<Rightarrow> do {
          (rs, st, f2) \<leftarrow> replay_records h0 o0 (the f1);
          Some (r # rs, st, f2) })"

definition entries_bytes :: "journal_entry list \<Rightarrow> bytes" where
  "entries_bytes es = concat (map entry_bytes es)"

lemma entries_bytes_simps [simp]:
  "entries_bytes [] = []" "entries_bytes (e # es) = entry_bytes e @ entries_bytes es"
  by (simp_all add: entries_bytes_def)

definition recovered :: "journal_entry \<Rightarrow> obicall_journal_record_header \<times> obicall_observation" where
  "recovered e = (entry_header e, norm_observation (entry_obs e))"

abbreviation encodable_entries :: "journal_entry list \<Rightarrow> bool" where
  "encodable_entries es \<equiv> list_all (\<lambda>e. encodable_observation (entry_obs e)) es"

lemma entries_bytes_nonempty: "i < length es \<Longrightarrow> 0 < length (entries_bytes (take (Suc i) es))"
  by (cases es) (simp_all add: entry_bytes_def)

lemma journal_write_file:
  assumes "encodable_entries es"
  shows "f_data (snd (journal_write f es)) = f_data f @ take (f_room f) (entries_bytes es) \<and>
    f_pos (snd (journal_write f es)) = f_pos f \<and>
    (\<forall>i < length es. fst (journal_write f es) ! i = OBICALL_OK \<longrightarrow>
      length (entries_bytes (take (Suc i) es)) \<le> f_room f)"
  using assms
proof (induction es arbitrary: f)
  case (Cons e es)
  let ?f1 = "snd (fwrite (entry_bytes e) f)"
  have f1: "f_data ?f1 = f_data f @ take (f_room f) (entry_bytes e)" "f_pos ?f1 = f_pos f"
    "f_room ?f1 = f_room f - length (entry_bytes e)"
    by (simp_all add: fwrite_def Let_def min_def)
  have enc: "encodable_observation (entry_obs e)" "encodable_entries es" using Cons.prems by auto
  note IH = Cons.IH [OF enc(2), of ?f1]
  have "length (entries_bytes (take (Suc i) (e # es))) \<le> f_room f"
    if "i < length (e # es)" "fst (journal_write f (e # es)) ! i = OBICALL_OK" for i
  proof (cases i)
    case 0
    then show ?thesis
      using that by (simp add: append_entry_eq [OF enc(1)] case_prod_unfold split: if_splits)
  next
    case (Suc n)
    then have "n < length es" and "fst (journal_write ?f1 es) ! n = OBICALL_OK"
      using that by (simp_all add: append_entry_eq [OF enc(1)] case_prod_unfold)
    then have "length (entries_bytes (take (Suc n) es)) \<le> f_room f - length (entry_bytes e)"
      and "0 < length (entries_bytes (take (Suc n) es))"
      using IH f1(3) entries_bytes_nonempty by auto
    then have "length (entry_bytes e) + length (entries_bytes (take (Suc n) es)) \<le> f_room f"
      by linarith
    then show ?thesis using Suc by simp
  qed
  then show ?case
    using IH f1 by (simp add: append_entry_eq [OF enc(1)] case_prod_unfold)
qed simp

lemma replay_prefix:
  assumes "encodable_entries es" and "drop (f_pos f) (f_data f) = take n (entries_bytes es)"
  shows "\<exists>k st f'. k \<le> length es \<and>
    replay_records h0 o0 f = Some (map recovered (take k es), st, f') \<and>
    st \<in> {OBICALL_ERR_NOT_FOUND, OBICALL_ERR_WIRE_MALFORMED} \<and>
    f_pos f' = f_pos f + length (entries_bytes (take k es)) \<and>
    (\<forall>j \<le> length es. length (entries_bytes (take j es)) \<le> n \<longrightarrow> j \<le> k)"
  using assms
proof (induction es arbitrary: f n)
  case Nil
  then show ?case by (simp add: replay_records.simps [of _ _ f] read_end)
next
  case (Cons e es)
  have enc: "encodable_observation (entry_obs e)" "encodable_entries es" using Cons.prems by auto
  have j0: "j = 0" if "length (entries_bytes (take j (e # es))) \<le> n" "n < length (entry_bytes e)" for j
    using that by (cases j) auto
  consider (whole) "length (entry_bytes e) \<le> n" | (torn) "0 < n" "n < length (entry_bytes e)"
    | (none) "n = 0" by linarith
  then show ?case
  proof cases
    case whole
    let ?f1 = "f\<lparr>f_pos := f_pos f + length (entry_bytes e), f_eof := False\<rparr>"
    have d: "drop (f_pos f) (f_data f) =
        entry_bytes e @ take (n - length (entry_bytes e)) (entries_bytes es)"
      using Cons.prems(2) whole by simp
    have d1: "drop (f_pos ?f1) (f_data ?f1) = take (n - length (entry_bytes e)) (entries_bytes es)"
      using arg_cong [OF d, of "drop (length (entry_bytes e))"]
      by (simp add: add.commute [of "f_pos f"])
    obtain k st f' where IH: "k \<le> length es"
      "replay_records h0 o0 ?f1 = Some (map recovered (take k es), st, f')"
      "st \<in> {OBICALL_ERR_NOT_FOUND, OBICALL_ERR_WIRE_MALFORMED}"
      "f_pos f' = f_pos ?f1 + length (entries_bytes (take k es))"
      "\<forall>j \<le> length es. length (entries_bytes (take j es)) \<le> n - length (entry_bytes e) \<longrightarrow> j \<le> k"
      using Cons.IH [OF enc(2) d1] by blast
    have "replay_records h0 o0 f = Some (map recovered (take (Suc k) (e # es)), st, f')"
      using IH(2) by (simp add: replay_records.simps [of _ _ f] read_entry [OF enc(1) d] recovered_def)
    moreover have "j \<le> Suc k"
      if "j \<le> length (e # es)" "length (entries_bytes (take j (e # es))) \<le> n" for j
      using that IH(5) by (cases j) auto
    ultimately show ?thesis
      using IH(1,3,4) by (intro exI [of _ "Suc k"] exI [of _ st] exI [of _ f']) auto
  next
    case torn
    then have "drop (f_pos f) (f_data f) = take n (entry_bytes e)" using Cons.prems(2) by simp
    from read_torn [OF enc(1) this torn] show ?thesis
      using j0 torn
      by (intro exI [of _ 0] exI [of _ OBICALL_ERR_WIRE_MALFORMED]
          exI [of _ "f\<lparr>f_pos := f_pos f, f_eof := False\<rparr>"])
         (simp add: replay_records.simps [of _ _ f])
  next
    case none
    then have d: "drop (f_pos f) (f_data f) = []" using Cons.prems(2) by simp
    have "0 < length (entry_bytes e)" by (simp add: entry_bytes_def)
    then show ?thesis
      using j0 none
      by (intro exI [of _ 0] exI [of _ OBICALL_ERR_NOT_FOUND] exI [of _ "f\<lparr>f_eof := True\<rparr>"])
         (simp add: replay_records.simps [of _ _ f] read_end [OF d])
  qed
qed

text \<open>
  whatever the device does while a run of records is appended to an empty segment (it may fill up
  in the middle of a record and refuse to flush or to sync), replaying the segment terminates and
  returns exactly a prefix of the appended records, each with the header and observation it was
  written with; every record whose append reported success is among them; and the file is left at
  the end of the last whole record, where a torn tail can be cut off.
\<close>

theorem journal_recovery:
  assumes "encodable_entries es" and "f_data f = []" and "f_pos f = 0"
    and "journal_write f es = (sts, f1)"
  shows "\<exists>k st f2. k \<le> length es \<and>
    replay_records h0 o0 f1 = Some (map recovered (take k es), st, f2) \<and>
    st \<in> {OBICALL_ERR_NOT_FOUND, OBICALL_ERR_WIRE_MALFORMED} \<and>
    f_pos f2 = length (entries_bytes (take k es)) \<and>
    (\<forall>i < length es. sts ! i = OBICALL_OK \<longrightarrow> i < k)"
proof -
  note w = journal_write_file [OF assms(1), of f, unfolded assms(4) fst_conv snd_conv]
  have "drop (f_pos f1) (f_data f1) = take (f_room f) (entries_bytes es)"
    using w assms by simp
  then obtain k st f2 where r: "k \<le> length es"
    "replay_records h0 o0 f1 = Some (map recovered (take k es), st, f2)"
    "st \<in> {OBICALL_ERR_NOT_FOUND, OBICALL_ERR_WIRE_MALFORMED}"
    "f_pos f2 = f_pos f1 + length (entries_bytes (take k es))"
    "\<forall>j \<le> length es. length (entries_bytes (take j es)) \<le> f_room f \<longrightarrow> j \<le> k"
    using replay_prefix [OF assms(1)] by blast
  have "i < k" if "i < length es" "sts ! i = OBICALL_OK" for i
    using r(5) [rule_format, of "Suc i"] w that by simp
  then show ?thesis using r(1-4) w assms(3) by (metis add_0)
qed

definition example_segment :: FILE where
  "example_segment = \<lparr>f_data = [], f_pos = 0, f_room = 200, f_eof = False, f_flush_ok = True,
     f_sync_ok = True\<rparr>"

text \<open>A device with room for one record and a part of a second one.\<close>

theorem journal_recovery_witness:
  "\<exists>k st f2. k \<le> 2 \<and>
    replay_records (entry_header (1, 0, OBICALL_ADMIT_OK, example_observation)) example_observation
      (snd (journal_write example_segment
        [(1, 50, OBICALL_ADMIT_OK, example_observation),
         (2, 60, OBICALL_REJECT_DUPLICATE, example_observation)])) =
      Some (map recovered (take k [(1, 50, OBICALL_ADMIT_OK, example_observation),
         (2, 60, OBICALL_REJECT_DUPLICATE, example_observation)]), st, f2) \<and> 0 < k"
proof -
  let ?es = "[(1, 50, OBICALL_ADMIT_OK, example_observation),
    (2, 60, OBICALL_REJECT_DUPLICATE, example_observation)] :: journal_entry list"
  have enc: "encodable_observation example_observation"
    by (simp add: encodable_observation_def wf_observation_def example_observation_def)
  have len: "length (entry_bytes (ws, at, reason, example_observation)) = 164" for ws at reason
    using length_observation_layout [OF enc]
    by (simp add: entry_bytes_def entry_obs_def) (simp add: example_observation_def)
  have "fst (journal_write example_segment ?es) ! 0 = OBICALL_OK"
    using enc by (simp add: append_entry_eq entry_obs_def len case_prod_unfold)
      (simp add: example_segment_def)
  moreover have "encodable_entries ?es" "f_data example_segment = []" "f_pos example_segment = 0"
    using enc by (simp_all add: entry_obs_def example_segment_def)
  then obtain k st f2 where "k \<le> length ?es"
    "replay_records (entry_header (1, 0, OBICALL_ADMIT_OK, example_observation)) example_observation
       (snd (journal_write example_segment ?es)) = Some (map recovered (take k ?es), st, f2)"
    "\<forall>i < length ?es. fst (journal_write example_segment ?es) ! i = OBICALL_OK \<longrightarrow> i < k"
    using journal_recovery [of ?es example_segment "fst (journal_write example_segment ?es)"
        "snd (journal_write example_segment ?es)"] by (metis prod.collapse)
  ultimately show ?thesis
    by (intro exI [of _ k] exI [of _ st] exI [of _ f2])
      (simp del: journal_write.simps entry_header.simps)
qed

text \<open>
  a record damaged on the device within four consecutive bytes of its observation is reported as
  a checksum error, never decoded, and the read position stays at its start.
\<close>

theorem journal_detects_damage:
  assumes "encodable_observation (entry_obs e)"
    and "observation_layout (entry_obs e) = xs @ bs @ ys" and "length bs' = length bs"
    and "length bs \<le> 4" and "bs' \<noteq> bs"
    and "f_data f = before @ record_header_layout (entry_header e) @ xs @ bs' @ ys @ after"
    and "f_pos f = length before"
  shows "obicall_journal_read_record (Some f) (Some h0) (Some o0) =
    (Inl OBICALL_ERR_WIRE_CHECKSUM, Some (f\<lparr>f_pos := length before, f_eof := False\<rparr>))"
proof -
  let ?n = "of_nat (length (observation_layout (entry_obs e))) :: u32"
  have "unat ?n = length (xs @ bs @ ys)"
    using observation_layout_bounds(3) [OF assms(1)] by (simp add: assms(2))
  then have "obicall_crc32 (xs @ bs @ ys) ?n \<noteq> obicall_crc32 (xs @ bs' @ ys) ?n"
    using assms(3-5) by (intro crc32_burst) auto
  moreover have "drop (f_pos f) (f_data f) =
      record_header_layout (entry_header e) @ (xs @ bs' @ ys) @ after"
    by (simp add: assms(6,7))
  moreover have "length (xs @ bs' @ ys) = length (observation_layout (entry_obs e))"
    by (simp add: assms(2,3))
  ultimately show ?thesis
    using read_damaged [OF assms(1), of f "xs @ bs' @ ys" "after" h0 o0]
    by (simp only: assms(2,7) not_sym)
qed

theorem journal_detects_damage_witness:
  "\<exists>bs ys. observation_layout example_observation = [0xC8] @ bs @ ys \<and>
    obicall_journal_read_record (Some (example_segment\<lparr>f_data :=
        record_header_layout (entry_header (1, 50, OBICALL_ADMIT_OK, example_observation)) @
        [0xC8] @ [7, 7] @ ys @ [1, 2, 3]\<rparr>))
      (Some (entry_header (1, 50, OBICALL_ADMIT_OK, example_observation)))
      (Some example_observation) =
    (Inl OBICALL_ERR_WIRE_CHECKSUM, Some (example_segment\<lparr>f_data :=
        record_header_layout (entry_header (1, 50, OBICALL_ADMIT_OK, example_observation)) @
        [0xC8] @ [7, 7] @ ys @ [1, 2, 3]\<rparr>))"
proof -
  let ?e = "(1, 50, OBICALL_ADMIT_OK, example_observation) :: journal_entry"
  have enc: "encodable_observation (entry_obs ?e)"
    by (simp add: encodable_observation_def wf_observation_def example_observation_def entry_obs_def)
  have "take 3 (observation_layout example_observation) = [0xC8, 1, 0]"
    by (simp add: observation_layout_def le_bytes_def example_observation_def upt_rec)
  then obtain ys where lay: "observation_layout example_observation = [0xC8] @ [1, 0] @ ys"
    by (metis append.assoc append_Cons append_Nil append_take_drop_id)
  then show ?thesis
    using journal_detects_damage [OF enc, of "[0xC8]" "[1, 0]" ys "[7, 7]"
        "example_segment\<lparr>f_data := record_header_layout (entry_header ?e) @
          [0xC8] @ [7, 7] @ ys @ [1, 2, 3]\<rparr>" "[]" "[1, 2, 3]" "entry_header ?e"
        example_observation]
    by (intro exI [of _ "[1, 0]"] exI [of _ ys])
       (simp add: entry_obs_def example_segment_def del: entry_header.simps)
qed

end
