(* ===== verification/Gate.thy ===== *)
theory Gate
  imports Wire_Data Digest Stdio
begin

text \<open>
  \<^verbatim>\<open>src/core/gate.c\<close>: the publication gate's decision logic and its durable state. The decision is
  refined to what the gate promises, an arbiter over the current owner, its epoch and one committed
  high-water mark per pipeline; the state codec meets the codec contract of the wire messages; and a
  persisted state is loaded back exactly, or its damage is reported.
\<close>

section \<open>State\<close>

abbreviation (input) OBICALL_MAX_PIPELINES :: u32 where "OBICALL_MAX_PIPELINES \<equiv> 8"

record obicall_gate_pipeline_state =
  gp_pipeline_id :: bytes
  gp_has_committed :: u32
  gp_last_committed_window_seq :: u64
  gp_last_committed_digest :: bytes

record obicall_gate_state =
  gs_struct_size :: u32
  gs_schema_version :: u32
  gs_epoch :: u64
  gs_owner_broker_id :: u32
  gs_pipeline_count :: u32
  gs_pipelines :: "obicall_gate_pipeline_state list"

abbreviation (input) sizeof_gate_state :: u32 where "sizeof_gate_state \<equiv> 664"

definition zero_pipeline_state :: obicall_gate_pipeline_state where
  "zero_pipeline_state = \<lparr>gp_pipeline_id = replicate 32 0, gp_has_committed = 0,
     gp_last_committed_window_seq = 0, gp_last_committed_digest = replicate 32 0\<rparr>"

datatype obicall_gate_publish_outcome =
    OBICALL_GATE_COMMIT
  | OBICALL_GATE_SHADOW_RECORDED
  | OBICALL_GATE_REJECT_NOT_OWNER
  | OBICALL_GATE_REJECT_STALE_EPOCH
  | OBICALL_GATE_REJECT_DUPLICATE_WINDOW
  | OBICALL_GATE_REJECT_EXPIRED
  | OBICALL_GATE_REJECT_INCOMPATIBLE
  | OBICALL_GATE_REJECT_NO_CAPACITY

section \<open>Deciding a publication\<close>

text \<open>
  The digest is over the raw little-endian fields in memory; \<open>payload_count\<close> and \<open>covariance_count\<close>
  elements are read, which stay within the arrays for every decoded result.
\<close>

definition compute_result_digest :: "obicall_result \<Rightarrow> bytes option" where
  "compute_result_digest r = do {
     let ctx = obicall_sha256_init
       \<lparr>sha_state = replicate 8 0, sha_total_len = 0, sha_buffer = replicate 64 0,
        sha_buffer_len = 0\<rparr>;
     ctx \<leftarrow> obicall_sha256_update ctx (le_bytes 4 (res_status r));
     ctx \<leftarrow> obicall_sha256_update ctx (le_bytes 4 (res_payload_count r));
     ctx \<leftarrow> obicall_sha256_update ctx
       (le_doubles (take (unat (res_payload_count r)) (res_payload r)));
     ctx \<leftarrow> obicall_sha256_update ctx (le_bytes 4 (res_covariance_count r));
     ctx \<leftarrow> obicall_sha256_update ctx
       (le_doubles (take (unat (res_covariance_count r)) (res_covariance r)));
     (ctx, out) \<leftarrow> obicall_sha256_final ctx;
     Some out }"

text \<open>The search over the slots in use; \<open>OBICALL_MAX_PIPELINES\<close> when there is no match.\<close>

definition find_pipeline :: "obicall_gate_state \<Rightarrow> bytes \<Rightarrow> u32" where
  "find_pipeline s pid =
     (case List.find (\<lambda>i. gp_pipeline_id (gs_pipelines s ! i) = pid)
             [0..<unat (gs_pipeline_count s)] of
        Some i \<Rightarrow> of_nat i | None \<Rightarrow> OBICALL_MAX_PIPELINES)"

definition claim_slot :: "obicall_gate_state \<Rightarrow> bytes \<Rightarrow> (u32 \<times> obicall_gate_state) option" where
  "claim_slot s pid =
     (let pidx = find_pipeline s pid
      in if pidx = OBICALL_MAX_PIPELINES
         then (if gs_pipeline_count s \<ge> OBICALL_MAX_PIPELINES then None
               else Some (gs_pipeline_count s,
                 s\<lparr>gs_pipeline_count := gs_pipeline_count s + 1,
                   gs_pipelines := (gs_pipelines s)[unat (gs_pipeline_count s) :=
                     zero_pipeline_state\<lparr>gp_pipeline_id := pid\<rparr>]\<rparr>))
         else Some (pidx, s))"

definition arbitrate :: "obicall_gate_state \<Rightarrow> u32 \<Rightarrow> obicall_result \<Rightarrow>
    obicall_gate_publish_outcome \<times> obicall_gate_state" where
  "arbitrate s pidx r =
     (let ps = gs_pipelines s ! unat pidx
      in if gs_owner_broker_id s = OBICALL_BROKER_NONE then (OBICALL_GATE_REJECT_NOT_OWNER, s)
         else if res_broker_id r \<noteq> gs_owner_broker_id s
         then (if res_epoch r < gs_epoch s then OBICALL_GATE_REJECT_STALE_EPOCH
               else OBICALL_GATE_SHADOW_RECORDED, s)
         else if res_epoch r \<noteq> gs_epoch s then (OBICALL_GATE_REJECT_STALE_EPOCH, s)
         else if gp_has_committed ps \<noteq> 0 \<and> res_window_seq r \<le> gp_last_committed_window_seq ps
         then (OBICALL_GATE_REJECT_DUPLICATE_WINDOW, s)
         else (OBICALL_GATE_COMMIT, s\<lparr>gs_pipelines := (gs_pipelines s)[unat pidx :=
                ps\<lparr>gp_has_committed := 1, gp_last_committed_window_seq := res_window_seq r,
                   gp_last_committed_digest := the (compute_result_digest r)\<rparr>]\<rparr>))"

definition obicall_gate_decide_publish ::
  "obicall_gate_state option \<Rightarrow> obicall_result option \<Rightarrow> i64 \<Rightarrow> u32 option \<Rightarrow>
   obicall_gate_publish_outcome \<times> obicall_gate_state option \<times> u32 option" where
  "obicall_gate_decide_publish state result now_ns out_pipeline_index =
     (case (state, result) of
        (Some s, Some r) \<Rightarrow>
          if res_struct_size r \<noteq> sizeof_result \<or> res_schema_version r \<noteq> OBICALL_RESULT_SCHEMA_VERSION
          then (OBICALL_GATE_REJECT_INCOMPATIBLE, Some s, out_pipeline_index)
          else if sint (res_valid_until_ns r) \<le> sint now_ns
          then (OBICALL_GATE_REJECT_EXPIRED, Some s, out_pipeline_index)
          else
            (case claim_slot s (res_pipeline_id r) of
               None \<Rightarrow> (OBICALL_GATE_REJECT_NO_CAPACITY, Some s, out_pipeline_index)
             | Some (pidx, s) \<Rightarrow>
                 (case arbitrate s pidx r of (outcome, s) \<Rightarrow>
                    (outcome, Some s, map_option (\<lambda>_. pidx) out_pipeline_index)))
      | _ \<Rightarrow> (OBICALL_GATE_REJECT_INCOMPATIBLE, state, out_pipeline_index))"

section \<open>Readiness, promotion and replica comparison\<close>

record obicall_gate_readiness =
  rd_healthy :: u32
  rd_config_digest :: bytes
  rd_checkpoint_schema_version :: u32
  rd_last_processed_window_seq :: u64

record obicall_gate_promotion_requirements =
  rp_required_config_digest :: bytes
  rp_required_checkpoint_schema_version :: u32
  rp_max_allowed_replay_gap :: u64

definition obicall_gate_shadow_promotable ::
  "obicall_gate_readiness option \<Rightarrow> obicall_gate_promotion_requirements option \<Rightarrow> u64 \<Rightarrow> bool" where
  "obicall_gate_shadow_promotable shadow_readiness requirements committed_high_water_window_seq =
     (case (shadow_readiness, requirements) of
        (Some rd, Some rp) \<Rightarrow>
          if rd_healthy rd = 0 then False
          else if rd_config_digest rd \<noteq> rp_required_config_digest rp then False
          else if rd_checkpoint_schema_version rd \<noteq> rp_required_checkpoint_schema_version rp
          then False
          else if rd_last_processed_window_seq rd + rp_max_allowed_replay_gap rp <
                  committed_high_water_window_seq
          then False
          else True
      | _ \<Rightarrow> False)"

definition obicall_gate_promote ::
  "obicall_gate_state option \<Rightarrow> u32 \<Rightarrow> i64 \<Rightarrow> u64 option \<Rightarrow>
   (obicall_gate_state \<times> u64) res" where
  "obicall_gate_promote state new_owner_broker_id now_ns out_new_epoch =
     (case (state, out_new_epoch) of
        (Some s, Some _) \<Rightarrow>
          (let new_epoch = gs_epoch s + 1;
               s = s\<lparr>gs_owner_broker_id := OBICALL_BROKER_NONE\<rparr>;
               s = s\<lparr>gs_epoch := new_epoch\<rparr>;
               s = s\<lparr>gs_owner_broker_id := new_owner_broker_id\<rparr>
           in Inr (s, new_epoch))
      | _ \<Rightarrow> Inl OBICALL_ERR_NULL_POINTER)"

definition covariance_deviates :: "double \<Rightarrow> double \<Rightarrow> double \<Rightarrow> bool" where
  "covariance_deviates tol av bv =
     (let denom = (if \<bar>av\<bar> > \<bar>bv\<bar> then \<bar>av\<bar> else \<bar>bv\<bar>);
          rel = (if denom > 0 then divide \<bar>av - bv\<bar> denom else 0)
      in rel > tol)"

definition obicall_gate_results_agree ::
  "obicall_result option \<Rightarrow> obicall_result option \<Rightarrow> double \<Rightarrow> double \<Rightarrow> bool" where
  "obicall_gate_results_agree a b position_tolerance covariance_rel_tolerance =
     (case (a, b) of
        (Some a, Some b) \<Rightarrow>
          if res_payload_count a \<noteq> res_payload_count b \<or>
             res_covariance_count a \<noteq> res_covariance_count b then False
          else if list_ex (\<lambda>i. \<bar>res_payload a ! i - res_payload b ! i\<bar> > position_tolerance)
                    [0..<unat (res_payload_count a)] then False
          else if list_ex (\<lambda>i. covariance_deviates covariance_rel_tolerance
                      (res_covariance a ! i) (res_covariance b ! i))
                    [0..<unat (res_covariance_count a)] then False
          else True
      | _ \<Rightarrow> False)"

section \<open>State codec\<close>

definition put_pipeline_state :: "obicall_gate_pipeline_state \<Rightarrow> (wcursor, unit) state" where
  "put_pipeline_state p = do {
     wc_fixed (gp_pipeline_id p) OBICALL_PIPELINE_ID_LEN;
     wc_u32 (gp_has_committed p);
     wc_u64 (gp_last_committed_window_seq p);
     wc_bytes (gp_last_committed_digest p) OBICALL_DIGEST_LEN }"

definition put_gate_state :: "obicall_gate_state \<Rightarrow> (wcursor, unit) state" where
  "put_gate_state s = do {
     wc_u32 (gs_struct_size s);
     wc_u32 (gs_schema_version s);
     wc_u64 (gs_epoch s);
     wc_u32 (gs_owner_broker_id s);
     wc_u32 (gs_pipeline_count s);
     wc_each put_pipeline_state (take (unat (gs_pipeline_count s)) (gs_pipelines s)) }"

definition obicall_gate_encode_state ::
  "obicall_gate_state option \<Rightarrow> bytes option \<Rightarrow> u32 \<Rightarrow> u32 option \<Rightarrow> (bytes \<times> u32) res" where
  "obicall_gate_encode_state state out out_cap out_len =
     (case (state, out, out_len) of
        (Some s, Some out, Some _) \<Rightarrow>
          if gs_pipeline_count s > OBICALL_MAX_PIPELINES then Inl OBICALL_ERR_INVALID_ARGUMENT
          else wc_run (put_gate_state s) out out_cap
      | _ \<Rightarrow> Inl OBICALL_ERR_NULL_POINTER)"

definition get_pipeline_state :: "(rcursor, obicall_gate_pipeline_state) state" where
  "get_pipeline_state = do {
     pipeline_id \<leftarrow> rc_fixed (replicate 32 0) OBICALL_PIPELINE_ID_LEN;
     has_committed \<leftarrow> rc_u32;
     last_committed_window_seq \<leftarrow> rc_u64;
     last_committed_digest \<leftarrow> rc_bytes (replicate 32 0) OBICALL_DIGEST_LEN;
     State_Monad.return \<lparr>gp_pipeline_id = pipeline_id, gp_has_committed = has_committed,
       gp_last_committed_window_seq = last_committed_window_seq,
       gp_last_committed_digest = last_committed_digest\<rparr> }"

definition get_gate_state :: "(rcursor, obicall_gate_state res) state" where
  "get_gate_state = do {
     struct_size \<leftarrow> rc_u32;
     schema_version \<leftarrow> rc_u32;
     epoch \<leftarrow> rc_u64;
     owner_broker_id \<leftarrow> rc_u32;
     pipeline_count \<leftarrow> rc_u32;
     rc_guard (pipeline_count > OBICALL_MAX_PIPELINES) (do {
       pipelines \<leftarrow> rc_each (unat pipeline_count) get_pipeline_state;
       rc_end \<lparr>gs_struct_size = sizeof_gate_state, gs_schema_version = schema_version,
         gs_epoch = epoch, gs_owner_broker_id = owner_broker_id,
         gs_pipeline_count = pipeline_count,
         gs_pipelines = memcpy (replicate 8 zero_pipeline_state) 0 pipelines\<rparr> }) }"

definition obicall_gate_decode_state ::
  "bytes option \<Rightarrow> u32 \<Rightarrow> obicall_gate_state option \<Rightarrow> obicall_gate_state res" where
  "obicall_gate_decode_state = wire_decode get_gate_state"

section \<open>Durable state\<close>

abbreviation (input) OBICALL_GATE_PERSIST_MAGIC :: u32 where "OBICALL_GATE_PERSIST_MAGIC \<equiv> 0x4F424754"
abbreviation (input) OBICALL_GATE_PERSIST_HEADER_LEN :: u32 where "OBICALL_GATE_PERSIST_HEADER_LEN \<equiv> 16"
abbreviation (input) OBICALL_GATE_PERSIST_MAX_PAYLOAD :: u32 where
  "OBICALL_GATE_PERSIST_MAX_PAYLOAD \<equiv> 8192"

definition put_persist_header :: "u32 \<Rightarrow> u32 \<Rightarrow> (wcursor, unit) state" where
  "put_persist_header payload_len crc = do {
     wc_u32 OBICALL_GATE_PERSIST_MAGIC;
     wc_u32 payload_len;
     wc_u32 crc;
     wc_u32 0 }"

definition obicall_gate_persist_state ::
  "FILE option \<Rightarrow> obicall_gate_state option \<Rightarrow> obicall_status \<times> FILE option" where
  "obicall_gate_persist_state f state =
     (case (f, state) of
        (Some f, Some s) \<Rightarrow>
          (case obicall_gate_encode_state (Some s) (Some (replicate 8192 0))
                  OBICALL_GATE_PERSIST_MAX_PAYLOAD (Some 0) of
             Inl st \<Rightarrow> (st, Some f)
           | Inr (payload, payload_len) \<Rightarrow>
               (let crc = obicall_crc32 payload payload_len;
                    c = snd (run_state (put_persist_header payload_len crc)
                      \<lparr>wc_p = replicate 16 0, wc_cap = OBICALL_GATE_PERSIST_HEADER_LEN, wc_off = 0,
                       wc_ok = True\<rparr>)
                in if \<not> wc_ok c then (OBICALL_ERR_INTERNAL, Some f)
                   else
                     (case fwrite (wc_p c) f of (n, f) \<Rightarrow>
                        if n \<noteq> 16 then (OBICALL_ERR_GATE_PERSISTENCE, Some f)
                        else
                          (case (if payload_len > 0 then fwrite (take (unat payload_len) payload) f
                                 else (0, f)) of (n, f) \<Rightarrow>
                             if n \<noteq> unat payload_len then (OBICALL_ERR_GATE_PERSISTENCE, Some f)
                             else if \<not> fflush f then (OBICALL_ERR_GATE_PERSISTENCE, Some f)
                             else if \<not> durable_sync f then (OBICALL_ERR_GATE_PERSISTENCE, Some f)
                             else (OBICALL_OK, Some f)))))
      | _ \<Rightarrow> (OBICALL_ERR_NULL_POINTER, f))"

definition get_persist_header :: "(rcursor, (u32 \<times> u32) res) state" where
  "get_persist_header = do {
     magic \<leftarrow> rc_u32;
     payload_len \<leftarrow> rc_u32;
     crc \<leftarrow> rc_u32;
     reserved \<leftarrow> rc_u32;
     rc_guard (magic \<noteq> OBICALL_GATE_PERSIST_MAGIC \<or> payload_len > OBICALL_GATE_PERSIST_MAX_PAYLOAD)
       (State_Monad.return (Inr (payload_len, crc))) }"

definition obicall_gate_load_state ::
  "FILE option \<Rightarrow> obicall_gate_state option \<Rightarrow> obicall_gate_state res \<times> FILE option" where
  "obicall_gate_load_state f out =
     (case (f, out) of
        (Some f, Some _) \<Rightarrow>
          (case fread 16 f of (hdr, f) \<Rightarrow>
             if length hdr \<noteq> 16 then (Inl OBICALL_ERR_WIRE_MALFORMED, Some f)
             else
               (case rc_run get_persist_header hdr OBICALL_GATE_PERSIST_HEADER_LEN of
                  Inl st \<Rightarrow> (Inl st, Some f)
                | Inr (payload_len, crc) \<Rightarrow>
                    (case fread (unat payload_len) f of (payload, f) \<Rightarrow>
                       if length payload \<noteq> unat payload_len
                       then (Inl OBICALL_ERR_WIRE_MALFORMED, Some f)
                       else if obicall_crc32 payload payload_len \<noteq> crc
                       then (Inl OBICALL_ERR_WIRE_CHECKSUM, Some f)
                       else (obicall_gate_decode_state (Some payload) payload_len out, Some f))))
      | _ \<Rightarrow> (Inl OBICALL_ERR_NULL_POINTER, f))"

section \<open>Laws of the decision\<close>

lemma result_digest_total:
  "compute_result_digest r = Some (sha256_spec (le_bytes 4 (res_status r) @
     le_bytes 4 (res_payload_count r) @ le_doubles (take (unat (res_payload_count r)) (res_payload r)) @
     le_bytes 4 (res_covariance_count r) @
     le_doubles (take (unat (res_covariance_count r)) (res_covariance r))))"
proof -
  define ctx where "ctx = obicall_sha256_init \<lparr>sha_state = replicate 8 0, sha_total_len = 0,
    sha_buffer = replicate 64 0, sha_buffer_len = 0\<rparr>"
  have "absorbed ctx []" by (simp add: absorbed_init ctx_def)
  from sha256_update_all_absorbs [OF this, of "[le_bytes 4 (res_status r),
      le_bytes 4 (res_payload_count r),
      le_doubles (take (unat (res_payload_count r)) (res_payload r)),
      le_bytes 4 (res_covariance_count r),
      le_doubles (take (unat (res_covariance_count r)) (res_covariance r))]"]
  obtain ctx' where "sha256_update_all ctx [le_bytes 4 (res_status r),
      le_bytes 4 (res_payload_count r),
      le_doubles (take (unat (res_payload_count r)) (res_payload r)),
      le_bytes 4 (res_covariance_count r),
      le_doubles (take (unat (res_covariance_count r)) (res_covariance r))] = Some ctx'"
    and "absorbed ctx' (le_bytes 4 (res_status r) @ le_bytes 4 (res_payload_count r) @
      le_doubles (take (unat (res_payload_count r)) (res_payload r)) @
      le_bytes 4 (res_covariance_count r) @
      le_doubles (take (unat (res_covariance_count r)) (res_covariance r)))"
    by auto
  then show ?thesis
    using sha256_final_absorbed
    by (fastforce simp: compute_result_digest_def Let_def split: bind_splits simp flip: ctx_def)
qed

lemma result_digest_length: "length (the (compute_result_digest r)) = 32"
  by (simp add: result_digest_total length_sha256_spec)

text \<open>The array shapes of the C type, and the count that every operation maintains.\<close>

definition wf_pipeline_state :: "obicall_gate_pipeline_state \<Rightarrow> bool" where
  "wf_pipeline_state p \<longleftrightarrow> length (gp_pipeline_id p) = 32 \<and> length (gp_last_committed_digest p) = 32"

definition wf_gate_state :: "obicall_gate_state \<Rightarrow> bool" where
  "wf_gate_state s \<longleftrightarrow> length (gs_pipelines s) = 8 \<and> list_all wf_pipeline_state (gs_pipelines s) \<and>
     gs_pipeline_count s \<le> OBICALL_MAX_PIPELINES"

lemma wf_gate_stateD:
  assumes "wf_gate_state s"
  shows "length (gs_pipelines s) = 8" and "unat (gs_pipeline_count s) \<le> 8"
    and "p \<in> set (gs_pipelines s) \<Longrightarrow> wf_pipeline_state p"
  using assms by (auto simp: wf_gate_state_def word_le_nat_alt list_all_iff)

lemma find_pipeline_cases:
  assumes "wf_gate_state s"
  obtains (found) i where "find_pipeline s pid = of_nat i" "i < unat (gs_pipeline_count s)" "i < 8"
      "gp_pipeline_id (gs_pipelines s ! i) = pid"
  | (absent) "find_pipeline s pid = 8"
      "\<forall>i < unat (gs_pipeline_count s). gp_pipeline_id (gs_pipelines s ! i) \<noteq> pid"
proof (cases "List.find (\<lambda>i. gp_pipeline_id (gs_pipelines s ! i) = pid) [0..<unat (gs_pipeline_count s)]")
  case None
  then have "find_pipeline s pid = 8" by (simp add: find_pipeline_def)
  moreover have "\<forall>i < unat (gs_pipeline_count s). gp_pipeline_id (gs_pipelines s ! i) \<noteq> pid"
    using None by (simp add: find_upt_None)
  ultimately show thesis by (rule absent)
next
  case (Some i)
  then show thesis
    using found [of i] find_upt_Some [OF Some] wf_gate_stateD(2) [OF assms]
    by (simp add: find_pipeline_def)
qed

lemma small_index: "i < 8 \<Longrightarrow> (of_nat i :: u32) \<noteq> 8 \<and> unat (of_nat i :: u32) = i"
  by (simp add: word_unat_eq_iff unat_of_nat)

text \<open>The high-water mark of a pipeline: the last committed window, if there is one.\<close>

definition high_water :: "obicall_gate_state \<Rightarrow> bytes \<Rightarrow> u64 option" where
  "high_water s pid =
     (let i = find_pipeline s pid; p = gs_pipelines s ! unat i
      in if i = OBICALL_MAX_PIPELINES \<or> gp_has_committed p = 0 then None
         else Some (gp_last_committed_window_seq p))"

definition has_room :: "obicall_gate_state \<Rightarrow> bytes \<Rightarrow> bool" where
  "has_room s pid \<longleftrightarrow> find_pipeline s pid \<noteq> OBICALL_MAX_PIPELINES \<or>
     gs_pipeline_count s < OBICALL_MAX_PIPELINES"

lemma claim_slot_None: "claim_slot s pid = None \<longleftrightarrow> \<not> has_room s pid"
  by (auto simp: claim_slot_def has_room_def Let_def not_less)

lemma find_pipeline_update:
  assumes "gp_pipeline_id p = gp_pipeline_id (gs_pipelines s ! i)"
  shows "find_pipeline (s\<lparr>gs_pipelines := (gs_pipelines s)[i := p]\<rparr>) pid = find_pipeline s pid"
proof -
  have "gp_pipeline_id ((gs_pipelines s)[i := p] ! j) = gp_pipeline_id (gs_pipelines s ! j)" for j
    using assms by (cases "i < length (gs_pipelines s)"; cases "i = j")
      (simp_all add: list_update_beyond)
  then show ?thesis by (simp add: find_pipeline_def)
qed

lemma find_pipeline_fresh:
  assumes wf: "wf_gate_state s" and absent: "find_pipeline s pid = 8"
    and room: "gs_pipeline_count s < 8"
  shows "find_pipeline (s\<lparr>gs_pipeline_count := gs_pipeline_count s + 1,
      gs_pipelines := (gs_pipelines s)[unat (gs_pipeline_count s) :=
        zero_pipeline_state\<lparr>gp_pipeline_id := pid\<rparr>]\<rparr>) pid' =
    (if pid' = pid then gs_pipeline_count s else find_pipeline s pid')"
proof -
  let ?n = "unat (gs_pipeline_count s)"
  let ?ps = "(gs_pipelines s)[?n := zero_pipeline_state\<lparr>gp_pipeline_id := pid\<rparr>]"
  have n: "?n < 8" using room by (simp add: word_less_nat_alt)
  then have n1: "unat (gs_pipeline_count s + 1) = Suc ?n"
    by (simp add: unat_word_ariths)
  have old: "?ps ! i = gs_pipelines s ! i" if "i < ?n" for i using that by simp
  have new: "gp_pipeline_id (?ps ! ?n) = pid" using n wf_gate_stateD(1) [OF wf] by simp
  define P where "P = (\<lambda>i. gp_pipeline_id (?ps ! i) = pid')"
  have f: "List.find P [0..<?n] =
      List.find (\<lambda>i. gp_pipeline_id (gs_pipelines s ! i) = pid') [0..<?n]"
    unfolding P_def by (rule find_cong) (simp_all add: old)
  have "\<forall>i < ?n. gp_pipeline_id (gs_pipelines s ! i) \<noteq> pid"
    using absent small_index by (cases rule: find_pipeline_cases [OF wf, of pid]) auto
  then have none: "List.find P [0..<?n] = None" if "pid' = pid"
    using that by (simp add: f find_upt_None)
  have n': "P ?n \<longleftrightarrow> pid' = pid" using new by (auto simp: P_def)
  have "find_pipeline (s\<lparr>gs_pipeline_count := gs_pipeline_count s + 1, gs_pipelines := ?ps\<rparr>) pid' =
      (case List.find P ([0..<?n] @ [?n]) of Some i \<Rightarrow> of_nat i | None \<Rightarrow> 8)"
    by (simp add: find_pipeline_def n1 P_def)
  also have "\<dots> = (if pid' = pid then gs_pipeline_count s else find_pipeline s pid')"
    using none n' by (simp add: find_snoc find_pipeline_def f split: option.split)
  finally show ?thesis .
qed

lemma claim_slot_Some:
  assumes wf: "wf_gate_state s" and pid: "length pid = 32"
    and c: "claim_slot s pid = Some (i, s')"
  shows "wf_gate_state s'" and "gs_epoch s' = gs_epoch s"
    and "gs_owner_broker_id s' = gs_owner_broker_id s" and "find_pipeline s' pid = i" and "i < 8"
    and "high_water s' pid' = high_water s pid'"
proof -
  consider (old) "i = find_pipeline s pid" "s' = s" "find_pipeline s pid \<noteq> 8"
    | (new) "find_pipeline s pid = 8" "gs_pipeline_count s < 8" "i = gs_pipeline_count s"
      "s' = s\<lparr>gs_pipeline_count := gs_pipeline_count s + 1,
         gs_pipelines := (gs_pipelines s)[unat (gs_pipeline_count s) :=
           zero_pipeline_state\<lparr>gp_pipeline_id := pid\<rparr>]\<rparr>"
    using c unfolding claim_slot_def Let_def not_le
    by (metis (no_types, lifting) not_less option.discI option.inject prod.inject)
  then have "wf_gate_state s' \<and> gs_epoch s' = gs_epoch s \<and>
    gs_owner_broker_id s' = gs_owner_broker_id s \<and> find_pipeline s' pid = i \<and> i < 8 \<and>
    high_water s' pid' = high_water s pid'"
  proof cases
    case old
    have "find_pipeline s pid < 8"
      using old(3) by (cases rule: find_pipeline_cases [OF wf, of pid])
        (auto simp: word_less_nat_alt small_index)
    with old wf show ?thesis by simp
  next
    case new
    note fresh = find_pipeline_fresh [OF wf new(1,2)]
    have n: "unat (gs_pipeline_count s) < 8" using new(2) by (simp add: word_less_nat_alt)
    have wf': "wf_gate_state s'"
      using wf pid new(2) unfolding new(4) wf_gate_state_def
      by (auto simp: list_all_iff wf_pipeline_state_def zero_pipeline_state_def word_le_nat_alt
          word_less_nat_alt unat_word_ariths dest!: set_update_subset_insert [THEN subsetD])
    have "high_water s' pid' = high_water s pid'"
    proof (cases "pid' = pid")
      case True
      then show ?thesis
        using new(1) n wf_gate_stateD(1) [OF wf] unfolding new(4) high_water_def fresh
        by (simp add: zero_pipeline_state_def)
    next
      case False
      then show ?thesis
        unfolding new(4) high_water_def fresh
        by (cases rule: find_pipeline_cases [OF wf, of pid'])
           (auto simp: small_index Let_def nth_list_update)
    qed
    then show ?thesis using wf' new fresh [of pid] by simp
  qed
  then show "wf_gate_state s'" "gs_epoch s' = gs_epoch s"
    "gs_owner_broker_id s' = gs_owner_broker_id s" "find_pipeline s' pid = i" "i < 8"
    "high_water s' pid' = high_water s pid'" by simp_all
qed

subsection \<open>The abstract arbiter\<close>

text \<open>
  What the gate promises its brokers: an owner, the epoch of its grant, and for each pipeline the last
  committed window. The slots, their order and the stored digests are not part of the promise.
\<close>

record arbiter =
  ar_epoch :: u64
  ar_owner :: u32
  ar_committed :: "bytes \<Rightarrow> u64 option"

definition abs_gate :: "obicall_gate_state \<Rightarrow> arbiter" where
  "abs_gate s = \<lparr>ar_epoch = gs_epoch s, ar_owner = gs_owner_broker_id s, ar_committed = high_water s\<rparr>"

definition arbiter_publish :: "bool \<Rightarrow> i64 \<Rightarrow> obicall_result \<Rightarrow> arbiter \<Rightarrow>
    obicall_gate_publish_outcome \<times> arbiter" where
  "arbiter_publish room now r a =
     (if res_struct_size r \<noteq> sizeof_result \<or> res_schema_version r \<noteq> OBICALL_RESULT_SCHEMA_VERSION
      then (OBICALL_GATE_REJECT_INCOMPATIBLE, a)
      else if sint (res_valid_until_ns r) \<le> sint now then (OBICALL_GATE_REJECT_EXPIRED, a)
      else if \<not> room then (OBICALL_GATE_REJECT_NO_CAPACITY, a)
      else if ar_owner a = OBICALL_BROKER_NONE then (OBICALL_GATE_REJECT_NOT_OWNER, a)
      else if res_broker_id r \<noteq> ar_owner a \<and> ar_epoch a \<le> res_epoch r
      then (OBICALL_GATE_SHADOW_RECORDED, a)
      else if res_broker_id r \<noteq> ar_owner a \<or> res_epoch r \<noteq> ar_epoch a
      then (OBICALL_GATE_REJECT_STALE_EPOCH, a)
      else if (case ar_committed a (res_pipeline_id r) of None \<Rightarrow> False
               | Some w \<Rightarrow> res_window_seq r \<le> w)
      then (OBICALL_GATE_REJECT_DUPLICATE_WINDOW, a)
      else (OBICALL_GATE_COMMIT,
            a\<lparr>ar_committed := (ar_committed a)(res_pipeline_id r \<mapsto> res_window_seq r)\<rparr>))"

lemma high_water_slot:
  assumes "find_pipeline s pid = i" and "i < 8"
  shows "high_water s pid = (if gp_has_committed (gs_pipelines s ! unat i) = 0 then None
    else Some (gp_last_committed_window_seq (gs_pipelines s ! unat i)))"
  using assms by (auto simp: high_water_def Let_def)

text \<open>Committing in a pipeline's own slot moves its mark and nothing else.\<close>

lemma high_water_commit:
  assumes wf: "wf_gate_state s" and i: "find_pipeline s pid = i" "i < 8"
    and p: "gp_pipeline_id p = gp_pipeline_id (gs_pipelines s ! unat i)" "gp_has_committed p \<noteq> 0"
  shows "high_water (s\<lparr>gs_pipelines := (gs_pipelines s)[unat i := p]\<rparr>) =
    (high_water s)(pid \<mapsto> gp_last_committed_window_seq p)"
proof
  fix pid'
  let ?s = "s\<lparr>gs_pipelines := (gs_pipelines s)[unat i := p]\<rparr>"
  have find: "find_pipeline ?s x = find_pipeline s x" for x using p(1) by (rule find_pipeline_update)
  have len: "unat i < length (gs_pipelines s)"
    using i(2) wf_gate_stateD(1) [OF wf] by (simp add: word_less_nat_alt)
  have own: "gp_pipeline_id (gs_pipelines s ! unat (find_pipeline s x)) = x"
    if "find_pipeline s x \<noteq> 8" for x
    using that by (cases rule: find_pipeline_cases [OF wf, of x]) (auto simp: small_index)
  show "high_water ?s pid' = ((high_water s)(pid \<mapsto> gp_last_committed_window_seq p)) pid'"
  proof (cases "pid' = pid")
    case True
    then show ?thesis
      using len i p(2) by (simp add: high_water_slot [of ?s pid i] find)
  next
    case False
    have "find_pipeline s pid \<noteq> 8" using i by auto
    then have "find_pipeline s pid' \<noteq> 8 \<Longrightarrow> unat (find_pipeline s pid') \<noteq> unat i"
      using own [of pid'] own [of pid] i(1) False by auto
    then show ?thesis using False by (auto simp: high_water_def find Let_def)
  qed
qed

lemma wf_gate_state_update:
  "wf_gate_state s \<Longrightarrow> wf_pipeline_state p \<Longrightarrow>
     wf_gate_state (s\<lparr>gs_pipelines := (gs_pipelines s)[i := p]\<rparr>)"
  unfolding wf_gate_state_def
  by (auto simp: list_all_iff dest!: set_update_subset_insert [THEN subsetD])

lemma arbitrate_refines:
  assumes wf: "wf_gate_state s" and i: "find_pipeline s (res_pipeline_id r) = i" "i < 8"
    and compat: "res_struct_size r = 768" "res_schema_version r = 1"
      "sint now < sint (res_valid_until_ns r)"
  shows "arbiter_publish True now r (abs_gate s) =
      (fst (arbitrate s i r), abs_gate (snd (arbitrate s i r))) \<and>
    wf_gate_state (snd (arbitrate s i r))"
proof -
  let ?ps = "gs_pipelines s ! unat i"
  let ?p = "?ps\<lparr>gp_has_committed := 1, gp_last_committed_window_seq := res_window_seq r,
    gp_last_committed_digest := the (compute_result_digest r)\<rparr>"
  have "unat i < length (gs_pipelines s)"
    using i(2) wf_gate_stateD(1) [OF wf] by (simp add: word_less_nat_alt)
  then have "wf_pipeline_state ?ps" using wf_gate_stateD(3) [OF wf] by simp
  then have wf': "wf_gate_state (s\<lparr>gs_pipelines := (gs_pipelines s)[unat i := ?p]\<rparr>)"
    using wf by (intro wf_gate_state_update) (simp_all add: wf_pipeline_state_def result_digest_length)
  have hw: "high_water (s\<lparr>gs_pipelines := (gs_pipelines s)[unat i := ?p]\<rparr>) =
      (high_water s)(res_pipeline_id r \<mapsto> res_window_seq r)"
    by (subst high_water_commit [OF wf i]) simp_all
  show ?thesis
    using compat wf wf'
    by (auto simp: arbiter_publish_def arbitrate_def abs_gate_def Let_def hw high_water_slot [OF i]
        split: if_splits)
qed

lemma decide_publish_refines:
  assumes wf: "wf_gate_state s" and pid: "length (res_pipeline_id r) = 32"
    and d: "obicall_gate_decide_publish (Some s) (Some r) now idx = (outcome, s1, idx1)"
  shows "\<exists>s'. s1 = Some s' \<and> wf_gate_state s' \<and>
    arbiter_publish (has_room s (res_pipeline_id r)) now r (abs_gate s) = (outcome, abs_gate s')"
proof (cases "res_struct_size r = 768 \<and> res_schema_version r = 1 \<and>
    sint now < sint (res_valid_until_ns r)")
  case False
  then show ?thesis
    using d wf by (auto simp: obicall_gate_decide_publish_def arbiter_publish_def split: if_splits)
next
  case compat: True
  show ?thesis
  proof (cases "claim_slot s (res_pipeline_id r)")
    case None
    then have "\<not> has_room s (res_pipeline_id r)" by (simp add: claim_slot_None)
    then show ?thesis
      using d wf compat None by (auto simp: obicall_gate_decide_publish_def arbiter_publish_def)
  next
    case (Some x)
    then obtain i s2 where c: "claim_slot s (res_pipeline_id r) = Some (i, s2)"
      by (cases x) auto
    note slot = claim_slot_Some [OF wf pid c]
    have eq: "abs_gate s2 = abs_gate s" using slot by (simp add: abs_gate_def fun_eq_iff)
    have "has_room s (res_pipeline_id r)" using c claim_slot_None [of s "res_pipeline_id r"] by auto
    then show ?thesis
      using d compat arbitrate_refines [OF slot(1,4,5), where now = now]
      by (auto simp: obicall_gate_decide_publish_def c eq case_prod_unfold)
  qed
qed

text \<open>
  C12: the gate's publication decision is the abstract arbiter's. For every well-formed state, result and
  clock value the outcome is the one the arbiter gives (the rejection reasons included), the owner, the
  epoch and every pipeline's committed window afterwards are the arbiter's, and the state stays
  well-formed.
\<close>

theorem gate_publish_refines_arbiter:
  assumes "wf_gate_state s" and "length (res_pipeline_id r) = 32"
  shows "case obicall_gate_decide_publish (Some s) (Some r) now idx of (outcome, s1, _) \<Rightarrow>
    \<exists>s'. s1 = Some s' \<and> wf_gate_state s' \<and>
      arbiter_publish (has_room s (res_pipeline_id r)) now r (abs_gate s) = (outcome, abs_gate s')"
  using decide_publish_refines [OF assms] by (auto split: prod.split)

definition example_gate_state :: obicall_gate_state where
  "example_gate_state = \<lparr>gs_struct_size = 664, gs_schema_version = 1, gs_epoch = 1,
     gs_owner_broker_id = 1, gs_pipeline_count = 1,
     gs_pipelines = (zero_pipeline_state\<lparr>gp_pipeline_id := 0x70 # replicate 31 0,
       gp_has_committed := 1, gp_last_committed_window_seq := 8\<rparr>) # replicate 7 zero_pipeline_state\<rparr>"

definition example_gate_result :: obicall_result where
  "example_gate_result = \<lparr>res_struct_size = 768, res_schema_version = 1,
     res_pipeline_id = 0x70 # replicate 31 0, res_window_seq = 9, res_broker_id = 1, res_epoch = 1,
     res_status = 2, res_payload_shape = 2, res_payload_count = 2,
     res_payload = replicate 6 (Double 0), res_covariance_count = 4,
     res_covariance = replicate 36 (Double 0), res_input_digest = replicate 32 0,
     res_config_digest = replicate 32 0, res_timestamp_ns = 100, res_valid_until_ns = 600,
     res_source_count = 1, res_sources = replicate 8 (replicate 32 0), res_dgt_action_id = 1\<rparr>"

lemma example_gate_state_wf: "wf_gate_state example_gate_state"
  by (simp add: wf_gate_state_def example_gate_state_def wf_pipeline_state_def
      zero_pipeline_state_def)

theorem gate_publish_refines_arbiter_witness:
  "case obicall_gate_decide_publish (Some example_gate_state) (Some example_gate_result) 100 (Some 0)
     of (outcome, s1, _) \<Rightarrow> \<exists>s'. s1 = Some s' \<and> wf_gate_state s' \<and>
       arbiter_publish (has_room example_gate_state (res_pipeline_id example_gate_result)) 100
         example_gate_result (abs_gate example_gate_state) = (outcome, abs_gate s')"
  using example_gate_state_wf
  by (intro gate_publish_refines_arbiter) (simp_all add: example_gate_result_def)

text \<open>
  C18: a result is committed exactly when it is compatible, unexpired, from the current owner under the
  current epoch, has a slot, and is newer than everything committed for its pipeline; so a revoked
  owner, a shadow, a stale epoch or a repeated window never commits. A commit makes the result's window
  the pipeline's mark and leaves the other pipelines, the owner and the epoch alone, and every other
  outcome leaves all of them alone.
\<close>

theorem gate_commit_iff:
  assumes "wf_gate_state s" and "length (res_pipeline_id r) = 32"
  shows "case obicall_gate_decide_publish (Some s) (Some r) now idx of (outcome, s1, _) \<Rightarrow>
    (outcome = OBICALL_GATE_COMMIT \<longleftrightarrow>
       res_struct_size r = sizeof_result \<and> res_schema_version r = OBICALL_RESULT_SCHEMA_VERSION \<and>
       sint now < sint (res_valid_until_ns r) \<and> has_room s (res_pipeline_id r) \<and>
       gs_owner_broker_id s \<noteq> OBICALL_BROKER_NONE \<and> res_broker_id r = gs_owner_broker_id s \<and>
       res_epoch r = gs_epoch s \<and>
       (case high_water s (res_pipeline_id r) of None \<Rightarrow> True | Some w \<Rightarrow> w < res_window_seq r)) \<and>
    high_water (the s1) = (if outcome = OBICALL_GATE_COMMIT
       then (high_water s)(res_pipeline_id r \<mapsto> res_window_seq r) else high_water s) \<and>
    gs_epoch (the s1) = gs_epoch s \<and> gs_owner_broker_id (the s1) = gs_owner_broker_id s"
proof -
  obtain outcome s1 idx1 where d:
    "obicall_gate_decide_publish (Some s) (Some r) now idx = (outcome, s1, idx1)"
    by (metis prod_cases3)
  obtain s' where s': "s1 = Some s'" and
    a: "arbiter_publish (has_room s (res_pipeline_id r)) now r (abs_gate s) = (outcome, abs_gate s')"
    using decide_publish_refines [OF assms d] by blast
  show ?thesis
    unfolding d s' prod.case option.sel
    using a by (auto simp: arbiter_publish_def abs_gate_def not_le split: if_splits option.splits)
qed

theorem gate_commit_iff_witness:
  "fst (obicall_gate_decide_publish (Some example_gate_state) (Some example_gate_result) 100 (Some 0)) =
     OBICALL_GATE_COMMIT"
proof -
  have "find_pipeline example_gate_state (0x70 # replicate 31 0) = 0"
    by (simp add: find_pipeline_def example_gate_state_def)
  then show ?thesis
    using gate_commit_iff [OF example_gate_state_wf, of example_gate_result 100 "Some 0"]
    by (auto simp: case_prod_unfold has_room_def high_water_def Let_def)
       (simp_all add: example_gate_result_def example_gate_state_def)
qed

section \<open>Replica comparison\<close>

lemma covariance_deviates_commute:
  assumes "\<not> tol < 0"
  shows "covariance_deviates tol av bv = covariance_deviates tol bv av"
proof (cases "isnan av \<or> isnan bv")
  case True
  then have "\<not> covariance_deviates tol a b" if "{a, b} = {av, bv}" for a b
    using that assms not_less_nan(1) [OF isnan_divide, of "\<bar>a - b\<bar>"] isnan_minus [of a b]
    by (auto simp: covariance_deviates_def Let_def doubleton_eq_iff)
  then show ?thesis by (metis insert_commute)
next
  case False
  consider "\<bar>bv\<bar> < \<bar>av\<bar>" | "\<bar>av\<bar> < \<bar>bv\<bar>" | "\<not> \<bar>bv\<bar> < \<bar>av\<bar>" "\<not> \<bar>av\<bar> < \<bar>bv\<bar>" by blast
  then show ?thesis
  proof cases
    case 3
    then have "\<bar>av\<bar> = \<bar>bv\<bar>" using False by (simp add: less_double_def abs_double_eq_iff)
    then show ?thesis by (simp add: covariance_deviates_def abs_double_minus_commute [of bv])
  qed (use double_less_asym in \<open>auto simp: covariance_deviates_def abs_double_minus_commute [of bv]\<close>)
qed

lemma covariance_deviates_self: "\<not> tol < 0 \<Longrightarrow> \<not> covariance_deviates tol v v"
  using double_diff_self [of v]
  by (auto simp: covariance_deviates_def Let_def divide_zero_pos not_less_nan isnan_divide)

text \<open>
  With tolerances that are not negative, comparing two replicas does not depend on which one is
  named first, and a result agrees with itself, whatever it contains: infinities, NaNs, or entries so
  small that the relative deviation is taken against a denormal.
\<close>

theorem results_agree_symmetric:
  assumes "\<not> pos_tol < 0" and "\<not> cov_tol < 0"
  shows "obicall_gate_results_agree (Some a) (Some b) pos_tol cov_tol =
      obicall_gate_results_agree (Some b) (Some a) pos_tol cov_tol \<and>
    obicall_gate_results_agree (Some a) (Some a) pos_tol cov_tol"
proof -
  have "\<not> pos_tol < \<bar>x - x\<bar>" for x
    using double_diff_self [of x] assms(1) by (auto simp: not_less_nan)
  then have self: "obicall_gate_results_agree (Some a) (Some a) pos_tol cov_tol"
    using covariance_deviates_self [OF assms(2)]
    by (simp add: obicall_gate_results_agree_def list_ex_iff)
  have payload: "\<bar>res_payload a ! i - res_payload b ! i\<bar> = \<bar>res_payload b ! i - res_payload a ! i\<bar>"
    and cov: "covariance_deviates cov_tol (res_covariance a ! i) (res_covariance b ! i) =
      covariance_deviates cov_tol (res_covariance b ! i) (res_covariance a ! i)" for i
    by (rule abs_double_minus_commute) (rule covariance_deviates_commute [OF assms(2)])
  have "obicall_gate_results_agree (Some a) (Some b) pos_tol cov_tol =
      obicall_gate_results_agree (Some b) (Some a) pos_tol cov_tol"
  proof (cases "res_payload_count a = res_payload_count b \<and>
      res_covariance_count a = res_covariance_count b")
    case True
    then show ?thesis
      by (simp only: obicall_gate_results_agree_def option.case prod.case payload cov)
  next
    case False
    then have "\<not> obicall_gate_results_agree (Some a) (Some b) pos_tol cov_tol"
      and "\<not> obicall_gate_results_agree (Some b) (Some a) pos_tol cov_tol"
      by (auto simp: obicall_gate_results_agree_def)
    then show ?thesis by simp
  qed
  with self show ?thesis by simp
qed

theorem results_agree_symmetric_witness:
  "obicall_gate_results_agree (Some example_gate_result)
     (Some (example_gate_result\<lparr>res_payload := replicate 6 1\<rparr>)) 1 0 =
   obicall_gate_results_agree (Some (example_gate_result\<lparr>res_payload := replicate 6 1\<rparr>))
     (Some example_gate_result) 1 0"
proof -
  have "\<not> (1 :: double) < 0" "\<not> (0 :: double) < 0" by code_simp+
  then show ?thesis
    using results_agree_symmetric [of 1 0 example_gate_result
        "example_gate_result\<lparr>res_payload := replicate 6 1\<rparr>"] by blast
qed

text \<open>A NaN estimate is never reported as a disagreement: every comparison with it is false.\<close>

lemma nan_payload_agrees:
  assumes "res_payload_count a = 1" and "res_payload_count b = 1" and "isnan (res_payload a ! 0)"
    and "res_covariance_count a = 0" and "res_covariance_count b = 0"
  shows "obicall_gate_results_agree (Some a) (Some b) pos_tol cov_tol"
  using assms by (simp add: obicall_gate_results_agree_def not_less_nan isnan_minus)

section \<open>Laws of the state codec\<close>

definition pipeline_state_layout :: "obicall_gate_pipeline_state \<Rightarrow> bytes" where
  "pipeline_state_layout p = gp_pipeline_id p @ le_bytes 4 (gp_has_committed p) @
     le_bytes 8 (gp_last_committed_window_seq p) @ gp_last_committed_digest p"

definition gate_state_layout :: "obicall_gate_state \<Rightarrow> bytes" where
  "gate_state_layout s =
     le_bytes 4 (gs_struct_size s) @ le_bytes 4 (gs_schema_version s) @ le_bytes 8 (gs_epoch s) @
     le_bytes 4 (gs_owner_broker_id s) @ le_bytes 4 (gs_pipeline_count s) @
     concat (map pipeline_state_layout (take (unat (gs_pipeline_count s)) (gs_pipelines s)))"

definition norm_gate_state :: "obicall_gate_state \<Rightarrow> obicall_gate_state" where
  "norm_gate_state s = s\<lparr>gs_struct_size := sizeof_gate_state,
     gs_pipelines := memcpy (replicate 8 zero_pipeline_state) 0
       (take (unat (gs_pipeline_count s)) (gs_pipelines s))\<rparr>"

lemma length_pipeline_layouts:
  "list_all wf_pipeline_state ps \<Longrightarrow> length (concat (map pipeline_state_layout ps)) = 76 * length ps"
  by (induction ps) (simp_all add: pipeline_state_layout_def wf_pipeline_state_def)

lemma gate_state_facts:
  assumes "wf_gate_state s"
  shows "length (gs_pipelines s) = 8" and "unat (gs_pipeline_count s) \<le> 8"
    and "\<not> 8 < gs_pipeline_count s" and "list_all wf_pipeline_state (take k (gs_pipelines s))"
  using assms by (auto simp: wf_gate_state_def word_le_nat_alt list_all_iff not_less dest: in_set_takeD)

lemma length_gate_state_layout [layout_simps]:
  assumes "wf_gate_state s"
  shows "length (gate_state_layout s) = 24 + 76 * unat (gs_pipeline_count s)"
  using gate_state_facts [OF assms]
  by (simp add: gate_state_layout_def length_pipeline_layouts [OF gate_state_facts(4) [OF assms]])

lemma reads_pipeline_state:
  "reads get_pipeline_state pipeline_state_layout wf_pipeline_state"
proof -
  define mk where "mk a b c d = \<lparr>gp_pipeline_id = a, gp_has_committed = b,
    gp_last_committed_window_seq = c, gp_last_committed_digest = d\<rparr>" for a b c d
  have "reads (State_Monad.return (mk a b c d)) (\<lambda>_. []) (\<lambda>v. (((True \<and> gp_pipeline_id v = a) \<and>
      gp_has_committed v = b) \<and> gp_last_committed_window_seq v = c) \<and> gp_last_committed_digest v = d)"
    for a b c d by (rule reads_cong [OF reads_return]) (auto simp: mk_def)
  then have "reads (do { d \<leftarrow> rc_bytes (replicate 32 0) OBICALL_DIGEST_LEN;
        State_Monad.return (mk a b c d) }) (\<lambda>v. gp_last_committed_digest v @ [])
      (\<lambda>v. length (gp_last_committed_digest v) = unat (32 :: u32) \<and> ((True \<and> gp_pipeline_id v = a) \<and>
        gp_has_committed v = b) \<and> gp_last_committed_window_seq v = c)" for a b c
    by (intro reads_bind [OF reads_bytes]) simp_all
  then have "reads (do { d \<leftarrow> rc_bytes (replicate 32 0) OBICALL_DIGEST_LEN;
        State_Monad.return (mk a b c d) }) gp_last_committed_digest
      (\<lambda>v. ((length (gp_last_committed_digest v) = 32 \<and> gp_pipeline_id v = a) \<and>
        gp_has_committed v = b) \<and> gp_last_committed_window_seq v = c)" for a b c
    by (rule reads_cong) auto
  from reads_bind [OF reads_u64 this]
  have "reads (do { c \<leftarrow> rc_u64; d \<leftarrow> rc_bytes (replicate 32 0) OBICALL_DIGEST_LEN;
        State_Monad.return (mk a b c d) })
      (\<lambda>v. le_bytes 8 (gp_last_committed_window_seq v) @ gp_last_committed_digest v)
      (\<lambda>v. (length (gp_last_committed_digest v) = 32 \<and> gp_pipeline_id v = a) \<and>
        gp_has_committed v = b)" for a b
    by (auto elim: reads_cong)
  from reads_bind [OF reads_u32 this]
  have "reads (do { b \<leftarrow> rc_u32; c \<leftarrow> rc_u64; d \<leftarrow> rc_bytes (replicate 32 0) OBICALL_DIGEST_LEN;
        State_Monad.return (mk a b c d) })
      (\<lambda>v. le_bytes 4 (gp_has_committed v) @ le_bytes 8 (gp_last_committed_window_seq v) @
        gp_last_committed_digest v)
      (\<lambda>v. length (gp_last_committed_digest v) = 32 \<and> gp_pipeline_id v = a)" for a
    by (auto elim: reads_cong)
  from reads_bind [OF reads_fixed this, of "replicate 32 0" 32] show ?thesis
    unfolding get_pipeline_state_def mk_def
    by (auto simp: pipeline_state_layout_def wf_pipeline_state_def elim: reads_cong)
qed

lemma accepts_gate_state:
  "accepts {OBICALL_ERR_WIRE_MALFORMED} get_gate_state
     (\<lambda>bs s. \<exists>s0. wf_gate_state s0 \<and> s = norm_gate_state s0 \<and> bs = gate_state_layout s0)"
  unfolding get_gate_state_def
proof (rule accepts_sound_complete,
    ((rule codec_intros reads_pipeline_state | simp)+)[1], goal_cases)
  case (1 bs s)
  then show ?case
  proof (elim exE conjE, goal_cases)
    case (1 size)
    then show ?case
      by (intro exI [of _ "s\<lparr>gs_struct_size := size\<rparr>"] conjI)
         (simp_all add: wf_gate_state_def norm_gate_state_def gate_state_layout_def memcpy_zero
          word_less_nat_alt word_le_nat_alt wf_pipeline_state_def zero_pipeline_state_def)
  qed
next
  case (2 bs ys s)
  then obtain s0 where s0: "wf_gate_state s0" "s = norm_gate_state s0" "bs = gate_state_layout s0"
    by blast
  show ?case
    unfolding s0(2,3) gate_state_layout_def append_assoc
    by (rule yields_fields yields_read [OF reads_each [OF reads_pipeline_state]] |
        (simp add: gate_state_facts [OF s0(1)] norm_gate_state_def; fail))+
qed

lemma norm_gate_state_laws:
  assumes "wf_gate_state s"
  shows "wf_gate_state (norm_gate_state s)" and "norm_gate_state (norm_gate_state s) = norm_gate_state s"
    and "length (gate_state_layout (norm_gate_state s)) = length (gate_state_layout s)"
    and "abs_gate (norm_gate_state s) = abs_gate s"
proof -
  note f = gate_state_facts [OF assms]
  show wf: "wf_gate_state (norm_gate_state s)"
    using assms f by (simp add: wf_gate_state_def norm_gate_state_def memcpy_zero
        wf_pipeline_state_def zero_pipeline_state_def)
  show "norm_gate_state (norm_gate_state s) = norm_gate_state s"
    by (simp add: norm_gate_state_def memcpy_zero f)
  show "length (gate_state_layout (norm_gate_state s)) = length (gate_state_layout s)"
    using assms wf by (simp add: layout_simps) (simp add: norm_gate_state_def)
  have nth: "gs_pipelines (norm_gate_state s) ! i = gs_pipelines s ! i"
    if "i < unat (gs_pipeline_count s)" for i
    using that f by (simp add: norm_gate_state_def memcpy_zero nth_append)
  have count: "gs_pipeline_count (norm_gate_state s) = gs_pipeline_count s"
    by (simp add: norm_gate_state_def)
  have find: "find_pipeline (norm_gate_state s) pid = find_pipeline s pid" for pid
    unfolding find_pipeline_def count
    by (intro arg_cong [where f = "case_option _ _"] find_cong) (simp_all add: nth)
  have "high_water (norm_gate_state s) pid = high_water s pid" for pid
    by (rule find_pipeline_cases [OF assms, of pid])
       (simp_all add: high_water_def find nth small_index Let_def)
  then show "abs_gate (norm_gate_state s) = abs_gate s"
    by (simp add: abs_gate_def fun_eq_iff) (simp add: norm_gate_state_def)
qed

interpretation gate_state: wire_codec obicall_gate_encode_state gate_state_layout wf_gate_state
  obicall_gate_decode_state norm_gate_state
proof -
  have "writes (put_gate_state s) (gate_state_layout s)" if wf: "wf_gate_state s" for s
  proof -
    have "writes (put_pipeline_state p) (pipeline_state_layout p)"
      if "p \<in> set (take (unat (gs_pipeline_count s)) (gs_pipelines s))" for p
      unfolding put_pipeline_state_def pipeline_state_layout_def
      using gate_state_facts(4) [OF wf, of "unat (gs_pipeline_count s)"] that
      by (intro codec_intros) (simp_all add: list_all_iff wf_pipeline_state_def)
    then show ?thesis
      unfolding put_gate_state_def gate_state_layout_def by (intro codec_intros)
  qed
  then have codec: "wire_codec (wire_encode (\<lambda>s. gs_pipeline_count s > OBICALL_MAX_PIPELINES) put_gate_state)
      gate_state_layout wf_gate_state (wire_decode get_gate_state) norm_gate_state"
    by (intro wire_codec_intro accepts_gate_state) (simp_all add: gate_state_facts norm_gate_state_laws)
  show "wire_codec obicall_gate_encode_state gate_state_layout wf_gate_state
      obicall_gate_decode_state norm_gate_state"
    unfolding obicall_gate_decode_state_def
  proof (intro wire_codec.intro wire_encoder.intro)
    fix s and cap :: u32 and out :: bytes and l
    assume s: "wf_gate_state s" and cap: "unat cap \<le> length out"
    show "obicall_gate_encode_state (Some s) (Some out) cap (Some l) =
        (if length (gate_state_layout s) \<le> unat cap
         then Inr (memcpy out 0 (gate_state_layout s), of_nat (length (gate_state_layout s)))
         else Inl OBICALL_ERR_BUFFER_TOO_SMALL)"
      using wire_encoder.encode_run [OF wire_codec.axioms(1) [OF codec] s cap, of l] s
      by (simp add: obicall_gate_encode_state_def wire_encode_def gate_state_facts)
  next
    show "wire_codec_axioms gate_state_layout wf_gate_state (wire_decode get_gate_state) norm_gate_state"
      using codec by (rule wire_codec.axioms(2))
  qed (auto simp: obicall_gate_encode_state_def split: option.split)
qed

section \<open>Laws of the durable state\<close>

definition persist_header_layout :: "u32 \<Rightarrow> u32 \<Rightarrow> bytes" where
  "persist_header_layout payload_len crc =
     le_bytes 4 OBICALL_GATE_PERSIST_MAGIC @ le_bytes 4 payload_len @ le_bytes 4 crc @
     le_bytes 4 (0 :: u32)"

lemma length_persist_header_layout [simp]: "length (persist_header_layout n crc) = 16"
  by (simp add: persist_header_layout_def)

lemma put_persist_header_layout:
  "run_state (put_persist_header n crc) \<lparr>wc_p = replicate 16 0, wc_cap = 16, wc_off = 0, wc_ok = True\<rparr> =
     ((), \<lparr>wc_p = persist_header_layout n crc, wc_cap = 16, wc_off = 16, wc_ok = True\<rparr>)"
proof -
  let ?c = "\<lparr>wc_p = replicate 16 0, wc_cap = 16, wc_off = 0, wc_ok = True\<rparr>"
  have "writes (put_persist_header n crc) (persist_header_layout n crc)"
    unfolding put_persist_header_def persist_header_layout_def by (intro codec_intros)
  moreover have "wc_inv ?c" and "wroom ?c = 16" by (simp_all add: wc_inv_def wroom_def)
  ultimately show ?thesis by (simp add: writes_def wput_def memcpy_zero)
qed

lemma get_persist_header_layout:
  "rc_run get_persist_header (persist_header_layout n crc) 16 =
     (if n > OBICALL_GATE_PERSIST_MAX_PAYLOAD then Inl OBICALL_ERR_WIRE_MALFORMED else Inr (n, crc))"
  (is "_ = ?r")
proof -
  have "yields get_persist_header (le_bytes 4 (OBICALL_GATE_PERSIST_MAGIC) @ le_bytes 4 n @
      le_bytes 4 crc @ le_bytes 4 (0 :: u32) @ []) ?r"
    unfolding get_persist_header_def by (rule yields_fields TrueI | simp)+
  then show ?thesis by (intro rc_run_yields) (simp_all add: persist_header_layout_def)
qed

text \<open>The file a complete write leaves behind.\<close>

definition persisted :: "obicall_gate_state \<Rightarrow> bytes" where
  "persisted s = (let lay = gate_state_layout s; n = of_nat (length lay)
     in persist_header_layout n (obicall_crc32 lay n) @ lay)"

lemma gate_state_layout_bounds:
  assumes "wf_gate_state s"
  shows "length (gate_state_layout s) \<le> 632" and "24 \<le> length (gate_state_layout s)"
    and "unat (of_nat (length (gate_state_layout s)) :: u32) = length (gate_state_layout s)"
proof -
  show le: "length (gate_state_layout s) \<le> 632" and "24 \<le> length (gate_state_layout s)"
    using gate_state_facts(2) [OF assms] by (simp_all add: length_gate_state_layout [OF assms])
  then show "unat (of_nat (length (gate_state_layout s)) :: u32) = length (gate_state_layout s)"
    by (simp add: unat_of_nat)
qed

lemma length_persisted: "length (persisted s) = 16 + length (gate_state_layout s)"
  by (simp add: persisted_def Let_def)

lemma persist_state_eq:
  assumes wf: "wf_gate_state s"
  shows "obicall_gate_persist_state (Some f) (Some s) =
    (if f_room f < length (persisted s) \<or> \<not> f_flush_ok f \<or> \<not> f_sync_ok f
     then OBICALL_ERR_GATE_PERSISTENCE else OBICALL_OK, Some (snd (fwrite (persisted s) f)))"
proof -
  note b = gate_state_layout_bounds [OF wf]
  let ?lay = "gate_state_layout s"
  let ?n = "of_nat (length ?lay) :: u32"
  let ?hdr = "persist_header_layout ?n (obicall_crc32 ?lay ?n)"
  have run: "obicall_gate_encode_state (Some s) (Some (replicate 8192 0)) 8192 (Some 0) =
      Inr (?lay @ replicate (8192 - length ?lay) 0, ?n)"
    using gate_state.encode_run [OF wf, of 8192 "replicate 8192 0" 0] b by (simp add: memcpy_zero)
  have crc: "obicall_crc32 (?lay @ replicate (8192 - length ?lay) 0) ?n = obicall_crc32 ?lay ?n"
    using b by (simp add: obicall_crc32_def)
  have pos: "?n > 0" using b by (subst word_less_nat_alt) auto
  have bytes: "persisted s = ?hdr @ ?lay" by (simp add: persisted_def Let_def)
  show ?thesis
  proof (cases "f_room f < 16")
    case True
    then show ?thesis
      using fwrite_short [of f ?hdr ?lay]
      by (simp add: obicall_gate_persist_state_def run Let_def put_persist_header_layout crc bytes)
         (simp add: fwrite_def Let_def min_def)
  next
    case False
    then have "snd (fwrite ?lay (snd (fwrite ?hdr f))) = snd (fwrite (?hdr @ ?lay) f)"
      and "fst (fwrite ?lay (snd (fwrite ?hdr f))) = min (length ?lay) (f_room f - 16)"
      and "fst (fwrite ?hdr f) = 16"
      using fwrite_seq [of ?hdr f ?lay] by (simp_all add: fwrite_def Let_def)
    then show ?thesis
      using False pos b
      by (auto simp: obicall_gate_persist_state_def run Let_def put_persist_header_layout crc bytes
          case_prod_unfold fflush_def durable_sync_def min_def) (simp_all add: fwrite_def Let_def)
  qed
qed

lemma load_after_header:
  assumes d: "drop (f_pos f) (f_data f) = persist_header_layout n crc @ rest"
    and n: "n \<le> OBICALL_GATE_PERSIST_MAX_PAYLOAD"
  shows "fst (obicall_gate_load_state (Some f) (Some old)) =
    (if length rest < unat n then Inl OBICALL_ERR_WIRE_MALFORMED
     else if obicall_crc32 (take (unat n) rest) n \<noteq> crc then Inl OBICALL_ERR_WIRE_CHECKSUM
     else obicall_gate_decode_state (Some (take (unat n) rest)) n (Some old))"
proof -
  have r: "fread 16 f = (persist_header_layout n crc, f\<lparr>f_pos := f_pos f + 16, f_eof := False\<rparr>)"
    using d by (rule fread_exact) simp
  have d': "drop (f_pos f + 16) (f_data f) = rest"
    using arg_cong [OF d, of "drop 16"] by (simp add: add.commute)
  have r2: "fread k (f\<lparr>f_pos := f_pos f + 16, f_eof := False\<rparr>) = (take k rest,
      f\<lparr>f_pos := f_pos f + 16 + length (take k rest), f_eof := length (take k rest) < k\<rparr>)" for k
    by (simp add: fread_def d')
  have "\<not> 8192 < n" using n by (simp add: not_less)
  then show ?thesis
    by (simp add: obicall_gate_load_state_def r r2 get_persist_header_layout not_le min_def)
qed

lemma load_persisted:
  assumes wf: "wf_gate_state s" and d: "drop (f_pos f) (f_data f) = persisted s @ rest"
  shows "fst (obicall_gate_load_state (Some f) (Some old)) = Inr (norm_gate_state s)"
proof -
  note b = gate_state_layout_bounds [OF wf]
  let ?n = "of_nat (length (gate_state_layout s)) :: u32"
  have "?n \<le> 8192" using b by (simp add: word_le_nat_alt)
  moreover have "obicall_gate_decode_state (Some (gate_state_layout s)) ?n (Some old) =
      Inr (norm_gate_state s)"
    using b by (intro gate_state.decode_prefix [OF wf]) simp_all
  ultimately show ?thesis
    using d b load_after_header [of f ?n "obicall_crc32 (gate_state_layout s) ?n"
        "gate_state_layout s @ rest" old]
    by (simp add: persisted_def Let_def)
qed

lemma load_torn:
  assumes wf: "wf_gate_state s" and d: "drop (f_pos f) (f_data f) = take k (persisted s)"
    and k: "k < length (persisted s)"
  shows "fst (obicall_gate_load_state (Some f) (Some old)) = Inl OBICALL_ERR_WIRE_MALFORMED"
proof (cases "k < 16")
  case True
  have len: "length (take k (persisted s)) = k" using k by simp
  have "fread 16 f = (take k (persisted s), f\<lparr>f_pos := f_pos f + k, f_eof := True\<rparr>)"
    using fread_short [OF d, of 16] True len by simp
  then show ?thesis
    using True k len by (simp add: obicall_gate_load_state_def del: length_take)
next
  case False
  note b = gate_state_layout_bounds [OF wf]
  let ?n = "of_nat (length (gate_state_layout s)) :: u32"
  have "?n \<le> 8192" using b by (simp add: word_le_nat_alt)
  moreover have "drop (f_pos f) (f_data f) =
      persist_header_layout ?n (obicall_crc32 (gate_state_layout s) ?n) @
      take (k - 16) (gate_state_layout s)"
    using d False by (simp add: persisted_def Let_def)
  ultimately show ?thesis
    using b k False by (subst load_after_header) (auto simp: length_persisted)
qed

text \<open>
  whatever the device does while the gate's state is written to a fresh file, loading that file gives
  back the written state in full (owner, epoch, every pipeline's mark and digest) or, when the device
  took only a part, the malformed-file error; a success status means that the file is complete. There
  is no failure that makes the loader return another state.
\<close>

theorem gate_persist_load:
  assumes "wf_gate_state s" and "f_data f = []" and "f_pos f = 0"
    and "obicall_gate_persist_state (Some f) (Some s) = (st, Some f')"
  shows "fst (obicall_gate_load_state (Some f') (Some old)) =
      (if length (persisted s) \<le> f_room f then Inr (norm_gate_state s)
       else Inl OBICALL_ERR_WIRE_MALFORMED) \<and>
    (st = OBICALL_OK \<longrightarrow> length (persisted s) \<le> f_room f) \<and>
    abs_gate (norm_gate_state s) = abs_gate s"
proof -
  have f': "f' = snd (fwrite (persisted s) f)" and
    st: "st = OBICALL_OK \<longrightarrow> length (persisted s) \<le> f_room f"
    using assms(4) persist_state_eq [OF assms(1), of f] by (auto split: if_splits)
  have d: "drop (f_pos f') (f_data f') = take (f_room f) (persisted s)"
    using assms(2,3) by (simp add: f' fwrite_def Let_def min_def)
  show ?thesis
  proof (cases "length (persisted s) \<le> f_room f")
    case True
    then have "drop (f_pos f') (f_data f') = persisted s @ []" using d by simp
    then show ?thesis
      using True st load_persisted [OF assms(1)] norm_gate_state_laws(4) [OF assms(1)] by simp
  next
    case False
    then show ?thesis
      using st load_torn [OF assms(1) d] norm_gate_state_laws(4) [OF assms(1)] by simp
  qed
qed

definition example_gate_file :: FILE where
  "example_gate_file = \<lparr>f_data = [], f_pos = 0, f_room = 200, f_eof = False, f_flush_ok = True,
     f_sync_ok = True\<rparr>"

theorem gate_persist_load_witness:
  "fst (obicall_gate_load_state (snd (obicall_gate_persist_state (Some example_gate_file)
      (Some example_gate_state))) (Some example_gate_state)) = Inr (norm_gate_state example_gate_state)"
proof -
  have "length (persisted example_gate_state) = 116"
    using length_gate_state_layout [OF example_gate_state_wf]
    by (simp add: length_persisted example_gate_state_def)
  moreover have "snd (obicall_gate_persist_state (Some example_gate_file) (Some example_gate_state)) =
      Some (snd (fwrite (persisted example_gate_state) example_gate_file))"
    by (simp add: persist_state_eq [OF example_gate_state_wf])
  moreover have "f_data example_gate_file = []" "f_pos example_gate_file = 0"
    "f_room example_gate_file = 200" by (simp_all add: example_gate_file_def)
  ultimately show ?thesis
    using gate_persist_load [OF example_gate_state_wf, of example_gate_file
        "fst (obicall_gate_persist_state (Some example_gate_file) (Some example_gate_state))"
        "snd (fwrite (persisted example_gate_state) example_gate_file)" example_gate_state]
    by (simp add: prod_eq_iff)
qed

lemma load_damaged:
  assumes "wf_gate_state s" and "gate_state_layout s = xs @ bs @ ys"
    and "length bs' = length bs" and "length bs \<le> 4" and "bs' \<noteq> bs" and "f_pos f = 0"
    and "f_data f = take 16 (persisted s) @ xs @ bs' @ ys @ rest"
  shows "fst (obicall_gate_load_state (Some f) (Some old)) = Inl OBICALL_ERR_WIRE_CHECKSUM"
proof -
  note b = gate_state_layout_bounds [OF assms(1)]
  let ?n = "of_nat (length (gate_state_layout s)) :: u32"
  have n: "unat ?n = length (xs @ bs @ ys)" using b(3) by (simp add: assms(2))
  then have ne: "obicall_crc32 (xs @ bs @ ys) ?n \<noteq> obicall_crc32 (xs @ bs' @ ys) ?n"
    using assms(3-5) by (intro crc32_burst) auto
  have d: "drop (f_pos f) (f_data f) =
      persist_header_layout ?n (obicall_crc32 (xs @ bs @ ys) ?n) @ (xs @ bs' @ ys) @ rest"
    using assms(2,6,7) by (simp add: persisted_def Let_def)
  have "?n \<le> 8192" using b by (simp add: word_le_nat_alt)
  moreover have "take (unat ?n) ((xs @ bs' @ ys) @ rest) = xs @ bs' @ ys"
    using n assms(3) by simp
  moreover have "\<not> length ((xs @ bs' @ ys) @ rest) < unat ?n" using n assms(3) by simp
  ultimately show ?thesis
    using ne load_after_header [OF d, of old] by (simp only: if_False if_True not_sym simp_thms)
qed

text \<open>
  A state file damaged within four consecutive bytes of its payload is refused with a checksum
  error.
\<close>

theorem gate_load_detects_damage:
  assumes "wf_gate_state s" and "gate_state_layout s = xs @ bs @ ys"
    and "length bs' = length bs" and "length bs \<le> 4" and "bs' \<noteq> bs" and "f_pos f = 0"
    and "f_data f = take 16 (persisted s) @ xs @ bs' @ ys @ rest"
  shows "fst (obicall_gate_load_state (Some f) (Some old)) = Inl OBICALL_ERR_WIRE_CHECKSUM"
  using assms by (rule load_damaged)

theorem gate_load_detects_damage_witness:
  "\<exists>ys. fst (obicall_gate_load_state (Some (example_gate_file\<lparr>f_data :=
      take 16 (persisted example_gate_state) @ [] @ [9, 9] @ ys @ []\<rparr>)) (Some example_gate_state)) =
    Inl OBICALL_ERR_WIRE_CHECKSUM"
proof -
  have "take 2 (gate_state_layout example_gate_state) = [0x98, 2]"
    by (simp add: gate_state_layout_def le_bytes_def example_gate_state_def upt_rec)
  then obtain ys where "gate_state_layout example_gate_state = [] @ [0x98, 2] @ ys"
    by (metis append_Nil append_take_drop_id)
  then show ?thesis
    using gate_load_detects_damage [OF example_gate_state_wf, of "[]" "[0x98, 2]" ys "[9, 9]"
        "example_gate_file\<lparr>f_data := take 16 (persisted example_gate_state) @ [] @ [9, 9] @ ys @ []\<rparr>"
        "[]" example_gate_state]
    by (intro exI [of _ ys]) (simp add: example_gate_file_def)
qed

end
