(* ===== verification/Gate_Daemon.thy ===== *)
theory Gate_Daemon
  imports Gate Wire_Control
begin

text \<open>
  \<^verbatim>\<open>src/gate/gate_main.c\<close>: the publication gate process. Its context is a record, each handler a
  function of the context, the contents of the state file, the clock and what the file system answers;
  a handler runs under the mutex, so handlers are atomic steps. The process may die at any point, also
  between persisting and replying, and be started again from its state file. Over all such runs the
  accepted results of a pipeline have strictly increasing windows, and an epoch belongs to one broker.
\<close>

section \<open>Context\<close>

record broker_view =
  bv_known :: bool
  bv_readiness :: obicall_gate_readiness
  bv_last_heartbeat_ns :: i64

record gate_ctx =
  gc_state :: obicall_gate_state
  gc_brokers :: "broker_view list"
  gc_required_config_digest :: bytes
  gc_required_checkpoint_schema_version :: u32
  gc_max_allowed_replay_gap :: u64
  gc_confirm_timeout_ns :: i64
  gc_start_time_ns :: i64

text \<open>
  What the file system answers to one persist: whether the temporary file can be opened and how its
  device behaves, and whether the rename succeeds. \<open>disk\<close> is the contents of the state file, \<open>None\<close>
  while there is none.
\<close>

record persist_env =
  pe_tmp :: "FILE option"
  pe_rename_ok :: bool

text \<open>\<^verbatim>\<open>fopen(tmp, "wb")\<close> truncates.\<close>

definition fopen_wb :: "FILE option \<Rightarrow> FILE option" where
  "fopen_wb f = map_option (\<lambda>f. f\<lparr>f_data := [], f_pos := 0, f_eof := False\<rparr>) f"

definition persist_locked :: "persist_env \<Rightarrow> obicall_gate_state \<Rightarrow> bytes option \<Rightarrow>
    int \<times> bytes option" where
  "persist_locked env s disk =
     (case fopen_wb (pe_tmp env) of
        None \<Rightarrow> (-1, disk)
      | Some f \<Rightarrow>
          (case obicall_gate_persist_state (Some f) (Some s) of (st, f') \<Rightarrow>
             if st \<noteq> OBICALL_OK then (-1, disk)
             else osal_file_atomic_replace (pe_rename_ok env) (f_data (the f')) disk))"

section \<open>Promotion\<close>

definition committed_high_water :: "obicall_gate_state \<Rightarrow> u64" where
  "committed_high_water s =
     foldl (\<lambda>hw p. if gp_last_committed_window_seq p > hw then gp_last_committed_window_seq p else hw)
       0 (take (unat (gs_pipeline_count s)) (gs_pipelines s))"

definition promote_locked :: "persist_env \<Rightarrow> u32 \<Rightarrow> i64 \<Rightarrow> gate_ctx \<times> bytes option \<Rightarrow>
    gate_ctx \<times> bytes option" where
  "promote_locked env broker now cd = (case cd of (c, disk) \<Rightarrow>
     (case obicall_gate_promote (Some (gc_state c)) broker now (Some 0) of
        Inl _ \<Rightarrow> (c, disk)
      | Inr (s, _) \<Rightarrow> (c\<lparr>gc_state := s\<rparr>, snd (persist_locked env s disk))))"

definition evaluate_promotion_locked :: "persist_env \<Rightarrow> i64 \<Rightarrow> gate_ctx \<times> bytes option \<Rightarrow>
    gate_ctx \<times> bytes option" where
  "evaluate_promotion_locked env now cd = (case cd of (c, disk) \<Rightarrow>
     if gs_owner_broker_id (gc_state c) = OBICALL_BROKER_NONE
     then (let va = gc_brokers c ! unat OBICALL_BROKER_A
           in if bv_known va \<and> rd_healthy (bv_readiness va) \<noteq> 0
              then promote_locked env OBICALL_BROKER_A now (c, disk)
              else (c, disk))
     else
       (let owner = gs_owner_broker_id (gc_state c);
            ov = gc_brokers c ! unat owner
        in if \<not> bv_known ov then (c, disk)
           else if sint (now - bv_last_heartbeat_ns ov) \<le> sint (gc_confirm_timeout_ns c) then (c, disk)
           else
             (let other = (if owner = OBICALL_BROKER_A then OBICALL_BROKER_B else OBICALL_BROKER_A);
                  sv = gc_brokers c ! unat other
              in if \<not> bv_known sv then (c, disk)
                 else
                   (let req = \<lparr>rp_required_config_digest = gc_required_config_digest c,
                          rp_required_checkpoint_schema_version =
                            gc_required_checkpoint_schema_version c,
                          rp_max_allowed_replay_gap = gc_max_allowed_replay_gap c\<rparr>
                    in if obicall_gate_shadow_promotable (Some (bv_readiness sv)) (Some req)
                            (committed_high_water (gc_state c))
                       then promote_locked env other now (c, disk)
                       else (c, disk)))))"

section \<open>Handlers\<close>

text \<open>
  A handler's reply is the frame it hands to \<^verbatim>\<open>osal_send_frame\<close>: message type and payload. The
  uninitialised locals that a decoder fills are the \<open>fresh_\<close> constants.
\<close>

type_synonym frame = "u8 \<times> bytes"

definition fresh_heartbeat :: obicall_msg_heartbeat where
  "fresh_heartbeat = \<lparr>hb_broker_id = 0, hb_epoch = 0, hb_last_window_seq = 0,
     hb_config_digest = replicate 32 0, hb_checkpoint_schema_version = 0, hb_healthy = 0,
     hb_sent_at_ns = 0\<rparr>"

definition fresh_result :: obicall_result where
  "fresh_result = \<lparr>res_struct_size = 0, res_schema_version = 0, res_pipeline_id = replicate 32 0,
     res_window_seq = 0, res_broker_id = 0, res_epoch = 0, res_status = 0, res_payload_shape = 0,
     res_payload_count = 0, res_payload = replicate 6 0, res_covariance_count = 0,
     res_covariance = replicate 36 0, res_input_digest = replicate 32 0,
     res_config_digest = replicate 32 0, res_timestamp_ns = 0, res_valid_until_ns = 0,
     res_source_count = 0, res_sources = replicate 8 (replicate 32 0), res_dgt_action_id = 0\<rparr>"

definition status_reply :: "i64 \<Rightarrow> gate_ctx \<Rightarrow> obicall_msg_status_reply" where
  "status_reply now c = \<lparr>sr_running = 1, sr_gate_epoch = gs_epoch (gc_state c),
     sr_owner_broker_id = gs_owner_broker_id (gc_state c),
     sr_last_committed_window_seq = committed_high_water (gc_state c),
     sr_uptime_ns = now - gc_start_time_ns c\<rparr>"

definition send_status_reply :: "obicall_msg_status_reply \<Rightarrow> frame option" where
  "send_status_reply reply =
     (case obicall_wire_encode_status_reply (Some reply) (Some (replicate 64 0)) 64 (Some 0) of
        Inl _ \<Rightarrow> None
      | Inr (buf, out_len) \<Rightarrow> Some (OBICALL_MSG_STATUS_REPLY, take (unat out_len) buf))"

definition record_heartbeat :: "i64 \<Rightarrow> obicall_msg_heartbeat \<Rightarrow> gate_ctx \<Rightarrow> gate_ctx" where
  "record_heartbeat now hb c = c\<lparr>gc_brokers := (gc_brokers c)[unat (hb_broker_id hb) :=
     \<lparr>bv_known = True,
      bv_readiness = \<lparr>rd_healthy = hb_healthy hb, rd_config_digest = hb_config_digest hb,
        rd_checkpoint_schema_version = hb_checkpoint_schema_version hb,
        rd_last_processed_window_seq = hb_last_window_seq hb\<rparr>,
      bv_last_heartbeat_ns = now\<rparr>]\<rparr>"

definition handle_heartbeat :: "persist_env \<Rightarrow> i64 \<Rightarrow> bytes \<Rightarrow> gate_ctx \<times> bytes option \<Rightarrow>
    (gate_ctx \<times> bytes option) \<times> frame option" where
  "handle_heartbeat env now payload cd =
     (case obicall_wire_decode_heartbeat (Some payload) (of_nat (length payload))
             (Some fresh_heartbeat) of
        Inl _ \<Rightarrow> (cd, None)
      | Inr hb \<Rightarrow>
          if hb_broker_id hb \<noteq> OBICALL_BROKER_A \<and> hb_broker_id hb \<noteq> OBICALL_BROKER_B then (cd, None)
          else
            (let cd = evaluate_promotion_locked env now (record_heartbeat now hb (fst cd), snd cd)
             in (cd, send_status_reply (status_reply now (fst cd)))))"

definition reject_status :: "obicall_gate_publish_outcome \<Rightarrow> bool \<Rightarrow> obicall_status" where
  "reject_status outcome persisted_ok =
     (case outcome of
        OBICALL_GATE_COMMIT \<Rightarrow> if persisted_ok then OBICALL_OK else OBICALL_ERR_GATE_PERSISTENCE
      | OBICALL_GATE_SHADOW_RECORDED \<Rightarrow> OBICALL_OK
      | OBICALL_GATE_REJECT_NOT_OWNER \<Rightarrow> OBICALL_ERR_GATE_NOT_OWNER
      | OBICALL_GATE_REJECT_STALE_EPOCH \<Rightarrow> OBICALL_ERR_GATE_STALE_EPOCH
      | OBICALL_GATE_REJECT_DUPLICATE_WINDOW \<Rightarrow> OBICALL_ERR_GATE_DUPLICATE_WINDOW
      | OBICALL_GATE_REJECT_EXPIRED \<Rightarrow> OBICALL_ERR_GATE_EXPIRED
      | OBICALL_GATE_REJECT_INCOMPATIBLE \<Rightarrow> OBICALL_ERR_GATE_INCOMPATIBLE
      | _ \<Rightarrow> OBICALL_ERR_INTERNAL)"

definition publish_ack :: "obicall_result \<Rightarrow> obicall_gate_publish_outcome \<Rightarrow> bool \<Rightarrow>
    obicall_msg_result_ack" where
  "publish_ack r outcome persisted_ok =
     \<lparr>ra_pipeline_id = strncpy_id (res_pipeline_id r), ra_window_seq = res_window_seq r,
      ra_accepted = (if outcome = OBICALL_GATE_COMMIT \<and> persisted_ok then 1 else 0),
      ra_reject_status = status_code (reject_status outcome persisted_ok)\<rparr>"

definition send_result_ack :: "obicall_msg_result_ack \<Rightarrow> frame option" where
  "send_result_ack ack =
     (case obicall_wire_encode_result_ack (Some ack) (Some (replicate 128 0)) 128 (Some 0) of
        Inl _ \<Rightarrow> None
      | Inr (buf, out_len) \<Rightarrow> Some (OBICALL_MSG_RESULT_ACK, take (unat out_len) buf))"

definition handle_result_publish :: "persist_env \<Rightarrow> i64 \<Rightarrow> bytes \<Rightarrow> gate_ctx \<times> bytes option \<Rightarrow>
    (gate_ctx \<times> bytes option) \<times> frame option" where
  "handle_result_publish env now payload cd =
     (case obicall_wire_decode_result (Some payload) (of_nat (length payload)) (Some fresh_result) of
        Inl _ \<Rightarrow> (cd, None)
      | Inr result \<Rightarrow>
          (case cd of (c, disk) \<Rightarrow>
           case obicall_gate_decide_publish (Some (gc_state c)) (Some result) now (Some 0) of
             (outcome, s, _) \<Rightarrow>
               (let c = c\<lparr>gc_state := the s\<rparr>;
                    (code, disk) = (if outcome = OBICALL_GATE_COMMIT
                       then persist_locked env (gc_state c) disk else (0, disk));
                    persisted_ok = (code = 0)
                in ((c, disk), send_result_ack (publish_ack result outcome persisted_ok)))))"

definition handle_status_query :: "i64 \<Rightarrow> gate_ctx \<times> bytes option \<Rightarrow>
    (gate_ctx \<times> bytes option) \<times> frame option" where
  "handle_status_query now cd = (cd, send_status_reply (status_reply now (fst cd)))"

text \<open>The message switch of \<^verbatim>\<open>connection_thread\<close>.\<close>

definition gate_dispatch :: "persist_env \<Rightarrow> i64 \<Rightarrow> u8 \<Rightarrow> bytes \<Rightarrow> gate_ctx \<times> bytes option \<Rightarrow>
    (gate_ctx \<times> bytes option) \<times> frame option" where
  "gate_dispatch env now msg_type payload cd =
     (if msg_type = OBICALL_MSG_HEARTBEAT then handle_heartbeat env now payload cd
      else if msg_type = OBICALL_MSG_RESULT_PUBLISH then handle_result_publish env now payload cd
      else if msg_type = OBICALL_MSG_STATUS_QUERY then handle_status_query now cd
      else (cd, None))"

section \<open>Startup\<close>

text \<open>The command-line settings, after their conversion to the context's units.\<close>

record gate_args =
  ga_required_config_digest :: bytes
  ga_max_allowed_replay_gap :: u64
  ga_confirm_timeout_ns :: i64

definition fresh_gate_state :: obicall_gate_state where
  "fresh_gate_state = \<lparr>gs_struct_size = 0, gs_schema_version = 0, gs_epoch = 0,
     gs_owner_broker_id = 0, gs_pipeline_count = 0, gs_pipelines = replicate 8 zero_pipeline_state\<rparr>"

definition fresh_broker_view :: broker_view where
  "fresh_broker_view = \<lparr>bv_known = False,
     bv_readiness = \<lparr>rd_healthy = 0, rd_config_digest = replicate 32 0,
       rd_checkpoint_schema_version = 0, rd_last_processed_window_seq = 0\<rparr>,
     bv_last_heartbeat_ns = 0\<rparr>"

text \<open>\<^verbatim>\<open>fopen(state_file, "rb")\<close> on the file's contents; an exit code on the left.\<close>

definition fopen_rb :: "bytes \<Rightarrow> FILE" where
  "fopen_rb bs = \<lparr>f_data = bs, f_pos = 0, f_room = 0, f_eof = False, f_flush_ok = True, f_sync_ok = True\<rparr>"

definition gate_startup :: "gate_args \<Rightarrow> i64 \<Rightarrow> bytes option \<Rightarrow> int + gate_ctx" where
  "gate_startup args now disk =
     (let loaded = (case disk of
            None \<Rightarrow> Inr fresh_gate_state
          | Some bs \<Rightarrow> fst (obicall_gate_load_state (Some (fopen_rb bs)) (Some fresh_gate_state)))
      in case loaded of
           Inl _ \<Rightarrow> Inl 3
         | Inr s \<Rightarrow> Inr
             \<lparr>gc_state = s\<lparr>gs_struct_size := sizeof_gate_state, gs_schema_version := 1\<rparr>,
              gc_brokers = replicate 3 fresh_broker_view,
              gc_required_config_digest = ga_required_config_digest args,
              gc_required_checkpoint_schema_version = OBICALL_CHECKPOINT_SCHEMA_VERSION,
              gc_max_allowed_replay_gap = ga_max_allowed_replay_gap args,
              gc_confirm_timeout_ns = ga_confirm_timeout_ns args,
              gc_start_time_ns = now\<rparr>)"

section \<open>Runs with crashes and restarts\<close>

text \<open>
  The world around the process: its state file, its context while it runs, and the results whose
  acceptance it has reported to a broker, in order.
\<close>

record gated =
  gd_disk :: "bytes option"
  gd_run :: "gate_ctx option"
  gd_accepted :: "obicall_result list"

definition reported_accepted :: "u8 \<Rightarrow> bytes \<Rightarrow> frame option \<Rightarrow> obicall_result list" where
  "reported_accepted msg_type payload reply =
     (case (obicall_wire_decode_result (Some payload) (of_nat (length payload)) (Some fresh_result),
            reply) of
        (Inr r, Some (reply_type, bs)) \<Rightarrow>
          if msg_type = OBICALL_MSG_RESULT_PUBLISH \<and> reply_type = OBICALL_MSG_RESULT_ACK
          then (case obicall_wire_decode_result_ack (Some bs) (of_nat (length bs))
                       (Some (publish_ack fresh_result OBICALL_GATE_COMMIT True)) of
                  Inr ack \<Rightarrow> if ra_accepted ack \<noteq> 0 then [r] else []
                | Inl _ \<Rightarrow> [])
          else []
      | _ \<Rightarrow> [])"

inductive gated_step :: "gate_args \<Rightarrow> gated \<Rightarrow> gated \<Rightarrow> bool" for args where
  start: "gd_run g = None \<Longrightarrow> gate_startup args now (gd_disk g) = Inr c \<Longrightarrow>
     gated_step args g (g\<lparr>gd_run := Some c\<rparr>)"
| message: "gd_run g = Some c \<Longrightarrow> length payload \<le> 4096 \<Longrightarrow>
     gate_dispatch env now msg_type payload (c, gd_disk g) = ((c', disk'), reply) \<Longrightarrow>
     gated_step args g \<lparr>gd_disk = disk', gd_run = Some c',
       gd_accepted = gd_accepted g @ reported_accepted msg_type payload reply\<rparr>"
| die_before_reply: "gd_run g = Some c \<Longrightarrow> length payload \<le> 4096 \<Longrightarrow>
     gate_dispatch env now msg_type payload (c, gd_disk g) = ((c', disk'), reply) \<Longrightarrow>
     gated_step args g (g\<lparr>gd_disk := disk', gd_run := None\<rparr>)"
| die: "gated_step args g (g\<lparr>gd_run := None\<rparr>)"

inductive gated_reachable :: "gate_args \<Rightarrow> gated \<Rightarrow> bool" for args where
  initial: "gated_reachable args \<lparr>gd_disk = None, gd_run = None, gd_accepted = []\<rparr>"
| step: "gated_reachable args g \<Longrightarrow> gated_step args g g' \<Longrightarrow> gated_reachable args g'"

section \<open>Laws of the steps\<close>

inductive_cases gated_stepE: "gated_step args g g'"

lemma persist_locked_cases:
  assumes "wf_gate_state s"
  obtains (durable) "persist_locked env s disk = (0, Some (persisted s))"
  | (failed) code where "code \<noteq> 0" "persist_locked env s disk = (code, disk)"
proof (cases "fopen_wb (pe_tmp env)")
  case None
  then show thesis using failed [of "-1"] by (simp add: persist_locked_def)
next
  case (Some f)
  then have f: "f_data f = []" by (auto simp: fopen_wb_def)
  note eq = persist_state_eq [OF assms, of f]
  show thesis
  proof (cases "f_room f < length (persisted s) \<or> \<not> f_flush_ok f \<or> \<not> f_sync_ok f")
    case True
    then show thesis using failed [of "-1"] eq Some by (simp add: persist_locked_def)
  next
    case False
    then have "f_data (snd (fwrite (persisted s) f)) = persisted s"
      using f by (simp add: fwrite_def Let_def min_def)
    then show thesis
      using durable failed [of "-1"] eq Some False
      by (cases "pe_rename_ok env") (auto simp: persist_locked_def osal_file_atomic_replace_def)
  qed
qed

text \<open>Odd epochs are broker A's and even ones broker B's; before the first grant there is neither.\<close>

definition owner_ok :: "obicall_gate_state \<Rightarrow> bool" where
  "owner_ok s \<longleftrightarrow> gs_owner_broker_id s = 0 \<and> gs_epoch s = 0 \<or>
     gs_owner_broker_id s = 1 \<and> odd (gs_epoch s) \<or> gs_owner_broker_id s = 2 \<and> even (gs_epoch s)"

definition gate_ok :: "obicall_gate_state \<Rightarrow> bool" where
  "gate_ok s \<longleftrightarrow> wf_gate_state s \<and> owner_ok s"

lemma high_water_cong:
  "gs_pipelines s = gs_pipelines t \<Longrightarrow> gs_pipeline_count s = gs_pipeline_count t \<Longrightarrow>
     high_water s = high_water t"
  by (simp add: fun_eq_iff high_water_def find_pipeline_def)

lemma wf_gate_state_cong:
  "gs_pipelines s = gs_pipelines t \<Longrightarrow> gs_pipeline_count s = gs_pipeline_count t \<Longrightarrow>
     wf_gate_state s = wf_gate_state t"
  by (simp add: wf_gate_state_def)

lemma evaluate_promotion_cases:
  obtains (keep) "evaluate_promotion_locked env now (c, disk) = (c, disk)"
  | (bootstrap) "gs_owner_broker_id (gc_state c) = 0" "bv_known (gc_brokers c ! 1)"
      "rd_healthy (bv_readiness (gc_brokers c ! 1)) \<noteq> 0"
      "evaluate_promotion_locked env now (c, disk) = promote_locked env 1 now (c, disk)"
  | (failover) owner other where "owner = gs_owner_broker_id (gc_state c)" "owner \<noteq> 0"
      "other = (if owner = 1 then 2 else 1)"
      "bv_known (gc_brokers c ! unat owner)"
      "sint (gc_confirm_timeout_ns c) < sint (now - bv_last_heartbeat_ns (gc_brokers c ! unat owner))"
      "bv_known (gc_brokers c ! unat other)"
      "obicall_gate_shadow_promotable (Some (bv_readiness (gc_brokers c ! unat other)))
         (Some \<lparr>rp_required_config_digest = gc_required_config_digest c,
            rp_required_checkpoint_schema_version = gc_required_checkpoint_schema_version c,
            rp_max_allowed_replay_gap = gc_max_allowed_replay_gap c\<rparr>)
         (committed_high_water (gc_state c))"
      "evaluate_promotion_locked env now (c, disk) = promote_locked env other now (c, disk)"
proof (cases "gs_owner_broker_id (gc_state c) = 0")
  case True
  then show thesis
    using keep bootstrap
    by (cases "bv_known (gc_brokers c ! 1) \<and> rd_healthy (bv_readiness (gc_brokers c ! 1)) \<noteq> 0")
       (auto simp: evaluate_promotion_locked_def Let_def)
next
  case False
  define owner other where "owner = gs_owner_broker_id (gc_state c)"
    and "other = (if owner = 1 then 2 else (1 :: u32))"
  define cond where "cond \<longleftrightarrow> bv_known (gc_brokers c ! unat owner) \<and>
    sint (gc_confirm_timeout_ns c) < sint (now - bv_last_heartbeat_ns (gc_brokers c ! unat owner)) \<and>
    bv_known (gc_brokers c ! unat other) \<and>
    obicall_gate_shadow_promotable (Some (bv_readiness (gc_brokers c ! unat other)))
      (Some \<lparr>rp_required_config_digest = gc_required_config_digest c,
         rp_required_checkpoint_schema_version = gc_required_checkpoint_schema_version c,
         rp_max_allowed_replay_gap = gc_max_allowed_replay_gap c\<rparr>)
      (committed_high_water (gc_state c))"
  have eq: "evaluate_promotion_locked env now (c, disk) =
      (if cond then promote_locked env other now (c, disk) else (c, disk))"
    unfolding evaluate_promotion_locked_def Let_def prod.case owner_def [symmetric]
      other_def [symmetric] cond_def
    using False by (simp add: owner_def not_le)
  show thesis
  proof (cases cond)
    case True
    then show thesis
      using failover [OF owner_def _ other_def] False eq by (simp add: cond_def owner_def)
  next
    case no: False
    then show thesis using keep eq by simp
  qed
qed

lemma promote_locked_facts:
  assumes wf: "wf_gate_state (gc_state c)"
    and p: "promote_locked env b now (c, disk) = (c', disk')"
  shows "c' = c\<lparr>gc_state := (gc_state c)\<lparr>gs_epoch := gs_epoch (gc_state c) + 1,
      gs_owner_broker_id := b\<rparr>\<rparr>"
    and "disk' = disk \<or> disk' = Some (persisted (gc_state c'))"
proof -
  let ?s = "(gc_state c)\<lparr>gs_epoch := gs_epoch (gc_state c) + 1, gs_owner_broker_id := b\<rparr>"
  have pr: "obicall_gate_promote (Some (gc_state c)) b now (Some 0) =
      Inr (?s, gs_epoch (gc_state c) + 1)"
    by (simp add: obicall_gate_promote_def Let_def)
  then show c': "c' = c\<lparr>gc_state := ?s\<rparr>" using p by (auto simp: promote_locked_def)
  have "wf_gate_state ?s" using wf by (simp cong: wf_gate_state_cong add: wf_gate_state_def)
  then show "disk' = disk \<or> disk' = Some (persisted (gc_state c'))"
    using p pr c' by (cases rule: persist_locked_cases [of ?s env disk]) (auto simp: promote_locked_def)
qed

text \<open>What any heartbeat does: at most one promotion, to the broker the epoch's parity names.\<close>

lemma evaluate_promotion_facts:
  assumes ok: "gate_ok (gc_state c)"
    and e: "evaluate_promotion_locked env now (c, disk) = (c', disk')"
  shows "gate_ok (gc_state c')" and "high_water (gc_state c') = high_water (gc_state c)"
    and "gc_brokers c' = gc_brokers c" and "disk' = disk \<or> disk' = Some (persisted (gc_state c'))"
proof -
  have "gate_ok (gc_state c') \<and> high_water (gc_state c') = high_water (gc_state c) \<and>
      gc_brokers c' = gc_brokers c \<and> (disk' = disk \<or> disk' = Some (persisted (gc_state c')))"
  proof (cases rule: evaluate_promotion_cases [of env now c disk])
    case keep
    then show ?thesis using ok e by simp
  next
    case bootstrap
    have wf: "wf_gate_state (gc_state c)" using ok by (simp add: gate_ok_def)
    note f = promote_locked_facts [OF wf e [unfolded bootstrap(4)]]
    have "gs_epoch (gc_state c) = 0" using ok bootstrap(1) by (auto simp: gate_ok_def owner_ok_def)
    then show ?thesis
      using f wf by (auto simp: gate_ok_def owner_ok_def wf_gate_state_def intro!: high_water_cong)
  next
    case (failover owner other)
    have wf: "wf_gate_state (gc_state c)" using ok by (simp add: gate_ok_def)
    note f = promote_locked_facts [OF wf e [unfolded failover(8)]]
    have "owner_ok ((gc_state c)\<lparr>gs_epoch := gs_epoch (gc_state c) + 1, gs_owner_broker_id := other\<rparr>)"
      using ok failover(1-3) by (auto simp: gate_ok_def owner_ok_def split: if_splits)
    then show ?thesis
      using f wf by (auto simp: gate_ok_def owner_ok_def wf_gate_state_def intro!: high_water_cong)
  qed
  then show "gate_ok (gc_state c')" "high_water (gc_state c') = high_water (gc_state c)"
    "gc_brokers c' = gc_brokers c" "disk' = disk \<or> disk' = Some (persisted (gc_state c'))"
    by simp_all
qed

text \<open>The acknowledgement says what happened, and the broker reads it back.\<close>

lemma result_ack_sent:
  "length (result_ack_layout (publish_ack r outcome persisted_ok)) = 48"
  "send_result_ack (publish_ack r outcome persisted_ok) =
     Some (OBICALL_MSG_RESULT_ACK, result_ack_layout (publish_ack r outcome persisted_ok))"
  "obicall_wire_decode_result_ack (Some (result_ack_layout (publish_ack r outcome persisted_ok))) 48 (Some old) =
     Inr (publish_ack r outcome persisted_ok)"
proof -
  let ?ack = "publish_ack r outcome persisted_ok"
  have wf: "wf_result_ack ?ack" by (simp add: wf_result_ack_def publish_ack_def length_strncpy_id)
  show len: "length (result_ack_layout ?ack) = 48" using wf by (simp add: layout_simps)
  have "obicall_wire_encode_result_ack (Some ?ack) (Some (replicate 128 0)) 128 (Some 0) =
      Inr (memcpy (replicate 128 0) 0 (result_ack_layout ?ack), 48)"
    using result_ack.encode_run [OF wf, of 128 "replicate 128 0" 0] len by simp
  then show "send_result_ack ?ack = Some (OBICALL_MSG_RESULT_ACK, result_ack_layout ?ack)"
    using len by (simp add: send_result_ack_def memcpy_zero)
  show "obicall_wire_decode_result_ack (Some (result_ack_layout ?ack)) 48 (Some old) = Inr ?ack"
    using result_ack.decode_prefix [OF wf, of 48 "result_ack_layout ?ack"] len by simp
qed

lemma reported_accepted_publish:
  assumes "obicall_wire_decode_result (Some payload) (of_nat (length payload)) (Some fresh_result) = Inr r"
  shows "reported_accepted OBICALL_MSG_RESULT_PUBLISH payload
      (send_result_ack (publish_ack r outcome persisted_ok)) =
    (if outcome = OBICALL_GATE_COMMIT \<and> persisted_ok then [r] else [])"
  using assms result_ack_sent [of r outcome persisted_ok]
  by (simp add: reported_accepted_def) (simp add: publish_ack_def)

section \<open>The invariant of a run\<close>

text \<open>Every accepted result is at or below its pipeline's mark.\<close>

definition covers :: "obicall_gate_state \<Rightarrow> obicall_result list \<Rightarrow> bool" where
  "covers s acc \<longleftrightarrow> (\<forall>r \<in> set acc. \<exists>w. high_water s (res_pipeline_id r) = Some w \<and> res_window_seq r \<le> w)"

definition windows_increase :: "obicall_result list \<Rightarrow> bool" where
  "windows_increase acc \<longleftrightarrow> sorted_wrt (\<lambda>r1 r2. res_pipeline_id r1 = res_pipeline_id r2 \<longrightarrow>
     res_window_seq r1 < res_window_seq r2) acc"

definition epoch_owner :: "obicall_result \<Rightarrow> bool" where
  "epoch_owner r \<longleftrightarrow> res_broker_id r = 1 \<and> odd (res_epoch r) \<or> res_broker_id r = 2 \<and> even (res_epoch r)"

definition disk_ok :: "bytes option \<Rightarrow> obicall_result list \<Rightarrow> bool" where
  "disk_ok disk acc \<longleftrightarrow> (case disk of None \<Rightarrow> acc = []
     | Some bs \<Rightarrow> \<exists>s. gate_ok s \<and> bs = persisted s \<and> covers s acc)"

definition ctx_ok :: "gate_ctx \<Rightarrow> obicall_result list \<Rightarrow> bool" where
  "ctx_ok c acc \<longleftrightarrow> gate_ok (gc_state c) \<and> covers (gc_state c) acc"

definition gated_inv :: "gated \<Rightarrow> bool" where
  "gated_inv g \<longleftrightarrow> disk_ok (gd_disk g) (gd_accepted g) \<and>
     (\<forall>c. gd_run g = Some c \<longrightarrow> ctx_ok c (gd_accepted g)) \<and>
     windows_increase (gd_accepted g) \<and> list_all epoch_owner (gd_accepted g)"

lemma covers_commit:
  assumes "covers s acc" and "high_water s' = (high_water s)(pid \<mapsto> w)"
    and "case high_water s pid of None \<Rightarrow> True | Some w0 \<Rightarrow> w0 < w"
  shows "covers s' acc" and "r \<in> set acc \<Longrightarrow> res_pipeline_id r = pid \<Longrightarrow> res_window_seq r < w"
proof -
  show below: "res_window_seq r < w" if "r \<in> set acc" "res_pipeline_id r = pid" for r
    using assms(1,3) that by (fastforce simp: covers_def)
  show "covers s' acc"
    using assms(1,2) below by (fastforce simp: covers_def intro: less_imp_le)
qed

lemma disk_ok_persisted: "gate_ok s \<Longrightarrow> covers s acc \<Longrightarrow> disk_ok (Some (persisted s)) acc"
  by (auto simp: disk_ok_def)

lemma startup_ok:
  assumes d: "disk_ok disk acc"
  shows "\<exists>c. gate_startup args now disk = Inr c \<and> ctx_ok c acc"
proof -
  have ok: "ctx_ok c acc"
    if "gc_state c = s\<lparr>gs_struct_size := 664, gs_schema_version := 1\<rparr>" "gate_ok s" "covers s acc" for c s
  proof -
    have "high_water (gc_state c) = high_water s" using that(1) by (intro high_water_cong) simp_all
    then show ?thesis
      using that by (simp add: ctx_ok_def gate_ok_def owner_ok_def wf_gate_state_def covers_def)
  qed
  show ?thesis
  proof (cases disk)
    case None
    have "gate_ok fresh_gate_state"
      by (simp add: gate_ok_def owner_ok_def wf_gate_state_def fresh_gate_state_def
          wf_pipeline_state_def zero_pipeline_state_def)
    moreover have "acc = []" using d None by (simp add: disk_ok_def)
    ultimately show ?thesis
      using None ok [of _ fresh_gate_state] by (simp add: gate_startup_def covers_def)
  next
    case (Some bs)
    then obtain s where s: "gate_ok s" "bs = persisted s" "covers s acc"
      using d by (auto simp: disk_ok_def)
    have wf: "wf_gate_state s" using s(1) by (simp add: gate_ok_def)
    note n = norm_gate_state_laws [OF wf]
    have "fst (obicall_gate_load_state (Some (fopen_rb bs)) (Some fresh_gate_state)) =
        Inr (norm_gate_state s)"
      by (rule load_persisted [OF wf, where rest = "[]"]) (simp add: s fopen_rb_def)
    moreover have "gate_ok (norm_gate_state s)" "covers (norm_gate_state s) acc"
      using s n by (auto simp: gate_ok_def owner_ok_def covers_def abs_gate_def)
    ultimately show ?thesis using Some ok [of _ "norm_gate_state s"] by (simp add: gate_startup_def)
  qed
qed

lemma decoded_result_pid:
  assumes "obicall_wire_decode_result (Some payload) (of_nat (length payload)) (Some old) = Inr r"
    and "length payload \<le> 4096"
  shows "length (res_pipeline_id r) = 32"
proof -
  have "unat (of_nat (length payload) :: u32) = length payload"
    using assms(2) by (simp add: unat_of_nat)
  then have "encodable_result r" using result.decode_canonical(1) [OF _ assms(1)] by simp
  then show ?thesis by (rule result_facts)
qed

text \<open>
  The publish handler: either nothing that is covered changes and nothing is accepted, or the result
  is from the owner of its epoch, newer than everything accepted for its pipeline, and accepted only
  when the state that covers it is on disk.
\<close>

lemma publish_step:
  assumes ctx: "ctx_ok c acc" and disk: "disk_ok disk acc" and len: "length payload \<le> 4096"
    and h: "handle_result_publish env now payload (c, disk) = ((c', disk'), reply)"
  shows "\<exists>new. reported_accepted OBICALL_MSG_RESULT_PUBLISH payload reply = new \<and>
    ctx_ok c' (acc @ new) \<and> disk_ok disk' (acc @ new) \<and> disk_ok disk' acc \<and>
    (\<forall>r \<in> set new. epoch_owner r) \<and> windows_increase new \<and>
    (\<forall>r \<in> set new. \<forall>r0 \<in> set acc. res_pipeline_id r0 = res_pipeline_id r \<longrightarrow>
       res_window_seq r0 < res_window_seq r)"
proof (cases "obicall_wire_decode_result (Some payload) (of_nat (length payload)) (Some fresh_result)")
  case (Inl e)
  then show ?thesis
    using ctx disk h by (auto simp: handle_result_publish_def reported_accepted_def windows_increase_def)
next
  case (Inr r)
  let ?s = "gc_state c"
  have pid: "length (res_pipeline_id r) = 32" using decoded_result_pid [OF Inr len] .
  have wf: "wf_gate_state ?s" and cov: "covers ?s acc" using ctx by (simp_all add: ctx_ok_def gate_ok_def)
  obtain outcome s1 idx1 where d:
    "obicall_gate_decide_publish (Some ?s) (Some r) now (Some 0) = (outcome, s1, idx1)"
    by (metis prod_cases3)
  obtain s' where s': "s1 = Some s'" "wf_gate_state s'" and
    a: "arbiter_publish (has_room ?s (res_pipeline_id r)) now r (abs_gate ?s) = (outcome, abs_gate s')"
    using decide_publish_refines [OF wf pid d] by blast
  have own: "gs_epoch s' = gs_epoch ?s" "gs_owner_broker_id s' = gs_owner_broker_id ?s"
    using a by (auto simp: arbiter_publish_def abs_gate_def split: if_splits option.splits)
  have ok': "gate_ok s'" using ctx s'(2) own by (simp add: ctx_ok_def gate_ok_def owner_ok_def)
  show ?thesis
  proof (cases "outcome = OBICALL_GATE_COMMIT")
    case False
    then have "high_water s' = high_water ?s"
      using a by (auto simp: arbiter_publish_def abs_gate_def split: if_splits option.splits)
    moreover have "c' = c\<lparr>gc_state := s'\<rparr>" "disk' = disk"
      "reported_accepted OBICALL_MSG_RESULT_PUBLISH payload reply = []"
      using h False reported_accepted_publish [OF Inr, of outcome]
      by (auto simp: handle_result_publish_def Inr d s'(1) Let_def)
    ultimately show ?thesis
      using ok' cov disk by (simp add: ctx_ok_def covers_def windows_increase_def)
  next
    case True
    have hw: "high_water s' = (high_water ?s)(res_pipeline_id r \<mapsto> res_window_seq r)"
      and newer: "case high_water ?s (res_pipeline_id r) of None \<Rightarrow> True | Some w \<Rightarrow> w < res_window_seq r"
      and br: "res_broker_id r = gs_owner_broker_id ?s" "res_epoch r = gs_epoch ?s"
        "gs_owner_broker_id ?s \<noteq> 0"
      using a True
      by (auto simp: arbiter_publish_def abs_gate_def not_le split: if_splits option.splits)
    note cc = covers_commit [OF cov hw newer]
    have cov': "covers s' (acc @ [r])" using cc(1) hw by (simp add: covers_def)
    have eo: "epoch_owner r"
      using ctx br by (auto simp: ctx_ok_def gate_ok_def owner_ok_def epoch_owner_def)
    have c': "c' = c\<lparr>gc_state := s'\<rparr>" and
      rep: "reported_accepted OBICALL_MSG_RESULT_PUBLISH payload reply =
        (if fst (persist_locked env s' disk) = 0 then [r] else [])"
      and disk': "disk' = snd (persist_locked env s' disk)"
      using h True reported_accepted_publish [OF Inr, of outcome]
      by (auto simp: handle_result_publish_def Inr d s'(1) Let_def split: prod.splits)
    show ?thesis
    proof (cases rule: persist_locked_cases [OF s'(2), of env disk])
      case 1
      then show ?thesis
        using rep c' disk' cov' cc ok' eo
        by (simp add: ctx_ok_def disk_ok_persisted windows_increase_def)
    next
      case (2 code)
      then show ?thesis
        using rep c' disk' cc(1) ok' disk by (simp add: ctx_ok_def windows_increase_def)
    qed
  qed
qed

lemma dispatch_step:
  assumes ctx: "ctx_ok c acc" and disk: "disk_ok disk acc" and len: "length payload \<le> 4096"
    and h: "gate_dispatch env now msg_type payload (c, disk) = ((c', disk'), reply)"
  shows "\<exists>new. reported_accepted msg_type payload reply = new \<and>
    ctx_ok c' (acc @ new) \<and> disk_ok disk' (acc @ new) \<and> disk_ok disk' acc \<and>
    (\<forall>r \<in> set new. epoch_owner r) \<and> windows_increase new \<and>
    (\<forall>r \<in> set new. \<forall>r0 \<in> set acc. res_pipeline_id r0 = res_pipeline_id r \<longrightarrow>
       res_window_seq r0 < res_window_seq r)"
proof (cases "msg_type = OBICALL_MSG_RESULT_PUBLISH")
  case True
  then show ?thesis using publish_step [OF ctx disk len] h by (simp add: gate_dispatch_def)
next
  case False
  then have "reported_accepted msg_type payload reply = []"
    by (auto simp: reported_accepted_def split: sum.splits option.splits prod.splits)
  moreover have "ctx_ok c' acc \<and> disk_ok disk' acc"
  proof (cases "msg_type = OBICALL_MSG_HEARTBEAT \<and> (c', disk') \<noteq> (c, disk)")
    case True
    then obtain hb where e: "evaluate_promotion_locked env now (record_heartbeat now hb c, disk) =
        (c', disk')"
      using h by (auto simp: gate_dispatch_def handle_heartbeat_def Let_def split: sum.splits if_splits)
    have st: "gc_state (record_heartbeat now hb c) = gc_state c" by (simp add: record_heartbeat_def)
    have "gate_ok (gc_state (record_heartbeat now hb c))" using ctx st by (simp add: ctx_ok_def)
    note f = evaluate_promotion_facts [OF this e]
    then have "ctx_ok c' acc" using ctx st by (simp add: ctx_ok_def covers_def)
    then show ?thesis using f(4) disk by (auto simp: ctx_ok_def intro: disk_ok_persisted)
  next
    case no: False
    then have "(c', disk') = (c, disk)"
      using h False
      by (auto simp: gate_dispatch_def handle_status_query_def split: if_splits)
    then show ?thesis using ctx disk by simp
  qed
  ultimately show ?thesis by (simp add: windows_increase_def)
qed

lemma gated_step_inv: "gated_step args g g' \<Longrightarrow> gated_inv g \<Longrightarrow> gated_inv g'"
proof (induction rule: gated_step.induct)
  case (start g now c)
  then show ?case
    using startup_ok [of "gd_disk g" "gd_accepted g" args now] by (auto simp: gated_inv_def)
next
  case (message g c payload env now msg_type c' disk' reply)
  then have "ctx_ok c (gd_accepted g)" "disk_ok (gd_disk g) (gd_accepted g)"
    by (simp_all add: gated_inv_def)
  from dispatch_step [OF this message(2,3)] message.prems show ?case
    by (auto simp: gated_inv_def windows_increase_def sorted_wrt_append list_all_iff)
next
  case (die_before_reply g c payload env now msg_type c' disk' reply)
  then have "ctx_ok c (gd_accepted g)" "disk_ok (gd_disk g) (gd_accepted g)"
    by (simp_all add: gated_inv_def)
  from dispatch_step [OF this die_before_reply(2,3)] die_before_reply.prems show ?case
    by (auto simp: gated_inv_def)
next
  case (die g)
  then show ?case by (simp add: gated_inv_def)
qed

lemma reachable_inv: "gated_reachable args g \<Longrightarrow> gated_inv g"
proof (induction rule: gated_reachable.induct)
  case initial
  show ?case by (simp add: gated_inv_def disk_ok_def windows_increase_def)
next
  case (step g g')
  then show ?case using gated_step_inv by blast
qed

section \<open>A concrete run\<close>

text \<open>The gate starts without a state file, grants broker A, and accepts two windows of one pipeline.\<close>

definition example_args :: gate_args where
  "example_args = \<lparr>ga_required_config_digest = replicate 32 0, ga_max_allowed_replay_gap = 50,
     ga_confirm_timeout_ns = 700\<rparr>"

definition example_env :: persist_env where
  "example_env = \<lparr>pe_tmp = Some \<lparr>f_data = [], f_pos = 0, f_room = 4096, f_eof = False,
     f_flush_ok = True, f_sync_ok = True\<rparr>, pe_rename_ok = True\<rparr>"

definition example_heartbeat :: "u32 \<Rightarrow> obicall_msg_heartbeat" where
  "example_heartbeat b = \<lparr>hb_broker_id = b, hb_epoch = 0, hb_last_window_seq = 0,
     hb_config_digest = replicate 32 0, hb_checkpoint_schema_version = 1, hb_healthy = 1,
     hb_sent_at_ns = 5\<rparr>"

lemma example_env_persists:
  assumes "wf_gate_state s"
  shows "persist_locked example_env s disk = (0, Some (persisted s))"
  using persist_state_eq [OF assms] gate_state_layout_bounds(1) [OF assms]
  by (simp add: persist_locked_def example_env_def fopen_wb_def fwrite_def Let_def
      length_persisted osal_file_atomic_replace_def)

lemma example_heartbeat_wf: "wf_heartbeat (example_heartbeat b)"
  by (simp add: wf_heartbeat_def example_heartbeat_def)

lemma example_grant:
  "\<exists>g c. gated_reachable example_args g \<and> gd_run g = Some c \<and> gd_accepted g = [] \<and>
     gate_ok (gc_state c) \<and> gs_owner_broker_id (gc_state c) = 1 \<and> gs_epoch (gc_state c) = 1 \<and>
     high_water (gc_state c) pid = None \<and> has_room (gc_state c) pid"
proof -
  let ?g0 = "\<lparr>gd_disk = None, gd_run = None, gd_accepted = []\<rparr> :: gated"
  obtain c0 where c0: "gate_startup example_args 0 None = Inr c0" "ctx_ok c0 []"
    using startup_ok [of None "[]" example_args 0] by (auto simp: disk_ok_def)
  have c0': "gs_owner_broker_id (gc_state c0) = 0" "gs_epoch (gc_state c0) = 0"
    "gs_pipeline_count (gc_state c0) = 0" "length (gc_brokers c0) = 3"
    using c0(1) by (auto simp: gate_startup_def fresh_gate_state_def)
  let ?hb = "example_heartbeat 1"
  let ?c1 = "record_heartbeat 10 ?hb c0"
  have wf: "wf_gate_state (gc_state ?c1)"
    using c0(2) by (simp add: ctx_ok_def gate_ok_def record_heartbeat_def)
  have e: "evaluate_promotion_locked example_env 10 (?c1, None) =
      promote_locked example_env 1 10 (?c1, None)"
    using c0' by (simp add: evaluate_promotion_locked_def record_heartbeat_def Let_def
        example_heartbeat_def)
  obtain c2 d2 where p: "promote_locked example_env 1 10 (?c1, None) = (c2, d2)" by fastforce
  note f = promote_locked_facts [OF wf p]
  have len: "length (heartbeat_layout ?hb) = 68"
    using example_heartbeat_wf by (simp add: layout_simps)
  have dec: "obicall_wire_decode_heartbeat (Some (heartbeat_layout ?hb)) 68 (Some fresh_heartbeat) = Inr ?hb"
    using heartbeat.decode_prefix [OF example_heartbeat_wf, of 68 "heartbeat_layout ?hb"] len by simp
  have d: "gate_dispatch example_env 10 OBICALL_MSG_HEARTBEAT (heartbeat_layout ?hb) (c0, None) =
      ((c2, d2), send_status_reply (status_reply 10 c2))"
    using e p len dec
    by (simp add: gate_dispatch_def handle_heartbeat_def Let_def) (simp add: example_heartbeat_def)
  have r0: "gated_reachable example_args (?g0\<lparr>gd_run := Some c0\<rparr>)"
    using c0(1) by (intro gated_reachable.step [OF gated_reachable.initial] gated_step.start) simp_all
  have "gated_step example_args (?g0\<lparr>gd_run := Some c0\<rparr>)
      \<lparr>gd_disk = d2, gd_run = Some c2, gd_accepted = [] @
         reported_accepted OBICALL_MSG_HEARTBEAT (heartbeat_layout ?hb)
           (send_status_reply (status_reply 10 c2))\<rparr>"
    using gated_step.message [of "?g0\<lparr>gd_run := Some c0\<rparr>" c0 "heartbeat_layout ?hb" example_env 10
        OBICALL_MSG_HEARTBEAT c2 d2] d len by simp
  moreover have "reported_accepted OBICALL_MSG_HEARTBEAT (heartbeat_layout ?hb)
      (send_status_reply (status_reply 10 c2)) = []"
    by (auto simp: reported_accepted_def split: sum.splits option.splits)
  ultimately have "gated_reachable example_args \<lparr>gd_disk = d2, gd_run = Some c2, gd_accepted = []\<rparr>"
    using gated_reachable.step [OF r0] by simp
  moreover have "gate_ok (gc_state c2)"
    using wf c0' by (simp add: f(1) gate_ok_def owner_ok_def wf_gate_state_def record_heartbeat_def)
  moreover have "find_pipeline (gc_state c2) pid = 8"
    using c0' by (simp add: f(1) find_pipeline_def record_heartbeat_def)
  ultimately show ?thesis
    using c0' by (intro exI [of _ "\<lparr>gd_disk = d2, gd_run = Some c2, gd_accepted = []\<rparr>"] exI [of _ c2])
      (simp add: f(1) record_heartbeat_def high_water_def has_room_def)
qed

lemma example_accept:
  assumes g: "gated_reachable args g" "gd_run g = Some c" and wf: "gate_ok (gc_state c)"
    and r: "encodable_result r" "norm_result r = r" and
    commit: "arbiter_publish (has_room (gc_state c) (res_pipeline_id r)) 100 r (abs_gate (gc_state c)) =
      (OBICALL_GATE_COMMIT, a)"
  shows "\<exists>g' c'. gated_reachable args g' \<and> gd_run g' = Some c' \<and> gate_ok (gc_state c') \<and>
    gd_accepted g' = gd_accepted g @ [r] \<and> abs_gate (gc_state c') = a"
proof -
  let ?p = "result_layout r"
  have len: "length ?p \<le> 756" using result_facts(8,9,10) [OF r(1)] by (simp add: length_result_layout [OF r(1)])
  then have un: "unat (of_nat (length ?p) :: u32) = length ?p" by (simp add: unat_of_nat)
  have dec: "obicall_wire_decode_result (Some ?p) (of_nat (length ?p)) (Some fresh_result) = Inr r"
    using result.decode_prefix [OF r(1), of "of_nat (length ?p)" ?p] un r(2) by simp
  have wf': "wf_gate_state (gc_state c)" and pid: "length (res_pipeline_id r) = 32"
    using wf result_facts(1) [OF r(1)] by (simp_all add: gate_ok_def)
  obtain outcome s1 idx1 where d:
    "obicall_gate_decide_publish (Some (gc_state c)) (Some r) 100 (Some 0) = (outcome, s1, idx1)"
    by (metis prod_cases3)
  then obtain s' where s': "s1 = Some s'" "wf_gate_state s'" "outcome = OBICALL_GATE_COMMIT"
    "abs_gate s' = a" using decide_publish_refines [OF wf' pid d] commit by auto
  let ?c' = "c\<lparr>gc_state := s'\<rparr>"
  let ?reply = "send_result_ack (publish_ack r OBICALL_GATE_COMMIT True)"
  have "gate_dispatch example_env 100 OBICALL_MSG_RESULT_PUBLISH ?p (c, gd_disk g) =
      ((?c', Some (persisted s')), ?reply)"
    using s' d dec by (simp add: gate_dispatch_def handle_result_publish_def example_env_persists)
  from gated_step.message [OF g(2) _ this] have "gated_step args g
      \<lparr>gd_disk = Some (persisted s'), gd_run = Some ?c', gd_accepted = gd_accepted g @ [r]\<rparr>"
    using len reported_accepted_publish [OF dec, of OBICALL_GATE_COMMIT True] by simp
  moreover have "a = (abs_gate (gc_state c))\<lparr>ar_committed :=
      (high_water (gc_state c))(res_pipeline_id r \<mapsto> res_window_seq r)\<rparr>"
    using commit by (simp add: arbiter_publish_def abs_gate_def split: if_splits)
  then have "gate_ok s'" using wf s'(2,4) by (simp add: gate_ok_def owner_ok_def abs_gate_def)
  ultimately show ?thesis using gated_reachable.step [OF g(1)] s'(4) by fastforce
qed

definition example_window :: "u64 \<Rightarrow> obicall_result" where
  "example_window w = example_gate_result\<lparr>res_window_seq := w\<rparr>"

lemma example_window_ok:
  "encodable_result (example_window w)" "norm_result (example_window w) = example_window w"
  by (simp_all add: encodable_result_def wf_result_def norm_result_def example_window_def
      example_gate_result_def memcpy_replicate
      memcpy_replicate [of 1, simplified] flip: zero_double_def)

lemma example_run:
  "\<exists>g c. gated_reachable example_args g \<and> gd_run g = Some c \<and> gate_ok (gc_state c) \<and>
     gd_accepted g = [example_window 9, example_window 10] \<and>
     gs_owner_broker_id (gc_state c) = 1 \<and> gs_epoch (gc_state c) = 1"
proof -
  let ?pid = "res_pipeline_id example_gate_result"
  obtain g c where g: "gated_reachable example_args g" "gd_run g = Some c" "gd_accepted g = []"
    "gate_ok (gc_state c)" and s: "gs_owner_broker_id (gc_state c) = 1" "gs_epoch (gc_state c) = 1"
    "high_water (gc_state c) ?pid = None" "has_room (gc_state c) ?pid"
    using example_grant by blast
  have "arbiter_publish (has_room (gc_state c) ?pid) 100 (example_window 9) (abs_gate (gc_state c)) =
      (OBICALL_GATE_COMMIT, (abs_gate (gc_state c))\<lparr>ar_committed :=
        (high_water (gc_state c))(?pid \<mapsto> 9)\<rparr>)"
    using s by (simp add: arbiter_publish_def abs_gate_def example_window_def)
      (simp add: example_gate_result_def)
  then obtain g1 c1 where g1: "gated_reachable example_args g1" "gd_run g1 = Some c1"
    "gate_ok (gc_state c1)" "gd_accepted g1 = [example_window 9]" and
    a1: "abs_gate (gc_state c1) = (abs_gate (gc_state c))\<lparr>ar_committed :=
        (high_water (gc_state c))(?pid \<mapsto> 9)\<rparr>"
    using example_accept [OF g(1,2,4) example_window_ok, of 9] g(3) by (auto simp: example_window_def)
  have s1: "gs_owner_broker_id (gc_state c1) = 1" "gs_epoch (gc_state c1) = 1"
    "high_water (gc_state c1) ?pid = Some 9"
    using a1 s by (simp_all add: abs_gate_def)
  then have "has_room (gc_state c1) ?pid" by (auto simp: has_room_def high_water_def Let_def)
  then have "arbiter_publish (has_room (gc_state c1) ?pid) 100 (example_window 10)
      (abs_gate (gc_state c1)) = (OBICALL_GATE_COMMIT, (abs_gate (gc_state c1))\<lparr>ar_committed :=
        (high_water (gc_state c1))(?pid \<mapsto> 10)\<rparr>)"
    using s1 by (simp add: arbiter_publish_def abs_gate_def example_window_def)
      (simp add: example_gate_result_def)
  then obtain g2 c2 where "gated_reachable example_args g2" "gd_run g2 = Some c2"
    "gate_ok (gc_state c2)" "gd_accepted g2 = [example_window 9, example_window 10]"
    "abs_gate (gc_state c2) = (abs_gate (gc_state c1))\<lparr>ar_committed :=
        (high_water (gc_state c1))(?pid \<mapsto> 10)\<rparr>"
    using example_accept [OF g1(1-3) example_window_ok, of 10] g1(4) by (auto simp: example_window_def)
  then show ?thesis using s1 by (intro exI [of _ g2] exI [of _ c2]) (simp add: abs_gate_def)
qed

section \<open>What brokers can rely on\<close>

text \<open>
  C1: exactly-once publication. In every run of the gate, whatever its brokers send, whichever of its
  writes fail, and however often it dies (also after persisting and before replying) and is restarted,
  the results it reports as accepted have strictly increasing windows for each pipeline.
\<close>

theorem accepted_windows_increase:
  assumes "gated_reachable args g"
  shows "sorted_wrt (\<lambda>r1 r2. res_pipeline_id r1 = res_pipeline_id r2 \<longrightarrow>
    res_window_seq r1 < res_window_seq r2) (gd_accepted g)"
  using reachable_inv [OF assms] by (simp add: gated_inv_def windows_increase_def)

theorem accepted_windows_increase_witness:
  "\<exists>g. gated_reachable example_args g \<and> gd_accepted g = [example_window 9, example_window 10] \<and>
    sorted_wrt (\<lambda>r1 r2. res_pipeline_id r1 = res_pipeline_id r2 \<longrightarrow>
      res_window_seq r1 < res_window_seq r2) (gd_accepted g)"
  using example_run accepted_windows_increase by blast

text \<open>
  C2: one owner per epoch. In every run, crashes, restarts and failed persists of a promotion included,
  two results accepted under the same epoch come from the same broker, which is also the broker that the
  gate names as the owner whenever it is in that epoch; so two brokers never publish side by side.
\<close>

theorem epoch_has_one_owner:
  assumes "gated_reachable args g" and "r1 \<in> set (gd_accepted g)" and "r2 \<in> set (gd_accepted g)"
    and "res_epoch r1 = res_epoch r2" and "gd_run g = Some c"
  shows "res_broker_id r1 = res_broker_id r2 \<and>
    (gs_epoch (gc_state c) = res_epoch r1 \<and> gs_owner_broker_id (gc_state c) \<noteq> OBICALL_BROKER_NONE \<longrightarrow>
       gs_owner_broker_id (gc_state c) = res_broker_id r1)"
proof -
  have "epoch_owner r1" "epoch_owner r2" "owner_ok (gc_state c)"
    using reachable_inv [OF assms(1)] assms(2,3,5)
    by (auto simp: gated_inv_def list_all_iff ctx_ok_def gate_ok_def)
  then show ?thesis using assms(4) by (auto simp: epoch_owner_def owner_ok_def)
qed

theorem epoch_has_one_owner_witness:
  "\<exists>g c r1 r2. gated_reachable example_args g \<and> r1 \<in> set (gd_accepted g) \<and> r2 \<in> set (gd_accepted g) \<and>
    r1 \<noteq> r2 \<and> gd_run g = Some c \<and> gs_epoch (gc_state c) = res_epoch r1 \<and>
    gs_owner_broker_id (gc_state c) = res_broker_id r1 \<and> res_broker_id r1 = res_broker_id r2"
proof -
  obtain g c where g: "gated_reachable example_args g" "gd_run g = Some c"
    "gd_accepted g = [example_window 9, example_window 10]"
    "gs_owner_broker_id (gc_state c) = 1" "gs_epoch (gc_state c) = 1"
    using example_run by blast
  have w: "res_epoch (example_window 9) = res_epoch (example_window 10)"
    "res_epoch (example_window 9) = 1" "example_window 9 \<noteq> example_window 10"
    by (simp_all add: example_window_def example_gate_result_def)
  have "example_window 9 \<in> set (gd_accepted g)" "example_window 10 \<in> set (gd_accepted g)"
    using g(3) by simp_all
  from epoch_has_one_owner [OF g(1) this w(1) g(2)] this show ?thesis
    using g w by (intro exI [of _ g] exI [of _ c] exI [of _ "example_window 9"]
        exI [of _ "example_window 10"]) auto
qed

text \<open>
  C3: an acceptance survives. At any point of any run the gate can be restarted from its state file
  (its own file is never refused), and the restarted gate does not commit anything at or below a window
  that was ever reported as accepted for the pipeline.
\<close>

theorem accepted_is_durable:
  assumes "gated_reachable args g" and "r \<in> set (gd_accepted g)"
    and "res_pipeline_id r' = res_pipeline_id r" and "res_window_seq r' \<le> res_window_seq r"
    and "length (res_pipeline_id r') = 32"
  shows "\<exists>c. gate_startup args now (gd_disk g) = Inr c \<and>
    fst (obicall_gate_decide_publish (Some (gc_state c)) (Some r') now' idx) \<noteq> OBICALL_GATE_COMMIT"
proof -
  have "disk_ok (gd_disk g) (gd_accepted g)"
    using reachable_inv [OF assms(1)] by (simp add: gated_inv_def)
  then obtain c where c: "gate_startup args now (gd_disk g) = Inr c" "ctx_ok c (gd_accepted g)"
    using startup_ok by blast
  then have wf: "wf_gate_state (gc_state c)" and
    "\<exists>w. high_water (gc_state c) (res_pipeline_id r) = Some w \<and> res_window_seq r \<le> w"
    using assms(2) by (auto simp: ctx_ok_def gate_ok_def covers_def)
  then obtain w where w: "high_water (gc_state c) (res_pipeline_id r') = Some w" "res_window_seq r' \<le> w"
    using assms(3,4) order_trans by fastforce
  obtain outcome s1 idx1 where d:
    "obicall_gate_decide_publish (Some (gc_state c)) (Some r') now' idx = (outcome, s1, idx1)"
    by (metis prod_cases3)
  obtain s' where "arbiter_publish (has_room (gc_state c) (res_pipeline_id r')) now' r'
      (abs_gate (gc_state c)) = (outcome, abs_gate s')"
    using decide_publish_refines [OF wf assms(5) d] by blast
  then have "outcome \<noteq> OBICALL_GATE_COMMIT"
    using w by (auto simp: arbiter_publish_def abs_gate_def split: if_splits)
  then show ?thesis using c d by auto
qed

theorem accepted_is_durable_witness:
  "\<exists>g c. gated_reachable example_args g \<and> gate_startup example_args 0 (gd_disk g) = Inr c \<and>
    fst (obicall_gate_decide_publish (Some (gc_state c)) (Some (example_window 9)) 100 None) \<noteq>
      OBICALL_GATE_COMMIT"
proof -
  obtain g where g: "gated_reachable example_args g" "example_window 9 \<in> set (gd_accepted g)"
    using example_run by fastforce
  show ?thesis
    using accepted_is_durable [OF g, of "example_window 9" 0 100 None] g(1)
    by (auto simp: example_window_def example_gate_result_def)
qed

text \<open>
  C21: a message changes the epoch only when it is a heartbeat, and only by one grant: the first one to a
  healthy broker A, or one to the other broker when the owner has been silent for longer than the
  confirmation timeout and the other one is healthy, has the configuration and checkpoint schema the gate
  requires and is within the replay gap of everything committed.
\<close>

theorem promotion_is_justified:
  assumes "gate_ok (gc_state c)"
    and "gate_dispatch env now msg_type payload (c, disk) = ((c', disk'), reply)"
    and "gs_epoch (gc_state c') \<noteq> gs_epoch (gc_state c)"
  shows "msg_type = OBICALL_MSG_HEARTBEAT \<and>
    gs_epoch (gc_state c') = gs_epoch (gc_state c) + 1 \<and>
    (let owner = gs_owner_broker_id (gc_state c);
         owner' = gs_owner_broker_id (gc_state c');
         rd = bv_readiness (gc_brokers c' ! unat owner')
     in rd_healthy rd \<noteq> 0 \<and> bv_known (gc_brokers c' ! unat owner') \<and>
        (if owner = OBICALL_BROKER_NONE then owner' = OBICALL_BROKER_A
         else owner' = (if owner = OBICALL_BROKER_A then OBICALL_BROKER_B else OBICALL_BROKER_A) \<and>
           sint (gc_confirm_timeout_ns c) <
             sint (now - bv_last_heartbeat_ns (gc_brokers c' ! unat owner)) \<and>
           rd_config_digest rd = gc_required_config_digest c \<and>
           rd_checkpoint_schema_version rd = gc_required_checkpoint_schema_version c \<and>
           committed_high_water (gc_state c) \<le>
             rd_last_processed_window_seq rd + gc_max_allowed_replay_gap c))"
proof -
  have hb: "msg_type = OBICALL_MSG_HEARTBEAT"
  proof (rule ccontr)
    assume ne: "msg_type \<noteq> OBICALL_MSG_HEARTBEAT"
    show False
    proof (cases "msg_type = OBICALL_MSG_RESULT_PUBLISH")
      case True
      have "gs_epoch (the (fst (snd (obicall_gate_decide_publish (Some s) (Some r) t i)))) = gs_epoch s"
        for s r t i
        by (auto simp: obicall_gate_decide_publish_def claim_slot_def arbitrate_def Let_def
            split: if_splits option.splits prod.splits)
      then show False
        using assms(2,3) True
        by (auto simp: gate_dispatch_def handle_result_publish_def case_prod_unfold Let_def
            split: sum.splits)
    next
      case False
      then show False
        using assms(2,3) ne by (auto simp: gate_dispatch_def handle_status_query_def split: if_splits)
    qed
  qed
  then obtain h where e: "evaluate_promotion_locked env now (record_heartbeat now h c, disk) = (c', disk')"
    using assms(2,3) by (auto simp: gate_dispatch_def handle_heartbeat_def Let_def split: sum.splits if_splits)
  let ?c = "record_heartbeat now h c"
  have same: "gc_state ?c = gc_state c" "gc_confirm_timeout_ns ?c = gc_confirm_timeout_ns c"
    "gc_required_config_digest ?c = gc_required_config_digest c"
    "gc_required_checkpoint_schema_version ?c = gc_required_checkpoint_schema_version c"
    "gc_max_allowed_replay_gap ?c = gc_max_allowed_replay_gap c"
    by (simp_all add: record_heartbeat_def)
  have wf: "wf_gate_state (gc_state ?c)" using assms(1) same by (simp add: gate_ok_def)
  show ?thesis
  proof (cases rule: evaluate_promotion_cases [of env now ?c disk])
    case keep
    then show ?thesis using e assms(3) same by simp
  next
    case bootstrap
    note f = promote_locked_facts [OF wf e [unfolded bootstrap(4)]]
    show ?thesis using hb bootstrap(1-3) same by (simp add: f(1) Let_def)
  next
    case (failover owner other)
    note f = promote_locked_facts [OF wf e [unfolded failover(8)]]
    have "other \<noteq> 0" using failover(3) by simp
    then show ?thesis
      using hb failover(1-7) same
      by (simp add: f(1) Let_def obicall_gate_shadow_promotable_def not_less split: if_splits)
  qed
qed

text \<open>A gate in epoch 1 under broker A, last heard at time 0, with broker B never heard.\<close>

definition example_ctx :: gate_ctx where
  "example_ctx = \<lparr>gc_state = example_gate_state,
     gc_brokers = [fresh_broker_view, fresh_broker_view\<lparr>bv_known := True\<rparr>, fresh_broker_view],
     gc_required_config_digest = replicate 32 0, gc_required_checkpoint_schema_version = 1,
     gc_max_allowed_replay_gap = 50, gc_confirm_timeout_ns = 700, gc_start_time_ns = 0\<rparr>"

lemma example_ctx_facts:
  "gate_ok (gc_state example_ctx)" "length (gc_brokers example_ctx) = 3"
  "gs_owner_broker_id (gc_state example_ctx) = 1" "bv_known (gc_brokers example_ctx ! 1)"
  "bv_last_heartbeat_ns (gc_brokers example_ctx ! 1) = 0" "gc_confirm_timeout_ns example_ctx = 700"
  "gc_required_config_digest example_ctx = replicate 32 0"
  "gc_required_checkpoint_schema_version example_ctx = 1"
  "gc_max_allowed_replay_gap example_ctx = 50" "committed_high_water (gc_state example_ctx) = 8"
  "gs_epoch (gc_state example_ctx) = 1"
  using example_gate_state_wf
  by (simp_all add: example_ctx_def gate_ok_def owner_ok_def fresh_broker_view_def)
     (simp_all add: example_gate_state_def committed_high_water_def)

lemma example_failover:
  "\<exists>c' disk' reply. gate_dispatch example_env 1000 OBICALL_MSG_HEARTBEAT
      (heartbeat_layout (example_heartbeat 2)) (example_ctx, None) = ((c', disk'), reply) \<and>
    gs_epoch (gc_state c') = 2"
proof -
  let ?hb = "example_heartbeat 2"
  let ?c = "record_heartbeat 1000 ?hb example_ctx"
  note ex = example_ctx_facts
  have len: "length (heartbeat_layout ?hb) = 68" using example_heartbeat_wf by (simp add: layout_simps)
  have dec: "obicall_wire_decode_heartbeat (Some (heartbeat_layout ?hb)) 68 (Some fresh_heartbeat) = Inr ?hb"
    using heartbeat.decode_prefix [OF example_heartbeat_wf, of 68 "heartbeat_layout ?hb"] len by simp
  have e: "evaluate_promotion_locked example_env 1000 (?c, None) =
      promote_locked example_env 2 1000 (?c, None)"
    using ex by (simp add: evaluate_promotion_locked_def record_heartbeat_def Let_def
        obicall_gate_shadow_promotable_def example_heartbeat_def)
  obtain c' disk' where p: "promote_locked example_env 2 1000 (?c, None) = (c', disk')" by fastforce
  have "wf_gate_state (gc_state ?c)" using ex(1) by (simp add: gate_ok_def record_heartbeat_def)
  note f = promote_locked_facts [OF this p]
  have "gs_epoch (gc_state c') = 2" using ex(11) by (simp add: f(1) record_heartbeat_def)
  then show ?thesis
    using e p len dec by (simp add: gate_dispatch_def handle_heartbeat_def Let_def)
      (simp add: example_heartbeat_def)
qed

theorem promotion_is_justified_witness:
  "\<exists>c' disk' reply. gate_dispatch example_env 1000 OBICALL_MSG_HEARTBEAT
      (heartbeat_layout (example_heartbeat 2)) (example_ctx, None) = ((c', disk'), reply) \<and>
    gs_epoch (gc_state c') = gs_epoch (gc_state example_ctx) + 1 \<and>
    gs_owner_broker_id (gc_state c') = OBICALL_BROKER_B"
proof -
  obtain c' disk' reply where d: "gate_dispatch example_env 1000 OBICALL_MSG_HEARTBEAT
      (heartbeat_layout (example_heartbeat 2)) (example_ctx, None) = ((c', disk'), reply)"
    "gs_epoch (gc_state c') = 2" using example_failover by blast
  have "gs_epoch (gc_state c') \<noteq> gs_epoch (gc_state example_ctx)"
    using d(2) example_ctx_facts(11) by simp
  from promotion_is_justified [OF example_ctx_facts(1) d(1) this] show ?thesis
    using d(1) example_ctx_facts(3) by (auto simp: Let_def)
qed



text \<open>
  a gate whose state file is damaged within four consecutive bytes of its payload refuses to start.
\<close>

theorem damaged_state_refused:
  assumes "wf_gate_state s" and "gate_state_layout s = xs @ bs @ ys"
    and "length bs' = length bs" and "length bs \<le> 4" and "bs' \<noteq> bs"
  shows "gate_startup args now (Some (take 16 (persisted s) @ xs @ bs' @ ys)) = Inl 3"
  using load_damaged [OF assms, of "fopen_rb (take 16 (persisted s) @ xs @ bs' @ ys)" "[]"
      fresh_gate_state]
  by (simp add: gate_startup_def fopen_rb_def)

theorem damaged_state_refused_witness:
  "\<exists>ys. gate_startup example_args 0 (Some (take 16 (persisted example_gate_state) @ [] @ [9, 9] @ ys)) =
    Inl 3"
proof -
  have "take 2 (gate_state_layout example_gate_state) = [0x98, 2]"
    by (simp add: gate_state_layout_def le_bytes_def example_gate_state_def upt_rec)
  then obtain ys where "gate_state_layout example_gate_state = [] @ [0x98, 2] @ ys"
    by (metis append_Nil append_take_drop_id)
  then show ?thesis
    using damaged_state_refused [OF example_gate_state_wf, of "[]" "[0x98, 2]" ys "[9, 9]"
        example_args 0] by (intro exI [of _ ys]) simp
qed

text \<open>
  After a restart no broker is known. Until the recorded owner itself is heard from again, heartbeats of
  the other broker never promote it, however long the owner stays silent.
\<close>

lemma restart_blocks_failover:
  assumes "gs_owner_broker_id (gc_state c) = owner" and "owner \<noteq> OBICALL_BROKER_NONE"
    and "\<not> bv_known (gc_brokers c ! unat owner)" and "hb_broker_id hb \<noteq> owner"
  shows "evaluate_promotion_locked env now (record_heartbeat now hb c, disk) =
    (record_heartbeat now hb c, disk)"
proof -
  have "unat (hb_broker_id hb) \<noteq> unat owner" using assms(4) by (simp add: word_unat_eq_iff)
  then show ?thesis using assms by (simp add: evaluate_promotion_locked_def record_heartbeat_def Let_def)
qed

end
