(* ===== verification/Journal_Daemon.thy ===== *)
theory Journal_Daemon
  imports Journal Wire_Control
begin

text \<open>
  \<^verbatim>\<open>src/journal/journal_main.c\<close>: the admission journal process. Worker threads admit observations
  under the mutex, one subscriber thread per broker copies the ring to its connection. A locked section
  is one step; the system is the interleaving of these steps, with the unbounded log of all windows as a
  ghost. The ring holds the last 4096 entries of the log, the segment file the records of the log, and a
  subscriber that is never overrun sends exactly a contiguous part of the log.
\<close>

section \<open>State\<close>

abbreviation (input) MAX_SENSOR_TRACKS :: u32 where "MAX_SENSOR_TRACKS \<equiv> 32"
abbreviation (input) RING_CAPACITY :: u64 where "RING_CAPACITY \<equiv> 4096"
abbreviation (input) MAX_CONNECTIONS :: nat where "MAX_CONNECTIONS \<equiv> 16"

record ring_entry =
  re_window_seq :: u64
  re_admission_reason :: u32
  re_obs :: obicall_observation

record conn_slot =
  cs_in_use :: bool
  cs_role :: u32
  cs_next_seq_to_send :: u64
  cs_caught_up :: bool

record journal_state =
  js_pipeline_id :: bytes
  js_cfg :: obicall_journal_config
  js_tracks :: "obicall_sensor_track list"
  js_track_count :: u32
  js_ring :: "ring_entry list"
  js_ring_head :: u64
  js_next_window_seq :: u64
  js_conns :: "conn_slot list"
  js_segment_file :: "FILE option"

section \<open>Admission under the lock\<close>

definition zero_track :: obicall_sensor_track where
  "zero_track = \<lparr>tr_sensor_id = replicate 32 0, tr_source_boot_id = 0, tr_has_data = 0,
     tr_highest_sequence_seen = 0, tr_watermark_sample_time_ns = 0\<rparr>"

text \<open>The index of the track, or \<open>None\<close> for \<^verbatim>\<open>NULL\<close>.\<close>

definition find_or_create_track :: "bytes \<Rightarrow> journal_state \<Rightarrow> (nat \<times> journal_state) option" where
  "find_or_create_track sensor_id s =
     (case List.find (\<lambda>i. strncmp_eq (tr_sensor_id (js_tracks s ! i)) sensor_id)
             [0..<unat (js_track_count s)] of
        Some i \<Rightarrow> Some (i, s)
      | None \<Rightarrow>
          if js_track_count s \<ge> MAX_SENSOR_TRACKS then None
          else (let i = unat (js_track_count s)
                in Some (i, s\<lparr>js_track_count := js_track_count s + 1,
                     js_tracks := (js_tracks s)[i := zero_track\<lparr>tr_sensor_id := strncpy_id sensor_id\<rparr>]\<rparr>)))"

definition slowest_step :: "u64 \<times> bool \<Rightarrow> conn_slot \<Rightarrow> u64 \<times> bool" where
  "slowest_step acc c = (case acc of (slowest, any) \<Rightarrow>
     if cs_in_use c \<and> cs_role c = OBICALL_ROLE_BROKER
     then (if \<not> any \<or> cs_next_seq_to_send c < slowest then cs_next_seq_to_send c else slowest, True)
     else (slowest, any))"

definition compute_pending_depth_locked :: "journal_state \<Rightarrow> u32" where
  "compute_pending_depth_locked s =
     (case foldl slowest_step (js_next_window_seq s, False) (js_conns s) of (slowest, any) \<Rightarrow>
        if \<not> any then 0
        else ucast (if js_next_window_seq s > slowest then js_next_window_seq s - slowest else 0))"

text \<open>The decision, the assigned window (stored only when there is one), and the state.\<close>

definition admit_locked :: "i64 \<Rightarrow> obicall_observation \<Rightarrow> journal_state \<Rightarrow>
    obicall_admission_reason \<times> u64 option \<times> journal_state" where
  "admit_locked now obs s =
     (case find_or_create_track (obs_sensor_id obs) s of
        None \<Rightarrow> (OBICALL_REJECT_OVERFLOW, None, s)
      | Some (i, s) \<Rightarrow>
          (let pending = compute_pending_depth_locked s in
           case obicall_journal_admit (Some (js_cfg s)) (Some (js_tracks s ! i)) (Some obs) pending of
             (reason, track) \<Rightarrow>
               (let window_seq = js_next_window_seq s;
                    slot = \<lparr>re_window_seq = window_seq, re_admission_reason = admission_code reason,
                      re_obs = obs\<rparr>
                in (reason, Some window_seq,
                    s\<lparr>js_tracks := (js_tracks s)[i := the track],
                      js_next_window_seq := window_seq + 1,
                      js_ring := (js_ring s)[unat (window_seq mod RING_CAPACITY) := slot],
                      js_ring_head := window_seq,
                      js_segment_file := (case js_segment_file s of None \<Rightarrow> None
                        | Some f \<Rightarrow> snd (obicall_journal_append_record (Some f) window_seq now reason
                            (Some obs)))\<rparr>))))"

section \<open>Connections\<close>

definition fresh_observation :: obicall_observation where
  "fresh_observation = \<lparr>obs_struct_size = 0, obs_schema_version = 0, obs_sensor_id = replicate 32 0,
     obs_source_boot_id = 0, obs_sequence = 0, obs_sample_time_ns = 0, obs_arrival_time_ns = 0,
     obs_clock_domain = 0, obs_time_uncertainty_s = 0, obs_coordinate_frame = 0, obs_units = 0,
     obs_calibration_version = 0, obs_payload_shape = 0, obs_payload_count = 0,
     obs_payload = replicate 6 0, obs_covariance_count = 0, obs_covariance = replicate 36 0\<rparr>"

definition fresh_replay_request :: obicall_msg_replay_request where
  "fresh_replay_request = \<lparr>rq_pipeline_id = replicate 32 0, rq_from_window_seq = 0\<rparr>"

text \<open>
  One received frame of \<^verbatim>\<open>handle_worker_connection\<close>; the first component is the observation that
  reached \<open>admit_locked\<close> with its decision.
\<close>

definition handle_worker_message :: "i64 \<Rightarrow> u8 \<Rightarrow> bytes \<Rightarrow> journal_state \<Rightarrow>
    (u64 \<times> obicall_admission_reason \<times> obicall_observation) option \<times> journal_state" where
  "handle_worker_message now msg_type payload s =
     (if msg_type \<noteq> OBICALL_MSG_OBSERVATION_SUBMIT then (None, s)
      else case obicall_wire_decode_observation (Some payload) (of_nat (length payload))
                  (Some fresh_observation) of
             Inl _ \<Rightarrow> (None, s)
           | Inr obs \<Rightarrow>
               (case admit_locked now obs s of (reason, window_seq, s) \<Rightarrow>
                  (map_option (\<lambda>w. (w, reason, obs)) window_seq, s)))"

text \<open>Where \<^verbatim>\<open>handle_broker_connection\<close> starts: the request clamped to what the ring retains.\<close>

definition replay_cursor :: "u64 \<Rightarrow> journal_state \<Rightarrow> u64" where
  "replay_cursor from_window_seq s =
     (let cursor = (if from_window_seq < 1 then 1 else from_window_seq);
          oldest_available = (if js_ring_head s + 1 > RING_CAPACITY
            then js_ring_head s + 1 - RING_CAPACITY else 1)
      in if cursor < oldest_available then oldest_available else cursor)"

definition broker_fetch :: "u64 \<Rightarrow> journal_state \<Rightarrow> ring_entry option" where
  "broker_fetch cursor s =
     (if cursor \<ge> 1 \<and> cursor \<le> js_ring_head s
      then Some (js_ring s ! unat (cursor mod RING_CAPACITY)) else None)"

definition send_ring_entry :: "bytes \<Rightarrow> i64 \<Rightarrow> ring_entry \<Rightarrow> (u8 \<times> bytes) list" where
  "send_ring_entry pipeline_id now e =
     (case obicall_wire_encode_observation (Some (re_obs e)) (Some (replicate 1200 0)) 1200 (Some 0) of
        Inl _ \<Rightarrow> []
      | Inr (buf, len) \<Rightarrow>
          (let dec = \<lparr>ad_pipeline_id = strncpy_id pipeline_id, ad_window_seq = re_window_seq e,
                 ad_sensor_id = strncpy_id (obs_sensor_id (re_obs e)),
                 ad_sequence = obs_sequence (re_obs e),
                 ad_admitted = (if re_admission_reason e = admission_code OBICALL_ADMIT_OK then 1 else 0),
                 ad_reason_code = re_admission_reason e, ad_decided_at_ns = now\<rparr>
           in (OBICALL_MSG_REPLAY_DATA, take (unat len) buf) #
              (case obicall_wire_encode_admission_decision (Some dec) (Some (replicate 256 0)) 256
                      (Some 0) of
                 Inl _ \<Rightarrow> []
               | Inr (dbuf, dlen) \<Rightarrow> [(OBICALL_MSG_ADMISSION_DECISION, take (unat dlen) dbuf)])))"

text \<open>The accept loop of \<^verbatim>\<open>main\<close>: the first free slot, or none.\<close>

definition accept_connection :: "journal_state \<Rightarrow> nat option \<times> journal_state" where
  "accept_connection s =
     (case List.find (\<lambda>i. \<not> cs_in_use (js_conns s ! i)) [0..<MAX_CONNECTIONS] of
        None \<Rightarrow> (None, s)
      | Some i \<Rightarrow> (Some i, s\<lparr>js_conns := (js_conns s)[i := \<lparr>cs_in_use = True,
          cs_role = OBICALL_ROLE_UNKNOWN, cs_next_seq_to_send = 1, cs_caught_up = False\<rparr>]\<rparr>))"

definition journal_startup :: "bytes \<Rightarrow> obicall_journal_config \<Rightarrow> FILE option \<Rightarrow> journal_state" where
  "journal_startup pipeline_id cfg segment_file =
     \<lparr>js_pipeline_id = strncpy_id pipeline_id, js_cfg = cfg, js_tracks = replicate 32 zero_track,
      js_track_count = 0,
      js_ring = replicate 4096
        \<lparr>re_window_seq = 0, re_admission_reason = 0, re_obs = fresh_observation\<rparr>,
      js_ring_head = 0, js_next_window_seq = 1,
      js_conns = replicate MAX_CONNECTIONS \<lparr>cs_in_use = False, cs_role = OBICALL_ROLE_UNKNOWN,
        cs_next_seq_to_send = 0, cs_caught_up = False\<rparr>,
      js_segment_file = segment_file\<rparr>"

section \<open>The interleaved system\<close>

text \<open>
  A subscriber thread between its locked sections: its cursor, whether it has copied an entry that it
  has not finished sending, and, as ghosts, where it started, what it sent, and whether it ever copied
  after the ring had moved 4096 or more windows past its cursor.
\<close>

record subscriber =
  sb_cursor :: u64
  sb_sending :: bool
  sb_first :: u64
  sb_sent :: "ring_entry list"
  sb_overrun :: bool

record journald =
  jd_state :: journal_state
  jd_log :: "journal_entry list"
  jd_subs :: "nat \<Rightarrow> subscriber option"

definition set_slot :: "nat \<Rightarrow> (conn_slot \<Rightarrow> conn_slot) \<Rightarrow> journal_state \<Rightarrow> journal_state" where
  "set_slot i f s = s\<lparr>js_conns := (js_conns s)[i := f (js_conns s ! i)]\<rparr>"

definition logged :: "i64 \<Rightarrow> (u64 \<times> obicall_admission_reason \<times> obicall_observation) option \<Rightarrow>
    journal_entry list" where
  "logged now entry = (case entry of None \<Rightarrow> [] | Some (w, reason, obs) \<Rightarrow> [(w, now, reason, obs)])"

inductive journald_step :: "journald \<Rightarrow> journald \<Rightarrow> bool" where
  accept: "accept_connection (jd_state g) = (i, s) \<Longrightarrow> journald_step g (g\<lparr>jd_state := s\<rparr>)"
| hello: "journald_step g (g\<lparr>jd_state := set_slot i (\<lambda>c. c\<lparr>cs_role := role\<rparr>) (jd_state g)\<rparr>)"
| submit: "length payload \<le> 2048 \<Longrightarrow>
     handle_worker_message now msg_type payload (jd_state g) = (entry, s) \<Longrightarrow>
     journald_step g (g\<lparr>jd_state := s, jd_log := jd_log g @ logged now entry\<rparr>)"
| request: "jd_subs g i = None \<Longrightarrow> length payload \<le> 2048 \<Longrightarrow>
     obicall_wire_decode_replay_request (Some payload) (of_nat (length payload))
       (Some fresh_replay_request) = Inr req \<Longrightarrow>
     cursor = replay_cursor (rq_from_window_seq req) (jd_state g) \<Longrightarrow>
     journald_step g (g\<lparr>jd_state := set_slot i (\<lambda>c. c\<lparr>cs_next_seq_to_send := cursor\<rparr>) (jd_state g),
       jd_subs := (jd_subs g)(i \<mapsto> \<lparr>sb_cursor = cursor, sb_sending = False, sb_first = cursor,
         sb_sent = [], sb_overrun = False\<rparr>)\<rparr>)"
| fetch: "jd_subs g i = Some b \<Longrightarrow> \<not> sb_sending b \<Longrightarrow>
     broker_fetch (sb_cursor b) (jd_state g) = Some e \<Longrightarrow>
     journald_step g (g\<lparr>jd_subs := (jd_subs g)(i \<mapsto> b\<lparr>sb_sending := True, sb_sent := sb_sent b @ [e],
       sb_overrun := sb_overrun b \<or> js_ring_head (jd_state g) - sb_cursor b \<ge> RING_CAPACITY\<rparr>)\<rparr>)"
| caught_up: "jd_subs g i = Some b \<Longrightarrow> \<not> sb_sending b \<Longrightarrow>
     broker_fetch (sb_cursor b) (jd_state g) = None \<Longrightarrow>
     journald_step g (g\<lparr>jd_state := set_slot i (\<lambda>c. c\<lparr>cs_caught_up := True\<rparr>) (jd_state g)\<rparr>)"
| advance: "jd_subs g i = Some b \<Longrightarrow> sb_sending b \<Longrightarrow>
     journald_step g (g\<lparr>jd_state := set_slot i (\<lambda>c. c\<lparr>cs_next_seq_to_send := sb_cursor b + 1\<rparr>) (jd_state g),
       jd_subs := (jd_subs g)(i \<mapsto> b\<lparr>sb_cursor := sb_cursor b + 1, sb_sending := False\<rparr>)\<rparr>)"
| close: "journald_step g (g\<lparr>jd_state := set_slot i (\<lambda>c. c\<lparr>cs_in_use := False\<rparr>) (jd_state g),
       jd_subs := (jd_subs g)(i := None)\<rparr>)"

inductive journald_reachable :: "bytes \<Rightarrow> obicall_journal_config \<Rightarrow> FILE option \<Rightarrow> journald \<Rightarrow> bool"
  for pipeline_id cfg segment where
  initial: "journald_reachable pipeline_id cfg segment
     \<lparr>jd_state = journal_startup pipeline_id cfg segment, jd_log = [], jd_subs = (\<lambda>_. None)\<rparr>"
| step: "journald_reachable pipeline_id cfg segment g \<Longrightarrow> journald_step g g' \<Longrightarrow>
     journald_reachable pipeline_id cfg segment g'"

section \<open>The ring holds the end of the log\<close>

fun ring_entry_of :: "journal_entry \<Rightarrow> ring_entry" where
  "ring_entry_of (w, at, reason, obs) =
     \<lparr>re_window_seq = w, re_admission_reason = admission_code reason, re_obs = obs\<rparr>"

text \<open>While fewer than \<open>2 ^ 64 - 1\<close> windows have been assigned:\<close>

definition ring_inv :: "journal_state \<Rightarrow> journal_entry list \<Rightarrow> bool" where
  "ring_inv s es \<longleftrightarrow> length (js_ring s) = 4096 \<and> js_next_window_seq s = of_nat (Suc (length es)) \<and>
     js_ring_head s = of_nat (length es) \<and>
     (\<forall>i < length es. fst (es ! i) = of_nat (Suc i)) \<and>
     (\<forall>i < length es. length es \<le> i + 4096 \<longrightarrow>
        js_ring s ! (Suc i mod 4096) = ring_entry_of (es ! i))"

definition log_fits :: "journal_entry list \<Rightarrow> bool" where
  "log_fits es \<longleftrightarrow> Suc (length es) < 2 ^ 64"

lemma log_fits_append: "log_fits (es @ fs) \<Longrightarrow> log_fits es"
  by (simp add: log_fits_def)

lemma unat_window:
  "n \<le> Suc (length es) \<Longrightarrow> log_fits es \<Longrightarrow> unat (of_nat n :: u64) = n"
  by (simp add: log_fits_def unat_of_nat)

lemma unat_numeral_4096: "unat (4096 :: u64) = 4096"
  by simp

lemma ring_inv_startup: "ring_inv (journal_startup pipeline_id cfg segment) []"
  by (simp add: ring_inv_def journal_startup_def)

lemma mod_window_eq:
  assumes "i < n" and "n < i + 4096"
  shows "Suc i mod 4096 \<noteq> Suc n mod (4096 :: nat)"
proof
  assume "Suc i mod 4096 = Suc n mod (4096 :: nat)"
  then have "(4096 :: nat) dvd Suc n - Suc i"
    using assms(1) by (metis Suc_leI le_SucI mod_eq_dvd_iff_nat)
  then have "4096 \<le> Suc n - Suc i" using assms(1) by (intro dvd_imp_le) simp_all
  then show False using assms by simp
qed

text \<open>One admission appends one entry, whatever the decision is.\<close>

lemma admit_locked_cases:
  assumes "admit_locked now obs s = (reason, w, s')"
  obtains (full) "find_or_create_track (obs_sensor_id obs) s = None" "reason = OBICALL_REJECT_OVERFLOW"
      "w = None" "s' = s"
  | (window) i s1 track where "find_or_create_track (obs_sensor_id obs) s = Some (i, s1)"
      "obicall_journal_admit (Some (js_cfg s1)) (Some (js_tracks s1 ! i)) (Some obs)
         (compute_pending_depth_locked s1) = (reason, track)"
      "w = Some (js_next_window_seq s1)"
      "s' = s1\<lparr>js_tracks := (js_tracks s1)[i := the track],
         js_next_window_seq := js_next_window_seq s1 + 1,
         js_ring := (js_ring s1)[unat (js_next_window_seq s1 mod 4096) :=
           \<lparr>re_window_seq = js_next_window_seq s1, re_admission_reason = admission_code reason,
            re_obs = obs\<rparr>],
         js_ring_head := js_next_window_seq s1,
         js_segment_file := (case js_segment_file s1 of None \<Rightarrow> None
           | Some f \<Rightarrow> snd (obicall_journal_append_record (Some f) (js_next_window_seq s1) now reason
               (Some obs)))\<rparr>"
proof (cases "find_or_create_track (obs_sensor_id obs) s")
  case None
  then have "(reason, w, s') = (OBICALL_REJECT_OVERFLOW, None, s)"
    using assms by (simp only: admit_locked_def option.case)
  then show thesis using None by (intro full) simp_all
next
  case (Some x)
  then obtain i s1 where f: "find_or_create_track (obs_sensor_id obs) s = Some (i, s1)" by (cases x) auto
  obtain r track where a: "obicall_journal_admit (Some (js_cfg s1)) (Some (js_tracks s1 ! i)) (Some obs)
      (compute_pending_depth_locked s1) = (r, track)" by fastforce
  note s' = assms [unfolded admit_locked_def f option.case prod.case Let_def a, symmetric]
  have r: "r = reason" using s' by simp
  show thesis using f a s' unfolding r by (intro window [of i s1 track]) simp_all
qed

lemma find_or_create_track_frame:
  assumes "find_or_create_track sensor_id s = Some (i, s')"
  shows "js_ring s' = js_ring s" and "js_ring_head s' = js_ring_head s"
    and "js_next_window_seq s' = js_next_window_seq s" and "js_segment_file s' = js_segment_file s"
    and "js_cfg s' = js_cfg s" and "js_conns s' = js_conns s" and "js_pipeline_id s' = js_pipeline_id s"
  using assms by (auto simp: find_or_create_track_def Let_def split: option.splits if_splits)

lemma ring_inv_cong:
  "js_ring s = js_ring t \<Longrightarrow> js_ring_head s = js_ring_head t \<Longrightarrow>
     js_next_window_seq s = js_next_window_seq t \<Longrightarrow> ring_inv s es = ring_inv t es"
  by (simp add: ring_inv_def)

lemma ring_inv_write:
  assumes inv: "ring_inv s es" and fits: "log_fits (es @ [e])"
    and e: "e = (js_next_window_seq s, at, reason, obs)"
    and ring: "js_ring s' = (js_ring s)[unat (js_next_window_seq s mod 4096) := ring_entry_of e]"
    and "js_next_window_seq s' = js_next_window_seq s + 1" and "js_ring_head s' = js_next_window_seq s"
  shows "ring_inv s' (es @ [e])"
proof -
  let ?n = "length es"
  have len: "length (js_ring s) = 4096" using inv by (simp add: ring_inv_def)
  have nxt: "js_next_window_seq s = of_nat (Suc ?n)" using inv by (simp only: ring_inv_def)
  have un: "unat (of_nat (Suc ?n) :: u64) = Suc ?n"
    using fits by (intro unat_window [where es = es]) (auto intro: log_fits_append)
  have idx: "unat (js_next_window_seq s mod 4096) = Suc ?n mod 4096"
    unfolding nxt by (simp only: unat_mod un unat_numeral_4096)
  have new: "js_ring s' ! (Suc i mod 4096) = ring_entry_of ((es @ [e]) ! i)"
    if "i < Suc ?n" "Suc ?n \<le> i + 4096" for i
  proof (cases "i = ?n")
    case True
    then show ?thesis using len by (simp only: ring idx) simp
  next
    case False
    then have i: "i < ?n" "?n < i + 4096" using that by simp_all
    have "js_ring s ! (Suc i mod 4096) = ring_entry_of (es ! i)"
      using inv i by (simp add: ring_inv_def)
    then show ?thesis
      unfolding ring idx using mod_window_eq [OF i] i(1) by (simp add: nth_append)
  qed
  have "fst ((es @ [e]) ! i) = of_nat (Suc i)" if "i < Suc ?n" for i
    using inv that nxt e by (auto simp: ring_inv_def nth_append less_Suc_eq simp del: of_nat_Suc)
  then show ?thesis
    unfolding ring_inv_def using new len assms(5,6) nxt ring by simp
qed

lemma admit_locked_ring:
  assumes "ring_inv s es" and "admit_locked now obs s = (reason, w, s')"
    and "log_fits (es @ logged now (map_option (\<lambda>w. (w, reason, obs)) w))"
  shows "ring_inv s' (es @ logged now (map_option (\<lambda>w. (w, reason, obs)) w))"
  using assms(2)
proof (cases rule: admit_locked_cases)
  case full
  then show ?thesis using assms(1) by (simp add: logged_def)
next
  case (window i s1 track)
  note fr = find_or_create_track_frame [OF window(1)]
  have inv: "ring_inv s1 es" using assms(1) fr by (simp cong: ring_inv_cong)
  have log: "logged now (map_option (\<lambda>w. (w, reason, obs)) w) = [(js_next_window_seq s1, now, reason, obs)]"
    by (simp add: logged_def window(3))
  show ?thesis
    unfolding log by (rule ring_inv_write [OF inv assms(3) [unfolded log] refl]) (simp_all add: window(4))
qed

text \<open>
  What a subscriber reads at its cursor: the entry of that window, or, once the ring has moved past it,
  a later one whose window has the same remainder.
\<close>

lemma fetch_index:
  assumes "1 \<le> c" and "c \<le> (n :: nat)"
  shows "Suc (n - 1 - (n - c) mod 4096) mod 4096 = c mod 4096" and "n - 1 - (n - c) mod 4096 < n"
    and "n \<le> n - 1 - (n - c) mod 4096 + 4096"
proof -
  define r where "r = (n - c) mod 4096"
  have m: "r \<le> n - c" "r < 4096" by (simp_all add: r_def)
  have d: "(4096 :: nat) dvd (n - c) - r" unfolding r_def by (rule dvd_minus_mod)
  have e: "Suc (n - 1 - r) = n - r" and "(n - c) - r = (n - r) - c" and "c \<le> n - r"
    using assms m by linarith+
  then have "(n - r) mod 4096 = c mod 4096" using d by (simp only: mod_eq_dvd_iff_nat)
  then show "Suc (n - 1 - (n - c) mod 4096) mod 4096 = c mod 4096"
    unfolding r_def [symmetric] e .
  show "n - 1 - (n - c) mod 4096 < n" and "n \<le> n - 1 - (n - c) mod 4096 + 4096"
    unfolding r_def [symmetric] using assms m by linarith+
qed

lemma unat_ring_head: "ring_inv s es \<Longrightarrow> log_fits es \<Longrightarrow> unat (js_ring_head s) = length es"
  using unat_window [of "length es" es] by (simp add: ring_inv_def)

lemma fetch_exact:
  assumes inv: "ring_inv s es" and fits: "log_fits es" and f: "broker_fetch c s = Some e"
  shows "1 \<le> unat c" and "unat c \<le> length es"
    and "e = ring_entry_of (es ! (length es - 1 - (length es - unat c) mod 4096))"
    and "unat (js_ring_head s - c) = length es - unat c"
proof -
  have head: "unat (js_ring_head s) = length es"
    using inv fits by (rule unat_ring_head)
  have c: "1 \<le> c" "c \<le> js_ring_head s" "e = js_ring s ! unat (c mod 4096)"
    using f by (auto simp: broker_fetch_def split: if_splits)
  then show c1: "1 \<le> unat c" and cn: "unat c \<le> length es"
    using head by (simp_all add: word_le_nat_alt)
  show "unat (js_ring_head s - c) = length es - unat c" using c(2) head by (simp add: unat_sub)
  note i = fetch_index [OF c1 cn]
  have "e = js_ring s ! (unat c mod 4096)"
    using c(3) by (simp only: unat_mod unat_numeral_4096)
  then have "e = js_ring s ! (Suc (length es - 1 - (length es - unat c) mod 4096) mod 4096)"
    by (simp only: i(1))
  then show "e = ring_entry_of (es ! (length es - 1 - (length es - unat c) mod 4096))"
    using inv i(2,3) by (simp only: ring_inv_def)
qed

lemma fetch_in_window:
  assumes "ring_inv s es" and "log_fits es" and "broker_fetch c s = Some e"
    and "\<not> js_ring_head s - c \<ge> 4096"
  shows "1 \<le> unat c" and "unat c \<le> length es" and "e = ring_entry_of (es ! (unat c - 1))"
proof -
  note f = fetch_exact [OF assms(1-3)]
  have "length es - unat c < 4096" using assms(4) f(4) by (simp add: word_le_nat_alt)
  then have i: "length es - 1 - (length es - unat c) mod 4096 = unat c - 1" using f(1,2) by simp
  show "1 \<le> unat c" and "unat c \<le> length es" by (fact f)+
  show "e = ring_entry_of (es ! (unat c - 1))" using f(3) unfolding i .
qed

section \<open>Subscribers\<close>

definition sub_ok :: "subscriber \<Rightarrow> journal_entry list \<Rightarrow> bool" where
  "sub_ok b es \<longleftrightarrow> (sb_overrun b \<or>
     (let n = length (sb_sent b); k = unat (sb_first b) in
        1 \<le> k \<and> unat (sb_cursor b) + (if sb_sending b then 1 else 0) = k + n \<and>
        (n = 0 \<or> k + n \<le> Suc (length es)) \<and> (sb_sending b \<longrightarrow> n \<noteq> 0) \<and>
        sb_sent b = map ring_entry_of (take n (drop (k - 1) es))))"

lemma sub_ok_append: "sub_ok b es \<Longrightarrow> sub_ok b (es @ fs)"
  by (auto simp: sub_ok_def Let_def)

lemma sub_ok_fetch:
  assumes "sub_ok b es" and "ring_inv s es" and "log_fits es" and "\<not> sb_sending b"
    and "broker_fetch (sb_cursor b) s = Some e"
  shows "sub_ok (b\<lparr>sb_sending := True, sb_sent := sb_sent b @ [e],
    sb_overrun := sb_overrun b \<or> js_ring_head s - sb_cursor b \<ge> RING_CAPACITY\<rparr>) es"
proof (cases "sb_overrun b \<or> js_ring_head s - sb_cursor b \<ge> RING_CAPACITY")
  case True
  then show ?thesis by (simp add: sub_ok_def)
next
  case False
  let ?n = "length (sb_sent b)" and ?k = "unat (sb_first b)"
  have b: "1 \<le> ?k" "unat (sb_cursor b) = ?k + ?n"
    "sb_sent b = map ring_entry_of (take ?n (drop (?k - 1) es))"
    using assms(1,4) False by (simp_all add: sub_ok_def Let_def)
  have f: "1 \<le> unat (sb_cursor b)" "unat (sb_cursor b) \<le> length es"
    "e = ring_entry_of (es ! (unat (sb_cursor b) - 1))"
    using fetch_in_window [OF assms(2,3,5)] False by blast+
  have "take (Suc ?n) (drop (?k - 1) es) = take ?n (drop (?k - 1) es) @ [es ! (unat (sb_cursor b) - 1)]"
    using b f by (subst take_Suc_conv_app_nth) simp_all
  then have "sb_sent b @ [e] = map ring_entry_of (take (Suc ?n) (drop (?k - 1) es))"
    using b(3) f(3) by simp
  then show ?thesis using b(1,2) f(2) by (simp add: sub_ok_def Let_def)
qed

lemma sub_ok_advance:
  assumes "sub_ok b es" and "log_fits es" and "sb_sending b"
  shows "sub_ok (b\<lparr>sb_cursor := sb_cursor b + 1, sb_sending := False\<rparr>) es"
proof (cases "sb_overrun b")
  case True
  then show ?thesis by (simp add: sub_ok_def)
next
  case False
  then have b: "unat (sb_cursor b) + 1 = unat (sb_first b) + length (sb_sent b)"
    "unat (sb_first b) + length (sb_sent b) \<le> Suc (length es)"
    using assms(1,3) by (auto simp: sub_ok_def Let_def)
  then have "unat (sb_cursor b) + unat (1 :: u64) < 2 ^ 64"
    using assms(2) by (simp add: log_fits_def)
  then have "unat (sb_cursor b + 1) = unat (sb_cursor b) + 1"
    by (subst unat_plus_if') simp
  then show ?thesis using assms(1,3) by (auto simp: sub_ok_def Let_def)
qed

lemma replay_cursor_pos: "1 \<le> unat (replay_cursor from_window_seq s)"
proof -
  have "js_ring_head s + 1 - RING_CAPACITY \<noteq> 0" if "js_ring_head s + 1 > RING_CAPACITY"
    using that by (metis eq_iff_diff_eq_0 less_irrefl)
  then have "replay_cursor from_window_seq s \<noteq> 0"
    unfolding replay_cursor_def Let_def by (auto simp: not_less simp del: diff_add_cancel)
  then show ?thesis using unat_eq_zero [of "replay_cursor from_window_seq s"] by linarith
qed

section \<open>Reachable states\<close>

definition journald_inv :: "journald \<Rightarrow> bool" where
  "journald_inv g \<longleftrightarrow> ring_inv (jd_state g) (jd_log g) \<and>
     (\<forall>i b. jd_subs g i = Some b \<longrightarrow> sub_ok b (jd_log g))"

lemma ring_inv_set_slot [simp]: "ring_inv (set_slot i f s) es = ring_inv s es"
  by (simp add: ring_inv_def set_slot_def)

lemma ring_inv_accept:
  "accept_connection s = (i, s') \<Longrightarrow> ring_inv s es \<Longrightarrow> ring_inv s' es"
  by (auto simp: accept_connection_def ring_inv_def split: option.splits)

lemma handle_worker_message_cases:
  assumes "handle_worker_message now msg_type payload s = (entry, s')"
  obtains (ignored) "entry = None" "s' = s"
  | (admitted) obs reason w where
      "obicall_wire_decode_observation (Some payload) (of_nat (length payload)) (Some fresh_observation) =
        Inr obs"
      "admit_locked now obs s = (reason, w, s')" "entry = map_option (\<lambda>w. (w, reason, obs)) w"
  using assms
  by (auto simp: handle_worker_message_def split: if_splits sum.splits prod.splits)

lemma handle_worker_message_ring:
  assumes "handle_worker_message now msg_type payload s = (entry, s')" and "ring_inv s es"
    and "log_fits (es @ logged now entry)"
  shows "ring_inv s' (es @ logged now entry)"
  using assms(1)
proof (cases rule: handle_worker_message_cases)
  case ignored
  then show ?thesis using assms(2) by (simp add: logged_def)
next
  case (admitted obs reason w)
  show ?thesis using admit_locked_ring [OF assms(2) admitted(2)] assms(3) by (simp add: admitted(3))
qed

lemma journald_step_log:
  "journald_step g g' \<Longrightarrow> \<exists>fs. jd_log g' = jd_log g @ fs"
  by (induction rule: journald_step.induct) auto

lemma journald_step_inv:
  assumes "journald_step g g'" and "journald_inv g" and "log_fits (jd_log g')"
  shows "journald_inv g'"
  using assms
proof (induction rule: journald_step.induct)
  case (accept g i s)
  then show ?case using ring_inv_accept by (auto simp: journald_inv_def)
next
  case (submit payload now msg_type g entry s)
  then show ?case
    using handle_worker_message_ring [OF submit(2)] sub_ok_append by (auto simp: journald_inv_def)
next
  case (request g i payload req cursor)
  have "sub_ok \<lparr>sb_cursor = cursor, sb_sending = False, sb_first = cursor, sb_sent = [],
      sb_overrun = False\<rparr> (jd_log g)"
    using replay_cursor_pos by (simp add: sub_ok_def request(4))
  then show ?case using request by (auto simp: journald_inv_def)
next
  case (fetch g i b e)
  then show ?case using sub_ok_fetch [of b "jd_log g" "jd_state g" e] by (auto simp: journald_inv_def)
next
  case (advance g i b)
  then show ?case using sub_ok_advance [of b "jd_log g"] by (auto simp: journald_inv_def)
qed (auto simp: journald_inv_def split: if_splits)

lemma journald_reachable_inv:
  "journald_reachable pipeline_id cfg segment g \<Longrightarrow> log_fits (jd_log g) \<Longrightarrow> journald_inv g"
proof (induction rule: journald_reachable.induct)
  case initial
  show ?case using ring_inv_startup by (simp add: journald_inv_def)
next
  case (step g g')
  obtain fs where "jd_log g' = jd_log g @ fs" using journald_step_log [OF step(2)] by blast
  then have "log_fits (jd_log g)" using step(4) log_fits_append by simp
  then show ?case using step journald_step_inv by blast
qed

section \<open>The sequences of one sensor\<close>

text \<open>The readings of one sensor that a log admits, and the track the journal looks up for a sensor.\<close>

definition admitted_readings :: "bytes \<Rightarrow> journal_entry list \<Rightarrow> obicall_observation list" where
  "admitted_readings sensor es =
     map entry_obs (filter (\<lambda>(w, at, reason, obs). reason = OBICALL_ADMIT_OK \<and>
       cstr (obs_sensor_id obs) = sensor) es)"

definition track_of :: "journal_state \<Rightarrow> bytes \<Rightarrow> nat option" where
  "track_of s sensor = List.find (\<lambda>i. cstr (tr_sensor_id (js_tracks s ! i)) = sensor)
     [0..<unat (js_track_count s)]"

definition sequences_increase :: "obicall_observation list \<Rightarrow> bool" where
  "sequences_increase = successively (\<lambda>o1 o2. obs_source_boot_id o1 = obs_source_boot_id o2 \<longrightarrow>
     obs_sequence o1 < obs_sequence o2)"

definition track_records :: "obicall_sensor_track \<Rightarrow> obicall_observation \<Rightarrow> bool" where
  "track_records track obs \<longleftrightarrow> tr_has_data track \<noteq> 0 \<and>
     tr_source_boot_id track = obs_source_boot_id obs \<and> tr_highest_sequence_seen track = obs_sequence obs"

definition tracks_inv :: "journal_state \<Rightarrow> journal_entry list \<Rightarrow> bool" where
  "tracks_inv s es \<longleftrightarrow> length (js_tracks s) = 32 \<and> js_track_count s \<le> 32 \<and>
     (\<forall>sensor. sequences_increase (admitted_readings sensor es) \<and>
       (admitted_readings sensor es \<noteq> [] \<longrightarrow>
         (\<exists>i. track_of s sensor = Some i \<and>
           track_records (js_tracks s ! i) (last (admitted_readings sensor es)))))"

lemma admitted_readings_append:
  "admitted_readings sensor (es @ fs) = admitted_readings sensor es @ admitted_readings sensor fs"
  by (simp add: admitted_readings_def)

lemma track_of_SomeD:
  "track_of s sensor = Some i \<Longrightarrow> i < unat (js_track_count s) \<and>
     cstr (tr_sensor_id (js_tracks s ! i)) = sensor"
  by (auto simp: track_of_def find_Some_iff)

lemma track_of_cong:
  assumes "js_track_count s = js_track_count s'"
    and "\<And>i. i < unat (js_track_count s) \<Longrightarrow>
      cstr (tr_sensor_id (js_tracks s ! i)) = cstr (tr_sensor_id (js_tracks s' ! i))"
  shows "track_of s sensor = track_of s' sensor"
  unfolding track_of_def using assms by (intro find_cong) simp_all

text \<open>What the lookup of \<open>admit_locked\<close> returns: the first track of the sensor, or a new one at the end.\<close>

lemma find_or_create_track_cases:
  assumes "find_or_create_track sensor_id s = Some (i, s')" and "length (js_tracks s) = 32"
    and "js_track_count s \<le> 32"
  obtains (found) "s' = s" "track_of s (cstr sensor_id) = Some i"
  | (created) "track_of s (cstr sensor_id) = None" "i = unat (js_track_count s)" "i < 32"
      "unat (js_track_count s') = Suc i" "js_track_count s' \<le> 32"
      "js_tracks s' = (js_tracks s)[i := zero_track\<lparr>tr_sensor_id := strncpy_id sensor_id\<rparr>]"
proof (cases "track_of s (cstr sensor_id)")
  case (Some j)
  then show thesis using assms(1) found
    by (simp add: find_or_create_track_def strncmp_eq_def track_of_def)
next
  case None
  then have c: "js_track_count s < 32" and i: "i = unat (js_track_count s)"
    and s': "s' = s\<lparr>js_track_count := js_track_count s + 1,
      js_tracks := (js_tracks s)[i := zero_track\<lparr>tr_sensor_id := strncpy_id sensor_id\<rparr>]\<rparr>"
    using assms(1)
    by (auto simp: find_or_create_track_def strncmp_eq_def track_of_def Let_def not_le split: if_splits)
  have "unat (js_track_count s) < 32" using c by (simp add: word_less_nat_alt)
  moreover from this have "unat (js_track_count s + 1) = Suc (unat (js_track_count s))"
    by (simp add: unat_plus_if')
  ultimately show thesis using i s' None by (intro created) (simp_all add: word_le_nat_alt)
qed

lemma track_of_created:
  assumes "js_tracks s' = (js_tracks s)[n := t]" and "n = unat (js_track_count s)"
    and "unat (js_track_count s') = Suc n" and "n < length (js_tracks s)"
  shows "track_of s' sensor = (case track_of s sensor of Some i \<Rightarrow> Some i
    | None \<Rightarrow> if cstr (tr_sensor_id t) = sensor then Some n else None)"
proof -
  have "List.find (\<lambda>i. cstr (tr_sensor_id (js_tracks s' ! i)) = sensor) [0..<n] = track_of s sensor"
    unfolding track_of_def using assms(1,2) by (intro find_cong) simp_all
  then show ?thesis
    using assms(1,3,4) by (simp add: track_of_def [of s'] find_snoc split: option.split)
qed

lemma find_or_create_track_inv:
  assumes "find_or_create_track sensor_id s = Some (i, s')" and inv: "tracks_inv s es"
  shows "tracks_inv s' es" and "i < 32"
    and "0 \<in> set (take 32 sensor_id) \<Longrightarrow> track_of s' (cstr sensor_id) = Some i"
    and "admitted_readings (cstr sensor_id) es \<noteq> [] \<Longrightarrow>
      track_records (js_tracks s' ! i) (last (admitted_readings (cstr sensor_id) es))"
proof -
  have len: "length (js_tracks s) = 32" "js_track_count s \<le> 32" using inv by (simp_all add: tracks_inv_def)
  have bound: "unat (js_track_count s) \<le> 32" using len(2) by (simp add: word_le_nat_alt)
  have "tracks_inv s' es \<and> i < 32 \<and>
    (0 \<in> set (take 32 sensor_id) \<longrightarrow> track_of s' (cstr sensor_id) = Some i) \<and>
    (admitted_readings (cstr sensor_id) es \<noteq> [] \<longrightarrow>
      track_records (js_tracks s' ! i) (last (admitted_readings (cstr sensor_id) es)))"
    using assms(1) len
  proof (cases rule: find_or_create_track_cases)
    case found
    then show ?thesis using inv track_of_SomeD [OF found(2)] bound by (auto simp: tracks_inv_def)
  next
    case created
    note tc = track_of_created [OF created(6,2,4)]
    have "track_of s' (cstr sensor_id) = Some i" if "0 \<in> set (take 32 sensor_id)"
      using tc [of "cstr sensor_id"] created(1,3) len(1) cstr_strncpy_id [OF that] by simp
    moreover have "tracks_inv s' es"
      unfolding tracks_inv_def
    proof (intro conjI allI impI)
      fix sensor
      assume "admitted_readings sensor es \<noteq> []"
      then obtain j where j: "track_of s sensor = Some j"
        "track_records (js_tracks s ! j) (last (admitted_readings sensor es))"
        using inv by (auto simp: tracks_inv_def)
      then have "j < i" using track_of_SomeD created(2) by blast
      then show "\<exists>j. track_of s' sensor = Some j \<and>
          track_records (js_tracks s' ! j) (last (admitted_readings sensor es))"
        using j tc [of sensor] created(3,6) len(1) by auto
    qed (use inv created(5,6) len in \<open>simp_all add: tracks_inv_def\<close>)
    ultimately show ?thesis using created(1,3) inv by (auto simp: tracks_inv_def)
  qed
  then show "tracks_inv s' es" and "i < 32"
    and "0 \<in> set (take 32 sensor_id) \<Longrightarrow> track_of s' (cstr sensor_id) = Some i"
    and "admitted_readings (cstr sensor_id) es \<noteq> [] \<Longrightarrow>
      track_records (js_tracks s' ! i) (last (admitted_readings (cstr sensor_id) es))"
    by blast+
qed

lemma tracks_inv_cong:
  "js_tracks s = js_tracks t \<Longrightarrow> js_track_count s = js_track_count t \<Longrightarrow> tracks_inv s es = tracks_inv t es"
  unfolding tracks_inv_def using track_of_cong [of s t] by simp

lemma tracks_inv_rejected:
  assumes "tracks_inv s es" and "reason \<noteq> OBICALL_ADMIT_OK"
  shows "tracks_inv s (es @ [(w, at, reason, obs)])"
  using assms by (simp add: tracks_inv_def admitted_readings_append)
    (simp add: admitted_readings_def)

lemma tracks_inv_admitted:
  assumes inv: "tracks_inv s es" and i: "track_of s (cstr (obs_sensor_id obs)) = Some i" "i < 32"
    and t: "tr_sensor_id t = obs_sensor_id obs" "track_records t obs"
    and before: "admitted_readings (cstr (obs_sensor_id obs)) es \<noteq> [] \<Longrightarrow>
      obs_source_boot_id (last (admitted_readings (cstr (obs_sensor_id obs)) es)) = obs_source_boot_id obs \<Longrightarrow>
      obs_sequence (last (admitted_readings (cstr (obs_sensor_id obs)) es)) < obs_sequence obs"
    and s': "js_tracks s' = (js_tracks s)[i := t]" "js_track_count s' = js_track_count s"
  shows "tracks_inv s' (es @ [(w, at, OBICALL_ADMIT_OK, obs)])"
proof -
  let ?key = "cstr (obs_sensor_id obs)"
  have len: "length (js_tracks s) = 32" using inv by (simp add: tracks_inv_def)
  have key: "cstr (tr_sensor_id (js_tracks s ! i)) = ?key" using track_of_SomeD [OF i(1)] by simp
  have same: "track_of s' sensor = track_of s sensor" for sensor
    using key t(1) len i(2) by (intro track_of_cong) (auto simp: s' nth_list_update)
  have new: "admitted_readings sensor [(w, at, OBICALL_ADMIT_OK, obs)] =
      (if sensor = ?key then [obs] else [])" for sensor
    by (simp add: admitted_readings_def entry_obs_def)
  have "\<exists>j. track_of s' sensor = Some j \<and>
      track_records (js_tracks s' ! j) (last (admitted_readings sensor (es @ [(w, at, OBICALL_ADMIT_OK, obs)])))"
    if "admitted_readings sensor (es @ [(w, at, OBICALL_ADMIT_OK, obs)]) \<noteq> []" for sensor
  proof (cases "sensor = ?key")
    case True
    then show ?thesis using i t(2) len by (simp add: admitted_readings_append new same s')
  next
    case False
    then have ne: "admitted_readings sensor es \<noteq> []" using that by (simp add: admitted_readings_append new)
    then obtain j where j: "track_of s sensor = Some j"
      "track_records (js_tracks s ! j) (last (admitted_readings sensor es))"
      using inv by (auto simp: tracks_inv_def)
    then have "j \<noteq> i" using False key track_of_SomeD by blast
    then show ?thesis using j False by (simp add: admitted_readings_append new same s')
  qed
  moreover have "sequences_increase (admitted_readings sensor (es @ [(w, at, OBICALL_ADMIT_OK, obs)]))"
    for sensor
    using inv before
    by (cases "sensor = ?key")
       (auto simp: tracks_inv_def admitted_readings_append new sequences_increase_def
         successively_append_iff)
  ultimately show ?thesis using inv len by (simp add: tracks_inv_def s')
qed

lemma admit_locked_tracks:
  assumes inv: "tracks_inv s es" and adm: "admit_locked now obs s = (reason, w, s')"
    and obs: "encodable_observation obs"
  shows "tracks_inv s' (es @ logged now (map_option (\<lambda>w. (w, reason, obs)) w))"
  using adm
proof (cases rule: admit_locked_cases)
  case full
  then show ?thesis using inv by (simp add: logged_def)
next
  case (window i s1 track)
  note f = find_or_create_track_inv [OF window(1) inv]
  have log: "logged now (map_option (\<lambda>w. (w, reason, obs)) w) = [(js_next_window_seq s1, now, reason, obs)]"
    by (simp add: logged_def window(3))
  have s': "js_tracks s' = (js_tracks s1)[i := the track]" "js_track_count s' = js_track_count s1"
    by (simp_all add: window(4))
  show ?thesis
  proof (cases "reason = OBICALL_ADMIT_OK")
    case False
    then have "track = Some (js_tracks s1 ! i)" using admit_reject_keeps_track [OF window(2)] by simp
    then have "tracks_inv s' es" using f(1) tracks_inv_cong [of s' s1] s' by simp
    then show ?thesis unfolding log using False by (rule tracks_inv_rejected)
  next
    case True
    from window(2) [unfolded True] obtain t where t: "track = Some t"
      "fst (obicall_observation_validate (Some obs)) = OBICALL_OK" "tr_sensor_id t = obs_sensor_id obs"
      "track_records t obs"
      "tr_has_data (js_tracks s1 ! i) \<noteq> 0 \<Longrightarrow>
        tr_source_boot_id (js_tracks s1 ! i) = obs_source_boot_id obs \<Longrightarrow>
        tr_highest_sequence_seen (js_tracks s1 ! i) < obs_sequence obs"
      by (elim admit_okE) (auto simp: track_records_def)
    have "length (obs_sensor_id obs) = 32" "length (obs_payload obs) = 6" "length (obs_covariance obs) = 36"
      using obs by (simp_all add: encodable_observation_def wf_observation_def)
    then have "0 \<in> set (take 32 (obs_sensor_id obs))"
      using validate_characterised t(2) by (simp add: observation_ok_def Let_def)
    note i = f(3) [OF this]
    show ?thesis
      unfolding log unfolding True
    proof (rule tracks_inv_admitted [OF f(1) i f(2) t(3,4) _ s'(1) [unfolded t(1) option.sel] s'(2)])
      assume "admitted_readings (cstr (obs_sensor_id obs)) es \<noteq> []"
        "obs_source_boot_id (last (admitted_readings (cstr (obs_sensor_id obs)) es)) = obs_source_boot_id obs"
      then show "obs_sequence (last (admitted_readings (cstr (obs_sensor_id obs)) es)) < obs_sequence obs"
        using f(4) t(5) by (simp add: track_records_def)
    qed
  qed
qed

section \<open>The segment file\<close>

lemma journal_write_snoc:
  "snd (journal_write f (es @ [e])) = the (snd (append_entry (snd (journal_write f es)) e))"
  by (induction es arbitrary: f) (simp_all add: case_prod_unfold)

definition segment_inv :: "FILE option \<Rightarrow> journal_state \<Rightarrow> journal_entry list \<Rightarrow> bool" where
  "segment_inv segment s es \<longleftrightarrow> js_segment_file s = map_option (\<lambda>f. snd (journal_write f es)) segment \<and>
     encodable_entries es \<and> (\<forall>e \<in> set es. norm_observation (entry_obs e) = entry_obs e)"

lemma segment_inv_append:
  assumes inv: "segment_inv segment s es" and adm: "admit_locked now obs s = (reason, w, s')"
    and obs: "encodable_observation obs" "norm_observation obs = obs"
  shows "segment_inv segment s' (es @ logged now (map_option (\<lambda>w. (w, reason, obs)) w))"
  using adm
proof (cases rule: admit_locked_cases)
  case full
  then show ?thesis using inv by (simp add: logged_def)
next
  case (window i s1 track)
  let ?e = "(js_next_window_seq s1, now, reason, obs)"
  have log: "logged now (map_option (\<lambda>w. (w, reason, obs)) w) = [?e]"
    by (simp add: logged_def window(3))
  have "js_segment_file s1 = js_segment_file s" using find_or_create_track_frame [OF window(1)] by simp
  moreover have "\<exists>f'. snd (obicall_journal_append_record (Some f) (js_next_window_seq s1) now reason
      (Some obs)) = Some f'" for f
    using append_entry_eq [of ?e f] obs by (simp add: append_entry_def entry_obs_def)
  ultimately have "js_segment_file s' = map_option (\<lambda>f. snd (journal_write f (es @ [?e]))) segment"
    using inv journal_write_snoc [where e = ?e and es = es]
    by (cases segment) (auto simp: segment_inv_def window(4) append_entry_def)
  then show ?thesis unfolding log using inv obs by (simp add: segment_inv_def entry_obs_def)
qed

lemma handle_worker_message_laws:
  assumes h: "handle_worker_message now msg_type payload s = (entry, s')" and len: "length payload \<le> 2048"
    and inv: "tracks_inv s es" "segment_inv segment s es"
  shows "tracks_inv s' (es @ logged now entry)" and "segment_inv segment s' (es @ logged now entry)"
proof -
  have "tracks_inv s' (es @ logged now entry) \<and> segment_inv segment s' (es @ logged now entry)"
    using h
  proof (cases rule: handle_worker_message_cases)
    case ignored
    then show ?thesis using inv by (simp add: logged_def)
  next
    case (admitted obs reason w)
    have "unat (of_nat (length payload) :: u32) \<le> length payload" using len by (simp add: unat_of_nat)
    from observation.decode_canonical [OF this admitted(1)]
    have "encodable_observation obs" "norm_observation obs = obs" by blast+
    then show ?thesis
      unfolding admitted(3)
      using admit_locked_tracks [OF inv(1) admitted(2)] segment_inv_append [OF inv(2) admitted(2)] by blast
  qed
  then show "tracks_inv s' (es @ logged now entry)" and "segment_inv segment s' (es @ logged now entry)"
    by blast+
qed

lemma same_tables:
  "js_tracks s = js_tracks t \<Longrightarrow> js_track_count s = js_track_count t \<Longrightarrow>
   js_segment_file s = js_segment_file t \<Longrightarrow>
   tracks_inv s es = tracks_inv t es \<and> segment_inv segment s es = segment_inv segment t es"
  using tracks_inv_cong [of s t es] by (simp add: segment_inv_def)

lemma set_slot_tables [simp]:
  "tracks_inv (set_slot i f s) es = tracks_inv s es"
  "segment_inv segment (set_slot i f s) es = segment_inv segment s es"
  using same_tables [of "set_slot i f s" s es segment] by (simp_all add: set_slot_def)

lemma journald_reachable_tables:
  "journald_reachable pipeline_id cfg segment g \<Longrightarrow>
     tracks_inv (jd_state g) (jd_log g) \<and> segment_inv segment (jd_state g) (jd_log g)"
proof (induction rule: journald_reachable.induct)
  case initial
  show ?case
    by (simp add: tracks_inv_def segment_inv_def journal_startup_def admitted_readings_def
        sequences_increase_def option.map_ident)
next
  case (step g g')
  from step(2,3) show ?case
  proof (induction rule: journald_step.induct)
    case (accept g i s)
    then have "js_tracks s = js_tracks (jd_state g)" "js_track_count s = js_track_count (jd_state g)"
      "js_segment_file s = js_segment_file (jd_state g)"
      by (auto simp: accept_connection_def split: option.splits)
    then show ?case using accept(2) same_tables [of s "jd_state g"] by simp
  next
    case (submit payload now msg_type g entry s)
    then show ?case
      using handle_worker_message_laws [OF submit(2,1), of "jd_log g" segment] by simp
  qed simp_all
qed

section \<open>A concrete run\<close>

text \<open>Two readings of one sensor are submitted; a broker asks for everything and receives the first.\<close>

definition example_reading :: "u64 \<Rightarrow> obicall_observation" where
  "example_reading n = example_observation\<lparr>obs_sequence := n\<rparr>"

definition example_log :: "journal_entry list" where
  "example_log = [(1, 50, OBICALL_ADMIT_OK, example_reading 5), (2, 60, OBICALL_ADMIT_OK, example_reading 6)]"

definition example_request :: obicall_msg_replay_request where
  "example_request = \<lparr>rq_pipeline_id = replicate 32 0, rq_from_window_seq = 0\<rparr>"

lemma example_reading_facts:
  "encodable_observation (example_reading n)" "norm_observation (example_reading n) = example_reading n"
  "fst (obicall_observation_validate (Some (example_reading n))) = OBICALL_OK"
  "obs_sensor_id (example_reading n) = 0x61 # replicate 31 0"
  "obs_source_boot_id (example_reading n) = 7" "obs_sequence (example_reading n) = n"
  "obs_sample_time_ns (example_reading n) = 1000"
proof -
  have "memcpy (replicate 6 0) 0 [Double 0x4000000000000000] = Double 0x4000000000000000 # replicate 5 0"
    and "memcpy (replicate 36 0) 0 [1] = (1 :: double) # replicate 35 0"
    by (simp_all add: memcpy_zero)
  then show "norm_observation (example_reading n) = example_reading n"
    by (simp add: norm_observation_def example_reading_def example_observation_def)
qed (simp_all add: example_reading_def example_observation_valid encodable_observation_def
      wf_observation_def, simp_all add: example_observation_def)

lemma example_submit:
  assumes "journald_reachable pid cfg segment g"
    and "admit_locked now (example_reading n) (jd_state g) = (reason, Some w, s)"
  shows "journald_reachable pid cfg segment
    (g\<lparr>jd_state := s, jd_log := jd_log g @ [(w, now, reason, example_reading n)]\<rparr>)"
proof -
  let ?p = "observation_layout (example_reading n)"
  note b = observation_layout_bounds [OF example_reading_facts(1), of n]
  have "obicall_wire_decode_observation (Some ?p) (of_nat (length ?p)) (Some fresh_observation) =
      Inr (example_reading n)"
    using observation.decode_prefix [OF example_reading_facts(1), of "of_nat (length ?p)" ?p n] b
    by (simp add: example_reading_facts(2))
  then have h: "handle_worker_message now OBICALL_MSG_OBSERVATION_SUBMIT ?p (jd_state g) =
      (Some (w, reason, example_reading n), s)"
    using assms(2) by (simp add: handle_worker_message_def)
  have "length ?p \<le> 2048" using b(1) by simp
  from journald_reachable.step [OF assms(1) journald_step.submit [OF this h]] show ?thesis
    by (simp add: logged_def)
qed

lemma no_subscribers_pending:
  "list_all (\<lambda>c. \<not> cs_in_use c) (js_conns s) \<Longrightarrow> compute_pending_depth_locked s = 0"
proof -
  have "list_all (\<lambda>c. \<not> cs_in_use c) cs \<Longrightarrow> foldl slowest_step acc cs = acc" for cs acc
    by (induction cs) (auto simp: slowest_step_def split: prod.split)
  then show "list_all (\<lambda>c. \<not> cs_in_use c) (js_conns s) \<Longrightarrow> ?thesis"
    by (simp add: compute_pending_depth_locked_def)
qed

lemma example_logged:
  "\<exists>g. journald_reachable pid example_config segment g \<and> jd_log g = example_log \<and>
     jd_subs g = (\<lambda>_. None)"
proof -
  let ?s0 = "journal_startup pid example_config segment"
  have r0: "journald_reachable pid example_config segment
      \<lparr>jd_state = ?s0, jd_log = [], jd_subs = (\<lambda>_. None)\<rparr>" by (rule journald_reachable.initial)
  have id: "cstr (strncpy_id (0x61 # replicate 31 0)) = [0x61]" "cstr (0x61 # replicate 31 0) = [0x61]"
    by (simp_all add: cstr_def strncpy_id_def Let_def)
  note facts = example_reading_facts id no_subscribers_pending
  have "\<exists>s1. admit_locked 50 (example_reading 5) ?s0 = (OBICALL_ADMIT_OK, Some 1, s1) \<and>
      js_track_count s1 = 1 \<and> tr_sensor_id (js_tracks s1 ! 0) = 0x61 # replicate 31 0 \<and>
      tr_has_data (js_tracks s1 ! 0) = 1 \<and> tr_source_boot_id (js_tracks s1 ! 0) = 7 \<and>
      tr_highest_sequence_seen (js_tracks s1 ! 0) = 5 \<and>
      tr_watermark_sample_time_ns (js_tracks s1 ! 0) = 1000 \<and>
      js_cfg s1 = example_config \<and> js_next_window_seq s1 = 2 \<and>
      list_all (\<lambda>c. \<not> cs_in_use c) (js_conns s1)"
    by (simp add: admit_locked_def find_or_create_track_def journal_startup_def Let_def facts
        obicall_journal_admit_def zero_track_def)
  then obtain s1 where s1: "admit_locked 50 (example_reading 5) ?s0 = (OBICALL_ADMIT_OK, Some 1, s1)"
      "js_track_count s1 = 1" "tr_sensor_id (js_tracks s1 ! 0) = 0x61 # replicate 31 0"
      "tr_has_data (js_tracks s1 ! 0) = 1" "tr_source_boot_id (js_tracks s1 ! 0) = 7"
      "tr_highest_sequence_seen (js_tracks s1 ! 0) = 5"
      "tr_watermark_sample_time_ns (js_tracks s1 ! 0) = 1000"
      "js_cfg s1 = example_config" "js_next_window_seq s1 = 2"
      "list_all (\<lambda>c. \<not> cs_in_use c) (js_conns s1)" by blast
  obtain s2 where s2: "admit_locked 60 (example_reading 6) s1 = (OBICALL_ADMIT_OK, Some 2, s2)"
    using s1(2-) by (simp add: admit_locked_def find_or_create_track_def Let_def facts strncmp_eq_def
        obicall_journal_admit_def)
  have "journald_reachable pid example_config segment
      \<lparr>jd_state = s1, jd_log = [(1, 50, OBICALL_ADMIT_OK, example_reading 5)], jd_subs = (\<lambda>_. None)\<rparr>"
    using example_submit [OF r0, of 50 5 OBICALL_ADMIT_OK 1 s1] s1(1) by simp
  from example_submit [OF this, of 60 6 OBICALL_ADMIT_OK 2 s2] s2 show ?thesis
    by (intro exI [of _ "\<lparr>jd_state = s2, jd_log = example_log, jd_subs = (\<lambda>_. None)\<rparr>"])
       (simp add: example_log_def)
qed

lemma example_log_fits: "log_fits example_log"
  by (simp add: log_fits_def example_log_def)

lemma example_subscribed:
  "\<exists>g b. journald_reachable pid example_config (Some example_segment) g \<and> jd_log g = example_log \<and>
     jd_subs g 0 = Some b \<and> \<not> sb_overrun b \<and> sb_first b = 1 \<and> length (sb_sent b) = 1"
proof -
  obtain g where g: "journald_reachable pid example_config (Some example_segment) g"
    "jd_log g = example_log" "jd_subs g = (\<lambda>_. None)" using example_logged by blast
  have ring: "ring_inv (jd_state g) example_log"
    using journald_reachable_inv [OF g(1)] example_log_fits by (simp add: journald_inv_def g(2))
  then have head: "js_ring_head (jd_state g) = 2" by (simp add: ring_inv_def example_log_def)
  have wf: "wf_replay_request example_request" by (simp add: wf_replay_request_def example_request_def)
  let ?p = "replay_request_layout example_request"
  have len: "length ?p = 40" using wf by (simp add: layout_simps)
  have dec: "obicall_wire_decode_replay_request (Some ?p) (of_nat (length ?p)) (Some fresh_replay_request) =
      Inr example_request"
    using replay_request.decode_prefix [OF wf, of 40 ?p] len by simp
  let ?b = "\<lparr>sb_cursor = 1, sb_sending = False, sb_first = 1, sb_sent = [], sb_overrun = False\<rparr>"
  let ?g1 = "g\<lparr>jd_state := set_slot 0 (\<lambda>c. c\<lparr>cs_next_seq_to_send := 1\<rparr>) (jd_state g),
       jd_subs := (jd_subs g)(0 \<mapsto> ?b)\<rparr>"
  have "journald_step g ?g1"
    using g(3) len dec head
    by (intro journald_step.request [of g 0 ?p example_request])
       (simp_all add: replay_cursor_def example_request_def Let_def)
  note r1 = journald_reachable.step [OF g(1) this]
  have f: "broker_fetch (sb_cursor ?b) (jd_state ?g1) = Some (js_ring (jd_state g) ! 1)"
    using head by (simp add: broker_fetch_def set_slot_def)
  have "jd_subs ?g1 0 = Some ?b" "\<not> sb_sending ?b" by simp_all
  from journald_reachable.step [OF r1 journald_step.fetch [OF this f]]
  show ?thesis using g(2) head
    by (intro exI conjI) (assumption | simp add: set_slot_def word_le_nat_alt)+
qed

section \<open>What the journal promises\<close>

text \<open>
  C23: the ring refines the unbounded log. In every reachable state a subscriber that asks for a window
  gets the logged entry of that window while fewer than 4096 windows lie after it, and otherwise the entry
  of the last window with the same remainder; nothing is returned for a window that was never assigned.
\<close>

theorem journal_fetch_refines_log:
  assumes "journald_reachable pipeline_id cfg segment g" and "Suc (length (jd_log g)) < 2 ^ 64"
  shows "broker_fetch c (jd_state g) =
    (let n = length (jd_log g); w = unat c in
     if 1 \<le> w \<and> w \<le> n then Some (ring_entry_of (jd_log g ! (n - 1 - (n - w) mod 4096))) else None)"
proof -
  have fits: "log_fits (jd_log g)" using assms(2) by (simp add: log_fits_def)
  have ring: "ring_inv (jd_state g) (jd_log g)"
    using journald_reachable_inv [OF assms(1) fits] by (simp add: journald_inv_def)
  show ?thesis
  proof (cases "broker_fetch c (jd_state g)")
    case None
    have "unat (js_ring_head (jd_state g)) = length (jd_log g)"
      using ring fits by (rule unat_ring_head)
    then show ?thesis
      using None by (auto simp: broker_fetch_def word_le_nat_alt Let_def split: if_splits)
  next
    case (Some e)
    then show ?thesis using fetch_exact [OF ring fits Some] by (simp add: Let_def)
  qed
qed

theorem journal_fetch_refines_log_witness:
  "\<exists>g. journald_reachable [] example_config (Some example_segment) g \<and>
     broker_fetch 2 (jd_state g) = Some (ring_entry_of (2, 60, OBICALL_ADMIT_OK, example_reading 6)) \<and>
     broker_fetch 3 (jd_state g) = None"
proof -
  obtain g where g: "journald_reachable [] example_config (Some example_segment) g" "jd_log g = example_log"
    using example_logged by blast
  moreover have "Suc (length (jd_log g)) < 2 ^ 64" by (simp add: g(2) example_log_def)
  ultimately show ?thesis
    using journal_fetch_refines_log [OF g(1), of 2] journal_fetch_refines_log [OF g(1), of 3]
    by (intro exI [of _ g]) (simp add: Let_def example_log_def)
qed



text \<open>
  C25: whatever workers submit to the journal, in whatever order and interleaved with whichever other
  sensors, two readings of one sensor that the log admits one after the other in the same boot session
  have increasing sequence numbers.
\<close>

theorem journal_orders_each_sensor:
  assumes "journald_reachable pipeline_id cfg segment g"
  shows "successively (\<lambda>o1 o2. obs_source_boot_id o1 = obs_source_boot_id o2 \<longrightarrow>
      obs_sequence o1 < obs_sequence o2) (admitted_readings sensor (jd_log g))"
  using journald_reachable_tables [OF assms] by (simp add: tracks_inv_def sequences_increase_def)

theorem journal_orders_each_sensor_witness:
  "\<exists>g. journald_reachable [] example_config (Some example_segment) g \<and>
     admitted_readings [0x61] (jd_log g) = [example_reading 5, example_reading 6] \<and>
     successively (\<lambda>o1 o2. obs_source_boot_id o1 = obs_source_boot_id o2 \<longrightarrow>
      obs_sequence o1 < obs_sequence o2) (admitted_readings [0x61] (jd_log g))"
proof -
  obtain g where g: "journald_reachable [] example_config (Some example_segment) g" "jd_log g = example_log"
    using example_logged by blast
  have "admitted_readings [0x61] (jd_log g) = [example_reading 5, example_reading 6]"
    by (simp add: g(2) example_log_def admitted_readings_def entry_obs_def example_reading_facts cstr_def)
  then show ?thesis using g(1) journal_orders_each_sensor [OF g(1)] by blast
qed

text \<open>Reading the segment back from where the process began to append, through any stream.\<close>

lemma segment_replay:
  assumes "journald_reachable pipeline_id cfg (Some f0) g" and "f_pos f0 = length (f_data f0)"
    and "js_segment_file (jd_state g) = Some f" and "f_data r = f_data f" and "f_pos r = f_pos f"
  shows "\<exists>k st f2. k \<le> length (jd_log g) \<and>
    replay_records h0 o0 r = Some (map (\<lambda>e. (entry_header e, entry_obs e)) (take k (jd_log g)), st, f2) \<and>
    st \<in> {OBICALL_ERR_NOT_FOUND, OBICALL_ERR_WIRE_MALFORMED} \<and>
    (length (entries_bytes (jd_log g)) \<le> f_room f0 \<longrightarrow> k = length (jd_log g))"
proof -
  let ?log = "jd_log g"
  have inv: "f = snd (journal_write f0 ?log)" "encodable_entries ?log"
    "\<forall>e \<in> set ?log. norm_observation (entry_obs e) = entry_obs e"
    using journald_reachable_tables [OF assms(1)] assms(3) by (simp_all add: segment_inv_def)
  have "drop (f_pos r) (f_data r) = take (f_room f0) (entries_bytes ?log)"
    using journal_write_file [OF inv(2), of f0] assms(2,4,5) inv(1) by simp
  from replay_prefix [OF inv(2) this, of h0 o0] obtain k st f2 where read: "k \<le> length ?log"
    "replay_records h0 o0 r = Some (map recovered (take k ?log), st, f2)"
    "st \<in> {OBICALL_ERR_NOT_FOUND, OBICALL_ERR_WIRE_MALFORMED}"
    "\<forall>j \<le> length ?log. length (entries_bytes (take j ?log)) \<le> f_room f0 \<longrightarrow> j \<le> k" by blast
  have "map recovered (take k ?log) = map (\<lambda>e. (entry_header e, entry_obs e)) (take k ?log)"
    using inv(3) by (auto simp: recovered_def dest: in_set_takeD)
  moreover have "length (entries_bytes ?log) \<le> f_room f0 \<longrightarrow> k = length ?log"
    using read(1) read(4) [rule_format, of "length ?log"] by auto
  ultimately show ?thesis using read(1-3) by auto
qed

lemma segment_open:
  assumes "journald_reachable pipeline_id cfg (Some f0) g"
  obtains f where "js_segment_file (jd_state g) = Some f" "f_pos f = f_pos f0"
  using journald_reachable_tables [OF assms] journal_write_file [of "jd_log g" f0] by (auto simp: segment_inv_def)

text \<open>
  C15: the segment file records the log. In every reachable state, replaying the segment from where the
  process began to append returns exactly a prefix of the log, in order, each entry with its window,
  decision and observation, and all of it when the device had room; however the device behaves.
\<close>

theorem segment_recovers_log:
  assumes "journald_reachable pipeline_id cfg (Some f0) g" and "f_pos f0 = length (f_data f0)"
  shows "\<exists>f k st f2. js_segment_file (jd_state g) = Some f \<and> k \<le> length (jd_log g) \<and>
    replay_records h0 o0 f = Some (map (\<lambda>e. (entry_header e, entry_obs e)) (take k (jd_log g)), st, f2) \<and>
    st \<in> {OBICALL_ERR_NOT_FOUND, OBICALL_ERR_WIRE_MALFORMED} \<and>
    (length (entries_bytes (jd_log g)) \<le> f_room f0 \<longrightarrow> k = length (jd_log g))"
proof -
  obtain f where f: "js_segment_file (jd_state g) = Some f" using segment_open [OF assms(1)] by blast
  from segment_replay [OF assms f refl refl, of h0 o0] f show ?thesis by blast
qed

theorem segment_recovers_log_witness:
  "\<exists>g f k st f2. journald_reachable [] example_config (Some example_segment) g \<and>
    js_segment_file (jd_state g) = Some f \<and>
    replay_records (entry_header (hd example_log)) fresh_observation f =
      Some (map (\<lambda>e. (entry_header e, entry_obs e)) (take k example_log), st, f2)"
proof -
  obtain g where g: "journald_reachable [] example_config (Some example_segment) g" "jd_log g = example_log"
    using example_logged by blast
  have "f_pos example_segment = length (f_data example_segment)" by (simp add: example_segment_def)
  from segment_recovers_log [OF g(1) this, of "entry_header (hd example_log)" fresh_observation]
  obtain f k st f2 where "js_segment_file (jd_state g) = Some f"
    "replay_records (entry_header (hd example_log)) fresh_observation f =
      Some (map (\<lambda>e. (entry_header e, entry_obs e)) (take k example_log), st, f2)"
    unfolding g(2) by blast
  with g(1) show ?thesis by blast
qed

text \<open>
  What goes over the wire. For every logged entry the two frames the journal sends a broker are
  decoded by the receiver to the observation that was admitted, field by field, and to a decision with its
  window, its sequence and the reason it was given.
\<close>

theorem replay_frames_decode:
  assumes "journald_reachable pipeline_id cfg segment g" and "(w, at, reason, obs) \<in> set (jd_log g)"
  shows "\<exists>data decision. send_ring_entry pid now (ring_entry_of (w, at, reason, obs)) =
      [(OBICALL_MSG_REPLAY_DATA, data), (OBICALL_MSG_ADMISSION_DECISION, decision)] \<and>
    obicall_wire_decode_observation (Some data) (of_nat (length data)) (Some o0) = Inr obs \<and>
    (\<exists>dec. obicall_wire_decode_admission_decision (Some decision) (of_nat (length decision)) (Some d0) =
       Inr dec \<and> ad_window_seq dec = w \<and> ad_sequence dec = obs_sequence obs \<and>
       ad_reason_code dec = admission_code reason \<and> (ad_admitted dec \<noteq> 0 \<longleftrightarrow> reason = OBICALL_ADMIT_OK))"
proof -
  have obs: "encodable_observation obs" "norm_observation obs = obs"
    using journald_reachable_tables [OF assms(1)] assms(2)
    by (fastforce simp: segment_inv_def list_all_iff entry_obs_def)+
  note b = observation_layout_bounds [OF obs(1)]
  let ?data = "observation_layout obs"
  let ?dec = "\<lparr>ad_pipeline_id = strncpy_id pid, ad_window_seq = w,
     ad_sensor_id = strncpy_id (obs_sensor_id obs), ad_sequence = obs_sequence obs,
     ad_admitted = (if admission_code reason = 0 then 1 else 0),
     ad_reason_code = admission_code reason, ad_decided_at_ns = now\<rparr>"
  let ?decision = "admission_decision_layout ?dec"
  have wf: "wf_admission_decision ?dec" by (simp add: wf_admission_decision_def length_strncpy_id)
  then have dlen: "length ?decision = 96" by (simp add: layout_simps)
  have "send_ring_entry pid now (ring_entry_of (w, at, reason, obs)) =
      [(OBICALL_MSG_REPLAY_DATA, ?data), (OBICALL_MSG_ADMISSION_DECISION, ?decision)]"
    using observation.encode_run [of obs 1200 "replicate 1200 0" 0] b obs(1)
      admission_decision.encode_run [OF wf, of 256 "replicate 256 0" 0] dlen
    by (simp add: send_ring_entry_def memcpy_zero)
  moreover have "obicall_wire_decode_observation (Some ?data) (of_nat (length ?data)) (Some o0) = Inr obs"
    using observation.decode_prefix [OF obs(1), of "of_nat (length ?data)" ?data o0] b obs(2) by simp
  moreover have "obicall_wire_decode_admission_decision (Some ?decision) (of_nat (length ?decision))
      (Some d0) = Inr ?dec"
    using admission_decision.decode_prefix [OF wf, of 96 ?decision d0] dlen by simp
  ultimately show ?thesis by (intro exI conjI) (assumption | cases reason; simp)+
qed

theorem replay_frames_decode_witness:
  "\<exists>data decision. send_ring_entry [] 70 (ring_entry_of (1, 50, OBICALL_ADMIT_OK, example_reading 5)) =
      [(OBICALL_MSG_REPLAY_DATA, data), (OBICALL_MSG_ADMISSION_DECISION, decision)] \<and>
    obicall_wire_decode_observation (Some data) (of_nat (length data)) (Some fresh_observation) =
      Inr (example_reading 5)"
proof -
  obtain g where g: "journald_reachable [] example_config (Some example_segment) g" "jd_log g = example_log"
    using example_logged by blast
  have "(1, 50, OBICALL_ADMIT_OK, example_reading 5) \<in> set (jd_log g)" by (simp add: g(2) example_log_def)
  from replay_frames_decode [OF g(1) this] show ?thesis by blast
qed

end
