(* ===== verification/Dgt.thy ===== *)
theory Dgt
  imports Ieee_Double Obicall_Types
begin

text \<open>
  \<^verbatim>\<open>src/core/dgt.c\<close>: the policy table, its validation, and the constrained minimax selection with
  hysteresis and a fallback baseline. The selector runs on tables that validation has refused, so a read
  of an array is a partial operation here: \<open>None\<close> is a read outside its array. The laws say what the
  selection is optimal for, when it falls back, and for which tables every read stays in bounds.
\<close>

section \<open>Data\<close>

abbreviation (input) OBICALL_DGT_POLICY_SCHEMA_VERSION :: u32 where "OBICALL_DGT_POLICY_SCHEMA_VERSION \<equiv> 1"
abbreviation (input) OBICALL_DGT_MAX_ACTIONS :: u32 where "OBICALL_DGT_MAX_ACTIONS \<equiv> 16"
abbreviation (input) OBICALL_DGT_MAX_SCENARIOS :: u32 where "OBICALL_DGT_MAX_SCENARIOS \<equiv> 16"
abbreviation (input) sizeof_policy_table :: u32 where "sizeof_policy_table \<equiv> 11800"

record obicall_dgt_action =
  da_action_id :: u32
  da_name :: bytes
  da_sensor_subset_mask :: u64
  da_estimator_mode :: u32
  da_provider_name :: bytes

record obicall_dgt_scenario =
  ds_scenario_id :: u32
  ds_name :: bytes

record obicall_dgt_cost_components =
  cc_estimation_error :: double
  cc_delay :: double
  cc_coverage_loss :: double
  cc_resource_cost :: double

record obicall_dgt_weights =
  w_estimation_error :: double
  w_delay :: double
  w_coverage_loss :: double
  w_resource_cost :: double

record obicall_dgt_policy_table =
  pt_struct_size :: u32
  pt_schema_version :: u32
  pt_policy_version :: u32
  pt_action_count :: u32
  pt_actions :: "obicall_dgt_action list"
  pt_scenario_count :: u32
  pt_scenarios :: "obicall_dgt_scenario list"
  pt_weights :: obicall_dgt_weights
  pt_cost :: "obicall_dgt_cost_components list list"
  pt_scale_estimation_error :: double
  pt_scale_delay :: double
  pt_scale_coverage_loss :: double
  pt_scale_resource_cost :: double

record obicall_dgt_eligibility =
  el_action_eligible :: "u32 list"

record obicall_dgt_hysteresis_state =
  hy_has_previous :: u32
  hy_previous_action_index :: u32
  hy_previous_worst_case_loss :: double

record obicall_dgt_decision =
  dd_selected_action_id :: u32
  dd_selected_action_index :: u32
  dd_worst_case_loss :: double
  dd_eligible_count :: u32
  dd_used_fallback_baseline :: u32
  dd_used_hysteresis_hold :: u32

text \<open>A read of an array element; \<open>None\<close> outside its bounds.\<close>

definition read_at :: "'a list \<Rightarrow> nat \<Rightarrow> 'a option" where
  "read_at xs i = (if i < length xs then Some (xs ! i) else None)"

section \<open>Validation\<close>

text \<open>
  \<^verbatim>\<open>snprintf(out, cap, "%s", msg)\<close>: at most \<open>cap - 1\<close> characters and a NUL.
\<close>

definition set_issue :: "bytes option \<Rightarrow> u32 \<Rightarrow> string \<Rightarrow> bytes option" where
  "set_issue out cap msg =
     (case out of None \<Rightarrow> None
      | Some out \<Rightarrow> Some (if cap > 0
          then memcpy out 0 (take (unat cap - 1) (map of_char msg) @ [0]) else out))"

definition bad_weight :: "double \<Rightarrow> bool" where
  "bad_weight w \<longleftrightarrow> \<not> isfinite w \<or> w < 0"

definition bad_scale :: "double \<Rightarrow> bool" where
  "bad_scale s \<longleftrightarrow> \<not> isfinite s \<or> s \<le> 0"

definition cost_components :: "obicall_dgt_cost_components \<Rightarrow> double list" where
  "cost_components c = [cc_estimation_error c, cc_delay c, cc_coverage_loss c, cc_resource_cost c]"

text \<open>The counts are checked before the loops, so these reads stay in the arrays.\<close>

definition obicall_dgt_validate_table ::
  "obicall_dgt_policy_table option \<Rightarrow> bytes option \<Rightarrow> u32 \<Rightarrow> obicall_status \<times> bytes option" where
  "obicall_dgt_validate_table table out_issue_detail detail_cap =
     (case table of
        None \<Rightarrow> (OBICALL_ERR_NULL_POINTER, out_issue_detail)
      | Some table \<Rightarrow>
          if pt_struct_size table \<noteq> sizeof_policy_table
          then (OBICALL_ERR_INVALID_ARGUMENT, set_issue out_issue_detail detail_cap ''struct_size mismatch'')
          else if pt_schema_version table \<noteq> OBICALL_DGT_POLICY_SCHEMA_VERSION
          then (OBICALL_ERR_UNSUPPORTED,
            set_issue out_issue_detail detail_cap ''unsupported policy schema_version'')
          else if pt_action_count table = 0 \<or> pt_action_count table > OBICALL_DGT_MAX_ACTIONS
          then (OBICALL_ERR_INVALID_ARGUMENT,
            set_issue out_issue_detail detail_cap ''action_count out of range'')
          else if pt_scenario_count table = 0 \<or> pt_scenario_count table > OBICALL_DGT_MAX_SCENARIOS
          then (OBICALL_ERR_INVALID_ARGUMENT,
            set_issue out_issue_detail detail_cap ''scenario_count out of range'')
          else
            (let w = pt_weights table;
                 weights = [w_estimation_error w, w_delay w, w_coverage_loss w, w_resource_cost w];
                 scales = [pt_scale_estimation_error table, pt_scale_delay table,
                   pt_scale_coverage_loss table, pt_scale_resource_cost table]
             in if list_ex bad_weight weights
                then (OBICALL_ERR_DGT_INVALID_SCORE,
                  set_issue out_issue_detail detail_cap ''weight is non-finite or negative'')
                else if \<not> list_ex (\<lambda>w. w > 0) weights
                then (OBICALL_ERR_DGT_INVALID_SCORE,
                  set_issue out_issue_detail detail_cap ''at least one weight must be positive'')
                else if list_ex bad_scale scales
                then (OBICALL_ERR_DGT_INVALID_SCORE,
                  set_issue out_issue_detail detail_cap ''normalization scale must be finite and positive'')
                else if list_ex (\<lambda>a. list_ex (\<lambda>s. list_ex bad_weight (cost_components (pt_cost table ! a ! s)))
                          [0..<unat (pt_scenario_count table)]) [0..<unat (pt_action_count table)]
                then (OBICALL_ERR_DGT_INVALID_SCORE,
                  set_issue out_issue_detail detail_cap ''cost component is non-finite or negative'')
                else (OBICALL_OK, out_issue_detail)))"

section \<open>Worst-case loss\<close>

definition scenario_loss :: "obicall_dgt_policy_table \<Rightarrow> obicall_dgt_cost_components \<Rightarrow> double" where
  "scenario_loss table c =
     w_estimation_error (pt_weights table) *
       (divide (cc_estimation_error c) (pt_scale_estimation_error table)) +
     w_delay (pt_weights table) * (divide (cc_delay c) (pt_scale_delay table)) +
     w_coverage_loss (pt_weights table) * (divide (cc_coverage_loss c) (pt_scale_coverage_loss table)) +
     w_resource_cost (pt_weights table) * (divide (cc_resource_cost c) (pt_scale_resource_cost table))"

text \<open>The loop over the scenarios; the accumulator is \<^verbatim>\<open>worst\<close> once \<^verbatim>\<open>have_one\<close> is set.\<close>

primrec worst_scan :: "obicall_dgt_policy_table \<Rightarrow> nat \<Rightarrow> nat list \<Rightarrow> double option \<Rightarrow>
    double option res option" where
  "worst_scan table a [] worst = Some (Inr worst)"
| "worst_scan table a (s # ss) worst =
     (case Option.bind (read_at (pt_cost table) a) (\<lambda>row. read_at row s) of
        None \<Rightarrow> None
      | Some c \<Rightarrow>
          (let loss = scenario_loss table c
           in if \<not> isfinite loss then Some (Inl OBICALL_ERR_DGT_INVALID_SCORE)
              else worst_scan table a ss
                (case worst of None \<Rightarrow> Some loss | Some w \<Rightarrow> Some (if loss > w then loss else w))))"

definition obicall_dgt_action_worst_case_loss ::
  "obicall_dgt_policy_table option \<Rightarrow> u32 \<Rightarrow> double option \<Rightarrow> double res option" where
  "obicall_dgt_action_worst_case_loss table action_index out_loss =
     (case (table, out_loss) of
        (Some table, Some _) \<Rightarrow>
          if action_index \<ge> pt_action_count table then Some (Inl OBICALL_ERR_OUT_OF_RANGE)
          else (case worst_scan table (unat action_index) [0..<unat (pt_scenario_count table)] None of
                  None \<Rightarrow> None
                | Some (Inl st) \<Rightarrow> Some (Inl st)
                | Some (Inr None) \<Rightarrow> Some (Inl OBICALL_ERR_DGT_INVALID_SCORE)
                | Some (Inr (Some worst)) \<Rightarrow> Some (Inr worst))
      | _ \<Rightarrow> Some (Inl OBICALL_ERR_NULL_POINTER))"

section \<open>Selection\<close>

definition zero_decision :: obicall_dgt_decision where
  "zero_decision = \<lparr>dd_selected_action_id = 0, dd_selected_action_index = 0, dd_worst_case_loss = 0,
     dd_eligible_count = 0, dd_used_fallback_baseline = 0, dd_used_hysteresis_hold = 0\<rparr>"

definition zero_hysteresis :: obicall_dgt_hysteresis_state where
  "zero_hysteresis = \<lparr>hy_has_previous = 0, hy_previous_action_index = 0, hy_previous_worst_case_loss = 0\<rparr>"

text \<open>
  The value of a selection: the status, and \<^verbatim>\<open>*out_decision\<close> and \<^verbatim>\<open>*hysteresis_out\<close> afterwards.
\<close>

type_synonym selection = "obicall_status \<times> obicall_dgt_decision option \<times> obicall_dgt_hysteresis_state option"

definition select_baseline ::
  "obicall_dgt_policy_table option \<Rightarrow> obicall_dgt_eligibility \<Rightarrow> u32 \<Rightarrow> obicall_dgt_decision \<Rightarrow>
   obicall_dgt_hysteresis_state option \<Rightarrow> selection option" where
  "select_baseline table eligibility baseline out_decision hysteresis_out =
     (let none_eligible = (OBICALL_ERR_DGT_NO_ELIGIBLE_ACTION, Some out_decision, hysteresis_out)
      in case table of
           None \<Rightarrow> Some none_eligible
         | Some t \<Rightarrow>
             if baseline \<ge> pt_action_count t then Some none_eligible
             else do {
               el \<leftarrow> read_at (el_action_eligible eligibility) (unat baseline);
               if el = 0 then Some none_eligible
               else do {
                 r \<leftarrow> obicall_dgt_action_worst_case_loss (Some t) baseline (Some 0);
                 case r of
                   Inl _ \<Rightarrow> Some none_eligible
                 | Inr loss \<Rightarrow> do {
                     action \<leftarrow> read_at (pt_actions t) (unat baseline);
                     Some (OBICALL_OK,
                       Some \<lparr>dd_selected_action_id = da_action_id action,
                         dd_selected_action_index = baseline, dd_worst_case_loss = loss,
                         dd_eligible_count = 1, dd_used_fallback_baseline = 1,
                         dd_used_hysteresis_hold = 0\<rparr>,
                       map_option (\<lambda>_. \<lparr>hy_has_previous = 1, hy_previous_action_index = baseline,
                         hy_previous_worst_case_loss = loss\<rparr>) hysteresis_out) } } })"

text \<open>
  The loop over the actions: how many are eligible with a finite loss, and the best so far with its
  loss (\<open>None\<close> for \<^verbatim>\<open>OBICALL_DGT_INVALID_ACTION_INDEX\<close>).
\<close>

definition better_action :: "obicall_dgt_policy_table \<Rightarrow> nat \<Rightarrow> double \<Rightarrow> nat \<times> double \<Rightarrow> bool option" where
  "better_action table a loss best = (case best of (best_idx, best_loss) \<Rightarrow>
     if loss < best_loss then Some True
     else if double_eq loss best_loss then do {
       x \<leftarrow> read_at (pt_actions table) a;
       y \<leftarrow> read_at (pt_actions table) best_idx;
       Some (da_action_id x < da_action_id y) }
     else Some False)"

primrec select_scan :: "obicall_dgt_policy_table \<Rightarrow> u32 list \<Rightarrow> nat list \<Rightarrow> u32 \<times> (nat \<times> double) option \<Rightarrow>
    (u32 \<times> (nat \<times> double) option) option" where
  "select_scan table eligible [] acc = Some acc"
| "select_scan table eligible (a # as) acc = do {
     el \<leftarrow> read_at eligible a;
     if el = 0 then select_scan table eligible as acc
     else do {
       r \<leftarrow> obicall_dgt_action_worst_case_loss (Some table) (of_nat a) (Some 0);
       case r of
         Inl _ \<Rightarrow> select_scan table eligible as acc
       | Inr loss \<Rightarrow> (case acc of (eligible_count, best) \<Rightarrow> do {
           replace \<leftarrow> (case best of None \<Rightarrow> Some True | Some b \<Rightarrow> better_action table a loss b);
           select_scan table eligible as (eligible_count + 1, if replace then Some (a, loss) else best) }) } }"

text \<open>The action hysteresis retains instead of the best one, with its loss.\<close>

definition hysteresis_hold ::
  "obicall_dgt_policy_table \<Rightarrow> u32 list \<Rightarrow> obicall_dgt_hysteresis_state option \<Rightarrow> double \<Rightarrow> double \<Rightarrow>
   (u32 \<times> double) option option" where
  "hysteresis_hold table eligible hysteresis_in margin best_loss =
     (case hysteresis_in of
        None \<Rightarrow> Some None
      | Some h \<Rightarrow>
          if hy_has_previous h = 0 then Some None
          else if \<not> hy_previous_action_index h < pt_action_count table then Some None
          else do {
            el \<leftarrow> read_at eligible (unat (hy_previous_action_index h));
            if el = 0 then Some None
            else do {
              r \<leftarrow> obicall_dgt_action_worst_case_loss (Some table) (hy_previous_action_index h) (Some 0);
              case r of
                Inl _ \<Rightarrow> Some None
              | Inr prev_loss \<Rightarrow>
                  (let threshold = prev_loss * (1 - margin)
                   in Some (if \<not> best_loss < threshold
                            then Some (hy_previous_action_index h, prev_loss) else None)) } })"

definition obicall_dgt_select_action ::
  "obicall_dgt_policy_table option \<Rightarrow> obicall_dgt_eligibility option \<Rightarrow>
   obicall_dgt_hysteresis_state option \<Rightarrow> double \<Rightarrow> u32 \<Rightarrow> obicall_dgt_decision option \<Rightarrow>
   obicall_dgt_hysteresis_state option \<Rightarrow> selection option" where
  "obicall_dgt_select_action table eligibility hysteresis_in hysteresis_margin baseline_action_index
       out_decision hysteresis_out =
     (case (eligibility, out_decision) of
        (Some eligibility, Some _) \<Rightarrow>
          (let out_decision = zero_decision;
               hysteresis_out = map_option (\<lambda>_. zero_hysteresis) hysteresis_out;
               baseline = select_baseline table eligibility baseline_action_index out_decision hysteresis_out
           in if fst (obicall_dgt_validate_table table (Some (replicate 128 0)) 128) \<noteq> OBICALL_OK
              then baseline
              else do {
                (eligible_count, best) \<leftarrow> select_scan (the table) (el_action_eligible eligibility)
                   [0..<unat (pt_action_count (the table))] (0, None);
                case best of
                  None \<Rightarrow> baseline
                | Some (best_idx, best_loss) \<Rightarrow> do {
                    held \<leftarrow> hysteresis_hold (the table) (el_action_eligible eligibility) hysteresis_in
                       hysteresis_margin best_loss;
                    let (final_idx, final_loss, used_hold) = (case held of
                           None \<Rightarrow> (of_nat best_idx, best_loss, 0)
                         | Some (prev, prev_loss) \<Rightarrow>
                             (prev, prev_loss, if prev \<noteq> of_nat best_idx then 1 else 0));
                    action \<leftarrow> read_at (pt_actions (the table)) (unat final_idx);
                    Some (OBICALL_OK,
                      Some \<lparr>dd_selected_action_id = da_action_id action,
                        dd_selected_action_index = final_idx, dd_worst_case_loss = final_loss,
                        dd_eligible_count = eligible_count, dd_used_fallback_baseline = 0,
                        dd_used_hysteresis_hold = used_hold\<rparr>,
                      map_option (\<lambda>_. \<lparr>hy_has_previous = 1, hy_previous_action_index = final_idx,
                        hy_previous_worst_case_loss = final_loss\<rparr>) hysteresis_out) } })
      | _ \<Rightarrow> Some (OBICALL_ERR_NULL_POINTER, out_decision, hysteresis_out))"

section \<open>Laws of validation\<close>

text \<open>The arrays of the structs have their declared lengths.\<close>

definition wf_policy_table :: "obicall_dgt_policy_table \<Rightarrow> bool" where
  "wf_policy_table t \<longleftrightarrow> length (pt_actions t) = 16 \<and> length (pt_cost t) = 16 \<and>
     list_all (\<lambda>row. length row = 16) (pt_cost t)"

definition weights_of :: "obicall_dgt_policy_table \<Rightarrow> double list" where
  "weights_of t = [w_estimation_error (pt_weights t), w_delay (pt_weights t),
     w_coverage_loss (pt_weights t), w_resource_cost (pt_weights t)]"

definition scales_of :: "obicall_dgt_policy_table \<Rightarrow> double list" where
  "scales_of t = [pt_scale_estimation_error t, pt_scale_delay t, pt_scale_coverage_loss t,
     pt_scale_resource_cost t]"

definition valid_table :: "obicall_dgt_policy_table \<Rightarrow> bool" where
  "valid_table t \<longleftrightarrow> pt_struct_size t = sizeof_policy_table \<and> pt_schema_version t = 1 \<and>
     1 \<le> pt_action_count t \<and> pt_action_count t \<le> 16 \<and>
     1 \<le> pt_scenario_count t \<and> pt_scenario_count t \<le> 16 \<and>
     list_all (\<lambda>w. isfinite w \<and> 0 \<le> w) (weights_of t) \<and> list_ex (\<lambda>w. 0 < w) (weights_of t) \<and>
     list_all (\<lambda>s. isfinite s \<and> 0 < s) (scales_of t) \<and>
     (\<forall>a < unat (pt_action_count t). \<forall>s < unat (pt_scenario_count t).
        list_all (\<lambda>x. isfinite x \<and> 0 \<le> x) (cost_components (pt_cost t ! a ! s)))"

lemma bad_weight_iff: "\<not> bad_weight w \<longleftrightarrow> isfinite w \<and> 0 \<le> w"
  using double_not_less [of w 0] by (auto simp: bad_weight_def isfinite_not_isnan not_isnan_zero)

lemma bad_scale_iff: "\<not> bad_scale s \<longleftrightarrow> isfinite s \<and> 0 < s"
proof -
  have "isfinite s \<Longrightarrow> \<not> s \<le> 0 \<longleftrightarrow> 0 < s"
    using double_not_less [of 0 s] by (auto simp: isfinite_not_isnan not_isnan_zero)
  then show ?thesis by (auto simp: bad_scale_def)
qed

lemma word_ge_1: "x \<noteq> 0 \<longleftrightarrow> 1 \<le> (x :: u32)"
  by (metis word_gt_0 word_less_1 not_le)

lemma validate_table_iff:
  "fst (obicall_dgt_validate_table (Some t) detail cap) = OBICALL_OK \<longleftrightarrow> valid_table t"
proof -
  have weights: "list_ex bad_weight ws \<longleftrightarrow> \<not> list_all (\<lambda>w. isfinite w \<and> 0 \<le> w) ws"
    and scales: "list_ex bad_scale ws \<longleftrightarrow> \<not> list_all (\<lambda>w. isfinite w \<and> 0 < w) ws" for ws
    using bad_weight_iff bad_scale_iff by (auto simp: list_ex_iff list_all_iff)
  have cost: "list_ex (\<lambda>a. list_ex (\<lambda>s. \<not> P a s) [0..<n]) [0..<k] \<longleftrightarrow>
      \<not> (\<forall>a < k. \<forall>s < n. P a s)" for P and k n :: nat
    by (simp add: list_ex_iff Bex_def)
  show ?thesis
    unfolding obicall_dgt_validate_table_def valid_table_def option.case Let_def
      weights_of_def [symmetric] scales_of_def [symmetric] weights scales cost
    by (simp add: word_ge_1 [symmetric] not_less [symmetric, where 'a = u32])
qed

section \<open>Laws of the worst-case loss\<close>

definition loss_at :: "obicall_dgt_policy_table \<Rightarrow> nat \<Rightarrow> nat \<Rightarrow> double" where
  "loss_at t a s = scenario_loss t (pt_cost t ! a ! s)"

definition losses :: "obicall_dgt_policy_table \<Rightarrow> nat \<Rightarrow> double list" where
  "losses t a = map (loss_at t a) [0..<unat (pt_scenario_count t)]"

lemma read_cost:
  assumes "wf_policy_table t" and "a < 16" and "s < 16"
  shows "Option.bind (read_at (pt_cost t) a) (\<lambda>row. read_at row s) = Some (pt_cost t ! a ! s)"
  using assms by (simp add: wf_policy_table_def read_at_def list_all_length)

text \<open>What the scan returns from its accumulator and the losses still to come.\<close>

definition worst_of :: "double option \<Rightarrow> double list \<Rightarrow> double option \<Rightarrow> bool" where
  "worst_of acc ls r \<longleftrightarrow> (case r of
     None \<Rightarrow> acc = None \<and> ls = []
   | Some m \<Rightarrow> (acc = Some m \<or> m \<in> set ls) \<and>
       (\<forall>l. acc = Some l \<or> l \<in> set ls \<longrightarrow> l \<le> m))"

lemma finite_le_cases: "isfinite x \<Longrightarrow> isfinite y \<Longrightarrow> x < y \<or> y \<le> (x :: double)"
  using double_not_less [of x y] by (auto simp: isfinite_not_isnan)

lemma finite_le_refl: "isfinite x \<Longrightarrow> x \<le> (x :: double)"
  by (simp add: double_le_refl isfinite_not_isnan)

lemma worst_of_step:
  assumes l: "isfinite l" and acc: "\<And>w. acc = Some w \<Longrightarrow> isfinite w"
    and r: "worst_of (case acc of None \<Rightarrow> Some l | Some w \<Rightarrow> Some (if l > w then l else w)) ls r"
  shows "worst_of acc (l # ls) r"
proof (cases acc)
  case None
  then show ?thesis using r by (auto simp: worst_of_def split: option.splits)
next
  case (Some w)
  have w: "isfinite w" using acc Some by simp
  show ?thesis
  proof (cases "l > w")
    case True
    then have "worst_of (Some l) ls r" using r Some by simp
    then show ?thesis
      using Some True by (auto simp: worst_of_def intro: double_le_trans double_less_imp_le split: option.splits)
  next
    case False
    then have "l \<le> w" using finite_le_cases [OF w l] by blast
    moreover have "worst_of (Some w) ls r" using r Some False by simp
    ultimately show ?thesis
      using Some by (auto simp: worst_of_def intro: double_le_trans split: option.splits)
  qed
qed

lemma worst_scan_laws:
  assumes "\<forall>s \<in> set ss. Option.bind (read_at (pt_cost t) a) (\<lambda>row. read_at row s) = Some (pt_cost t ! a ! s)"
    and "\<And>w. acc = Some w \<Longrightarrow> isfinite w"
  shows "if list_all (\<lambda>s. isfinite (loss_at t a s)) ss
    then \<exists>r. worst_scan t a ss acc = Some (Inr r) \<and>
      worst_of acc (map (loss_at t a) ss) r
    else worst_scan t a ss acc = Some (Inl OBICALL_ERR_DGT_INVALID_SCORE)"
  using assms
proof (induction ss arbitrary: acc)
  case Nil
  then show ?case by (auto simp: worst_of_def finite_le_refl split: option.split)
next
  case (Cons s ss)
  let ?l = "loss_at t a s"
  let ?acc = "case acc of None \<Rightarrow> Some ?l | Some w \<Rightarrow> Some (if ?l > w then ?l else w)"
  show ?case
  proof (cases "isfinite ?l")
    case False
    then show ?thesis using Cons.prems(1) by (simp add: loss_at_def)
  next
    case True
    have scan: "worst_scan t a (s # ss) acc = worst_scan t a ss ?acc"
      using True Cons.prems(1) unfolding loss_at_def by (simp add: Let_def)
    have "isfinite w" if "?acc = Some w" for w
      using that True Cons.prems(2) by (auto split: option.splits if_splits)
    then have IH: "if list_all (\<lambda>s. isfinite (loss_at t a s)) ss
      then \<exists>r. worst_scan t a ss ?acc = Some (Inr r) \<and>
        worst_of ?acc (map (loss_at t a) ss) r
      else worst_scan t a ss ?acc = Some (Inl OBICALL_ERR_DGT_INVALID_SCORE)"
      using Cons.prems(1) by (intro Cons.IH) simp_all
    show ?thesis
      unfolding scan using True IH worst_of_step [OF True Cons.prems(2)]
      by (auto split: if_splits)
  qed
qed

text \<open>The worst-case loss of an action, as a value of the model, when every read is in bounds.\<close>

definition in_bounds :: "obicall_dgt_policy_table \<Rightarrow> bool" where
  "in_bounds t \<longleftrightarrow> wf_policy_table t \<and> pt_action_count t \<le> 16 \<and> pt_scenario_count t \<le> 16"

lemma worst_case_loss_laws:
  assumes "in_bounds t" and "a < pt_action_count t"
  shows "if list_all isfinite (losses t (unat a)) \<and> pt_scenario_count t \<noteq> 0
    then \<exists>m. obicall_dgt_action_worst_case_loss (Some t) a (Some x) = Some (Inr m) \<and>
      m \<in> set (losses t (unat a)) \<and> (\<forall>l \<in> set (losses t (unat a)). l \<le> m)
    else obicall_dgt_action_worst_case_loss (Some t) a (Some x) = Some (Inl OBICALL_ERR_DGT_INVALID_SCORE)"
proof -
  let ?ss = "[0..<unat (pt_scenario_count t)]"
  have "unat a < 16" "unat (pt_scenario_count t) \<le> 16"
    using assms by (simp_all add: in_bounds_def word_less_nat_alt word_le_nat_alt)
  then have reads: "\<forall>s \<in> set ?ss. Option.bind (read_at (pt_cost t) (unat a)) (\<lambda>row. read_at row s) =
      Some (pt_cost t ! unat a ! s)"
    using assms(1) by (auto simp: in_bounds_def intro!: read_cost)
  have unfold: "obicall_dgt_action_worst_case_loss (Some t) a (Some x) =
      (case worst_scan t (unat a) ?ss None of
         None \<Rightarrow> None
       | Some (Inl st) \<Rightarrow> Some (Inl st)
       | Some (Inr None) \<Rightarrow> Some (Inl OBICALL_ERR_DGT_INVALID_SCORE)
       | Some (Inr (Some worst)) \<Rightarrow> Some (Inr worst))"
    using assms(2) by (simp add: obicall_dgt_action_worst_case_loss_def not_le)
  have ne: "losses t (unat a) = [] \<longleftrightarrow> pt_scenario_count t = 0"
    by (simp add: losses_def unat_eq_zero)
  have all: "list_all (\<lambda>s. isfinite (loss_at t (unat a) s)) ?ss \<longleftrightarrow>
      list_all isfinite (losses t (unat a))"
    by (simp add: losses_def list_all_iff)
  show ?thesis
    using worst_scan_laws [OF reads, of None] ne unfolding unfold all losses_def [symmetric]
    by (auto simp: worst_of_def split: option.splits if_splits)
qed

lemma worst_case_loss_total:
  assumes "in_bounds t" and "a < pt_action_count t"
  obtains (loss) m where "obicall_dgt_action_worst_case_loss (Some t) a (Some x) = Some (Inr m)" "isfinite m"
  | (invalid) "obicall_dgt_action_worst_case_loss (Some t) a (Some x) = Some (Inl OBICALL_ERR_DGT_INVALID_SCORE)"
  using worst_case_loss_laws [OF assms, of x]
  by (auto simp: list_all_iff split: if_splits)

lemma worst_case_loss_finite:
  assumes "obicall_dgt_action_worst_case_loss (Some t) a (Some x) = Some (Inr m)"
  shows "isfinite m" and "a < pt_action_count t"
proof -
  have "worst_scan t i ss acc = Some (Inr (Some w)) \<Longrightarrow> (\<And>v. acc = Some v \<Longrightarrow> isfinite v) \<Longrightarrow> isfinite w"
    for i ss acc w
  proof (induction ss arbitrary: acc)
    case (Cons s ss)
    then show ?case by (auto simp: Let_def split: option.splits if_splits)
  qed simp
  then show "isfinite m" and "a < pt_action_count t"
    using assms
    by (auto simp: obicall_dgt_action_worst_case_loss_def split: if_splits option.splits sum.splits)
qed

section \<open>Laws of the selection\<close>

lemma double_eq_finite:
  "isfinite x \<Longrightarrow> isfinite y \<Longrightarrow> \<not> x < y \<Longrightarrow> \<not> double_eq x y \<Longrightarrow> y < x"
  using finite_le_cases [of x y] finite_le_cases [of y x] by (auto simp: double_eq_def)

text \<open>The candidates among the first actions, and what the scan has found in them.\<close>

definition candidate :: "obicall_dgt_policy_table \<Rightarrow> u32 list \<Rightarrow> nat \<Rightarrow> double \<Rightarrow> bool" where
  "candidate t eligible a loss \<longleftrightarrow> eligible ! a \<noteq> 0 \<and> of_nat a < pt_action_count t \<and>
     obicall_dgt_action_worst_case_loss (Some t) (of_nat a) (Some 0) = Some (Inr loss)"

definition best_of :: "obicall_dgt_policy_table \<Rightarrow> u32 list \<Rightarrow> nat set \<Rightarrow> (nat \<times> double) option \<Rightarrow> bool" where
  "best_of t eligible A best \<longleftrightarrow> (case best of
     None \<Rightarrow> \<forall>a \<in> A. \<forall>l. \<not> candidate t eligible a l
   | Some (b, m) \<Rightarrow> b \<in> A \<and> candidate t eligible b m \<and>
       (\<forall>a \<in> A. \<forall>l. candidate t eligible a l \<longrightarrow> \<not> l < m \<and>
          (double_eq l m \<longrightarrow> da_action_id (pt_actions t ! b) \<le> da_action_id (pt_actions t ! a))))"

lemma candidate_unique: "candidate t eligible a l \<Longrightarrow> candidate t eligible a l' \<Longrightarrow> l = l'"
  by (simp add: candidate_def)

lemma best_of_replace:
  assumes "best_of t eligible A (Some (b, m))" and "candidate t eligible a l"
    and "l < m \<or> double_eq l m \<and> da_action_id (pt_actions t ! a) < da_action_id (pt_actions t ! b)"
  shows "best_of t eligible (insert a A) (Some (a, l))"
  unfolding best_of_def option.case prod.case
proof (intro conjI ballI allI impI)
  show "a \<in> insert a A" by simp
  show "candidate t eligible a l" by fact
next
  fix c k
  assume c: "c \<in> insert a A" "candidate t eligible c k"
  have best: "\<not> k < m" "double_eq k m \<Longrightarrow> da_action_id (pt_actions t ! b) \<le> da_action_id (pt_actions t ! c)"
    if "c \<noteq> a" using that assms(1) c by (auto simp: best_of_def)
  have self: "k = l" if "c = a" using that c(2) assms(2) candidate_unique by blast
  show "\<not> k < l"
    using best(1) self assms(3) double_eq_less(2) [of l m k] double_less_trans [of k l m]
    by (cases "c = a") auto
  show "da_action_id (pt_actions t ! a) \<le> da_action_id (pt_actions t ! c)" if e: "double_eq k l"
  proof (cases "c = a")
    case False
    then have "\<not> l < m" using best(1) double_eq_less(1) [OF e] by blast
    then have "double_eq l m" "da_action_id (pt_actions t ! a) < da_action_id (pt_actions t ! b)"
      using assms(3) by blast+
    then show ?thesis using best(2) [OF False] double_eq_less(3) [OF e] by (auto intro: order_trans less_imp_le)
  qed simp
qed

lemma best_of_keep:
  assumes "best_of t eligible A (Some (b, m))" and "candidate t eligible a l" and "isfinite l" "isfinite m"
    and "\<not> l < m" and "\<not> (double_eq l m \<and> da_action_id (pt_actions t ! a) < da_action_id (pt_actions t ! b))"
  shows "best_of t eligible (insert a A) (Some (b, m))"
proof -
  have "\<not> k < m \<and> (double_eq k m \<longrightarrow> da_action_id (pt_actions t ! b) \<le> da_action_id (pt_actions t ! a))"
    if "candidate t eligible a k" for k
    using candidate_unique [OF assms(2) that] assms(5,6) by (simp add: not_less)
  then show ?thesis using assms(1) by (simp add: best_of_def)
qed

lemma best_of_first:
  assumes "best_of t eligible A None" and "candidate t eligible a l"
  shows "best_of t eligible (insert a A) (Some (a, l))"
proof -
  have "\<not> k < l \<and> (double_eq k l \<longrightarrow> da_action_id (pt_actions t ! a) \<le> da_action_id (pt_actions t ! a))"
    if "candidate t eligible a k" for k
    using candidate_unique [OF assms(2) that] by simp
  then show ?thesis using assms by (simp add: best_of_def)
qed

lemma best_of_skip:
  "best_of t eligible A best \<Longrightarrow> (\<And>l. \<not> candidate t eligible a l) \<Longrightarrow> best_of t eligible (insert a A) best"
  by (auto simp: best_of_def split: option.splits)

lemma better_action_eq:
  assumes "in_bounds t" and "a < 16" and "b < 16"
  shows "better_action t a l (b, m) = Some (l < m \<or>
    double_eq l m \<and> da_action_id (pt_actions t ! a) < da_action_id (pt_actions t ! b))"
  using assms by (simp add: better_action_def read_at_def in_bounds_def wf_policy_table_def)

lemma select_scan_laws:
  assumes t: "in_bounds t" and el: "length eligible = 16"
    and as: "\<forall>a \<in> set as. a < unat (pt_action_count t)"
    and A: "\<forall>a \<in> A. a < unat (pt_action_count t)" and best: "best_of t eligible A best"
  shows "\<exists>n' best'. select_scan t eligible as (n, best) = Some (n', best') \<and>
    best_of t eligible (A \<union> set as) best'"
  using as A best
proof (induction as arbitrary: n best A)
  case Nil
  then show ?case by simp
next
  case (Cons a as)
  have bound: "unat (pt_action_count t) \<le> 16" using t by (simp add: in_bounds_def word_le_nat_alt)
  have a: "a < 16" "a < unat (pt_action_count t)" using Cons.prems(1) bound by simp_all
  then have an: "of_nat a < pt_action_count t" "unat (of_nat a :: u32) = a"
    by (simp_all add: word_less_nat_alt unat_of_nat)
  have A': "\<forall>a \<in> insert a A. a < unat (pt_action_count t)" using a(2) Cons.prems(2) by simp
  have step: ?case if "best_of t eligible (insert a A) best''"
    and "select_scan t eligible (a # as) (n, best) = select_scan t eligible as (n'', best'')" for n'' best''
    using Cons.IH [OF _ A' that(1), of n''] Cons.prems(1) that(2) by simp
  have read: "read_at eligible a = Some (eligible ! a)" using a(1) el by (simp add: read_at_def)
  show ?case
  proof (cases "eligible ! a = 0")
    case True
    show ?thesis
      by (rule step [where n'' = n and best'' = best])
         (use True Cons.prems(3) in \<open>auto intro!: best_of_skip simp: candidate_def read\<close>)
  next
    case False
    show ?thesis
      using t an(1)
    proof (cases rule: worst_case_loss_total [where x = 0])
      case invalid
      show ?thesis
        by (rule step [where n'' = n and best'' = best])
           (use False invalid Cons.prems(3) in \<open>auto intro!: best_of_skip simp: candidate_def read\<close>)
    next
      case (loss l)
      have cand: "candidate t eligible a l" using False loss an(1) by (simp add: candidate_def)
      show ?thesis
      proof (cases best)
        case None
        have "best_of t eligible (insert a A) (Some (a, l))"
          using Cons.prems(3) cand unfolding None by (rule best_of_first)
        then show ?thesis
          by (rule step [where n'' = "n + 1"]) (use False loss None in \<open>simp add: read\<close>)
      next
        case (Some p)
        obtain b m where p: "p = (b, m)" by (cases p)
        have bm: "b \<in> A" "candidate t eligible b m" using Cons.prems(3) Some p by (simp_all add: best_of_def)
        then have "b < 16" using Cons.prems(2) bound by fastforce
        note better = better_action_eq [OF t a(1) this, of l m]
        have m: "isfinite m" using bm(2) by (auto simp: candidate_def dest: worst_case_loss_finite(1))
        show ?thesis
        proof (cases "l < m \<or> double_eq l m \<and>
            da_action_id (pt_actions t ! a) < da_action_id (pt_actions t ! b)")
          case True
          have "best_of t eligible (insert a A) (Some (a, l))"
            using best_of_replace [OF _ cand True] Cons.prems(3) Some p by simp
          then show ?thesis
            by (rule step [where n'' = "n + 1"])
               (use False loss Some p better True in \<open>simp add: read\<close>)
        next
          case no: False
          have "best_of t eligible (insert a A) (Some (b, m))"
            using best_of_keep [OF _ cand loss(2) m] no Cons.prems(3) Some p by simp
          then show ?thesis
            by (rule step [where n'' = "n + 1"])
               (use False loss Some p better no in \<open>simp add: read\<close>)
        qed
      qed
    qed
  qed
qed

lemma in_bounds_valid: "wf_policy_table t \<Longrightarrow> valid_table t \<Longrightarrow> in_bounds t"
  by (simp add: in_bounds_def valid_table_def)

lemma candidate_read:
  assumes "in_bounds t" and "candidate t eligible (unat a) l"
  shows "read_at (pt_actions t) (unat a) = Some (pt_actions t ! unat a)" and "a < pt_action_count t"
    and "isfinite l"
proof -
  show a: "a < pt_action_count t" using assms(2) by (simp add: candidate_def)
  moreover have "pt_action_count t \<le> 16" using assms(1) by (simp add: in_bounds_def)
  ultimately have "unat a < 16" by (simp add: word_less_nat_alt word_le_nat_alt)
  then show "read_at (pt_actions t) (unat a) = Some (pt_actions t ! unat a)"
    using assms(1) by (simp add: read_at_def in_bounds_def wf_policy_table_def)
  show "isfinite l" using assms(2) by (auto simp: candidate_def dest: worst_case_loss_finite(1))
qed

text \<open>The fallback takes the baseline if it is a candidate, and nothing otherwise.\<close>

lemma select_baseline_cases:
  assumes "in_bounds t" and "length (el_action_eligible e) = 16"
  obtains (none) "\<And>l. \<not> candidate t (el_action_eligible e) (unat base) l"
      "select_baseline (Some t) e base d h = Some (OBICALL_ERR_DGT_NO_ELIGIBLE_ACTION, Some d, h)"
  | (base) l d' h' where "candidate t (el_action_eligible e) (unat base) l"
      "select_baseline (Some t) e base d h = Some (OBICALL_OK, Some d', h')"
      "dd_selected_action_index d' = base" "dd_worst_case_loss d' = l" "dd_used_fallback_baseline d' = 1"
      "dd_selected_action_id d' = da_action_id (pt_actions t ! unat base)"
proof (cases "base < pt_action_count t \<and> el_action_eligible e ! unat base \<noteq> 0")
  case False
  then show thesis
  proof (cases "base < pt_action_count t")
    case True
    then have "unat base < 16" using assms(1) by (simp add: in_bounds_def word_less_nat_alt word_le_nat_alt)
    then show thesis using True False assms(2)
      by (intro none) (simp_all add: candidate_def select_baseline_def read_at_def Let_def)
  next
    case no: False
    then show thesis by (intro none) (simp_all add: candidate_def select_baseline_def Let_def not_less)
  qed
next
  case True
  then have "unat base < 16" using assms(1) by (simp add: in_bounds_def word_less_nat_alt word_le_nat_alt)
  then have el: "read_at (el_action_eligible e) (unat base) = Some (el_action_eligible e ! unat base)"
    using assms(2) by (simp add: read_at_def)
  have b: "\<not> pt_action_count t \<le> base" using True by (simp add: not_le)
  show thesis
    using assms(1) conjunct1 [OF True]
  proof (cases rule: worst_case_loss_total [where x = 0])
    case (loss l)
    have cand: "candidate t (el_action_eligible e) (unat base) l" using True loss by (simp add: candidate_def)
    note action = candidate_read(1) [OF assms(1) cand]
    show thesis
      using True el loss action b
      by (intro base [OF cand, where d' = "\<lparr>dd_selected_action_id = da_action_id (pt_actions t ! unat base),
          dd_selected_action_index = base, dd_worst_case_loss = l, dd_eligible_count = 1,
          dd_used_fallback_baseline = 1, dd_used_hysteresis_hold = 0\<rparr>"
          and h' = "map_option (\<lambda>_. \<lparr>hy_has_previous = 1, hy_previous_action_index = base,
            hy_previous_worst_case_loss = l\<rparr>) h"])
         (simp_all add: select_baseline_def Let_def)
  next
    case invalid
    show thesis using True el invalid b
      by (intro none) (simp_all add: candidate_def select_baseline_def Let_def)
  qed
qed

lemma hysteresis_hold_laws:
  assumes t: "in_bounds t" and el: "length eligible = 16"
  obtains (switch) "hysteresis_hold t eligible hin margin best = Some None"
  | (hold) h l where "hysteresis_hold t eligible hin margin best = Some (Some (hy_previous_action_index h, l))"
      "hin = Some h" "hy_has_previous h \<noteq> 0"
      "candidate t eligible (unat (hy_previous_action_index h)) l" "\<not> best < l * (1 - margin)"
proof (cases hin)
  case None
  then show thesis by (intro switch) (simp add: hysteresis_hold_def)
next
  case (Some h)
  let ?a = "hy_previous_action_index h"
  show thesis
  proof (cases "hy_has_previous h \<noteq> 0 \<and> ?a < pt_action_count t")
    case False
    then show thesis using Some by (intro switch) (auto simp: hysteresis_hold_def)
  next
    case True
    then have "unat ?a < 16" using t by (simp add: in_bounds_def word_less_nat_alt word_le_nat_alt)
    then have r: "read_at eligible (unat ?a) = Some (eligible ! unat ?a)" using el by (simp add: read_at_def)
    show thesis
      using t conjunct2 [OF True]
    proof (cases rule: worst_case_loss_total [where x = 0])
      case invalid
      then show thesis using Some True r by (intro switch) (simp add: hysteresis_hold_def)
    next
      case (loss l)
      show thesis
      proof (cases "eligible ! unat ?a \<noteq> 0 \<and> \<not> best < l * (1 - margin)")
        case ok: True
        then show thesis using Some True r loss
          by (intro hold [of h l]) (simp_all add: hysteresis_hold_def candidate_def Let_def)
      next
        case False
        then show thesis using Some True r loss
          by (intro switch) (auto simp: hysteresis_hold_def Let_def)
      qed
    qed
  qed
qed

lemma select_baseline_marks:
  "select_baseline t e base d0 h = Some (OBICALL_OK, Some d, h') \<Longrightarrow> dd_used_fallback_baseline d = 1"
  by (auto simp: select_baseline_def Let_def split: option.splits if_splits bind_splits sum.splits)

text \<open>The three ways a selection ends.\<close>

lemma select_action_cases:
  fixes hin margin base dec hout
  assumes t: "in_bounds t" and el: "length (el_action_eligible e) = 16"
  defines "sel \<equiv> obicall_dgt_select_action (Some t) (Some e) hin margin base (Some dec) hout"
  obtains (fallback) "sel = select_baseline (Some t) e base zero_decision (map_option (\<lambda>_. zero_hysteresis) hout)"
      "\<And>a l. valid_table t \<Longrightarrow> a < pt_action_count t \<Longrightarrow> \<not> candidate t (el_action_eligible e) (unat a) l"
  | (best) b m n where "valid_table t"
      "best_of t (el_action_eligible e) {0..<unat (pt_action_count t)} (Some (b, m))"
      "hysteresis_hold t (el_action_eligible e) hin margin m = Some None"
      "sel = Some (OBICALL_OK, Some \<lparr>dd_selected_action_id = da_action_id (pt_actions t ! b),
         dd_selected_action_index = of_nat b, dd_worst_case_loss = m, dd_eligible_count = n,
         dd_used_fallback_baseline = 0, dd_used_hysteresis_hold = 0\<rparr>,
         map_option (\<lambda>_. \<lparr>hy_has_previous = 1, hy_previous_action_index = of_nat b,
           hy_previous_worst_case_loss = m\<rparr>) hout)"
  | (held) b m n h l where "valid_table t"
      "best_of t (el_action_eligible e) {0..<unat (pt_action_count t)} (Some (b, m))"
      "hin = Some h" "hy_has_previous h \<noteq> 0"
      "candidate t (el_action_eligible e) (unat (hy_previous_action_index h)) l" "\<not> m < l * (1 - margin)"
      "sel = Some (OBICALL_OK, Some \<lparr>dd_selected_action_id =
           da_action_id (pt_actions t ! unat (hy_previous_action_index h)),
         dd_selected_action_index = hy_previous_action_index h, dd_worst_case_loss = l, dd_eligible_count = n,
         dd_used_fallback_baseline = 0,
         dd_used_hysteresis_hold = (if hy_previous_action_index h \<noteq> of_nat b then 1 else 0)\<rparr>,
         map_option (\<lambda>_. \<lparr>hy_has_previous = 1, hy_previous_action_index = hy_previous_action_index h,
           hy_previous_worst_case_loss = l\<rparr>) hout)"
proof (cases "valid_table t")
  case False
  then show thesis
    by (intro fallback)
       (simp_all add: sel_def obicall_dgt_select_action_def validate_table_iff Let_def option.map_comp o_def)
next
  case valid: True
  let ?el = "el_action_eligible e" and ?A = "{0..<unat (pt_action_count t)}"
  have "best_of t ?el {} None" by (simp add: best_of_def)
  from select_scan_laws [OF t el _ _ this, of "[0..<unat (pt_action_count t)]" 0]
  obtain n bst where scan: "select_scan t ?el [0..<unat (pt_action_count t)] (0, None) = Some (n, bst)"
    and bst: "best_of t ?el ?A bst" by auto
  show thesis
  proof (cases bst)
    case None
    have "\<not> candidate t ?el (unat a) l" if "a < pt_action_count t" for a l
      using bst that unfolding None best_of_def option.case by (auto simp: word_less_nat_alt)
    then show thesis
      using valid scan None
      by (intro fallback)
         (simp_all add: sel_def obicall_dgt_select_action_def validate_table_iff Let_def)
  next
    case (Some p)
    obtain b m where p: "p = (b, m)" by (cases p)
    have bm: "b < unat (pt_action_count t)" "candidate t ?el b m"
      using bst unfolding Some p best_of_def by auto
    have "b < 16" using bm(1) t by (simp add: in_bounds_def word_le_nat_alt)
    then have un: "unat (of_nat b :: u32) = b" by (simp add: unat_of_nat)
    have unfold: "sel = (case hysteresis_hold t ?el hin margin m of
        None \<Rightarrow> None
      | Some held \<Rightarrow> do {
          let (final_idx, final_loss, used_hold) = (case held of
                 None \<Rightarrow> (of_nat b, m, 0)
               | Some (prev, prev_loss) \<Rightarrow> (prev, prev_loss, if prev \<noteq> of_nat b then 1 else 0));
          action \<leftarrow> read_at (pt_actions t) (unat final_idx);
          Some (OBICALL_OK,
            Some \<lparr>dd_selected_action_id = da_action_id action,
              dd_selected_action_index = final_idx, dd_worst_case_loss = final_loss,
              dd_eligible_count = n, dd_used_fallback_baseline = 0,
              dd_used_hysteresis_hold = used_hold\<rparr>,
            map_option (\<lambda>_. \<lparr>hy_has_previous = 1, hy_previous_action_index = final_idx,
              hy_previous_worst_case_loss = final_loss\<rparr>) hout) })"
      using valid scan Some p
      by (simp add: sel_def obicall_dgt_select_action_def validate_table_iff Let_def option.map_comp o_def
          split: option.split)
    show thesis
      using t el
    proof (cases rule: hysteresis_hold_laws [where hin = hin and margin = margin and best = m])
      case switch
      have "candidate t ?el (unat (of_nat b :: u32)) m" using bm(2) by (simp add: un)
      note action = candidate_read(1) [OF t this]
      show thesis
        using bst Some p switch action un by (intro best [OF valid, of b m n]) (simp_all add: unfold)
    next
      case (hold h l)
      note action = candidate_read(1) [OF t hold(4)]
      show thesis
        using bst Some p hold action by (intro held [OF valid, of b m h l n]) (simp_all add: unfold)
    qed
  qed
qed

section \<open>What the selector promises\<close>

definition example_action :: "u32 \<Rightarrow> obicall_dgt_action" where
  "example_action i = \<lparr>da_action_id = i, da_name = replicate 64 0, da_sensor_subset_mask = 1,
     da_estimator_mode = 0, da_provider_name = replicate 64 0\<rparr>"

definition example_cost :: "double \<Rightarrow> obicall_dgt_cost_components" where
  "example_cost x = \<lparr>cc_estimation_error = x, cc_delay = 0, cc_coverage_loss = 0, cc_resource_cost = 0\<rparr>"

text \<open>Two actions with ids 7 and 5 under one scenario, with losses 2 and 1.\<close>

definition example_table :: obicall_dgt_policy_table where
  "example_table = \<lparr>pt_struct_size = sizeof_policy_table, pt_schema_version = 1, pt_policy_version = 1,
     pt_action_count = 2, pt_actions = example_action 7 # example_action 5 # replicate 14 (example_action 0),
     pt_scenario_count = 1, pt_scenarios = replicate 16 \<lparr>ds_scenario_id = 0, ds_name = replicate 64 0\<rparr>,
     pt_weights = \<lparr>w_estimation_error = 1, w_delay = 0, w_coverage_loss = 0, w_resource_cost = 0\<rparr>,
     pt_cost = replicate 16 (example_cost (Double 0x4000000000000000)) #
       replicate 16 (example_cost 1) # replicate 14 (replicate 16 (example_cost 0)),
     pt_scale_estimation_error = 1, pt_scale_delay = 1, pt_scale_coverage_loss = 1,
     pt_scale_resource_cost = 1\<rparr>"

definition example_eligibility :: obicall_dgt_eligibility where
  "example_eligibility = \<lparr>el_action_eligible = replicate 16 1\<rparr>"

lemma example_table_wf: "wf_policy_table example_table" "length (el_action_eligible example_eligibility) = 16"
  by (simp_all add: wf_policy_table_def example_table_def example_eligibility_def)

lemma example_selection:
  "obicall_dgt_select_action (Some example_table) (Some example_eligibility) None 0 0 (Some zero_decision) None =
     Some (OBICALL_OK, Some \<lparr>dd_selected_action_id = 5, dd_selected_action_index = 1,
       dd_worst_case_loss = 1, dd_eligible_count = 2, dd_used_fallback_baseline = 0,
       dd_used_hysteresis_hold = 0\<rparr>, None)"
  by code_simp

text \<open>
  a table passes validation exactly when its size and schema version are the expected ones, its counts
  are between 1 and the array sizes, its weights are finite and not negative with a positive one among
  them, its scales are finite and positive, and every cost in use is finite and not negative.
\<close>

theorem dgt_validate_iff:
  "fst (obicall_dgt_validate_table (Some t) detail cap) = OBICALL_OK \<longleftrightarrow> valid_table t"
  by (rule validate_table_iff)

lemma selection_valid:
  assumes "obicall_dgt_select_action (Some t) (Some e) hin margin base (Some d0) hout =
      Some (OBICALL_OK, Some d, h')"
    and "dd_used_fallback_baseline d = 0"
  shows "valid_table t"
proof (rule ccontr)
  assume "\<not> valid_table t"
  then have "select_baseline (Some t) e base zero_decision (map_option (\<lambda>_. zero_hysteresis) hout) =
      Some (OBICALL_OK, Some d, h')"
    using assms(1) by (simp add: obicall_dgt_select_action_def validate_table_iff option.map_comp o_def Let_def)
  from select_baseline_marks [OF this] show False using assms(2) by simp
qed

lemma best_of_index:
  assumes "in_bounds t" and "best_of t el {0..<unat (pt_action_count t)} (Some (b, m))"
  shows "b < unat (pt_action_count t)" and "candidate t el b m" and "unat (of_nat b :: u32) = b"
proof -
  show b: "b < unat (pt_action_count t)" and "candidate t el b m" using assms(2) unfolding best_of_def by auto
  have "unat (pt_action_count t) \<le> 16" using assms(1) by (simp add: in_bounds_def word_le_nat_alt)
  then show "unat (of_nat b :: u32) = b" using b by (simp add: unat_of_nat)
qed

lemma best_of_not_beaten:
  assumes "best_of t el {0..<unat (pt_action_count t)} (Some (b, m))"
    and "a < unat (pt_action_count t)" and "candidate t el a k"
  shows "\<not> k < m" and "double_eq k m \<longrightarrow> da_action_id (pt_actions t ! b) \<le> da_action_id (pt_actions t ! a)"
    and "\<not> m < threshold \<Longrightarrow> \<not> k < threshold"
proof -
  show "\<not> k < m" and "double_eq k m \<longrightarrow> da_action_id (pt_actions t ! b) \<le> da_action_id (pt_actions t ! a)"
    using assms unfolding best_of_def by auto
  have fin: "isfinite k" "isfinite m"
    using assms(1,3) by (auto simp: candidate_def best_of_def dest: worst_case_loss_finite(1))
  then have "m \<le> k" using \<open>\<not> k < m\<close> finite_le_cases by blast
  then show "\<not> m < threshold \<Longrightarrow> \<not> k < threshold" using double_le_less_trans by blast
qed



lemma selection_laws:
  assumes "in_bounds t" and "length (el_action_eligible e) = 16"
  shows "\<exists>st d h'. obicall_dgt_select_action (Some t) (Some e) hin margin base (Some d0) hout =
      Some (st, Some d, h') \<and>
    (if st = OBICALL_OK
     then candidate t (el_action_eligible e) (unat (dd_selected_action_index d)) (dd_worst_case_loss d) \<and>
       dd_selected_action_id d = da_action_id (pt_actions t ! unat (dd_selected_action_index d)) \<and>
       (\<not> valid_table t \<longrightarrow> dd_selected_action_index d = base \<and> dd_used_fallback_baseline d = 1)
     else st = OBICALL_ERR_DGT_NO_ELIGIBLE_ACTION \<and> d = zero_decision \<and>
       (\<forall>l. \<not> candidate t (el_action_eligible e) (unat base) l) \<and>
       (valid_table t \<longrightarrow> (\<forall>a < pt_action_count t. \<forall>l. \<not> candidate t (el_action_eligible e) (unat a) l)))"
  using assms
proof (cases rule: select_action_cases [where hin = hin and margin = margin and base = base and dec = d0
      and hout = hout])
  case fallback
  show ?thesis
    using assms
  proof (cases rule: select_baseline_cases [where base = base and d = zero_decision
        and h = "map_option (\<lambda>_. zero_hysteresis) hout"])
    case none
    then show ?thesis unfolding fallback(1) using fallback(2) by (intro exI conjI) (assumption | simp)+
  next
    case (base l d' h')
    then show ?thesis unfolding fallback(1) by (intro exI conjI) (assumption | simp)+
  qed
next
  case (best b m n)
  have b: "b < unat (pt_action_count t)" "candidate t (el_action_eligible e) b m"
    using best(2) unfolding best_of_def by auto
  have "unat (pt_action_count t) \<le> 16" using assms by (simp add: in_bounds_def word_le_nat_alt)
  then have "unat (of_nat b :: u32) = b" using b(1) by (simp add: unat_of_nat)
  then show ?thesis using best(1,4) b(2) by (intro exI conjI) (assumption | simp)+
next
  case (held b m n h l)
  then show ?thesis by (intro exI conjI) (assumption | simp)+
qed


lemma example_invalid:
  "obicall_dgt_select_action (Some (example_table\<lparr>pt_schema_version := 2\<rparr>)) (Some example_eligibility)
     None 0 0 (Some zero_decision) None =
   Some (OBICALL_OK, Some \<lparr>dd_selected_action_id = 7, dd_selected_action_index = 0,
     dd_worst_case_loss = Double 0x4000000000000000, dd_eligible_count = 1,
     dd_used_fallback_baseline = 1, dd_used_hysteresis_hold = 0\<rparr>, None)"
proof -
  have "\<not> valid_table (example_table\<lparr>pt_schema_version := 2\<rparr>)" by (simp add: valid_table_def)
  then have "obicall_dgt_select_action (Some (example_table\<lparr>pt_schema_version := 2\<rparr>))
      (Some example_eligibility) None 0 0 (Some zero_decision) None =
    select_baseline (Some (example_table\<lparr>pt_schema_version := 2\<rparr>)) example_eligibility 0 zero_decision None"
    by (simp add: obicall_dgt_select_action_def validate_table_iff)
  also have "\<dots> = Some (OBICALL_OK, Some \<lparr>dd_selected_action_id = 7, dd_selected_action_index = 0,
     dd_worst_case_loss = Double 0x4000000000000000, dd_eligible_count = 1,
     dd_used_fallback_baseline = 1, dd_used_hysteresis_hold = 0\<rparr>, None)"
    by code_simp
  finally show ?thesis .
qed


text \<open>
  The worst-case loss of an action is the maximum of its losses over the scenarios, and an error as soon
  as one of them is not finite.
\<close>

theorem dgt_worst_case_is_maximum:
  assumes "in_bounds t" and "a < pt_action_count t"
  shows "if list_all isfinite (losses t (unat a)) \<and> pt_scenario_count t \<noteq> 0
    then \<exists>m. obicall_dgt_action_worst_case_loss (Some t) a (Some x) = Some (Inr m) \<and>
      m \<in> set (losses t (unat a)) \<and> (\<forall>l \<in> set (losses t (unat a)). l \<le> m)
    else obicall_dgt_action_worst_case_loss (Some t) a (Some x) = Some (Inl OBICALL_ERR_DGT_INVALID_SCORE)"
  using assms by (rule worst_case_loss_laws)

theorem dgt_worst_case_is_maximum_witness:
  "\<exists>m. obicall_dgt_action_worst_case_loss (Some example_table) 1 (Some 0) = Some (Inr m) \<and>
     m \<in> set (losses example_table 1)"
proof -
  have "in_bounds example_table" "1 < pt_action_count example_table" "pt_scenario_count example_table \<noteq> 0"
    by (simp_all add: in_bounds_def example_table_wf) (simp_all add: example_table_def)
  moreover have "list_all isfinite (losses example_table (unat (1 :: u32)))" by code_simp
  ultimately show ?thesis using dgt_worst_case_is_maximum [of example_table 1 0] by auto
qed

text \<open>
  Validation refuses a table whose scenario count exceeds the array, but the fallback then computes the
  baseline's loss on that very table and reads past the end of the cost row.
\<close>

lemma worst_scan_out_of_bounds:
  assumes "\<forall>i \<in> set ss. \<exists>c. Option.bind (read_at (pt_cost t) a) (\<lambda>row. read_at row i) = Some c \<and>
      isfinite (scenario_loss t c)"
    and "Option.bind (read_at (pt_cost t) a) (\<lambda>row. read_at row s) = None"
  shows "worst_scan t a (ss @ [s]) acc = None"
  using assms by (induction ss arbitrary: acc) (auto simp: Let_def)

lemma fallback_reads_out_of_bounds:
  "\<not> valid_table (example_table\<lparr>pt_scenario_count := 17\<rparr>) \<and>
   obicall_dgt_select_action (Some (example_table\<lparr>pt_scenario_count := 17\<rparr>)) (Some example_eligibility)
     None 0 0 (Some zero_decision) None = None"
proof -
  have inv: "\<not> valid_table (example_table\<lparr>pt_scenario_count := 17\<rparr>)" by (simp add: valid_table_def)
  then have "obicall_dgt_select_action (Some (example_table\<lparr>pt_scenario_count := 17\<rparr>))
      (Some example_eligibility) None 0 0 (Some zero_decision) None =
    select_baseline (Some (example_table\<lparr>pt_scenario_count := 17\<rparr>)) example_eligibility 0 zero_decision None"
    by (simp add: obicall_dgt_select_action_def validate_table_iff)
  also have "\<dots> = None"
  proof -
    let ?t = "example_table\<lparr>pt_scenario_count := 17\<rparr>"
    have l: "scenario_loss ?t (example_cost (Double 0x4000000000000000)) = Double 0x4000000000000000"
      "isfinite (Double 0x4000000000000000)" by code_simp+
    have "worst_scan ?t 0 ([0..<16] @ [16]) None = None"
      using l by (intro worst_scan_out_of_bounds) (simp_all add: example_table_def read_at_def)
    moreover have "[0..<17] = [0..<16] @ [16]" by (simp add: upt_rec)
    ultimately have "worst_scan ?t 0 [0..<17] None = None" by (simp only:)
    moreover have "pt_action_count ?t = 2" "pt_scenario_count ?t = 17" by (simp_all add: example_table_def)
    ultimately have "obicall_dgt_action_worst_case_loss (Some ?t) 0 (Some 0) = None"
      by (simp add: obicall_dgt_action_worst_case_loss_def)
    moreover have "el_action_eligible example_eligibility = replicate 16 1"
      by (simp add: example_eligibility_def)
    ultimately show ?thesis
      using \<open>pt_action_count ?t = 2\<close> by (simp add: select_baseline_def read_at_def Let_def)
  qed
  finally show ?thesis using inv by simp
qed

end
