(* ===== verification/Json_Min.thy ===== *)
theory Json_Min
  imports Ieee_Double Obicall_Types
begin

text \<open>
  \<^verbatim>\<open>src/core/json_min.c\<close>: the bounded JSON scanner behind manifests and pipeline configurations. A
  window \<^verbatim>\<open>(json, len)\<close> is the list of its \<open>len\<close> bytes, positions are natural numbers (windows are at
  most 64 KiB, far below the 31 bits of the positions the code returns), \<open>-1\<close> and \<open>0\<close> results are
  \<open>None\<close>. Every loop is total: its termination proof is that the position advances within the window.
  The laws say that no returned span leaves the window, that a decoded string fits and is terminated, and
  that decoding inverts the escaping of the command line tool.
\<close>

section \<open>Characters\<close>

definition ascii :: "string \<Rightarrow> bytes" where
  "ascii s = map of_char s"

abbreviation (input) QUOTE :: u8 where "QUOTE \<equiv> 0x22"
abbreviation (input) BACKSLASH :: u8 where "BACKSLASH \<equiv> 0x5C"
abbreviation (input) LBRACE :: u8 where "LBRACE \<equiv> 0x7B"
abbreviation (input) RBRACE :: u8 where "RBRACE \<equiv> 0x7D"
abbreviation (input) LBRACKET :: u8 where "LBRACKET \<equiv> 0x5B"
abbreviation (input) RBRACKET :: u8 where "RBRACKET \<equiv> 0x5D"
abbreviation (input) COMMA :: u8 where "COMMA \<equiv> 0x2C"
abbreviation (input) COLON :: u8 where "COLON \<equiv> 0x3A"
abbreviation (input) MINUS :: u8 where "MINUS \<equiv> 0x2D"
abbreviation (input) PLUS :: u8 where "PLUS \<equiv> 0x2B"
abbreviation (input) DOT :: u8 where "DOT \<equiv> 0x2E"
abbreviation (input) CH_u :: u8 where "CH_u \<equiv> 0x75"
abbreviation (input) CH_e :: u8 where "CH_e \<equiv> 0x65"
abbreviation (input) CH_E :: u8 where "CH_E \<equiv> 0x45"
abbreviation (input) CH_t :: u8 where "CH_t \<equiv> 0x74"
abbreviation (input) CH_f :: u8 where "CH_f \<equiv> 0x66"
abbreviation (input) CH_n :: u8 where "CH_n \<equiv> 0x6E"

definition is_ws :: "u8 \<Rightarrow> bool" where
  "is_ws c \<longleftrightarrow> c = 0x20 \<or> c = 0x09 \<or> c = 0x0A \<or> c = 0x0D"

definition is_digit :: "u8 \<Rightarrow> bool" where
  "is_digit c \<longleftrightarrow> c \<ge> 0x30 \<and> c \<le> 0x39"

section \<open>Scanning\<close>

text \<open>\<^verbatim>\<open>while (pos < len && is_ws(buf[pos])) pos++;\<close>, and the same for digits.\<close>

function skip_while :: "(u8 \<Rightarrow> bool) \<Rightarrow> bytes \<Rightarrow> nat \<Rightarrow> nat" where
  "skip_while P bs pos = (if pos < length bs \<and> P (bs ! pos) then skip_while P bs (pos + 1) else pos)"
  by pat_completeness auto
termination by (relation "measure (\<lambda>(P, bs, pos). length bs - pos)") auto

abbreviation skip_ws :: "bytes \<Rightarrow> nat \<Rightarrow> nat" where
  "skip_ws \<equiv> skip_while is_ws"

text \<open>The loop of \<open>skip_string\<close>, after the opening quote.\<close>

function string_end :: "bytes \<Rightarrow> nat \<Rightarrow> nat option" where
  "string_end bs pos =
     (if pos < length bs
      then (let ch = bs ! pos in
            if ch = QUOTE then Some (pos + 1)
            else if ch = BACKSLASH
            then (if pos + 1 \<ge> length bs then None
                  else if bs ! (pos + 1) = CH_u
                  then (if pos + 6 > length bs then None else string_end bs (pos + 6))
                  else string_end bs (pos + 2))
            else string_end bs (pos + 1))
      else None)"
  by pat_completeness auto
termination by (relation "measure (\<lambda>(bs, pos). length bs - pos)") auto

definition skip_string :: "bytes \<Rightarrow> nat \<Rightarrow> nat option" where
  "skip_string bs pos =
     (if pos \<ge> length bs \<or> bs ! pos \<noteq> QUOTE then None else string_end bs (pos + 1))"

declare skip_while.simps [simp del] string_end.simps [simp del]

lemma skip_while_ge: "pos \<le> skip_while P bs pos"
proof (induction P bs pos rule: skip_while.induct)
  case (1 P bs pos)
  then show ?case by (subst skip_while.simps) auto
qed

lemma skip_while_le: "pos \<le> length bs \<Longrightarrow> skip_while P bs pos \<le> length bs"
proof (induction P bs pos rule: skip_while.induct)
  case (1 P bs pos)
  then show ?case by (subst skip_while.simps) auto
qed

lemma string_end_bounds: "string_end bs pos = Some r \<Longrightarrow> pos < r \<and> r \<le> length bs"
proof (induction bs pos rule: string_end.induct)
  case (1 bs pos)
  show ?case
    using 1(4) 1(1-3) by (subst (asm) string_end.simps) (fastforce simp: Let_def split: if_splits)
qed

lemma skip_string_bounds: "skip_string bs pos = Some r \<Longrightarrow> pos + 2 \<le> r \<and> r \<le> length bs"
  using string_end_bounds [of bs "pos + 1" r] by (auto simp: skip_string_def split: if_splits)

text \<open>The body of an object or array: brackets of the opening kind are counted, strings are skipped.\<close>

function nested_end :: "u8 \<Rightarrow> u8 \<Rightarrow> bytes \<Rightarrow> nat \<Rightarrow> nat \<Rightarrow> nat option" where
  "nested_end lbr rbr bs pos depth =
     (if pos < length bs \<and> depth > 0
      then (let c = bs ! pos in
            if c = QUOTE
            then (case skip_string bs pos of None \<Rightarrow> None
                  | Some r \<Rightarrow> nested_end lbr rbr bs r depth)
            else nested_end lbr rbr bs (pos + 1)
                   (if c = lbr then depth + 1 else if c = rbr then depth - 1 else depth))
      else if depth = 0 then Some pos else None)"
  by pat_completeness auto
termination
  by (relation "measure (\<lambda>(lbr, rbr, bs, pos, depth). length bs - pos)")
     (auto dest: skip_string_bounds)

declare nested_end.simps [simp del]

definition number_end :: "bytes \<Rightarrow> nat \<Rightarrow> nat" where
  "number_end bs start =
     (let pos = (if bs ! start = MINUS then start + 1 else start);
          pos = skip_while is_digit bs pos;
          pos = (if pos < length bs \<and> bs ! pos = DOT then skip_while is_digit bs (pos + 1) else pos)
      in if pos < length bs \<and> (bs ! pos = CH_e \<or> bs ! pos = CH_E)
         then (let pos = pos + 1;
                   pos = (if pos < length bs \<and> (bs ! pos = PLUS \<or> bs ! pos = MINUS) then pos + 1 else pos)
               in skip_while is_digit bs pos)
         else pos)"

definition literal_end :: "string \<Rightarrow> bytes \<Rightarrow> nat \<Rightarrow> nat option" where
  "literal_end word bs pos =
     (if pos + length word \<le> length bs \<and> take (length word) (drop pos bs) = ascii word
      then Some (pos + length word) else None)"

text \<open>The end of the value at or after a position, and whether it is a string.\<close>

definition scan_value :: "bytes \<Rightarrow> nat \<Rightarrow> (nat \<times> bool) option" where
  "scan_value bs pos =
     (let pos = skip_ws bs pos in
      if pos \<ge> length bs then None
      else
        (let ch = bs ! pos in
         if ch = QUOTE then map_option (\<lambda>e. (e, True)) (skip_string bs pos)
         else map_option (\<lambda>e. (e, False))
           (if ch = LBRACE then nested_end LBRACE RBRACE bs (pos + 1) 1
            else if ch = LBRACKET then nested_end LBRACKET RBRACKET bs (pos + 1) 1
            else if ch = CH_t then literal_end ''true'' bs pos
            else if ch = CH_f then literal_end ''false'' bs pos
            else if ch = CH_n then literal_end ''null'' bs pos
            else if ch = MINUS \<or> is_digit ch
            then (let e = number_end bs pos in if e = pos then None else Some e)
            else None)))"

lemma nested_end_bounds:
  "nested_end lbr rbr bs pos depth = Some r \<Longrightarrow> pos \<le> length bs \<Longrightarrow> pos \<le> r \<and> r \<le> length bs"
proof (induction lbr rbr bs pos depth rule: nested_end.induct)
  case (1 lbr rbr bs pos depth)
  show ?case
  proof (cases "pos < length bs \<and> depth > 0")
    case False
    then show ?thesis using 1(3,4) by (subst (asm) nested_end.simps) (auto split: if_splits)
  next
    case True
    show ?thesis
    proof (cases "bs ! pos = QUOTE")
      case quote: True
      then obtain q where q: "skip_string bs pos = Some q" "nested_end lbr rbr bs q depth = Some r"
        using 1(3) True by (subst (asm) nested_end.simps) (auto simp: Let_def split: option.splits)
      note qb = skip_string_bounds [OF q(1)]
      have "q \<le> r \<and> r \<le> length bs"
        using 1(1) [OF True refl quote q(1,2)] qb by simp
      then show ?thesis using qb by simp
    next
      case False
      have "nested_end lbr rbr bs (pos + 1)
          (if bs ! pos = lbr then depth + 1 else if bs ! pos = rbr then depth - 1 else depth) = Some r"
        using 1(3) True False by (subst (asm) nested_end.simps) (simp add: Let_def)
      then have "pos + 1 \<le> r \<and> r \<le> length bs" using 1(2) [OF True refl False] True by simp
      then show ?thesis by simp
    qed
  qed
qed

lemma number_end_bounds:
  assumes "pos < length bs"
  shows "pos \<le> number_end bs pos" and "number_end bs pos \<le> length bs"
proof -
  define a where "a = (if bs ! pos = MINUS then pos + 1 else pos)"
  define b where "b = skip_while is_digit bs a"
  define c where "c = (if b < length bs \<and> bs ! b = DOT then skip_while is_digit bs (b + 1) else b)"
  define d where "d = (if c + 1 < length bs \<and> (bs ! (c + 1) = PLUS \<or> bs ! (c + 1) = MINUS)
    then c + 1 + 1 else c + 1)"
  have a: "pos \<le> a" "a \<le> length bs" using assms by (auto simp: a_def)
  have b: "a \<le> b" "b \<le> length bs"
    unfolding b_def using skip_while_ge skip_while_le a(2) by blast+
  have c: "b \<le> c" "c \<le> length bs"
    using skip_while_ge [of "b + 1" is_digit bs] skip_while_le [of "b + 1" bs is_digit] b(2)
    by (auto simp: c_def)
  have "number_end bs pos = (if c < length bs \<and> (bs ! c = CH_e \<or> bs ! c = CH_E)
      then skip_while is_digit bs d else c)"
    by (simp only: number_end_def Let_def a_def b_def c_def d_def)
  moreover have "c \<le> skip_while is_digit bs d" "c < length bs \<Longrightarrow> skip_while is_digit bs d \<le> length bs"
    using skip_while_ge [of d is_digit bs] skip_while_le [of d bs is_digit] by (auto simp: d_def split: if_splits)
  ultimately show "pos \<le> number_end bs pos" and "number_end bs pos \<le> length bs"
    using a b c by auto
qed

lemma scan_value_bounds:
  assumes "scan_value bs pos = Some (e, s)"
  shows "skip_ws bs pos < e" and "e \<le> length bs" and "s \<Longrightarrow> skip_ws bs pos + 2 \<le> e"
proof -
  let ?p = "skip_ws bs pos"
  have p: "?p < length bs" using assms by (auto simp: scan_value_def Let_def split: if_splits)
  have n: "nested_end lbr rbr bs (?p + 1) 1 = Some e \<Longrightarrow> ?p < e \<and> e \<le> length bs" for lbr rbr
    using nested_end_bounds [of lbr rbr bs "?p + 1" 1 e] p by simp
  have l: "literal_end w bs ?p = Some e \<Longrightarrow> w \<noteq> [] \<Longrightarrow> ?p < e \<and> e \<le> length bs" for w
    by (auto simp: literal_end_def split: if_splits)
  have "?p < e \<and> e \<le> length bs \<and> (s \<longrightarrow> ?p + 2 \<le> e)"
    using assms p n l [of "''true''"] l [of "''false''"] l [of "''null''"] number_end_bounds [OF p]
      skip_string_bounds [of bs ?p e]
    by (auto simp: scan_value_def Let_def split: if_splits)
  then show "?p < e" and "e \<le> length bs" and "s \<Longrightarrow> ?p + 2 \<le> e" by simp_all
qed

section \<open>Objects and arrays\<close>

record json_span =
  js_off :: nat
  js_len :: nat
  js_is_string :: bool

definition span_from_value :: "nat \<Rightarrow> nat \<Rightarrow> bool \<Rightarrow> json_span" where
  "span_from_value value_start value_end is_str =
     (if is_str
      then \<lparr>js_off = value_start + 1, js_len = value_end - 1 - (value_start + 1), js_is_string = True\<rparr>
      else \<lparr>js_off = value_start, js_len = value_end - value_start, js_is_string = False\<rparr>)"

definition window :: "bytes \<Rightarrow> json_span \<Rightarrow> bytes" where
  "window bs sp = take (js_len sp) (drop (js_off sp) bs)"

lemma member_advances:
  assumes "skip_string bs (skip_ws bs pos) = Some key_end"
    and "scan_value bs (skip_ws bs (skip_ws bs key_end + 1)) = Some (value_end, is_str)"
    and "skip_ws bs value_end < length bs"
  shows "length bs - Suc (skip_ws bs value_end) < length bs - pos"
proof -
  have "pos \<le> skip_ws bs pos" "key_end \<le> skip_ws bs key_end" "value_end \<le> skip_ws bs value_end"
    "skip_ws bs key_end + 1 \<le> skip_ws bs (skip_ws bs key_end + 1)"
    "skip_ws bs (skip_ws bs key_end + 1) \<le> skip_ws bs (skip_ws bs (skip_ws bs key_end + 1))"
    by (rule skip_while_ge)+
  then show ?thesis
    using skip_string_bounds [OF assms(1)] scan_value_bounds(1) [OF assms(2)] assms(3) by linarith
qed

text \<open>The member loop of \<open>json_object_find\<close>.\<close>

function object_members :: "bytes \<Rightarrow> bytes \<Rightarrow> nat \<Rightarrow> json_span option" where
  "object_members bs key pos =
     (let pos = skip_ws bs pos in
      if pos \<ge> length bs \<or> bs ! pos = RBRACE then None
      else if bs ! pos \<noteq> QUOTE then None
      else
        (case skip_string bs pos of
           None \<Rightarrow> None
         | Some key_end \<Rightarrow>
             (let key_start = pos + 1;
                  key_str_len = key_end - 1 - key_start;
                  pos = skip_ws bs key_end
              in if pos \<ge> length bs \<or> bs ! pos \<noteq> COLON then None
                 else
                   (let value_start = skip_ws bs (pos + 1) in
                    case scan_value bs value_start of
                      None \<Rightarrow> None
                    | Some (value_end, is_str) \<Rightarrow>
                        if key_str_len = length key \<and> take (length key) (drop key_start bs) = key
                        then Some (span_from_value value_start value_end is_str)
                        else
                          (let pos = skip_ws bs value_end in
                           if pos < length bs \<and> bs ! pos = COMMA then object_members bs key (pos + 1)
                           else None)))))"
  by pat_completeness auto

termination
  by (relation "measure (\<lambda>(bs, key, pos). length bs - pos)") (auto intro: member_advances)

declare object_members.simps [simp del]

definition json_object_find :: "bytes \<Rightarrow> string \<Rightarrow> json_span option" where
  "json_object_find bs key =
     (let pos = skip_ws bs 0 in
      if pos \<ge> length bs \<or> bs ! pos \<noteq> LBRACE then None else object_members bs (ascii key) (pos + 1))"

definition array_open :: "bytes \<Rightarrow> nat option" where
  "array_open bs =
     (let pos = skip_ws bs 0 in
      if pos \<ge> length bs \<or> bs ! pos \<noteq> LBRACKET then None else Some (pos + 1))"

lemma element_advances:
  assumes "scan_value bs (skip_ws bs pos) = Some (e, is_str)" and "skip_ws bs e < length bs"
  shows "length bs - Suc (skip_ws bs e) < length bs - pos"
proof -
  have "pos \<le> skip_ws bs pos" "skip_ws bs pos \<le> skip_ws bs (skip_ws bs pos)" "e \<le> skip_ws bs e"
    by (rule skip_while_ge)+
  then show ?thesis using scan_value_bounds(1) [OF assms(1)] assms(2) by linarith
qed

function count_elements :: "bytes \<Rightarrow> nat \<Rightarrow> nat \<Rightarrow> nat option" where
  "count_elements bs pos count =
     (let pos = skip_ws bs pos in
      if pos \<ge> length bs then None
      else if bs ! pos = RBRACKET then Some count
      else
        (case scan_value bs pos of
           None \<Rightarrow> None
         | Some (e, is_str) \<Rightarrow>
             (let pos = skip_ws bs e in
              if pos < length bs \<and> bs ! pos = COMMA then count_elements bs (pos + 1) (count + 1)
              else if pos < length bs \<and> bs ! pos = RBRACKET then Some (count + 1)
              else None)))"
  by pat_completeness auto

termination
  by (relation "measure (\<lambda>(bs, pos, count). length bs - pos)") (auto intro: element_advances)

function get_element :: "bytes \<Rightarrow> nat \<Rightarrow> nat \<Rightarrow> nat \<Rightarrow> json_span option" where
  "get_element bs index pos i =
     (let pos = skip_ws bs pos in
      if pos \<ge> length bs \<or> bs ! pos = RBRACKET then None
      else
        (case scan_value bs pos of
           None \<Rightarrow> None
         | Some (e, is_str) \<Rightarrow>
             if i = index then Some (span_from_value pos e is_str)
             else
               (let pos = skip_ws bs e in
                if pos < length bs \<and> bs ! pos = COMMA then get_element bs index (pos + 1) (i + 1)
                else None)))"
  by pat_completeness auto
termination
  by (relation "measure (\<lambda>(bs, index, pos, i). length bs - pos)") (auto intro: element_advances)

declare count_elements.simps [simp del] get_element.simps [simp del]

text \<open>The number of elements, \<open>None\<close> for a malformed array.\<close>

definition json_array_count :: "bytes \<Rightarrow> nat option" where
  "json_array_count bs = (case array_open bs of None \<Rightarrow> None | Some pos \<Rightarrow> count_elements bs pos 0)"

definition json_array_get :: "bytes \<Rightarrow> nat \<Rightarrow> json_span option" where
  "json_array_get bs index = (case array_open bs of None \<Rightarrow> None | Some pos \<Rightarrow> get_element bs index pos 0)"

section \<open>Strings, numbers and literals\<close>

definition unescape :: "u8 \<Rightarrow> u8 option" where
  "unescape esc =
     (if esc = QUOTE then Some QUOTE else if esc = BACKSLASH then Some BACKSLASH
      else if esc = 0x2F then Some 0x2F else if esc = CH_n then Some 0x0A
      else if esc = CH_t then Some 0x09 else if esc = 0x72 then Some 0x0D
      else if esc = 0x62 then Some 0x08 else if esc = CH_f then Some 0x0C else None)"

text \<open>
  The loop of \<open>json_decode_string\<close>: the result length, and the output buffer, which keeps what was written
  to it also when the decoding fails.
\<close>

function decode_from :: "bytes \<Rightarrow> nat \<Rightarrow> bytes \<Rightarrow> nat \<Rightarrow> nat option \<times> bytes" where
  "decode_from bs i out oi =
     (if i < length bs
      then (let ch = bs ! i in
            if ch = BACKSLASH
            then (if i + 1 \<ge> length bs then (None, out)
                  else if bs ! (i + 1) = CH_u
                  then (if i + 6 > length bs \<or> oi \<ge> length out then (None, out)
                        else decode_from bs (i + 6) (out[oi := 0x3F]) (oi + 1))
                  else (case unescape (bs ! (i + 1)) of
                          None \<Rightarrow> (None, out)
                        | Some decoded \<Rightarrow>
                            if oi \<ge> length out then (None, out)
                            else decode_from bs (i + 2) (out[oi := decoded]) (oi + 1)))
            else if oi \<ge> length out then (None, out)
            else decode_from bs (i + 1) (out[oi := ch]) (oi + 1))
      else if oi \<ge> length out then (None, out)
      else (Some oi, out[oi := 0]))"
  by pat_completeness auto
termination by (relation "measure (\<lambda>(bs, i, out, oi). length bs - i)") auto

declare decode_from.simps [simp del]

definition json_decode_string :: "bytes \<Rightarrow> bytes \<Rightarrow> nat option \<times> bytes" where
  "json_decode_string bs out = decode_from bs 0 out 0"

text \<open>
  \<^verbatim>\<open>strtod\<close> on a window of the scanner: an optional sign, digits with an optional point, an optional
  exponent, correctly rounded; \<open>None\<close> when nothing is converted. (A window that is not a string starts with
  a sign, a digit, a bracket or a literal, so the hexadecimal, infinity and NaN forms do not occur.)
\<close>

definition digits_value :: "bytes \<Rightarrow> int" where
  "digits_value ds = foldl (\<lambda>n c. 10 * n + (uint c - 48)) 0 ds"

definition strtod :: "bytes \<Rightarrow> double option" where
  "strtod bs =
     (let neg = (bs \<noteq> [] \<and> hd bs = MINUS);
          bs = (if bs \<noteq> [] \<and> (hd bs = MINUS \<or> hd bs = PLUS) then tl bs else bs);
          int_part = takeWhile is_digit bs;
          bs = dropWhile is_digit bs;
          (frac_part, bs) = (if bs \<noteq> [] \<and> hd bs = DOT
             then (takeWhile is_digit (tl bs), dropWhile is_digit (tl bs)) else ([], bs));
          exponent = (if bs \<noteq> [] \<and> (hd bs = CH_e \<or> hd bs = CH_E)
             then (let eneg = (tl bs \<noteq> [] \<and> hd (tl bs) = MINUS);
                       ds = takeWhile is_digit (if tl bs \<noteq> [] \<and> (hd (tl bs) = MINUS \<or> hd (tl bs) = PLUS)
                          then tl (tl bs) else tl bs)
                   in if eneg then - digits_value ds else digits_value ds)
             else 0)
      in if int_part = [] \<and> frac_part = [] then None
         else Some (decimal_double neg (digits_value (int_part @ frac_part))
                (exponent - int (length frac_part))))"

definition json_parse_number :: "bytes \<Rightarrow> double option" where
  "json_parse_number bs = (if length bs \<ge> 64 then None else strtod bs)"

definition json_span_is_true :: "bytes \<Rightarrow> bool" where
  "json_span_is_true bs \<longleftrightarrow> bs = ascii ''true''"

definition json_span_is_false :: "bytes \<Rightarrow> bool" where
  "json_span_is_false bs \<longleftrightarrow> bs = ascii ''false''"

section \<open>Spans stay in the window\<close>

lemma span_from_value_inside:
  assumes "scan_value bs start = Some (e, is_str)" and "skip_ws bs start = start"
  shows "js_off (span_from_value start e is_str) + js_len (span_from_value start e is_str) \<le> length bs"
  using scan_value_bounds [OF assms(1)] assms(2) by (cases is_str) (auto simp: span_from_value_def)

lemma skip_while_stops: "skip_while P bs pos < length bs \<Longrightarrow> \<not> P (bs ! skip_while P bs pos)"
proof (induction P bs pos rule: skip_while.induct)
  case (1 P bs pos)
  show ?case
  proof (cases "pos < length bs \<and> P (bs ! pos)")
    case True
    then have "skip_while P bs pos = skip_while P bs (pos + 1)" by (subst skip_while.simps) simp
    then show ?thesis using 1 True by simp
  next
    case False
    then have "skip_while P bs pos = pos" by (subst skip_while.simps) auto
    then show ?thesis using 1(2) False by simp
  qed
qed

lemma skip_while_at: "pos < length bs \<Longrightarrow> \<not> P (bs ! pos) \<Longrightarrow> skip_while P bs pos = pos"
  by (subst skip_while.simps) simp

lemma skip_while_idem: "skip_while P bs (skip_while P bs pos) = skip_while P bs pos"
proof (cases "skip_while P bs pos < length bs")
  case True
  then show ?thesis using skip_while_stops by (intro skip_while_at)
next
  case False
  then show ?thesis by (subst skip_while.simps) simp
qed

lemma object_members_inside:
  "object_members bs key pos = Some sp \<Longrightarrow> js_off sp + js_len sp \<le> length bs"
proof (induction bs key pos rule: object_members.induct)
  case (1 bs key pos)
  let ?p = "skip_ws bs pos"
  from 1(2) obtain key_end where k: "\<not> (?p \<ge> length bs \<or> bs ! ?p = RBRACE)" "bs ! ?p = QUOTE"
    "skip_string bs ?p = Some key_end"
    by (subst (asm) object_members.simps) (auto simp: Let_def split: if_splits option.splits)
  let ?c = "skip_ws bs key_end"
  let ?v = "skip_ws bs (?c + 1)"
  from 1(2) k obtain e is_str where v: "\<not> (?c \<ge> length bs \<or> bs ! ?c \<noteq> COLON)"
    "scan_value bs ?v = Some (e, is_str)"
    by (subst (asm) object_members.simps) (auto simp: Let_def split: if_splits option.splits)
  show ?case
  proof (cases "key_end - 1 - (?p + 1) = length key \<and> take (length key) (drop (?p + 1) bs) = key")
    case True
    then have "sp = span_from_value ?v e is_str"
      using 1(2) k v by (subst (asm) object_members.simps) (simp add: Let_def)
    then show ?thesis using span_from_value_inside [OF v(2)] skip_while_idem by blast
  next
    case False
    then have n: "skip_ws bs e < length bs \<and> bs ! skip_ws bs e = COMMA"
      "object_members bs key (skip_ws bs e + 1) = Some sp"
      using 1(2) k v by (subst (asm) object_members.simps, simp add: Let_def split: if_splits)+
    show ?thesis
      using k(2) by (intro 1(1) [OF refl k(1) _ k(3) refl refl refl v(1) refl v(2) refl False refl n]) simp
  qed
qed

lemma get_element_inside:
  "get_element bs index pos i = Some sp \<Longrightarrow> js_off sp + js_len sp \<le> length bs"
proof (induction bs index pos i rule: get_element.induct)
  case (1 bs index pos i)
  let ?p = "skip_ws bs pos"
  from 1(2) obtain e is_str where k: "\<not> (?p \<ge> length bs \<or> bs ! ?p = RBRACKET)"
    "scan_value bs ?p = Some (e, is_str)"
    by (subst (asm) get_element.simps) (auto simp: Let_def split: if_splits option.splits)
  show ?case
  proof (cases "i = index")
    case True
    then have "sp = span_from_value ?p e is_str"
      using 1(2) k by (subst (asm) get_element.simps) (simp add: Let_def)
    then show ?thesis using span_from_value_inside [OF k(2)] skip_while_idem by blast
  next
    case False
    then have n: "skip_ws bs e < length bs \<and> bs ! skip_ws bs e = COMMA"
      "get_element bs index (skip_ws bs e + 1) (i + 1) = Some sp"
      using 1(2) k by (subst (asm) get_element.simps, simp add: Let_def split: if_splits)+
    show ?thesis by (rule 1(1) [OF refl k(1) k(2) refl False refl n])
  qed
qed

lemma count_elements_bound:
  "count_elements bs pos count = Some n \<Longrightarrow> pos \<le> length bs \<Longrightarrow> n + pos \<le> count + length bs"
proof (induction bs pos count rule: count_elements.induct)
  case (1 bs pos count)
  let ?p = "skip_ws bs pos"
  have le: "pos \<le> ?p" by (rule skip_while_ge)
  show ?case
  proof (cases "bs ! ?p = RBRACKET")
    case True
    then have "n = count" "?p < length bs"
      using 1(2) by (subst (asm) count_elements.simps, simp add: Let_def split: if_splits)+
    then show ?thesis using le by simp
  next
    case False
    from 1(2) False obtain e is_str where k: "\<not> ?p \<ge> length bs" "scan_value bs ?p = Some (e, is_str)"
      by (subst (asm) count_elements.simps) (auto simp: Let_def split: if_splits option.splits)
    have e: "?p < e" "e \<le> length bs" "e \<le> skip_ws bs e"
      using scan_value_bounds(1,2) [OF k(2)] skip_while_idem [of is_ws bs pos] skip_while_ge by auto
    show ?thesis
    proof (cases "skip_ws bs e < length bs \<and> bs ! skip_ws bs e = COMMA")
      case True
      then have "count_elements bs (skip_ws bs e + 1) (count + 1) = Some n"
        using 1(2) False k by (subst (asm) count_elements.simps) (simp add: Let_def)
      from 1(1) [OF refl k(1) False k(2) refl refl True this] True show ?thesis using e le by simp
    next
      case no: False
      then have "n = count + 1"
        using 1(2) False k by (subst (asm) count_elements.simps) (simp add: Let_def split: if_splits)
      then show ?thesis using e le by simp
    qed
  qed
qed

section \<open>Decoded strings\<close>

text \<open>The text that a string literal's body stands for.\<close>

function json_text :: "bytes \<Rightarrow> bytes option" where
  "json_text [] = Some []"
| "json_text (c # cs) =
     (if c \<noteq> BACKSLASH then map_option (Cons c) (json_text cs)
      else case cs of
        [] \<Rightarrow> None
      | esc # cs \<Rightarrow>
          if esc = CH_u then (if length cs < 4 then None else map_option (Cons 0x3F) (json_text (drop 4 cs)))
          else (case unescape esc of None \<Rightarrow> None | Some d \<Rightarrow> map_option (Cons d) (json_text cs)))"
  by pat_completeness auto
termination by (relation "measure length") auto

lemma memcpy_cons:
  assumes "oi < length out"
  shows "memcpy (out[oi := x]) (oi + 1) xs = memcpy out oi (x # xs)"
proof -
  have "take (oi + 1) (out[oi := x]) = take oi out @ [x]"
    using assms by (simp add: take_Suc_conv_app_nth)
  then show ?thesis by (simp add: memcpy_def)
qed

text \<open>
  Decoding writes the text and a NUL when they fit, fails otherwise, and never changes the size of the
  buffer or what lies before the write position.
\<close>

lemma decode_from_laws:
  assumes "oi \<le> length out"
  shows "case json_text (drop i bs) of
      Some t \<Rightarrow> if oi + length t < length out
        then decode_from bs i out oi = (Some (oi + length t), memcpy out oi (t @ [0]))
        else fst (decode_from bs i out oi) = None
    | None \<Rightarrow> fst (decode_from bs i out oi) = None"
    and "length (snd (decode_from bs i out oi)) = length out"
proof -
  have "(case json_text (drop i bs) of
      Some t \<Rightarrow> if oi + length t < length out
        then decode_from bs i out oi = (Some (oi + length t), memcpy out oi (t @ [0]))
        else fst (decode_from bs i out oi) = None
    | None \<Rightarrow> fst (decode_from bs i out oi) = None) \<and>
    length (snd (decode_from bs i out oi)) = length out"
    using assms
  proof (induction bs i out oi rule: decode_from.induct)
    case (1 bs i out oi)
    note unfold = decode_from.simps [of bs i out oi]
    show ?case
    proof (cases "i < length bs")
      case False
      have "memcpy out oi [0] = out[oi := 0]" if "oi < length out"
        using memcpy_cons [OF that, of 0 "[]"] that by simp
      then show ?thesis using False by (simp add: unfold not_le)
    next
      case i: True
      then have d: "drop i bs = bs ! i # drop (Suc i) bs" by (simp add: Cons_nth_drop_Suc)
      have step: ?thesis
        if eq: "decode_from bs i out oi =
             (if oi \<ge> length out then (None, out) else decode_from bs j (out[oi := x]) (oi + 1))"
          and jt: "json_text (drop i bs) = map_option (Cons x) (json_text (drop j bs))"
          and IH: "\<not> length out \<le> oi \<Longrightarrow>
            (case json_text (drop j bs) of
               Some t \<Rightarrow> if oi + 1 + length t < length (out[oi := x])
                 then decode_from bs j (out[oi := x]) (oi + 1) =
                   (Some (oi + 1 + length t), memcpy (out[oi := x]) (oi + 1) (t @ [0]))
                 else fst (decode_from bs j (out[oi := x]) (oi + 1)) = None
             | None \<Rightarrow> fst (decode_from bs j (out[oi := x]) (oi + 1)) = None) \<and>
            length (snd (decode_from bs j (out[oi := x]) (oi + 1))) = length (out[oi := x])" for j x
      proof (cases "length out \<le> oi")
        case True
        then show ?thesis by (auto simp: eq split: option.split)
      next
        case False
        then show ?thesis
          using IH memcpy_cons [of oi out x] by (auto simp: eq jt split: option.splits)
      qed
      show ?thesis
      proof (cases "bs ! i = BACKSLASH")
        case False
        show ?thesis
        proof (rule step [of "i + 1" "bs ! i"])
          show "decode_from bs i out oi =
              (if oi \<ge> length out then (None, out) else decode_from bs (i + 1) (out[oi := bs ! i]) (oi + 1))"
            using i False by (simp add: unfold Let_def)
        qed (use 1(3) [OF i refl False] False in \<open>simp_all add: d\<close>)
      next
        case b: True
        show ?thesis
        proof (cases "i + 1 < length bs")
          case False
          then have "drop (Suc i) bs = []" by simp
          then show ?thesis using i b False by (simp add: unfold d Let_def)
        next
          case i1: True
          then have d1: "drop (Suc i) bs = bs ! (i + 1) # drop (i + 2) bs" by (simp add: Cons_nth_drop_Suc)
          show ?thesis
          proof (cases "bs ! (i + 1) = CH_u")
            case u: True
            show ?thesis
            proof (cases "i + 6 > length bs")
              case True
              then have "length bs - Suc (Suc i) < 4" using i1 by linarith
              then show ?thesis using i i1 b u True by (simp add: unfold d d1 Let_def)
            next
              case False
              show ?thesis
              proof (rule step [of "i + 6" "0x3F"])
                show "decode_from bs i out oi =
                    (if oi \<ge> length out then (None, out) else decode_from bs (i + 6) (out[oi := 0x3F]) (oi + 1))"
                  using i i1 b u False by (simp add: unfold Let_def)
                show "json_text (drop i bs) = map_option (Cons 0x3F) (json_text (drop (i + 6) bs))"
                  using b u False by (simp add: d d1 add.commute)
              qed (use 1(1) [OF i refl b _ u] i1 False in simp_all)
            qed
          next
            case nu: False
            show ?thesis
            proof (cases "unescape (bs ! (i + 1))")
              case None
              then show ?thesis using i i1 b nu by (simp add: unfold d d1 Let_def)
            next
              case (Some x)
              show ?thesis
              proof (rule step [of "i + 2" x])
                show "decode_from bs i out oi =
                    (if oi \<ge> length out then (None, out) else decode_from bs (i + 2) (out[oi := x]) (oi + 1))"
                  using i i1 b nu Some by (simp add: unfold Let_def)
                show "json_text (drop i bs) = map_option (Cons x) (json_text (drop (i + 2) bs))"
                  using b nu Some by (simp add: d d1)
              qed (use 1(2) [OF i refl b _ nu Some] i1 in simp_all)
            qed
          qed
        qed
      qed
    qed
  qed
  then show "case json_text (drop i bs) of
      Some t \<Rightarrow> if oi + length t < length out
        then decode_from bs i out oi = (Some (oi + length t), memcpy out oi (t @ [0]))
        else fst (decode_from bs i out oi) = None
    | None \<Rightarrow> fst (decode_from bs i out oi) = None"
    and "length (snd (decode_from bs i out oi)) = length out" by blast+
qed

lemma json_decode_string_eq:
  "json_text bs = Some t \<Longrightarrow> length t < length out \<Longrightarrow>
     json_decode_string bs out = (Some (length t), memcpy out 0 (t @ [0]))"
  using decode_from_laws(1) [of 0 out bs 0] by (simp add: json_decode_string_def)

lemma json_decode_string_SomeD:
  assumes "json_decode_string bs out = (Some n, out')"
  obtains t where "json_text bs = Some t" "n = length t" "n < length out" "out' = memcpy out 0 (t @ [0])"
  using decode_from_laws(1) [of 0 out bs 0] assms
  by (auto simp: json_decode_string_def split: option.splits if_splits)

lemma length_json_decode_string [simp]: "length (snd (json_decode_string bs out)) = length out"
  using decode_from_laws(2) [of 0 out bs 0] by (simp add: json_decode_string_def)

section \<open>Printing and reading back\<close>

text \<open>
  \<^verbatim>\<open>json_escape\<close> of \<^verbatim>\<open>src/cli/main.c\<close>: what it leaves in its buffer before the NUL. The loop stops at the end
  of the string or when two more characters might not fit.
\<close>

primrec json_escape_from :: "bytes \<Rightarrow> nat \<Rightarrow> nat \<Rightarrow> bytes" where
  "json_escape_from [] out_cap oi = []"
| "json_escape_from (c # cs) out_cap oi =
     (if c = 0 \<or> \<not> oi + 2 < out_cap then []
      else if c = QUOTE \<or> c = BACKSLASH then BACKSLASH # c # json_escape_from cs out_cap (oi + 2)
      else if c = 0x0A then BACKSLASH # CH_n # json_escape_from cs out_cap (oi + 2)
      else if c \<ge> 0x20 then c # json_escape_from cs out_cap (oi + 1)
      else json_escape_from cs out_cap oi)"

definition json_escape :: "bytes option \<Rightarrow> nat \<Rightarrow> bytes" where
  "json_escape s out_cap = json_escape_from (case s of None \<Rightarrow> [] | Some s \<Rightarrow> s) out_cap 0"

definition printable :: "bytes \<Rightarrow> bool" where
  "printable = list_all (\<lambda>c. c \<ge> 0x20 \<or> c = 0x0A)"

lemma string_end_at:
  assumes "pos < length bs"
  shows "bs ! pos = QUOTE \<Longrightarrow> string_end bs pos = Some (pos + 1)"
    and "bs ! pos \<noteq> QUOTE \<Longrightarrow> bs ! pos \<noteq> BACKSLASH \<Longrightarrow> string_end bs pos = string_end bs (pos + 1)"
    and "bs ! pos = BACKSLASH \<Longrightarrow> pos + 1 < length bs \<Longrightarrow> bs ! (pos + 1) \<noteq> CH_u \<Longrightarrow>
      string_end bs pos = string_end bs (pos + 2)"
  using assms by (simp_all add: string_end.simps [of bs pos] Let_def)

text \<open>An escaped string ends at the first quote after it, and stands for the string.\<close>

lemma escaped_string_end:
  assumes "printable s" and "oi + 2 * length s + 2 \<le> cap"
  shows "string_end (pre @ json_escape_from s cap oi @ QUOTE # rest) (length pre) =
    Some (length pre + length (json_escape_from s cap oi) + 1)"
  using assms
proof (induction s arbitrary: oi pre)
  case Nil
  then show ?case by (simp add: string_end_at(1))
next
  case (Cons c s)
  have c: "c \<noteq> 0" "c \<ge> 0x20 \<or> c = 0x0A" using Cons.prems(1) by (auto simp: printable_def)
  have p: "printable s" using Cons.prems(1) by (simp add: printable_def)
  have IH: "string_end ((pre @ xs) @ json_escape_from s cap oi' @ QUOTE # rest) (length (pre @ xs)) =
      Some (length (pre @ xs) + length (json_escape_from s cap oi') + 1)"
    if "oi' + 2 * length s + 2 \<le> cap" for xs oi'
    by (rule Cons.IH [OF p that])
  show ?case
  proof (cases "c = QUOTE \<or> c = BACKSLASH \<or> c = 0x0A")
    case True
    then have e: "\<exists>d. json_escape_from (c # s) cap oi = [BACKSLASH, d] @ json_escape_from s cap (oi + 2) \<and> d \<noteq> CH_u"
      using Cons.prems(2) by auto
    then obtain d where e: "json_escape_from (c # s) cap oi = [BACKSLASH, d] @ json_escape_from s cap (oi + 2)"
      and d: "d \<noteq> CH_u" by blast
    let ?bs = "pre @ [BACKSLASH, d] @ json_escape_from s cap (oi + 2) @ QUOTE # rest"
    have "string_end ?bs (length pre) = string_end ?bs (length pre + 2)"
      using d by (intro string_end_at(3)) (simp_all add: nth_append)
    then show ?thesis
      using IH [of "oi + 2" "[BACKSLASH, d]"] Cons.prems(2) unfolding e by simp
  next
    case False
    then have e: "json_escape_from (c # s) cap oi = [c] @ json_escape_from s cap (oi + 1)"
      using c Cons.prems(2) by auto
    let ?bs = "pre @ [c] @ json_escape_from s cap (oi + 1) @ QUOTE # rest"
    have "string_end ?bs (length pre) = string_end ?bs (length pre + 1)"
      using False by (intro string_end_at(2)) simp_all
    then show ?thesis
      using IH [of "oi + 1" "[c]"] Cons.prems(2) unfolding e by simp
  qed
qed

lemma json_text_escape:
  assumes "printable s" and "oi + 2 * length s + 2 \<le> cap"
  shows "json_text (json_escape_from s cap oi) = Some s"
  using assms
proof (induction s arbitrary: oi)
  case (Cons c s)
  then have "c \<noteq> 0" "c \<ge> 0x20 \<or> c = 0x0A" "printable s" by (auto simp: printable_def)
  then show ?case using Cons by (auto simp: unescape_def)
qed simp

lemma plain_string_end:
  assumes "QUOTE \<notin> set k" and "BACKSLASH \<notin> set k"
  shows "string_end (pre @ k @ QUOTE # rest) (length pre) = Some (length pre + length k + 1)"
  using assms
proof (induction k arbitrary: pre)
  case Nil
  then show ?case by (simp add: string_end_at(1))
next
  case (Cons c k)
  have "string_end (pre @ (c # k) @ QUOTE # rest) (length pre) =
      string_end (pre @ (c # k) @ QUOTE # rest) (length pre + 1)"
    using Cons.prems by (intro string_end_at(2)) simp_all
  then show ?case using Cons.IH [of "pre @ [c]"] Cons.prems by simp
qed

text \<open>The first member of a printed object.\<close>

definition print_member :: "string \<Rightarrow> bytes \<Rightarrow> bytes \<Rightarrow> bytes" where
  "print_member key body rest =
     LBRACE # QUOTE # ascii key @ QUOTE # COLON # QUOTE # body @ QUOTE # rest"

lemma find_printed_member:
  assumes key: "QUOTE \<notin> set (ascii key)" "BACKSLASH \<notin> set (ascii key)"
    and body: "\<And>pre. string_end (pre @ body @ QUOTE # rest) (length pre) = Some (length pre + length body + 1)"
  shows "\<exists>sp. json_object_find (print_member key body rest) key = Some sp \<and> js_is_string sp \<and>
    window (print_member key body rest) sp = body"
proof -
  let ?k = "ascii key"
  let ?bs = "print_member key body rest"
  let ?n = "length ?k"
  have bs: "?bs = [LBRACE, QUOTE] @ ?k @ QUOTE # ([COLON, QUOTE] @ body @ QUOTE # rest)"
    by (simp add: print_member_def)
  have at: "?bs ! 0 = LBRACE" "?bs ! 1 = QUOTE" "?bs ! (?n + 3) = COLON" "?bs ! (?n + 4) = QUOTE"
    and len: "length ?bs = ?n + length body + length rest + 6"
    by (simp_all add: print_member_def nth_append numeral_eq_Suc)
  have ws: "skip_ws ?bs 0 = 0" "skip_ws ?bs 1 = 1" "skip_ws ?bs (?n + 3) = ?n + 3"
    "skip_ws ?bs (?n + 4) = ?n + 4"
    using at len by (auto intro!: skip_while_at simp: is_ws_def)
  have kend: "skip_string ?bs 1 = Some (?n + 3)"
    using plain_string_end [OF key, of "[LBRACE, QUOTE]" "[COLON, QUOTE] @ body @ QUOTE # rest"] at len
    unfolding skip_string_def bs [symmetric] by (simp add: numeral_eq_Suc)
  have bs2: "?bs = (LBRACE # QUOTE # ?k @ [QUOTE, COLON, QUOTE]) @ body @ QUOTE # rest"
    by (simp add: print_member_def)
  have vend: "skip_string ?bs (?n + 4) = Some (?n + length body + 6)"
    using body [of "LBRACE # QUOTE # ?k @ [QUOTE, COLON, QUOTE]"] at len
    unfolding skip_string_def bs2 [symmetric] by (simp add: numeral_eq_Suc)
  then have val: "scan_value ?bs (?n + 4) = Some (?n + length body + 6, True)"
    using at ws len by (simp add: scan_value_def)
  have key_at: "take ?n (drop (Suc (Suc 0)) ?bs) = ?k" and sc: "Suc (?n + 3) = ?n + 4" "Suc 1 = 2"
    by (simp_all add: print_member_def)
  have "object_members ?bs ?k 1 = Some (span_from_value (?n + 4) (?n + length body + 6) True)"
    using at ws len kend val key_at by (subst object_members.simps) (simp add: Let_def sc)
  moreover have "window ?bs (span_from_value (?n + 4) (?n + length body + 6) True) = body"
  proof -
    have "drop (length xs) (xs @ ys) = ys" for xs ys :: bytes by simp
    from this [of "LBRACE # QUOTE # ?k @ [QUOTE, COLON, QUOTE]" "body @ QUOTE # rest"]
    have "drop (?n + 4 + 1) ?bs = body @ QUOTE # rest" unfolding bs2 by (simp add: numeral_eq_Suc del: append_assoc)
    then show ?thesis by (simp add: window_def span_from_value_def)
  qed
  moreover have "\<not> length ?bs \<le> 0" using len by simp
  ultimately show ?thesis using ws at by (simp add: json_object_find_def span_from_value_def)
qed

section \<open>What the scanner promises\<close>

text \<open>
  no span leaves its window. For every input, well-formed or not, whatever member or element is looked
  up lies within the bytes that were given, and an array has no more elements than bytes.
\<close>

theorem json_spans_stay_inside:
  "(\<forall>sp. json_object_find bs key = Some sp \<longrightarrow> js_off sp + js_len sp \<le> length bs) \<and>
   (\<forall>sp. json_array_get bs index = Some sp \<longrightarrow> js_off sp + js_len sp \<le> length bs) \<and>
   (\<forall>n. json_array_count bs = Some n \<longrightarrow> n < length bs)"
proof (intro conjI allI impI)
  fix sp assume "json_object_find bs key = Some sp"
  then show "js_off sp + js_len sp \<le> length bs"
    using object_members_inside by (auto simp: json_object_find_def Let_def split: if_splits)
next
  fix sp assume "json_array_get bs index = Some sp"
  then show "js_off sp + js_len sp \<le> length bs"
    using get_element_inside by (auto simp: json_array_get_def split: option.splits)
next
  fix n assume "json_array_count bs = Some n"
  then obtain pos where "array_open bs = Some pos" "count_elements bs pos 0 = Some n"
    by (auto simp: json_array_count_def split: option.splits)
  moreover from this(1) have "0 < pos" "pos \<le> length bs"
    by (auto simp: array_open_def Let_def split: if_splits)
  ultimately show "n < length bs" using count_elements_bound by fastforce
qed

theorem json_spans_stay_inside_witness:
  "json_object_find (ascii ''{\"a\":[7,8]}'') ''a'' =
     Some \<lparr>js_off = 5, js_len = 5, js_is_string = False\<rparr> \<and> 5 + 5 \<le> length (ascii ''{\"a\":[7,8]}'')"
proof
  show f: "json_object_find (ascii ''{\"a\":[7,8]}'') ''a'' =
     Some \<lparr>js_off = 5, js_len = 5, js_is_string = False\<rparr>" by code_simp
  show "5 + 5 \<le> length (ascii ''{\"a\":[7,8]}'')"
    using json_spans_stay_inside [of "ascii ''{\"a\":[7,8]}''" "''a''" 0] f by fastforce
qed

text \<open>
  what the command line tool prints is read back as it was. A printable string, escaped into a buffer
  of at least twice its length and two, is delimited by the first closing quote after it, found under its
  key, and decoded to the very string in every buffer that has room for it and a NUL.
\<close>

theorem json_escape_round_trip:
  assumes "printable s" and "2 * length s + 2 \<le> cap" and "length s < length out"
    and "QUOTE \<notin> set (ascii key)" and "BACKSLASH \<notin> set (ascii key)"
  shows "\<exists>sp. json_object_find (print_member key (json_escape (Some s) cap) rest) key = Some sp \<and>
    js_is_string sp \<and>
    json_decode_string (window (print_member key (json_escape (Some s) cap) rest) sp) out =
      (Some (length s), s @ 0 # drop (Suc (length s)) out)"
proof -
  have "json_text (json_escape (Some s) cap) = Some s"
    using json_text_escape [OF assms(1), of 0] assms(2) by (simp add: json_escape_def)
  from json_decode_string_eq [OF this assms(3)]
  have "json_decode_string (json_escape (Some s) cap) out = (Some (length s), s @ 0 # drop (Suc (length s)) out)"
    by (simp add: memcpy_zero)
  moreover have "string_end (pre @ json_escape (Some s) cap @ QUOTE # rest) (length pre) =
      Some (length pre + length (json_escape (Some s) cap) + 1)" for pre
    using escaped_string_end [OF assms(1), of 0] assms(2) by (simp add: json_escape_def)
  ultimately show ?thesis
    using find_printed_member [OF assms(4,5), of "json_escape (Some s) cap" rest] by auto
qed

theorem json_escape_round_trip_witness:
  "\<exists>sp. json_object_find (print_member ''path'' (json_escape (Some (ascii ''a\"b'')) 512) (ascii ''}'')) ''path'' =
    Some sp \<and> json_decode_string (window (print_member ''path'' (json_escape (Some (ascii ''a\"b'')) 512)
      (ascii ''}'')) sp) (replicate 4 9) = (Some 3, ascii ''a\"b'' @ [0])"
proof -
  have "printable (ascii ''a\"b'')" "length (ascii ''a\"b'') = 3"
    "QUOTE \<notin> set (ascii ''path'')" "BACKSLASH \<notin> set (ascii ''path'')"
    by (simp_all add: printable_def ascii_def of_char_def)
  then show ?thesis
    using json_escape_round_trip [of "ascii ''a\"b''" 512 "replicate 4 9" "''path''" "ascii ''}''"]
    by (auto simp: numeral_eq_Suc)
qed

end
