(* ===== verification/Hex.thy ===== *)
theory Hex
  imports Obicall_Types
begin

text \<open>
  Hexadecimal text: \<^verbatim>\<open>procutil_hex_encode\<close> and \<^verbatim>\<open>procutil_hex_decode\<close> of \<^verbatim>\<open>src/common/procutil.c\<close>, by which
  the run token and the configuration digest travel on command lines, and \<^verbatim>\<open>hex_decode\<close> of
  \<^verbatim>\<open>src/core/manifest.c\<close> for artifact digests. Decoding inverts encoding, and accepts nothing but pairs of
  hexadecimal digits.
\<close>

definition hexchar :: "u8 \<Rightarrow> u8" where
  "hexchar n = (if n < 10 then 0x30 + n else 0x61 + (n - 10))"

definition hex_pair :: "u8 \<Rightarrow> bytes" where
  "hex_pair b = [hexchar (drop_bit 4 b), hexchar (b AND 0xF)]"

text \<open>The digits and the NUL in the output buffer; \<open>None\<close> when they do not fit.\<close>

definition procutil_hex_encode :: "bytes \<Rightarrow> bytes \<Rightarrow> bytes option" where
  "procutil_hex_encode data out =
     (if length out < length data * 2 + 1 then None
      else Some (memcpy out 0 (concat (map hex_pair data) @ [0])))"

definition hex_val :: "u8 \<Rightarrow> u8 option" where
  "hex_val c =
     (if c \<ge> 0x30 \<and> c \<le> 0x39 then Some (c - 0x30)
      else if c \<ge> 0x61 \<and> c \<le> 0x66 then Some (c - 0x61 + 10)
      else if c \<ge> 0x41 \<and> c \<le> 0x46 then Some (c - 0x41 + 10)
      else None)"

fun hex_bytes :: "bytes \<Rightarrow> bytes option" where
  "hex_bytes [] = Some []"
| "hex_bytes (hi # lo # hex) =
     (case (hex_val hi, hex_val lo) of
        (Some h, Some l) \<Rightarrow> map_option (Cons (push_bit 4 h OR l)) (hex_bytes hex)
      | _ \<Rightarrow> None)"
| "hex_bytes [_] = None"

definition procutil_hex_decode :: "bytes \<Rightarrow> nat \<Rightarrow> bytes option" where
  "procutil_hex_decode hex out_len = (if length hex \<noteq> out_len * 2 then None else hex_bytes hex)"

text \<open>\<^verbatim>\<open>hex_decode\<close> of the manifest parser tests the two digits of a byte one after the other.\<close>

definition hex_decode :: "bytes \<Rightarrow> nat \<Rightarrow> bytes option" where
  "hex_decode hex out_cap = (if length hex \<noteq> out_cap * 2 then None else hex_bytes hex)"

section \<open>Laws\<close>

lemma hex_val_hexchar: "n < 16 \<Longrightarrow> hex_val (hexchar n) = Some n"
proof -
  assume "n < 16"
  then have "unat n \<in> {0..<16}" by (simp add: word_less_nat_alt)
  moreover have "list_all (\<lambda>n. hex_val (hexchar n) = Some n) (map of_nat [0..<16])" by code_simp
  then have "\<forall>i \<in> {0..<16}. hex_val (hexchar (of_nat i)) = Some (of_nat i)" by (simp only: list_all_iff set_map set_upt ball_simps)
  ultimately have "hex_val (hexchar (of_nat (unat n))) = Some (of_nat (unat n))" by (rule bspec [rotated])
  then show ?thesis by simp
qed

lemma nibble_less: "drop_bit 4 (b :: u8) < 16" "b AND 0xF < (16 :: u8)"
proof -
  have "unat b < 256" using unsigned_less [of b, where ?'a = nat] by simp
  then show "drop_bit 4 b < 16" by (simp add: word_less_nat_alt drop_bit_eq_div unat_div)
  have "b AND 0xF = take_bit 4 b" by (simp add: take_bit_eq_mask mask_eq_exp_minus_1)
  moreover have "unat (take_bit 4 b) < 16"
    by (simp add: take_bit_eq_mod unat_mod)
  ultimately show "b AND 0xF < 16" by (simp add: word_less_nat_alt)
qed

lemma nibbles: "push_bit 4 (drop_bit 4 b) OR (b AND 0xF) = (b :: u8)"
proof -
  have "b AND 0xF = take_bit 4 b" by (simp add: take_bit_eq_mask mask_eq_exp_minus_1)
  then show ?thesis by (simp only:) (rule bit_word_eqI, auto simp: bit_simps)
qed

lemma hex_bytes_pair: "hex_bytes (hex_pair b @ hex) = map_option (Cons b) (hex_bytes hex)"
  by (simp add: hex_pair_def hex_val_hexchar nibble_less nibbles)

lemma hex_bytes_encode: "hex_bytes (concat (map hex_pair data)) = Some data"
  by (induction data) (simp_all add: hex_bytes_pair)

lemma length_hex_pairs [simp]: "length (concat (map hex_pair data)) = 2 * length data"
  by (induction data) (simp_all add: hex_pair_def)

lemma hex_bytes_length: "hex_bytes hex = Some bs \<Longrightarrow> length hex = 2 * length bs"
  by (induction hex arbitrary: bs rule: hex_bytes.induct) (auto split: option.splits)

lemma hex_bytes_Some_iff: "(\<exists>bs. hex_bytes hex = Some bs) \<longleftrightarrow>
    even (length hex) \<and> (\<forall>c \<in> set hex. hex_val c \<noteq> None)"
  by (induction hex rule: hex_bytes.induct) (auto split: option.splits)

text \<open>
  The run token and the digests survive their way over a command line. Encoded into any buffer with
  room for two digits a byte and a NUL, the text before the NUL decodes to the same bytes; and a text is
  decoded only when it has two digits per byte and consists of hexadecimal digits.
\<close>

theorem hex_round_trip:
  assumes "2 * length data + 1 \<le> length out"
  shows "\<exists>text. procutil_hex_encode data out = Some (text @ 0 # drop (2 * length data + 1) out) \<and>
      procutil_hex_decode text (length data) = Some data \<and>
    ((\<exists>bs. procutil_hex_decode hex n = Some bs) \<longleftrightarrow>
      length hex = n * 2 \<and> (\<forall>c \<in> set hex. hex_val c \<noteq> None))"
proof (intro exI conjI)
  show "procutil_hex_encode data out =
      Some (concat (map hex_pair data) @ 0 # drop (2 * length data + 1) out)"
    using assms by (simp add: procutil_hex_encode_def memcpy_zero)
  show "procutil_hex_decode (concat (map hex_pair data)) (length data) = Some data"
    by (simp add: procutil_hex_decode_def hex_bytes_encode)
  show "(\<exists>bs. procutil_hex_decode hex n = Some bs) \<longleftrightarrow>
      length hex = n * 2 \<and> (\<forall>c \<in> set hex. hex_val c \<noteq> None)"
    using hex_bytes_Some_iff [of hex] by (auto simp: procutil_hex_decode_def)
qed

theorem hex_round_trip_witness:
  "\<exists>text. procutil_hex_encode [0x0F, 0xA0] (replicate 5 1) = Some (text @ [0]) \<and>
     procutil_hex_decode text 2 = Some [0x0F, 0xA0]"
  using hex_round_trip [of "[0x0F, 0xA0]" "replicate 5 1" "[]" 0] by (auto simp: numeral_2_eq_2)

end
