(* ===== verification/Manifest.thy ===== *)
theory Manifest
  imports Json_Min Hex
begin

text \<open>
  \<^verbatim>\<open>src/core/manifest.c\<close>, first half: parsing one provider manifest and loading a directory of them. The
  parser is a sequence of steps over the manifest being filled, each of which may end the parse with a
  status and a message. The law is the well-formedness of what a successful parse returns: every array has
  its length, the mandatory names are terminated, the counts are in range and the score is a number.
\<close>

section \<open>Data\<close>

abbreviation (input) OBICALL_MANIFEST_SCHEMA_VERSION :: u32 where "OBICALL_MANIFEST_SCHEMA_VERSION \<equiv> 1"
abbreviation (input) OBICALL_MAX_DEPENDENCIES :: nat where "OBICALL_MAX_DEPENDENCIES \<equiv> 8"
abbreviation (input) OBICALL_MAX_MANIFESTS :: nat where "OBICALL_MAX_MANIFESTS \<equiv> 64"
abbreviation (input) OBICALL_MAX_NAME_LEN :: nat where "OBICALL_MAX_NAME_LEN \<equiv> 64"
abbreviation (input) OBICALL_MAX_CONFIG_JSON_LEN :: nat where "OBICALL_MAX_CONFIG_JSON_LEN \<equiv> 2048"
abbreviation (input) OBICALL_LANG_C :: u32 where "OBICALL_LANG_C \<equiv> 1"
abbreviation (input) OBICALL_LANG_PYTHON :: u32 where "OBICALL_LANG_PYTHON \<equiv> 2"
abbreviation (input) sizeof_manifest :: u32 where "sizeof_manifest \<equiv> 3080"

record obicall_manifest =
  mf_struct_size :: u32
  mf_schema_version :: u32
  mf_name :: bytes
  mf_version :: bytes
  mf_language :: u32
  mf_abi_version_major :: u32
  mf_abi_version_minor :: u32
  mf_architecture :: bytes
  mf_capability_flags :: u64
  mf_capability_slot :: bytes
  mf_preference_score :: double
  mf_artifact_path :: bytes
  mf_artifact_sha256 :: bytes
  mf_has_artifact_sha256 :: u32
  mf_config_schema_version :: u32
  mf_config_json :: bytes
  mf_dependency_count :: nat
  mf_dependencies :: "bytes list"

record obicall_manifest_set =
  ms_count :: nat
  ms_items :: "obicall_manifest list"

definition zero_manifest :: obicall_manifest where
  "zero_manifest = \<lparr>mf_struct_size = 0, mf_schema_version = 0, mf_name = replicate 64 0,
     mf_version = replicate 32 0, mf_language = 0, mf_abi_version_major = 0, mf_abi_version_minor = 0,
     mf_architecture = replicate 16 0, mf_capability_flags = 0, mf_capability_slot = replicate 64 0,
     mf_preference_score = 0, mf_artifact_path = replicate 260 0, mf_artifact_sha256 = replicate 32 0,
     mf_has_artifact_sha256 = 0, mf_config_schema_version = 0, mf_config_json = replicate 2048 0,
     mf_dependency_count = 0, mf_dependencies = replicate 8 (replicate 64 0)\<rparr>"

text \<open>The string a character array holds, and \<^verbatim>\<open>strcmp(a, b) == 0\<close>.\<close>

definition cstring :: "bytes \<Rightarrow> bytes" where
  "cstring bs = takeWhile (\<lambda>b. b \<noteq> 0) bs"

definition streq :: "bytes \<Rightarrow> bytes \<Rightarrow> bool" where
  "streq a b \<longleftrightarrow> cstring a = cstring b"

text \<open>
  A conversion from \<^verbatim>\<open>double\<close> to an integer type truncates. Out of the type's range it is undefined in C; the
  value here is the one modulo the type's size.
\<close>

definition double_trunc :: "double \<Rightarrow> int" where
  "double_trunc d =
     (let m = (if dexpo d \<ge> 0 then dmant d * 2 ^ nat (dexpo d) else dmant d div 2 ^ nat (- dexpo d))
      in if dsign d then - m else m)"

definition u32_of_double :: "double \<Rightarrow> u32" where
  "u32_of_double d = of_int (double_trunc d)"

section \<open>Issues\<close>

text \<open>A step ends the parse with a status and, where \<open>set_issue\<close> is called, a message.\<close>

type_synonym 'a step = "(obicall_status \<times> bytes option) + 'a"

text \<open>\<^verbatim>\<open>snprintf(out, cap, fmt, a)\<close> of the formatted message: at most \<open>cap - 1\<close> characters and a NUL.\<close>

definition set_issue :: "bytes option \<Rightarrow> u32 \<Rightarrow> bytes option \<Rightarrow> bytes option" where
  "set_issue out cap msg =
     (case (out, msg) of
        (Some out, Some msg) \<Rightarrow> Some (if cap = 0 then out
          else memcpy out 0 (take (unat cap - 1) msg @ [0]))
      | _ \<Rightarrow> out)"

primrec run_steps :: "('a \<Rightarrow> 'a step) list \<Rightarrow> 'a \<Rightarrow> 'a step" where
  "run_steps [] x = Inr x"
| "run_steps (f # fs) x = (case f x of Inl e \<Rightarrow> Inl e | Inr y \<Rightarrow> run_steps fs y)"

section \<open>Fields\<close>

definition capability_flag_from_name :: "bytes \<Rightarrow> u64" where
  "capability_flag_from_name name =
     (if cstring name = ascii ''position_sensor'' then 1
      else if cstring name = ascii ''inertial_sensor'' then 2
      else if cstring name = ascii ''range_sensor'' then 4
      else if cstring name = ascii ''checkpoint'' then 8
      else if cstring name = ascii ''fault_injection'' then 16
      else 0)"

text \<open>Whether the field was found and fits, and the buffer, which a failed decoding has written to.\<close>

definition find_field_str :: "bytes \<Rightarrow> string \<Rightarrow> bytes \<Rightarrow> bool \<times> bytes" where
  "find_field_str json key out =
     (case json_object_find json key of
        None \<Rightarrow> (False, out)
      | Some sp \<Rightarrow>
          if \<not> js_is_string sp then (False, out)
          else (case json_decode_string (window json sp) out of (n, out) \<Rightarrow> (n \<noteq> None, out)))"

definition find_field_num :: "bytes \<Rightarrow> string \<Rightarrow> double option" where
  "find_field_num json key =
     (case json_object_find json key of
        None \<Rightarrow> None
      | Some sp \<Rightarrow> if js_is_string sp then None else json_parse_number (window json sp))"

section \<open>The steps of the parser\<close>

definition parse_schema_version :: "bytes \<Rightarrow> obicall_manifest \<Rightarrow> obicall_manifest step" where
  "parse_schema_version json m =
     (case find_field_num json ''schema_version'' of
        None \<Rightarrow> Inl (OBICALL_ERR_INVALID_ARGUMENT, Some (ascii ''manifest missing schema_version''))
      | Some num \<Rightarrow>
          (let m = m\<lparr>mf_schema_version := u32_of_double num\<rparr> in
           if mf_schema_version m \<noteq> OBICALL_MANIFEST_SCHEMA_VERSION
           then Inl (OBICALL_ERR_UNSUPPORTED, Some (ascii ''unsupported manifest schema_version''))
           else Inr m))"

definition parse_name :: "bytes \<Rightarrow> obicall_manifest \<Rightarrow> obicall_manifest step" where
  "parse_name json m =
     (case find_field_str json ''name'' (mf_name m) of (ok, name) \<Rightarrow>
        if \<not> ok then Inl (OBICALL_ERR_INVALID_ARGUMENT, Some (ascii ''manifest missing name''))
        else Inr (m\<lparr>mf_name := name, mf_version := snd (find_field_str json ''version'' (mf_version m))\<rparr>))"

definition parse_language :: "bytes \<Rightarrow> obicall_manifest \<Rightarrow> obicall_manifest step" where
  "parse_language json m =
     (case find_field_str json ''language'' (replicate 16 0) of (ok, lang) \<Rightarrow>
        if \<not> ok then Inr m
        else if cstring lang = ascii ''c'' then Inr (m\<lparr>mf_language := OBICALL_LANG_C\<rparr>)
        else if cstring lang = ascii ''python'' then Inr (m\<lparr>mf_language := OBICALL_LANG_PYTHON\<rparr>)
        else Inl (OBICALL_ERR_UNSUPPORTED,
          Some (ascii ''unknown language '' @ [0x27] @ cstring lang @ [0x27])))"

definition parse_numbers :: "bytes \<Rightarrow> obicall_manifest \<Rightarrow> obicall_manifest step" where
  "parse_numbers json m = Inr (m
     \<lparr>mf_abi_version_major := (case find_field_num json ''abi_version_major'' of
          None \<Rightarrow> mf_abi_version_major m | Some num \<Rightarrow> u32_of_double num),
      mf_abi_version_minor := (case find_field_num json ''abi_version_minor'' of
          None \<Rightarrow> mf_abi_version_minor m | Some num \<Rightarrow> u32_of_double num),
      mf_architecture := snd (find_field_str json ''architecture'' (mf_architecture m)),
      mf_capability_slot := snd (find_field_str json ''capability_slot'' (mf_capability_slot m)),
      mf_preference_score := (case find_field_num json ''preference_score'' of None \<Rightarrow> 0 | Some num \<Rightarrow> num)\<rparr>)"

definition parse_artifact :: "bytes \<Rightarrow> obicall_manifest \<Rightarrow> obicall_manifest step" where
  "parse_artifact json m =
     (case find_field_str json ''artifact_path'' (mf_artifact_path m) of (ok, path) \<Rightarrow>
        if \<not> ok then Inl (OBICALL_ERR_INVALID_ARGUMENT, Some (ascii ''manifest missing artifact_path''))
        else Inr (m\<lparr>mf_artifact_path := path\<rparr>))"

definition parse_artifact_sha256 :: "bytes \<Rightarrow> obicall_manifest \<Rightarrow> obicall_manifest step" where
  "parse_artifact_sha256 json m =
     (case json_object_find json ''artifact_sha256'' of
        None \<Rightarrow> Inr m
      | Some sp \<Rightarrow>
          if \<not> js_is_string sp then Inr m
          else (case json_decode_string (window json sp) (replicate 65 0) of (n, hex) \<Rightarrow>
                 (case (if n = Some 64 then hex_decode (take 64 hex) 32 else None) of
                    None \<Rightarrow> Inl (OBICALL_ERR_INVALID_ARGUMENT, Some (ascii ''malformed artifact_sha256''))
                  | Some digest \<Rightarrow> Inr (m\<lparr>mf_artifact_sha256 := digest, mf_has_artifact_sha256 := 1\<rparr>))))"

definition parse_config_schema_version :: "bytes \<Rightarrow> obicall_manifest \<Rightarrow> obicall_manifest step" where
  "parse_config_schema_version json m = Inr (case find_field_num json ''config_schema_version'' of
     None \<Rightarrow> m | Some num \<Rightarrow> m\<lparr>mf_config_schema_version := u32_of_double num\<rparr>)"

text \<open>One element of \<^verbatim>\<open>capability_flags\<close>; what is not a string or does not fit is passed over.\<close>

definition element_flag :: "bytes \<Rightarrow> nat \<Rightarrow> u64" where
  "element_flag arr i =
     (case json_array_get arr i of
        None \<Rightarrow> 0
      | Some elem \<Rightarrow>
          if \<not> js_is_string elem then 0
          else (case json_decode_string (window arr elem) (replicate 48 0) of (n, name) \<Rightarrow>
                  if n = None then 0 else capability_flag_from_name name))"

definition array_size :: "bytes \<Rightarrow> nat" where
  "array_size arr = (case json_array_count arr of None \<Rightarrow> 0 | Some n \<Rightarrow> n)"

definition parse_capability_flags :: "bytes \<Rightarrow> obicall_manifest \<Rightarrow> obicall_manifest step" where
  "parse_capability_flags json m =
     (case json_object_find json ''capability_flags'' of
        None \<Rightarrow> Inr m
      | Some sp \<Rightarrow>
          if js_is_string sp then Inr m
          else (let arr = window json sp in
                Inr (m\<lparr>mf_capability_flags :=
                  foldl (\<lambda>flags i. flags OR element_flag arr i) (mf_capability_flags m) [0..<array_size arr]\<rparr>)))"

definition parse_config :: "bytes \<Rightarrow> obicall_manifest \<Rightarrow> obicall_manifest step" where
  "parse_config json m =
     (let default = Inr (m\<lparr>mf_config_json := (mf_config_json m)[0 := LBRACE, 1 := RBRACE]\<rparr>) in
      case json_object_find json ''config'' of
        None \<Rightarrow> default
      | Some sp \<Rightarrow>
          if js_is_string sp then default
          else if js_len sp \<ge> OBICALL_MAX_CONFIG_JSON_LEN
          then Inl (OBICALL_ERR_BUFFER_TOO_SMALL, Some (ascii ''config object too large''))
          else Inr (m\<lparr>mf_config_json := memcpy (mf_config_json m) 0 (window json sp @ [0])\<rparr>))"

definition parse_dependency :: "bytes \<Rightarrow> nat \<Rightarrow> obicall_manifest \<Rightarrow> obicall_manifest step" where
  "parse_dependency arr i m =
     (let bad = Inl (OBICALL_ERR_INVALID_ARGUMENT, Some (ascii ''dependency entry must be a string'')) in
      case json_array_get arr i of
        None \<Rightarrow> bad
      | Some elem \<Rightarrow>
          if \<not> js_is_string elem then bad
          else (case json_decode_string (window arr elem) (mf_dependencies m ! mf_dependency_count m) of
                  (n, name) \<Rightarrow>
                    if n = None then Inl (OBICALL_ERR_BUFFER_TOO_SMALL, None)
                    else Inr (m\<lparr>mf_dependencies := (mf_dependencies m)[mf_dependency_count m := name],
                      mf_dependency_count := mf_dependency_count m + 1\<rparr>)))"

definition parse_dependencies :: "bytes \<Rightarrow> obicall_manifest \<Rightarrow> obicall_manifest step" where
  "parse_dependencies json m =
     (case json_object_find json ''dependencies'' of
        None \<Rightarrow> Inr m
      | Some sp \<Rightarrow>
          if js_is_string sp then Inr m
          else
            (let arr = window json sp in
             if array_size arr > OBICALL_MAX_DEPENDENCIES
             then Inl (OBICALL_ERR_OUT_OF_RANGE, Some (ascii ''too many dependencies''))
             else run_steps (map (parse_dependency arr) [0..<array_size arr]) m))"

definition parse_steps :: "bytes \<Rightarrow> (obicall_manifest \<Rightarrow> obicall_manifest step) list" where
  "parse_steps json = [parse_schema_version json, parse_name json, parse_language json,
     parse_numbers json, parse_artifact json, parse_artifact_sha256 json,
     parse_config_schema_version json, parse_capability_flags json, parse_config json,
     parse_dependencies json]"

text \<open>The manifest or the status, and the caller's message buffer.\<close>

definition obicall_manifest_parse_json ::
  "bytes option \<Rightarrow> obicall_manifest option \<Rightarrow> bytes option \<Rightarrow> u32 \<Rightarrow> obicall_manifest res \<times> bytes option" where
  "obicall_manifest_parse_json json out out_issue_detail detail_cap =
     (case (json, out) of
        (Some json, Some _) \<Rightarrow>
          (case run_steps (parse_steps json) (zero_manifest\<lparr>mf_struct_size := sizeof_manifest\<rparr>) of
             Inl (st, msg) \<Rightarrow> (Inl st, set_issue out_issue_detail detail_cap msg)
           | Inr m \<Rightarrow> (Inr m, out_issue_detail))
      | _ \<Rightarrow> (Inl OBICALL_ERR_NULL_POINTER, out_issue_detail))"

section \<open>Loading a directory\<close>

text \<open>
  The file system is a function from paths to the contents of the files that can be opened; \<^verbatim>\<open>readdir\<close> is
  the list of the entries' names in its order.
\<close>

definition load_one_manifest_file ::
  "(bytes \<Rightarrow> bytes option) \<Rightarrow> bytes \<Rightarrow> obicall_manifest_set \<Rightarrow> bytes option \<Rightarrow> u32 \<Rightarrow>
   obicall_manifest_set res \<times> bytes option" where
  "load_one_manifest_file files path ms detail cap =
     (case files path of
        None \<Rightarrow> (Inl OBICALL_ERR_IO, detail)
      | Some contents \<Rightarrow>
          (let buf = take 8192 contents in
           if length contents > 8192
           then (Inl OBICALL_ERR_BUFFER_TOO_SMALL,
             set_issue detail cap (Some (ascii ''manifest file too large: '' @ path)))
           else if ms_count ms \<ge> OBICALL_MAX_MANIFESTS
           then (Inl OBICALL_ERR_OUT_OF_RANGE,
             set_issue detail cap (Some (ascii ''too many manifests in directory'')))
           else (case obicall_manifest_parse_json (Some buf) (Some (ms_items ms ! ms_count ms)) detail cap of
                   (Inl st, detail) \<Rightarrow> (Inl st, detail)
                 | (Inr m, detail) \<Rightarrow>
                     (Inr (ms\<lparr>ms_items := (ms_items ms)[ms_count ms := m],
                        ms_count := ms_count ms + 1\<rparr>), detail))))"

definition has_suffix :: "bytes \<Rightarrow> bytes \<Rightarrow> bool" where
  "has_suffix s sfx \<longleftrightarrow> length s \<ge> length sfx \<and> drop (length s - length sfx) s = sfx"

primrec load_entries ::
  "(bytes \<Rightarrow> bytes option) \<Rightarrow> bytes \<Rightarrow> bytes list \<Rightarrow> obicall_manifest_set \<Rightarrow> bytes option \<Rightarrow> u32 \<Rightarrow>
   obicall_manifest_set res \<times> bytes option" where
  "load_entries files dir [] ms detail cap = (Inr ms, detail)"
| "load_entries files dir (name # names) ms detail cap =
     (let full = dir @ [0x2F] @ name in
      if \<not> has_suffix name (ascii ''.manifest.json'') \<or> length full \<ge> 516
      then load_entries files dir names ms detail cap
      else (case load_one_manifest_file files full ms detail cap of
              (Inl st, detail) \<Rightarrow> (Inl st, detail)
            | (Inr ms, detail) \<Rightarrow> load_entries files dir names ms detail cap))"

definition zero_set :: obicall_manifest_set where
  "zero_set = \<lparr>ms_count = 0, ms_items = replicate 64 zero_manifest\<rparr>"

definition obicall_manifest_load_dir ::
  "(bytes \<Rightarrow> bytes option) \<Rightarrow> (bytes \<Rightarrow> bytes list option) \<Rightarrow> bytes option \<Rightarrow>
   obicall_manifest_set option \<Rightarrow> bytes option \<Rightarrow> u32 \<Rightarrow> obicall_manifest_set res \<times> bytes option" where
  "obicall_manifest_load_dir files opendir dir_path out_set detail cap =
     (case (dir_path, out_set) of
        (Some dir, Some _) \<Rightarrow>
          (case opendir dir of
             None \<Rightarrow> (Inr zero_set, detail)
           | Some names \<Rightarrow> load_entries files dir names zero_set detail cap)
      | _ \<Rightarrow> (Inl OBICALL_ERR_NULL_POINTER, detail))"

section \<open>Well-formed manifests\<close>

text \<open>A character array that holds a C string: a NUL occurs in it.\<close>

abbreviation terminated :: "bytes \<Rightarrow> bool" where "terminated bs \<equiv> 0 \<in> set bs"

definition wf_arrays :: "obicall_manifest \<Rightarrow> bool" where
  "wf_arrays m \<longleftrightarrow> length (mf_name m) = 64 \<and> length (mf_version m) = 32 \<and> length (mf_architecture m) = 16 \<and>
     length (mf_capability_slot m) = 64 \<and> length (mf_artifact_path m) = 260 \<and>
     length (mf_artifact_sha256 m) = 32 \<and> length (mf_config_json m) = 2048 \<and>
     length (mf_dependencies m) = 8 \<and> (\<forall>d \<in> set (mf_dependencies m). length d = 64)"

definition wf_manifest :: "obicall_manifest \<Rightarrow> bool" where
  "wf_manifest m \<longleftrightarrow> wf_arrays m \<and>
     mf_struct_size m = sizeof_manifest \<and> mf_schema_version m = OBICALL_MANIFEST_SCHEMA_VERSION \<and>
     terminated (mf_name m) \<and> mf_language m \<le> OBICALL_LANG_PYTHON \<and> \<not> isnan (mf_preference_score m) \<and>
     mf_capability_flags m AND 31 = mf_capability_flags m \<and>
     terminated (mf_artifact_path m) \<and> mf_has_artifact_sha256 m \<le> 1 \<and> terminated (mf_config_json m) \<and>
     mf_dependency_count m \<le> OBICALL_MAX_DEPENDENCIES \<and>
     (\<forall>i < mf_dependency_count m. terminated (mf_dependencies m ! i))"

text \<open>
  What a step assumes of the manifest and what it establishes: the arrays keep their lengths, and each
  conjunct of the invariant, once established, survives the later steps.
\<close>

definition step_keeps :: "('a \<Rightarrow> bool) \<Rightarrow> ('a \<Rightarrow> 'a step) \<Rightarrow> ('a \<Rightarrow> bool) \<Rightarrow> bool" where
  "step_keeps P f Q \<longleftrightarrow> (\<forall>x y. P x \<longrightarrow> f x = Inr y \<longrightarrow> Q y)"

lemma step_keepsI: "(\<And>x y. P x \<Longrightarrow> f x = Inr y \<Longrightarrow> Q y) \<Longrightarrow> step_keeps P f Q"
  by (simp add: step_keeps_def)

lemma step_keepsD: "step_keeps P f Q \<Longrightarrow> P x \<Longrightarrow> f x = Inr y \<Longrightarrow> Q y"
  by (simp add: step_keeps_def)

lemma run_steps_cons:
  assumes "step_keeps P f Q" and "step_keeps Q (run_steps fs) R"
  shows "step_keeps P (run_steps (f # fs)) R"
  using assms by (fastforce simp: step_keeps_def split: sum.splits)

lemma run_steps_nil: "step_keeps P (run_steps []) P"
  by (simp add: step_keeps_def)

lemma run_steps_all:
  assumes "\<And>i. i < n \<Longrightarrow> step_keeps (P i) (f i) (P (Suc i))" and "k \<le> n"
  shows "step_keeps (P k) (run_steps (map f [k..<n])) (P n)"
  using assms(2)
proof (induction rule: inc_induct)
  case base
  then show ?case by (simp add: step_keeps_def)
next
  case (step k)
  then have "map f [k..<n] = f k # map f [Suc k..<n]" by (simp add: upt_conv_Cons)
  moreover have "step_keeps (P k) (f k) (P (Suc k))" using step by (intro assms(1))
  ultimately show ?case using run_steps_cons [OF _ step.IH] by (simp only:)
qed

lemma length_decoded: "json_decode_string bs out = (n, out') \<Longrightarrow> length out' = length out"
  using length_json_decode_string [of bs out] by simp

lemma length_find_field_str [simp]: "length (snd (find_field_str json key out)) = length out"
  by (auto simp: find_field_str_def length_decoded split: option.splits prod.splits)

lemma decode_terminates:
  assumes "json_decode_string bs out = (Some n, out')"
  shows "terminated out'" and "length out' = length out"
proof -
  show "terminated out'" using assms by (rule json_decode_string_SomeD) (simp add: memcpy_def)
  show "length out' = length out" using assms by (rule length_decoded)
qed

lemma find_field_str_ok:
  assumes "find_field_str json key out = (True, out')"
  shows "terminated out'" and "length out' = length out"
  using assms decode_terminates
  by (fastforce simp: find_field_str_def split: option.splits if_splits prod.splits)+

lemma digits_value_nonneg: "list_all is_digit ds \<Longrightarrow> 0 \<le> digits_value ds"
proof -
  have "list_all is_digit ds \<Longrightarrow> 0 \<le> n \<Longrightarrow> 0 \<le> foldl (\<lambda>n c. 10 * n + (uint c - 48)) n ds" for n
    by (induction ds arbitrary: n) (auto simp: is_digit_def word_le_def)
  then show "list_all is_digit ds \<Longrightarrow> 0 \<le> digits_value ds" by (simp add: digits_value_def)
qed

lemma list_all_takeWhile: "list_all P (takeWhile P xs)"
  by (induction xs) simp_all

lemma strtod_not_nan:
  assumes "strtod bs = Some d"
  shows "\<not> isnan d"
proof -
  define b1 where "b1 = (if bs \<noteq> [] \<and> (hd bs = MINUS \<or> hd bs = PLUS) then tl bs else bs)"
  define b2 where "b2 = dropWhile is_digit b1"
  define fb where "fb = (if b2 \<noteq> [] \<and> hd b2 = DOT
    then (takeWhile is_digit (tl b2), dropWhile is_digit (tl b2)) else ([], b2))"
  have "list_all is_digit (takeWhile is_digit b1 @ fst fb)"
    by (simp add: fb_def list_all_takeWhile)
  then have "0 \<le> digits_value (takeWhile is_digit b1 @ fst fb)" by (rule digits_value_nonneg)
  moreover have "\<exists>neg e. d = decimal_double neg (digits_value (takeWhile is_digit b1 @ fst fb)) e"
    using assms unfolding strtod_def Let_def b1_def [symmetric] b2_def [symmetric] fb_def [symmetric]
    by (cases fb) (simp only: prod.case fst_conv option.inject split: if_split_asm, blast+)
  ultimately show ?thesis using decimal_double_not_nan by auto
qed

lemma json_parse_number_not_nan: "json_parse_number bs = Some d \<Longrightarrow> \<not> isnan d"
  by (simp add: json_parse_number_def strtod_not_nan split: if_splits)

lemma find_field_num_not_nan: "find_field_num json key = Some d \<Longrightarrow> \<not> isnan d"
  by (auto simp: find_field_num_def json_parse_number_not_nan split: option.splits if_splits)

lemma hex_decode_length: "hex_decode hex n = Some bs \<Longrightarrow> length bs = n"
  by (auto simp: hex_decode_def dest!: hex_bytes_length split: if_splits)

text \<open>The invariant of the steps; \<open>c\<close> is what is known of the configuration text.\<close>

definition parsing :: "(bytes \<Rightarrow> bool) \<Rightarrow> obicall_manifest \<Rightarrow> bool" where
  "parsing c m \<longleftrightarrow> wf_arrays m \<and> c (mf_config_json m) \<and> mf_struct_size m = sizeof_manifest \<and> mf_language m \<le> OBICALL_LANG_PYTHON \<and>
     \<not> isnan (mf_preference_score m) \<and> mf_capability_flags m AND 31 = mf_capability_flags m \<and>
     mf_has_artifact_sha256 m \<le> 1 \<and> mf_dependency_count m = 0"

definition named :: "(bytes \<Rightarrow> bool) \<Rightarrow> obicall_manifest \<Rightarrow> bool" where
  "named c m \<longleftrightarrow> parsing c m \<and> mf_schema_version m = OBICALL_MANIFEST_SCHEMA_VERSION \<and> terminated (mf_name m)"

definition located :: "(bytes \<Rightarrow> bool) \<Rightarrow> obicall_manifest \<Rightarrow> bool" where
  "located c m \<longleftrightarrow> named c m \<and> terminated (mf_artifact_path m)"

lemmas parsing_defs = located_def named_def parsing_def wf_arrays_def

lemma parse_schema_version_keeps:
  "step_keeps (parsing c) (parse_schema_version json)
     (\<lambda>m. parsing c m \<and> mf_schema_version m = OBICALL_MANIFEST_SCHEMA_VERSION)"
  by (auto simp: step_keeps_def parse_schema_version_def parsing_defs Let_def split: option.splits if_splits)

lemma parse_name_keeps:
  "step_keeps (\<lambda>m. parsing c m \<and> mf_schema_version m = OBICALL_MANIFEST_SCHEMA_VERSION) (parse_name json) (named c)"
  by (auto simp: step_keeps_def parse_name_def parsing_defs find_field_str_ok split: prod.splits if_splits)

lemma parse_language_keeps: "step_keeps (named c) (parse_language json) (named c)"
  by (auto simp: step_keeps_def parse_language_def parsing_defs split: prod.splits if_splits)

lemma parse_numbers_keeps: "step_keeps (named c) (parse_numbers json) (named c)"
  by (auto simp: step_keeps_def parse_numbers_def parsing_defs find_field_num_not_nan not_isnan_zero split: option.splits)

lemma parse_artifact_keeps: "step_keeps (named c) (parse_artifact json) (located c)"
  by (auto simp: step_keeps_def parse_artifact_def parsing_defs find_field_str_ok split: prod.splits if_splits)

lemma parse_artifact_sha256_keeps: "step_keeps (located c) (parse_artifact_sha256 json) (located c)"
  by (auto simp: step_keeps_def parse_artifact_sha256_def parsing_defs hex_decode_length
        split: option.splits prod.splits if_splits)

lemma parse_config_schema_version_keeps: "step_keeps (located c) (parse_config_schema_version json) (located c)"
  by (auto simp: step_keeps_def parse_config_schema_version_def parsing_defs split: option.splits)

lemma element_flag_known: "element_flag arr i AND 31 = element_flag arr i"
  by (auto simp: element_flag_def capability_flag_from_name_def split: option.splits prod.splits)

lemma foldl_or_known:
  "a AND 31 = a \<Longrightarrow> foldl (\<lambda>flags i. flags OR element_flag arr i) a is AND 31 =
     foldl (\<lambda>flags i. flags OR element_flag arr i) a is"
  by (induction "is" arbitrary: a) (simp_all add: bit.conj_disj_distrib2 element_flag_known)

lemma parse_capability_flags_keeps: "step_keeps (located c) (parse_capability_flags json) (located c)"
  by (auto simp: step_keeps_def parse_capability_flags_def parsing_defs Let_def foldl_or_known split: option.splits if_splits)

lemma window_length: "js_off sp + js_len sp \<le> length bs \<Longrightarrow> length (window bs sp) = js_len sp"
  by (simp add: window_def)


lemma parse_config_keeps:
  "step_keeps (located (\<lambda>c. c = replicate 2048 0)) (parse_config json) (located terminated)"
proof (rule step_keepsI)
  fix x y assume x: "located (\<lambda>c. c = replicate 2048 0) x" and y: "parse_config json x = Inr y"
  then have y': "y = x\<lparr>mf_config_json := mf_config_json y\<rparr>"
    by (auto simp: parse_config_def Let_def split: option.splits if_splits)
  have "length (mf_config_json y) = 2048 \<and> terminated (mf_config_json y)"
  proof (cases "mf_config_json y = (mf_config_json x)[0 := LBRACE, 1 := RBRACE]")
    case True
    have "mf_config_json x = replicate 2048 0" using x by (simp add: parsing_defs)
    then have "length (mf_config_json y) = 2048" and "mf_config_json y ! 2 = 0" using True by simp_all
    then show ?thesis using nth_mem [of 2 "mf_config_json y"] by simp
  next
    case False
    then obtain sp where sp: "json_object_find json ''config'' = Some sp" "js_len sp < 2048"
      and eq: "mf_config_json y = memcpy (mf_config_json x) 0 (window json sp @ [0])"
      using y by (auto simp: parse_config_def Let_def split: option.splits if_splits)
    moreover have "length (mf_config_json x) = 2048" using x by (simp add: parsing_defs)
    moreover have "length (window json sp) \<le> js_len sp" by (simp add: window_def)
    ultimately show ?thesis by (simp add: memcpy_def)
  qed
  then show "located terminated y" using x by (subst y') (simp add: parsing_defs)
qed

definition filling :: "nat \<Rightarrow> obicall_manifest \<Rightarrow> bool" where
  "filling k m \<longleftrightarrow> located terminated (m\<lparr>mf_dependency_count := 0\<rparr>) \<and> mf_dependency_count m = k \<and>
     (\<forall>i < k. terminated (mf_dependencies m ! i))"

lemma parse_dependency_keeps:
  "i < 8 \<Longrightarrow> step_keeps (filling i) (parse_dependency arr i) (filling (Suc i))"
proof (rule step_keepsI)
  fix x y assume i: "i < 8" and x: "filling i x" and y: "parse_dependency arr i x = Inr y"
  let ?d = "mf_dependencies x ! i"
  have n: "mf_dependency_count x = i" using x by (simp add: filling_def)
  obtain k d where d: "json_decode_string (window arr (the (json_array_get arr i))) ?d = (Some k, d)"
    and yd: "y = x\<lparr>mf_dependencies := (mf_dependencies x)[i := d], mf_dependency_count := i + 1\<rparr>"
    using y unfolding parse_dependency_def Let_def n
    by (auto split: option.splits if_splits prod.splits)
  have len: "length (mf_dependencies x) = 8" "\<forall>d \<in> set (mf_dependencies x). length d = 64"
    using x by (simp_all add: filling_def parsing_defs)
  then have "length d = 64" using decode_terminates(2) [OF d] i by simp
  then have "\<forall>d \<in> set ((mf_dependencies x)[i := d]). length d = 64"
    using len(2) set_update_subset_insert [of "mf_dependencies x" i d] by blast
  then show "filling (Suc i) y" using x len i decode_terminates(1) [OF d] yd
    by (auto simp: filling_def parsing_defs nth_list_update less_Suc_eq)
qed

lemma parse_dependencies_keeps: "step_keeps (located terminated) (parse_dependencies json) wf_manifest"
proof (rule step_keepsI)
  fix x y assume x: "located terminated x" and y: "parse_dependencies json x = Inr y"
  have wf: "filling k m \<Longrightarrow> k \<le> 8 \<Longrightarrow> wf_manifest m" for k m
    by (auto simp: filling_def parsing_defs wf_manifest_def)
  have start: "filling 0 x" using x by (simp add: filling_def parsing_defs)
  show "wf_manifest y"
  proof (cases "y = x")
    case True
    then show ?thesis using wf [OF start] by simp
  next
    case False
    then obtain arr where n: "array_size arr \<le> 8"
      and run: "run_steps (map (parse_dependency arr) [0..<array_size arr]) x = Inr y"
      using y by (auto simp: parse_dependencies_def Let_def not_less split: option.splits if_splits)
    have "step_keeps (filling 0) (run_steps (map (parse_dependency arr) [0..<array_size arr]))
        (filling (array_size arr))"
      by (rule run_steps_all) (use n in \<open>auto intro!: parse_dependency_keeps\<close>)
    then have "filling (array_size arr) y" using start run by (rule step_keepsD)
    then show ?thesis using n by (rule wf)
  qed
qed

lemmas parse_steps_keep = run_steps_cons [OF parse_schema_version_keeps]
  run_steps_cons [OF parse_name_keeps] run_steps_cons [OF parse_language_keeps]
  run_steps_cons [OF parse_numbers_keeps] run_steps_cons [OF parse_artifact_keeps]
  run_steps_cons [OF parse_artifact_sha256_keeps] run_steps_cons [OF parse_config_schema_version_keeps]
  run_steps_cons [OF parse_capability_flags_keeps] run_steps_cons [OF parse_config_keeps]
  run_steps_cons [OF parse_dependencies_keeps run_steps_nil]

lemma parsed_manifest_wf:
  assumes "obicall_manifest_parse_json json out detail cap = (Inr m, detail')"
  shows "wf_manifest m"
proof -
  obtain js where run: "run_steps (parse_steps js) (zero_manifest\<lparr>mf_struct_size := sizeof_manifest\<rparr>) = Inr m"
    using assms by (auto simp: obicall_manifest_parse_json_def split: option.splits sum.splits)
  have "step_keeps (parsing (\<lambda>c. c = replicate 2048 0)) (run_steps (parse_steps js)) wf_manifest"
    unfolding parse_steps_def by (rule parse_steps_keep)+
  moreover have "parsing (\<lambda>c. c = replicate 2048 0) (zero_manifest\<lparr>mf_struct_size := sizeof_manifest\<rparr>)"
    by (simp add: parsing_defs zero_manifest_def not_isnan_zero)
  ultimately show ?thesis using run by (rule step_keepsD)
qed


section \<open>Well-formed sets\<close>

definition wf_manifest_set :: "obicall_manifest_set \<Rightarrow> bool" where
  "wf_manifest_set ms \<longleftrightarrow> length (ms_items ms) = OBICALL_MAX_MANIFESTS \<and> ms_count ms \<le> OBICALL_MAX_MANIFESTS \<and>
     (\<forall>i < ms_count ms. wf_manifest (ms_items ms ! i))"

lemma load_one_keeps:
  assumes "load_one_manifest_file files path ms detail cap = (Inr ms', detail')" and "wf_manifest_set ms"
  shows "wf_manifest_set ms' \<and> ms_count ms' = ms_count ms + 1"
  using assms parsed_manifest_wf
  by (auto simp: load_one_manifest_file_def wf_manifest_set_def Let_def nth_list_update less_Suc_eq
        split: option.splits if_splits sum.splits prod.splits)

text \<open>The names that the loop opens.\<close>

definition manifest_name :: "bytes \<Rightarrow> bytes \<Rightarrow> bool" where
  "manifest_name dir name \<longleftrightarrow> has_suffix name (ascii ''.manifest.json'') \<and> length (dir @ [0x2F] @ name) < 516"

lemma load_entries_wf:
  assumes "load_entries files dir names ms detail cap = (Inr ms', detail')" and "wf_manifest_set ms"
  shows "wf_manifest_set ms' \<and> ms_count ms' = ms_count ms + length (filter (manifest_name dir) names)"
  using assms
proof (induction names arbitrary: ms detail)
  case (Cons name names)
  show ?case
  proof (cases "manifest_name dir name")
    case True
    then obtain ms1 detail1 where one: "load_one_manifest_file files (dir @ [0x2F] @ name) ms detail cap = (Inr ms1, detail1)"
      and rest: "load_entries files dir names ms1 detail1 cap = (Inr ms', detail')"
      using Cons.prems(1) by (auto simp: manifest_name_def Let_def split: sum.splits prod.splits)
    show ?thesis
      using load_one_keeps [OF one Cons.prems(2)] Cons.IH [OF rest] True by simp
  next
    case False
    then show ?thesis using Cons by (auto simp: manifest_name_def Let_def)
  qed
qed simp

text \<open>
  C29: what \<^verbatim>\<open>obicall_manifest_load_dir\<close> returns is well formed. On success the set holds one manifest for
  every entry of the directory with the manifest suffix (and a path that fits), at most 64 of them, and each
  is what its consumers assume: schema version 1, terminated name, artifact path and configuration text, a
  known language, only the five known capability bits, a preference score that is a number (so that ranking
  compares scores totally), and at most 8 dependencies, each a terminated name.
\<close>

theorem manifests_well_formed:
  assumes "obicall_manifest_load_dir files opendir (Some dir) (Some out) detail cap = (Inr ms, detail')"
    and "opendir dir = Some names"
  shows "wf_manifest_set ms \<and> ms_count ms = length (filter (manifest_name dir) names)"
proof -
  have "load_entries files dir names zero_set detail cap = (Inr ms, detail')"
    using assms by (simp add: obicall_manifest_load_dir_def)
  moreover have "wf_manifest_set zero_set" by (simp add: wf_manifest_set_def zero_set_def)
  ultimately show ?thesis using load_entries_wf by (fastforce simp: zero_set_def)
qed

definition sample_manifest :: bytes where
  "sample_manifest = ascii ''{\"schema_version\":1,\"name\":\"a\",\"artifact_path\":\"x\"}''"

lemma sample_manifest_parses:
  "\<not> isl (fst (obicall_manifest_parse_json (Some sample_manifest) (Some m) None 0))"
proof -
  have "\<not> isl (fst (obicall_manifest_parse_json (Some sample_manifest) (Some zero_manifest) None 0))"
    by code_simp
  then show ?thesis by (simp add: obicall_manifest_parse_json_def)
qed

text \<open>
  The optional string fields are not covered: the result of decoding them is ignored, so a value that fills
  the array is stored without a terminator, and the manifest is accepted.
\<close>

definition long_architecture_manifest :: bytes where
  "long_architecture_manifest = ascii ''{\"schema_version\":1,\"name\":\"a\",\"architecture\":\"0123456789abcdef\",\"artifact_path\":\"x\"}''"

lemma architecture_unterminated:
  "case fst (obicall_manifest_parse_json (Some long_architecture_manifest) (Some zero_manifest) None 0) of
     Inl _ \<Rightarrow> False | Inr m \<Rightarrow> \<not> list_ex (\<lambda>c. c = 0) (mf_architecture m)"
  by code_simp

theorem manifests_well_formed_witness:
  "\<exists>ms detail. obicall_manifest_load_dir (\<lambda>_. Some sample_manifest) (\<lambda>_. Some [ascii ''a.manifest.json'', ascii ''b.so''])
      (Some (ascii ''p'')) (Some zero_set) None 0 = (Inr ms, detail) \<and>
     wf_manifest_set ms \<and> ms_count ms = 1"
proof -
  let ?names = "[ascii ''a.manifest.json'', ascii ''b.so'']"
  have names: "manifest_name (ascii ''p'') (ascii ''a.manifest.json'')" "\<not> manifest_name (ascii ''p'') (ascii ''b.so'')"
    by code_simp+
  have len: "length sample_manifest = 51" by (simp add: sample_manifest_def ascii_def)
  obtain m d where m: "obicall_manifest_parse_json (Some sample_manifest) (Some (ms_items zero_set ! 0)) None 0 = (Inr m, d)"
    using sample_manifest_parses [of "ms_items zero_set ! 0"] by (metis isl_def prod.collapse sum.collapse(2))
  have "\<exists>ms detail. obicall_manifest_load_dir (\<lambda>_. Some sample_manifest) (\<lambda>_. Some ?names)
      (Some (ascii ''p'')) (Some zero_set) None 0 = (Inr ms, detail)"
    using names m len
    by (auto simp: obicall_manifest_load_dir_def manifest_name_def load_one_manifest_file_def Let_def zero_set_def)
  then obtain ms detail where "obicall_manifest_load_dir (\<lambda>_. Some sample_manifest) (\<lambda>_. Some ?names)
      (Some (ascii ''p'')) (Some zero_set) None 0 = (Inr ms, detail)" by blast
  then show ?thesis using manifests_well_formed [of _ _ _ _ _ _ ms detail ?names] names by fastforce
qed

end
