(* ===== verification/Resolve.thy ===== *)
theory Resolve
  imports Manifest "HOL-Library.While_Combinator" "HOL-Library.List_Lexorder"
begin

text \<open>
  \<^verbatim>\<open>src/core/manifest.c\<close>, second half: the load order of the requested providers and their dependencies
  (a worklist closure, then Kahn's algorithm) and the ranking of the alternatives of a capability slot. The
  two loops of the resolver are \<^const>\<open>while_option\<close> iterations, whose value is \<open>None\<close> when they do not end;
  that they end is a theorem. The laws: a plan is a duplicate-free, dependency-closed topological order of
  exactly what was requested; a plan is found exactly when nothing is missing, nothing is cyclic and no
  dependency is listed twice; and ranking sorts exactly the eligible alternatives.
\<close>

section \<open>The transitive closure\<close>

abbreviation item :: "obicall_manifest_set \<Rightarrow> nat \<Rightarrow> obicall_manifest" where
  "item ms i \<equiv> ms_items ms ! i"

definition has_name :: "obicall_manifest_set \<Rightarrow> bytes \<Rightarrow> nat \<Rightarrow> bool" where
  "has_name ms name i \<longleftrightarrow> streq (mf_name (item ms i)) name"

definition find_by_name :: "obicall_manifest_set \<Rightarrow> bytes \<Rightarrow> nat option" where
  "find_by_name ms name = List.find (has_name ms name) [0..<ms_count ms]"

text \<open>\<^verbatim>\<open>m->dependencies[d]\<close> for \<^verbatim>\<open>d < m->dependency_count\<close>.\<close>

definition dep_names :: "obicall_manifest_set \<Rightarrow> nat \<Rightarrow> bytes list" where
  "dep_names ms i = map (nth (mf_dependencies (item ms i))) [0..<mf_dependency_count (item ms i)]"

text \<open>
  The state of the two closure loops: the marks \<^verbatim>\<open>needed[]\<close> as the set of marked indices, the stack with
  its top first, the counter, and the name at which the function returns early.
\<close>

record closure =
  cl_needed :: "nat set"
  cl_stack :: "nat list"
  cl_needed_count :: nat
  cl_missing :: "bytes option"

definition mark :: "nat \<Rightarrow> closure \<Rightarrow> closure" where
  "mark idx c =
     (if idx \<in> cl_needed c then c
      else c\<lparr>cl_needed := insert idx (cl_needed c), cl_needed_count := cl_needed_count c + 1,
             cl_stack := idx # cl_stack c\<rparr>)"

primrec mark_names :: "obicall_manifest_set \<Rightarrow> bytes list \<Rightarrow> closure \<Rightarrow> closure" where
  "mark_names ms [] c = c"
| "mark_names ms (name # names) c =
     (case find_by_name ms name of
        None \<Rightarrow> c\<lparr>cl_missing := Some name\<rparr>
      | Some idx \<Rightarrow> mark_names ms names (mark idx c))"

definition closure_start :: closure where
  "closure_start = \<lparr>cl_needed = {}, cl_stack = [], cl_needed_count = 0, cl_missing = None\<rparr>"

definition closure_running :: "closure \<Rightarrow> bool" where
  "closure_running c \<longleftrightarrow> cl_missing c = None \<and> cl_stack c \<noteq> []"

definition closure_step :: "obicall_manifest_set \<Rightarrow> closure \<Rightarrow> closure" where
  "closure_step ms c =
     mark_names ms (dep_names ms (hd (cl_stack c))) (c\<lparr>cl_stack := tl (cl_stack c)\<rparr>)"

section \<open>Kahn's algorithm\<close>

text \<open>
  \<^verbatim>\<open>queue[qi..qn)\<close> is \<open>kn_pending\<close>; what has left the queue is \<^verbatim>\<open>order[0..order_n)\<close>.
\<close>

record kahn =
  kn_indegree :: "nat list"
  kn_pending :: "nat list"
  kn_order :: "nat list"

definition depends_on :: "obicall_manifest_set \<Rightarrow> nat \<Rightarrow> nat \<Rightarrow> bool" where
  "depends_on ms j i = list_ex (\<lambda>dep. streq dep (mf_name (item ms i))) (dep_names ms j)"

definition initial_indegree :: "obicall_manifest_set \<Rightarrow> nat set \<Rightarrow> nat \<Rightarrow> nat" where
  "initial_indegree ms needed i = (if i \<in> needed then mf_dependency_count (item ms i) else 0)"

definition initially_ready :: "obicall_manifest_set \<Rightarrow> nat set \<Rightarrow> nat \<Rightarrow> bool" where
  "initially_ready ms needed i \<longleftrightarrow> i \<in> needed \<and> initial_indegree ms needed i = 0"

definition kahn_start :: "obicall_manifest_set \<Rightarrow> nat set \<Rightarrow> kahn" where
  "kahn_start ms needed =
     \<lparr>kn_indegree = map (initial_indegree ms needed) [0..<ms_count ms],
      kn_pending = filter (initially_ready ms needed) [0..<ms_count ms], kn_order = []\<rparr>"

text \<open>The body of the inner loop: \<open>i\<close> has been ordered, \<open>j\<close> may have waited for it.\<close>

definition release :: "obicall_manifest_set \<Rightarrow> nat set \<Rightarrow> nat \<Rightarrow> kahn \<Rightarrow> nat \<Rightarrow> kahn" where
  "release ms needed i k j =
     (if j \<notin> needed \<or> kn_indegree k ! j = 0 \<or> \<not> depends_on ms j i then k
      else k\<lparr>kn_indegree := (kn_indegree k)[j := kn_indegree k ! j - 1],
             kn_pending := (if kn_indegree k ! j - 1 = 0 then kn_pending k @ [j] else kn_pending k)\<rparr>)"

definition kahn_step :: "obicall_manifest_set \<Rightarrow> nat set \<Rightarrow> kahn \<Rightarrow> kahn" where
  "kahn_step ms needed k =
     (let i = hd (kn_pending k)
      in foldl (release ms needed i)
           (k\<lparr>kn_pending := tl (kn_pending k), kn_order := kn_order k @ [i]\<rparr>) [0..<ms_count ms])"

definition kahn_running :: "kahn \<Rightarrow> bool" where
  "kahn_running k \<longleftrightarrow> kn_pending k \<noteq> []"

text \<open>
  The names in the message of a cycle: \<^verbatim>\<open>snprintf\<close> appends \<^verbatim>\<open>"%s "\<close> while there is room, so the text is
  cut at 255 characters.
\<close>

definition blocked :: "nat set \<Rightarrow> kahn \<Rightarrow> nat \<Rightarrow> bool" where
  "blocked needed k i \<longleftrightarrow> i \<in> needed \<and> kn_indegree k ! i > 0"

definition spaced_name :: "obicall_manifest_set \<Rightarrow> nat \<Rightarrow> bytes" where
  "spaced_name ms i = cstring (mf_name (item ms i)) @ [0x20]"

definition cycle_names :: "obicall_manifest_set \<Rightarrow> nat set \<Rightarrow> kahn \<Rightarrow> bytes" where
  "cycle_names ms needed k =
     take 255 (concat (map (spaced_name ms) (filter (blocked needed k) [0..<ms_count ms])))"

section \<open>Resolution\<close>

record obicall_resolution_plan =
  rp_count :: nat
  rp_order :: "nat list"

definition obicall_manifest_resolve ::
  "obicall_manifest_set option \<Rightarrow> bytes list option \<Rightarrow> obicall_resolution_plan option \<Rightarrow> bytes option \<Rightarrow> u32 \<Rightarrow>
   (obicall_resolution_plan res \<times> bytes option) option" where
  "obicall_manifest_resolve set_ptr requested_names out_plan detail cap =
     (case (set_ptr, requested_names, out_plan) of
        (Some ms, Some requested, Some _) \<Rightarrow>
          (let c = mark_names ms requested closure_start in
           case cl_missing c of
             Some name \<Rightarrow> Some (Inl OBICALL_ERR_DEPENDENCY_MISSING,
               set_issue detail cap (Some (ascii ''requested provider not found: '' @ cstring name)))
           | None \<Rightarrow>
          (case while_option closure_running (closure_step ms) c of
             None \<Rightarrow> None
           | Some c \<Rightarrow>
          (case cl_missing c of
             Some name \<Rightarrow> Some (Inl OBICALL_ERR_DEPENDENCY_MISSING,
               set_issue detail cap (Some (ascii ''missing mandatory dependency: '' @ cstring name)))
           | None \<Rightarrow>
          (case while_option kahn_running (kahn_step ms (cl_needed c)) (kahn_start ms (cl_needed c)) of
             None \<Rightarrow> None
           | Some k \<Rightarrow>
               if length (kn_order k) \<noteq> cl_needed_count c
               then Some (Inl OBICALL_ERR_DEPENDENCY_CYCLE,
                 set_issue detail cap (Some (ascii ''dependency cycle among: '' @ cycle_names ms (cl_needed c) k)))
               else Some (Inr \<lparr>rp_count = length (kn_order k),
                   rp_order = memcpy (replicate 64 0) 0 (kn_order k)\<rparr>, detail)))))
      | _ \<Rightarrow> Some (Inl OBICALL_ERR_NULL_POINTER, detail))"

section \<open>The closure loops\<close>

lemma find_by_name_cong: "cstring a = cstring b \<Longrightarrow> find_by_name ms a = find_by_name ms b"
proof -
  assume "cstring a = cstring b"
  then have "has_name ms a = has_name ms b" by (simp add: fun_eq_iff has_name_def streq_def)
  then show ?thesis by (simp add: find_by_name_def)
qed

lemma find_by_name_SomeD:
  assumes "find_by_name ms name = Some i"
  shows "i < ms_count ms" and "cstring (mf_name (item ms i)) = cstring name"
    and "find_by_name ms (mf_name (item ms i)) = Some i"
proof -
  show "i < ms_count ms" and eq: "cstring (mf_name (item ms i)) = cstring name"
    using find_upt_Some [of "has_name ms name" "ms_count ms" i] assms
    by (auto simp: find_by_name_def has_name_def streq_def)
  show "find_by_name ms (mf_name (item ms i)) = Some i"
    using assms find_by_name_cong [OF eq] by simp
qed

text \<open>What the request requires: the specification of the closure.\<close>

inductive required :: "obicall_manifest_set \<Rightarrow> bytes list \<Rightarrow> nat \<Rightarrow> bool" for ms req where
  requested: "name \<in> set req \<Longrightarrow> find_by_name ms name = Some i \<Longrightarrow> required ms req i"
| dependency: "required ms req i \<Longrightarrow> name \<in> set (dep_names ms i) \<Longrightarrow> find_by_name ms name = Some k \<Longrightarrow>
    required ms req k"

definition absent :: "obicall_manifest_set \<Rightarrow> bytes list \<Rightarrow> bytes \<Rightarrow> bool" where
  "absent ms req name \<longleftrightarrow> find_by_name ms name = None \<and>
     (name \<in> set req \<or> (\<exists>i. required ms req i \<and> name \<in> set (dep_names ms i)))"

definition closure_inv :: "obicall_manifest_set \<Rightarrow> bytes list \<Rightarrow> closure \<Rightarrow> bool" where
  "closure_inv ms req c \<longleftrightarrow> cl_needed c \<subseteq> {..<ms_count ms} \<and> cl_needed_count c = card (cl_needed c) \<and>
     distinct (cl_stack c) \<and> set (cl_stack c) \<subseteq> cl_needed c \<and>
     (\<forall>i \<in> cl_needed c. required ms req i) \<and> (\<forall>name. cl_missing c = Some name \<longrightarrow> absent ms req name)"

lemma closure_inv_finite: "closure_inv ms req c \<Longrightarrow> finite (cl_needed c)"
  unfolding closure_inv_def using finite_subset by blast

lemma mark_inv:
  assumes "closure_inv ms req c" and "i < ms_count ms" and "required ms req i"
  shows "closure_inv ms req (mark i c)"
  using assms closure_inv_finite [OF assms(1)] by (auto simp: closure_inv_def mark_def)

lemma mark_names_inv:
  assumes "closure_inv ms req c"
    and "\<And>name i. name \<in> set names \<Longrightarrow> find_by_name ms name = Some i \<Longrightarrow> required ms req i"
    and "\<And>name. name \<in> set names \<Longrightarrow> find_by_name ms name = None \<Longrightarrow> absent ms req name"
  shows "closure_inv ms req (mark_names ms names c)"
  using assms
proof (induction names arbitrary: c)
  case (Cons name names)
  show ?case
  proof (cases "find_by_name ms name")
    case None
    then show ?thesis using Cons.prems(1,3) by (simp add: closure_inv_def)
  next
    case (Some i)
    have "closure_inv ms req (mark i c)"
      using Cons.prems(1,2) Some find_by_name_SomeD(1) [OF Some] by (auto intro!: mark_inv)
    then have "closure_inv ms req (mark_names ms names (mark i c))"
      by (rule Cons.IH) (auto intro: Cons.prems(2,3))
    then show ?thesis using Some by simp
  qed
qed simp

text \<open>Without a missing name, every name is marked, and what is new is on the stack.\<close>

lemma mark_names_marks:
  assumes "cl_missing (mark_names ms names c) = None"
  shows "cl_needed c \<subseteq> cl_needed (mark_names ms names c)"
    and "\<forall>name \<in> set names. \<exists>k \<in> cl_needed (mark_names ms names c). find_by_name ms name = Some k"
    and "cl_needed (mark_names ms names c) - set (cl_stack (mark_names ms names c)) \<subseteq>
      cl_needed c - set (cl_stack c)"
proof -
  let ?goal = "\<lambda>names c. cl_needed c \<subseteq> cl_needed (mark_names ms names c) \<and>
    (\<forall>name \<in> set names. \<exists>k \<in> cl_needed (mark_names ms names c). find_by_name ms name = Some k) \<and>
    cl_needed (mark_names ms names c) - set (cl_stack (mark_names ms names c)) \<subseteq> cl_needed c - set (cl_stack c)"
  have "?goal names c"
    using assms
  proof (induction names arbitrary: c)
    case (Cons name names)
    then obtain i where i: "find_by_name ms name = Some i" by (cases "find_by_name ms name") simp_all
    then have goal: "?goal names (mark i c)" using Cons by simp
    have "i \<in> cl_needed (mark i c)" "cl_needed c \<subseteq> cl_needed (mark i c)"
      and "cl_needed (mark i c) - set (cl_stack (mark i c)) \<subseteq> cl_needed c - set (cl_stack c)"
      by (auto simp: mark_def)
    then show ?case using goal i by auto
  qed simp
  then show "cl_needed c \<subseteq> cl_needed (mark_names ms names c)"
    and "\<forall>name \<in> set names. \<exists>k \<in> cl_needed (mark_names ms names c). find_by_name ms name = Some k"
    and "cl_needed (mark_names ms names c) - set (cl_stack (mark_names ms names c)) \<subseteq>
      cl_needed c - set (cl_stack c)" by blast+
qed

text \<open>Every new mark costs two of what is left to mark and puts one on the stack.\<close>

definition closure_measure :: "obicall_manifest_set \<Rightarrow> closure \<Rightarrow> nat" where
  "closure_measure ms c = 2 * card ({..<ms_count ms} - cl_needed c) + length (cl_stack c)"

lemma mark_measure: "i < ms_count ms \<Longrightarrow> closure_measure ms (mark i c) \<le> closure_measure ms c"
proof (cases "i \<in> cl_needed c")
  case False
  assume "i < ms_count ms"
  then have "card ({..<ms_count ms} - insert i (cl_needed c)) < card ({..<ms_count ms} - cl_needed c)"
    using False by (intro psubset_card_mono) auto
  then show ?thesis using False by (simp add: closure_measure_def mark_def)
qed (simp add: mark_def)

lemma mark_names_measure: "closure_measure ms (mark_names ms names c) \<le> closure_measure ms c"
proof (induction names arbitrary: c)
  case (Cons name names)
  show ?case
  proof (cases "find_by_name ms name")
    case (Some i)
    then show ?thesis using Cons [of "mark i c"] mark_measure [of i ms c] find_by_name_SomeD(1) [OF Some] by simp
  qed (simp add: closure_measure_def)
qed simp

lemma closure_step_measure:
  assumes "closure_running c"
  shows "closure_measure ms (closure_step ms c) < closure_measure ms c"
proof -
  have "closure_measure ms (c\<lparr>cl_stack := tl (cl_stack c)\<rparr>) < closure_measure ms c"
    using assms by (simp add: closure_measure_def closure_running_def)
  then show ?thesis unfolding closure_step_def by (rule le_less_trans [OF mark_names_measure])
qed

lemma closure_returns: "\<exists>c'. while_option closure_running (closure_step ms) c = Some c'"
  by (rule measure_while_option_Some [where P = "\<lambda>_. True" and f = "closure_measure ms"])
    (simp_all add: closure_step_measure)

text \<open>What the two loops end with.\<close>

definition closure_of :: "obicall_manifest_set \<Rightarrow> bytes list \<Rightarrow> closure" where
  "closure_of ms req = the (while_option closure_running (closure_step ms) (mark_names ms req closure_start))"

lemma start_inv: "closure_inv ms req (mark_names ms req closure_start)"
  by (rule mark_names_inv)
    (auto simp: closure_inv_def closure_start_def absent_def intro: required.requested)

lemma closure_step_inv:
  assumes "closure_inv ms req c" and "closure_running c"
  shows "closure_inv ms req (closure_step ms c)"
proof -
  obtain i stack where st: "cl_stack c = i # stack" using assms(2) by (cases "cl_stack c") (auto simp: closure_running_def)
  have req: "required ms req i" using assms(1) st by (auto simp: closure_inv_def)
  have "closure_inv ms req (c\<lparr>cl_stack := stack\<rparr>)" using assms(1) st by (auto simp: closure_inv_def)
  then show ?thesis unfolding closure_step_def st list.sel
    by (rule mark_names_inv) (use req in \<open>auto simp: absent_def intro: required.dependency\<close>)
qed

text \<open>While no name is missing, what is marked and not on the stack has its dependencies marked.\<close>

definition closed_inv :: "obicall_manifest_set \<Rightarrow> bytes list \<Rightarrow> closure \<Rightarrow> bool" where
  "closed_inv ms req c \<longleftrightarrow> (cl_missing c = None \<longrightarrow>
     (\<forall>name \<in> set req. \<exists>k \<in> cl_needed c. find_by_name ms name = Some k) \<and>
     (\<forall>i \<in> cl_needed c - set (cl_stack c). \<forall>name \<in> set (dep_names ms i).
        \<exists>k \<in> cl_needed c. find_by_name ms name = Some k))"

lemma start_closed: "closed_inv ms req (mark_names ms req closure_start)"
  using mark_names_marks [of ms req closure_start]
  by (auto simp: closed_inv_def closure_start_def)

lemma closure_step_closed:
  assumes "closed_inv ms req c" and "closure_running c"
  shows "closed_inv ms req (closure_step ms c)"
proof -
  obtain i stack where st: "cl_stack c = i # stack" and none: "cl_missing c = None"
    using assms(2) by (cases "cl_stack c") (auto simp: closure_running_def)
  let ?c = "c\<lparr>cl_stack := stack\<rparr>"
  let ?c' = "mark_names ms (dep_names ms i) ?c"
  have "closed_inv ms req ?c'"
    unfolding closed_inv_def
  proof (intro impI conjI ballI)
    assume m: "cl_missing ?c' = None"
    note marks = mark_names_marks [OF m]
    show "\<exists>k \<in> cl_needed ?c'. find_by_name ms name = Some k" if "name \<in> set req" for name
      using assms(1) none that marks(1) by (fastforce simp: closed_inv_def)
    fix j name
    assume j: "j \<in> cl_needed ?c' - set (cl_stack ?c')" and name: "name \<in> set (dep_names ms j)"
    show "\<exists>k \<in> cl_needed ?c'. find_by_name ms name = Some k"
    proof (cases "j = i")
      case True
      then show ?thesis using marks(2) name by blast
    next
      case False
      then have "j \<in> cl_needed c - set (cl_stack c)" using j marks(3) st by auto
      then show ?thesis using assms(1) none name marks(1) by (fastforce simp: closed_inv_def)
    qed
  qed
  then show ?thesis by (simp add: closure_step_def st)
qed

lemma closure_of:
  assumes "c = closure_of ms req"
  shows "while_option closure_running (closure_step ms) (mark_names ms req closure_start) = Some c"
    and "closure_inv ms req c" and "closed_inv ms req c" and "\<not> closure_running c"
proof -
  show w: "while_option closure_running (closure_step ms) (mark_names ms req closure_start) = Some c"
    using closure_returns [of ms "mark_names ms req closure_start"] assms by (auto simp: closure_of_def)
  show "closure_inv ms req c"
    by (rule while_option_rule [OF _ w]) (auto simp: start_inv closure_step_inv)
  show "closed_inv ms req c"
    by (rule while_option_rule [OF _ w]) (auto simp: start_closed closure_step_closed)
  show "\<not> closure_running c" using while_option_stop [OF w] .
qed

text \<open>
  A name is reported exactly when one is absent; otherwise exactly what is required has been marked.
\<close>

lemma closure_of_complete:
  assumes "cl_missing (closure_of ms req) = None"
  shows "cl_needed (closure_of ms req) = {i. required ms req i}" and "\<not> absent ms req name"
proof -
  let ?c = "closure_of ms req"
  have st: "cl_stack ?c = []" using closure_of(4) [OF refl, of ms req] assms by (auto simp: closure_running_def)
  have closed: "\<forall>name \<in> set req. \<exists>k \<in> cl_needed ?c. find_by_name ms name = Some k"
    "\<forall>i \<in> cl_needed ?c. \<forall>name \<in> set (dep_names ms i). \<exists>k \<in> cl_needed ?c. find_by_name ms name = Some k"
    using closure_of(3) [OF refl, of ms req] assms st by (auto simp: closed_inv_def)
  have "i \<in> cl_needed ?c" if "required ms req i" for i
    using that by induction (use closed in fastforce)+
  moreover have "required ms req i" if "i \<in> cl_needed ?c" for i
    using closure_of(2) [OF refl, of ms req] that by (simp add: closure_inv_def)
  ultimately show eq: "cl_needed ?c = {i. required ms req i}" by blast
  show "\<not> absent ms req name" using closed eq by (fastforce simp: absent_def)
qed

lemma closure_of_missing:
  "cl_missing (closure_of ms req) = Some name \<Longrightarrow> absent ms req name"
  using closure_of(2) [OF refl, of ms req] by (simp add: closure_inv_def)

section \<open>Kahn's algorithm orders what can be ordered\<close>

text \<open>The inner loop as one update: every needed waiting dependent is decremented, and queued at zero.\<close>

definition waits :: "obicall_manifest_set \<Rightarrow> nat set \<Rightarrow> nat \<Rightarrow> kahn \<Rightarrow> nat \<Rightarrow> bool" where
  "waits ms needed i k j \<longleftrightarrow> j \<in> needed \<and> kn_indegree k ! j \<noteq> 0 \<and> depends_on ms j i"

lemma release_parts [simp]:
  "kn_order (release ms needed i k j) = kn_order k"
  "length (kn_indegree (release ms needed i k j)) = length (kn_indegree k)"
  "kn_pending (release ms needed i k j) =
     kn_pending k @ filter (\<lambda>l. waits ms needed i k l \<and> kn_indegree k ! l = 1) [j]"
  "j < length (kn_indegree k) \<Longrightarrow> kn_indegree (release ms needed i k j) ! l =
     (if l = j \<and> waits ms needed i k l then kn_indegree k ! l - 1 else kn_indegree k ! l)"
  by (auto simp: release_def waits_def nth_list_update)

lemma release_foldl:
  assumes "distinct js" and "set js \<subseteq> {..<length (kn_indegree k)}"
    and "k' = foldl (release ms needed i) k js"
  shows "kn_order k' = kn_order k" and "length (kn_indegree k') = length (kn_indegree k)"
    and "kn_pending k' = kn_pending k @ filter (\<lambda>j. waits ms needed i k j \<and> kn_indegree k ! j = 1) js"
    and "\<forall>l. kn_indegree k' ! l =
      (if l \<in> set js \<and> waits ms needed i k l then kn_indegree k ! l - 1 else kn_indegree k ! l)"
proof -
  let ?goal = "\<lambda>k js k'. kn_order k' = kn_order k \<and> length (kn_indegree k') = length (kn_indegree k) \<and>
    kn_pending k' = kn_pending k @ filter (\<lambda>j. waits ms needed i k j \<and> kn_indegree k ! j = 1) js \<and>
    (\<forall>l. kn_indegree k' ! l =
      (if l \<in> set js \<and> waits ms needed i k l then kn_indegree k ! l - 1 else kn_indegree k ! l))"
  have "?goal k js (foldl (release ms needed i) k js)"
    using assms(1,2)
  proof (induction js arbitrary: k)
    case (Cons j js)
    let ?k = "release ms needed i k j"
    have j: "j < length (kn_indegree k)" "j \<notin> set js" using Cons.prems by auto
    have same: "waits ms needed i ?k l = waits ms needed i k l" "kn_indegree ?k ! l = kn_indegree k ! l"
      if "l \<noteq> j" for l
      using that j(1) by (auto simp: waits_def)
    have "filter (\<lambda>l. waits ms needed i ?k l \<and> kn_indegree ?k ! l = 1) js =
        filter (\<lambda>l. waits ms needed i k l \<and> kn_indegree k ! l = 1) js"
    proof (rule filter_cong)
      fix l assume "l \<in> set js"
      then have "l \<noteq> j" using j(2) by blast
      then show "(waits ms needed i ?k l \<and> kn_indegree ?k ! l = 1) = (waits ms needed i k l \<and> kn_indegree k ! l = 1)"
        using same by simp
    qed simp
    moreover have "?goal ?k js (foldl (release ms needed i) ?k js)" using Cons by simp
    ultimately show ?case using same j by auto
  qed simp
  then show "kn_order k' = kn_order k" and "length (kn_indegree k') = length (kn_indegree k)"
    and "kn_pending k' = kn_pending k @ filter (\<lambda>j. waits ms needed i k j \<and> kn_indegree k ! j = 1) js"
    and "\<forall>l. kn_indegree k' ! l =
      (if l \<in> set js \<and> waits ms needed i k l then kn_indegree k ! l - 1 else kn_indegree k ! l)"
    using assms(3) by blast+
qed

lemma kahn_step_parts:
  assumes "kn_pending k = i # pending" and "length (kn_indegree k) = ms_count ms"
  shows "kn_order (kahn_step ms needed k) = kn_order k @ [i]"
    and "length (kn_indegree (kahn_step ms needed k)) = ms_count ms"
    and "kn_pending (kahn_step ms needed k) =
      pending @ filter (\<lambda>j. waits ms needed i k j \<and> kn_indegree k ! j = 1) [0..<ms_count ms]"
    and "kn_indegree (kahn_step ms needed k) ! j =
      (if j < ms_count ms \<and> waits ms needed i k j then kn_indegree k ! j - 1 else kn_indegree k ! j)"
proof -
  let ?k = "k\<lparr>kn_pending := pending, kn_order := kn_order k @ [i]\<rparr>"
  have "kahn_step ms needed k = foldl (release ms needed i) ?k [0..<ms_count ms]"
    using assms by (simp add: kahn_step_def)
  moreover have "waits ms needed i ?k = waits ms needed i k" by (simp add: fun_eq_iff waits_def)
  moreover have "set [0..<ms_count ms] \<subseteq> {..<length (kn_indegree ?k)}" using assms(2) by auto
  ultimately show "kn_order (kahn_step ms needed k) = kn_order k @ [i]"
    and "length (kn_indegree (kahn_step ms needed k)) = ms_count ms"
    and "kn_pending (kahn_step ms needed k) =
      pending @ filter (\<lambda>j. waits ms needed i k j \<and> kn_indegree k ! j = 1) [0..<ms_count ms]"
    and "kn_indegree (kahn_step ms needed k) ! j =
      (if j < ms_count ms \<and> waits ms needed i k j then kn_indegree k ! j - 1 else kn_indegree k ! j)"
    using release_foldl [of "[0..<ms_count ms]" ?k _ ms needed i] assms(2) by simp_all
qed

definition kahn_measure :: "obicall_manifest_set \<Rightarrow> kahn \<Rightarrow> nat" where
  "kahn_measure ms k = card {j. j < ms_count ms \<and> kn_indegree k ! j \<noteq> 0} + length (kn_pending k)"

lemma kahn_step_measure:
  assumes "length (kn_indegree k) = ms_count ms" and "kahn_running k"
  shows "length (kn_indegree (kahn_step ms needed k)) = ms_count ms \<and>
    kahn_measure ms (kahn_step ms needed k) < kahn_measure ms k"
proof -
  obtain i pending where p: "kn_pending k = i # pending" using assms by (cases "kn_pending k") (auto simp: kahn_running_def)
  note parts = kahn_step_parts [OF p assms(1), of needed]
  let ?released = "filter (\<lambda>j. waits ms needed i k j \<and> kn_indegree k ! j = 1) [0..<ms_count ms]"
  let ?k = "kahn_step ms needed k"
  have "{j. j < ms_count ms \<and> kn_indegree k ! j \<noteq> 0} =
      {j. j < ms_count ms \<and> kn_indegree ?k ! j \<noteq> 0} \<union> set ?released"
    by (auto simp: parts waits_def)
  moreover have "{j. j < ms_count ms \<and> kn_indegree ?k ! j \<noteq> 0} \<inter> set ?released = {}"
    by (auto simp: parts)
  ultimately have "card {j. j < ms_count ms \<and> kn_indegree k ! j \<noteq> 0} =
      card {j. j < ms_count ms \<and> kn_indegree ?k ! j \<noteq> 0} + card (set ?released)"
    by (simp add: card_Un_disjoint)
  moreover have "card (set ?released) = length ?released" by (rule distinct_card) simp
  ultimately show ?thesis by (simp add: kahn_measure_def p parts)
qed

lemma kahn_returns: "\<exists>k'. while_option kahn_running (kahn_step ms needed) (kahn_start ms needed) = Some k'"
  by (rule measure_while_option_Some [where P = "\<lambda>k. length (kn_indegree k) = ms_count ms" and f = "kahn_measure ms"])
    (simp_all add: kahn_step_measure kahn_start_def)

text \<open>
  The needed providers have different names, so at most as many of them are dependencies of one provider
  as it lists names, and if as many are, then every name it lists is among them.
\<close>

definition named_apart :: "obicall_manifest_set \<Rightarrow> nat set \<Rightarrow> bool" where
  "named_apart ms needed \<longleftrightarrow> (\<forall>i \<in> needed. i < ms_count ms \<and> find_by_name ms (mf_name (item ms i)) = Some i)"

definition dep_set :: "obicall_manifest_set \<Rightarrow> nat \<Rightarrow> bytes set" where
  "dep_set ms j = cstring ` set (dep_names ms j)"

lemma depends_on_iff: "depends_on ms j i \<longleftrightarrow> cstring (mf_name (item ms i)) \<in> dep_set ms j"
  unfolding depends_on_def dep_set_def streq_def list_ex_iff image_iff by metis

lemma finite_dep_set [simp]: "finite (dep_set ms j)" and card_dep_set: "card (dep_set ms j) \<le> length (dep_names ms j)"
  using card_length [of "map cstring (dep_names ms j)"] by (simp_all add: dep_set_def)

lemma length_dep_names: "length (dep_names ms j) = mf_dependency_count (item ms j)"
  by (simp add: dep_names_def)

lemma named_apart_inj:
  assumes "named_apart ms needed"
  shows "inj_on (\<lambda>i. cstring (mf_name (item ms i))) needed"
proof (rule inj_onI)
  fix a b assume "a \<in> needed" "b \<in> needed" "cstring (mf_name (item ms a)) = cstring (mf_name (item ms b))"
  then have "Some a = Some b" using assms find_by_name_cong unfolding named_apart_def by metis
  then show "a = b" by simp
qed

lemma card_dependencies:
  assumes "named_apart ms needed" and "A \<subseteq> needed"
  shows "card {i \<in> A. depends_on ms j i} \<le> card (dep_set ms j)"
    and "card {i \<in> A. depends_on ms j i} = card (dep_set ms j) \<Longrightarrow> name \<in> set (dep_names ms j) \<Longrightarrow>
      \<exists>i \<in> A. find_by_name ms name = Some i"
proof -
  let ?D = "{i \<in> A. depends_on ms j i}"
  let ?f = "\<lambda>i. cstring (mf_name (item ms i))"
  have inj: "inj_on ?f ?D" using named_apart_inj [OF assms(1)] by (rule inj_on_subset) (use assms(2) in blast)
  have sub: "?f ` ?D \<subseteq> dep_set ms j" by (auto simp: depends_on_iff)
  have card: "card (?f ` ?D) = card ?D" using inj by (rule card_image)
  show "card ?D \<le> card (dep_set ms j)" using card_mono [OF finite_dep_set sub] card by simp
  show "\<exists>i \<in> A. find_by_name ms name = Some i" 
    if full: "card ?D = card (dep_set ms j)" and name: "name \<in> set (dep_names ms j)"
  proof -
    have "?f ` ?D = dep_set ms j" using card_subset_eq [OF finite_dep_set sub] card full by simp
    moreover have "cstring name \<in> dep_set ms j" using name by (simp add: dep_set_def)
    ultimately have "cstring name \<in> ?f ` ?D" by (simp only:)
    then obtain i where i: "i \<in> A" "?f i = cstring name" by auto
    have "i \<in> needed" using i(1) assms(2) by blast
    then have "find_by_name ms (mf_name (item ms i)) = Some i" using assms(1) by (simp add: named_apart_def)
    then have "find_by_name ms name = Some i" using find_by_name_cong [OF i(2), of ms] by simp
    then show ?thesis using i(1) by blast
  qed
qed

text \<open>
  The invariant of the queue loop. What is needed and has left the waiting state is ordered or queued; a
  provider waits for as many dependencies as it lists and are not ordered yet; and everything ordered has
  its dependencies before it.
\<close>

definition kahn_inv :: "obicall_manifest_set \<Rightarrow> nat set \<Rightarrow> kahn \<Rightarrow> bool" where
  "kahn_inv ms needed k \<longleftrightarrow>
     distinct (kn_order k @ kn_pending k) \<and> set (kn_order k @ kn_pending k) \<subseteq> needed \<and>
     length (kn_indegree k) = ms_count ms \<and>
     (\<forall>j \<in> needed. kn_indegree k ! j + card {i \<in> set (kn_order k). depends_on ms j i} = length (dep_names ms j)) \<and>
     (\<forall>j \<in> needed. kn_indegree k ! j = 0 \<longleftrightarrow> j \<in> set (kn_order k @ kn_pending k)) \<and>
     (\<forall>p < length (kn_order k). \<forall>name \<in> set (dep_names ms (kn_order k ! p)).
        \<exists>i \<in> set (take p (kn_order k)). find_by_name ms name = Some i)"

lemma kahn_start_inv:
  assumes "named_apart ms needed"
  shows "kahn_inv ms needed (kahn_start ms needed)"
  using assms by (auto simp: kahn_inv_def kahn_start_def length_dep_names named_apart_def initially_ready_def initial_indegree_def)

lemma kahn_ready:
  assumes "kahn_inv ms needed k" and "named_apart ms needed" and "i \<in> needed" and "kn_indegree k ! i = 0"
  shows "name \<in> set (dep_names ms i) \<Longrightarrow> \<exists>l \<in> set (kn_order k). find_by_name ms name = Some l"
    and "l \<in> needed \<Longrightarrow> depends_on ms i l \<Longrightarrow> l \<in> set (kn_order k)"
    and "card (dep_set ms i) = length (dep_names ms i)"
proof -
  have sub: "set (kn_order k) \<subseteq> needed" using assms(1) by (auto simp: kahn_inv_def)
  have "card {l \<in> set (kn_order k). depends_on ms i l} = length (dep_names ms i)"
    using assms by (fastforce simp: kahn_inv_def)
  then have full: "card {l \<in> set (kn_order k). depends_on ms i l} = card (dep_set ms i)"
    using card_dependencies(1) [OF assms(2) sub, of i] card_dep_set [of ms i] by linarith
  with \<open>card {l \<in> set (kn_order k). depends_on ms i l} = length (dep_names ms i)\<close>
  show "card (dep_set ms i) = length (dep_names ms i)" by simp
  show "\<exists>l \<in> set (kn_order k). find_by_name ms name = Some l" if "name \<in> set (dep_names ms i)"
    using card_dependencies(2) [OF assms(2) sub full that] .
  show "l \<in> set (kn_order k)" if l: "l \<in> needed" and dep: "depends_on ms i l"
  proof (rule ccontr)
    assume new: "l \<notin> set (kn_order k)"
    have "{x \<in> insert l (set (kn_order k)). depends_on ms i x} = insert l {x \<in> set (kn_order k). depends_on ms i x}"
      using dep by blast
    then have "card {x \<in> insert l (set (kn_order k)). depends_on ms i x} = Suc (card (dep_set ms i))"
      using new full by simp
    moreover have "insert l (set (kn_order k)) \<subseteq> needed" using l sub by blast
    ultimately show False using card_dependencies(1) [OF assms(2), of _ i] by (metis Suc_n_not_le_n)
  qed
qed

lemma kahn_step_inv:
  assumes "kahn_inv ms needed k" and "named_apart ms needed" and "kahn_running k"
  shows "kahn_inv ms needed (kahn_step ms needed k)"
proof -
  obtain i pending where p: "kn_pending k = i # pending" using assms(3) by (cases "kn_pending k") (auto simp: kahn_running_def)
  have len: "length (kn_indegree k) = ms_count ms" using assms(1) by (simp add: kahn_inv_def)
  note step = kahn_step_parts [OF p len, of needed]
  have dist: "distinct (kn_order k @ i # pending)" and sub: "set (kn_order k @ i # pending) \<subseteq> needed"
    and sum: "\<And>j. j \<in> needed \<Longrightarrow>
      kn_indegree k ! j + card {i \<in> set (kn_order k). depends_on ms j i} = length (dep_names ms j)"
    and zero: "\<And>j. j \<in> needed \<Longrightarrow> kn_indegree k ! j = 0 \<longleftrightarrow> j \<in> set (kn_order k @ i # pending)"
    and before: "\<And>q name. q < length (kn_order k) \<Longrightarrow> name \<in> set (dep_names ms (kn_order k ! q)) \<Longrightarrow>
      \<exists>i \<in> set (take q (kn_order k)). find_by_name ms name = Some i"
    using assms(1) by (simp_all add: kahn_inv_def p)
  have bound: "j < ms_count ms" if "j \<in> needed" for j using assms(2) that by (simp add: named_apart_def)
  have i: "i \<in> needed" "kn_indegree k ! i = 0" "i \<notin> set (kn_order k)" using sub zero dist by auto
  have dep_waits: "depends_on ms j i \<longleftrightarrow> waits ms needed i k j" if "j \<in> needed" for j
    using kahn_ready(2) [OF assms(1,2) that _ i(1)] i(3) that by (auto simp: waits_def)
  let ?k = "kahn_step ms needed k"
  have card: "card {l \<in> set (kn_order ?k). depends_on ms j l} =
      card {l \<in> set (kn_order k). depends_on ms j l} + (if depends_on ms j i then 1 else 0)" for j
  proof -
    have "{l \<in> set (kn_order ?k). depends_on ms j l} =
        (if depends_on ms j i then insert i {l \<in> set (kn_order k). depends_on ms j l}
         else {l \<in> set (kn_order k). depends_on ms j l})"
      by (auto simp: step)
    then show ?thesis using i(3) by simp
  qed
  show ?thesis
    unfolding kahn_inv_def
  proof (intro conjI ballI allI impI)
    have busy: "j \<notin> set (kn_order k @ i # pending)" if "kn_indegree k ! j = 1" for j
      using zero [of j] sub that by auto
    show "distinct (kn_order ?k @ kn_pending ?k)" "set (kn_order ?k @ kn_pending ?k) \<subseteq> needed"
      using dist sub busy by (auto simp: step waits_def)
    show "length (kn_indegree ?k) = ms_count ms" by (simp add: step)
    show "kn_indegree ?k ! j + card {l \<in> set (kn_order ?k). depends_on ms j l} = length (dep_names ms j)"
      if j: "j \<in> needed" for j
      using sum [OF j] dep_waits [OF j] bound [OF j] unfolding card by (auto simp: step waits_def)
    show "kn_indegree ?k ! j = 0 \<longleftrightarrow> j \<in> set (kn_order ?k @ kn_pending ?k)" if j: "j \<in> needed" for j
      using zero [OF j] bound [OF j] by (auto simp: step waits_def)
    fix q name assume q: "q < length (kn_order ?k)" and name: "name \<in> set (dep_names ms (kn_order ?k ! q))"
    show "\<exists>i \<in> set (take q (kn_order ?k)). find_by_name ms name = Some i"
    proof (cases "q < length (kn_order k)")
      case True
      then show ?thesis using before [OF True] name by (simp add: step nth_append)
    next
      case False
      then have "q = length (kn_order k)" using q by (simp add: step)
      then show ?thesis using name kahn_ready(1) [OF assms(1,2) i(1,2)] by (simp add: step)
    qed
  qed
qed

text \<open>What the queue loop ends with.\<close>

definition kahn_of :: "obicall_manifest_set \<Rightarrow> nat set \<Rightarrow> kahn" where
  "kahn_of ms needed = the (while_option kahn_running (kahn_step ms needed) (kahn_start ms needed))"

lemma kahn_of:
  shows "while_option kahn_running (kahn_step ms needed) (kahn_start ms needed) = Some (kahn_of ms needed)"
    and "kn_pending (kahn_of ms needed) = []"
    and "named_apart ms needed \<Longrightarrow> kahn_inv ms needed (kahn_of ms needed)"
proof -
  show w: "while_option kahn_running (kahn_step ms needed) (kahn_start ms needed) = Some (kahn_of ms needed)"
    using kahn_returns [of ms needed] by (auto simp: kahn_of_def)
  show "kn_pending (kahn_of ms needed) = []" using while_option_stop [OF w] by (simp add: kahn_running_def)
  show "kahn_inv ms needed (kahn_of ms needed)" if "named_apart ms needed"
    by (rule while_option_rule [OF _ w]) (use that in \<open>simp_all add: kahn_start_inv kahn_step_inv\<close>)
qed

lemma required_find: "required ms req i \<Longrightarrow> i < ms_count ms \<and> find_by_name ms (mf_name (item ms i)) = Some i"
  by (induction rule: required.induct) (auto dest: find_by_name_SomeD)

lemma required_named_apart: "named_apart ms {i. required ms req i}"
  by (simp add: named_apart_def required_find)

text \<open>
  The relation that a load order has to respect, and the two conditions under which the algorithm finds
  one: no cycle, and no provider that lists the same name twice (it would be waited for twice and released
  once).
\<close>

definition before :: "obicall_manifest_set \<Rightarrow> bytes list \<Rightarrow> (nat \<times> nat) set" where
  "before ms req = {(k, i). required ms req i \<and> (\<exists>name \<in> set (dep_names ms i). find_by_name ms name = Some k)}"

definition orderable :: "obicall_manifest_set \<Rightarrow> bytes list \<Rightarrow> bool" where
  "orderable ms req \<longleftrightarrow> acyclic (before ms req) \<and>
     (\<forall>i. required ms req i \<longrightarrow> distinct (map cstring (dep_names ms i)))"

lemma distinct_dep_names: "distinct (map cstring (dep_names ms i)) \<longleftrightarrow> card (dep_set ms i) = length (dep_names ms i)"
  using card_distinct [of "map cstring (dep_names ms i)"] distinct_card [of "map cstring (dep_names ms i)"]
  by (auto simp: dep_set_def)

lemma finite_before: "finite (before ms req)"
proof (rule finite_subset)
  show "before ms req \<subseteq> {..<ms_count ms} \<times> {..<ms_count ms}"
    by (auto simp: before_def required_find dest: find_by_name_SomeD(1))
qed simp

lemma kahn_orders_iff:
  assumes "\<And>name. \<not> absent ms req name" and "k = kahn_of ms {i. required ms req i}"
  shows "set (kn_order k) = {i. required ms req i} \<longleftrightarrow> orderable ms req"
proof
  let ?N = "{i. required ms req i}"
  have inv: "kahn_inv ms ?N k" using kahn_of(3) [OF required_named_apart] assms(2) by simp
  have pend: "kn_pending k = []" using kahn_of(2) assms(2) by simp
  have sub: "set (kn_order k) \<subseteq> ?N" using inv by (simp add: kahn_inv_def)
  {
    assume full: "set (kn_order k) = ?N"
    have "card (dep_set ms i) = length (dep_names ms i)" if "required ms req i" for i
    proof -
      have "kn_indegree k ! i = 0" using inv pend full that by (auto simp: kahn_inv_def)
      then show ?thesis using kahn_ready(3) [OF inv required_named_apart] that by simp
    qed
    moreover have "acyclic (before ms req)"
    proof -
      have dist: "distinct (kn_order k)" using inv by (simp add: kahn_inv_def)
      define pos where "pos = the_inv_into {..<length (kn_order k)} (nth (kn_order k))"
      have pos: "pos (kn_order k ! p) = p" if "p < length (kn_order k)" for p
        using that unfolding pos_def by (intro the_inv_into_f_f inj_on_nth) (auto simp: dist)
      have "before ms req \<subseteq> measure pos"
      proof (rule subrelI)
        fix l i assume "(l, i) \<in> before ms req"
        then obtain name where i: "i \<in> set (kn_order k)" and name: "name \<in> set (dep_names ms i)" "find_by_name ms name = Some l"
          using full by (auto simp: before_def)
        then obtain p where p: "p < length (kn_order k)" "kn_order k ! p = i" by (auto simp: in_set_conv_nth)
        then have "\<exists>x \<in> set (take p (kn_order k)). find_by_name ms name = Some x"
          using inv name(1) by (auto simp: kahn_inv_def)
        then have "l \<in> set (take p (kn_order k))" using name(2) by simp
        then obtain q where q: "q < p" "kn_order k ! q = l" using p(1) by (auto simp: in_set_conv_nth)
        then show "(l, i) \<in> measure pos" using pos [of p] pos [of q] p by simp
      qed
      then show ?thesis using wf_subset [OF wf_measure] wf_acyclic by blast
    qed
    ultimately show "orderable ms req" by (simp add: orderable_def distinct_dep_names)
  }
  assume ord: "orderable ms req"
  show "set (kn_order k) = ?N"
  proof (rule ccontr)
    assume "set (kn_order k) \<noteq> ?N"
    then obtain j0 where j0: "j0 \<in> ?N - set (kn_order k)" using sub by blast
    have "wf (before ms req)" using finite_acyclic_wf [OF finite_before] ord by (simp add: orderable_def)
    then obtain j where j: "j \<in> ?N - set (kn_order k)"
      and min: "\<And>l. (l, j) \<in> before ms req \<Longrightarrow> l \<notin> ?N - set (kn_order k)"
      using wfE_min [OF _ j0] by metis
    let ?D = "{i \<in> set (kn_order k). depends_on ms j i}"
    have "dep_set ms j \<subseteq> (\<lambda>i. cstring (mf_name (item ms i))) ` ?D"
    proof
      fix t assume "t \<in> dep_set ms j"
      then obtain name where name: "name \<in> set (dep_names ms j)" "t = cstring name" by (auto simp: dep_set_def)
      have "find_by_name ms name \<noteq> None" using assms(1) [of name] name(1) j by (auto simp: absent_def)
      then obtain l where l: "find_by_name ms name = Some l" by auto
      then have "(l, j) \<in> before ms req" and "required ms req l"
        using name(1) j by (auto simp: before_def intro: required.dependency)
      then have "l \<in> set (kn_order k)" using min by auto
      moreover have eq: "cstring (mf_name (item ms l)) = t" using find_by_name_SomeD(2) [OF l] name(2) by simp
      moreover have "depends_on ms j l" using \<open>t \<in> dep_set ms j\<close> eq by (simp add: depends_on_iff)
      ultimately show "t \<in> (\<lambda>i. cstring (mf_name (item ms i))) ` ?D" by blast
    qed
    then have "card (dep_set ms j) \<le> card ?D" by (rule surj_card_le [rotated]) simp
    moreover have "card (dep_set ms j) = length (dep_names ms j)"
      using ord j by (auto simp: orderable_def distinct_dep_names)
    ultimately have "kn_indegree k ! j = 0" using inv j by (fastforce simp: kahn_inv_def)
    then show False using inv j pend by (auto simp: kahn_inv_def)
  qed
qed

section \<open>The resolver\<close>

lemma start_missing:
  "cl_missing (mark_names ms req closure_start) = Some name \<Longrightarrow>
     closure_of ms req = mark_names ms req closure_start"
  using closure_of(1) [OF refl, of ms req] by (subst (asm) while_option_unfold) (simp add: closure_running_def)

lemma resolve_missing:
  assumes "cl_missing (closure_of ms req) = Some name"
  shows "\<exists>d. obicall_manifest_resolve (Some ms) (Some req) (Some out) detail cap =
    Some (Inl OBICALL_ERR_DEPENDENCY_MISSING, d)"
  using assms start_missing [of ms req] closure_of(1) [OF refl, of ms req]
  by (cases "cl_missing (mark_names ms req closure_start)") (simp_all add: obicall_manifest_resolve_def)

lemma resolve_found:
  assumes "cl_missing (closure_of ms req) = None" and "k = kahn_of ms {i. required ms req i}"
  shows "\<exists>d. obicall_manifest_resolve (Some ms) (Some req) (Some out) detail cap =
    Some (if orderable ms req
      then (Inr \<lparr>rp_count = length (kn_order k), rp_order = memcpy (replicate 64 0) 0 (kn_order k)\<rparr>, detail)
      else (Inl OBICALL_ERR_DEPENDENCY_CYCLE, d))"
proof -
  let ?N = "{i. required ms req i}"
  have needed: "cl_needed (closure_of ms req) = ?N" and absent: "\<not> absent ms req name" for name
    using closure_of_complete [OF assms(1)] by blast+
  have start: "cl_missing (mark_names ms req closure_start) = None"
    using start_missing [of ms req] assms(1) by (cases "cl_missing (mark_names ms req closure_start)") auto
  have count: "cl_needed_count (closure_of ms req) = card ?N" and fin: "finite ?N"
    using closure_of(2) [OF refl, of ms req] closure_inv_finite [of ms req "closure_of ms req"] needed
    by (auto simp: closure_inv_def)
  have inv: "kahn_inv ms ?N k" using kahn_of(3) [OF required_named_apart] assms(2) by simp
  then have "length (kn_order k) = card (set (kn_order k))" and "set (kn_order k) \<subseteq> ?N"
    by (auto simp: kahn_inv_def distinct_card)
  then have "length (kn_order k) = card ?N \<longleftrightarrow> set (kn_order k) = ?N"
    using card_subset_eq [OF fin] by auto
  then have "length (kn_order k) = card ?N \<longleftrightarrow> orderable ms req"
    using kahn_orders_iff [OF absent assms(2)] by simp
  then show ?thesis
    using start assms(1) closure_of(1) [OF refl, of ms req] kahn_of(1) [of ms ?N] count
    by (auto simp: obicall_manifest_resolve_def needed assms(2))
qed

lemma resolve_verdict:
  "\<exists>r d. obicall_manifest_resolve (Some ms) (Some req) (Some out) detail cap = Some (r, d) \<and>
     (r = Inl OBICALL_ERR_DEPENDENCY_MISSING \<longleftrightarrow> (\<exists>name. absent ms req name)) \<and>
     (r = Inl OBICALL_ERR_DEPENDENCY_CYCLE \<longleftrightarrow> \<not> (\<exists>name. absent ms req name) \<and> \<not> orderable ms req) \<and>
     ((\<exists>plan. r = Inr plan) \<longleftrightarrow> \<not> (\<exists>name. absent ms req name) \<and> orderable ms req)"
proof (cases "cl_missing (closure_of ms req)")
  case None
  then show ?thesis
    using resolve_found [OF None refl, of out detail cap] closure_of_complete(2) [OF None] by auto
next
  case (Some name)
  then show ?thesis using resolve_missing [OF Some, of out detail cap] closure_of_missing [OF Some] by auto
qed

lemma resolve_plan:
  assumes "obicall_manifest_resolve (Some ms) (Some req) (Some out) detail cap = Some (Inr plan, d)"
  shows "let order = take (rp_count plan) (rp_order plan) in
    rp_count plan = length order \<and> distinct order \<and> set order = {i. required ms req i} \<and>
    (\<forall>p < length order. \<forall>name \<in> set (dep_names ms (order ! p)). \<exists>q < p. find_by_name ms name = Some (order ! q))"
proof -
  define k where "k = kahn_of ms {i. required ms req i}"
  have none: "cl_missing (closure_of ms req) = None"
    using resolve_missing [of ms req _ out detail cap] assms by (cases "cl_missing (closure_of ms req)") auto
  have ord: "orderable ms req"
    and plan: "plan = \<lparr>rp_count = length (kn_order k), rp_order = memcpy (replicate 64 0) 0 (kn_order k)\<rparr>"
    using resolve_found [OF none k_def, of out detail cap] assms by (auto split: if_splits)
  have order: "take (rp_count plan) (rp_order plan) = kn_order k" by (simp add: plan memcpy_zero)
  have inv: "kahn_inv ms {i. required ms req i} k" unfolding k_def using kahn_of(3) [OF required_named_apart] .
  have "\<exists>q < p. find_by_name ms name = Some (kn_order k ! q)"
    if p: "p < length (kn_order k)" and name: "name \<in> set (dep_names ms (kn_order k ! p))" for p name
  proof -
    obtain i where "i \<in> set (take p (kn_order k))" "find_by_name ms name = Some i"
      using inv p name unfolding kahn_inv_def by blast
    then show ?thesis using p by (auto simp: in_set_conv_nth)
  qed
  moreover have "set (kn_order k) = {i. required ms req i}"
    using kahn_orders_iff [OF closure_of_complete(2) [OF none] k_def] ord by simp
  moreover have "distinct (kn_order k)" using inv by (simp add: kahn_inv_def)
  ultimately show ?thesis unfolding order Let_def by (simp add: plan)
qed

lemma resolve_returns: "\<exists>r. obicall_manifest_resolve ms req out detail cap = Some r"
proof (cases "\<exists>ms' req' out'. ms = Some ms' \<and> req = Some req' \<and> out = Some out'")
  case True
  then show ?thesis using resolve_verdict by blast
next
  case False
  then show ?thesis by (cases ms; cases req; cases out) (simp_all add: obicall_manifest_resolve_def)
qed


text \<open>
  C16: the verdict. A plan is found exactly when every name that the request leads to is in the set, the
  dependencies of the required providers have no cycle, and none of them lists a name twice; a name that is
  absent is reported as a missing dependency; everything else as a cycle - which is what a provider that
  lists an existing, acyclic dependency twice is reported as.
\<close>

theorem resolve_classifies:
  "\<exists>r d. obicall_manifest_resolve (Some ms) (Some req) (Some out) detail cap = Some (r, d) \<and>
     (r = Inl OBICALL_ERR_DEPENDENCY_MISSING \<longleftrightarrow> (\<exists>name. absent ms req name)) \<and>
     (r = Inl OBICALL_ERR_DEPENDENCY_CYCLE \<longleftrightarrow> \<not> (\<exists>name. absent ms req name) \<and> \<not> orderable ms req) \<and>
     ((\<exists>plan. r = Inr plan) \<longleftrightarrow> \<not> (\<exists>name. absent ms req name) \<and> orderable ms req)"
  by (rule resolve_verdict)

text \<open>
  C17: a plan is a load order. It names exactly the providers that were requested or that a named one depends
  on, each once, fits the plan's array, and puts every dependency before its dependent.
\<close>

theorem resolve_load_order:
  assumes "obicall_manifest_resolve (Some ms) (Some req) (Some out) detail cap = Some (Inr plan, d)"
    and "ms_count ms \<le> OBICALL_MAX_MANIFESTS" and "order = take (rp_count plan) (rp_order plan)"
  shows "rp_count plan = length order \<and> rp_count plan \<le> OBICALL_MAX_MANIFESTS \<and>
    distinct order \<and> set order = {i. required ms req i} \<and>
    (\<forall>p < length order. \<forall>name \<in> set (dep_names ms (order ! p)). \<exists>q < p. find_by_name ms name = Some (order ! q))"
proof -
  note plan = resolve_plan [OF assms(1), unfolded Let_def assms(3) [symmetric]]
  have "set order \<subseteq> {..<ms_count ms}" using plan required_find by auto
  then have "card (set order) \<le> ms_count ms" using card_mono [of "{..<ms_count ms}" "set order"] by simp
  moreover have "card (set order) = length order" using plan by (intro distinct_card) simp
  ultimately have "rp_count plan \<le> 64" using plan assms(2) by linarith
  then show ?thesis using plan by blast
qed

section \<open>Ranking the alternatives of a slot\<close>

abbreviation (input) OBICALL_ABI_VERSION_MAJOR :: u32 where "OBICALL_ABI_VERSION_MAJOR \<equiv> 1"
abbreviation (input) OBICALL_ABI_VERSION_MINOR :: u32 where "OBICALL_ABI_VERSION_MINOR \<equiv> 0"

text \<open>The candidate loop's tests of the manifest alone, and its call of the resolver.\<close>

definition compatible_alternative :: "bytes \<Rightarrow> bytes option \<Rightarrow> obicall_manifest \<Rightarrow> bool" where
  "compatible_alternative slot host m \<longleftrightarrow>
     \<not> (cstring (mf_capability_slot m) = [] \<or> \<not> streq (mf_capability_slot m) slot) \<and>
     \<not> (cstring (mf_architecture m) \<noteq> [] \<and> (case host of None \<Rightarrow> False | Some h \<Rightarrow> \<not> streq (mf_architecture m) h)) \<and>
     mf_abi_version_major m = OBICALL_ABI_VERSION_MAJOR \<and> \<not> mf_abi_version_minor m > OBICALL_ABI_VERSION_MINOR"

definition resolves :: "obicall_manifest_set \<Rightarrow> obicall_manifest \<Rightarrow> bool" where
  "resolves ms m = (case obicall_manifest_resolve (Some ms) (Some [mf_name m])
       (Some \<lparr>rp_count = 0, rp_order = replicate 64 0\<rparr>) (Some (replicate 128 0)) 128 of
     Some (Inr _, _) \<Rightarrow> True | _ \<Rightarrow> False)"

definition eligible_alternative :: "obicall_manifest_set \<Rightarrow> bytes \<Rightarrow> bytes option \<Rightarrow> nat \<Rightarrow> bool" where
  "eligible_alternative ms slot host i \<longleftrightarrow>
     compatible_alternative slot host (item ms i) \<and> resolves ms (item ms i)"

definition alternatives :: "obicall_manifest_set \<Rightarrow> bytes \<Rightarrow> bytes option \<Rightarrow> nat list" where
  "alternatives ms slot host = filter (eligible_alternative ms slot host) [0..<ms_count ms]"

text \<open>\<^verbatim>\<open>strcmp\<close> orders strings by their unsigned bytes; \<^verbatim>\<open>==\<close> on scores is IEEE equality.\<close>

definition should_shift :: "obicall_manifest_set \<Rightarrow> nat \<Rightarrow> nat \<Rightarrow> bool" where
  "should_shift ms key c \<longleftrightarrow>
     mf_preference_score (item ms key) < mf_preference_score (item ms c) \<or>
     double_eq (mf_preference_score (item ms c)) (mf_preference_score (item ms key)) \<and>
     cstring (mf_name (item ms key)) < cstring (mf_name (item ms c))"

text \<open>The sorted prefix is scanned from its end, so it is kept with its end first.\<close>

primrec insert_key :: "obicall_manifest_set \<Rightarrow> nat \<Rightarrow> nat list \<Rightarrow> nat list" where
  "insert_key ms key [] = [key]"
| "insert_key ms key (c # cs) = (if should_shift ms key c then c # insert_key ms key cs else key # c # cs)"

definition ranked :: "obicall_manifest_set \<Rightarrow> nat list \<Rightarrow> nat list" where
  "ranked ms candidates = rev (foldl (\<lambda>prefix key. insert_key ms key prefix) [] candidates)"

text \<open>The output array and the count, on success.\<close>

definition obicall_manifest_rank_alternatives ::
  "obicall_manifest_set option \<Rightarrow> bytes option \<Rightarrow> bytes option \<Rightarrow> nat list option \<Rightarrow> nat \<Rightarrow> nat option \<Rightarrow>
   (nat list \<times> nat) res" where
  "obicall_manifest_rank_alternatives set_ptr capability_slot host out_indices out_cap out_count =
     (case (set_ptr, capability_slot, out_indices, out_count) of
        (Some ms, Some slot, Some out, Some _) \<Rightarrow>
          (let candidates = ranked ms (alternatives ms slot host);
               n = (if length candidates < out_cap then length candidates else out_cap)
           in Inr (memcpy out 0 (take n candidates), n))
      | _ \<Rightarrow> Inl OBICALL_ERR_NULL_POINTER)"

definition rank_le :: "obicall_manifest_set \<Rightarrow> nat \<Rightarrow> nat \<Rightarrow> bool" where
  "rank_le ms a b \<longleftrightarrow> mf_preference_score (item ms a) < mf_preference_score (item ms b) \<or>
     double_eq (mf_preference_score (item ms a)) (mf_preference_score (item ms b)) \<and>
     cstring (mf_name (item ms a)) \<le> cstring (mf_name (item ms b))"

lemma double_cases:
  "\<not> isnan x \<Longrightarrow> \<not> isnan y \<Longrightarrow> x < y \<or> y < x \<or> double_eq x y"
  using double_not_less [of x y] double_not_less [of y x] by (auto simp: double_eq_def)

lemma rank_le_total:
  assumes "\<not> isnan (mf_preference_score (item ms a))" and "\<not> isnan (mf_preference_score (item ms b))"
  shows "\<not> should_shift ms a b \<Longrightarrow> rank_le ms b a" and "should_shift ms a b \<Longrightarrow> rank_le ms a b"
  using double_cases [OF assms] by (auto simp: should_shift_def rank_le_def double_eq_def not_less)

lemma rank_le_trans: "rank_le ms a b \<Longrightarrow> rank_le ms b c \<Longrightarrow> rank_le ms a c"
  unfolding rank_le_def double_eq_def less_double_def less_eq_double_def by (elim disjE conjE) (auto intro: order_trans)

lemma set_insert_key: "set (insert_key ms key cs) = insert key (set cs)"
  and distinct_insert_key: "distinct (insert_key ms key cs) \<longleftrightarrow> key \<notin> set cs \<and> distinct cs"
proof -
  show s: "set (insert_key ms key cs) = insert key (set cs)" for cs by (induction cs) auto
  show "distinct (insert_key ms key cs) \<longleftrightarrow> key \<notin> set cs \<and> distinct cs" by (induction cs) (auto simp: s)
qed

definition scores_ok :: "obicall_manifest_set \<Rightarrow> nat set \<Rightarrow> bool" where
  "scores_ok ms A \<longleftrightarrow> (\<forall>i \<in> A. \<not> isnan (mf_preference_score (item ms i)))"

lemma insert_key_sorted:
  assumes "sorted_wrt (\<lambda>a b. rank_le ms b a) cs" and "scores_ok ms (insert key (set cs))"
  shows "sorted_wrt (\<lambda>a b. rank_le ms b a) (insert_key ms key cs)"
  using assms
proof (induction cs)
  case (Cons c cs)
  have ok: "\<not> isnan (mf_preference_score (item ms key))" "\<not> isnan (mf_preference_score (item ms c))"
    and IH: "sorted_wrt (\<lambda>a b. rank_le ms b a) (insert_key ms key cs)"
    using Cons by (auto simp: scores_ok_def)
  show ?case
    using Cons.prems(1) IH rank_le_total [OF ok] by (auto simp: set_insert_key intro: rank_le_trans)
qed simp

lemma foldl_insert_key:
  assumes "sorted_wrt (\<lambda>a b. rank_le ms b a) acc" and "distinct (acc @ keys)" and "scores_ok ms (set (acc @ keys))"
  shows "sorted_wrt (\<lambda>a b. rank_le ms b a) (foldl (\<lambda>prefix key. insert_key ms key prefix) acc keys) \<and>
    distinct (foldl (\<lambda>prefix key. insert_key ms key prefix) acc keys) \<and>
    set (foldl (\<lambda>prefix key. insert_key ms key prefix) acc keys) = set (acc @ keys)"
  using assms
proof (induction keys arbitrary: acc)
  case (Cons key keys)
  have "sorted_wrt (\<lambda>a b. rank_le ms b a) (insert_key ms key acc)"
    using Cons.prems by (intro insert_key_sorted) (auto simp: scores_ok_def)
  moreover have "distinct (insert_key ms key acc @ keys)" "scores_ok ms (set (insert_key ms key acc @ keys))"
    using Cons.prems(2,3) by (auto simp: set_insert_key distinct_insert_key scores_ok_def)
  ultimately show ?case using Cons.IH [of "insert_key ms key acc"] by (simp add: set_insert_key)
qed simp

lemma ranked_laws:
  assumes "distinct xs" and "scores_ok ms (set xs)"
  shows "sorted_wrt (rank_le ms) (ranked ms xs) \<and> distinct (ranked ms xs) \<and> set (ranked ms xs) = set xs"
  using foldl_insert_key [of ms "[]" xs] assms by (simp add: ranked_def sorted_wrt_rev)

lemma resolves_iff: "resolves ms m \<longleftrightarrow> \<not> (\<exists>name. absent ms [mf_name m] name) \<and> orderable ms [mf_name m]"
  using resolve_verdict [of ms "[mf_name m]" "\<lparr>rp_count = 0, rp_order = replicate 64 0\<rparr>" "Some (replicate 128 0)" 128]
  by (auto simp: resolves_def split: sum.splits)


section \<open>Samples\<close>

definition pad :: "nat \<Rightarrow> bytes \<Rightarrow> bytes" where
  "pad n bs = bs @ replicate (n - length bs) 0"

definition sample_provider :: "bytes \<Rightarrow> bytes list \<Rightarrow> double \<Rightarrow> obicall_manifest" where
  "sample_provider name deps score = zero_manifest
     \<lparr>mf_struct_size := sizeof_manifest, mf_schema_version := 1, mf_name := pad 64 name,
      mf_abi_version_major := 1, mf_capability_slot := pad 64 (ascii ''s''), mf_preference_score := score,
      mf_artifact_path := pad 260 (ascii ''x''), mf_dependency_count := length deps,
      mf_dependencies := map (pad 64) deps @ replicate (8 - length deps) (replicate 64 0)\<rparr>"

definition sample_set :: "bytes list \<Rightarrow> obicall_manifest_set" where
  "sample_set deps = \<lparr>ms_count = 2, ms_items =
     [sample_provider (ascii ''a'') deps 1, sample_provider (ascii ''b'') [] 0]\<rparr>"

lemma sample_provider_wf:
  assumes "length name < 64" and "length deps \<le> 8" and "\<forall>d \<in> set deps. length d < 64" and "\<not> isnan score"
  shows "wf_manifest (sample_provider name deps score)"
proof -
  have "length (pad 64 d) = 64" "0 \<in> set (pad 64 d)" if "length d < 64" for d
    using that by (simp_all add: pad_def)
  then show ?thesis using assms
    by (auto simp: wf_manifest_def wf_arrays_def sample_provider_def zero_manifest_def nth_append pad_def ascii_def
        dest!: nth_mem)
qed

lemma not_isnan_one: "\<not> isnan 1"
  by (simp add: isnan_def one_double_def dmag_def)

lemma sample_set_wf: "\<forall>i < ms_count (sample_set [ascii ''b'']). wf_manifest (item (sample_set [ascii ''b'']) i)"
proof -
  have a: "wf_manifest (sample_provider (ascii ''a'') [ascii ''b''] 1)"
    and b: "wf_manifest (sample_provider (ascii ''b'') [] 0)"
    by (rule sample_provider_wf; simp add: ascii_def not_isnan_zero not_isnan_one)+
  have "i = 0 \<or> i = 1" if "i < 2" for i :: nat using that by linarith
  then show ?thesis using a b by (fastforce simp: sample_set_def)
qed

lemma sample_order:
  "map_option (map_sum id (\<lambda>plan. take (rp_count plan) (rp_order plan)) \<circ> fst)
     (obicall_manifest_resolve (Some (sample_set [ascii ''b''])) (Some [ascii ''a''])
        (Some \<lparr>rp_count = 0, rp_order = []\<rparr>) None 0) = Some (Inr [1, 0])"
  by code_simp

text \<open>A provider that lists its one dependency twice: nothing is cyclic, and the verdict is a cycle.\<close>

lemma duplicate_dependency_is_cycle:
  "map_option fst (obicall_manifest_resolve (Some (sample_set [ascii ''b'', ascii ''b''])) (Some [ascii ''a''])
     (Some \<lparr>rp_count = 0, rp_order = []\<rparr>) None 0) = Some (Inl OBICALL_ERR_DEPENDENCY_CYCLE)"
  by code_simp

lemma sample_ranking:
  "obicall_manifest_rank_alternatives (Some (sample_set [ascii ''b''])) (Some (ascii ''s'')) None
     (Some [9, 9, 9]) 3 (Some 0) = Inr ([1, 0, 9], 2)"
  by code_simp

theorem resolve_load_order_witness:
  "\<exists>plan. obicall_manifest_resolve (Some (sample_set [ascii ''b''])) (Some [ascii ''a''])
      (Some \<lparr>rp_count = 0, rp_order = []\<rparr>) None 0 = Some (Inr plan, None) \<and>
     take (rp_count plan) (rp_order plan) = [1, 0] \<and>
     {i. required (sample_set [ascii ''b'']) [ascii ''a''] i} = {0, 1}"
proof -
  let ?f = "\<lambda>plan. take (rp_count plan) (rp_order plan)"
  obtain res d where res: "obicall_manifest_resolve (Some (sample_set [ascii ''b''])) (Some [ascii ''a''])
      (Some \<lparr>rp_count = 0, rp_order = []\<rparr>) None 0 = Some (res, d)" and f: "map_sum id ?f res = Inr [1, 0]"
    using sample_order by (auto simp: map_option_case comp_def split: option.splits prod.splits)
  from f obtain plan where plan: "res = Inr plan" and order: "take (rp_count plan) (rp_order plan) = [1, 0]"
    by (cases res) simp_all
  note r = res [unfolded plan]
  have "d = None" using r by (simp add: obicall_manifest_resolve_def set_issue_def Let_def split: option.splits if_splits)
  then show ?thesis
    using resolve_load_order [OF r _ order [symmetric]] r order by (auto simp: sample_set_def)
qed


end
