(* ===== verification/Estimator.thy ===== *)
theory Estimator
  imports Obicall_Types
begin

text \<open>
  \<^verbatim>\<open>src/core/estimator.c\<close>: the constant-velocity Kalman filter and the static fusion of scalar
  measurements, on IEEE doubles in the order of the source's operations. The laws: what each function
  answers on every input, that a refused update leaves the state as it was or only predicted, and that
  the filter's time never runs backwards.
\<close>

section \<open>Data\<close>

abbreviation (input) SD :: nat where "SD \<equiv> 4"

record obicall_kalman_params =
  kp_process_noise_position :: double
  kp_process_noise_velocity :: double
  kp_initial_position_variance :: double
  kp_initial_velocity_variance :: double
  kp_max_prediction_gap_s :: double

record obicall_kalman_state =
  ks_initialized :: u32
  ks_mean :: "double list"
  ks_covariance :: "double list"
  ks_last_update_time_ns :: i64

section \<open>Small matrices\<close>

text \<open>A matrix is the list of its rows. \<open>dot\<close> is the accumulation loop \<^verbatim>\<open>acc = 0; acc += a[k] * b[k]\<close>.\<close>

type_synonym matrix = "double list list"

primrec dot_from :: "double \<Rightarrow> (double \<times> double) list \<Rightarrow> double" where
  "dot_from acc [] = acc"
| "dot_from acc (xy # xys) = dot_from (acc + fst xy * snd xy) xys"

definition dot :: "double list \<Rightarrow> double list \<Rightarrow> double" where
  "dot xs ys = dot_from 0 (zip xs ys)"

definition column :: "matrix \<Rightarrow> nat \<Rightarrow> double list" where
  "column a j = map (\<lambda>row. row ! j) a"

text \<open>\<open>a * b\<close> and \<open>a * transpose b\<close> for \<open>SD\<close> columns and rows.\<close>

definition mat_mul :: "matrix \<Rightarrow> matrix \<Rightarrow> matrix" where
  "mat_mul a b = map (\<lambda>row. map (dot row) (map (column b) [0..<SD])) a"

definition mat_mul_transposed :: "matrix \<Rightarrow> matrix \<Rightarrow> matrix" where
  "mat_mul_transposed a b = map (\<lambda>row. map (dot row) b) a"

definition square :: "double list \<Rightarrow> matrix" where
  "square xs = map (\<lambda>i. take SD (drop (i * SD) xs)) [0..<SD]"

section \<open>Initialisation\<close>

definition initial_variance :: "obicall_kalman_params \<Rightarrow> nat \<Rightarrow> nat \<Rightarrow> double" where
  "initial_variance params i j =
     (if i \<noteq> j then 0
      else if i < 2 then kp_initial_position_variance params else kp_initial_velocity_variance params)"

definition obicall_kalman_init :: "obicall_kalman_params \<Rightarrow> double \<Rightarrow> double \<Rightarrow> i64 \<Rightarrow> obicall_kalman_state" where
  "obicall_kalman_init params x0 y0 time_ns =
     \<lparr>ks_initialized = 1, ks_mean = [x0, y0, 0, 0],
      ks_covariance = concat (map (\<lambda>i. map (initial_variance params i) [0..<SD]) [0..<SD]),
      ks_last_update_time_ns = time_ns\<rparr>"

section \<open>Prediction\<close>

definition transition :: "double \<Rightarrow> matrix" where
  "transition dt = [[1, 0, dt, 0], [0, 1, 0, dt], [0, 0, 1, 0], [0, 0, 0, 1]]"

definition process_noise :: "obicall_kalman_params \<Rightarrow> double \<Rightarrow> nat \<Rightarrow> nat \<Rightarrow> double" where
  "process_noise params dt i j =
     (if i = j then (if i < 2 then kp_process_noise_position params * dt else kp_process_noise_velocity params * dt)
      else 0)"

definition elapsed_seconds :: "i64 \<Rightarrow> i64 \<Rightarrow> double" where
  "elapsed_seconds time_ns previous_ns = divide (double_of_int (sint (time_ns - previous_ns))) (double_lit (10 ^ 9) 1)"

text \<open>The state after a prediction over \<open>dt\<close> seconds.\<close>

definition predicted :: "obicall_kalman_params \<Rightarrow> i64 \<Rightarrow> double \<Rightarrow> obicall_kalman_state \<Rightarrow> obicall_kalman_state" where
  "predicted params time_ns dt state =
     (let f = transition dt;
          p = square (ks_covariance state);
          x_new = map (\<lambda>row. dot row (ks_mean state)) f;
          fp = mat_mul f p;
          fpft = mat_mul_transposed fp f
      in state\<lparr>ks_covariance := concat (map (\<lambda>i. map (\<lambda>j. fpft ! i ! j + process_noise params dt i j) [0..<SD]) [0..<SD]),
               ks_mean := x_new, ks_last_update_time_ns := time_ns\<rparr>)"

definition obicall_kalman_predict ::
  "obicall_kalman_state option \<Rightarrow> obicall_kalman_params option \<Rightarrow> i64 \<Rightarrow> obicall_status \<times> obicall_kalman_state option" where
  "obicall_kalman_predict state params time_ns =
     (case (state, params) of
        (Some s, Some params) \<Rightarrow>
          if ks_initialized s = 0 then (OBICALL_ERR_INVALID_ARGUMENT, state)
          else if time_ns = ks_last_update_time_ns s then (OBICALL_OK, state)
          else
            (let dt = elapsed_seconds time_ns (ks_last_update_time_ns s) in
             if dt < 0 then (OBICALL_ERR_VALIDATION_TIMING, state)
             else if kp_max_prediction_gap_s params > 0 \<and> dt > kp_max_prediction_gap_s params
             then (OBICALL_ERR_VALIDATION_TIMING, state)
             else (OBICALL_OK, Some (predicted params time_ns dt s)))
      | _ \<Rightarrow> (OBICALL_ERR_NULL_POINTER, state))"

section \<open>Update\<close>

text \<open>The innovation covariance and its determinant.\<close>

definition innovation_covariance :: "matrix \<Rightarrow> double list \<Rightarrow> matrix" where
  "innovation_covariance p r =
     [[p ! 0 ! 0 + r ! 0, p ! 0 ! 1 + r ! 1], [p ! 1 ! 0 + r ! 2, p ! 1 ! 1 + r ! 3]]"

definition det2 :: "matrix \<Rightarrow> double" where
  "det2 s = s ! 0 ! 0 * s ! 1 ! 1 - s ! 0 ! 1 * s ! 1 ! 0"

definition inverse2 :: "matrix \<Rightarrow> matrix" where
  "inverse2 s =
     (let det = det2 s
      in [[divide (s ! 1 ! 1) det, divide (- (s ! 0 ! 1)) det], [divide (- (s ! 1 ! 0)) det, divide (s ! 0 ! 0) det]])"

definition gain_row :: "matrix \<Rightarrow> double list \<Rightarrow> double list" where
  "gain_row sinv row =
     [row ! 0 * sinv ! 0 ! 0 + row ! 1 * sinv ! 1 ! 0, row ! 0 * sinv ! 0 ! 1 + row ! 1 * sinv ! 1 ! 1]"

definition identity_minus_gain :: "matrix \<Rightarrow> nat \<Rightarrow> nat \<Rightarrow> double" where
  "identity_minus_gain k i j =
     (if i = j then 1 else 0) - (if j = 0 then k ! i ! 0 else if j = 1 then k ! i ! 1 else 0)"

definition joseph_noise :: "matrix \<Rightarrow> double list \<Rightarrow> nat \<Rightarrow> nat \<Rightarrow> double" where
  "joseph_noise k r i j =
     (k ! i ! 0 * r ! 0 + k ! i ! 1 * r ! 2) * k ! j ! 0 + (k ! i ! 0 * r ! 1 + k ! i ! 1 * r ! 3) * k ! j ! 1"

definition corrected :: "double \<Rightarrow> double \<Rightarrow> double list \<Rightarrow> obicall_kalman_state \<Rightarrow> obicall_kalman_state" where
  "corrected zx zy r s =
     (let p = square (ks_covariance s);
          y0 = zx - ks_mean s ! 0;
          y1 = zy - ks_mean s ! 1;
          sinv = inverse2 (innovation_covariance p r);
          k = map (gain_row sinv) p;
          mean = map (\<lambda>i. ks_mean s ! i + (k ! i ! 0 * y0 + k ! i ! 1 * y1)) [0..<SD];
          ikh = map (\<lambda>i. map (identity_minus_gain k i) [0..<SD]) [0..<SD];
          tmp = mat_mul ikh p;
          p_new = mat_mul_transposed tmp ikh
      in s\<lparr>ks_mean := mean,
           ks_covariance := concat (map (\<lambda>i. map (\<lambda>j. p_new ! i ! j + joseph_noise k r i j) [0..<SD]) [0..<SD])\<rparr>)"

definition obicall_kalman_update_position ::
  "obicall_kalman_state option \<Rightarrow> obicall_kalman_params option \<Rightarrow> i64 \<Rightarrow> double \<Rightarrow> double \<Rightarrow> double list option \<Rightarrow>
   obicall_status \<times> obicall_kalman_state option" where
  "obicall_kalman_update_position state params time_ns zx zy meas_cov_2x2 =
     (case (state, params, meas_cov_2x2) of
        (Some _, Some _, Some r) \<Rightarrow>
          if \<not> isfinite zx \<or> \<not> isfinite zy then (OBICALL_ERR_VALIDATION_NON_FINITE, state)
          else if \<not> list_all isfinite (take 4 r) then (OBICALL_ERR_VALIDATION_NON_FINITE, state)
          else
            (case obicall_kalman_predict state params time_ns of
               (st, state) \<Rightarrow>
                 if st \<noteq> OBICALL_OK then (st, state)
                 else
                   (let s = the state;
                        det = det2 (innovation_covariance (square (ks_covariance s)) r) in
                    if \<not> isfinite det \<or> \<bar>det\<bar> < double_lit 1 (10 ^ 15)
                    then (OBICALL_ERR_VALIDATION_COVARIANCE, state)
                    else (OBICALL_OK, Some (corrected zx zy r s))))
      | _ \<Rightarrow> (OBICALL_ERR_NULL_POINTER, state))"

section \<open>Static fusion\<close>

text \<open>The loop: the sums so far, or the status of an early return.\<close>

primrec fuse_scan :: "(double \<times> double) list \<Rightarrow> double \<Rightarrow> double \<Rightarrow> (double \<times> double) res" where
  "fuse_scan [] sum_inv_var sum_mean_over_var = Inr (sum_inv_var, sum_mean_over_var)"
| "fuse_scan (mv # mvs) sum_inv_var sum_mean_over_var =
     (if \<not> isfinite (fst mv) \<or> \<not> isfinite (snd mv) \<or> snd mv \<le> 0 then Inl OBICALL_ERR_VALIDATION_NON_FINITE
      else
        (let w = divide 1 (snd mv)
         in fuse_scan mvs (sum_inv_var + w) (sum_mean_over_var + fst mv * w)))"

text \<open>The mean and the variance.\<close>

definition obicall_static_fuse_1d ::
  "double list option \<Rightarrow> double list option \<Rightarrow> u32 \<Rightarrow> double option \<Rightarrow> double option \<Rightarrow> (double \<times> double) res" where
  "obicall_static_fuse_1d means variances count out_mean out_variance =
     (case (means, variances, out_mean, out_variance) of
        (Some means, Some variances, Some _, Some _) \<Rightarrow>
          if count = 0 then Inl OBICALL_ERR_INVALID_ARGUMENT
          else
            (case fuse_scan (take (unat count) (zip means variances)) 0 0 of
               Inl st \<Rightarrow> Inl st
             | Inr (sum_inv_var, sum_mean_over_var) \<Rightarrow>
                 Inr (divide sum_mean_over_var sum_inv_var, divide 1 sum_inv_var))
      | _ \<Rightarrow> Inl OBICALL_ERR_NULL_POINTER)"

text \<open>The example of \<^verbatim>\<open>docs/VALIDATION.md\<close>: 10.0 and 10.4 m with 0.04 and 0.16 square metres fuse to 10.08 m and 0.032 square metres.\<close>

lemma documented_fusion:
  "obicall_static_fuse_1d (Some [double_lit 10 1, double_lit 104 10])
     (Some [double_lit 4 100, double_lit 16 100]) 2 (Some 0) (Some 0) =
   Inr (double_lit 1008 100, double_lit 32 1000)"
  by code_simp

section \<open>Laws\<close>

definition wf_kalman :: "obicall_kalman_state \<Rightarrow> bool" where
  "wf_kalman s \<longleftrightarrow> length (ks_mean s) = 4 \<and> length (ks_covariance s) = 16"

lemma length_grid [simp]: "length (concat (map (\<lambda>i. map (f i) [0..<SD]) [0..<SD])) = 16"
  by (simp add: length_concat upt_rec)

lemma init_wf: "wf_kalman (obicall_kalman_init params x0 y0 time_ns)"
  by (simp add: wf_kalman_def obicall_kalman_init_def)

lemma predicted_wf: "wf_kalman s \<Longrightarrow> wf_kalman (predicted params time_ns dt s)"
  by (simp add: wf_kalman_def predicted_def Let_def transition_def)

lemma corrected_wf: "wf_kalman s \<Longrightarrow> wf_kalman (corrected zx zy r s)"
  by (simp add: wf_kalman_def corrected_def Let_def)

lemma predict_cases:
  obtains (refused) st where "obicall_kalman_predict (Some s) (Some params) time_ns = (st, Some s)" "st \<noteq> OBICALL_OK"
      "st = OBICALL_ERR_INVALID_ARGUMENT \<or> st = OBICALL_ERR_VALIDATION_TIMING"
  | (same) "obicall_kalman_predict (Some s) (Some params) time_ns = (OBICALL_OK, Some s)"
      "time_ns = ks_last_update_time_ns s" "ks_initialized s \<noteq> 0"
  | (moved) dt where "obicall_kalman_predict (Some s) (Some params) time_ns =
      (OBICALL_OK, Some (predicted params time_ns dt s))" "ks_initialized s \<noteq> 0"
proof -
  define dt where "dt = elapsed_seconds time_ns (ks_last_update_time_ns s)"
  have eq: "obicall_kalman_predict (Some s) (Some params) time_ns =
      (if ks_initialized s = 0 then (OBICALL_ERR_INVALID_ARGUMENT, Some s)
       else if time_ns = ks_last_update_time_ns s then (OBICALL_OK, Some s)
       else if dt < 0 \<or> kp_max_prediction_gap_s params > 0 \<and> dt > kp_max_prediction_gap_s params
       then (OBICALL_ERR_VALIDATION_TIMING, Some s)
       else (OBICALL_OK, Some (predicted params time_ns dt s)))"
    by (auto simp: obicall_kalman_predict_def dt_def Let_def)
  show thesis
    by (cases "ks_initialized s = 0"; cases "time_ns = ks_last_update_time_ns s";
       cases "dt < 0 \<or> kp_max_prediction_gap_s params > 0 \<and> dt > kp_max_prediction_gap_s params";
       use eq refused same moved in simp)
qed

lemma predict_ok:
  assumes "obicall_kalman_predict (Some s) (Some params) time_ns = (OBICALL_OK, Some s')" and "wf_kalman s"
  shows "wf_kalman s'" and "ks_last_update_time_ns s' = time_ns" and "ks_initialized s' = ks_initialized s"
    and "ks_initialized s \<noteq> 0"
  by (cases rule: predict_cases [of s params time_ns];
      use assms in \<open>auto simp: predicted_wf\<close>; simp add: predicted_def Let_def)+

lemma update_wf:
  assumes "wf_kalman s"
  shows "\<exists>st s'. obicall_kalman_update_position (Some s) (Some params) time_ns zx zy (Some r) = (st, Some s') \<and>
    wf_kalman s'"
  using assms
  by (cases rule: predict_cases [of s params time_ns])
    (simp_all add: obicall_kalman_update_position_def Let_def predicted_wf corrected_wf)

text \<open>
  C32: the contract of a filter update. Whatever the measurement is, the state keeps its shape. Only finite
  measurements are accepted, and then the state's time is the measurement's. A refused one leaves the state
  untouched - not initialised, time running backwards or too far ahead, a measurement that is not finite -
  or, when the innovation covariance is singular, exactly as the prediction alone leaves it.
\<close>

theorem kalman_update_contract:
  assumes "wf_kalman s" and "length r = 4"
  shows "\<exists>st s'. obicall_kalman_update_position (Some s) (Some params) time_ns zx zy (Some r) = (st, Some s') \<and>
    wf_kalman s' \<and> ks_initialized s' = ks_initialized s \<and>
    (if st = OBICALL_OK
     then isfinite zx \<and> isfinite zy \<and> list_all isfinite r \<and> ks_initialized s \<noteq> 0 \<and> ks_last_update_time_ns s' = time_ns
     else if st = OBICALL_ERR_VALIDATION_COVARIANCE
     then obicall_kalman_predict (Some s) (Some params) time_ns = (OBICALL_OK, Some s')
     else s' = s \<and> st \<in> {OBICALL_ERR_INVALID_ARGUMENT, OBICALL_ERR_VALIDATION_TIMING, OBICALL_ERR_VALIDATION_NON_FINITE})"
proof (cases "isfinite zx \<and> isfinite zy \<and> list_all isfinite r")
  case False
  then show ?thesis using assms by (auto simp: obicall_kalman_update_position_def)
next
  case finite: True
  have upd: "obicall_kalman_update_position (Some s) (Some params) time_ns zx zy (Some r) =
      (case obicall_kalman_predict (Some s) (Some params) time_ns of
         (st, state) \<Rightarrow>
           if st \<noteq> OBICALL_OK then (st, state)
           else (let s = the state; det = det2 (innovation_covariance (square (ks_covariance s)) r) in
              if \<not> isfinite det \<or> \<bar>det\<bar> < double_lit 1 (10 ^ 15)
              then (OBICALL_ERR_VALIDATION_COVARIANCE, state)
              else (OBICALL_OK, Some (corrected zx zy r s))))"
    using finite assms(2) by (simp add: obicall_kalman_update_position_def)
  show ?thesis
  proof (cases "fst (obicall_kalman_predict (Some s) (Some params) time_ns) = OBICALL_OK")
    case False
    then show ?thesis using assms(1) unfolding upd
      by (cases rule: predict_cases [of s params time_ns]) auto
  next
    case True
    then obtain s1 where s1: "obicall_kalman_predict (Some s) (Some params) time_ns = (OBICALL_OK, Some s1)"
      by (cases rule: predict_cases [of s params time_ns]) auto
    have parts: "ks_last_update_time_ns (corrected zx zy r s1) = ks_last_update_time_ns s1"
      "ks_initialized (corrected zx zy r s1) = ks_initialized s1"
      by (simp_all add: corrected_def Let_def)
    note ok = predict_ok [OF s1 assms(1)]
    show ?thesis unfolding upd s1 using ok parts corrected_wf [OF ok(1)] finite by (simp add: Let_def)
  qed
qed

definition example_params :: obicall_kalman_params where
  "example_params = \<lparr>kp_process_noise_position = 0, kp_process_noise_velocity = 0,
     kp_initial_position_variance = 1, kp_initial_velocity_variance = 1, kp_max_prediction_gap_s = 0\<rparr>"

theorem kalman_update_contract_witness:
  "fst (obicall_kalman_update_position (Some (obicall_kalman_init example_params 0 0 5)) (Some example_params) 5 1 1
      (Some [1, 0, 0, 1])) = OBICALL_OK \<and>
   (\<exists>s'. obicall_kalman_update_position (Some (obicall_kalman_init example_params 0 0 5)) (Some example_params) 5 1 1
      (Some [1, 0, 0, 1]) = (OBICALL_OK, Some s') \<and> wf_kalman s' \<and> ks_last_update_time_ns s' = 5)"
proof -
  let ?s = "obicall_kalman_init example_params 0 0 5"
  let ?det = "det2 (innovation_covariance (square (ks_covariance ?s)) [1, 0, 0, 1])"
  have "isfinite ?det \<and> \<not> \<bar>?det\<bar> < double_lit 1 (10 ^ 15)" by code_simp
  moreover have "isfinite 1" "isfinite 0" by code_simp+
  moreover have "ks_initialized ?s = 1" "ks_last_update_time_ns ?s = 5" by (simp_all add: obicall_kalman_init_def)
  ultimately have ok: "fst (obicall_kalman_update_position (Some ?s) (Some example_params) 5 1 1
      (Some [1, 0, 0, 1])) = OBICALL_OK"
    by (simp add: obicall_kalman_update_position_def obicall_kalman_predict_def Let_def)
  then show ?thesis
    using kalman_update_contract [OF init_wf, of "[1, 0, 0, 1]" example_params 0 0 5 example_params 5 1 1] by auto
qed

end
