(* ===== verification/Cstrings.thy ===== *)
theory Cstrings
  imports Json_Min
begin

text \<open>
  The string functions of the C library as the processes use them on command lines, paths and small text
  files: bounded copying and printing, decimal integers both ways, \<^verbatim>\<open>strtok\<close>, \<^verbatim>\<open>strtod\<close> and
  \<^verbatim>\<open>printf("%.9g")\<close>. A C string is the list of its bytes before the NUL. The laws are the round trips the
  processes rely on.
\<close>

section \<open>Copying and printing\<close>

text \<open>\<^verbatim>\<open>strncpy\<close> of at most \<open>cap - 1\<close> bytes into a zeroed buffer of \<open>cap\<close>, as a string.\<close>

definition strncpy_str :: "nat \<Rightarrow> bytes \<Rightarrow> bytes" where
  "strncpy_str cap s = take (cap - 1) s"

text \<open>\<^verbatim>\<open>snprintf\<close>: the length it reports and the string it leaves in a buffer of \<open>cap > 0\<close> bytes.\<close>

definition snprintf :: "nat \<Rightarrow> bytes \<Rightarrow> nat \<times> bytes" where
  "snprintf cap text = (length text, take (cap - 1) text)"

text \<open>The decimal digits of a number that is not negative.\<close>

function digits :: "int \<Rightarrow> bytes" where
  "digits n = (if n < 10 then [0x30 + word_of_int n] else digits (n div 10) @ [0x30 + word_of_int (n mod 10)])"
  by pat_completeness auto
termination by (relation "measure nat") auto

declare digits.simps [simp del]

definition int_text :: "int \<Rightarrow> bytes" where
  "int_text i = (if i < 0 then MINUS # digits (- i) else digits i)"

section \<open>Reading numbers\<close>

definition is_space :: "u8 \<Rightarrow> bool" where
  "is_space c \<longleftrightarrow> c = 0x20 \<or> c \<ge> 0x09 \<and> c \<le> 0x0D"

text \<open>The sign and the digits at the front of a text, after white space.\<close>

definition scan_integer :: "bytes \<Rightarrow> bool \<times> bytes" where
  "scan_integer s =
     (let s = dropWhile is_space s;
          neg = (s \<noteq> [] \<and> hd s = MINUS);
          s = (if s \<noteq> [] \<and> (hd s = MINUS \<or> hd s = PLUS) then tl s else s)
      in (neg, takeWhile is_digit s))"

text \<open>\<^verbatim>\<open>strtoll(s, NULL, 10)\<close>: 0 without digits, saturated at the ends of the type.\<close>

definition strtoll :: "bytes \<Rightarrow> i64" where
  "strtoll s =
     (case scan_integer s of
        (neg, ds) \<Rightarrow>
          (let v = (if neg then - digits_value ds else digits_value ds)
           in word_of_int (max (- (2 ^ 63)) (min (2 ^ 63 - 1) v))))"

text \<open>
  \<^verbatim>\<open>sscanf(s, "%u", &v)\<close>: \<open>None\<close> when no digit is found. A value that does not fit, undefined in the
  standard, saturates at 64 bits before it is truncated, and a minus negates it.
\<close>

definition scan_unsigned :: "bytes \<Rightarrow> u32 option" where
  "scan_unsigned s =
     (case scan_integer s of
        (neg, ds) \<Rightarrow>
          if ds = [] then None
          else (let v = min (2 ^ 64 - 1) (digits_value ds)
                in Some (word_of_int (if neg then - v else v))))"

text \<open>
  \<^verbatim>\<open>strtod(s, NULL)\<close> on decimal texts, infinities and NaN; 0 when nothing is converted. The hexadecimal form,
  which no process writes, is not modelled.
\<close>

definition lower :: "u8 \<Rightarrow> u8" where
  "lower c = (if c \<ge> 0x41 \<and> c \<le> 0x5A then c + 0x20 else c)"

definition strtod_arg :: "bytes \<Rightarrow> double" where
  "strtod_arg s =
     (let s = dropWhile is_space s;
          neg = (s \<noteq> [] \<and> hd s = MINUS);
          rest = map lower (if s \<noteq> [] \<and> (hd s = MINUS \<or> hd s = PLUS) then tl s else s)
      in if take 3 rest = ascii ''inf'' then mk_double neg inf_mag
         else if take 3 rest = ascii ''nan'' then dnan
         else (case strtod s of Some d \<Rightarrow> d | None \<Rightarrow> 0))"

section \<open>Printing doubles\<close>

text \<open>\<open>n / d\<close> lies in the decade \<open>10 ^ X\<close> to \<open>10 ^ (X + 1)\<close>.\<close>

function negative_decade :: "int \<Rightarrow> int \<Rightarrow> int" where
  "negative_decade n d = (if n \<le> 0 \<or> n \<ge> d then 0 else negative_decade (10 * n) d - 1)"
  by pat_completeness auto
termination by (relation "measure (\<lambda>(n, d). nat (d - n))") auto

declare negative_decade.simps [simp del]

definition decade :: "int \<Rightarrow> int \<Rightarrow> int" where
  "decade n d = (if n < d then negative_decade n d else int (length (digits (n div d))) - 1)"

text \<open>The decimal exponent and the nine significant digits, rounded to nearest.\<close>

definition nine_digits :: "int \<Rightarrow> int \<Rightarrow> int \<times> int" where
  "nine_digits n d =
     (let x = decade n d;
          m = (if x \<le> 8 then rhe (n * 10 ^ nat (8 - x)) d else rhe n (d * 10 ^ nat (x - 8)))
      in if m = 10 ^ 9 then (x + 1, 10 ^ 8) else (x, m))"

definition strip_zeros :: "bytes \<Rightarrow> bytes" where
  "strip_zeros ds = rev (dropWhile (\<lambda>c. c = 0x30) (rev ds))"

definition with_fraction :: "bytes \<Rightarrow> bytes \<Rightarrow> bytes" where
  "with_fraction whole fraction = (if strip_zeros fraction = [] then whole else whole @ DOT # strip_zeros fraction)"

text \<open>\<^verbatim>\<open>"%.9g"\<close>.\<close>

definition g9_text :: "double \<Rightarrow> bytes" where
  "g9_text v =
     (let sign = (if dsign v then [MINUS] else []) in
      if isnan v then sign @ ascii ''nan''
      else if isinf v then sign @ ascii ''inf''
      else if dmag v = 0 then sign @ [0x30]
      else
        (case (if dexpo v \<ge> 0 then nine_digits (dmant v * 2 ^ nat (dexpo v)) 1
               else nine_digits (dmant v) (2 ^ nat (- dexpo v))) of
           (x, m) \<Rightarrow>
             (let ds = digits m in
              if -4 \<le> x \<and> x < 0 then sign @ with_fraction [0x30] (replicate (nat (- x - 1)) 0x30 @ ds)
              else if 0 \<le> x \<and> x < 9 then sign @ with_fraction (take (nat x + 1) ds) (drop (nat x + 1) ds)
              else sign @ with_fraction (take 1 ds) (drop 1 ds) @ [CH_e, if x < 0 then MINUS else PLUS] @
                (if \<bar>x\<bar> < 10 then 0x30 # digits \<bar>x\<bar> else digits \<bar>x\<bar>))))"

section \<open>Tokens and paths\<close>

text \<open>\<^verbatim>\<open>strtok\<close> over a separator: the non-empty pieces.\<close>

fun strtok :: "u8 \<Rightarrow> bytes \<Rightarrow> bytes list" where
  "strtok sep [] = []"
| "strtok sep (ch # cs) =
     (if ch = sep then strtok sep cs
      else (case strtok sep cs of
              [] \<Rightarrow> [[ch]]
            | tok # toks \<Rightarrow> if cs \<noteq> [] \<and> hd cs \<noteq> sep then (ch # tok) # toks else [ch] # tok # toks))"

abbreviation (input) SLASH :: u8 where "SLASH \<equiv> 0x2F"

definition is_slash :: "u8 \<Rightarrow> bool" where
  "is_slash c \<longleftrightarrow> c = SLASH \<or> c = BACKSLASH"

text \<open>What precedes the last character that satisfies \<open>P\<close>.\<close>

definition before_last :: "(u8 \<Rightarrow> bool) \<Rightarrow> bytes \<Rightarrow> bytes option" where
  "before_last P path =
     (if list_ex P path then Some (rev (tl (dropWhile (\<lambda>c. \<not> P c) (rev path)))) else None)"

text \<open>\<^verbatim>\<open>dirname_of\<close>: the part before the last slash or backslash, or the current directory.\<close>

definition dirname_of :: "bytes \<Rightarrow> nat \<Rightarrow> bytes" where
  "dirname_of path out_cap =
     (case before_last is_slash path of
        Some dir \<Rightarrow> take (out_cap - 1) dir
      | None \<Rightarrow> if out_cap > 1 then [DOT] else [])"

section \<open>Laws\<close>

lemma digits_value_append: "digits_value (ds @ [c]) = 10 * digits_value ds + (uint c - 48)"
  by (simp add: digits_value_def)

lemma digit_char:
  assumes "0 \<le> n" and "n < 10"
  shows "is_digit (0x30 + word_of_int n)" and "uint (0x30 + word_of_int n :: u8) = 48 + n"
proof -
  have "n \<in> set [0..9]" using assms by simp
  moreover have "list_all (\<lambda>n. is_digit (0x30 + word_of_int n)) [0..9]" by code_simp
  moreover have "list_all (\<lambda>n. uint (0x30 + word_of_int n :: u8) = 48 + n) [0..9]" by code_simp
  ultimately show "is_digit (0x30 + word_of_int n)" and "uint (0x30 + word_of_int n :: u8) = 48 + n"
    unfolding list_all_iff by blast+
qed

lemma digits_laws: "0 \<le> n \<Longrightarrow> list_all is_digit (digits n) \<and> digits_value (digits n) = n \<and> digits n \<noteq> []"
proof (induction n rule: digits.induct)
  case (1 n)
  show ?case
  proof (cases "n < 10")
    case True
    then show ?thesis using digit_char [OF 1(2) True] by (simp add: digits.simps [of n] digits_value_def)
  next
    case False
    have "0 \<le> n mod 10" "n mod 10 < 10" by simp_all
    note c = digit_char [OF this]
    have "0 \<le> n div 10" using False by simp
    then show ?thesis using 1(1) [OF False] c False by (simp add: digits.simps [of n] digits_value_append)
  qed
qed

lemma not_digit_facts: "is_digit c \<Longrightarrow> \<not> is_space c \<and> c \<noteq> MINUS \<and> c \<noteq> PLUS"
  unfolding is_digit_def is_space_def by (auto simp: word_le_nat_alt)

lemma scan_digits:
  assumes "list_all is_digit ds" and "ds \<noteq> []" and "rest = [] \<or> \<not> is_digit (hd rest)"
  shows "scan_integer (ds @ rest) = (False, ds)" and "scan_integer (MINUS # ds @ rest) = (True, ds)"
proof -
  obtain d ds' where ds: "ds = d # ds'" using assms(2) by (cases ds) simp_all
  then have "\<not> is_space d" "d \<noteq> MINUS" "d \<noteq> PLUS" using assms(1) not_digit_facts by simp_all
  moreover have "takeWhile is_digit (ds @ rest) = ds"
    using assms(1,3) by (cases rest) (auto simp: list_all_iff takeWhile_append)
  moreover have "\<not> is_space MINUS" by (simp add: is_space_def word_le_nat_alt)
  ultimately show "scan_integer (ds @ rest) = (False, ds)" and "scan_integer (MINUS # ds @ rest) = (True, ds)"
    by (simp_all add: scan_integer_def ds)
qed

lemma scan_int_text: "scan_integer (int_text i) = (i < 0, digits \<bar>i\<bar>)"
proof -
  have "0 \<le> \<bar>i\<bar>" by simp
  then have "list_all is_digit (digits \<bar>i\<bar>)" "digits \<bar>i\<bar> \<noteq> []" using digits_laws by blast+
  from scan_digits [OF this, of "[]"] show ?thesis by (cases "i < 0") (simp_all add: int_text_def)
qed

lemma strtoll_int_text:
  assumes "- (2 ^ 63) \<le> i" and "i < 2 ^ 63"
  shows "strtoll (int_text i) = word_of_int i"
proof -
  have v: "digits_value (digits \<bar>i\<bar>) = \<bar>i\<bar>" using digits_laws [of "\<bar>i\<bar>"] by simp
  have i: "(if i < 0 then - \<bar>i\<bar> else \<bar>i\<bar>) = i" by simp
  have "max (- (2 ^ 63)) (min (2 ^ 63 - 1) i) = i" using assms by linarith
  then show ?thesis unfolding strtoll_def scan_int_text prod.case Let_def v i by (rule arg_cong)
qed

lemma strtoll_signed: "strtoll (int_text (sint x)) = (x :: i64)"
proof -
  have "- (2 ^ 63) \<le> sint x" "sint x < 2 ^ 63" using sint_ge [of x] sint_lt [of x] by simp_all
  then show ?thesis by (simp add: strtoll_int_text)
qed

lemma scan_unsigned_digits: "0 \<le> n \<Longrightarrow> n < 2 ^ 32 \<Longrightarrow> scan_unsigned (int_text n) = Some (word_of_int n)"
proof -
  assume n: "0 \<le> n" "n < 2 ^ 32"
  have v: "digits_value (digits n) = n" "digits n \<noteq> []" using digits_laws [OF n(1)] by simp_all
  have "min (2 ^ 64 - 1) n = n" using n by (simp add: min_def)
  then show ?thesis using n v by (simp add: scan_unsigned_def scan_int_text Let_def)
qed

end
