(* ===== verification/Broker.thy ===== *)
theory Broker
  imports Wire Dgt Estimator Digest Stdio Cstrings
begin

text \<open>
  \<^verbatim>\<open>src/broker/broker_main.c\<close>: a broker process. A reader thread queues what the journal streams; the main
  loop takes a batch, and for each entry chooses an action by the decision table, feeds the estimator and
  publishes a result to the gate; between batches it sends heartbeats and adopts the epoch the gate reports.
  A locked section is one step, so the system is the interleaving of the reader and the main loop.
\<close>

section \<open>State\<close>

abbreviation (input) QUEUE_CAP :: u32 where "QUEUE_CAP \<equiv> 512"
abbreviation (input) MAX_TRACKED_SENSORS :: u32 where "MAX_TRACKED_SENSORS \<equiv> 8"

record queue_entry =
  qe_window_seq :: u64
  qe_obs :: obicall_observation
  qe_admitted :: u32

record sensor_freshness =
  sf_sensor_id :: bytes
  sf_last_seen_ns :: i64

record broker_ctx =
  bc_broker_id :: u32
  bc_pipeline_id :: bytes
  bc_config_digest :: bytes
  bc_result_validity_ns :: i64
  bc_sensor_fresh_window_ns :: i64
  bc_queue :: "queue_entry list"
  bc_qhead :: u32
  bc_qtail :: u32
  bc_sensors :: "sensor_freshness list"
  bc_sensor_count :: u32
  bc_sensor_names :: "bytes list"
  bc_configured_sensor_count :: u32
  bc_kf :: obicall_kalman_state
  bc_kf_params :: obicall_kalman_params
  bc_kf_ready :: bool
  bc_last_processed_window_seq :: u64
  bc_dgt :: obicall_dgt_policy_table
  bc_dgt_hyst :: obicall_dgt_hysteresis_state
  bc_dgt_has_hyst :: bool
  bc_dgt_hysteresis_margin :: double
  bc_reader_alive :: bool

section \<open>Sensors\<close>

definition sensor_bit :: "broker_ctx \<Rightarrow> bytes \<Rightarrow> u32" where
  "sensor_bit c sensor_id =
     (case List.find (\<lambda>i. strncmp_eq (bc_sensor_names c ! i) sensor_id)
             [0..<unat (bc_configured_sensor_count c)] of
        Some i \<Rightarrow> push_bit i 1
      | None \<Rightarrow> 0)"

definition find_sensor :: "broker_ctx \<Rightarrow> bytes \<Rightarrow> nat option" where
  "find_sensor c sensor_id =
     List.find (\<lambda>i. strncmp_eq (sf_sensor_id (bc_sensors c ! i)) sensor_id) [0..<unat (bc_sensor_count c)]"

definition touch_sensor_locked :: "bytes \<Rightarrow> i64 \<Rightarrow> broker_ctx \<Rightarrow> broker_ctx" where
  "touch_sensor_locked sensor_id now c =
     (case find_sensor c sensor_id of
        Some i \<Rightarrow> c\<lparr>bc_sensors := (bc_sensors c)[i := (bc_sensors c ! i)\<lparr>sf_last_seen_ns := now\<rparr>]\<rparr>
      | None \<Rightarrow>
          if bc_sensor_count c < MAX_TRACKED_SENSORS
          then c\<lparr>bc_sensors := (bc_sensors c)[unat (bc_sensor_count c) :=
                   \<lparr>sf_sensor_id = strncpy_id sensor_id, sf_last_seen_ns = now\<rparr>],
                 bc_sensor_count := bc_sensor_count c + 1\<rparr>
          else c)"

definition sensor_observable_locked :: "broker_ctx \<Rightarrow> bytes \<Rightarrow> i64 \<Rightarrow> bool" where
  "sensor_observable_locked c sensor_id now =
     (case find_sensor c sensor_id of
        Some i \<Rightarrow> sint (now - sf_last_seen_ns (bc_sensors c ! i)) \<le> sint (bc_sensor_fresh_window_ns c)
      | None \<Rightarrow> False)"

section \<open>The built-in decision table\<close>

definition name64 :: "string \<Rightarrow> bytes" where
  "name64 s = map of_char s @ replicate (64 - length s) 0"

definition zero_action :: obicall_dgt_action where
  "zero_action = \<lparr>da_action_id = 0, da_name = replicate 64 0, da_sensor_subset_mask = 0,
     da_estimator_mode = 0, da_provider_name = replicate 64 0\<rparr>"

definition zero_cost :: obicall_dgt_cost_components where
  "zero_cost = \<lparr>cc_estimation_error = 0, cc_delay = 0, cc_coverage_loss = 0, cc_resource_cost = 0\<rparr>"

text \<open>One row of the table \<^verbatim>\<open>costs\<close>, in hundredths.\<close>

definition cost_entry :: "int list \<Rightarrow> obicall_dgt_cost_components" where
  "cost_entry h = \<lparr>cc_estimation_error = double_lit (h ! 0) 100, cc_delay = double_lit (h ! 1) 100,
     cc_coverage_loss = double_lit (h ! 2) 100, cc_resource_cost = double_lit (h ! 3) 100\<rparr>"

definition cost_row :: "int list list \<Rightarrow> obicall_dgt_cost_components list" where
  "cost_row rows = map cost_entry rows @ replicate (16 - length rows) zero_cost"

definition default_costs :: "int list list list" where
  "default_costs =
     [[[20, 10, 30, 10], [90, 10, 90, 10], [20, 10, 30, 10], [30, 60, 30, 10]],
      [[35, 10, 30, 10], [35, 10, 30, 10], [90, 10, 30, 10], [35, 10, 30, 10]],
      [[15, 10, 10, 20], [40, 10, 50, 20], [40, 10, 20, 20], [30, 35, 15, 20]]]"

definition default_action :: "string \<Rightarrow> u32 \<Rightarrow> u64 \<Rightarrow> obicall_dgt_action" where
  "default_action name action_id sensor_mask =
     zero_action\<lparr>da_name := name64 name, da_action_id := action_id, da_sensor_subset_mask := sensor_mask,
       da_estimator_mode := 0\<rparr>"

definition default_scenario :: "u32 \<Rightarrow> string \<Rightarrow> obicall_dgt_scenario" where
  "default_scenario scenario_id name = \<lparr>ds_scenario_id = scenario_id, ds_name = name64 name\<rparr>"

definition init_default_dgt_table :: obicall_dgt_policy_table where
  "init_default_dgt_table =
     \<lparr>pt_struct_size = sizeof_policy_table, pt_schema_version = OBICALL_DGT_POLICY_SCHEMA_VERSION,
      pt_policy_version = 1, pt_action_count = 3,
      pt_actions = [default_action ''position_only'' 0 1, default_action ''inertial_only'' 1 2,
        default_action ''balanced'' 2 3] @ replicate 13 zero_action,
      pt_scenario_count = 4,
      pt_scenarios = [default_scenario 0 ''nominal'', default_scenario 1 ''position_dropout'',
        default_scenario 2 ''inertial_bias'', default_scenario 3 ''processing_delay''] @
        replicate 12 \<lparr>ds_scenario_id = 0, ds_name = replicate 64 0\<rparr>,
      pt_weights = \<lparr>w_estimation_error = double_lit 5 10, w_delay = double_lit 2 10,
        w_coverage_loss = double_lit 2 10, w_resource_cost = double_lit 1 10\<rparr>,
      pt_cost = map cost_row default_costs @ replicate 13 (replicate 16 zero_cost),
      pt_scale_estimation_error = 1, pt_scale_delay = 1, pt_scale_coverage_loss = 1,
      pt_scale_resource_cost = 1\<rparr>"

section \<open>The queue\<close>

definition queue_push :: "queue_entry \<Rightarrow> broker_ctx \<Rightarrow> broker_ctx" where
  "queue_push e c =
     (let next_tail = (bc_qtail c + 1) mod QUEUE_CAP
      in if next_tail \<noteq> bc_qhead c
         then c\<lparr>bc_queue := (bc_queue c)[unat (bc_qtail c) := e], bc_qtail := next_tail\<rparr>
         else c)"

text \<open>
  A frame from the journal. The reader keeps the last decoded observation until its decision arrives. When
  an observation fails to decode the buffer keeps what the decoder has written, \<open>residue\<close>.
\<close>

definition fresh_decision :: obicall_msg_admission_decision where
  "fresh_decision = \<lparr>ad_pipeline_id = replicate 32 0, ad_window_seq = 0, ad_sensor_id = replicate 32 0,
     ad_sequence = 0, ad_admitted = 0, ad_reason_code = 0, ad_decided_at_ns = 0\<rparr>"

definition reader_frame :: "obicall_observation \<Rightarrow> u8 \<Rightarrow> bytes \<Rightarrow> obicall_observation \<times> bool \<Rightarrow> broker_ctx \<Rightarrow>
    (obicall_observation \<times> bool) \<times> broker_ctx \<times> queue_entry option" where
  "reader_frame residue msg_type payload pending c =
     (case pending of (pending_obs, have_pending) \<Rightarrow>
        if msg_type = OBICALL_MSG_REPLAY_DATA
        then (case obicall_wire_decode_observation (Some payload) (of_nat (length payload)) (Some pending_obs) of
                Inr obs \<Rightarrow> ((obs, True), c, None)
              | Inl _ \<Rightarrow> ((residue, have_pending), c, None))
        else if msg_type = OBICALL_MSG_ADMISSION_DECISION \<and> have_pending
        then (case obicall_wire_decode_admission_decision (Some payload) (of_nat (length payload))
                     (Some fresh_decision) of
                Inr dec \<Rightarrow>
                  (let e = \<lparr>qe_window_seq = ad_window_seq dec, qe_obs = pending_obs, qe_admitted = ad_admitted dec\<rparr>
                   in ((pending_obs, False), queue_push e c, Some e))
              | Inl _ \<Rightarrow> ((pending_obs, False), c, None))
        else (pending, c, None))"

text \<open>The loop that takes the batch, at most \<open>n\<close> entries.\<close>

primrec take_batch :: "nat \<Rightarrow> broker_ctx \<Rightarrow> queue_entry list \<times> broker_ctx" where
  "take_batch 0 c = ([], c)"
| "take_batch (Suc n) c =
     (if bc_qhead c \<noteq> bc_qtail c
      then (case take_batch n (c\<lparr>bc_qhead := (bc_qhead c + 1) mod QUEUE_CAP\<rparr>) of
              (batch, c') \<Rightarrow> (bc_queue c ! unat (bc_qhead c) # batch, c'))
      else ([], c))"

section \<open>One entry\<close>

definition action_observable :: "broker_ctx \<Rightarrow> i64 \<Rightarrow> nat \<Rightarrow> bool" where
  "action_observable c now a =
     (let sensor_mask = da_sensor_subset_mask (pt_actions (bc_dgt c) ! a)
      in list_all (\<lambda>b. \<not> (sensor_mask AND push_bit b 1 \<noteq> 0 \<and>
             \<not> sensor_observable_locked c (bc_sensor_names c ! b) now))
           [0..<unat (bc_configured_sensor_count c)] \<and> sensor_mask \<noteq> 0)"

definition eligible_actions :: "broker_ctx \<Rightarrow> i64 \<Rightarrow> obicall_dgt_eligibility" where
  "eligible_actions c now =
     (let n = unat (pt_action_count (bc_dgt c))
      in \<lparr>el_action_eligible = memcpy (replicate 16 0) 0
            (map (\<lambda>a. if action_observable c now a then 1 else 0) [0..<n])\<rparr>)"

text \<open>The decision, the mask of the sensors the estimator may use, and the state.\<close>

definition choose_action :: "bool \<Rightarrow> i64 \<Rightarrow> broker_ctx \<Rightarrow> (obicall_dgt_decision \<times> u32 \<times> broker_ctx) option" where
  "choose_action dgt_enabled now c =
     (let configured = bc_configured_sensor_count c;
          all_sensors = (if configured > 0 then push_bit (unat configured) 1 - 1 else 0xFFFFFFFF)
      in if dgt_enabled \<and> configured > 0
         then
           (case obicall_dgt_select_action (Some (bc_dgt c)) (Some (eligible_actions c now))
                   (if bc_dgt_has_hyst c then Some (bc_dgt_hyst c) else None) (bc_dgt_hysteresis_margin c) 0
                   (Some zero_decision) (Some zero_hysteresis) of
              None \<Rightarrow> None
            | Some (st, decision, hout) \<Rightarrow>
                if st = OBICALL_OK
                then
                  (case read_at (pt_actions (bc_dgt c)) (unat (dd_selected_action_index (the decision))) of
                     None \<Rightarrow> None
                   | Some action \<Rightarrow> Some (the decision, ucast (da_sensor_subset_mask action),
                       c\<lparr>bc_dgt_hyst := the hout, bc_dgt_has_hyst := True\<rparr>))
                else Some (the decision, all_sensors, c))
         else Some (zero_decision, all_sensors, c))"

definition feed_estimator :: "u32 \<Rightarrow> queue_entry \<Rightarrow> broker_ctx \<Rightarrow> bool \<times> broker_ctx" where
  "feed_estimator selected_mask e c =
     (let obs = qe_obs e in
      if qe_admitted e \<noteq> 0 \<and> selected_mask AND sensor_bit c (obs_sensor_id obs) \<noteq> 0 \<and>
         obs_payload_shape obs = OBICALL_SHAPE_POSITION_2D
      then
        (if \<not> bc_kf_ready c
         then (True, c\<lparr>bc_kf := obicall_kalman_init (bc_kf_params c) (obs_payload obs ! 0) (obs_payload obs ! 1)
                  (obs_sample_time_ns obs), bc_kf_ready := True\<rparr>)
         else
           (case obicall_kalman_update_position (Some (bc_kf c)) (Some (bc_kf_params c)) (obs_sample_time_ns obs)
                   (obs_payload obs ! 0) (obs_payload obs ! 1) (Some (take 4 (obs_covariance obs))) of
              (st, kf) \<Rightarrow> (st = OBICALL_OK, c\<lparr>bc_kf := the kf\<rparr>)))
      else (False, c))"

definition compute_result_digest_from_obs :: "obicall_observation \<Rightarrow> bytes" where
  "compute_result_digest_from_obs obs =
     (case obicall_wire_encode_observation (Some obs) (Some (replicate 1200 0)) 1200 (Some 0) of
        Inr (buf, len) \<Rightarrow> the (obicall_sha256 (take (unat len) buf))
      | Inl _ \<Rightarrow> replicate 32 0)"

definition zero_result :: obicall_result where
  "zero_result = \<lparr>res_struct_size = 0, res_schema_version = 0, res_pipeline_id = replicate 32 0,
     res_window_seq = 0, res_broker_id = 0, res_epoch = 0, res_status = 0, res_payload_shape = 0,
     res_payload_count = 0, res_payload = replicate 6 0, res_covariance_count = 0,
     res_covariance = replicate 36 0, res_input_digest = replicate 32 0,
     res_config_digest = replicate 32 0, res_timestamp_ns = 0, res_valid_until_ns = 0,
     res_source_count = 0, res_sources = replicate 8 (replicate 32 0), res_dgt_action_id = 0\<rparr>"

text \<open>The trace of the position covariance is \<^verbatim>\<open>kf.covariance[0] + kf.covariance[5]\<close>.\<close>

definition degraded_estimate :: "bool \<Rightarrow> obicall_dgt_decision \<Rightarrow> broker_ctx \<Rightarrow> bool" where
  "degraded_estimate dgt_enabled decision c \<longleftrightarrow>
     ks_covariance (bc_kf c) ! 0 + ks_covariance (bc_kf c) ! 5 > double_lit 4 1 \<or>
     (dgt_enabled \<and> dd_eligible_count decision > 0 \<and> dd_eligible_count decision < pt_action_count (bc_dgt c))"

definition build_result :: "bool \<Rightarrow> i64 \<Rightarrow> u64 \<Rightarrow> queue_entry \<Rightarrow> obicall_dgt_decision \<Rightarrow> bool \<Rightarrow> broker_ctx \<Rightarrow>
    obicall_result" where
  "build_result dgt_enabled now epoch e decision used_in_estimator c =
     (let r = zero_result\<lparr>res_struct_size := sizeof_result, res_schema_version := OBICALL_RESULT_SCHEMA_VERSION,
            res_pipeline_id := strncpy_id (bc_pipeline_id c), res_window_seq := qe_window_seq e,
            res_broker_id := bc_broker_id c, res_epoch := epoch\<rparr>;
          kf = bc_kf c;
          r = (if \<not> bc_kf_ready c then r\<lparr>res_status := OBICALL_RESULT_INVALID\<rparr>
               else r\<lparr>res_status := (if degraded_estimate dgt_enabled decision c
                        then OBICALL_RESULT_DEGRADED else OBICALL_RESULT_VALID),
                      res_payload_shape := OBICALL_SHAPE_POSITION_2D, res_payload_count := 2,
                      res_payload := memcpy (res_payload r) 0 [ks_mean kf ! 0, ks_mean kf ! 1],
                      res_covariance_count := 4,
                      res_covariance := memcpy (res_covariance r) 0 [ks_covariance kf ! 0, ks_covariance kf ! 1,
                        ks_covariance kf ! 4, ks_covariance kf ! 5]\<rparr>);
          r = r\<lparr>res_input_digest := compute_result_digest_from_obs (qe_obs e),
                res_config_digest := bc_config_digest c, res_timestamp_ns := now,
                res_valid_until_ns := now + bc_result_validity_ns c\<rparr>;
          r = (if used_in_estimator
               then r\<lparr>res_source_count := 1,
                      res_sources := (res_sources r)[0 := strncpy_id (obs_sensor_id (qe_obs e))]\<rparr>
               else r)
      in r\<lparr>res_dgt_action_id := (if dgt_enabled then dd_selected_action_id decision else 0xFFFFFFFF)\<rparr>)"

text \<open>The locked section for one entry of the batch: the result, and the state.\<close>

definition process_entry :: "bool \<Rightarrow> i64 \<Rightarrow> u64 \<Rightarrow> queue_entry \<Rightarrow> broker_ctx \<Rightarrow>
    (obicall_result \<times> broker_ctx) option" where
  "process_entry dgt_enabled now epoch e c =
     (let c = (if qe_admitted e \<noteq> 0 then touch_sensor_locked (obs_sensor_id (qe_obs e)) now c else c)
      in case choose_action dgt_enabled now c of
           None \<Rightarrow> None
         | Some (decision, selected_mask, c) \<Rightarrow>
             (case feed_estimator selected_mask e c of
                (used_in_estimator, c) \<Rightarrow>
                  (let c = c\<lparr>bc_last_processed_window_seq := qe_window_seq e\<rparr>
                   in Some (build_result dgt_enabled now epoch e decision used_in_estimator c, c))))"

type_synonym frame = "u8 \<times> bytes"

text \<open>The frame to the gate, when the result can be encoded.\<close>

definition publish_frame :: "obicall_result \<Rightarrow> frame option" where
  "publish_frame r =
     (case obicall_wire_encode_result (Some r) (Some (replicate 2048 0)) 2048 (Some 0) of
        Inl _ \<Rightarrow> None
      | Inr (rbuf, rlen) \<Rightarrow> Some (OBICALL_MSG_RESULT_PUBLISH, take (unat rlen) rbuf))"

section \<open>Heartbeats\<close>

definition heartbeat_message :: "i64 \<Rightarrow> u64 \<Rightarrow> broker_ctx \<Rightarrow> obicall_msg_heartbeat" where
  "heartbeat_message now epoch c =
     \<lparr>hb_broker_id = bc_broker_id c, hb_epoch = epoch, hb_last_window_seq = bc_last_processed_window_seq c,
      hb_config_digest = bc_config_digest c, hb_checkpoint_schema_version = OBICALL_CHECKPOINT_SCHEMA_VERSION,
      hb_healthy = (if bc_reader_alive c then 1 else 0), hb_sent_at_ns = now\<rparr>"

definition heartbeat_due :: "i64 \<Rightarrow> i64 \<Rightarrow> bool" where
  "heartbeat_due now last_heartbeat \<longleftrightarrow> sint (now - last_heartbeat) \<ge> 150 * 1000000"

definition fresh_status_reply :: obicall_msg_status_reply where
  "fresh_status_reply = \<lparr>sr_running = 0, sr_gate_epoch = 0, sr_owner_broker_id = 0,
     sr_last_committed_window_seq = 0, sr_uptime_ns = 0\<rparr>"

text \<open>The epoch and the owner the broker believes in, after the gate's reply.\<close>

definition adopt_reply :: "frame \<Rightarrow> u64 \<times> u32 \<Rightarrow> u64 \<times> u32" where
  "adopt_reply reply belief =
     (if fst reply = OBICALL_MSG_STATUS_REPLY
      then (case obicall_wire_decode_status_reply (Some (snd reply)) (of_nat (length (snd reply)))
                   (Some fresh_status_reply) of
              Inr r \<Rightarrow> (sr_gate_epoch r, sr_owner_broker_id r)
            | Inl _ \<Rightarrow> belief)
      else belief)"

section \<open>Startup\<close>

definition zero_observation :: obicall_observation where
  "zero_observation = \<lparr>obs_struct_size = 0, obs_schema_version = 0, obs_sensor_id = replicate 32 0,
     obs_source_boot_id = 0, obs_sequence = 0, obs_sample_time_ns = 0, obs_arrival_time_ns = 0,
     obs_clock_domain = 0, obs_time_uncertainty_s = 0, obs_coordinate_frame = 0, obs_units = 0,
     obs_calibration_version = 0, obs_payload_shape = 0, obs_payload_count = 0,
     obs_payload = replicate 6 0, obs_covariance_count = 0, obs_covariance = replicate 36 0\<rparr>"

record broker_args =
  ba_broker_id :: bytes
  ba_pipeline_id :: bytes
  ba_result_validity_ms :: i64
  ba_sensor_fresh_window_ms :: i64
  ba_dgt_hysteresis_margin :: double
  ba_kf_params :: obicall_kalman_params
  ba_sensor_ids_csv :: bytes
  ba_config_digest :: bytes

definition broker_startup :: "broker_args \<Rightarrow> broker_ctx" where
  "broker_startup args =
     (let names = take 8 (strtok 0x2C (take 255 (ba_sensor_ids_csv args)))
      in \<lparr>bc_broker_id = (if ba_broker_id args = [0x42] then OBICALL_BROKER_B else OBICALL_BROKER_A),
          bc_pipeline_id = strncpy_id (ba_pipeline_id args),
          bc_config_digest = ba_config_digest args,
          bc_result_validity_ns = ba_result_validity_ms args * 1000000,
          bc_sensor_fresh_window_ns = ba_sensor_fresh_window_ms args * 1000000,
          bc_queue = replicate 512 \<lparr>qe_window_seq = 0, qe_obs = zero_observation, qe_admitted = 0\<rparr>,
          bc_qhead = 0, bc_qtail = 0,
          bc_sensors = replicate 8 \<lparr>sf_sensor_id = replicate 32 0, sf_last_seen_ns = 0\<rparr>, bc_sensor_count = 0,
          bc_sensor_names = map strncpy_id names @ replicate (8 - length names) (replicate 32 0),
          bc_configured_sensor_count = of_nat (length names),
          bc_kf = \<lparr>ks_initialized = 0, ks_mean = replicate 4 0, ks_covariance = replicate 16 0,
            ks_last_update_time_ns = 0\<rparr>,
          bc_kf_params = ba_kf_params args, bc_kf_ready = False, bc_last_processed_window_seq = 0,
          bc_dgt = init_default_dgt_table,
          bc_dgt_hyst = zero_hysteresis, bc_dgt_has_hyst = False,
          bc_dgt_hysteresis_margin = ba_dgt_hysteresis_margin args, bc_reader_alive = True\<rparr>)"

section \<open>The queue is a bounded FIFO\<close>

definition queue_contents :: "broker_ctx \<Rightarrow> queue_entry list" where
  "queue_contents c = map (\<lambda>k. bc_queue c ! ((unat (bc_qhead c) + k) mod 512))
     [0..<(unat (bc_qtail c) + 512 - unat (bc_qhead c)) mod 512]"

definition wf_queue :: "broker_ctx \<Rightarrow> bool" where
  "wf_queue c \<longleftrightarrow> length (bc_queue c) = 512 \<and> unat (bc_qhead c) < 512 \<and> unat (bc_qtail c) < 512"

lemma unat_next: "unat x < 512 \<Longrightarrow> unat ((x + 1 :: u32) mod 512) = (unat x + 1) mod 512"
proof -
  assume "unat x < 512"
  then have "unat (x + 1) = unat x + 1" by (simp add: unat_word_ariths)
  then show ?thesis by (simp add: unat_mod)
qed

lemma ring_distance:
  assumes "h < 512" and "t < (512 :: nat)"
  shows "(h + (t + 512 - h) mod 512) mod 512 = t"
proof -
  have "(t + 512 - h) mod 512 = (if h \<le> t then t - h else t + 512 - h)" using assms by (simp add: mod_if)
  then show ?thesis using assms by simp
qed

lemma ring_index_inject:
  assumes "j < 512" and "k < 512" and "(h + j) mod 512 = (h + k) mod (512 :: nat)"
  shows "j = k"
proof -
  have upward: "a = b" if "b \<le> a" "a < 512" "(h + a) mod 512 = (h + b) mod 512" for a b
  proof -
    have "512 dvd (h + a) - (h + b)" using that by (subst (asm) mod_eq_dvd_iff_nat) simp_all
    then have "512 dvd a - b" by simp
    then have "\<not> 0 < a - b" using dvd_imp_le [of 512 "a - b"] that(2) by auto
    then show ?thesis using that(1) by simp
  qed
  show ?thesis using upward [of k j] upward [of j k] assms by (cases "k \<le> j") auto
qed

lemma length_queue_contents: "length (queue_contents c) = (unat (bc_qtail c) + 512 - unat (bc_qhead c)) mod 512"
  by (simp add: queue_contents_def)

lemma queue_push_contents:
  assumes "wf_queue c"
  shows "queue_contents (queue_push e c) =
      (if length (queue_contents c) < 511 then queue_contents c @ [e] else queue_contents c)"
    and "wf_queue (queue_push e c)"
proof -
  define h t where "h = unat (bc_qhead c)" and "t = unat (bc_qtail c)"
  define n where "n = (t + 512 - h) mod 512"
  have ht: "h < 512" "t < 512" and len: "length (bc_queue c) = 512"
    using assms by (simp_all add: wf_queue_def h_def t_def)
  have unext: "unat ((bc_qtail c + 1) mod 512) = (t + 1) mod 512" using ht(2) by (simp add: unat_next t_def)
  have n: "length (queue_contents c) = n" by (simp add: length_queue_contents n_def h_def t_def)
  have "n < 512" by (simp add: n_def)
  have tail: "(h + n) mod 512 = t" using ring_distance [OF ht] by (simp add: n_def)
  have next_n: "((t + 1) mod 512 + 512 - h) mod 512 = (n + 1) mod 512"
    using ht by (cases "h \<le> t") (auto simp: n_def mod_if)
  have full: "(bc_qtail c + 1) mod 512 = bc_qhead c \<longleftrightarrow> n = 511"
  proof -
    have "(bc_qtail c + 1) mod 512 = bc_qhead c \<longleftrightarrow> (t + 1) mod 512 = h"
      by (simp add: word_unat_eq_iff unext h_def)
    also have "\<dots> \<longleftrightarrow> n = 511" using ht by (cases "h \<le> t") (auto simp: n_def mod_if)
    finally show ?thesis .
  qed
  show "wf_queue (queue_push e c)"
    using assms unext by (simp add: queue_push_def Let_def wf_queue_def)
  show "queue_contents (queue_push e c) =
      (if length (queue_contents c) < 511 then queue_contents c @ [e] else queue_contents c)"
  proof (cases "n = 511")
    case True
    then show ?thesis using full n by (simp add: queue_push_def Let_def)
  next
    case False
    then have lt: "n < 511" using \<open>n < 512\<close> by simp
    have push: "queue_push e c = c\<lparr>bc_queue := (bc_queue c)[t := e], bc_qtail := (bc_qtail c + 1) mod 512\<rparr>"
      using full False by (simp add: queue_push_def Let_def t_def)
    have "queue_contents (queue_push e c) = map (\<lambda>k. (bc_queue c)[t := e] ! ((h + k) mod 512)) [0..<Suc n]"
      using lt next_n by (simp add: push queue_contents_def unext h_def [symmetric])
    also have "\<dots> = map (\<lambda>k. bc_queue c ! ((h + k) mod 512)) [0..<n] @ [e]"
    proof -
      have "(bc_queue c)[t := e] ! ((h + k) mod 512) = bc_queue c ! ((h + k) mod 512)" if "k < n" for k
      proof -
        have "t \<noteq> (h + k) mod 512" using ring_index_inject [of k n h] that lt tail by auto
        then show ?thesis by (rule nth_list_update_neq)
      qed
      then show ?thesis using tail len ht by simp
    qed
    finally show ?thesis using n lt by (simp add: queue_contents_def h_def t_def n_def)
  qed
qed

lemma take_batch_contents:
  "wf_queue c \<Longrightarrow> length (queue_contents c) \<le> n \<Longrightarrow>
     take_batch n c = (queue_contents c, c\<lparr>bc_qhead := bc_qtail c\<rparr>)"
proof (induction n arbitrary: c)
  case 0
  then have "(unat (bc_qtail c) + 512 - unat (bc_qhead c)) mod 512 = 0" by (simp add: length_queue_contents)
  then have "unat (bc_qtail c) = unat (bc_qhead c)"
    using 0(1) ring_distance [of "unat (bc_qhead c)" "unat (bc_qtail c)"] by (simp add: wf_queue_def)
  then have "bc_qtail c = bc_qhead c" by (simp add: word_unat_eq_iff)
  then show ?case by (simp add: queue_contents_def)
next
  case (Suc n)
  define h t where "h = unat (bc_qhead c)" and "t = unat (bc_qtail c)"
  have ht: "h < 512" "t < 512" using Suc.prems(1) by (simp_all add: wf_queue_def h_def t_def)
  show ?case
  proof (cases "bc_qhead c = bc_qtail c")
    case True
    then show ?thesis by (simp add: queue_contents_def)
  next
    case False
    then have ne: "h \<noteq> t" by (simp add: word_unat_eq_iff h_def t_def)
    let ?c = "c\<lparr>bc_qhead := (bc_qhead c + 1) mod 512\<rparr>"
    have uh: "unat ((bc_qhead c + 1) mod 512) = (h + 1) mod 512" using ht(1) by (simp add: unat_next h_def)
    have wf: "wf_queue ?c" using Suc.prems(1) uh by (simp add: wf_queue_def)
    have len: "(t + 512 - h) mod 512 = Suc ((t + 512 - (h + 1) mod 512) mod 512)"
      using ht ne by (cases "h \<le> t"; cases "h = 511") (auto simp: mod_if)
    have "map (\<lambda>k. bc_queue c ! ((h + k) mod 512)) [0..<Suc m] =
        bc_queue c ! h # map (\<lambda>k. bc_queue c ! (((h + 1) mod 512 + k) mod 512)) [0..<m]" for m
      using ht by (simp add: upt_conv_Cons map_Suc_upt [symmetric] mod_add_left_eq del: upt_Suc)
    then have contents: "queue_contents c = bc_queue c ! h # queue_contents ?c"
      using len uh by (simp add: queue_contents_def h_def t_def)
    have "take_batch n ?c = (queue_contents ?c, c\<lparr>bc_qhead := bc_qtail c\<rparr>)"
      using Suc.IH [OF wf] Suc.prems(2) contents by simp
    then show ?thesis using False contents by (simp add: h_def)
  qed
qed

end
