(* ===== verification/Broker_Run.thy ===== *)
theory Broker_Run
  imports Broker
begin

text \<open>
  The runs of a broker process: the interleaving of its reader thread with its main loop, as a step relation
  with ghosts for what was delivered and published. The laws: results follow the delivered stream, every
  result reaches the gate as it was built, processing never reads past an array, and the estimator is fed
  only what the selected action allows.
\<close>

section \<open>The interleaved system\<close>

text \<open>
  Besides the state: what the reader holds, the rest of the batch, the believed epoch and owner, the time of
  the last heartbeat, and as ghosts the entries delivered, whether one was dropped at a full queue, the
  entries processed, the results built and the frames sent.
\<close>

record brokerd =
  bk_ctx :: broker_ctx
  bk_pending :: "obicall_observation \<times> bool"
  bk_batch :: "queue_entry list"
  bk_belief :: "u64 \<times> u32"
  bk_last_heartbeat :: i64
  bk_delivered :: "queue_entry list"
  bk_dropped :: bool
  bk_processed :: "queue_entry list"
  bk_published :: "obicall_result list"
  bk_frames :: "frame list"

definition entries :: "queue_entry option \<Rightarrow> queue_entry list" where
  "entries e = (case e of None \<Rightarrow> [] | Some e \<Rightarrow> [e])"

definition frames :: "frame option \<Rightarrow> frame list" where
  "frames f = (case f of None \<Rightarrow> [] | Some f \<Rightarrow> [f])"

definition heartbeat_frame :: "obicall_msg_heartbeat \<Rightarrow> frame option" where
  "heartbeat_frame hb =
     (case obicall_wire_encode_heartbeat (Some hb) (Some (replicate 128 0)) 128 (Some 0) of
        Inl _ \<Rightarrow> None
      | Inr (hbuf, hlen) \<Rightarrow> Some (OBICALL_MSG_HEARTBEAT, take (unat hlen) hbuf))"

inductive brokerd_step :: "bool \<Rightarrow> brokerd \<Rightarrow> brokerd \<Rightarrow> bool" for dgt_enabled where
  receive: "length payload \<le> 2048 \<Longrightarrow> wf_observation residue \<Longrightarrow>
     reader_frame residue msg_type payload (bk_pending g) (bk_ctx g) = (pending, c, e) \<Longrightarrow>
     brokerd_step dgt_enabled g (g\<lparr>bk_pending := pending, bk_ctx := c, bk_delivered := bk_delivered g @ entries e,
       bk_dropped := bk_dropped g \<or> e \<noteq> None \<and> length (queue_contents (bk_ctx g)) = 511\<rparr>)"
| disconnect: "brokerd_step dgt_enabled g (g\<lparr>bk_ctx := (bk_ctx g)\<lparr>bc_reader_alive := False\<rparr>\<rparr>)"
| batch: "bk_batch g = [] \<Longrightarrow> take_batch (unat QUEUE_CAP) (bk_ctx g) = (b, c) \<Longrightarrow>
     brokerd_step dgt_enabled g (g\<lparr>bk_batch := b, bk_ctx := c\<rparr>)"
| process: "bk_batch g = e # es \<Longrightarrow>
     process_entry dgt_enabled now (fst (bk_belief g)) e (bk_ctx g) = Some (r, c) \<Longrightarrow>
     brokerd_step dgt_enabled g (g\<lparr>bk_batch := es, bk_ctx := c, bk_processed := bk_processed g @ [e],
       bk_published := bk_published g @ [r], bk_frames := bk_frames g @ frames (publish_frame r)\<rparr>)"
| heartbeat: "bk_batch g = [] \<Longrightarrow> heartbeat_due now (bk_last_heartbeat g) \<Longrightarrow>
     belief = (case reply of None \<Rightarrow> bk_belief g | Some f \<Rightarrow> adopt_reply f (bk_belief g)) \<Longrightarrow>
     brokerd_step dgt_enabled g (g\<lparr>bk_last_heartbeat := now, bk_belief := belief,
       bk_frames := bk_frames g @ frames (heartbeat_frame (heartbeat_message now (fst (bk_belief g)) (bk_ctx g)))\<rparr>)"

inductive brokerd_reachable :: "bool \<Rightarrow> broker_args \<Rightarrow> brokerd \<Rightarrow> bool" for dgt_enabled args where
  initial: "wf_observation obs \<Longrightarrow> brokerd_reachable dgt_enabled args
     \<lparr>bk_ctx = broker_startup args, bk_pending = (obs, False), bk_batch = [],
      bk_belief = (0, OBICALL_BROKER_NONE), bk_last_heartbeat = 0, bk_delivered = [], bk_dropped = False,
      bk_processed = [], bk_published = [], bk_frames = []\<rparr>"
| step: "brokerd_reachable dgt_enabled args g \<Longrightarrow> brokerd_step dgt_enabled g g' \<Longrightarrow>
     brokerd_reachable dgt_enabled args g'"

section \<open>Well-formed states\<close>

text \<open>The built-in table is valid, so the selector never falls back for its sake.\<close>

lemma default_table_valid: "valid_table init_default_dgt_table"
proof -
  have "fst (obicall_dgt_validate_table (Some init_default_dgt_table) None 0) = OBICALL_OK" by code_simp
  then show ?thesis by (simp add: validate_table_iff)
qed

lemma default_table_wf: "wf_policy_table init_default_dgt_table"
  by (simp add: wf_policy_table_def init_default_dgt_table_def default_costs_def cost_row_def)

definition wf_broker :: "broker_ctx \<Rightarrow> bool" where
  "wf_broker c \<longleftrightarrow> wf_queue c \<and> length (bc_sensors c) = 8 \<and> bc_sensor_count c \<le> 8 \<and>
     length (bc_sensor_names c) = 8 \<and> bc_configured_sensor_count c \<le> 8 \<and>
     length (bc_pipeline_id c) = 32 \<and> length (bc_config_digest c) = 32 \<and> wf_kalman (bc_kf c) \<and>
     bc_dgt c = init_default_dgt_table"

lemma startup_wf:
  assumes "length (ba_config_digest args) = 32"
  shows "wf_broker (broker_startup args)"
proof -
  have "length (take 8 xs) \<le> 8" for xs :: "bytes list" by simp
  then have "of_nat (length (take 8 xs)) \<le> (8 :: u32)" for xs :: "bytes list"
    by (simp add: word_le_nat_alt unat_of_nat min_def)
  then show ?thesis using assms
    by (simp add: wf_broker_def broker_startup_def Let_def wf_queue_def wf_kalman_def length_strncpy_id)
qed

lemma wf_queue_cong:
  "bc_queue c = bc_queue d \<Longrightarrow> bc_qhead c = bc_qhead d \<Longrightarrow> bc_qtail c = bc_qtail d \<Longrightarrow>
     wf_queue c = wf_queue d \<and> queue_contents c = queue_contents d"
  by (simp add: wf_queue_def queue_contents_def)

text \<open>What processing leaves alone.\<close>

definition same_plumbing :: "broker_ctx \<Rightarrow> broker_ctx \<Rightarrow> bool" where
  "same_plumbing c d \<longleftrightarrow> bc_queue c = bc_queue d \<and> bc_qhead c = bc_qhead d \<and> bc_qtail c = bc_qtail d \<and>
     bc_sensor_names c = bc_sensor_names d \<and> bc_configured_sensor_count c = bc_configured_sensor_count d \<and>
     bc_pipeline_id c = bc_pipeline_id d \<and> bc_config_digest c = bc_config_digest d \<and> bc_dgt c = bc_dgt d \<and>
     bc_broker_id c = bc_broker_id d \<and> bc_result_validity_ns c = bc_result_validity_ns d \<and>
     bc_sensor_fresh_window_ns c = bc_sensor_fresh_window_ns d"

lemma touch_sensor_laws:
  assumes "length (bc_sensors c) = 8" and "bc_sensor_count c \<le> 8"
  shows "same_plumbing c (touch_sensor_locked sensor_id now c)"
    and "length (bc_sensors (touch_sensor_locked sensor_id now c)) = 8"
    and "bc_sensor_count (touch_sensor_locked sensor_id now c) \<le> 8"
    and "bc_kf (touch_sensor_locked sensor_id now c) = bc_kf c"
    and "bc_kf_ready (touch_sensor_locked sensor_id now c) = bc_kf_ready c"
proof -
  have "bc_sensor_count c + 1 \<le> 8" if "bc_sensor_count c < 8" using that by (rule inc_le)
  then show "same_plumbing c (touch_sensor_locked sensor_id now c)"
    and "length (bc_sensors (touch_sensor_locked sensor_id now c)) = 8"
    and "bc_sensor_count (touch_sensor_locked sensor_id now c) \<le> 8"
    and "bc_kf (touch_sensor_locked sensor_id now c) = bc_kf c"
    and "bc_kf_ready (touch_sensor_locked sensor_id now c) = bc_kf_ready c"
    using assms by (auto simp: touch_sensor_locked_def same_plumbing_def split: option.splits)
qed

section \<open>Choosing an action\<close>

lemma eligible_nth:
  assumes "wf_broker c" and "a < 3"
  shows "el_action_eligible (eligible_actions c now) ! a \<noteq> 0 \<longleftrightarrow> action_observable c now a"
    and "length (el_action_eligible (eligible_actions c now)) = 16"
  using assms by (simp_all add: eligible_actions_def wf_broker_def init_default_dgt_table_def memcpy_def nth_append)

text \<open>Every loss of the built-in table is finite: its costs and weights are evaluated row by row.\<close>

definition row_loss :: "int list \<Rightarrow> double" where
  "row_loss h = double_lit 5 10 * divide (double_lit (h ! 0) 100) 1 + double_lit 2 10 * divide (double_lit (h ! 1) 100) 1 +
     double_lit 2 10 * divide (double_lit (h ! 2) 100) 1 + double_lit 1 10 * divide (double_lit (h ! 3) 100) 1"

definition finite_rows :: "int list list \<Rightarrow> bool" where
  "finite_rows rows = list_all isfinite (map row_loss rows)"

lemma default_losses_finite: "a < 3 \<Longrightarrow> list_all isfinite (losses init_default_dgt_table a)"
proof -
  assume a: "a < 3"
  have "isfinite (row_loss [20, 10, 30, 10])" "isfinite (row_loss [90, 10, 90, 10])"
    "isfinite (row_loss [30, 60, 30, 10])" by code_simp+
  moreover have "isfinite (row_loss [35, 10, 30, 10])" "isfinite (row_loss [90, 10, 30, 10])" by code_simp+
  moreover have "isfinite (row_loss [15, 10, 10, 20])" "isfinite (row_loss [40, 10, 50, 20])"
    "isfinite (row_loss [40, 10, 20, 20])" "isfinite (row_loss [30, 35, 15, 20])" by code_simp+
  ultimately have "list_all finite_rows default_costs" by (simp add: default_costs_def finite_rows_def)
  moreover have acts: "length default_costs = 3" by (simp add: default_costs_def)
  ultimately have "finite_rows (default_costs ! a)" using a by (simp add: list_all_length)
  moreover have rows: "length (default_costs ! a) = 4"
    using a by (auto simp: default_costs_def less_Suc_eq numeral_3_eq_3)
  have "loss_at init_default_dgt_table a s = row_loss (default_costs ! a ! s)" if "s < 4" for s
  proof -
    have "pt_cost init_default_dgt_table ! a ! s = cost_entry (default_costs ! a ! s)"
      using a that rows by (simp add: init_default_dgt_table_def nth_append acts cost_row_def)
    then show ?thesis
      by (simp add: loss_at_def scenario_loss_def row_loss_def cost_entry_def) (simp add: init_default_dgt_table_def)
  qed
  then have "losses init_default_dgt_table a = map row_loss (default_costs ! a)"
    by (intro nth_equalityI) (simp_all add: losses_def rows, simp_all add: init_default_dgt_table_def rows)
  ultimately show ?thesis by (simp add: finite_rows_def)
qed

lemma default_losses:
  assumes "a < 3"
  shows "\<exists>l. obicall_dgt_action_worst_case_loss (Some init_default_dgt_table) (of_nat a) (Some 0) = Some (Inr l)"
proof -
  have ib: "in_bounds init_default_dgt_table" using in_bounds_valid default_table_valid default_table_wf by blast
  have "unat (of_nat a :: u32) = a" using assms by (simp add: unat_of_nat)
  moreover have "of_nat a < pt_action_count init_default_dgt_table" "pt_scenario_count init_default_dgt_table \<noteq> 0"
    using assms by (simp_all add: init_default_dgt_table_def word_less_nat_alt unat_of_nat)
  ultimately show ?thesis
    using worst_case_loss_laws [OF ib, of "of_nat a" 0] default_losses_finite [OF assms] by auto
qed

lemma default_candidate:
  assumes "wf_broker c" and "a < 3"
  shows "(\<exists>l. candidate init_default_dgt_table (el_action_eligible (eligible_actions c now)) a l) \<longleftrightarrow>
    action_observable c now a"
proof -
  have "of_nat a < (3 :: u32)" using assms(2) by (simp add: word_less_nat_alt unat_of_nat)
  then show ?thesis
    using default_losses [OF assms(2)] eligible_nth(1) [OF assms, of now]
    by (simp add: candidate_def init_default_dgt_table_def)
qed

lemma choose_action_off:
  assumes "\<not> (dgt_enabled \<and> bc_configured_sensor_count c > 0)"
  shows "\<exists>sensor_mask. choose_action dgt_enabled now c = Some (zero_decision, sensor_mask, c)"
  unfolding choose_action_def Let_def if_not_P [OF assms] by simp

lemma choose_action_on:
  assumes "dgt_enabled \<and> bc_configured_sensor_count c > 0"
    and "obicall_dgt_select_action (Some (bc_dgt c)) (Some (eligible_actions c now))
      (if bc_dgt_has_hyst c then Some (bc_dgt_hyst c) else None) (bc_dgt_hysteresis_margin c) 0
      (Some zero_decision) (Some zero_hysteresis) = Some (st, Some d, h)"
  shows "st = OBICALL_OK \<Longrightarrow> unat (dd_selected_action_index d) < length (pt_actions (bc_dgt c)) \<Longrightarrow>
      choose_action dgt_enabled now c =
        Some (d, ucast (da_sensor_subset_mask (pt_actions (bc_dgt c) ! unat (dd_selected_action_index d))),
          c\<lparr>bc_dgt_hyst := the h, bc_dgt_has_hyst := True\<rparr>)"
    and "st \<noteq> OBICALL_OK \<Longrightarrow> \<exists>sensor_mask. choose_action dgt_enabled now c = Some (d, sensor_mask, c)"
  unfolding choose_action_def Let_def if_P [OF assms(1)] assms(2) by (simp_all add: read_at_def)

text \<open>
  Selection for the broker: either the table is not in use, or the selected action is observable, or no
  action is.
\<close>

lemma choose_action_cases:
  assumes "wf_broker c"
  obtains (off) sensor_mask where "\<not> (dgt_enabled \<and> bc_configured_sensor_count c > 0)"
      "choose_action dgt_enabled now c = Some (zero_decision, sensor_mask, c)"
  | (selected) a d h where "dgt_enabled" "a < 3" "action_observable c now a"
      "dd_selected_action_id d = da_action_id (pt_actions (bc_dgt c) ! a)"
      "choose_action dgt_enabled now c = Some (d, ucast (da_sensor_subset_mask (pt_actions (bc_dgt c) ! a)),
         c\<lparr>bc_dgt_hyst := h, bc_dgt_has_hyst := True\<rparr>)"
  | (none) sensor_mask where "dgt_enabled" "\<And>a. a < 3 \<Longrightarrow> \<not> action_observable c now a"
      "choose_action dgt_enabled now c = Some (zero_decision, sensor_mask, c)"
proof (cases "dgt_enabled \<and> bc_configured_sensor_count c > 0")
  case False
  then show thesis using choose_action_off [OF False] off by blast
next
  case on: True
  define el where "el = el_action_eligible (eligible_actions c now)"
  have dgt: "bc_dgt c = init_default_dgt_table" using assms by (simp add: wf_broker_def)
  have ib: "in_bounds init_default_dgt_table" using in_bounds_valid default_table_valid default_table_wf by blast
  have len: "length (el_action_eligible (eligible_actions c now)) = 16" using eligible_nth(2) [OF assms, of 0] by simp
  have count: "pt_action_count init_default_dgt_table = 3" "length (pt_actions init_default_dgt_table) = 16"
    by (simp_all add: init_default_dgt_table_def)
  obtain st d h where sel: "obicall_dgt_select_action (Some (bc_dgt c)) (Some (eligible_actions c now))
      (if bc_dgt_has_hyst c then Some (bc_dgt_hyst c) else None) (bc_dgt_hysteresis_margin c) 0
      (Some zero_decision) (Some zero_hysteresis) = Some (st, Some d, h)"
    and laws: "if st = OBICALL_OK
     then candidate init_default_dgt_table el (unat (dd_selected_action_index d)) (dd_worst_case_loss d) \<and>
       dd_selected_action_id d = da_action_id (pt_actions init_default_dgt_table ! unat (dd_selected_action_index d)) \<and>
       (\<not> valid_table init_default_dgt_table \<longrightarrow> dd_selected_action_index d = 0 \<and> dd_used_fallback_baseline d = 1)
     else st = OBICALL_ERR_DGT_NO_ELIGIBLE_ACTION \<and> d = zero_decision \<and>
       (\<forall>l. \<not> candidate init_default_dgt_table el (unat (0 :: u32)) l) \<and>
       (valid_table init_default_dgt_table \<longrightarrow> (\<forall>a < pt_action_count init_default_dgt_table. \<forall>l.
          \<not> candidate init_default_dgt_table el (unat a) l))"
    using selection_laws [OF ib len, of "if bc_dgt_has_hyst c then Some (bc_dgt_hyst c) else None"
      "bc_dgt_hysteresis_margin c" 0 zero_decision "Some zero_hysteresis"]
    unfolding dgt el_def by blast
  show thesis
  proof (cases "st = OBICALL_OK")
    case True
    note ok = laws [unfolded if_P [OF True]]
    define a where "a = unat (dd_selected_action_index d)"
    have a: "a < 3" using ok by (simp add: candidate_def count word_less_nat_alt a_def)
    have obs: "action_observable c now a"
      using default_candidate [OF assms a] ok unfolding a_def el_def by blast
    have act: "dd_selected_action_id d = da_action_id (pt_actions (bc_dgt c) ! a)"
      using ok unfolding a_def dgt by blast
    have "unat (dd_selected_action_index d) < length (pt_actions (bc_dgt c))"
      using a count(2) unfolding a_def dgt by linarith
    then show thesis
      using selected [OF conjunct1 [OF on] a obs act] choose_action_on(1) [OF on sel True] unfolding a_def by blast
  next
    case False
    note err = laws [unfolded if_not_P [OF False]]
    have "\<not> action_observable c now a" if "a < 3" for a
    proof -
      have "of_nat a < (3 :: u32)" "unat (of_nat a :: u32) = a" using that by (simp_all add: word_less_nat_alt unat_of_nat)
      then have "\<not> candidate init_default_dgt_table el a l" for l
        using err default_table_valid count(1) by metis
      then show ?thesis using default_candidate [OF assms that] unfolding el_def by blast
    qed
    then show thesis using choose_action_on(2) [OF on sel False] err conjunct1 [OF on] none by blast
  qed
qed

section \<open>Processing an entry\<close>

lemma choose_action_total:
  assumes "wf_broker c"
  obtains d selected_mask c' where "choose_action dgt_enabled now c = Some (d, selected_mask, c')"
    "same_plumbing c c'" "wf_broker c'" "bc_kf c' = bc_kf c" "bc_kf_ready c' = bc_kf_ready c"
  using assms
proof (cases rule: choose_action_cases [where now = now and dgt_enabled = dgt_enabled])
  case (off selected_mask)
  then show thesis using that assms by (simp add: same_plumbing_def)
next
  case (selected a d h)
  then show thesis using that assms by (simp add: same_plumbing_def wf_broker_def wf_queue_def)
next
  case (none selected_mask)
  then show thesis using that assms by (simp add: same_plumbing_def)
qed

lemma feed_estimator_laws:
  assumes "wf_broker c" and "feed_estimator selected_mask e c = (used, c')"
  shows "same_plumbing c c'" and "wf_broker c'"
    and "used \<Longrightarrow> qe_admitted e \<noteq> 0 \<and> selected_mask AND sensor_bit c (obs_sensor_id (qe_obs e)) \<noteq> 0 \<and>
      obs_payload_shape (qe_obs e) = OBICALL_SHAPE_POSITION_2D"
    and "used \<Longrightarrow> bc_kf_ready c'" and "bc_kf_ready c \<Longrightarrow> bc_kf_ready c'"
proof -
  obtain st kf where upd: "obicall_kalman_update_position (Some (bc_kf c)) (Some (bc_kf_params c))
      (obs_sample_time_ns (qe_obs e)) (obs_payload (qe_obs e) ! 0) (obs_payload (qe_obs e) ! 1)
      (Some (take 4 (obs_covariance (qe_obs e)))) = (st, Some kf)" "wf_kalman kf"
    using update_wf assms(1) unfolding wf_broker_def by blast
  have cong: "wf_queue (c\<lparr>bc_kf := k, bc_kf_ready := True\<rparr>) = wf_queue c" "wf_queue (c\<lparr>bc_kf := k\<rparr>) = wf_queue c" for k
    by (simp_all add: wf_queue_def)
  show "same_plumbing c c'" and "wf_broker c'"
    and "used \<Longrightarrow> qe_admitted e \<noteq> 0 \<and> selected_mask AND sensor_bit c (obs_sensor_id (qe_obs e)) \<noteq> 0 \<and>
      obs_payload_shape (qe_obs e) = OBICALL_SHAPE_POSITION_2D"
    and "used \<Longrightarrow> bc_kf_ready c'" and "bc_kf_ready c \<Longrightarrow> bc_kf_ready c'"
    using assms upd cong init_wf
    by (auto simp: feed_estimator_def Let_def same_plumbing_def wf_broker_def split: if_splits)
qed

lemma input_digest_length: "length (compute_result_digest_from_obs obs) = 32"
  by (simp add: compute_result_digest_from_obs_def sha256_is_spec length_sha256_spec split: sum.split)

lemma one_source: "(replicate 8 x)[0 := s] = s # replicate 7 x"
  by (simp add: eval_nat_numeral)

lemma build_result_laws:
  assumes "wf_broker c" and r: "r = build_result dgt_enabled now epoch e d used c"
  shows "encodable_result r" and "norm_result r = r" and "res_window_seq r = qe_window_seq e"
    and "res_source_count r = (if used then 1 else 0)"
    and "used \<Longrightarrow> res_sources r ! 0 = strncpy_id (obs_sensor_id (qe_obs e))"
    and "res_dgt_action_id r = (if dgt_enabled then dd_selected_action_id d else 0xFFFFFFFF)"
    and "res_status r = (if \<not> bc_kf_ready c then OBICALL_RESULT_INVALID
      else if degraded_estimate dgt_enabled d c then OBICALL_RESULT_DEGRADED else OBICALL_RESULT_VALID)"
  unfolding r using assms(1)
  by (simp_all add: build_result_def Let_def zero_result_def encodable_result_def wf_result_def norm_result_def
      input_digest_length length_strncpy_id memcpy_zero wf_broker_def one_source)

text \<open>
  The step for one entry never reads past an array: it always gives a result, one the gate can be sent, and a
  state of the same shape.
\<close>

lemma wf_plumbing:
  assumes "same_plumbing c d" and "wf_broker c" and "length (bc_sensors d) = 8" and "bc_sensor_count d \<le> 8"
    and "wf_kalman (bc_kf d)"
  shows "wf_broker d"
  using assms unfolding wf_broker_def same_plumbing_def wf_queue_def by simp

lemma touched_wf:
  assumes "wf_broker c"
  shows "wf_broker (touch_sensor_locked sensor_id now c)"
proof -
  have len: "length (bc_sensors c) = 8" "bc_sensor_count c \<le> 8" and kf: "wf_kalman (bc_kf c)"
    using assms by (simp_all add: wf_broker_def)
  note t = touch_sensor_laws [OF len, of sensor_id now]
  show ?thesis by (rule wf_plumbing [OF t(1) assms t(2,3)]) (simp add: t(4) kf)
qed

definition touched :: "i64 \<Rightarrow> queue_entry \<Rightarrow> broker_ctx \<Rightarrow> broker_ctx" where
  "touched now e c = (if qe_admitted e \<noteq> 0 then touch_sensor_locked (obs_sensor_id (qe_obs e)) now c else c)"

lemma touched_laws:
  assumes "wf_broker c"
  shows "wf_broker (touched now e c)" and "same_plumbing c (touched now e c)"
proof -
  have len: "length (bc_sensors c) = 8" "bc_sensor_count c \<le> 8" using assms by (simp_all add: wf_broker_def)
  have refl: "same_plumbing c c" by (simp add: same_plumbing_def)
  show "wf_broker (touched now e c)" using assms touched_wf [OF assms] by (simp add: touched_def)
  show "same_plumbing c (touched now e c)" using refl touch_sensor_laws(1) [OF len] by (simp add: touched_def)
qed

lemma same_plumbing_trans: "same_plumbing c d \<Longrightarrow> same_plumbing d e \<Longrightarrow> same_plumbing c e"
  by (simp add: same_plumbing_def)

lemma same_plumbing_bit: "same_plumbing c d \<Longrightarrow> sensor_bit d sensor_id = sensor_bit c sensor_id"
  by (simp add: same_plumbing_def sensor_bit_def)

lemma process_entry_parts:
  assumes "wf_broker c"
  obtains d selected_mask c1 used c2 r where
    "choose_action dgt_enabled now (touched now e c) = Some (d, selected_mask, c1)"
    "feed_estimator selected_mask e c1 = (used, c2)"
    "r = build_result dgt_enabled now epoch e d used (c2\<lparr>bc_last_processed_window_seq := qe_window_seq e\<rparr>)"
    "process_entry dgt_enabled now epoch e c = Some (r, c2\<lparr>bc_last_processed_window_seq := qe_window_seq e\<rparr>)"
    "same_plumbing c c1" "wf_broker (c2\<lparr>bc_last_processed_window_seq := qe_window_seq e\<rparr>)"
    "same_plumbing c (c2\<lparr>bc_last_processed_window_seq := qe_window_seq e\<rparr>)"
proof -
  obtain d m c1 where c1: "choose_action dgt_enabled now (touched now e c) = Some (d, m, c1)"
    "same_plumbing (touched now e c) c1" "wf_broker c1"
    using choose_action_total [OF touched_laws(1) [OF assms]] by metis
  obtain used c2 where c2: "feed_estimator m e c1 = (used, c2)" by fastforce
  note laws = feed_estimator_laws(1,2) [OF c1(3) c2]
  have p: "same_plumbing c c1" using touched_laws(2) [OF assms] c1(2) by (rule same_plumbing_trans)
  moreover have "wf_broker (c2\<lparr>bc_last_processed_window_seq := qe_window_seq e\<rparr>)"
    using laws(2) by (simp add: wf_broker_def wf_queue_def)
  moreover have "same_plumbing c (c2\<lparr>bc_last_processed_window_seq := qe_window_seq e\<rparr>)"
    using same_plumbing_trans [OF p laws(1)] by (simp add: same_plumbing_def)
  moreover have "process_entry dgt_enabled now epoch e c =
      Some (build_result dgt_enabled now epoch e d used (c2\<lparr>bc_last_processed_window_seq := qe_window_seq e\<rparr>),
        c2\<lparr>bc_last_processed_window_seq := qe_window_seq e\<rparr>)"
    using c1(1) c2 by (simp add: process_entry_def Let_def flip: touched_def)
  ultimately show thesis using that [OF c1(1) c2 refl] by blast
qed

lemma process_entry_laws:
  assumes "wf_broker c" and "process_entry dgt_enabled now epoch e c = Some (r, c')"
  shows "wf_broker c'" and "same_plumbing c c'" and "encodable_result r" and "norm_result r = r"
    and "res_window_seq r = qe_window_seq e"
proof -
  obtain d m c1 used c2 where parts: "r = build_result dgt_enabled now epoch e d used
        (c2\<lparr>bc_last_processed_window_seq := qe_window_seq e\<rparr>)"
      "c' = c2\<lparr>bc_last_processed_window_seq := qe_window_seq e\<rparr>"
      "wf_broker (c2\<lparr>bc_last_processed_window_seq := qe_window_seq e\<rparr>)"
      "same_plumbing c (c2\<lparr>bc_last_processed_window_seq := qe_window_seq e\<rparr>)"
    by (rule process_entry_parts [OF assms(1), of dgt_enabled now e epoch])
      (simp only: assms(2) option.inject prod.inject)
  note laws = build_result_laws(1-3) [OF parts(3,1)]
  show "wf_broker c'" and "same_plumbing c c'" and "encodable_result r" and "norm_result r = r"
    and "res_window_seq r = qe_window_seq e"
    using parts(3,4) laws unfolding parts(2) by simp_all
qed

text \<open>What the gate decodes from a frame.\<close>

definition gate_reads :: "frame \<Rightarrow> obicall_result res" where
  "gate_reads f = obicall_wire_decode_result (Some (snd f)) (of_nat (length (snd f))) (Some zero_result)"

lemma published_laws:
  assumes "encodable_result r" and "norm_result r = r"
  shows "\<exists>p. publish_frame r = Some (OBICALL_MSG_RESULT_PUBLISH, p) \<and> length p \<le> 756 \<and>
    gate_reads (OBICALL_MSG_RESULT_PUBLISH, p) = Inr r"
proof -
  have max: "length (result_layout r) \<le> 756" using assms(1) by (rule result_layout_max)
  have enc: "obicall_wire_encode_result (Some r) (Some (replicate 2048 0)) 2048 (Some 0) =
      Inr (memcpy (replicate 2048 0) 0 (result_layout r), of_nat (length (result_layout r)))"
    using result.encode_run [OF assms(1), of 2048 "replicate 2048 0" 0] max by simp
  have n: "unat (of_nat (length (result_layout r)) :: u32) = length (result_layout r)"
    using max by (simp add: unat_of_nat)
  then have "publish_frame r = Some (OBICALL_MSG_RESULT_PUBLISH, result_layout r)"
    by (simp add: publish_frame_def enc memcpy_zero)
  moreover have "gate_reads (OBICALL_MSG_RESULT_PUBLISH, result_layout r) = Inr r"
    using result.decode_prefix [OF assms(1), of "of_nat (length (result_layout r))" "result_layout r"] n assms(2)
    by (simp add: gate_reads_def)
  ultimately show ?thesis using max by blast
qed

section \<open>Runs\<close>

lemma entries_simps [simp]: "entries None = []" "entries (Some e) = [e]"
  by (simp_all add: entries_def)

text \<open>A frame from the journal either leaves the state or pushes the entry built from what the reader holds.\<close>

lemma reader_frame_cases:
  assumes "reader_frame residue msg_type payload pending c = (pending', c', e)"
    and "wf_observation residue" and "wf_observation (fst pending)"
  obtains (kept) "c' = c" "e = None" "wf_observation (fst pending')"
  | (pushed) x where "c' = queue_push x c" "e = Some x" "wf_observation (qe_obs x)" "wf_observation (fst pending')"
proof -
  have dec: "wf_observation obs"
    if "obicall_wire_decode_observation (Some payload) (of_nat (length payload)) (Some old) = Inr obs" for obs old
  proof -
    have "unat (of_nat (length payload) :: u32) \<le> length payload" by (simp add: unat_of_nat)
    then have "encodable_observation obs" using that by (rule observation.decode_canonical)
    then show ?thesis by (simp add: encodable_observation_def)
  qed
  show thesis
    using assms(1)
    by (cases pending) (use assms(2,3) dec kept pushed in
      \<open>auto simp: reader_frame_def Let_def split: if_splits sum.splits\<close>)
qed

lemma queue_push_same:
  "bc_sensors (queue_push e c) = bc_sensors c" "bc_sensor_count (queue_push e c) = bc_sensor_count c"
  "bc_sensor_names (queue_push e c) = bc_sensor_names c" "bc_kf (queue_push e c) = bc_kf c"
  "bc_configured_sensor_count (queue_push e c) = bc_configured_sensor_count c"
  "bc_pipeline_id (queue_push e c) = bc_pipeline_id c" "bc_config_digest (queue_push e c) = bc_config_digest c"
  "bc_dgt (queue_push e c) = bc_dgt c"
  by (simp_all add: queue_push_def Let_def)

lemma queue_push_wf: "wf_broker c \<Longrightarrow> wf_broker (queue_push e c)"
  by (simp add: wf_broker_def queue_push_contents(2) queue_push_same)

text \<open>What the broker publishes, as the gate decodes it.\<close>

definition results_at_gate :: "frame list \<Rightarrow> obicall_result res list" where
  "results_at_gate fs = map gate_reads (filter (\<lambda>f. fst f = OBICALL_MSG_RESULT_PUBLISH) fs)"

lemma results_at_gate_simps [simp]:
  "results_at_gate [] = []" "results_at_gate (fs @ gs) = results_at_gate fs @ results_at_gate gs"
  by (simp_all add: results_at_gate_def)

lemma no_result_in_heartbeat: "results_at_gate (frames (heartbeat_frame hb)) = []"
  by (auto simp: results_at_gate_def frames_def heartbeat_frame_def split: option.splits sum.splits)

lemma published_at_gate:
  assumes "encodable_result r" and "norm_result r = r"
  shows "results_at_gate (frames (publish_frame r)) = [Inr r]"
  using published_laws [OF assms] by (auto simp: results_at_gate_def frames_def)

definition broker_inv :: "brokerd \<Rightarrow> bool" where
  "broker_inv g \<longleftrightarrow> wf_broker (bk_ctx g) \<and> wf_observation (fst (bk_pending g)) \<and>
     (\<forall>e \<in> set (bk_delivered g). wf_observation (qe_obs e)) \<and>
     subseq (bk_processed g @ bk_batch g @ queue_contents (bk_ctx g)) (bk_delivered g) \<and>
     (\<not> bk_dropped g \<longrightarrow> bk_processed g @ bk_batch g @ queue_contents (bk_ctx g) = bk_delivered g) \<and>
     map res_window_seq (bk_published g) = map qe_window_seq (bk_processed g) \<and>
     results_at_gate (bk_frames g) = map Inr (bk_published g)"

lemma broker_inv_receive:
  assumes "broker_inv g" and "reader_frame residue msg_type payload (bk_pending g) (bk_ctx g) = (pending, c, e)"
    and "wf_observation residue"
  shows "broker_inv (g\<lparr>bk_pending := pending, bk_ctx := c, bk_delivered := bk_delivered g @ entries e,
       bk_dropped := bk_dropped g \<or> e \<noteq> None \<and> length (queue_contents (bk_ctx g)) = 511\<rparr>)"
proof -
  have wf: "wf_observation (fst (bk_pending g))" "wf_broker (bk_ctx g)" using assms(1) by (simp_all add: broker_inv_def)
  show ?thesis
    using assms(2,3) wf(1)
  proof (cases rule: reader_frame_cases)
    case kept
    then show ?thesis using assms(1) by (simp add: broker_inv_def)
  next
    case (pushed x)
    have "wf_queue (bk_ctx g)" using wf(2) by (simp add: wf_broker_def)
    note push = queue_push_contents(1) [OF this, of x]
    have le: "length (queue_contents (bk_ctx g)) \<le> 511" by (simp add: length_queue_contents less_Suc_eq_le [symmetric])
    define seen where "seen = bk_processed g @ bk_batch g @ queue_contents (bk_ctx g)"
    have sub: "subseq seen (bk_delivered g)" using assms(1) by (simp add: broker_inv_def seen_def)
    have "subseq (seen @ [x]) (bk_delivered g @ [x])" using sub by simp
    moreover have "subseq seen (bk_delivered g @ [x])"
      using sub by (meson prefixI prefix_imp_subseq subseq_order.order_trans)
    ultimately have subs: "subseq (seen @ [x]) (bk_delivered g @ [x])" "subseq seen (bk_delivered g @ [x])" .
    show ?thesis
      using assms(1) pushed subs le queue_push_wf [OF wf(2)] unfolding broker_inv_def seen_def
      by (simp add: push)
  qed
qed

lemma broker_inv_batch:
  assumes "broker_inv g" and "bk_batch g = []" and "take_batch (unat QUEUE_CAP) (bk_ctx g) = (b, c)"
  shows "broker_inv (g\<lparr>bk_batch := b, bk_ctx := c\<rparr>)"
proof -
  have wf: "wf_broker (bk_ctx g)" using assms(1) by (simp add: broker_inv_def)
  then have wfq: "wf_queue (bk_ctx g)" by (simp add: wf_broker_def)
  moreover have "length (queue_contents (bk_ctx g)) \<le> unat QUEUE_CAP"
    by (simp add: length_queue_contents less_imp_le)
  ultimately have b: "b = queue_contents (bk_ctx g)" "c = (bk_ctx g)\<lparr>bc_qhead := bc_qtail (bk_ctx g)\<rparr>"
    using take_batch_contents assms(3) by simp_all
  have "queue_contents c = []" "wf_broker c"
    using wf wfq unfolding b(2) by (simp_all add: queue_contents_def wf_broker_def wf_queue_def)
  then show ?thesis using assms(1,2) b(1) by (simp add: broker_inv_def)
qed

lemma broker_inv_process:
  assumes "broker_inv g" and "bk_batch g = e # es"
    and "process_entry dgt_enabled now (fst (bk_belief g)) e (bk_ctx g) = Some (r, c)"
  shows "broker_inv (g\<lparr>bk_batch := es, bk_ctx := c, bk_processed := bk_processed g @ [e],
       bk_published := bk_published g @ [r], bk_frames := bk_frames g @ frames (publish_frame r)\<rparr>)"
proof -
  have wf: "wf_broker (bk_ctx g)" using assms(1) by (simp add: broker_inv_def)
  note laws = process_entry_laws [OF wf assms(3)]
  have "queue_contents c = queue_contents (bk_ctx g)"
    using laws(2) unfolding same_plumbing_def queue_contents_def by simp
  then show ?thesis
    using assms(1,2) laws(1,5) published_at_gate [OF laws(3,4)] by (simp add: broker_inv_def)
qed

lemma brokerd_step_inv:
  assumes "brokerd_step dgt_enabled g g'" and "broker_inv g"
  shows "broker_inv g'"
  using assms
proof (cases rule: brokerd_step.cases)
  case (receive payload residue msg_type pending c e)
  then show ?thesis using broker_inv_receive [OF assms(2)] by simp
next
  case disconnect
  then show ?thesis using assms(2) by (simp add: broker_inv_def wf_broker_def wf_queue_def queue_contents_def)
next
  case (batch b c)
  then show ?thesis using broker_inv_batch [OF assms(2)] by simp
next
  case (process e es now r c)
  then show ?thesis using broker_inv_process [OF assms(2)] by simp
next
  case (heartbeat now belief reply)
  then show ?thesis using assms(2) by (simp add: broker_inv_def no_result_in_heartbeat)
qed

lemma brokerd_inv:
  assumes "length (ba_config_digest args) = 32" and "brokerd_reachable dgt_enabled args g"
  shows "broker_inv g"
  using assms(2)
proof induction
  case (initial obs)
  have "queue_contents (broker_startup args) = []" by (simp add: queue_contents_def broker_startup_def Let_def)
  then show ?case using startup_wf [OF assms(1)] initial by (simp add: broker_inv_def)
next
  case (step g g')
  then show ?case using brokerd_step_inv by blast
qed

section \<open>Properties\<close>


definition example_args :: broker_args where
  "example_args = \<lparr>ba_broker_id = [0x41], ba_pipeline_id = [0x70], ba_result_validity_ms = 500,
     ba_sensor_fresh_window_ms = 1000, ba_dgt_hysteresis_margin = 0, ba_kf_params = example_params,
     ba_sensor_ids_csv = [0x67], ba_config_digest = zero_digest\<rparr>"

definition example_decision :: obicall_msg_admission_decision where
  "example_decision = \<lparr>ad_pipeline_id = replicate 32 0, ad_window_seq = 9, ad_sensor_id = replicate 32 0,
     ad_sequence = 3, ad_admitted = 1, ad_reason_code = 0, ad_decided_at_ns = 100\<rparr>"

definition example_start :: brokerd where
  "example_start = \<lparr>bk_ctx = broker_startup example_args, bk_pending = (zero_observation, False), bk_batch = [],
     bk_belief = (0, OBICALL_BROKER_NONE), bk_last_heartbeat = 0, bk_delivered = [], bk_dropped = False,
     bk_processed = [], bk_published = [], bk_frames = []\<rparr>"

definition example_entry :: queue_entry where
  "example_entry = \<lparr>qe_window_seq = 9, qe_obs = norm_observation example_sensor_reading, qe_admitted = 1\<rparr>"

text \<open>One observation with its decision, queued, taken and processed.\<close>

lemma example_frames:
  "reader_frame zero_observation OBICALL_MSG_REPLAY_DATA (observation_layout example_sensor_reading)
     (zero_observation, False) c = ((norm_observation example_sensor_reading, True), c, None)"
  "reader_frame zero_observation OBICALL_MSG_ADMISSION_DECISION (admission_decision_layout example_decision)
     (norm_observation example_sensor_reading, True) c =
   ((norm_observation example_sensor_reading, False), queue_push example_entry c, Some example_entry)"
proof -
  have len: "length (observation_layout example_sensor_reading) \<le> 444"
    using example_messages_ok(1) by (rule observation_layout_max)
  then have "unat (of_nat (length (observation_layout example_sensor_reading)) :: u32) =
      length (observation_layout example_sensor_reading)" by (simp add: unat_of_nat)
  then have "obicall_wire_decode_observation (Some (observation_layout example_sensor_reading))
      (of_nat (length (observation_layout example_sensor_reading))) (Some zero_observation) =
      Inr (norm_observation example_sensor_reading)"
    using observation.decode_prefix [OF example_messages_ok(1)] by simp
  then show "reader_frame zero_observation OBICALL_MSG_REPLAY_DATA (observation_layout example_sensor_reading)
     (zero_observation, False) c = ((norm_observation example_sensor_reading, True), c, None)"
    by (simp add: reader_frame_def)
  have wf: "wf_admission_decision example_decision" by (simp add: wf_admission_decision_def example_decision_def)
  then have "length (admission_decision_layout example_decision) = 96" by (simp add: layout_simps)
  then have "unat (of_nat (length (admission_decision_layout example_decision)) :: u32) =
      length (admission_decision_layout example_decision)" by simp
  then have "obicall_wire_decode_admission_decision (Some (admission_decision_layout example_decision))
      (of_nat (length (admission_decision_layout example_decision))) (Some fresh_decision) = Inr example_decision"
    using admission_decision.decode_prefix [OF wf] by simp
  then show "reader_frame zero_observation OBICALL_MSG_ADMISSION_DECISION (admission_decision_layout example_decision)
     (norm_observation example_sensor_reading, True) c =
   ((norm_observation example_sensor_reading, False), queue_push example_entry c, Some example_entry)"
    by (simp add: reader_frame_def Let_def example_entry_def) (simp add: example_decision_def)
qed

lemma wf_zero_observation: "wf_observation zero_observation"
  by (simp add: wf_observation_def zero_observation_def)

lemma example_args_digest: "length (ba_config_digest example_args) = 32"
  by (simp add: example_args_def zero_digest_def)

lemma example_queued:
  "brokerd_reachable dgt_enabled example_args (example_start\<lparr>
     bk_pending := (norm_observation example_sensor_reading, False),
     bk_ctx := queue_push example_entry (broker_startup example_args), bk_delivered := [example_entry]\<rparr>)"
proof -
  have init: "brokerd_reachable dgt_enabled example_args example_start"
    using brokerd_reachable.initial [OF wf_zero_observation] by (simp add: example_start_def)
  have empty: "queue_contents (broker_startup example_args) = []"
    by (simp add: queue_contents_def broker_startup_def Let_def)
  have max: "length (observation_layout example_sensor_reading) \<le> 2048"
    using observation_layout_max [OF example_messages_ok(1)] by simp
  have "brokerd_step dgt_enabled example_start
      (example_start\<lparr>bk_pending := (norm_observation example_sensor_reading, True)\<rparr>)"
    using brokerd_step.receive [OF max wf_zero_observation, of OBICALL_MSG_REPLAY_DATA example_start]
    by (simp add: example_frames(1) example_start_def)
  with init have one: "brokerd_reachable dgt_enabled example_args
      (example_start\<lparr>bk_pending := (norm_observation example_sensor_reading, True)\<rparr>)"
    by (rule brokerd_reachable.step)
  have "length (admission_decision_layout example_decision) \<le> 2048"
    by (simp add: admission_decision_layout_def example_decision_def)
  from brokerd_step.receive [OF this wf_zero_observation, of OBICALL_MSG_ADMISSION_DECISION
      "example_start\<lparr>bk_pending := (norm_observation example_sensor_reading, True)\<rparr>"]
  have "brokerd_step dgt_enabled (example_start\<lparr>bk_pending := (norm_observation example_sensor_reading, True)\<rparr>)
     (example_start\<lparr>bk_pending := (norm_observation example_sensor_reading, False),
       bk_ctx := queue_push example_entry (broker_startup example_args), bk_delivered := [example_entry]\<rparr>)"
    by (simp add: example_frames(2) example_start_def empty)
  with one show ?thesis by (rule brokerd_reachable.step)
qed

lemma example_processed:
  "\<exists>g. brokerd_reachable dgt_enabled example_args g \<and> bk_processed g = [example_entry] \<and>
     bk_delivered g = [example_entry] \<and> \<not> bk_dropped g"
proof -
  let ?c = "queue_push example_entry (broker_startup example_args)"
  let ?g = "example_start\<lparr>bk_pending := (norm_observation example_sensor_reading, False),
    bk_ctx := ?c, bk_delivered := [example_entry]\<rparr>"
  have wf0: "wf_broker (broker_startup example_args)" using example_args_digest by (rule startup_wf)
  then have q0: "wf_queue (broker_startup example_args)" by (simp add: wf_broker_def)
  have "queue_contents (broker_startup example_args) = []"
    by (simp add: queue_contents_def broker_startup_def Let_def)
  then have q: "queue_contents ?c = [example_entry]" using queue_push_contents(1) [OF q0] by simp
  have batch: "take_batch (unat QUEUE_CAP) (bk_ctx ?g) = ([example_entry], ?c\<lparr>bc_qhead := bc_qtail ?c\<rparr>)"
    using take_batch_contents [OF queue_push_contents(2) [OF q0], of example_entry 512] q by simp
  have empty: "bk_batch ?g = []" by (simp add: example_start_def)
  note taken = brokerd_reachable.step [OF example_queued brokerd_step.batch [OF empty batch]]
  let ?g' = "?g\<lparr>bk_batch := [example_entry], bk_ctx := ?c\<lparr>bc_qhead := bc_qtail ?c\<rparr>\<rparr>"
  have "broker_inv ?g'" using example_args_digest taken by (rule brokerd_inv)
  then have "wf_broker (bk_ctx ?g')" by (simp add: broker_inv_def)
  then obtain r c' where "process_entry dgt_enabled 0 (fst (bk_belief ?g')) example_entry (bk_ctx ?g') = Some (r, c')"
    by (rule process_entry_parts)
  moreover have "bk_batch ?g' = example_entry # []" by simp
  ultimately have "brokerd_step dgt_enabled ?g' (?g'\<lparr>bk_batch := [], bk_ctx := c',
      bk_processed := bk_processed ?g' @ [example_entry], bk_published := bk_published ?g' @ [r],
      bk_frames := bk_frames ?g' @ frames (publish_frame r)\<rparr>)"
    using brokerd_step.process by blast
  note end_state = brokerd_reachable.step [OF taken this]
  show ?thesis by (intro exI conjI, rule end_state) (simp_all add: example_start_def)
qed


text \<open>
  C7: whatever the entry, processing it returns - no array is read past its end, the decision table always
  answers - and gives a result for the entry's window whose frame takes at most 756 bytes and decodes at the
  gate to exactly this result.
\<close>

theorem broker_entry_always_published:
  assumes "wf_broker c"
  shows "\<exists>r c' p. process_entry dgt_enabled now epoch e c = Some (r, c') \<and> wf_broker c' \<and>
    res_window_seq r = qe_window_seq e \<and> publish_frame r = Some (OBICALL_MSG_RESULT_PUBLISH, p) \<and>
    length p \<le> 756 \<and> gate_reads (OBICALL_MSG_RESULT_PUBLISH, p) = Inr r"
proof -
  obtain r c' where p: "process_entry dgt_enabled now epoch e c = Some (r, c')"
    using assms by (rule process_entry_parts)
  note laws = process_entry_laws [OF assms p]
  show ?thesis using p laws(1,5) published_laws [OF laws(3,4)] by blast
qed

theorem broker_entry_always_published_witness:
  "\<exists>r c' p. process_entry True 5 1 example_entry (broker_startup example_args) = Some (r, c') \<and>
     res_window_seq r = 9 \<and> publish_frame r = Some (OBICALL_MSG_RESULT_PUBLISH, p) \<and>
     gate_reads (OBICALL_MSG_RESULT_PUBLISH, p) = Inr r"
  using broker_entry_always_published [OF startup_wf [OF example_args_digest], of True 5 1 example_entry]
  by (auto simp: example_entry_def)



text \<open>
  \<^verbatim>\<open>include/obicall/dgt.h\<close> asks the caller of the selector to report an invalid output when no action is
  eligible. The broker does not look at the failure: once the estimator is ready, and its covariance small,
  it goes on publishing results with status valid, naming action 0.
\<close>

lemma no_action_still_valid:
  assumes "wf_broker c" and "bc_kf_ready c" and "\<not> ks_covariance (bc_kf c) ! 0 + ks_covariance (bc_kf c) ! 5 > double_lit 4 1"
    and "qe_admitted e = 0" and none: "\<forall>a < 3. \<not> action_observable c now a"
  shows "\<exists>r c'. process_entry True now epoch e c = Some (r, c') \<and> res_status r = OBICALL_RESULT_VALID \<and>
    res_dgt_action_id r = 0"
proof -
  obtain d m c1 used c2 r where p: "choose_action True now (touched now e c) = Some (d, m, c1)"
    "feed_estimator m e c1 = (used, c2)"
    "r = build_result True now epoch e d used (c2\<lparr>bc_last_processed_window_seq := qe_window_seq e\<rparr>)"
    "process_entry True now epoch e c = Some (r, c2\<lparr>bc_last_processed_window_seq := qe_window_seq e\<rparr>)"
    "wf_broker (c2\<lparr>bc_last_processed_window_seq := qe_window_seq e\<rparr>)"
    by (rule process_entry_parts [OF assms(1)])
  have t: "touched now e c = c" using assms(4) by (simp add: touched_def)
  have "d = zero_decision \<and> c1 = c"
    using assms(1)
  proof (cases rule: choose_action_cases [where now = now and dgt_enabled = True])
    case (selected a d' h)
    then show ?thesis using none by blast
  qed (use p(1) t in simp_all)
  moreover have "used = False" "c2 = c1" using p(2) assms(4) by (simp_all add: feed_estimator_def Let_def)
  ultimately have "res_status r = OBICALL_RESULT_VALID" "res_dgt_action_id r = 0"
    using build_result_laws(6,7) [OF p(5,3)] assms(2,3)
    by (simp_all add: degraded_estimate_def zero_decision_def)
  then show ?thesis using p(4) by blast
qed

definition two_sensors :: broker_args where
  "two_sensors = example_args\<lparr>ba_sensor_ids_csv := [0x67, 0x2C, 0x69]\<rparr>"

definition example_ready :: broker_ctx where
  "example_ready = (broker_startup two_sensors)\<lparr>
     bc_kf := \<lparr>ks_initialized = 1, ks_mean = [0, 0, 0, 0], ks_covariance = replicate 16 0, ks_last_update_time_ns = 0\<rparr>,
     bc_kf_ready := True\<rparr>"

lemma example_ready_wf: "wf_broker example_ready"
proof -
  have "wf_broker (broker_startup two_sensors)"
    by (rule startup_wf) (simp add: two_sensors_def example_args_def zero_digest_def)
  then show ?thesis by (simp add: example_ready_def wf_broker_def wf_queue_def wf_kalman_def)
qed

lemma default_masks:
  "da_sensor_subset_mask (pt_actions init_default_dgt_table ! 0) = 1"
  "da_sensor_subset_mask (pt_actions init_default_dgt_table ! Suc 0) = 2"
  "da_sensor_subset_mask (pt_actions init_default_dgt_table ! Suc (Suc 0)) = 3"
  by (simp_all add: init_default_dgt_table_def default_action_def)

lemma no_action_still_valid_example:
  "\<exists>r c'. process_entry True (2 ^ 40) epoch (example_entry\<lparr>qe_admitted := 0\<rparr>) example_ready = Some (r, c') \<and>
    res_status r = OBICALL_RESULT_VALID \<and> res_dgt_action_id r = 0"
proof (rule no_action_still_valid [OF example_ready_wf])
  show "bc_kf_ready example_ready" by (simp add: example_ready_def)
  have "\<not> (0 :: double) + 0 > double_lit 4 1" by code_simp
  then show "\<not> ks_covariance (bc_kf example_ready) ! 0 + ks_covariance (bc_kf example_ready) ! 5 > double_lit 4 1"
    by (simp add: example_ready_def)
  have c: "bc_configured_sensor_count example_ready = 2" "bc_sensor_count example_ready = 0"
    by (simp_all add: example_ready_def broker_startup_def two_sensors_def example_args_def Let_def)
  have d: "bc_dgt example_ready = init_default_dgt_table" using example_ready_wf by (simp add: wf_broker_def)
  have "\<not> sensor_observable_locked example_ready sensor_id now" for sensor_id now
    by (simp add: sensor_observable_locked_def find_sensor_def c)
  then show "\<forall>a < 3. \<not> action_observable example_ready (2 ^ 40) a"
    by (auto simp: action_observable_def d c default_masks less_Suc_eq numeral_3_eq_3 Let_def upt_rec)
qed simp

text \<open>
  The eligibility loop only asks about configured sensors, so an action none of whose sensors is configured
  always counts as observable: with a single sensor, action 1 does.
\<close>

lemma unconfigured_action_observable:
  assumes "wf_broker c" and "bc_configured_sensor_count c = 1"
  shows "action_observable c now 1"
  using assms default_masks(2) by (simp add: action_observable_def wf_broker_def Let_def)

end
