(* ===== verification/Frames.thy ===== *)
theory Frames
  imports Wire Digest
begin

text \<open>
  \<^verbatim>\<open>src/osal/osal_ipc.c\<close>: frames over a stream socket. What the kernel does is a schedule: each
  \<^verbatim>\<open>select\<close> with the call that follows it either times out, fails, or finds the socket ready for some
  number of bytes. The stream is the bytes written so far or still to be read.
\<close>

section \<open>The loops over the socket\<close>

datatype poll = Ready nat | Timed_out | Failed

text \<open>
  \<^verbatim>\<open>send_all\<close>: the code, the rest of the schedule and the bytes on the wire. \<open>None\<close> when the schedule ends
  while the loop still waits.
\<close>

fun send_all :: "bytes \<Rightarrow> poll list \<Rightarrow> bytes \<Rightarrow> (int \<times> poll list \<times> bytes) option" where
  "send_all [] ps wire = Some (0, ps, wire)"
| "send_all (b # bs) [] wire = None"
| "send_all (b # bs) (Ready n # ps) wire =
     (if n = 0 then Some (-1, ps, wire) else send_all (drop n (b # bs)) ps (wire @ take n (b # bs)))"
| "send_all (b # bs) (_ # ps) wire = Some (-1, ps, wire)"

text \<open>
  \<^verbatim>\<open>recv_all\<close>: the code, the bytes read, the rest of the schedule and of the stream. A ready socket with
  nothing to read is a closed peer.
\<close>

fun recv_all :: "nat \<Rightarrow> bytes \<Rightarrow> poll list \<Rightarrow> bytes \<Rightarrow> (int \<times> bytes \<times> poll list \<times> bytes) option" where
  "recv_all len got [] stream = (if length got < len then None else Some (0, got, [], stream))"
| "recv_all len got (p # ps) stream =
     (if \<not> length got < len then Some (0, got, p # ps, stream)
      else (case p of
              Timed_out \<Rightarrow> Some (if got = [] then 1 else -1, got, ps, stream)
            | Failed \<Rightarrow> Some (-1, got, ps, stream)
            | Ready n \<Rightarrow>
                (let n = min n (len - length got) in
                 if take n stream = [] then Some (-1, got, ps, stream)
                 else recv_all len (got @ take n stream) ps (drop n stream))))"

section \<open>Frames\<close>

abbreviation (input) OBICALL_WIRE_MAX_PAYLOAD :: u32 where "OBICALL_WIRE_MAX_PAYLOAD \<equiv> 1048576"

definition frame_header :: "u8 \<Rightarrow> bytes \<Rightarrow> u32 \<Rightarrow> obicall_wire_header" where
  "frame_header msg_type payload payload_len =
     \<lparr>wh_wire_version = 1, wh_msg_type = msg_type, wh_flags = 0, wh_payload_len = payload_len,
      wh_crc32 = obicall_crc32 payload payload_len\<rparr>"

definition osal_send_frame :: "u8 \<Rightarrow> bytes \<Rightarrow> u32 \<Rightarrow> poll list \<Rightarrow> bytes \<Rightarrow> (int \<times> poll list \<times> bytes) option" where
  "osal_send_frame msg_type payload payload_len ps wire =
     (if payload_len > OBICALL_WIRE_MAX_PAYLOAD then Some (-1, ps, wire)
      else
        (case obicall_wire_encode_header (Some (frame_header msg_type payload payload_len)) (Some (replicate 16 0)) of
           Inl _ \<Rightarrow> Some (-1, ps, wire)
         | Inr hdr_buf \<Rightarrow>
             (case send_all hdr_buf ps wire of
                None \<Rightarrow> None
              | Some (rc, ps, wire) \<Rightarrow>
                  if rc \<noteq> 0 then Some (-1, ps, wire)
                  else if payload_len > 0 then send_all (take (unat payload_len) payload) ps wire
                  else Some (0, ps, wire))))"

definition fresh_header :: obicall_wire_header where
  "fresh_header = \<lparr>wh_wire_version = 0, wh_msg_type = 0, wh_flags = 0, wh_payload_len = 0, wh_crc32 = 0\<rparr>"

text \<open>The code, the frame when it is 0, the rest of the schedule and of the stream.\<close>

definition osal_recv_frame :: "u32 \<Rightarrow> poll list \<Rightarrow> bytes \<Rightarrow> (int \<times> (u8 \<times> bytes) option \<times> poll list \<times> bytes) option" where
  "osal_recv_frame payload_cap ps stream =
     (case recv_all 16 [] ps stream of
        None \<Rightarrow> None
      | Some (hr, hdr_buf, ps, stream) \<Rightarrow>
          if hr \<noteq> 0 then Some (hr, None, ps, stream)
          else
            (case obicall_wire_decode_header (Some hdr_buf) (Some fresh_header) of
               Inl _ \<Rightarrow> Some (-1, None, ps, stream)
             | Inr hdr \<Rightarrow>
                 if wh_payload_len hdr > payload_cap then Some (-1, None, ps, stream)
                 else
                   (case (if wh_payload_len hdr > 0 then recv_all (unat (wh_payload_len hdr)) [] ps stream
                          else Some (0, [], ps, stream)) of
                      None \<Rightarrow> None
                    | Some (pr, payload_buf, ps, stream) \<Rightarrow>
                        if pr \<noteq> 0 then Some (-1, None, ps, stream)
                        else if obicall_crc32 payload_buf (wh_payload_len hdr) \<noteq> wh_crc32 hdr
                        then Some (-1, None, ps, stream)
                        else Some (0, Some (wh_msg_type hdr, payload_buf), ps, stream))))"

section \<open>The loops write and read a prefix\<close>

lemma send_all_writes:
  "send_all bs ps wire = Some (rc, ps', wire') \<Longrightarrow>
     \<exists>n. wire' = wire @ take n bs \<and> n \<le> length bs \<and> (rc = 0 \<longleftrightarrow> n = length bs) \<and> (rc = 0 \<or> rc = -1)"
proof (induction bs ps wire rule: send_all.induct)
  case (1 ps wire)
  then show ?case by simp
next
  case (3 b bs n ps wire)
  show ?case
  proof (cases "n = 0")
    case True
    then show ?thesis using 3(2) by (intro exI [of _ 0]) auto
  next
    case False
    then obtain m where m: "wire' = (wire @ take n (b # bs)) @ take m (drop n (b # bs))"
      "m \<le> length (drop n (b # bs))" "rc = 0 \<longleftrightarrow> m = length (drop n (b # bs))" "rc = 0 \<or> rc = -1"
      using 3 by auto
    show ?thesis
    proof (cases "n \<le> length (b # bs)")
      case True
      then show ?thesis using m by (intro exI [of _ "n + m"]) (auto simp: take_add)
    next
      case False
      then show ?thesis using m by (intro exI [of _ "length (b # bs)"]) auto
    qed
  qed
qed (auto intro: exI [of _ 0])

lemma recv_all_reads:
  "recv_all len got ps stream = Some (rc, got', ps', stream') \<Longrightarrow> length got \<le> len \<Longrightarrow>
     got' @ stream' = got @ stream \<and> (rc = 0 \<longleftrightarrow> length got' = len) \<and> length got' \<le> len \<and>
     (rc = 0 \<or> rc = -1 \<or> rc = 1 \<and> got' = [] \<and> got = [])"
proof (induction len got ps stream rule: recv_all.induct)
  case (1 len got stream)
  then show ?case by (auto split: if_splits)
next
  case (2 len got p ps stream)
  show ?case
  proof (cases p)
    case (Ready n)
    define k where "k = min n (len - length got)"
    show ?thesis
    proof (cases "length got < len \<and> take k stream \<noteq> []")
      case True
      then have "recv_all len (got @ take k stream) ps (drop k stream) = Some (rc, got', ps', stream')"
        using 2(2) unfolding k_def by (auto simp: Ready Let_def split: if_splits)
      moreover have "length (got @ take k stream) \<le> len" using True unfolding k_def length_append length_take by linarith
      moreover have "got @ take k stream \<noteq> []" using True by simp
      ultimately show ?thesis
        using 2(1) [OF _ Ready k_def] True by auto
    next
      case False
      then show ?thesis using 2(2,3) by (auto simp: Ready k_def Let_def split: if_splits)
    qed
  qed (use 2 in \<open>auto split: if_splits\<close>)
qed

section \<open>Frames on the wire\<close>

definition frame_layout :: "u8 \<times> bytes \<Rightarrow> bytes" where
  "frame_layout f = header_layout (frame_header (fst f) (snd f) (of_nat (length (snd f)))) @ snd f"

lemma send_frame_writes:
  assumes "osal_send_frame t payload (of_nat (length payload)) ps wire = Some (rc, ps', wire')"
    and "length payload < 2 ^ 32"
  shows "\<exists>n. wire' = wire @ take n (frame_layout (t, payload)) \<and>
    (rc = 0 \<longleftrightarrow> n = length (frame_layout (t, payload))) \<and> n \<le> length (frame_layout (t, payload))"
proof -
  have u: "unat (of_nat (length payload) :: u32) = length payload" using assms(2) by (simp add: unat_of_nat)
  let ?h = "header_layout (frame_header t payload (of_nat (length payload)))"
  have enc: "obicall_wire_encode_header (Some (frame_header t payload (of_nat (length payload)))) (Some (replicate 16 0)) =
      Inr ?h" by (rule encode_header_layout) simp
  show ?thesis
  proof (cases "of_nat (length payload) > OBICALL_WIRE_MAX_PAYLOAD")
    case True
    then show ?thesis using assms(1) by (intro exI [of _ 0]) (auto simp: osal_send_frame_def frame_layout_def)
  next
    case False
    then obtain rc1 ps1 w1 where h: "send_all ?h ps wire = Some (rc1, ps1, w1)"
      using assms(1) enc by (auto simp: osal_send_frame_def split: option.splits)
    then obtain n1 where n1: "w1 = wire @ take n1 ?h" "n1 \<le> 16" "rc1 = 0 \<longleftrightarrow> n1 = 16"
      using send_all_writes by fastforce
    show ?thesis
    proof (cases "rc1 = 0")
      case False
      then have "rc = -1" "wire' = w1" using assms(1) enc h \<open>\<not> of_nat _ > _\<close> by (auto simp: osal_send_frame_def)
      then show ?thesis using n1 False by (intro exI [of _ n1]) (auto simp: frame_layout_def)
    next
      case True
      then have w1: "w1 = wire @ ?h" using n1 by simp
      show ?thesis
      proof (cases "payload = []")
        case True
        then show ?thesis using assms(1) enc h \<open>rc1 = 0\<close> w1
          by (intro exI [of _ 16]) (auto simp: osal_send_frame_def frame_layout_def)
      next
        case False
        then have "(of_nat (length payload) :: u32) > 0" using u by (simp add: word_greater_zero_iff unat_gt_0 [symmetric])
        then have "send_all payload ps1 w1 = Some (rc, ps', wire')"
          using assms(1) enc h \<open>rc1 = 0\<close> \<open>\<not> of_nat _ > _\<close> u by (simp add: osal_send_frame_def)
        from send_all_writes [OF this] obtain n2
          where "wire' = w1 @ take n2 payload" "n2 \<le> length payload" "rc = 0 \<longleftrightarrow> n2 = length payload"
          by blast
        then show ?thesis using w1 by (intro exI [of _ "16 + n2"]) (auto simp: frame_layout_def)
      qed
    qed
  qed
qed

text \<open>
  What a receiver accepts: a header with the right magic and version, whose length fits the caller's
  buffer, followed by that many bytes with the header's checksum. Otherwise nothing was consumed and the
  code is 1, or the code is -1.
\<close>

lemma decode_header_inverse:
  assumes "length bs = 16" and "obicall_wire_decode_header (Some bs) (Some old) = Inr h"
  shows "bs = header_layout h" and "wh_wire_version h = 1" and "wh_payload_len h \<le> 1048576"
proof -
  obtain m0 m1 m2 m3 h0 where bs: "bs = [m0, m1, m2, m3] @ header_fields h0"
    using header_bytes_exist [OF assms(1)] by blast
  then show "bs = header_layout h" and "wh_wire_version h = 1" and "wh_payload_len h \<le> 1048576"
    using assms(2) decode_header_fields [of m0 m1 m2 m3 h0 "[]" old]
    by (auto simp: header_layout_def split: if_splits)
qed

lemma recv_frame_sound:
  assumes "osal_recv_frame cap ps stream = Some (rc, f, ps', stream')"
  shows "rc = 0 \<and> (\<exists>h p. f = Some (wh_msg_type h, p) \<and> stream = header_layout h @ p @ stream' \<and>
      wh_wire_version h = 1 \<and> length p = unat (wh_payload_len h) \<and> wh_payload_len h \<le> cap \<and>
      obicall_crc32 p (wh_payload_len h) = wh_crc32 h) \<or>
    rc = 1 \<and> f = None \<and> stream' = stream \<or> rc = -1 \<and> f = None"
proof -
  obtain hr hb ps1 s1 where r1: "recv_all 16 [] ps stream = Some (hr, hb, ps1, s1)"
    using assms by (auto simp: osal_recv_frame_def split: option.splits)
  note h1 = recv_all_reads [OF r1]
  show ?thesis
  proof (cases "hr = 0")
    case False
    then show ?thesis using assms r1 h1 by (auto simp: osal_recv_frame_def)
  next
    case hr: True
    then have len: "length hb = 16" and st: "stream = hb @ s1" using h1 by simp_all
    show ?thesis
    proof (cases "obicall_wire_decode_header (Some hb) (Some fresh_header)")
      case (Inl e)
      then show ?thesis using assms r1 hr by (simp add: osal_recv_frame_def)
    next
      case (Inr h)
      note d = decode_header_inverse [OF len Inr]
      show ?thesis
      proof (cases "wh_payload_len h > cap")
        case True
        then show ?thesis using assms r1 hr Inr by (simp add: osal_recv_frame_def)
      next
        case cap: False
        obtain pr p ps2 s2 where r2: "(if wh_payload_len h > 0 then recv_all (unat (wh_payload_len h)) [] ps1 s1
            else Some (0, [], ps1, s1)) = Some (pr, p, ps2, s2)"
          using assms r1 hr Inr cap by (auto simp: osal_recv_frame_def split: option.splits)
        have p: "p @ s2 = s1" "pr = 0 \<Longrightarrow> length p = unat (wh_payload_len h)"
          using r2 recv_all_reads [of "unat (wh_payload_len h)" "[]" ps1 s1 pr p ps2 s2]
          by (auto split: if_splits simp: word_greater_zero_iff)
        have eq: "Some (rc, f, ps', stream') = (if pr \<noteq> 0 then Some (-1, None, ps2, s2)
            else if obicall_crc32 p (wh_payload_len h) \<noteq> wh_crc32 h then Some (-1, None, ps2, s2)
            else Some (0, Some (wh_msg_type h, p), ps2, s2))"
          using assms r1 hr Inr cap r2 by (simp add: osal_recv_frame_def)
        show ?thesis
        proof (cases "pr = 0 \<and> obicall_crc32 p (wh_payload_len h) = wh_crc32 h")
          case True
          then have "rc = 0" "f = Some (wh_msg_type h, p)" "stream' = s2" using eq by simp_all
          moreover have "stream = header_layout h @ p @ s2" using st d(1) p(1) by simp
          ultimately show ?thesis using True d(2) p(2) cap by (auto simp: not_less)
        next
          case False
          then show ?thesis using eq by (auto split: if_splits)
        qed
      qed
    qed
  qed
qed

section \<open>Streams of frames\<close>

text \<open>A sender writes its frames one after the other and stops at the first failure.\<close>

fun send_frames :: "(u8 \<times> bytes) list \<Rightarrow> poll list \<Rightarrow> bytes \<Rightarrow> (int \<times> poll list \<times> bytes) option" where
  "send_frames [] ps wire = Some (0, ps, wire)"
| "send_frames ((t, payload) # fs) ps wire =
     (case osal_send_frame t payload (of_nat (length payload)) ps wire of
        None \<Rightarrow> None
      | Some (rc, ps, wire) \<Rightarrow> if rc \<noteq> 0 then Some (rc, ps, wire) else send_frames fs ps wire)"

text \<open>
  A receiver calls \<^verbatim>\<open>osal_recv_frame\<close> up to \<open>n\<close> times, goes on when no frame was waiting and stops at the
  first error, as every loop of the processes does.
\<close>

fun receive_frames :: "nat \<Rightarrow> u32 \<Rightarrow> poll list \<Rightarrow> bytes \<Rightarrow> (u8 \<times> bytes) list" where
  "receive_frames 0 cap ps stream = []"
| "receive_frames (Suc n) cap ps stream =
     (case osal_recv_frame cap ps stream of
        None \<Rightarrow> []
      | Some (rc, f, ps, stream) \<Rightarrow>
          if rc = 0 then the f # receive_frames n cap ps stream
          else if rc = 1 then receive_frames n cap ps stream
          else [])"

definition sendable :: "u8 \<times> bytes \<Rightarrow> bool" where
  "sendable f \<longleftrightarrow> length (snd f) \<le> 1048576"

lemma send_frames_writes:
  "send_frames fs ps wire = Some (rc, ps', wire') \<Longrightarrow> \<forall>f \<in> set fs. sendable f \<Longrightarrow>
     \<exists>k. wire' = wire @ take k (concat (map frame_layout fs)) \<and> (rc = 0 \<longrightarrow> k = length (concat (map frame_layout fs)))"
proof (induction fs ps wire rule: send_frames.induct)
  case (1 ps wire)
  then show ?case by simp
next
  case (2 t payload fs ps wire)
  obtain rc1 ps1 w1 where s: "osal_send_frame t payload (of_nat (length payload)) ps wire = Some (rc1, ps1, w1)"
    using 2(2) by (auto split: option.splits)
  have "length payload < 2 ^ 32" using 2(3) by (simp add: sendable_def)
  from send_frame_writes [OF s this] obtain n where n: "w1 = wire @ take n (frame_layout (t, payload))"
    "rc1 = 0 \<longleftrightarrow> n = length (frame_layout (t, payload))" "n \<le> length (frame_layout (t, payload))" by blast
  show ?case
  proof (cases "rc1 = 0")
    case True
    then obtain k where "wire' = w1 @ take k (concat (map frame_layout fs))"
      "rc = 0 \<longrightarrow> k = length (concat (map frame_layout fs))"
      using 2(1) [OF s refl refl] 2(2,3) s by auto
    then show ?thesis using n True by (intro exI [of _ "length (frame_layout (t, payload)) + k"]) simp
  next
    case False
    then show ?thesis using 2(2) s n by (intro exI [of _ n]) (auto simp: not_le)
  qed
qed

lemma header_layout_inject: "header_layout h = header_layout h' \<Longrightarrow> h = h'"
proof -
  assume eq: "header_layout h = header_layout h'"
  have dec: "obicall_wire_decode_header (Some (header_layout x)) (Some fresh_header) =
      (if wh_wire_version x \<noteq> 1 then Inl OBICALL_ERR_WIRE_VERSION_UNSUPPORTED
       else if wh_payload_len x > 1048576 then Inl OBICALL_ERR_WIRE_TOO_LARGE else Inr x)" for x
    using decode_header_fields [of "0x4F" "0x42" "0x57" "0x46" x "[]"] by (simp add: header_layout_def)
  have fields: "header_fields h = header_fields h'" using eq by (simp add: header_layout_def)
  then show "h = h'"
    by (auto simp: header_fields_def le_bytes_inject intro: obicall_wire_header.equality)
qed

text \<open>One frame received from a stream that is a prefix of the frames sent is the first of them.\<close>

lemma recv_first:
  assumes "osal_recv_frame cap ps stream = Some (0, f, ps', stream')"
    and "prefix stream (concat (map frame_layout fs))" and "\<forall>f \<in> set fs. sendable f"
  shows "\<exists>fs'. fs = the f # fs' \<and> prefix stream' (concat (map frame_layout fs')) \<and> stream = frame_layout (the f) @ stream'"
proof -
  obtain h p where h: "f = Some (wh_msg_type h, p)" "stream = header_layout h @ p @ stream'"
    "length p = unat (wh_payload_len h)"
    using recv_frame_sound [OF assms(1)] by auto
  have "header_layout h \<noteq> []" using length_header_layout [of h] by force
  then obtain t q fs' where fs: "fs = (t, q) # fs'" using h(2) assms(2) by (cases fs) auto
  let ?h = "frame_header t q (of_nat (length q))"
  obtain rest where rest: "header_layout h @ p @ stream' @ rest = header_layout ?h @ q @ concat (map frame_layout fs')"
    using assms(2) h(2) unfolding fs by (auto simp: prefix_def frame_layout_def)
  then have "header_layout h = header_layout ?h" and tail: "p @ stream' @ rest = q @ concat (map frame_layout fs')"
    using length_header_layout [of h] length_header_layout [of ?h] append_eq_append_conv by metis+
  then have hh: "h = ?h" by (intro header_layout_inject)
  moreover have "length q < 2 ^ 32" using assms(3) fs by (simp add: sendable_def)
  ultimately have "length p = length q" using h(3) by (simp add: frame_header_def unat_of_nat)
  then have pq: "p = q" "stream' @ rest = concat (map frame_layout fs')" using tail by simp_all
  have "prefix stream' (concat (map frame_layout fs'))" using pq(2) [symmetric] by (rule prefixI)
  then show ?thesis
    using fs h hh pq(1) by (intro exI [of _ fs']) (simp add: frame_layout_def, simp add: frame_header_def)
qed

lemma receive_frames_prefix:
  "prefix stream (concat (map frame_layout fs)) \<Longrightarrow> \<forall>f \<in> set fs. sendable f \<Longrightarrow>
     prefix (receive_frames n cap ps stream) fs"
proof (induction n arbitrary: ps stream fs)
  case (Suc n)
  show ?case
  proof (cases "osal_recv_frame cap ps stream")
    case (Some r)
    obtain rc f ps' stream' where r: "r = (rc, f, ps', stream')" by (cases r)
    note sound = recv_frame_sound [OF Some [unfolded r]]
    consider "rc = 0" | "rc = 1" "stream' = stream" | "rc = -1" using sound by auto
    then show ?thesis
    proof cases
      case 1
      then obtain fs' where fs': "fs = the f # fs'" "prefix stream' (concat (map frame_layout fs'))"
        using recv_first [of cap ps stream f ps' stream' fs] Some r Suc.prems by auto
      then show ?thesis using Suc.IH [OF fs'(2)] Suc.prems(2) Some r 1 by simp
    next
      case 2
      then show ?thesis using Suc.IH [OF Suc.prems] Some r by simp
    next
      case 3
      then show ?thesis using Some r by simp
    qed
  qed simp
qed simp

text \<open>A socket that is ready for at least one byte at each poll.\<close>

definition ready :: "poll \<Rightarrow> bool" where
  "ready p = (case p of Ready n \<Rightarrow> n > 0 | _ \<Rightarrow> False)"

lemma send_all_live:
  "list_all ready ps \<Longrightarrow> length bs \<le> length ps \<Longrightarrow>
     \<exists>ps'. send_all bs ps wire = Some (0, ps', wire @ bs) \<and> list_all ready ps' \<and> length ps \<le> length ps' + length bs"
proof (induction bs ps wire rule: send_all.induct)
  case (3 b bs n ps wire)
  then have n: "n \<noteq> 0" by (auto simp: ready_def)
  moreover have "list_all ready ps" "length (drop n (b # bs)) \<le> length ps" using 3(2,3) n by auto
  ultimately obtain ps' where "send_all (drop n (b # bs)) ps (wire @ take n (b # bs)) =
      Some (0, ps', (wire @ take n (b # bs)) @ drop n (b # bs))" "list_all ready ps'"
      "length ps \<le> length ps' + length (drop n (b # bs))" using 3(1) by blast
  then show ?case using n by (cases n) auto
qed (auto simp: ready_def)

lemma send_frame_live:
  assumes "list_all ready ps" and "length (frame_layout (t, payload)) \<le> length ps" and "sendable (t, payload)"
  shows "\<exists>ps'. osal_send_frame t payload (of_nat (length payload)) ps wire =
      Some (0, ps', wire @ frame_layout (t, payload)) \<and>
    list_all ready ps' \<and> length ps \<le> length ps' + length (frame_layout (t, payload))"
proof -
  let ?h = "header_layout (frame_header t payload (of_nat (length payload)))"
  have u: "unat (of_nat (length payload) :: u32) = length payload" using assms(3) by (simp add: sendable_def unat_of_nat)
  have enc: "obicall_wire_encode_header (Some (frame_header t payload (of_nat (length payload)))) (Some (replicate 16 0)) =
      Inr ?h" by (rule encode_header_layout) simp
  have small: "\<not> of_nat (length payload) > OBICALL_WIRE_MAX_PAYLOAD"
    using assms(3) u by (simp add: sendable_def word_less_nat_alt)
  have len: "16 + length payload \<le> length ps" using assms(2) by (simp add: frame_layout_def)
  obtain ps1 where h: "send_all ?h ps wire = Some (0, ps1, wire @ ?h)" "list_all ready ps1" "length ps \<le> length ps1 + 16"
    using send_all_live [of ps ?h wire] assms(1) len by auto
  then obtain ps2 where p: "send_all payload ps1 (wire @ ?h) = Some (0, ps2, (wire @ ?h) @ payload)" "list_all ready ps2"
    "length ps1 \<le> length ps2 + length payload"
    using send_all_live [of ps1 payload "wire @ ?h"] len by auto
  show ?thesis
  proof (cases "payload = []")
    case True
    then show ?thesis using h enc by (auto simp: osal_send_frame_def frame_layout_def)
  next
    case False
    then have "(of_nat (length payload) :: u32) > 0" using u by (simp add: word_greater_zero_iff unat_gt_0 [symmetric])
    then show ?thesis using h p enc small u by (auto simp: osal_send_frame_def frame_layout_def)
  qed
qed

lemma send_frames_live:
  "\<forall>f \<in> set fs. sendable f \<Longrightarrow> list_all ready ps \<Longrightarrow> length (concat (map frame_layout fs)) \<le> length ps \<Longrightarrow>
     \<exists>ps'. send_frames fs ps wire = Some (0, ps', wire @ concat (map frame_layout fs))"
proof (induction fs arbitrary: ps wire)
  case (Cons f fs)
  obtain t q where f: "f = (t, q)" by (cases f)
  then obtain ps' where "osal_send_frame t q (of_nat (length q)) ps wire = Some (0, ps', wire @ frame_layout (t, q))"
    "list_all ready ps'" "length ps \<le> length ps' + length (frame_layout (t, q))"
    using send_frame_live [of ps t q wire] Cons.prems by auto
  then show ?case using Cons.IH [of ps' "wire @ frame_layout (t, q)"] Cons.prems f by auto
qed simp

lemma send_frame_take: "osal_send_frame t (take (unat n) buf) n ps wire = osal_send_frame t buf n ps wire"
  by (simp add: osal_send_frame_def frame_header_def obicall_crc32_def
      cong: option.case_cong sum.case_cong prod.case_cong if_cong)

text \<open>
  C8: whatever the kernel splits, delays or refuses on either side, and wherever the sender stops, a
  receiver gets a prefix of the frames that were sent: the same types and payloads, in order, none twice,
  none torn.
\<close>

theorem frames_arrive_in_order:
  assumes "\<forall>f \<in> set fs. sendable f" and "send_frames fs ps [] = Some (rc, ps', wire)"
  shows "prefix (receive_frames n cap qs wire) fs"
proof -
  obtain k where "wire = take k (concat (map frame_layout fs))" using send_frames_writes [OF assms(2,1)] by auto
  then show ?thesis using receive_frames_prefix [OF _ assms(1)] take_is_prefix by metis
qed

definition example_frames :: "(u8 \<times> bytes) list" where
  "example_frames = [(4, [7, 8]), (5, [])]"

definition steady :: "poll list" where
  "steady = replicate 40 (Ready 3)"

lemma example_frames_sent:
  "\<exists>ps'. send_frames example_frames steady [] = Some (0, ps', concat (map frame_layout example_frames))"
  using send_frames_live [of example_frames steady "[]"]
  by (simp add: example_frames_def sendable_def steady_def ready_def frame_layout_def)

theorem frames_arrive_in_order_witness:
  "\<exists>ps' wire. send_frames example_frames steady [] = Some (0, ps', wire) \<and>
     prefix (receive_frames 5 2048 [Timed_out, Ready 20, Ready 20, Failed] wire) example_frames"
proof -
  have ok: "\<forall>f \<in> set example_frames. sendable f" by (simp add: example_frames_def sendable_def)
  obtain ps' wire where s: "send_frames example_frames steady [] = Some (0, ps', wire)"
    using example_frames_sent by blast
  show ?thesis
    using s frames_arrive_in_order [OF ok s, of 5 2048 "[Timed_out, Ready 20, Ready 20, Failed]"] by blast
qed

section \<open>Delivery\<close>

lemma recv_all_live:
  "len - length got \<le> length stream \<Longrightarrow> len - length got \<le> length qs \<Longrightarrow> list_all ready qs \<Longrightarrow> length got \<le> len \<Longrightarrow>
     \<exists>qs'. recv_all len got qs stream =
         Some (0, got @ take (len - length got) stream, qs', drop (len - length got) stream) \<and>
       list_all ready qs' \<and> length qs \<le> length qs' + (len - length got)"
proof (induction len got qs stream rule: recv_all.induct)
  case (1 len got stream)
  then show ?case by simp
next
  case (2 len got p ps stream)
  show ?case
  proof (cases "length got < len")
    case False
    then show ?thesis using 2 by simp
  next
    case True
    obtain n where p: "p = Ready n" "n > 0" using 2(4) by (cases p) (auto simp: ready_def)
    define k where "k = min n (len - length got)"
    have k: "0 < k" "k \<le> len - length got" "k \<le> length stream" using True p(2) 2(2) by (auto simp: k_def)
    let ?got = "got @ take k stream"
    have got: "length ?got = length got + k" using k by simp
    have nonempty: "take k stream \<noteq> []" using k by auto
    have "len - length ?got \<le> length (drop k stream)" "len - length ?got \<le> length ps"
      "list_all ready ps" "length ?got \<le> len" using 2(2-4) k got by auto
    from 2(1) [OF _ p(1) k_def _ this] True nonempty obtain qs' where
      r: "recv_all len ?got ps (drop k stream) =
         Some (0, ?got @ take (len - length ?got) (drop k stream), qs', drop (len - length ?got) (drop k stream))"
      and qs': "list_all ready qs'" "length ps \<le> length qs' + (len - length ?got)" by blast
    have "recv_all len got (p # ps) stream = recv_all len ?got ps (drop k stream)"
      using True p nonempty k(1) unfolding k_def by (auto simp: Let_def)
    moreover have "?got @ take (len - length ?got) (drop k stream) = got @ take (len - length got) stream"
    proof -
      have "take (len - length got) stream = take k stream @ take (len - length got - k) (drop k stream)"
        using take_add [of k "len - length got - k" stream] k by simp
      then show ?thesis using got by simp
    qed
    moreover have "drop (len - length ?got) (drop k stream) = drop (len - length got) stream" using got k by simp
    ultimately show ?thesis using r qs' got k by (intro exI [of _ qs']) auto
  qed
qed

lemma recv_frame_live:
  assumes "sendable (t, q)" and "length q \<le> unat cap" and "list_all ready qs"
    and "length (frame_layout (t, q)) \<le> length qs"
  shows "\<exists>qs'. osal_recv_frame cap qs (frame_layout (t, q) @ rest) = Some (0, Some (t, q), qs', rest) \<and>
    list_all ready qs' \<and> length qs \<le> length qs' + length (frame_layout (t, q))"
proof -
  let ?h = "frame_header t q (of_nat (length q))"
  have u: "unat (of_nat (length q) :: u32) = length q" using assms(1) by (simp add: sendable_def unat_of_nat)
  have len: "length q + 16 \<le> length qs" using assms(4) by (simp add: frame_layout_def)
  obtain qs1 where r1: "recv_all 16 [] qs (header_layout ?h @ q @ rest) = Some (0, header_layout ?h, qs1, q @ rest)"
    and qs1: "list_all ready qs1" "length qs \<le> length qs1 + 16"
    using recv_all_live [of 16 "[]" "header_layout ?h @ q @ rest" qs] len assms(3) by auto
  have small: "\<not> 1048576 < (of_nat (length q) :: u32)" "\<not> cap < of_nat (length q)"
    using assms(1,2) u by (simp_all add: sendable_def word_less_nat_alt)
  have dec: "obicall_wire_decode_header (Some (header_layout ?h)) (Some fresh_header) = Inr ?h"
    using decode_header_fields [of "0x4F" "0x42" "0x57" "0x46" ?h "[]"] small(1)
    by (simp add: header_layout_def) (simp add: frame_header_def)
  have "\<exists>qs2. (if wh_payload_len ?h > 0 then recv_all (unat (wh_payload_len ?h)) [] qs1 (q @ rest)
        else Some (0, [], qs1, q @ rest)) = Some (0, q, qs2, rest) \<and>
      list_all ready qs2 \<and> length qs1 \<le> length qs2 + length q"
  proof (cases "q = []")
    case True
    then show ?thesis using qs1 by (simp add: frame_header_def)
  next
    case False
    then have "wh_payload_len ?h > 0" using u by (auto simp: frame_header_def word_greater_zero_iff unat_eq_0)
    then show ?thesis
      using recv_all_live [of "length q" "[]" "q @ rest" qs1] qs1 len u by (auto simp: frame_header_def)
  qed
  then obtain qs2 where r2: "(if wh_payload_len ?h > 0 then recv_all (unat (wh_payload_len ?h)) [] qs1 (q @ rest)
        else Some (0, [], qs1, q @ rest)) = Some (0, q, qs2, rest)" "list_all ready qs2"
      "length qs1 \<le> length qs2 + length q" by blast
  have "osal_recv_frame cap qs (frame_layout (t, q) @ rest) = Some (0, Some (t, q), qs2, rest)"
    using r1 dec r2(1) small(2) by (simp add: osal_recv_frame_def frame_layout_def) (simp add: frame_header_def)
  then show ?thesis using r2 qs1 by (intro exI [of _ qs2]) (simp add: frame_layout_def)
qed

lemma receive_frames_live:
  "\<forall>f \<in> set fs. sendable f \<and> length (snd f) \<le> unat cap \<Longrightarrow> list_all ready qs \<Longrightarrow>
     length (concat (map frame_layout fs)) \<le> length qs \<Longrightarrow>
     receive_frames (length fs) cap qs (concat (map frame_layout fs)) = fs"
proof (induction fs arbitrary: qs)
  case (Cons f fs)
  obtain t q where f: "f = (t, q)" by (cases f)
  obtain qs' where "osal_recv_frame cap qs (frame_layout (t, q) @ concat (map frame_layout fs)) =
      Some (0, Some (t, q), qs', concat (map frame_layout fs))" "list_all ready qs'"
      "length qs \<le> length qs' + length (frame_layout (t, q))"
    using recv_frame_live [of t q cap qs "concat (map frame_layout fs)"] Cons.prems f by auto
  then show ?case using Cons f by simp
qed simp

text \<open>
  C33: when the sender has written its frames without an error, a receiver whose buffer is large enough and
  whose socket is ready for at least one byte at each poll receives all of them, as sent, with one call each.
\<close>

theorem frames_all_arrive:
  assumes "\<forall>f \<in> set fs. sendable f \<and> length (snd f) \<le> unat cap" and "send_frames fs ps [] = Some (0, ps', wire)"
    and "list_all ready qs" and "length wire \<le> length qs"
  shows "receive_frames (length fs) cap qs wire = fs"
proof -
  have "wire = concat (map frame_layout fs)" using send_frames_writes [OF assms(2)] assms(1) by auto
  then show ?thesis using receive_frames_live assms by simp
qed

theorem frames_all_arrive_witness:
  "\<exists>ps' wire. send_frames example_frames steady [] = Some (0, ps', wire) \<and>
     receive_frames 2 2048 steady wire = example_frames"
proof -
  have ok: "\<forall>f \<in> set example_frames. sendable f \<and> length (snd f) \<le> unat (2048 :: u32)"
    by (simp add: example_frames_def sendable_def)
  obtain ps' wire where s: "send_frames example_frames steady [] = Some (0, ps', wire)" "length wire = 34"
    using example_frames_sent by (auto simp: example_frames_def frame_layout_def)
  have q: "list_all ready steady" "length wire \<le> length steady" by (simp_all add: steady_def ready_def s(2))
  have "length example_frames = 2" by (simp add: example_frames_def)
  then show ?thesis using s(1) frames_all_arrive [OF ok s(1) q] by metis
qed

end
