(* ===== verification/Pipeline_Config.thy ===== *)
theory Pipeline_Config
  imports Manifest Cstrings Digest
begin

text \<open>
  \<^verbatim>\<open>src/supervisor/pipeline_config.c\<close>: reading the pipeline configuration. A field that is absent or of the
  wrong kind keeps its default. The list of sensor identifiers is printed piece by piece into an array of 256
  bytes without looking at truncation; \<open>None\<close> is the write past its end this leads to. The laws: what a load
  returns is well formed, and exactly when the write happens.
\<close>

section \<open>Data\<close>

abbreviation (input) PIPELINE_MAX_PROVIDERS :: nat where "PIPELINE_MAX_PROVIDERS \<equiv> 8"

record provider_ref =
  pr_manifest :: bytes
  pr_worker_name :: bytes
  pr_instance_seed :: i64

record pipeline_config =
  pc_pipeline_id :: bytes
  pc_manifests_dir :: bytes
  pc_journal_reorder_window :: u64
  pc_journal_max_lateness_ms :: i64
  pc_journal_max_pending :: u32
  pc_gate_result_validity_ms :: i64
  pc_gate_suspect_timeout_ms :: i64
  pc_gate_confirm_timeout_ms :: i64
  pc_gate_max_replay_gap :: u64
  pc_est_process_noise_position :: double
  pc_est_process_noise_velocity :: double
  pc_est_initial_position_variance :: double
  pc_est_initial_velocity_variance :: double
  pc_est_max_prediction_gap_s :: double
  pc_dgt_enabled :: bool
  pc_dgt_hysteresis_margin :: double
  pc_sensor_ids_csv :: bytes
  pc_provider_count :: nat
  pc_providers :: "provider_ref list"
  pc_config_digest :: bytes

definition zero_provider :: provider_ref where
  "zero_provider = \<lparr>pr_manifest = replicate 512 0, pr_worker_name = replicate 64 0, pr_instance_seed = 0\<rparr>"

definition fixed_string :: "nat \<Rightarrow> string \<Rightarrow> bytes" where
  "fixed_string cap s = memcpy (replicate cap 0) 0 (ascii s)"

definition default_config :: pipeline_config where
  "default_config = \<lparr>pc_pipeline_id = fixed_string 32 ''default'', pc_manifests_dir = fixed_string 512 ''providers'',
     pc_journal_reorder_window = 8, pc_journal_max_lateness_ms = 2000, pc_journal_max_pending = 4096,
     pc_gate_result_validity_ms = 500, pc_gate_suspect_timeout_ms = 300, pc_gate_confirm_timeout_ms = 700,
     pc_gate_max_replay_gap = 50, pc_est_process_noise_position = double_lit 5 100,
     pc_est_process_noise_velocity = double_lit 1 10, pc_est_initial_position_variance = double_lit 10 1,
     pc_est_initial_velocity_variance = double_lit 10 1, pc_est_max_prediction_gap_s = double_lit 30 1,
     pc_dgt_enabled = False, pc_dgt_hysteresis_margin = double_lit 5 100,
     pc_sensor_ids_csv = replicate 256 0, pc_provider_count = 0, pc_providers = replicate 8 zero_provider,
     pc_config_digest = replicate 32 0\<rparr>"

section \<open>Fields\<close>

definition get_str :: "bytes \<Rightarrow> string \<Rightarrow> bytes \<Rightarrow> bytes" where
  "get_str js key out =
     (case json_object_find js key of
        None \<Rightarrow> out
      | Some sp \<Rightarrow> if \<not> js_is_string sp then out else snd (json_decode_string (window js sp) out))"

definition get_num :: "bytes \<Rightarrow> string \<Rightarrow> double option" where
  "get_num js key =
     (case json_object_find js key of
        None \<Rightarrow> None
      | Some sp \<Rightarrow> if js_is_string sp then None else json_parse_number (window js sp))"

definition get_bool :: "bytes \<Rightarrow> string \<Rightarrow> bool option" where
  "get_bool js key =
     (case json_object_find js key of
        None \<Rightarrow> None
      | Some sp \<Rightarrow>
          if js_is_string sp then None
          else if json_span_is_true (window js sp) then Some True
          else if json_span_is_false (window js sp) then Some False
          else None)"

definition get_obj :: "bytes \<Rightarrow> string \<Rightarrow> bytes option" where
  "get_obj js key =
     (case json_object_find js key of
        None \<Rightarrow> None
      | Some sp \<Rightarrow> if js_is_string sp then None else Some (window js sp))"

text \<open>\<^verbatim>\<open>if (get_num(...)) field = (type)num;\<close>\<close>

definition int_field :: "bytes \<Rightarrow> string \<Rightarrow> 'a::len word \<Rightarrow> 'a word" where
  "int_field js key old = (case get_num js key of Some num \<Rightarrow> of_int (double_trunc num) | None \<Rightarrow> old)"

definition double_field :: "bytes \<Rightarrow> string \<Rightarrow> double \<Rightarrow> double" where
  "double_field js key old = (case get_num js key of Some num \<Rightarrow> num | None \<Rightarrow> old)"

section \<open>Sections of the file\<close>

definition in_section :: "bytes \<Rightarrow> string \<Rightarrow> (bytes \<Rightarrow> pipeline_config \<Rightarrow> pipeline_config) \<Rightarrow> pipeline_config \<Rightarrow> pipeline_config" where
  "in_section js key f c = (case get_obj js key of Some jo \<Rightarrow> f jo c | None \<Rightarrow> c)"

definition journal_section :: "bytes \<Rightarrow> pipeline_config \<Rightarrow> pipeline_config" where
  "journal_section jo c =
     c\<lparr>pc_journal_reorder_window := int_field jo ''reorder_window'' (pc_journal_reorder_window c),
       pc_journal_max_lateness_ms := int_field jo ''max_lateness_ms'' (pc_journal_max_lateness_ms c),
       pc_journal_max_pending := int_field jo ''max_pending'' (pc_journal_max_pending c)\<rparr>"

definition gate_section :: "bytes \<Rightarrow> pipeline_config \<Rightarrow> pipeline_config" where
  "gate_section jo c =
     c\<lparr>pc_gate_result_validity_ms := int_field jo ''result_validity_ms'' (pc_gate_result_validity_ms c),
       pc_gate_suspect_timeout_ms := int_field jo ''suspect_timeout_ms'' (pc_gate_suspect_timeout_ms c),
       pc_gate_confirm_timeout_ms := int_field jo ''confirm_timeout_ms'' (pc_gate_confirm_timeout_ms c),
       pc_gate_max_replay_gap := int_field jo ''max_replay_gap'' (pc_gate_max_replay_gap c)\<rparr>"

definition estimator_section :: "bytes \<Rightarrow> pipeline_config \<Rightarrow> pipeline_config" where
  "estimator_section jo c =
     c\<lparr>pc_est_process_noise_position := double_field jo ''process_noise_position'' (pc_est_process_noise_position c),
       pc_est_process_noise_velocity := double_field jo ''process_noise_velocity'' (pc_est_process_noise_velocity c),
       pc_est_initial_position_variance :=
         double_field jo ''initial_position_variance'' (pc_est_initial_position_variance c),
       pc_est_initial_velocity_variance :=
         double_field jo ''initial_velocity_variance'' (pc_est_initial_velocity_variance c),
       pc_est_max_prediction_gap_s := double_field jo ''max_prediction_gap_s'' (pc_est_max_prediction_gap_s c)\<rparr>"

definition dgt_section :: "bytes \<Rightarrow> pipeline_config \<Rightarrow> pipeline_config" where
  "dgt_section jo c =
     c\<lparr>pc_dgt_enabled := (case get_bool jo ''enabled'' of Some b \<Rightarrow> b | None \<Rightarrow> pc_dgt_enabled c),
       pc_dgt_hysteresis_margin := double_field jo ''hysteresis_margin'' (pc_dgt_hysteresis_margin c)\<rparr>"

section \<open>Sensor identifiers\<close>

text \<open>
  One \<^verbatim>\<open>snprintf(csv + off, sizeof(csv) - off, "%s%s", off > 0 ? "," : "", name)\<close> and \<^verbatim>\<open>off += written\<close>.
  With \<open>off\<close> beyond the array the size has wrapped around and the text lands behind the array.
\<close>

definition csv_append :: "bytes \<Rightarrow> nat \<times> bytes \<Rightarrow> (nat \<times> bytes) option" where
  "csv_append name acc =
     (case acc of (off, csv) \<Rightarrow>
        (let text = (if off > 0 then COMMA # name else name) in
         if off > 256 then None
         else Some (off + length text,
           if off = 256 then csv else memcpy csv off (take (256 - off - 1) text @ [0]))))"

text \<open>The name of an element that is a string and fits 32 bytes.\<close>

definition sensor_name :: "bytes \<Rightarrow> nat \<Rightarrow> bytes option" where
  "sensor_name arr i =
     (case json_array_get arr i of
        None \<Rightarrow> None
      | Some e \<Rightarrow>
          if \<not> js_is_string e then None
          else (case json_decode_string (window arr e) (replicate 32 0) of
                  (None, _) \<Rightarrow> None
                | (Some _, name) \<Rightarrow> Some (cstring name)))"

primrec csv_names :: "bytes list \<Rightarrow> nat \<times> bytes \<Rightarrow> (nat \<times> bytes) option" where
  "csv_names [] acc = Some acc"
| "csv_names (name # names) acc = Option.bind (csv_append name acc) (csv_names names)"

definition sensor_names :: "bytes \<Rightarrow> bytes list" where
  "sensor_names arr = List.map_filter (sensor_name arr) [0..<array_size arr]"

definition sensor_section :: "bytes \<Rightarrow> pipeline_config \<Rightarrow> pipeline_config option" where
  "sensor_section js c =
     (case get_obj js ''sensor_ids'' of
        None \<Rightarrow> Some c
      | Some arr \<Rightarrow>
          map_option (\<lambda>(off, csv). c\<lparr>pc_sensor_ids_csv := csv\<rparr>)
            (csv_names (sensor_names arr) (0, pc_sensor_ids_csv c)))"

section \<open>Providers\<close>

text \<open>
  One element of \<^verbatim>\<open>providers\<close>: the next free slot is filled in place, and taken when it names a manifest. A
  slot that is not taken keeps what was written to it.
\<close>

definition load_provider :: "bytes \<Rightarrow> nat \<Rightarrow> pipeline_config \<Rightarrow> pipeline_config" where
  "load_provider arr i c =
     (case json_array_get arr i of
        None \<Rightarrow> c
      | Some e \<Rightarrow>
          if js_is_string e then c
          else
            (let pobj = window arr e;
                 pr = pc_providers c ! pc_provider_count c;
                 seed = (case get_num pobj ''instance_seed'' of Some num \<Rightarrow> num | None \<Rightarrow> 1);
                 pr = pr\<lparr>pr_manifest := get_str pobj ''manifest'' (pr_manifest pr),
                         pr_worker_name := get_str pobj ''worker_name'' (pr_worker_name pr),
                         pr_instance_seed := of_int (double_trunc seed)\<rparr>;
                 c = c\<lparr>pc_providers := (pc_providers c)[pc_provider_count c := pr]\<rparr>
             in if hd (pr_manifest pr) \<noteq> 0 then c\<lparr>pc_provider_count := pc_provider_count c + 1\<rparr> else c))"

definition provider_section :: "bytes \<Rightarrow> pipeline_config \<Rightarrow> pipeline_config" where
  "provider_section js c =
     (case get_obj js ''providers'' of
        None \<Rightarrow> c
      | Some arr \<Rightarrow> fold (load_provider arr) [0..<min (array_size arr) PIPELINE_MAX_PROVIDERS] c)"

section \<open>Loading\<close>

definition read_fields :: "bytes \<Rightarrow> pipeline_config \<Rightarrow> pipeline_config" where
  "read_fields js c =
     (let c = c\<lparr>pc_pipeline_id := get_str js ''pipeline_id'' (pc_pipeline_id c),
                pc_manifests_dir := get_str js ''manifests_dir'' (pc_manifests_dir c)\<rparr>;
          c = in_section js ''journal'' journal_section c;
          c = in_section js ''gate'' gate_section c;
          c = in_section js ''estimator'' estimator_section c
      in in_section js ''dgt'' dgt_section c)"

definition read_config :: "bytes \<Rightarrow> pipeline_config \<Rightarrow> pipeline_config option" where
  "read_config js c = map_option (provider_section js) (sensor_section js (read_fields js c))"

text \<open>The file's contents, if it can be opened; the value is the message of an error or the configuration.\<close>

definition pipeline_config_load :: "bytes \<Rightarrow> bytes option \<Rightarrow> (bytes + pipeline_config) option" where
  "pipeline_config_load path file =
     (case file of
        None \<Rightarrow> Some (Inl (ascii ''cannot open '' @ path))
      | Some content \<Rightarrow>
          if length content > 65536 then Some (Inl (ascii ''config file too large: '' @ path))
          else
            (let c = default_config\<lparr>pc_config_digest := the (obicall_sha256 content)\<rparr> in
             case get_num content ''schema_version'' of
               Some num \<Rightarrow>
                 if u32_of_double num \<noteq> 1 then Some (Inl (ascii ''unsupported config schema_version''))
                 else map_option Inr (read_config content c)
             | None \<Rightarrow> map_option Inr (read_config content c)))"

section \<open>The list of sensors\<close>

text \<open>The text the calls of \<^verbatim>\<open>snprintf\<close> would leave in an array without a bound, and the array itself.\<close>

primrec joined :: "bytes list \<Rightarrow> bytes \<Rightarrow> bytes" where
  "joined [] t = t"
| "joined (name # names) t = joined names (t @ (if t = [] then name else COMMA # name))"

definition csv_array :: "bytes \<Rightarrow> bytes" where
  "csv_array t = memcpy (replicate 256 0) 0 (take 255 t)"

lemma csv_append_array:
  "csv_append name (length t, csv_array t) =
     (if length t > 256 then None
      else let t' = t @ (if t = [] then name else COMMA # name) in Some (length t', csv_array t'))"
  by (cases "length t = 256")
    (auto simp: csv_append_def csv_array_def memcpy_def Let_def replicate_add [symmetric] min_def
      simp flip: replicate_Suc)

lemma joined_grows: "length t \<le> length (joined names t)"
proof (induction names arbitrary: t)
  case (Cons name names)
  from Cons.IH [of "t @ (if t = [] then name else COMMA # name)"] show ?case
    by (auto split: if_splits)
qed simp

lemma csv_names_array:
  "csv_names names (length t, csv_array t) =
     (if names \<noteq> [] \<and> length (joined (butlast names) t) > 256 then None
      else Some (length (joined names t), csv_array (joined names t)))"
proof (induction names arbitrary: t)
  case (Cons name names)
  then show ?case
    using joined_grows [of t "butlast (name # names)"]
      Cons.IH [of "t @ (if t = [] then name else COMMA # name)"]
    by (auto simp: csv_append_array Let_def)
qed simp

lemma csv_array_empty: "csv_array [] = replicate 256 0"
  by (simp add: csv_array_def memcpy_def)

lemmas csv_names_from_zero = csv_names_array [of _ "[]", unfolded csv_array_empty list.size]

section \<open>What a load returns\<close>

definition wf_provider :: "provider_ref \<Rightarrow> bool" where
  "wf_provider pr \<longleftrightarrow> length (pr_manifest pr) = 512 \<and> length (pr_worker_name pr) = 64"

definition wf_config :: "pipeline_config \<Rightarrow> bool" where
  "wf_config c \<longleftrightarrow> length (pc_pipeline_id c) = 32 \<and> length (pc_manifests_dir c) = 512 \<and>
     length (pc_sensor_ids_csv c) = 256 \<and> 0 \<in> set (pc_sensor_ids_csv c) \<and> pc_provider_count c \<le> 8 \<and>
     length (pc_providers c) = 8 \<and> list_all wf_provider (pc_providers c) \<and>
     list_all (\<lambda>pr. hd (pr_manifest pr) \<noteq> 0) (take (pc_provider_count c) (pc_providers c))"

lemma get_str_length [simp]: "length (get_str js key out) = length out"
  by (simp add: get_str_def split: option.split)

lemma default_config_wf: "wf_config (default_config\<lparr>pc_config_digest := d\<rparr>)"
  by (simp add: wf_config_def default_config_def fixed_string_def ascii_def memcpy_def zero_provider_def
      wf_provider_def numeral_eq_Suc)

lemma section_keeps_wf:
  assumes "\<And>jo c. wf_config (f jo c) = wf_config c"
  shows "wf_config (in_section js key f c) = wf_config c"
  using assms by (simp add: in_section_def split: option.split)

lemma sections_keep_wf:
  "wf_config (journal_section jo c) = wf_config c" "wf_config (gate_section jo c) = wf_config c"
  "wf_config (estimator_section jo c) = wf_config c" "wf_config (dgt_section jo c) = wf_config c"
  by (simp_all add: wf_config_def journal_section_def gate_section_def estimator_section_def dgt_section_def)

lemma section_keeps:
  assumes "\<And>jo c. g (f jo c) = g c"
  shows "g (in_section js key f c) = g c"
  using assms by (simp add: in_section_def split: option.split)

lemma sections_keep_csv:
  "pc_sensor_ids_csv (journal_section jo c) = pc_sensor_ids_csv c"
  "pc_sensor_ids_csv (gate_section jo c) = pc_sensor_ids_csv c"
  "pc_sensor_ids_csv (estimator_section jo c) = pc_sensor_ids_csv c"
  "pc_sensor_ids_csv (dgt_section jo c) = pc_sensor_ids_csv c"
  by (simp_all add: journal_section_def gate_section_def estimator_section_def dgt_section_def)

lemma load_provider_fields:
  "pc_sensor_ids_csv (load_provider arr i c) = pc_sensor_ids_csv c"
  "pc_config_digest (load_provider arr i c) = pc_config_digest c"
  by (simp_all add: load_provider_def Let_def split: option.split)

lemma load_provider_keeps_wf:
  assumes "wf_config c" "pc_provider_count c \<le> i" "i < 8"
  shows "wf_config (load_provider arr i c) \<and> pc_provider_count (load_provider arr i c) \<le> Suc i"
proof -
  have "wf_provider (pc_providers c ! pc_provider_count c)"
    using assms by (auto simp: wf_config_def list_all_length)
  then show ?thesis
    using assms by (auto simp: load_provider_def wf_config_def wf_provider_def Let_def list_all_length
        nth_list_update less_Suc_eq take_Suc_conv_app_nth split: option.split)
qed

lemma providers_keep_wf:
  assumes "wf_config c" "pc_provider_count c = 0" "k \<le> 8"
  shows "wf_config (fold (load_provider arr) [0..<k] c) \<and> pc_provider_count (fold (load_provider arr) [0..<k] c) \<le> k"
  using assms(3)
proof (induction k)
  case (Suc k)
  then show ?case using load_provider_keeps_wf [of "fold (load_provider arr) [0..<k] c" k arr] by simp
qed (use assms in simp)

lemma fold_keeps: "(\<And>i c. g (f i c) = g c) \<Longrightarrow> g (fold f is c) = g c"
  by (induction "is" arbitrary: c) simp_all

lemma provider_section_fields:
  "pc_sensor_ids_csv (provider_section js c) = pc_sensor_ids_csv c"
  "pc_config_digest (provider_section js c) = pc_config_digest c"
  by (simp_all add: provider_section_def load_provider_fields fold_keeps [where g = pc_sensor_ids_csv]
      fold_keeps [where g = pc_config_digest] split: option.split)

lemma sections_keep_digest:
  "pc_config_digest (journal_section jo c) = pc_config_digest c" "pc_config_digest (gate_section jo c) = pc_config_digest c"
  "pc_config_digest (estimator_section jo c) = pc_config_digest c" "pc_config_digest (dgt_section jo c) = pc_config_digest c"
  "pc_provider_count (journal_section jo c) = pc_provider_count c" "pc_provider_count (gate_section jo c) = pc_provider_count c"
  "pc_provider_count (estimator_section jo c) = pc_provider_count c" "pc_provider_count (dgt_section jo c) = pc_provider_count c"
  by (simp_all add: journal_section_def gate_section_def estimator_section_def dgt_section_def)

lemma read_fields_keeps:
  "pc_sensor_ids_csv (read_fields js c) = pc_sensor_ids_csv c"
  "pc_config_digest (read_fields js c) = pc_config_digest c"
  "pc_provider_count (read_fields js c) = pc_provider_count c"
  by (simp_all add: read_fields_def Let_def section_keeps sections_keep_csv sections_keep_digest)

lemma read_fields_wf: "wf_config c \<Longrightarrow> wf_config (read_fields js c)"
  by (simp add: read_fields_def Let_def section_keeps_wf sections_keep_wf)
    (simp add: wf_config_def)

text \<open>The names of the \<^verbatim>\<open>sensor_ids\<close> of the file.\<close>

definition listed_sensors :: "bytes \<Rightarrow> bytes list" where
  "listed_sensors js = (case get_obj js ''sensor_ids'' of None \<Rightarrow> [] | Some arr \<Rightarrow> sensor_names arr)"

definition overruns :: "bytes list \<Rightarrow> bool" where
  "overruns names \<longleftrightarrow> names \<noteq> [] \<and> length (joined (butlast names) []) > 256"

lemma sensor_section_listed:
  assumes "pc_sensor_ids_csv c = replicate 256 0"
  shows "sensor_section js c =
    (if overruns (listed_sensors js) then None
     else Some (c\<lparr>pc_sensor_ids_csv := csv_array (joined (listed_sensors js) [])\<rparr>))"
proof -
  have "c = c\<lparr>pc_sensor_ids_csv := csv_array []\<rparr>"
    using assms by (simp add: csv_array_empty)
  then show ?thesis
    using assms by (simp add: sensor_section_def listed_sensors_def overruns_def csv_names_from_zero split: option.split)
qed

lemma csv_array_laws: "length (csv_array t) = 256" "0 \<in> set (csv_array t)"
  by (auto simp: csv_array_def memcpy_def)

lemma read_config_laws:
  assumes "wf_config c" "pc_sensor_ids_csv c = replicate 256 0" "pc_provider_count c = 0"
  shows "read_config js c = None \<longleftrightarrow> overruns (listed_sensors js)"
    and "read_config js c = Some c' \<Longrightarrow> wf_config c' \<and> pc_config_digest c' = pc_config_digest c \<and>
           pc_sensor_ids_csv c' = csv_array (joined (listed_sensors js) [])"
proof -
  let ?c = "(read_fields js c)\<lparr>pc_sensor_ids_csv := csv_array (joined (listed_sensors js) [])\<rparr>"
  have eq: "read_config js c = (if overruns (listed_sensors js) then None else Some (provider_section js ?c))"
    using assms(2) by (simp add: read_config_def sensor_section_listed read_fields_keeps)
  then show "read_config js c = None \<longleftrightarrow> overruns (listed_sensors js)"
    by simp
  have "wf_config ?c"
    using read_fields_wf [OF assms(1)] by (simp add: wf_config_def csv_array_laws)
  then have "wf_config (provider_section js ?c)"
    using providers_keep_wf [of ?c] assms(3) by (simp add: provider_section_def read_fields_keeps split: option.split)
  then show "wf_config c' \<and> pc_config_digest c' = pc_config_digest c \<and>
      pc_sensor_ids_csv c' = csv_array (joined (listed_sensors js) [])" if "read_config js c = Some c'"
    using that by (auto simp: eq provider_section_fields read_fields_keeps split: if_splits)
qed

lemma loaded_config:
  assumes "pipeline_config_load path (Some content) = Some (Inr c)"
  obtains "length content \<le> 65536"
    "read_config content (default_config\<lparr>pc_config_digest := the (obicall_sha256 content)\<rparr>) = Some c"
  using assms by (auto simp: pipeline_config_load_def Let_def split: if_splits option.splits)

lemmas read_default = read_config_laws [OF default_config_wf]

lemma default_config_fields:
  "pc_sensor_ids_csv (default_config\<lparr>pc_config_digest := d\<rparr>) = replicate 256 0"
  "pc_provider_count (default_config\<lparr>pc_config_digest := d\<rparr>) = 0"
  by (simp_all add: default_config_def)

text \<open>Splitting the list at its commas, as the brokers do, gives the names back.\<close>

definition plain_name :: "bytes \<Rightarrow> bool" where
  "plain_name n \<longleftrightarrow> n \<noteq> [] \<and> COMMA \<notin> set n \<and> 0 \<notin> set n"

lemma strtok_word: "COMMA \<notin> set n \<Longrightarrow> n \<noteq> [] \<Longrightarrow> strtok COMMA n = [n]"
proof (induction n)
  case (Cons ch n)
  then show ?case by (cases n) auto
qed simp

lemma strtok_first:
  assumes "COMMA \<notin> set n" "n \<noteq> []"
  shows "strtok COMMA (n @ COMMA # rest) = n # strtok COMMA rest"
  using assms
proof (induction n)
  case (Cons ch n)
  then show ?case by (cases n) (auto split: list.split)
qed simp

lemma joined_later: "t \<noteq> [] \<Longrightarrow> joined names t = t @ concat (map ((#) COMMA) names)"
  by (induction names arbitrary: t) simp_all

lemma strtok_joined:
  assumes "list_all plain_name names"
  shows "strtok COMMA (joined names []) = names"
proof -
  have tails: "strtok COMMA (n @ concat (map ((#) COMMA) names)) = n # names"
    if "plain_name n" "list_all plain_name names" for n names
    using that
  proof (induction names arbitrary: n)
    case Nil
    then show ?case by (simp add: plain_name_def strtok_word)
  next
    case (Cons m names)
    then show ?case by (simp add: plain_name_def strtok_first)
  qed
  show ?thesis
    using assms tails by (cases names) (auto simp: joined_later plain_name_def)
qed

lemma cstring_csv_array:
  assumes "length t \<le> 255" "0 \<notin> set t"
  shows "cstring (csv_array t) = t"
proof -
  have "csv_array t = t @ replicate (256 - length t) 0"
    using assms(1) by (simp add: csv_array_def memcpy_def)
  moreover have "takeWhile (\<lambda>b. b \<noteq> 0) t = t"
    using assms(2) by (auto simp: takeWhile_eq_all_conv)
  moreover have "replicate (256 - length t) (0 :: u8) = 0 # replicate (255 - length t) 0"
    using assms(1) by (simp add: Suc_diff_le flip: replicate_Suc)
  ultimately show ?thesis
    by (simp add: cstring_def takeWhile_tail)
qed

lemma joined_plain: "list_all plain_name names \<Longrightarrow> 0 \<notin> set t \<Longrightarrow> 0 \<notin> set (joined names t)"
  by (induction names arbitrary: t) (auto simp: plain_name_def)

lemma sections_keep_rest:
  "pc_pipeline_id (journal_section jo c) = pc_pipeline_id c" "pc_pipeline_id (gate_section jo c) = pc_pipeline_id c"
  "pc_pipeline_id (estimator_section jo c) = pc_pipeline_id c" "pc_pipeline_id (dgt_section jo c) = pc_pipeline_id c"
  "pc_manifests_dir (journal_section jo c) = pc_manifests_dir c" "pc_manifests_dir (gate_section jo c) = pc_manifests_dir c"
  "pc_manifests_dir (estimator_section jo c) = pc_manifests_dir c" "pc_manifests_dir (dgt_section jo c) = pc_manifests_dir c"
  "pc_providers (journal_section jo c) = pc_providers c" "pc_providers (gate_section jo c) = pc_providers c"
  "pc_providers (estimator_section jo c) = pc_providers c" "pc_providers (dgt_section jo c) = pc_providers c"
  by (simp_all add: journal_section_def gate_section_def estimator_section_def dgt_section_def)

lemma read_fields_strings:
  "pc_pipeline_id (read_fields js c) = get_str js ''pipeline_id'' (pc_pipeline_id c)"
  "pc_manifests_dir (read_fields js c) = get_str js ''manifests_dir'' (pc_manifests_dir c)"
  "pc_providers (read_fields js c) = pc_providers c"
  by (simp_all add: read_fields_def Let_def section_keeps sections_keep_rest)

lemma load_provider_strings:
  "pc_pipeline_id (load_provider arr i c) = pc_pipeline_id c"
  "pc_manifests_dir (load_provider arr i c) = pc_manifests_dir c"
  by (simp_all add: load_provider_def Let_def split: option.split)

section \<open>Properties\<close>

lemma loaded_config_wf:
  assumes "pipeline_config_load path (Some content) = Some (Inr c)"
  shows "wf_config c \<and> obicall_sha256 content = Some (pc_config_digest c) \<and> length content \<le> 65536"
proof -
  obtain "length content \<le> 65536"
    and read: "read_config content (default_config\<lparr>pc_config_digest := the (obicall_sha256 content)\<rparr>) = Some c"
    using assms by (rule loaded_config)
  then show ?thesis
    using read_default(2) [OF default_config_fields read] by (simp add: sha256_is_spec)
qed

text \<open>
  A configuration that loads is well formed: every array has its length, the list of sensors is terminated,
  at most eight providers are counted and each of them names a manifest; the digest is the SHA-256 of the whole
  file, which was at most 65536 bytes.
\<close>

theorem loaded_config_well_formed:
  assumes "pipeline_config_load path (Some content) = Some (Inr c)"
  shows "wf_config c \<and> obicall_sha256 content = Some (pc_config_digest c) \<and> length content \<le> 65536"
  using assms by (rule loaded_config_wf)


definition sample_config :: bytes where
  "sample_config = ascii ''{\"sensor_ids\":[\"a\",\"b\"],\"providers\":[{\"manifest\":\"m\"}]}''"

lemma one_provider:
  assumes "pc_provider_count c = 0" "pc_providers c = replicate 8 zero_provider"
  shows "load_provider (ascii ''[{\"manifest\":\"m\"}]'') 0 c = c\<lparr>pc_providers := (replicate 8 zero_provider)[0 :=
      \<lparr>pr_manifest = fixed_string 512 ''m'', pr_worker_name = replicate 64 0, pr_instance_seed = 1\<rparr>], pc_provider_count := 1\<rparr>"
proof -
  let ?arr = "ascii ''[{\"manifest\":\"m\"}]''" and ?obj = "ascii ''{\"manifest\":\"m\"}''"
  let ?sp = "\<lparr>js_off = 1, js_len = 16, js_is_string = False\<rparr>"
  have arr: "json_array_get ?arr 0 = Some ?sp" and obj: "window ?arr ?sp = ?obj"
    by code_simp+
  have fields: "get_num ?obj ''instance_seed'' = None" "get_str ?obj ''worker_name'' (replicate 64 0) = replicate 64 0"
    "get_str ?obj ''manifest'' (replicate 512 0) = fixed_string 512 ''m''" "hd (fixed_string 512 ''m'') \<noteq> 0"
    "double_trunc 1 = 1"
    by code_simp+
  show ?thesis
    unfolding load_provider_def arr option.case obj fields(1) Let_def
    using assms fields(2-5) by (simp add: zero_provider_def del: One_nat_def)
qed

lemma sample_fields:
  "\<exists>c. pipeline_config_load path (Some sample_config) = Some (Inr c) \<and>
     pc_pipeline_id c = fixed_string 32 ''default'' \<and> pc_manifests_dir c = fixed_string 512 ''providers'' \<and>
     pc_provider_count c = 1 \<and> pr_manifest (pc_providers c ! 0) = fixed_string 512 ''m'' \<and>
     pr_worker_name (pc_providers c ! 0) = replicate 64 0 \<and> pc_sensor_ids_csv c = csv_array (ascii ''a,b'')"
proof -
  let ?c = "default_config\<lparr>pc_config_digest := the (obicall_sha256 sample_config)\<rparr>"
  let ?arr = "ascii ''[{\"manifest\":\"m\"}]''"
  let ?c1 = "(read_fields sample_config ?c)\<lparr>pc_sensor_ids_csv := csv_array (joined (listed_sensors sample_config) [])\<rparr>"
  have js: "get_obj sample_config ''providers'' = Some ?arr" "get_num sample_config ''schema_version'' = None"
    "json_object_find sample_config ''pipeline_id'' = None" "json_object_find sample_config ''manifests_dir'' = None"
    "listed_sensors sample_config = [[0x61], [0x62]]" "array_size ?arr = 1"
    by code_simp+
  have c1: "pc_provider_count ?c1 = 0" "pc_providers ?c1 = replicate 8 zero_provider"
    "pc_pipeline_id ?c1 = fixed_string 32 ''default''" "pc_manifests_dir ?c1 = fixed_string 512 ''providers''"
    by (simp_all add: read_fields_keeps read_fields_strings default_config_def get_str_def js)
  have csv: "pc_sensor_ids_csv ?c1 = csv_array (ascii ''a,b'')"
    by (simp add: js(5) ascii_def)
  have "read_config sample_config ?c = Some (provider_section sample_config ?c1)"
    by (simp add: read_config_def sensor_section_listed read_fields_keeps default_config_fields overruns_def js(5))
  moreover have "provider_section sample_config ?c1 = load_provider ?arr 0 ?c1"
    unfolding provider_section_def js option.case by simp
  moreover note one_provider [OF c1(1,2)]
  moreover have "length sample_config \<le> 65536"
    by (simp add: sample_config_def ascii_def)
  ultimately show ?thesis
    using c1(3,4) csv js(2) by (simp add: pipeline_config_load_def)
qed

theorem loaded_config_well_formed_witness:
  "\<exists>c. pipeline_config_load [] (Some sample_config) = Some (Inr c) \<and> wf_config c"
  using sample_fields loaded_config_well_formed by blast

text \<open>
  C31: Loading writes past the end of the list of sensors exactly when the file is read to that point and its
  sensor names but the last, separated by commas, take more than 256 characters. Every other file gives a
  configuration or a message.
\<close>

theorem config_overrun_exactly:
  "pipeline_config_load path (Some content) = None \<longleftrightarrow>
     length content \<le> 65536 \<and> (get_num content ''schema_version'' = None \<or>
       map_option u32_of_double (get_num content ''schema_version'') = Some 1) \<and>
     overruns (listed_sensors content)"
  by (auto simp: pipeline_config_load_def Let_def read_default(1) [OF default_config_fields] split: option.splits)

lemma ten_full_names_overrun: "overruns (replicate 10 (replicate 31 0x61))"
  by (simp add: overruns_def numeral_eq_Suc)



end
