(* ===== verification/Procutil.thy ===== *)
theory Procutil
  imports Frames Hex Cstrings Stdio
begin

text \<open>
  \<^verbatim>\<open>src/common/procutil.c\<close>: what all processes share - command lines, the port, process and token files in
  the runtime directory, the search for executables, and the handshake that opens every connection. The file
  system maps paths to contents; a write may fail to open, run out of room (unnoticed, as the code checks
  neither \<^verbatim>\<open>fprintf\<close> nor \<^verbatim>\<open>fclose\<close>) or fail to be renamed into place.
\<close>

section \<open>Command lines\<close>

definition find_arg :: "bytes list \<Rightarrow> bytes \<Rightarrow> bytes option" where
  "find_arg argv name =
     map_option (\<lambda>i. argv ! (i + 1)) (List.find (\<lambda>i. argv ! i = name) [1..<length argv - 1])"

definition procutil_arg_str :: "bytes list \<Rightarrow> string \<Rightarrow> bytes option \<Rightarrow> bytes option" where
  "procutil_arg_str argv name def =
     (case find_arg argv (ascii name) of Some v \<Rightarrow> Some v | None \<Rightarrow> def)"

definition procutil_arg_i64 :: "bytes list \<Rightarrow> string \<Rightarrow> i64 \<Rightarrow> i64" where
  "procutil_arg_i64 argv name def =
     (case find_arg argv (ascii name) of Some v \<Rightarrow> strtoll v | None \<Rightarrow> def)"

definition procutil_arg_f64 :: "bytes list \<Rightarrow> string \<Rightarrow> double \<Rightarrow> double" where
  "procutil_arg_f64 argv name def =
     (case find_arg argv (ascii name) of Some v \<Rightarrow> strtod_arg v | None \<Rightarrow> def)"

definition procutil_arg_flag :: "bytes list \<Rightarrow> string \<Rightarrow> bool" where
  "procutil_arg_flag argv name = list_ex (\<lambda>i. argv ! i = ascii name) [1..<length argv]"

section \<open>Small files\<close>

type_synonym files = "bytes \<Rightarrow> bytes option"

record file_env =
  fe_open_ok :: bool
  fe_room :: nat
  fe_rename_ok :: bool

text \<open>Write to a temporary file beside the path, then rename.\<close>

definition replace_file :: "file_env \<Rightarrow> bytes \<Rightarrow> bytes \<Rightarrow> files \<Rightarrow> int \<times> files" where
  "replace_file env path content fs =
     (let tmp = snd (snprintf 1040 (path @ ascii ''.tmp'')) in
      if \<not> fe_open_ok env then (-1, fs)
      else
        (let written = take (fe_room env) content in
         case osal_file_atomic_replace (fe_rename_ok env) written (fs path) of
           (rc, final) \<Rightarrow> (rc, fs(tmp := if rc = 0 then None else Some written, path := final))))"

definition file_path :: "bytes \<Rightarrow> bytes \<Rightarrow> string \<Rightarrow> bytes option" where
  "file_path runtime_dir name suffix_text =
     (case snprintf 1024 (runtime_dir @ SLASH # name @ ascii suffix_text) of
        (n, path) \<Rightarrow> if n > 0 \<and> n < 1024 then Some path else None)"

definition port_file_path :: "bytes \<Rightarrow> bytes \<Rightarrow> bytes option" where
  "port_file_path runtime_dir name = file_path runtime_dir name ''.port''"

definition procutil_write_port_file :: "file_env \<Rightarrow> bytes \<Rightarrow> bytes \<Rightarrow> u16 \<Rightarrow> files \<Rightarrow> int \<times> files" where
  "procutil_write_port_file env runtime_dir name port fs =
     (case port_file_path runtime_dir name of
        None \<Rightarrow> (-1, fs)
      | Some path \<Rightarrow> replace_file env path (int_text (uint port)) fs)"

definition procutil_clear_port_file :: "bytes \<Rightarrow> bytes \<Rightarrow> files \<Rightarrow> files" where
  "procutil_clear_port_file runtime_dir name fs =
     (case port_file_path runtime_dir name of None \<Rightarrow> fs | Some path \<Rightarrow> fs(path := None))"

text \<open>The polling loop; \<open>seen k\<close> is what the attempt number \<open>k\<close> finds at the path.\<close>

function read_port_loop :: "(nat \<Rightarrow> bytes option) \<Rightarrow> int \<Rightarrow> int \<Rightarrow> nat \<Rightarrow> u16 option" where
  "read_port_loop seen timeout_ms waited k =
     (case Option.bind (seen k) scan_unsigned of
        Some v \<Rightarrow> Some (ucast v)
      | None \<Rightarrow> if waited \<ge> timeout_ms then None else read_port_loop seen timeout_ms (waited + 20) (k + 1))"
  by pat_completeness auto
termination by (relation "measure (\<lambda>(seen, timeout_ms, waited, k). nat (timeout_ms - waited))") auto

declare read_port_loop.simps [simp del]

definition procutil_read_port_file :: "bytes \<Rightarrow> bytes \<Rightarrow> int \<Rightarrow> (nat \<Rightarrow> files) \<Rightarrow> u16 option" where
  "procutil_read_port_file runtime_dir name timeout_ms fss =
     (case port_file_path runtime_dir name of
        None \<Rightarrow> None
      | Some path \<Rightarrow> read_port_loop (\<lambda>k. fss k path) timeout_ms 0 0)"

definition procutil_write_pid_file :: "file_env \<Rightarrow> bytes \<Rightarrow> bytes \<Rightarrow> i64 \<Rightarrow> files \<Rightarrow> int \<times> files" where
  "procutil_write_pid_file env runtime_dir name pid fs =
     (case file_path runtime_dir name ''.pid'' of
        None \<Rightarrow> (-1, fs)
      | Some path \<Rightarrow> replace_file env path (int_text (sint pid)) fs)"

definition token_path :: "bytes \<Rightarrow> bytes" where
  "token_path runtime_dir = snd (snprintf 1024 (runtime_dir @ SLASH # ascii ''run.token''))"

definition procutil_write_token_file :: "file_env \<Rightarrow> bytes \<Rightarrow> bytes \<Rightarrow> files \<Rightarrow> int \<times> files" where
  "procutil_write_token_file env runtime_dir token fs =
     (let hex = the (procutil_hex_encode token (replicate 65 0))
      in replace_file env (token_path runtime_dir) (takeWhile (\<lambda>c. c \<noteq> 0) hex) fs)"

definition procutil_read_token_file :: "bytes \<Rightarrow> files \<Rightarrow> bytes option" where
  "procutil_read_token_file runtime_dir fs =
     (case fs (token_path runtime_dir) of
        None \<Rightarrow> None
      | Some content \<Rightarrow>
          (let hex = take 64 content in
           if length hex \<noteq> 64 then None else procutil_hex_decode hex 32))"

section \<open>Executables\<close>

text \<open>
  The directory of the running executable: \<open>self\<close> is what \<^verbatim>\<open>readlink("/proc/self/exe")\<close> gives, at most 1023
  bytes.
\<close>

definition procutil_own_exe_dir :: "bytes option \<Rightarrow> bytes option \<Rightarrow> nat \<Rightarrow> bytes option" where
  "procutil_own_exe_dir self argv0 out_cap =
     (let fits = (\<lambda>dir. case dir of Some d \<Rightarrow> if length d < out_cap then Some d else None | None \<Rightarrow> None) in
      case fits (Option.bind (map_option (take 1023) self) (before_last (\<lambda>c. c = SLASH))) of
        Some d \<Rightarrow> Some d
      | None \<Rightarrow>
          (case fits (Option.bind argv0 (before_last is_slash)) of
             Some d \<Rightarrow> Some d
           | None \<Rightarrow> if out_cap > 1 then Some [DOT] else None))"

primrec search_dirs :: "(bytes \<Rightarrow> bool) \<Rightarrow> bytes \<Rightarrow> nat \<Rightarrow> bytes list \<Rightarrow> bytes option" where
  "search_dirs file_exists name out_cap [] = None"
| "search_dirs file_exists name out_cap (tok # toks) =
     (let candidate = snd (snprintf 1024 (tok @ SLASH # name)) in
      if file_exists candidate then Some (strncpy_str out_cap candidate)
      else search_dirs file_exists name out_cap toks)"

definition procutil_find_on_path :: "(bytes \<Rightarrow> bool) \<Rightarrow> bytes option \<Rightarrow> bytes \<Rightarrow> nat \<Rightarrow> bytes option" where
  "procutil_find_on_path file_exists path_env name out_cap =
     (case path_env of
        None \<Rightarrow> None
      | Some path \<Rightarrow> search_dirs file_exists name out_cap (strtok COLON (strncpy_str 8192 path)))"

section \<open>The handshake\<close>

definition hello :: "bytes \<Rightarrow> u32 \<Rightarrow> obicall_msg_auth_hello" where
  "hello token role = \<lparr>ah_protocol_version = 1, ah_role = role, ah_run_token = token\<rparr>"

text \<open>\<open>connected\<close> is the outcome of the connection attempt; the value has the bytes the client wrote.\<close>

definition procutil_client_connect :: "bool \<Rightarrow> bytes \<Rightarrow> u32 \<Rightarrow> poll list \<Rightarrow> (int \<times> poll list \<times> bytes) option" where
  "procutil_client_connect connected token role ps =
     (if \<not> connected then Some (-1, ps, [])
      else
        (case obicall_wire_encode_auth_hello (Some (hello token role)) (Some (replicate 64 0)) 64 (Some 0) of
           Inl _ \<Rightarrow> Some (-1, ps, [])
         | Inr (buf, len) \<Rightarrow>
             (case osal_send_frame OBICALL_MSG_AUTH_HELLO buf len ps [] of
                None \<Rightarrow> None
              | Some (rc, ps, wire) \<Rightarrow> Some (if rc \<noteq> 0 then -1 else 0, ps, wire))))"

definition procutil_server_verify_hello :: "bytes \<Rightarrow> poll list \<Rightarrow> bytes \<Rightarrow> (int \<times> u32 \<times> poll list \<times> bytes) option" where
  "procutil_server_verify_hello token ps stream =
     (case osal_recv_frame 256 ps stream of
        None \<Rightarrow> None
      | Some (rc, f, ps, stream) \<Rightarrow>
          (let refused = Some (-1, 0, ps, stream) in
           if rc \<noteq> 0 then refused
           else
             (case the f of (msg_type, payload) \<Rightarrow>
                if msg_type \<noteq> OBICALL_MSG_AUTH_HELLO then refused
                else
                  (case obicall_wire_decode_auth_hello (Some payload) (of_nat (length payload)) (Some (hello [] 0)) of
                     Inl _ \<Rightarrow> refused
                   | Inr h \<Rightarrow>
                       if ah_protocol_version h \<noteq> 1 then refused
                       else if ah_run_token h \<noteq> token then refused
                       else Some (0, ah_role h, ps, stream)))))"

section \<open>Laws\<close>

text \<open>Looking up an option walks over adjacent arguments; options and flags are laid out as the supervisor does.\<close>

fun scan_args :: "bytes list \<Rightarrow> bytes \<Rightarrow> bytes option" where
  "scan_args (a # b # rest) name = (if a = name then Some b else scan_args (b # rest) name)"
| "scan_args _ name = None"

lemma find_map: "List.find P (map f xs) = map_option f (List.find (P \<circ> f) xs)"
  by (induction xs) auto

lemma find_arg_scan: "find_arg (exe # args) name = scan_args args name"
proof -
  have "map_option (\<lambda>i. args ! (i + 1)) (List.find (\<lambda>i. args ! i = name) [0..<length args - 1]) = scan_args args name"
  proof (induction args name rule: scan_args.induct)
    case (1 a b rest name)
    have "[0..<Suc m] = 0 # map Suc [0..<m]" for m by (simp add: map_Suc_upt upt_conv_Cons del: upt_Suc)
    from this [of "length rest"]
    have "[0..<length (a # b # rest) - 1] = 0 # map Suc [0..<length (b # rest) - 1]" by simp
    then show ?case using 1 by (simp add: find_map o_def option.map_comp)
  qed simp_all
  moreover have "[1..<length (exe # args) - 1] = map Suc [0..<length args - 1]"
    by (cases args) (simp_all add: map_Suc_upt)
  ultimately show ?thesis by (simp add: find_arg_def find_map o_def option.map_comp)
qed

definition option_args :: "(string \<times> bytes) list \<Rightarrow> bytes list" where
  "option_args opts = concat (map (\<lambda>(n, v). [ascii n, v]) opts)"

lemma ascii_inject: "ascii s = ascii t \<longleftrightarrow> s = t"
proof -
  have "inj (of_char :: char \<Rightarrow> u8)"
  proof (rule injI)
    fix c d :: char assume "of_char c = (of_char d :: u8)"
    then have "unat (of_char c :: u8) = unat (of_char d :: u8)" by simp
    moreover have "unat (of_char c :: u8) = of_char c" for c
    proof -
      have "(of_char c :: nat) mod 256 < 256" by simp
      then have "(of_char c :: nat) < 256" by (simp only: of_char_mod_256)
      then have "unat (of_nat (of_char c) :: u8) = of_char c" by (simp add: unat_of_nat del: of_nat_of_char)
      then show ?thesis by (simp only: of_nat_of_char)
    qed
    ultimately have "(of_char c :: nat) = of_char d" by simp
    then show "c = d" by (simp add: of_char_eq_iff)
  qed
  then show ?thesis by (simp add: ascii_def inj_map_eq_map)
qed

lemma scan_option_args:
  assumes "\<forall>(n, v) \<in> set opts. v \<noteq> ascii name" and "ascii name \<notin> set flags"
  shows "scan_args (option_args opts @ flags) (ascii name) = map_of opts name"
  using assms(1)
proof (induction opts)
  case Nil
  have "scan_args xs x = None" if "x \<notin> set xs" for xs and x :: bytes
    using that by (induction xs x rule: scan_args.induct) auto
  then show ?case using assms(2) by (simp add: option_args_def)
next
  case (Cons nv opts)
  obtain n v where nv: "nv = (n, v)" by (cases nv)
  have step: "scan_args (v # rest) (ascii name) = scan_args rest (ascii name)" for rest
    using Cons.prems nv by (cases rest) auto
  have "option_args (nv # opts) @ flags = ascii n # v # option_args opts @ flags" by (simp add: option_args_def nv)
  then show ?case using Cons step by (auto simp: nv ascii_inject)
qed

lemma find_option:
  assumes "\<forall>(n, v) \<in> set opts. v \<noteq> ascii name" and "ascii name \<notin> set flags"
  shows "find_arg (exe # option_args opts @ flags) (ascii name) = map_of opts name"
  unfolding find_arg_scan using assms by (rule scan_option_args)

section \<open>Properties\<close>

lemma replace_file_laws:
  assumes "replace_file env path content fs = (0, fs')" and "length content \<le> fe_room env" and "length path < 1024"
  shows "fs' path = Some content"
proof -
  have "snd (snprintf 1040 (path @ ascii ''.tmp'')) = path @ ascii ''.tmp''"
    using assms(3) by (simp add: snprintf_def ascii_def)
  moreover have "path @ ascii ''.tmp'' \<noteq> path" by (simp add: ascii_def)
  ultimately show ?thesis
    using assms(1,2) by (auto simp: replace_file_def osal_file_atomic_replace_def Let_def split: if_splits)
qed

lemma read_port_loop_finds:
  assumes "\<forall>j < n. seen (k + j) = None" and "seen (k + n) = Some (int_text (uint port))"
    and "waited + 20 * (int n - 1) < timeout_ms"
  shows "read_port_loop seen timeout_ms waited k = Some port"
  using assms
proof (induction n arbitrary: k waited)
  case 0
  have "uint port < 2 ^ 16" using unsigned_less [of port, where ?'a = int] by simp
  then have "scan_unsigned (int_text (uint port)) = Some (word_of_int (uint port))"
    by (intro scan_unsigned_digits) simp_all
  then have "Option.bind (seen k) scan_unsigned = Some (word_of_int (uint port))" using 0 by simp
  moreover have "ucast (word_of_int (uint port) :: u32) = port"
    by (simp add: unsigned_ucast_eq word_of_int_uint take_bit_word_eq_self)
  ultimately show ?case by (simp add: read_port_loop.simps [of seen timeout_ms waited k])
next
  case (Suc n)
  have "seen k = None" using Suc.prems(1) by force
  moreover have "\<not> timeout_ms \<le> waited" using Suc.prems(3) by simp
  moreover have "read_port_loop seen timeout_ms (waited + 20) (k + 1) = Some port"
  proof (rule Suc.IH)
    show "\<forall>j < n. seen (k + 1 + j) = None" using Suc.prems(1) by force
  qed (use Suc.prems in simp_all)
  ultimately show ?case by (simp add: read_port_loop.simps [of seen timeout_ms waited k])
qed

text \<open>
  C0: a child's port reaches the supervisor. When writing the port file returned 0 and the text fitted on the
  device, a reader that finds no file at its first \<open>n\<close> attempts and this file at the next one gets exactly
  this port, if its timeout allows for these attempts.
\<close>

theorem port_file_round_trip:
  assumes "procutil_write_port_file env runtime_dir name port fs = (0, fs')" and "fe_room env \<ge> 5"
    and "port_file_path runtime_dir name = Some path"
    and "\<forall>j < n. fss j path = None" and "fss n = fs'" and "20 * (int n - 1) < timeout_ms"
  shows "procutil_read_port_file runtime_dir name timeout_ms fss = Some port"
proof -
  have "length path < 1024"
    using assms(3) by (auto simp: port_file_path_def file_path_def snprintf_def split: if_splits)
  have "uint port < 65536" using unsigned_less [of port, where ?'a = int] by simp
  then have "length (digits (uint port)) \<le> 5"
    by (auto simp: digits.simps [of "uint port"] digits.simps [of "uint port div 10"] digits.simps [of "uint port div 10 div 10"]
      digits.simps [of "uint port div 10 div 10 div 10"] digits.simps [of "uint port div 10 div 10 div 10 div 10"])
  then have "length (int_text (uint port)) \<le> fe_room env" using assms(2) by (simp add: int_text_def)
  then have "fs' path = Some (int_text (uint port))"
    using assms(1,3) replace_file_laws [OF _ _ \<open>length path < 1024\<close>] by (simp add: procutil_write_port_file_def)
  then show ?thesis
    using assms(3,4,5,6) read_port_loop_finds [of n "\<lambda>k. fss k path" 0 port 0 timeout_ms]
    by (simp add: procutil_read_port_file_def)
qed

definition example_dir :: bytes where
  "example_dir = ascii ''/r''"

definition good_env :: file_env where
  "good_env = \<lparr>fe_open_ok = True, fe_room = 100, fe_rename_ok = True\<rparr>"

theorem port_file_round_trip_witness:
  "\<exists>fs'. procutil_write_port_file good_env example_dir (ascii ''gate'') 40123 (\<lambda>_. None) = (0, fs') \<and>
     procutil_read_port_file example_dir (ascii ''gate'') 5000 (\<lambda>k. if k = 2 then fs' else (\<lambda>_. None)) = Some 40123"
proof -
  have path: "port_file_path example_dir (ascii ''gate'') = Some (ascii ''/r/gate.port'')"
    by (simp add: port_file_path_def file_path_def snprintf_def example_dir_def ascii_def)
  obtain fs' where w: "procutil_write_port_file good_env example_dir (ascii ''gate'') 40123 (\<lambda>_. None) = (0, fs')"
    by (simp add: procutil_write_port_file_def path replace_file_def good_env_def osal_file_atomic_replace_def Let_def)
  have "procutil_read_port_file example_dir (ascii ''gate'') 5000 (\<lambda>k. if k = 2 then fs' else (\<lambda>_. None)) = Some 40123"
    by (rule port_file_round_trip [OF w _ path, of 2]) (simp_all add: good_env_def)
  then show ?thesis using w by blast
qed

lemma token_text:
  assumes "length token = 32"
  shows "takeWhile (\<lambda>c. c \<noteq> 0) (the (procutil_hex_encode token (replicate 65 0))) = concat (map hex_pair token)"
proof -
  have "hexchar n \<noteq> 0" if "n < 16" for n
    using hex_val_hexchar [OF that] by (auto simp: hex_val_def)
  then have "\<forall>c \<in> set (concat (map hex_pair token)). c \<noteq> 0" using nibble_less by (auto simp: hex_pair_def)
  moreover have "takeWhile (\<lambda>c. c \<noteq> 0) (xs @ 0 # rest) = xs" if "\<forall>c \<in> set xs. c \<noteq> 0" for xs rest :: bytes
    using that by (induction xs) auto
  ultimately have "takeWhile (\<lambda>c. c \<noteq> 0) (concat (map hex_pair token) @ 0 # rest) = concat (map hex_pair token)" for rest
    by blast
  then show ?thesis using assms by (simp add: procutil_hex_encode_def memcpy_zero)
qed

text \<open>
  a later command can authenticate to a running instance. When writing the token file returned 0 and the
  text fitted on the device, reading it gives the token back; and whatever the file holds, a token is only
  read from 64 hexadecimal digits.
\<close>

theorem token_file_round_trip:
  assumes "length token = 32" and "procutil_write_token_file env runtime_dir token fs = (0, fs')" and "fe_room env \<ge> 64"
  shows "procutil_read_token_file runtime_dir fs' = Some token \<and>
    (procutil_read_token_file dir any = Some t \<longrightarrow> length t = 32 \<and>
       (\<exists>content. any (token_path dir) = Some content \<and> length content \<ge> 64 \<and> hex_bytes (take 64 content) = Some t))"
proof -
  have "length (token_path runtime_dir) < 1024" by (simp add: token_path_def snprintf_def)
  then have "fs' (token_path runtime_dir) = Some (concat (map hex_pair token))"
    using assms token_text [OF assms(1)] replace_file_laws by (simp add: procutil_write_token_file_def Let_def)
  then have "procutil_read_token_file runtime_dir fs' = Some token"
    using assms(1) by (simp add: procutil_read_token_file_def procutil_hex_decode_def hex_bytes_encode)
  moreover have "length t = 32 \<and>
      (\<exists>content. any (token_path dir) = Some content \<and> length content \<ge> 64 \<and> hex_bytes (take 64 content) = Some t)"
    if "procutil_read_token_file dir any = Some t"
    using that hex_bytes_length
    by (fastforce simp: procutil_read_token_file_def procutil_hex_decode_def Let_def split: option.splits if_splits)
  ultimately show ?thesis by blast
qed

theorem token_file_round_trip_witness:
  "\<exists>fs'. procutil_write_token_file good_env example_dir (replicate 32 7) (\<lambda>_. None) = (0, fs') \<and>
     procutil_read_token_file example_dir fs' = Some (replicate 32 7)"
proof -
  obtain fs' where w: "procutil_write_token_file good_env example_dir (replicate 32 7) (\<lambda>_. None) = (0, fs')"
    by (simp add: procutil_write_token_file_def replace_file_def good_env_def osal_file_atomic_replace_def Let_def)
  then show ?thesis
    using token_file_round_trip [OF _ w, of example_dir fs' "[]"] by (auto simp: good_env_def)
qed

lemma hello_accepted_only_with_token:
  assumes "procutil_server_verify_hello token ps stream = Some (0, role, ps', rest)" and "length token = 32"
  shows "\<exists>h p. stream = header_layout h @ p @ rest \<and> wh_msg_type h = OBICALL_MSG_AUTH_HELLO \<and>
    length p = unat (wh_payload_len h) \<and> prefix (auth_hello_layout (hello token role)) p"
proof -
  obtain rc f ps1 s1 where r: "osal_recv_frame 256 ps stream = Some (rc, f, ps1, s1)"
    using assms(1) by (auto simp: procutil_server_verify_hello_def split: option.splits)
  have "rc = 0" using assms(1) r by (auto simp: procutil_server_verify_hello_def Let_def split: if_splits)
  then obtain h p where h: "f = Some (wh_msg_type h, p)" "stream = header_layout h @ p @ s1"
    "length p = unat (wh_payload_len h)" "wh_payload_len h \<le> 256"
    using recv_frame_sound [OF r] by auto
  have p: "of_nat (length p) = wh_payload_len h" using h(3) by simp
  obtain m where m: "obicall_wire_decode_auth_hello (Some p) (wh_payload_len h) (Some (hello [] 0)) = Inr m"
    "wh_msg_type h = OBICALL_MSG_AUTH_HELLO" "m = hello token role" "rest = s1"
    using assms(1) r \<open>rc = 0\<close> h(1) p
    by (auto simp: procutil_server_verify_hello_def hello_def Let_def split: if_splits sum.splits)
  have "\<exists>m0. wf_auth_hello m0 \<and> m = m0 \<and> prefix (auth_hello_layout m0) (take (unat (wh_payload_len h)) p)"
    using m(1) h(3) by (intro auth_hello.decode_iff [THEN iffD1]) simp_all
  then show ?thesis using h m by auto
qed

lemma hello_encoded:
  assumes "length token = 32"
  shows "\<exists>buf. obicall_wire_encode_auth_hello (Some (hello token role)) (Some (replicate 64 0)) 64 (Some 0) = Inr (buf, 40) \<and>
    osal_send_frame OBICALL_MSG_AUTH_HELLO buf 40 ps [] =
      osal_send_frame OBICALL_MSG_AUTH_HELLO (auth_hello_layout (hello token role))
        (of_nat (length (auth_hello_layout (hello token role)))) ps []"
proof -
  have wf: "wf_auth_hello (hello token role)" using assms by (simp add: wf_auth_hello_def hello_def)
  note len = length_auth_hello_layout [OF wf]
  let ?buf = "memcpy (replicate 64 0) 0 (auth_hello_layout (hello token role))"
  have "take (unat (40 :: u32)) ?buf = auth_hello_layout (hello token role)" using len by (simp add: memcpy_zero)
  then show ?thesis
    using auth_hello.encode_run [OF wf, of 64 "replicate 64 0" 0] len
      send_frame_take [of OBICALL_MSG_AUTH_HELLO 40 ?buf ps "[]"] by simp
qed

lemma hello_layout_length: "length token = 32 \<Longrightarrow> length (auth_hello_layout (hello token role)) = 40"
  by (intro length_auth_hello_layout) (simp add: wf_auth_hello_def hello_def)

lemma hello_frame_sent:
  assumes "length token = 32" and "procutil_client_connect True token role ps = Some (0, ps', wire)"
  shows "wire = frame_layout (OBICALL_MSG_AUTH_HELLO, auth_hello_layout (hello token role))"
proof -
  let ?p = "auth_hello_layout (hello token role)"
  have "osal_send_frame OBICALL_MSG_AUTH_HELLO ?p (of_nat (length ?p)) ps [] = Some (0, ps', wire)"
    using assms(2) hello_encoded [OF assms(1), of role ps]
    by (auto simp: procutil_client_connect_def split: option.splits if_splits)
  from send_frame_writes [OF this] show ?thesis using hello_layout_length [OF assms(1)] by auto
qed

lemma hello_sent:
  assumes "length token = 32" and "list_all ready ps" and "56 \<le> length ps"
  shows "\<exists>ps' wire. procutil_client_connect True token role ps = Some (0, ps', wire) \<and> length wire = 56"
  using send_frame_live [of ps OBICALL_MSG_AUTH_HELLO "auth_hello_layout (hello token role)" "[]"]
    hello_encoded [OF assms(1), of role ps] assms hello_layout_length [OF assms(1), of role]
  by (auto simp: procutil_client_connect_def frame_layout_def sendable_def)

text \<open>
  the handshake authenticates. A server accepts a connection only when its stream begins with a well-formed
  hello frame that carries the server's own token; and when a client has sent its hello, a server whose socket
  is ready accepts it, with the client's role and nothing left unread, if they have the same token, and
  refuses it if not.
\<close>

theorem handshake_authenticates:
  assumes "length token = 32" and "length token' = 32"
    and "procutil_client_connect True token role ps = Some (0, ps', wire)"
    and "list_all ready qs" and "length wire \<le> length qs"
  shows "(\<exists>qs'. procutil_server_verify_hello token' qs wire =
      Some (if token = token' then (0, role, qs', []) else (-1, 0, qs', []))) \<and>
    (procutil_server_verify_hello token' any stream = Some (0, r, any', rest) \<longrightarrow>
      (\<exists>h p. stream = header_layout h @ p @ rest \<and> wh_msg_type h = OBICALL_MSG_AUTH_HELLO \<and>
         length p = unat (wh_payload_len h) \<and> prefix (auth_hello_layout (hello token' r)) p))"
proof -
  let ?p = "auth_hello_layout (hello token role)"
  have wf: "wf_auth_hello (hello token role)" using assms(1) by (simp add: wf_auth_hello_def hello_def)
  note len = length_auth_hello_layout [OF wf]
  have wire: "wire = frame_layout (OBICALL_MSG_AUTH_HELLO, ?p)" using assms(1,3) by (rule hello_frame_sent)
  obtain qs' where "osal_recv_frame 256 qs wire = Some (0, Some (OBICALL_MSG_AUTH_HELLO, ?p), qs', [])"
    using recv_frame_live [of OBICALL_MSG_AUTH_HELLO ?p 256 qs "[]"] assms(4,5) len wire by (auto simp: sendable_def)
  moreover have "obicall_wire_decode_auth_hello (Some ?p) 40 (Some (hello [] 0)) = Inr (hello token role)"
    using auth_hello.decode_prefix [OF wf, of 40 ?p] len by simp
  ultimately have "procutil_server_verify_hello token' qs wire =
      Some (if token = token' then (0, role, qs', []) else (-1, 0, qs', []))"
    using len by (simp add: procutil_server_verify_hello_def) (simp add: hello_def)
  then show ?thesis using hello_accepted_only_with_token [OF _ assms(2)] by blast
qed

theorem handshake_authenticates_witness:
  "\<exists>ps' wire qs'. procutil_client_connect True (replicate 32 7) 2 (replicate 56 (Ready 9)) = Some (0, ps', wire) \<and>
     procutil_server_verify_hello (replicate 32 7) (replicate 60 (Ready 9)) wire = Some (0, 2, qs', [])"
proof -
  obtain ps' wire where c: "procutil_client_connect True (replicate 32 7) 2 (replicate 56 (Ready 9)) = Some (0, ps', wire)"
    "length wire = 56" using hello_sent [of "replicate 32 7" "replicate 56 (Ready 9)" 2] by (auto simp: ready_def)
  have "list_all ready (replicate 60 (Ready 9))" by (simp add: ready_def)
  then show ?thesis
    using handshake_authenticates [OF _ _ c(1), of "replicate 32 7" "replicate 60 (Ready 9)"] c by auto
qed

end
