(* ===== verification/Process.thy ===== *)
theory Process
  imports Obicall_Types
begin

text \<open>
  \<^verbatim>\<open>src/osal/osal_process.c\<close> on POSIX systems, over the kernel's table of the process's own children. A child
  that has ended stays in the table as a zombie until it is waited for; its number may be used again
  afterwards, so a signal sent to it then would reach a stranger. The log records every signal with whether
  its target was still in the table.
\<close>

section \<open>The kernel\<close>

datatype wait_status = Exited u8 | Signaled nat

datatype child_state = Running | Zombie wait_status

type_synonym kernel = "nat \<Rightarrow> child_state option"

datatype signal_kind = SIGTERM | SIGKILL

record world =
  wo_kernel :: kernel
  wo_signals :: "(signal_kind \<times> nat \<times> bool) list"

text \<open>\<^verbatim>\<open>waitpid(pid, &status, WNOHANG)\<close> and \<^verbatim>\<open>kill(pid, sig)\<close>.\<close>

definition waitpid_nohang :: "nat \<Rightarrow> world \<Rightarrow> wait_status option \<times> world" where
  "waitpid_nohang pid w =
     (case wo_kernel w pid of
        Some (Zombie st) \<Rightarrow> (Some st, w\<lparr>wo_kernel := (wo_kernel w)(pid := None)\<rparr>)
      | _ \<Rightarrow> (None, w))"

definition send_signal :: "signal_kind \<Rightarrow> nat \<Rightarrow> world \<Rightarrow> world" where
  "send_signal sig pid w = w\<lparr>wo_signals := wo_signals w @ [(sig, pid, wo_kernel w pid \<noteq> None)]\<rparr>"

text \<open>
  What happens to children while the process does something else: they may end, for themselves or by a
  signal, and nothing else happens to the table.
\<close>

type_synonym move = "kernel \<Rightarrow> kernel"

definition moved :: "move \<Rightarrow> world \<Rightarrow> world" where
  "moved mv w = w\<lparr>wo_kernel := mv (wo_kernel w)\<rparr>"

definition lawful :: "move \<Rightarrow> bool" where
  "lawful mv \<longleftrightarrow> (\<forall>k pid. mv k pid = k pid \<or> k pid = Some Running \<and> (\<exists>st. mv k pid = Some (Zombie st)))"

section \<open>Processes\<close>

record osal_process =
  op_pid :: nat
  op_reaped :: bool
  op_exit_code :: int

text \<open>
  A \<open>fork\<close> is the kernel's choice of the number of the new child, if \<^verbatim>\<open>fork\<close> and \<^verbatim>\<open>malloc\<close> succeed; it never is
  a number in the table. A failed \<^verbatim>\<open>execve\<close> ends the child.
\<close>

type_synonym fork = "kernel \<Rightarrow> nat option"

definition lawful_fork :: "fork \<Rightarrow> bool" where
  "lawful_fork forked \<longleftrightarrow> (\<forall>k pid. forked k = Some pid \<longrightarrow> k pid = None)"

definition osal_process_spawn :: "fork \<Rightarrow> world \<Rightarrow> osal_process option \<times> world" where
  "osal_process_spawn forked w =
     (case forked (wo_kernel w) of
        None \<Rightarrow> (None, w)
      | Some pid \<Rightarrow> (Some \<lparr>op_pid = pid, op_reaped = False, op_exit_code = -1\<rparr>,
          w\<lparr>wo_kernel := (wo_kernel w)(pid \<mapsto> Running)\<rparr>))"

definition exit_code_of :: "wait_status \<Rightarrow> int" where
  "exit_code_of st = (case st of Exited code \<Rightarrow> uint code | Signaled sig \<Rightarrow> 256 + int sig)"

definition reap_nonblocking :: "osal_process \<Rightarrow> world \<Rightarrow> bool \<times> osal_process \<times> world" where
  "reap_nonblocking proc w =
     (if op_reaped proc then (True, proc, w)
      else
        (case waitpid_nohang (op_pid proc) w of
           (Some st, w) \<Rightarrow> (True, proc\<lparr>op_reaped := True, op_exit_code := exit_code_of st\<rparr>, w)
         | (None, w) \<Rightarrow> (False, proc, w)))"

definition osal_process_is_alive :: "osal_process \<Rightarrow> world \<Rightarrow> bool \<times> osal_process \<times> world" where
  "osal_process_is_alive proc w = apfst Not (reap_nonblocking proc w)"

text \<open>
  The polling loop of \<^verbatim>\<open>osal_process_wait\<close> with a timeout that is not negative, in steps of 10 ms; \<open>mvs k\<close> is
  what happens during the sleep number \<open>k\<close>. The value is the exit code when the child was reaped.
\<close>

function wait_loop :: "(nat \<Rightarrow> move) \<Rightarrow> int \<Rightarrow> int \<Rightarrow> nat \<Rightarrow> osal_process \<Rightarrow> world \<Rightarrow> int option \<times> osal_process \<times> world" where
  "wait_loop mvs timeout_ms waited_ms k proc w =
     (if waited_ms > timeout_ms then (None, proc, w)
      else
        (case reap_nonblocking proc w of
           (True, proc, w) \<Rightarrow> (Some (op_exit_code proc), proc, w)
         | (False, proc, w) \<Rightarrow> wait_loop mvs timeout_ms (waited_ms + 10) (k + 1) proc (moved (mvs k) w)))"
  by pat_completeness auto
termination by (relation "measure (\<lambda>(mvs, timeout_ms, waited_ms, k, proc, w). nat (timeout_ms + 10 - waited_ms))") auto

declare wait_loop.simps [simp del]

definition osal_process_wait :: "(nat \<Rightarrow> move) \<Rightarrow> int \<Rightarrow> osal_process \<Rightarrow> world \<Rightarrow> int option \<times> osal_process \<times> world" where
  "osal_process_wait mvs timeout_ms proc w = wait_loop mvs timeout_ms 0 0 proc w"

definition osal_process_terminate :: "osal_process \<Rightarrow> world \<Rightarrow> world" where
  "osal_process_terminate proc w = send_signal SIGTERM (op_pid proc) w"

definition osal_process_kill :: "osal_process \<Rightarrow> world \<Rightarrow> world" where
  "osal_process_kill proc w = send_signal SIGKILL (op_pid proc) w"

definition osal_process_close :: "osal_process option \<Rightarrow> world \<Rightarrow> world" where
  "osal_process_close proc w =
     (case proc of
        None \<Rightarrow> w
      | Some p \<Rightarrow> if op_reaped p then w else snd (waitpid_nohang (op_pid p) w))"

section \<open>Laws\<close>

text \<open>
  A handle is sound when its child is still in the table, or has been reaped through it. \<open>only pid w w'\<close>:
  between the two worlds children may have ended, and at most the child \<open>pid\<close> has been reaped.
\<close>

definition only :: "nat \<Rightarrow> world \<Rightarrow> world \<Rightarrow> bool" where
  "only pid w w' \<longleftrightarrow> (\<forall>p. p \<noteq> pid \<longrightarrow> (wo_kernel w' p = None \<longleftrightarrow> wo_kernel w p = None)) \<and>
     (wo_kernel w pid = None \<longrightarrow> wo_kernel w' pid = None)"

definition sound_handle :: "osal_process \<Rightarrow> world \<Rightarrow> bool" where
  "sound_handle proc w \<longleftrightarrow> op_reaped proc \<or> wo_kernel w (op_pid proc) \<noteq> None"

definition all_hit :: "world \<Rightarrow> bool" where
  "all_hit w \<longleftrightarrow> (\<forall>(sig, pid, there) \<in> set (wo_signals w). there)"

lemma only_refl [simp]: "only pid w w"
  by (simp add: only_def)

lemma only_trans: "only pid w w' \<Longrightarrow> only pid w' w'' \<Longrightarrow> only pid w w''"
  by (auto simp: only_def)

lemma lawful_None: "lawful mv \<Longrightarrow> mv k pid = None \<longleftrightarrow> k pid = None"
  unfolding lawful_def by (metis option.discI)

lemma moved_laws:
  assumes "lawful mv"
  shows "only pid w (moved mv w)" "sound_handle proc (moved mv w) = sound_handle proc w" "wo_signals (moved mv w) = wo_signals w"
  using lawful_None [OF assms] by (auto simp: only_def moved_def sound_handle_def)

lemma waitpid_laws:
  assumes "waitpid_nohang pid w = (st, w')"
  shows "only pid w w'" "wo_signals w' = wo_signals w" "st = None \<Longrightarrow> w' = w" "st \<noteq> None \<Longrightarrow> wo_kernel w' pid = None"
  using assms by (auto simp: waitpid_nohang_def only_def split: option.splits child_state.splits)

lemma reap_laws:
  assumes "reap_nonblocking proc w = (r, proc', w')"
  shows "only (op_pid proc) w w'" "wo_signals w' = wo_signals w" "op_pid proc' = op_pid proc" "op_reaped proc' = r"
    "sound_handle proc w \<Longrightarrow> sound_handle proc' w'"
  using assms waitpid_laws [of "op_pid proc" w]
  by (auto simp: reap_nonblocking_def sound_handle_def split: prod.splits option.splits if_splits)

definition wait_law :: "osal_process \<Rightarrow> world \<Rightarrow> int option \<times> osal_process \<times> world \<Rightarrow> bool" where
  "wait_law proc w res \<longleftrightarrow> (case res of (r, proc', w') \<Rightarrow>
     only (op_pid proc) w w' \<and> wo_signals w' = wo_signals w \<and> op_pid proc' = op_pid proc \<and>
     (sound_handle proc w \<longrightarrow> sound_handle proc' w') \<and> (r \<noteq> None \<longrightarrow> op_reaped proc'))"

lemma wait_laws:
  assumes "\<And>k. lawful (mvs k)"
  shows "wait_law proc w (osal_process_wait mvs timeout_ms proc w)"
proof -
  have "wait_law proc w (wait_loop mvs timeout_ms waited k proc w)" for waited k
    using assms
  proof (induction mvs timeout_ms waited k proc w rule: wait_loop.induct)
    case (1 mvs timeout_ms waited k proc w)
    obtain b proc1 w1 where reap: "reap_nonblocking proc w = (b, proc1, w1)"
      by (cases "reap_nonblocking proc w")
    note laws = reap_laws [OF reap]
    have "wait_law proc1 (moved (mvs k) w1) (wait_loop mvs timeout_ms (waited + 10) (k + 1) proc1 (moved (mvs k) w1))"
      if "\<not> waited > timeout_ms" "\<not> b"
      using "1.IH" [OF that(1) reap [symmetric] _ refl] that(2) "1.prems" by simp
    moreover have "wait_law proc w res" if res: "wait_law proc1 (moved (mvs k) w1) res" for res
    proof -
      note moved = moved_laws [where mv = "mvs k" and w = w1, OF "1.prems"]
      have here: "only (op_pid proc) w (moved (mvs k) w1)"
        by (rule only_trans [OF laws(1) moved(1)])
      have "sound_handle proc w \<Longrightarrow> sound_handle proc1 (moved (mvs k) w1)"
        using laws(5) moved(2) by simp
      then show ?thesis
        using res only_trans [OF here] laws(2,3) moved(3) by (auto simp: wait_law_def)
    qed
    moreover have "wait_law proc w (Some (op_exit_code proc1), proc1, w1)" if b
      using laws that by (simp add: wait_law_def)
    ultimately show ?case
      by (subst wait_loop.simps) (simp add: reap wait_law_def [of proc w "(None, proc, w)"] split: bool.split)
  qed
  then show ?thesis by (simp add: osal_process_wait_def)
qed

lemma signal_laws:
  "only pid w (send_signal sig pid' w)" "sound_handle proc (send_signal sig pid' w) = sound_handle proc w"
  "all_hit (send_signal sig pid' w) \<longleftrightarrow> all_hit w \<and> wo_kernel w pid' \<noteq> None"
  by (auto simp: only_def sound_handle_def send_signal_def all_hit_def)

lemma close_laws:
  "only (op_pid p) w (osal_process_close (Some p) w)" "wo_signals (osal_process_close (Some p) w) = wo_signals w"
  using waitpid_laws [of "op_pid p" w] by (auto simp: osal_process_close_def split: if_splits) (metis prod.collapse)+

lemma spawn_laws:
  assumes "osal_process_spawn forked w = (proc, w')"
  shows "wo_signals w' = wo_signals w" "proc = None \<Longrightarrow> w' = w" "wo_kernel w pid \<noteq> None \<Longrightarrow> wo_kernel w' pid \<noteq> None"
    "proc = Some p \<Longrightarrow> wo_kernel w' (op_pid p) \<noteq> None \<and> \<not> op_reaped p \<and>
       (lawful_fork forked \<longrightarrow> wo_kernel w (op_pid p) = None)"
  using assms by (auto simp: osal_process_spawn_def lawful_fork_def split: option.splits)

end
