(* ===== verification/Supervisor.thy ===== *)
theory Supervisor
  imports Pipeline_Config Procutil Process
begin

text \<open>
  \<^verbatim>\<open>src/supervisor/supervisor.c\<close>: the supervisor's table of children, the start of the whole pipeline - the
  command line of every process, in the order the code spawns them - and the operations on the running
  children: the monitoring tick with its restarts, killing, suspending, resuming and stopping. The outcome of
  a spawn, the times read and the ends of children come from outside. \<open>None\<close> is a read past the end of a
  configuration array that is not terminated.
\<close>

section \<open>Data\<close>

abbreviation (input) SUPERVISOR_MAX_CHILDREN :: nat where "SUPERVISOR_MAX_CHILDREN \<equiv> 32"
abbreviation (input) SUPERVISOR_MAX_ARGV :: nat where "SUPERVISOR_MAX_ARGV \<equiv> 40"

record child_proc =
  ch_name :: bytes
  ch_exe_path :: bytes
  ch_argv :: "bytes list"
  ch_proc :: "osal_process option"
  ch_restart_count :: int
  ch_window_start_ns :: i64
  ch_is_worker :: bool
  ch_restart_suspended :: bool

record supervisor =
  sv_runtime_dir :: bytes
  sv_bin_dir :: bytes
  sv_run_token :: bytes
  sv_token_hex :: bytes
  sv_cfg :: pipeline_config
  sv_journal_port :: u16
  sv_gate_port :: u16
  sv_state_file :: bytes
  sv_children :: "child_proc list"
  sv_started_at_ns :: i64

text \<open>A spawn: the kernel's choice of a number, and the time read after it.\<close>

type_synonym spawn = "fork \<times> i64"

section \<open>Children\<close>

definition set_argv :: "bytes list \<Rightarrow> child_proc \<Rightarrow> child_proc" where
  "set_argv argv c = c\<lparr>ch_argv := take (SUPERVISOR_MAX_ARGV - 1) argv\<rparr>"

definition spawn_child :: "spawn \<Rightarrow> child_proc \<Rightarrow> world \<Rightarrow> bool \<times> child_proc \<times> world" where
  "spawn_child sp c w =
     (case osal_process_spawn (fst sp) w of
        (None, w) \<Rightarrow> (False, c, w)
      | (Some proc, w) \<Rightarrow> (True, c\<lparr>ch_proc := Some proc, ch_window_start_ns := snd sp\<rparr>, w))"

definition add_child :: "bytes \<Rightarrow> bytes \<Rightarrow> bytes list \<Rightarrow> bool \<Rightarrow> supervisor \<Rightarrow> supervisor option" where
  "add_child name exe_path argv is_worker sv =
     (if length (sv_children sv) \<ge> SUPERVISOR_MAX_CHILDREN then None
      else
        (let c = \<lparr>ch_name = strncpy_str 64 name, ch_exe_path = strncpy_str 512 exe_path, ch_argv = [],
               ch_proc = None, ch_restart_count = 0, ch_window_start_ns = 0, ch_is_worker = is_worker,
               ch_restart_suspended = False\<rparr>
         in Some (sv\<lparr>sv_children := sv_children sv @ [set_argv argv c]\<rparr>)))"

definition num_to_buf :: "nat \<Rightarrow> int \<Rightarrow> bytes" where
  "num_to_buf cap v = snd (snprintf cap (int_text v))"

definition f64_to_buf :: "nat \<Rightarrow> double \<Rightarrow> bytes" where
  "f64_to_buf cap v = snd (snprintf cap (g9_text v))"

definition file_exists_quick :: "files \<Rightarrow> bytes \<Rightarrow> bool" where
  "file_exists_quick fs path \<longleftrightarrow> fs path \<noteq> None"

definition provider_manifest_language :: "files \<Rightarrow> bytes \<Rightarrow> u32" where
  "provider_manifest_language fs manifest_path =
     (case fs manifest_path of
        None \<Rightarrow> 0
      | Some content \<Rightarrow>
          (case obicall_manifest_parse_json (Some (take 8192 content)) (Some zero_manifest)
              (Some (replicate 128 0)) 128 of
             (Inr m, _) \<Rightarrow> mf_language m
           | (Inl _, _) \<Rightarrow> 0))"

section \<open>Starting the pipeline\<close>

text \<open>What the start depends on beside its arguments and the files.\<close>

record start_env =
  se_token :: bytes
  se_token_file :: file_env
  se_spawn :: "nat \<Rightarrow> spawn"
  se_polled :: "string \<Rightarrow> nat \<Rightarrow> files"
  se_python :: "bytes option"
  se_path :: "bytes option"
  se_source_dir :: "bytes option"
  se_libdir :: bytes
  se_lib_name :: bytes
  se_end_time :: i64

record start_state =
  ss_sv :: supervisor
  ss_world :: world
  ss_files :: files

type_synonym stage = "start_state \<Rightarrow> (bool \<times> start_state) option"

primrec run_stages :: "stage list \<Rightarrow> stage" where
  "run_stages [] s = Some (True, s)"
| "run_stages (f # fs) s =
     (case f s of
        Some (True, s) \<Rightarrow> run_stages fs s
      | stopped \<Rightarrow> stopped)"

text \<open>The string in a character array, if there is one.\<close>

definition c_str :: "bytes \<Rightarrow> bytes option" where
  "c_str a = (if 0 \<in> set a then Some (cstring a) else None)"

definition resolve_python_exe :: "start_env \<Rightarrow> files \<Rightarrow> nat \<Rightarrow> bytes option" where
  "resolve_python_exe env fs cap =
     (case (case se_python env of Some p \<Rightarrow> if file_exists_quick fs p then Some p else None | None \<Rightarrow> None) of
        Some p \<Rightarrow> Some (strncpy_str cap p)
      | None \<Rightarrow>
          (case procutil_find_on_path (file_exists_quick fs) (se_path env) (ascii ''python3'') cap of
             Some p \<Rightarrow> Some p
           | None \<Rightarrow> procutil_find_on_path (file_exists_quick fs) (se_path env) (ascii ''python'') cap))"

text \<open>\<^verbatim>\<open>if (!c || spawn_child(sv, c) != 0) return -1;\<close> after \<^verbatim>\<open>add_child\<close>.\<close>

definition launch :: "start_env \<Rightarrow> bytes \<Rightarrow> bytes \<Rightarrow> bytes list \<Rightarrow> bool \<Rightarrow> start_state \<Rightarrow> bool \<times> start_state" where
  "launch env name exe_path argv is_worker s =
     (case add_child name exe_path argv is_worker (ss_sv s) of
        None \<Rightarrow> (False, s)
      | Some sv \<Rightarrow>
          (let i = length (sv_children sv) - 1 in
           case spawn_child (se_spawn env i) (sv_children sv ! i) (ss_world s) of
             (ok, c, w) \<Rightarrow>
               (ok, s\<lparr>ss_sv := sv\<lparr>sv_children := (sv_children sv)[i := c]\<rparr>, ss_world := w\<rparr>)))"

definition program :: "bytes \<Rightarrow> string \<Rightarrow> bytes" where
  "program bin_dir name = snd (snprintf 560 (bin_dir @ SLASH # ascii name))"

definition journal_options :: "bytes \<Rightarrow> bytes \<Rightarrow> supervisor \<Rightarrow> (string \<times> bytes) list" where
  "journal_options runtime_dir pipeline_id sv =
     [(''--runtime-dir'', runtime_dir),
      (''--token'', sv_token_hex sv),
      (''--pipeline-id'', pipeline_id),
      (''--segment-file'', snd (snprintf 600 (runtime_dir @ SLASH # ascii ''journal.segment''))),
      (''--reorder-window'', num_to_buf 32 (sint (pc_journal_reorder_window (sv_cfg sv)))),
      (''--max-lateness-ms'', num_to_buf 32 (sint (pc_journal_max_lateness_ms (sv_cfg sv)))),
      (''--max-pending'', num_to_buf 32 (uint (pc_journal_max_pending (sv_cfg sv))))]"

definition start_journal :: "start_env \<Rightarrow> bytes \<Rightarrow> bytes \<Rightarrow> stage" where
  "start_journal env runtime_dir bin_dir s = do {
     pipeline_id \<leftarrow> c_str (pc_pipeline_id (sv_cfg (ss_sv s)));
     let exe = program bin_dir ''obicall-journald'';
     let s = s\<lparr>ss_files := procutil_clear_port_file runtime_dir (ascii ''journal'') (ss_files s)\<rparr>;
     let (ok, s) = launch env (ascii ''journal'') exe
       (exe # option_args (journal_options runtime_dir pipeline_id (ss_sv s))) False s;
     Some (if \<not> ok then (False, s)
       else (case procutil_read_port_file runtime_dir (ascii ''journal'') 5000 (se_polled env ''journal'') of
               None \<Rightarrow> (False, s)
             | Some port \<Rightarrow> (True, s\<lparr>ss_sv := (ss_sv s)\<lparr>sv_journal_port := port\<rparr>\<rparr>)))
   }"

definition gate_options :: "bytes \<Rightarrow> bytes \<Rightarrow> supervisor \<Rightarrow> (string \<times> bytes) list" where
  "gate_options runtime_dir config_digest_hex sv =
     [(''--runtime-dir'', runtime_dir),
      (''--token'', sv_token_hex sv),
      (''--config-digest'', config_digest_hex),
      (''--state-file'', sv_state_file sv),
      (''--result-validity-ms'', num_to_buf 32 (sint (pc_gate_result_validity_ms (sv_cfg sv)))),
      (''--suspect-timeout-ms'', num_to_buf 32 (sint (pc_gate_suspect_timeout_ms (sv_cfg sv)))),
      (''--confirm-timeout-ms'', num_to_buf 32 (sint (pc_gate_confirm_timeout_ms (sv_cfg sv)))),
      (''--max-replay-gap'', num_to_buf 32 (sint (pc_gate_max_replay_gap (sv_cfg sv))))]"

definition start_gate :: "start_env \<Rightarrow> bytes \<Rightarrow> bytes \<Rightarrow> bytes \<Rightarrow> stage" where
  "start_gate env runtime_dir bin_dir config_digest_hex s =
     (let exe = program bin_dir ''obicall-gated'';
          s = s\<lparr>ss_files := procutil_clear_port_file runtime_dir (ascii ''gate'') (ss_files s)\<rparr>;
          (ok, s) = launch env (ascii ''gate'') exe
            (exe # option_args (gate_options runtime_dir config_digest_hex (ss_sv s))) False s
      in Some (if \<not> ok then (False, s)
           else (case procutil_read_port_file runtime_dir (ascii ''gate'') 5000 (se_polled env ''gate'') of
                   None \<Rightarrow> (False, s)
                 | Some port \<Rightarrow> (True, s\<lparr>ss_sv := (ss_sv s)\<lparr>sv_gate_port := port\<rparr>\<rparr>))))"

definition broker_options :: "bytes \<Rightarrow> bytes \<Rightarrow> bytes \<Rightarrow> bytes \<Rightarrow> bytes \<Rightarrow> supervisor \<Rightarrow> (string \<times> bytes) list" where
  "broker_options letter runtime_dir config_digest_hex pipeline_id sensor_ids sv =
     [(''--broker-id'', letter),
      (''--journal-port'', num_to_buf 16 (uint (sv_journal_port sv))),
      (''--gate-port'', num_to_buf 16 (uint (sv_gate_port sv))),
      (''--token'', sv_token_hex sv),
      (''--pipeline-id'', pipeline_id),
      (''--runtime-dir'', runtime_dir),
      (''--config-digest'', config_digest_hex),
      (''--sensor-ids'', sensor_ids),
      (''--process-noise-position'', f64_to_buf 32 (pc_est_process_noise_position (sv_cfg sv))),
      (''--process-noise-velocity'', f64_to_buf 32 (pc_est_process_noise_velocity (sv_cfg sv))),
      (''--initial-position-variance'', f64_to_buf 32 (pc_est_initial_position_variance (sv_cfg sv))),
      (''--initial-velocity-variance'', f64_to_buf 32 (pc_est_initial_velocity_variance (sv_cfg sv))),
      (''--max-prediction-gap-s'', f64_to_buf 32 (pc_est_max_prediction_gap_s (sv_cfg sv))),
      (''--dgt-hysteresis-margin'', f64_to_buf 32 (pc_dgt_hysteresis_margin (sv_cfg sv)))]"

definition broker_letter :: "nat \<Rightarrow> bytes" where
  "broker_letter bi = (if bi = 0 then ascii ''A'' else ascii ''B'')"

definition start_broker :: "start_env \<Rightarrow> bytes \<Rightarrow> bytes \<Rightarrow> bytes \<Rightarrow> nat \<Rightarrow> stage" where
  "start_broker env runtime_dir bin_dir config_digest_hex bi s = do {
     let cfg = sv_cfg (ss_sv s);
     let exe = program bin_dir ''obicall-brokerd'';
     pipeline_id \<leftarrow> c_str (pc_pipeline_id cfg);
     sensor_ids \<leftarrow> c_str (pc_sensor_ids_csv cfg);
     let opts = broker_options (broker_letter bi) runtime_dir config_digest_hex pipeline_id sensor_ids (ss_sv s);
     let flags = (if pc_dgt_enabled cfg then [ascii ''--dgt-enabled''] else []);
     Some (launch env (ascii ''broker_'' @ broker_letter bi) exe (exe # option_args opts @ flags) False s)
   }"

definition worker_options :: "bytes \<Rightarrow> bytes \<Rightarrow> bytes \<Rightarrow> bytes \<Rightarrow> supervisor \<Rightarrow> (string \<times> bytes) list" where
  "worker_options manifest_path runtime_dir worker_name seed_s sv =
     [(''--manifest'', manifest_path),
      (''--journal-port'', num_to_buf 16 (uint (sv_journal_port sv))),
      (''--token'', sv_token_hex sv),
      (''--runtime-dir'', runtime_dir),
      (''--worker-name'', worker_name),
      (''--instance-seed'', seed_s)]"

text \<open>The script of the Python worker and the core library it loads.\<close>

definition script_path :: "start_env \<Rightarrow> files \<Rightarrow> bytes \<Rightarrow> bytes" where
  "script_path env fs bin_dir =
     (let installed = snd (snprintf 900 (bin_dir @ ascii ''/../share/obicall/python/obicall/provider_worker.py'')) in
      case se_source_dir env of
        None \<Rightarrow> installed
      | Some dir \<Rightarrow>
          if file_exists_quick fs installed then installed
          else snd (snprintf 900 (dir @ ascii ''/python/obicall/provider_worker.py'')))"

definition core_lib_path :: "start_env \<Rightarrow> files \<Rightarrow> bytes \<Rightarrow> bytes" where
  "core_lib_path env fs bin_dir =
     (let beside = snd (snprintf 700 (bin_dir @ SLASH # se_lib_name env)) in
      if file_exists_quick fs beside then beside
      else snd (snprintf 700 (bin_dir @ SLASH # se_libdir env @ SLASH # se_lib_name env)))"

definition start_worker :: "start_env \<Rightarrow> bytes \<Rightarrow> bytes \<Rightarrow> nat \<Rightarrow> nat \<Rightarrow> stage" where
  "start_worker env runtime_dir bin_dir bi p s = do {
     let sv = ss_sv s;
     let pr = pc_providers (sv_cfg sv) ! p;
     let exe = program bin_dir ''obicall-workerd'';
     manifests_dir \<leftarrow> c_str (pc_manifests_dir (sv_cfg sv));
     manifest \<leftarrow> c_str (pr_manifest pr);
     let (mp_written, manifest_path) = snprintf 1200 (manifests_dir @ SLASH # manifest);
     if mp_written \<ge> 1200 then Some (False, s)
     else do {
       name \<leftarrow> c_str (pr_worker_name pr);
       let worker_name = snd (snprintf 96 (name @ 0x5F # broker_letter bi));
       let seed_s = num_to_buf 32 (sint (pr_instance_seed pr + (if bi = 1 then 1000000 else 0)));
       let opts = worker_options manifest_path runtime_dir worker_name seed_s sv;
       Some (if provider_manifest_language (ss_files s) manifest_path = OBICALL_LANG_PYTHON
         then (case resolve_python_exe env (ss_files s) 600 of
                 None \<Rightarrow> (False, s)
               | Some python_exe \<Rightarrow>
                   launch env worker_name python_exe
                     (python_exe # script_path env (ss_files s) bin_dir # option_args
                       (opts @ [(''--core-lib'', core_lib_path env (ss_files s) bin_dir)])) True s)
         else launch env worker_name exe (exe # option_args opts) True s)
     }
   }"

definition start_side :: "start_env \<Rightarrow> bytes \<Rightarrow> bytes \<Rightarrow> bytes \<Rightarrow> nat \<Rightarrow> nat \<Rightarrow> stage list" where
  "start_side env runtime_dir bin_dir config_digest_hex provider_count bi =
     start_broker env runtime_dir bin_dir config_digest_hex bi #
       map (start_worker env runtime_dir bin_dir bi) [0..<provider_count]"

definition zero_supervisor :: "bytes \<Rightarrow> bytes \<Rightarrow> supervisor" where
  "zero_supervisor runtime_dir bin_dir =
     \<lparr>sv_runtime_dir = strncpy_str 512 runtime_dir, sv_bin_dir = strncpy_str 512 bin_dir, sv_run_token = [],
      sv_token_hex = [], sv_cfg = default_config, sv_journal_port = 0, sv_gate_port = 0, sv_state_file = [],
      sv_children = [], sv_started_at_ns = 0\<rparr>"

text \<open>The directory of the manifests, relative to that of the configuration file.\<close>

definition resolved_manifests_dir :: "bytes \<Rightarrow> bytes \<Rightarrow> bytes" where
  "resolved_manifests_dir config_path dir =
     strncpy_str 512 (snd (snprintf 1024 (dirname_of config_path 512 @ SLASH # dir)))"

definition hex_text :: "bytes \<Rightarrow> bytes" where
  "hex_text data = concat (map hex_pair data)"

definition configured :: "start_env \<Rightarrow> bytes \<Rightarrow> bytes \<Rightarrow> bytes \<Rightarrow> pipeline_config \<Rightarrow> supervisor option" where
  "configured env config_path runtime_dir bin_dir cfg = do {
     dir \<leftarrow> c_str (pc_manifests_dir cfg);
     let resolved = resolved_manifests_dir config_path dir;
     token \<leftarrow> procutil_hex_encode (se_token env) (replicate 65 0);
     Some ((zero_supervisor runtime_dir bin_dir)
       \<lparr>sv_run_token := se_token env, sv_token_hex := cstring token,
        sv_cfg := cfg\<lparr>pc_manifests_dir := resolved @ replicate (512 - length resolved) 0\<rparr>,
        sv_state_file := snd (snprintf 600 (runtime_dir @ SLASH # ascii ''gate.state''))\<rparr>)
   }"

definition pipeline_stages :: "start_env \<Rightarrow> bytes \<Rightarrow> bytes \<Rightarrow> bytes \<Rightarrow> nat \<Rightarrow> stage list" where
  "pipeline_stages env runtime_dir bin_dir config_digest_hex provider_count =
     [start_journal env runtime_dir bin_dir, start_gate env runtime_dir bin_dir config_digest_hex] @
     start_side env runtime_dir bin_dir config_digest_hex provider_count 0 @
     start_side env runtime_dir bin_dir config_digest_hex provider_count 1"

definition supervisor_start :: "start_env \<Rightarrow> bytes \<Rightarrow> bytes \<Rightarrow> bytes \<Rightarrow> world \<Rightarrow> files \<Rightarrow>
    (bool \<times> start_state) option" where
  "supervisor_start env config_path runtime_dir bin_dir w fs = do {
     loaded \<leftarrow> pipeline_config_load config_path (fs config_path);
     case loaded of
       Inl _ \<Rightarrow> Some (False, \<lparr>ss_sv = zero_supervisor runtime_dir bin_dir, ss_world = w, ss_files = fs\<rparr>)
     | Inr cfg \<Rightarrow> do {
         sv \<leftarrow> configured env config_path runtime_dir bin_dir cfg;
         digest \<leftarrow> procutil_hex_encode (pc_config_digest cfg) (replicate 65 0);
         let fs = snd (procutil_write_token_file (se_token_file env) runtime_dir (se_token env) fs);
         (ok, s) \<leftarrow> run_stages (pipeline_stages env runtime_dir bin_dir (cstring digest) (pc_provider_count cfg))
           \<lparr>ss_sv = sv, ss_world = w, ss_files = fs\<rparr>;
         Some (ok, if ok then s\<lparr>ss_sv := (ss_sv s)\<lparr>sv_started_at_ns := se_end_time env\<rparr>\<rparr> else s)
       }
   }"

section \<open>Monitoring\<close>

text \<open>What one child meets during a tick.\<close>

record child_env =
  ce_before :: move
  ce_mtime :: "bytes \<Rightarrow> i64"
  ce_realtime :: i64
  ce_wait :: "nat \<Rightarrow> move"
  ce_spawn :: spawn

definition heartbeat_path :: "bytes \<Rightarrow> bytes \<Rightarrow> bytes" where
  "heartbeat_path runtime_dir name = snd (snprintf 700 (runtime_dir @ SLASH # name @ ascii ''.pid''))"

definition appears_hung :: "bytes \<Rightarrow> i64 \<Rightarrow> child_env \<Rightarrow> child_proc \<Rightarrow> bool" where
  "appears_hung runtime_dir now ce c \<longleftrightarrow>
     ch_is_worker c \<and> sint (now - ch_window_start_ns c) > 4000000000 \<and>
     (let mtime = ce_mtime ce (heartbeat_path runtime_dir (ch_name c))
      in sint mtime < 0 \<or> sint (ce_realtime ce - mtime) > 5000000000)"

text \<open>
  After a child has ended and its handle is closed. The flag tells whether the message that the child is being
  restarted is printed.
\<close>

definition restart_child :: "i64 \<Rightarrow> spawn \<Rightarrow> child_proc \<Rightarrow> world \<Rightarrow> bool \<times> child_proc \<times> world" where
  "restart_child now sp c w =
     (if ch_restart_suspended c then (False, c, w)
      else
        (let c = (if sint (now - ch_window_start_ns c) > 60000000000
                  then c\<lparr>ch_restart_count := 0, ch_window_start_ns := now\<rparr> else c)
         in if ch_restart_count c \<ge> 5 then (False, c, w)
            else (True, snd (spawn_child sp (c\<lparr>ch_restart_count := ch_restart_count c + 1\<rparr>) w))))"

definition monitor_child :: "bytes \<Rightarrow> i64 \<Rightarrow> child_env \<Rightarrow> child_proc \<Rightarrow> world \<Rightarrow> bool \<times> child_proc \<times> world" where
  "monitor_child runtime_dir now ce c w =
     (case ch_proc c of
        None \<Rightarrow> (False, c, w)
      | Some p \<Rightarrow>
          (case osal_process_is_alive p (moved (ce_before ce) w) of (alive, p, w) \<Rightarrow>
             let hung = (alive \<and> appears_hung runtime_dir now ce c) in
             if alive \<and> \<not> hung then (False, c\<lparr>ch_proc := Some p\<rparr>, w)
             else
               (let w = (if hung then osal_process_kill p w else w) in
                case osal_process_wait (ce_wait ce) (if hung then 2000 else 500) p w of (_, p, w) \<Rightarrow>
                  restart_child now (ce_spawn ce) (c\<lparr>ch_proc := None\<rparr>) (osal_process_close (Some p) w))))"

text \<open>The loops over the table of children.\<close>

primrec each_child :: "(nat \<Rightarrow> child_proc \<Rightarrow> world \<Rightarrow> child_proc \<times> world) \<Rightarrow> nat \<Rightarrow> child_proc list \<Rightarrow> world \<Rightarrow>
    child_proc list \<times> world" where
  "each_child f i [] w = ([], w)"
| "each_child f i (c # cs) w =
     (case f i c w of (c, w) \<Rightarrow> apfst (Cons c) (each_child f (i + 1) cs w))"

definition supervisor_monitor_tick :: "i64 \<Rightarrow> (nat \<Rightarrow> child_env) \<Rightarrow> supervisor \<Rightarrow> world \<Rightarrow> supervisor \<times> world" where
  "supervisor_monitor_tick now envs sv w =
     (case each_child (\<lambda>i c w. snd (monitor_child (sv_runtime_dir sv) now (envs i) c w)) 0 (sv_children sv) w of
        (cs, w) \<Rightarrow> (sv\<lparr>sv_children := cs\<rparr>, w))"

section \<open>Stopping, killing and resuming\<close>

definition terminate_child :: "child_proc \<Rightarrow> world \<Rightarrow> world" where
  "terminate_child c w = (case ch_proc c of None \<Rightarrow> w | Some p \<Rightarrow> osal_process_terminate p w)"

definition stop_child :: "(nat \<Rightarrow> move) \<Rightarrow> child_proc \<Rightarrow> world \<Rightarrow> child_proc \<times> world" where
  "stop_child mvs c w =
     (case ch_proc c of
        None \<Rightarrow> (c\<lparr>ch_argv := []\<rparr>, w)
      | Some p \<Rightarrow>
          (case osal_process_wait mvs 2000 p (osal_process_kill p w) of (_, p, w) \<Rightarrow>
             (c\<lparr>ch_proc := None, ch_argv := []\<rparr>, osal_process_close (Some p) w)))"

definition supervisor_stop_all :: "move \<Rightarrow> (nat \<Rightarrow> nat \<Rightarrow> move) \<Rightarrow> supervisor \<Rightarrow> world \<Rightarrow> supervisor \<times> world" where
  "supervisor_stop_all pause mvs sv w =
     (case each_child (\<lambda>i. stop_child (mvs i)) 0 (sv_children sv) (moved pause (fold terminate_child (sv_children sv) w)) of
        (cs, w) \<Rightarrow> (sv\<lparr>sv_children := cs\<rparr>, w))"

definition find_child :: "(child_proc \<Rightarrow> bool) \<Rightarrow> supervisor \<Rightarrow> nat option" where
  "find_child P sv = List.find (\<lambda>i. P (sv_children sv ! i)) [0..<length (sv_children sv)]"

definition update_child :: "nat \<Rightarrow> (child_proc \<Rightarrow> child_proc) \<Rightarrow> supervisor \<Rightarrow> supervisor" where
  "update_child i f sv = sv\<lparr>sv_children := (sv_children sv)[i := f (sv_children sv ! i)]\<rparr>"

definition supervisor_kill_child :: "bytes \<Rightarrow> supervisor \<Rightarrow> world \<Rightarrow> int \<times> world" where
  "supervisor_kill_child name sv w =
     (case find_child (\<lambda>c. ch_name c = name \<and> ch_proc c \<noteq> None) sv of
        None \<Rightarrow> (-1, w)
      | Some i \<Rightarrow> (0, osal_process_kill (the (ch_proc (sv_children sv ! i))) w))"

definition supervisor_kill_child_and_suspend :: "bytes \<Rightarrow> supervisor \<Rightarrow> world \<Rightarrow> int \<times> supervisor \<times> world" where
  "supervisor_kill_child_and_suspend name sv w =
     (case find_child (\<lambda>c. ch_name c = name \<and> ch_proc c \<noteq> None) sv of
        None \<Rightarrow> (-1, sv, w)
      | Some i \<Rightarrow> (0, update_child i (\<lambda>c. c\<lparr>ch_restart_suspended := True\<rparr>) sv,
          osal_process_kill (the (ch_proc (sv_children sv ! i))) w))"

definition supervisor_resume_child :: "bytes \<Rightarrow> i64 \<Rightarrow> supervisor \<Rightarrow> supervisor" where
  "supervisor_resume_child name now sv =
     (case find_child (\<lambda>c. ch_name c = name) sv of
        None \<Rightarrow> sv
      | Some i \<Rightarrow> update_child i
          (\<lambda>c. c\<lparr>ch_restart_suspended := False, ch_restart_count := 0, ch_window_start_ns := now\<rparr>) sv)"

section \<open>What a start launches\<close>

definition runs :: "child_proc \<Rightarrow> bytes \<Rightarrow> bytes \<Rightarrow> bytes list \<Rightarrow> bool \<Rightarrow> bool" where
  "runs c name exe argv is_worker \<longleftrightarrow>
     ch_name c = strncpy_str 64 name \<and> ch_exe_path c = strncpy_str 512 exe \<and> ch_argv c = argv \<and>
     ch_proc c \<noteq> None \<and> ch_is_worker c = is_worker \<and> ch_restart_count c = 0 \<and> \<not> ch_restart_suspended c"

text \<open>What no stage changes, and the children that a stage adds.\<close>

definition settings :: "supervisor \<Rightarrow> supervisor" where
  "settings sv = sv\<lparr>sv_children := [], sv_journal_port := 0, sv_gate_port := 0, sv_started_at_ns := 0\<rparr>"

definition added :: "start_state \<Rightarrow> child_proc list \<Rightarrow> start_state \<Rightarrow> bool" where
  "added s cs s' \<longleftrightarrow> settings (ss_sv s') = settings (ss_sv s) \<and>
     sv_children (ss_sv s') = sv_children (ss_sv s) @ cs \<and>
     (finite (dom (wo_kernel (ss_world s))) \<longrightarrow> finite (dom (wo_kernel (ss_world s'))))"

definition same_ports :: "start_state \<Rightarrow> start_state \<Rightarrow> bool" where
  "same_ports s s' \<longleftrightarrow> sv_journal_port (ss_sv s') = sv_journal_port (ss_sv s) \<and>
     sv_gate_port (ss_sv s') = sv_gate_port (ss_sv s)"

lemma run_stages_append:
  "run_stages (fs @ gs) s = (case run_stages fs s of Some (True, s) \<Rightarrow> run_stages gs s | stopped \<Rightarrow> stopped)"
  by (induction fs arbitrary: s) (auto split: option.split prod.split bool.split)

lemma launch_adds:
  assumes "launch env name exe argv is_worker s = (True, s')" and "length argv \<le> 39"
  shows "\<exists>c. added s [c] s' \<and> same_ports s s' \<and> ss_files s' = ss_files s \<and> runs c name exe argv is_worker"
proof -
  let ?c = "\<lparr>ch_name = strncpy_str 64 name, ch_exe_path = strncpy_str 512 exe, ch_argv = argv, ch_proc = None,
    ch_restart_count = 0, ch_window_start_ns = 0, ch_is_worker = is_worker, ch_restart_suspended = False\<rparr>"
  have "add_child name exe argv is_worker (ss_sv s) =
      (if length (sv_children (ss_sv s)) \<ge> 32 then None
       else Some ((ss_sv s)\<lparr>sv_children := sv_children (ss_sv s) @ [?c]\<rparr>))"
    using assms(2) by (simp add: add_child_def set_argv_def)
  then show ?thesis
    using assms(1) by (auto simp: launch_def spawn_child_def osal_process_spawn_def added_def same_ports_def settings_def runs_def Let_def
        split: if_splits option.splits prod.splits)
qed

lemma settings_select:
  "sv_cfg (settings sv) = sv_cfg sv" "sv_token_hex (settings sv) = sv_token_hex sv"
  "sv_state_file (settings sv) = sv_state_file sv" "sv_runtime_dir (settings sv) = sv_runtime_dir sv"
  by (simp_all add: settings_def)

lemma settings_fields:
  assumes "settings sv = settings sv'"
  shows "sv_cfg sv = sv_cfg sv'" "sv_token_hex sv = sv_token_hex sv'" "sv_state_file sv = sv_state_file sv'"
    "sv_runtime_dir sv = sv_runtime_dir sv'"
  using arg_cong [OF assms, of sv_cfg] arg_cong [OF assms, of sv_token_hex]
    arg_cong [OF assms, of sv_state_file] arg_cong [OF assms, of sv_runtime_dir]
  by (simp_all only: settings_select)

lemma added_trans: "added s cs s' \<Longrightarrow> added s' ds s'' \<Longrightarrow> added s (cs @ ds) s''"
  by (simp add: added_def)

lemma added_fields:
  assumes "added s cs s'"
  shows "sv_cfg (ss_sv s') = sv_cfg (ss_sv s)" "sv_token_hex (ss_sv s') = sv_token_hex (ss_sv s)"
    "sv_state_file (ss_sv s') = sv_state_file (ss_sv s)"
  using assms settings_fields [of "ss_sv s'" "ss_sv s"] by (simp_all add: added_def)

lemma options_length: "length (option_args opts) = 2 * length opts"
  by (induction opts) (auto simp: option_args_def)

text \<open>The stages one by one.\<close>

definition journal_runs :: "bytes \<Rightarrow> bytes \<Rightarrow> supervisor \<Rightarrow> child_proc \<Rightarrow> bool" where
  "journal_runs runtime_dir bin_dir sv c \<longleftrightarrow>
     (\<exists>pipeline_id. c_str (pc_pipeline_id (sv_cfg sv)) = Some pipeline_id \<and>
        runs c (ascii ''journal'') (program bin_dir ''obicall-journald'')
          (program bin_dir ''obicall-journald'' # option_args (journal_options runtime_dir pipeline_id sv)) False)"

definition gate_runs :: "bytes \<Rightarrow> bytes \<Rightarrow> bytes \<Rightarrow> supervisor \<Rightarrow> child_proc \<Rightarrow> bool" where
  "gate_runs runtime_dir bin_dir digest sv c \<longleftrightarrow>
     runs c (ascii ''gate'') (program bin_dir ''obicall-gated'')
       (program bin_dir ''obicall-gated'' # option_args (gate_options runtime_dir digest sv)) False"

definition broker_runs :: "bytes \<Rightarrow> bytes \<Rightarrow> bytes \<Rightarrow> nat \<Rightarrow> supervisor \<Rightarrow> child_proc \<Rightarrow> bool" where
  "broker_runs runtime_dir bin_dir digest bi sv c \<longleftrightarrow>
     (\<exists>pipeline_id sensor_ids. c_str (pc_pipeline_id (sv_cfg sv)) = Some pipeline_id \<and>
        c_str (pc_sensor_ids_csv (sv_cfg sv)) = Some sensor_ids \<and>
        runs c (ascii ''broker_'' @ broker_letter bi) (program bin_dir ''obicall-brokerd'')
          (program bin_dir ''obicall-brokerd'' #
            option_args (broker_options (broker_letter bi) runtime_dir digest pipeline_id sensor_ids sv) @
            (if pc_dgt_enabled (sv_cfg sv) then [ascii ''--dgt-enabled''] else [])) False)"

text \<open>The worker number \<open>p\<close>: its options, in front of them its program, and the script in between for Python.\<close>

definition worker_runs :: "bytes \<Rightarrow> nat \<Rightarrow> supervisor \<Rightarrow> nat \<Rightarrow> child_proc \<Rightarrow> bool" where
  "worker_runs runtime_dir bi sv p c \<longleftrightarrow>
     (let pr = pc_providers (sv_cfg sv) ! p in
      \<exists>dir manifest name exe script lib. c_str (pc_manifests_dir (sv_cfg sv)) = Some dir \<and>
        c_str (pr_manifest pr) = Some manifest \<and> c_str (pr_worker_name pr) = Some name \<and>
        length (dir @ SLASH # manifest) < 1200 \<and> length script \<le> 1 \<and> length lib \<le> 1 \<and>
        runs c (take 95 (name @ 0x5F # broker_letter bi)) exe
          (exe # script @ option_args (worker_options (dir @ SLASH # manifest) runtime_dir
              (take 95 (name @ 0x5F # broker_letter bi))
              (num_to_buf 32 (sint (pr_instance_seed pr + (if bi = 1 then 1000000 else 0)))) sv @ lib)) True)"

lemma options_irrelevant:
  assumes "settings sv' = settings sv"
  shows "journal_options rd pid sv' = journal_options rd pid sv" "gate_options rd digest sv' = gate_options rd digest sv"
    "sv_journal_port sv' = sv_journal_port sv \<Longrightarrow> sv_gate_port sv' = sv_gate_port sv \<Longrightarrow>
       broker_options letter rd digest pid ids sv' = broker_options letter rd digest pid ids sv"
    "sv_journal_port sv' = sv_journal_port sv \<Longrightarrow> worker_options mp rd name seed sv' = worker_options mp rd name seed sv"
  using settings_fields [OF assms]
  by (simp_all add: journal_options_def gate_options_def broker_options_def worker_options_def)

lemma journal_stage:
  assumes "start_journal env rd bd s = Some (True, s')"
  shows "\<exists>c. added s [c] s' \<and> journal_runs rd bd (ss_sv s') c"
proof -
  obtain pid where pid: "c_str (pc_pipeline_id (sv_cfg (ss_sv s))) = Some pid"
    using assms by (auto simp: start_journal_def split: bind_splits)
  let ?s = "s\<lparr>ss_files := procutil_clear_port_file rd (ascii ''journal'') (ss_files s)\<rparr>"
  let ?argv = "program bd ''obicall-journald'' # option_args (journal_options rd pid (ss_sv s))"
  obtain s1 port where s1: "launch env (ascii ''journal'') (program bd ''obicall-journald'') ?argv False ?s = (True, s1)"
    and s': "s' = s1\<lparr>ss_sv := (ss_sv s1)\<lparr>sv_journal_port := port\<rparr>\<rparr>"
    using assms pid by (auto simp: start_journal_def Let_def split: prod.splits if_splits option.splits)
  have "length ?argv \<le> 39"
    by (simp add: options_length journal_options_def)
  from launch_adds [OF s1 this] obtain c where c: "added ?s [c] s1"
      "runs c (ascii ''journal'') (program bd ''obicall-journald'') ?argv False"
    by blast
  have set: "settings (ss_sv s') = settings (ss_sv s)"
    using c(1) s' by (simp add: added_def settings_def)
  moreover have "added s [c] s'"
    using c(1) s' set by (simp add: added_def)
  ultimately show ?thesis
    using c(2) pid options_irrelevant(1) [OF set] settings_fields(1) [OF set]
    by (auto simp: journal_runs_def)
qed

lemma gate_stage:
  assumes "start_gate env rd bd digest s = Some (True, s')"
  shows "\<exists>c. added s [c] s' \<and> gate_runs rd bd digest (ss_sv s') c"
proof -
  let ?s = "s\<lparr>ss_files := procutil_clear_port_file rd (ascii ''gate'') (ss_files s)\<rparr>"
  let ?argv = "program bd ''obicall-gated'' # option_args (gate_options rd digest (ss_sv s))"
  obtain s1 port where s1: "launch env (ascii ''gate'') (program bd ''obicall-gated'') ?argv False ?s = (True, s1)"
    and s': "s' = s1\<lparr>ss_sv := (ss_sv s1)\<lparr>sv_gate_port := port\<rparr>\<rparr>"
    using assms by (auto simp: start_gate_def Let_def split: prod.splits if_splits option.splits)
  have "length ?argv \<le> 39"
    by (simp add: options_length gate_options_def)
  from launch_adds [OF s1 this] obtain c where c: "added ?s [c] s1"
      "runs c (ascii ''gate'') (program bd ''obicall-gated'') ?argv False"
    by blast
  have set: "settings (ss_sv s') = settings (ss_sv s)"
    using c(1) s' by (simp add: added_def settings_def)
  moreover have "added s [c] s'"
    using c(1) s' set by (simp add: added_def)
  ultimately show ?thesis
    using c(2) options_irrelevant(2) [OF set] by (auto simp: gate_runs_def)
qed

lemma broker_stage:
  assumes "start_broker env rd bd digest bi s = Some (True, s')"
  shows "\<exists>c. added s [c] s' \<and> same_ports s s' \<and> broker_runs rd bd digest bi (ss_sv s') c"
proof -
  obtain pid where pid: "c_str (pc_pipeline_id (sv_cfg (ss_sv s))) = Some pid"
    using assms by (auto simp: start_broker_def Let_def split: bind_splits)
  obtain ids where ids: "c_str (pc_sensor_ids_csv (sv_cfg (ss_sv s))) = Some ids"
    using assms pid by (auto simp: start_broker_def Let_def split: bind_splits)
  let ?argv = "program bd ''obicall-brokerd'' #
      option_args (broker_options (broker_letter bi) rd digest pid ids (ss_sv s)) @
      (if pc_dgt_enabled (sv_cfg (ss_sv s)) then [ascii ''--dgt-enabled''] else [])"
  have "launch env (ascii ''broker_'' @ broker_letter bi) (program bd ''obicall-brokerd'') ?argv False s = (True, s')"
    using assms pid ids by (simp add: start_broker_def Let_def)
  moreover have "length ?argv \<le> 39"
    by (simp add: options_length broker_options_def)
  ultimately obtain c where c: "added s [c] s'" "same_ports s s'"
      "runs c (ascii ''broker_'' @ broker_letter bi) (program bd ''obicall-brokerd'') ?argv False"
    using launch_adds by blast
  have "broker_options (broker_letter bi) rd digest pid ids (ss_sv s') =
      broker_options (broker_letter bi) rd digest pid ids (ss_sv s)"
    using c(1,2) by (intro options_irrelevant(3)) (simp_all add: added_def same_ports_def)
  then show ?thesis
    using c pid ids added_fields(1) [OF c(1)] by (intro exI [of _ c]) (simp add: broker_runs_def)
qed

lemma worker_stage:
  assumes "start_worker env rd bd bi p s = Some (True, s')"
  shows "\<exists>c. added s [c] s' \<and> same_ports s s' \<and> worker_runs rd bi (ss_sv s') p c"
proof -
  let ?sv = "ss_sv s" and ?pr = "pc_providers (sv_cfg (ss_sv s)) ! p"
  obtain dir where dir: "c_str (pc_manifests_dir (sv_cfg ?sv)) = Some dir"
    using assms by (auto simp: start_worker_def Let_def split: bind_splits)
  obtain manifest where manifest: "c_str (pr_manifest ?pr) = Some manifest"
    using assms dir by (auto simp: start_worker_def Let_def split: bind_splits)
  have short: "length (dir @ SLASH # manifest) < 1200"
    using assms dir manifest by (simp add: start_worker_def snprintf_def Let_def split: if_splits)
  obtain name where name: "c_str (pr_worker_name ?pr) = Some name"
    using assms dir manifest short by (auto simp: start_worker_def snprintf_def Let_def split: bind_splits)
  let ?name = "take 95 (name @ 0x5F # broker_letter bi)"
  let ?seed = "num_to_buf 32 (sint (pr_instance_seed ?pr + (if bi = 1 then 1000000 else 0)))"
  let ?opts = "worker_options (dir @ SLASH # manifest) rd ?name ?seed ?sv"
  have "\<exists>exe script lib. length script \<le> 1 \<and> length lib \<le> 1 \<and>
      launch env ?name exe (exe # script @ option_args (?opts @ lib)) True s = (True, s')"
  proof (cases "provider_manifest_language (ss_files s) (dir @ SLASH # manifest) = OBICALL_LANG_PYTHON")
    case True
    then obtain exe where "launch env ?name exe (exe # [script_path env (ss_files s) bd] @ option_args
        (?opts @ [(''--core-lib'', core_lib_path env (ss_files s) bd)])) True s = (True, s')"
      (is "launch _ _ _ (_ # ?script @ option_args (_ @ ?lib)) _ _ = _")
      using assms dir manifest name short
      by (auto simp: start_worker_def snprintf_def Let_def split: option.splits)
    then show ?thesis by (intro exI [of _ exe] exI [of _ ?script] exI [of _ ?lib]) simp
  next
    case False
    then have "launch env ?name (program bd ''obicall-workerd'')
        (program bd ''obicall-workerd'' # [] @ option_args (?opts @ [])) True s = (True, s')"
      using assms dir manifest name short by (simp add: start_worker_def snprintf_def Let_def)
    then show ?thesis by (intro exI [of _ "program bd ''obicall-workerd''"] exI [of _ "[]"]) simp
  qed
  then obtain exe script lib where l: "length script \<le> 1" "length lib \<le> 1"
      "launch env ?name exe (exe # script @ option_args (?opts @ lib)) True s = (True, s')"
    by blast
  then have "length (exe # script @ option_args (?opts @ lib)) \<le> 39"
    by (simp add: options_length worker_options_def)
  from launch_adds [OF l(3) this] obtain c where c: "added s [c] s'" "same_ports s s'"
      "runs c ?name exe (exe # script @ option_args (?opts @ lib)) True"
    by blast
  have "worker_options (dir @ SLASH # manifest) rd ?name ?seed (ss_sv s') = ?opts"
    using c(1,2) by (intro options_irrelevant(4)) (simp_all add: added_def same_ports_def)
  then have "worker_runs rd bi (ss_sv s') p c"
    unfolding worker_runs_def Let_def added_fields(1) [OF c(1)]
    using c(3) l(1,2) dir manifest name short
    by (intro exI [of _ dir] exI [of _ manifest] exI [of _ name] exI [of _ exe] exI [of _ script] exI [of _ lib]) simp
  then show ?thesis
    using c(1,2) by blast
qed

lemma worker_stages:
  assumes "run_stages (map (start_worker env rd bd bi) ps) s = Some (True, s')"
  shows "\<exists>cs. added s cs s' \<and> same_ports s s' \<and> list_all2 (worker_runs rd bi (ss_sv s')) ps cs"
  using assms
proof (induction ps arbitrary: s)
  case Nil
  then show ?case by (simp add: added_def same_ports_def)
next
  case (Cons p ps)
  obtain s1 where s1: "start_worker env rd bd bi p s = Some (True, s1)"
    and rest: "run_stages (map (start_worker env rd bd bi) ps) s1 = Some (True, s')"
    using Cons.prems by (auto split: option.splits prod.splits bool.splits)
  from worker_stage [OF s1] obtain c where c: "added s [c] s1" "same_ports s s1" "worker_runs rd bi (ss_sv s1) p c"
    by blast
  from Cons.IH [OF rest] obtain cs where cs: "added s1 cs s'" "same_ports s1 s'"
      "list_all2 (worker_runs rd bi (ss_sv s')) ps cs"
    by blast
  have "worker_options mp rd name seed (ss_sv s') = worker_options mp rd name seed (ss_sv s1)" for mp name seed
    using cs(1,2) by (intro options_irrelevant(4)) (simp_all add: added_def same_ports_def)
  then have "worker_runs rd bi (ss_sv s') p c"
    using c(3) added_fields(1) [OF cs(1)] by (simp add: worker_runs_def)
  then show ?case
    using c cs added_trans [OF c(1) cs(1)] by (auto simp: same_ports_def)
qed

lemma runs_stable:
  assumes "settings sv' = settings sv"
  shows "journal_runs rd bd sv' c = journal_runs rd bd sv c" "gate_runs rd bd digest sv' c = gate_runs rd bd digest sv c"
    "sv_journal_port sv' = sv_journal_port sv \<Longrightarrow> sv_gate_port sv' = sv_gate_port sv \<Longrightarrow>
       broker_runs rd bd digest bi sv' c = broker_runs rd bd digest bi sv c"
    "sv_journal_port sv' = sv_journal_port sv \<Longrightarrow> worker_runs rd bi sv' p c = worker_runs rd bi sv p c"
  using options_irrelevant [OF assms] settings_fields(1) [OF assms]
  by (simp_all add: journal_runs_def gate_runs_def broker_runs_def worker_runs_def)

definition side_runs :: "bytes \<Rightarrow> bytes \<Rightarrow> bytes \<Rightarrow> nat \<Rightarrow> supervisor \<Rightarrow> child_proc list \<Rightarrow> bool" where
  "side_runs runtime_dir bin_dir digest bi sv cs \<longleftrightarrow>
     (\<exists>b ws. cs = b # ws \<and> broker_runs runtime_dir bin_dir digest bi sv b \<and>
        list_all2 (worker_runs runtime_dir bi sv) [0..<pc_provider_count (sv_cfg sv)] ws)"

lemma side_runs_stable:
  assumes "settings sv' = settings sv" "sv_journal_port sv' = sv_journal_port sv" "sv_gate_port sv' = sv_gate_port sv"
  shows "side_runs rd bd digest bi sv' cs = side_runs rd bd digest bi sv cs"
proof -
  have "worker_runs rd bi sv' = worker_runs rd bi sv"
    by (intro ext runs_stable(4) assms)
  then show ?thesis
    using runs_stable(3) [OF assms] settings_fields(1) [OF assms(1)] by (simp add: side_runs_def)
qed

lemma side_stages:
  assumes "run_stages (start_side env rd bd digest n bi) s = Some (True, s')" and "n = pc_provider_count (sv_cfg (ss_sv s))"
  shows "\<exists>cs. added s cs s' \<and> same_ports s s' \<and> side_runs rd bd digest bi (ss_sv s') cs"
proof -
  obtain s1 where s1: "start_broker env rd bd digest bi s = Some (True, s1)"
    and rest: "run_stages (map (start_worker env rd bd bi) [0..<n]) s1 = Some (True, s')"
    using assms(1) by (auto simp: start_side_def split: option.splits prod.splits bool.splits)
  from broker_stage [OF s1] obtain b where b: "added s [b] s1" "same_ports s s1" "broker_runs rd bd digest bi (ss_sv s1) b"
    by blast
  from worker_stages [OF rest] obtain ws where ws: "added s1 ws s'" "same_ports s1 s'"
      "list_all2 (worker_runs rd bi (ss_sv s')) [0..<n] ws"
    by blast
  have "broker_runs rd bd digest bi (ss_sv s') b = broker_runs rd bd digest bi (ss_sv s1) b"
    using ws(1,2) by (intro runs_stable(3)) (simp_all add: added_def same_ports_def)
  moreover have "added s (b # ws) s'"
    using added_trans [OF b(1) ws(1)] by simp
  ultimately show ?thesis
    using b(2,3) ws(2,3) assms(2) added_fields(1) [OF \<open>added s (b # ws) s'\<close>]
    by (intro exI [of _ "b # ws"]) (simp add: side_runs_def same_ports_def)
qed

lemma cstring_hex:
  assumes "procutil_hex_encode data (replicate n 0) = Some out"
  shows "cstring out = hex_text data"
proof -
  have "hexchar k \<noteq> 0" if "k < 16" for k :: u8
    using hex_val_hexchar [OF that] by (auto simp: hex_val_def)
  then have "0 \<notin> set (hex_text data)"
    using nibble_less by (auto simp: hex_text_def hex_pair_def)
  then show ?thesis
    using assms by (auto simp: procutil_hex_encode_def memcpy_zero cstring_def hex_text_def takeWhile_tail split: if_splits)
qed

lemma configured_fields:
  assumes "configured env cp rd bd cfg = Some sv"
  shows "sv_token_hex sv = hex_text (se_token env)" "sv_children sv = []"
    "pc_provider_count (sv_cfg sv) = pc_provider_count cfg"
  using assms cstring_hex [of "se_token env" 65]
  by (auto simp: configured_def Let_def zero_supervisor_def split: bind_splits)

definition pipeline_runs :: "bytes \<Rightarrow> bytes \<Rightarrow> bytes \<Rightarrow> supervisor \<Rightarrow> child_proc list \<Rightarrow> bool" where
  "pipeline_runs runtime_dir bin_dir digest sv cs \<longleftrightarrow>
     (\<exists>j g as bs. cs = j # g # as @ bs \<and> journal_runs runtime_dir bin_dir sv j \<and>
        gate_runs runtime_dir bin_dir digest sv g \<and> side_runs runtime_dir bin_dir digest 0 sv as \<and>
        side_runs runtime_dir bin_dir digest 1 sv bs)"

lemma pipeline_stages_run:
  assumes "run_stages (pipeline_stages env rd bd digest n) s0 = Some (True, s)" and "n = pc_provider_count (sv_cfg (ss_sv s0))"
  shows "\<exists>cs. added s0 cs s \<and> pipeline_runs rd bd digest (ss_sv s) cs"
proof -
  obtain s1 s2 s3 where stages: "start_journal env rd bd s0 = Some (True, s1)" "start_gate env rd bd digest s1 = Some (True, s2)"
      "run_stages (start_side env rd bd digest n 0) s2 = Some (True, s3)"
      "run_stages (start_side env rd bd digest n 1) s3 = Some (True, s)"
    using assms(1) by (auto simp: pipeline_stages_def run_stages_append split: option.splits prod.splits bool.splits)
  obtain j where j: "added s0 [j] s1" "journal_runs rd bd (ss_sv s1) j"
    using journal_stage [OF stages(1)] by blast
  obtain g where g: "added s1 [g] s2" "gate_runs rd bd digest (ss_sv s2) g"
    using gate_stage [OF stages(2)] by blast
  have n: "n = pc_provider_count (sv_cfg (ss_sv s2))"
    using added_fields(1) [OF j(1)] added_fields(1) [OF g(1)] assms(2) by simp
  obtain as where as: "added s2 as s3" "side_runs rd bd digest 0 (ss_sv s3) as"
    using side_stages [OF stages(3) n] by blast
  obtain bs where bs: "added s3 bs s" "same_ports s3 s" "side_runs rd bd digest 1 (ss_sv s) bs"
    using side_stages [OF stages(4)] n added_fields(1) [OF as(1)] by auto
  have set: "settings (ss_sv s) = settings (ss_sv s1)" "settings (ss_sv s) = settings (ss_sv s2)"
      "settings (ss_sv s) = settings (ss_sv s3)"
    using g(1) as(1) bs(1) by (simp_all add: added_def)
  have "pipeline_runs rd bd digest (ss_sv s) (j # g # as @ bs)"
    using j(2) g(2) as(2) bs(2,3) runs_stable(1) [OF set(1)] runs_stable(2) [OF set(2)]
      side_runs_stable [OF set(3)] by (auto simp: pipeline_runs_def same_ports_def)
  moreover have "added s0 (j # g # as @ bs) s"
    using added_trans [OF added_trans [OF added_trans [OF j(1) g(1)] as(1)] bs(1)] by simp
  ultimately show ?thesis by blast
qed

lemma pipeline_runs_stable:
  assumes "settings sv' = settings sv" "sv_journal_port sv' = sv_journal_port sv" "sv_gate_port sv' = sv_gate_port sv"
  shows "pipeline_runs rd bd digest sv' cs = pipeline_runs rd bd digest sv cs"
  using runs_stable(1,2) [OF assms(1)] side_runs_stable [OF assms] by (simp add: pipeline_runs_def)

section \<open>When a start succeeds\<close>

text \<open>The files while the workers are started: the token is written, the old port files are removed.\<close>

definition start_files :: "start_env \<Rightarrow> bytes \<Rightarrow> files \<Rightarrow> files" where
  "start_files env runtime_dir fs =
     procutil_clear_port_file runtime_dir (ascii ''gate'') (procutil_clear_port_file runtime_dir (ascii ''journal'')
       (snd (procutil_write_token_file (se_token_file env) runtime_dir (se_token env) fs)))"

definition provider_startable :: "start_env \<Rightarrow> files \<Rightarrow> bytes \<Rightarrow> provider_ref \<Rightarrow> bool" where
  "provider_startable env fs dir pr \<longleftrightarrow>
     (\<exists>manifest name. c_str (pr_manifest pr) = Some manifest \<and> c_str (pr_worker_name pr) = Some name \<and>
        length (dir @ SLASH # manifest) < 1200 \<and>
        (provider_manifest_language fs (dir @ SLASH # manifest) = OBICALL_LANG_PYTHON \<longrightarrow>
          resolve_python_exe env fs 600 \<noteq> None))"

definition startable :: "start_env \<Rightarrow> files \<Rightarrow> bytes \<Rightarrow> supervisor \<Rightarrow> bool" where
  "startable env fs runtime_dir sv \<longleftrightarrow>
     (\<forall>i k. finite (dom k) \<longrightarrow> fst (se_spawn env i) k \<noteq> None) \<and>
     procutil_read_port_file runtime_dir (ascii ''journal'') 5000 (se_polled env ''journal'') \<noteq> None \<and>
     procutil_read_port_file runtime_dir (ascii ''gate'') 5000 (se_polled env ''gate'') \<noteq> None \<and>
     c_str (pc_pipeline_id (sv_cfg sv)) \<noteq> None \<and> c_str (pc_sensor_ids_csv (sv_cfg sv)) \<noteq> None \<and>
     pc_provider_count (sv_cfg sv) \<le> 8 \<and>
     (\<exists>dir. c_str (pc_manifests_dir (sv_cfg sv)) = Some dir \<and>
        (\<forall>p < pc_provider_count (sv_cfg sv). provider_startable env fs dir (pc_providers (sv_cfg sv) ! p)))"

lemma startable_settings: "settings sv' = settings sv \<Longrightarrow> startable env fs rd sv' = startable env fs rd sv"
  using settings_fields(1) [of sv' sv] by (simp add: startable_def)

text \<open>\<open>succeeds f s n fs\<close>: the stage returns 0, adds \<open>n\<close> children and leaves the files \<open>fs\<close>.\<close>

definition succeeds :: "stage \<Rightarrow> start_state \<Rightarrow> nat \<Rightarrow> files \<Rightarrow> bool" where
  "succeeds f s n fs \<longleftrightarrow> (\<exists>s' cs. f s = Some (True, s') \<and> added s cs s' \<and> length cs = n \<and> ss_files s' = fs)"

lemma launch_succeeds:
  assumes "\<forall>i k. finite (dom k) \<longrightarrow> fst (se_spawn env i) k \<noteq> None" "length (sv_children (ss_sv s)) < 32" "length argv \<le> 39"
    "finite (dom (wo_kernel (ss_world s)))"
  shows "succeeds (\<lambda>s. Some (launch env name exe argv wk s)) s 1 (ss_files s)"
proof -
  obtain ok s' where l: "launch env name exe argv wk s = (ok, s')"
    by (cases "launch env name exe argv wk s")
  have "ok"
    using assms(1) [rule_format, OF assms(4), of "length (sv_children (ss_sv s))"] assms(2) l
    by (auto simp: launch_def add_child_def spawn_child_def osal_process_spawn_def Let_def split: option.splits)
  with l launch_adds [of env name exe argv wk s s'] assms(3) show ?thesis
    by (auto simp: succeeds_def)
qed

lemma journal_succeeds:
  assumes "startable env fs rd (ss_sv s)" "length (sv_children (ss_sv s)) < 32" "finite (dom (wo_kernel (ss_world s)))"
  shows "succeeds (start_journal env rd bd) s 1 (procutil_clear_port_file rd (ascii ''journal'') (ss_files s))"
proof -
  obtain pid port where ok: "c_str (pc_pipeline_id (sv_cfg (ss_sv s))) = Some pid"
      "procutil_read_port_file rd (ascii ''journal'') 5000 (se_polled env ''journal'') = Some port"
    using assms(1) by (auto simp: startable_def)
  let ?argv = "program bd ''obicall-journald'' # option_args (journal_options rd pid (ss_sv s))"
  let ?s = "s\<lparr>ss_files := procutil_clear_port_file rd (ascii ''journal'') (ss_files s)\<rparr>"
  have "succeeds (\<lambda>s. Some (launch env (ascii ''journal'') (program bd ''obicall-journald'') ?argv False s)) ?s 1 (ss_files ?s)"
    using assms by (intro launch_succeeds) (simp_all add: startable_def options_length journal_options_def)
  then show ?thesis
    using ok by (auto simp: succeeds_def start_journal_def Let_def added_def settings_def)
qed

lemma gate_succeeds:
  assumes "startable env fs rd (ss_sv s)" "length (sv_children (ss_sv s)) < 32" "finite (dom (wo_kernel (ss_world s)))"
  shows "succeeds (start_gate env rd bd digest) s 1 (procutil_clear_port_file rd (ascii ''gate'') (ss_files s))"
proof -
  obtain port where ok: "procutil_read_port_file rd (ascii ''gate'') 5000 (se_polled env ''gate'') = Some port"
    using assms(1) by (auto simp: startable_def)
  let ?argv = "program bd ''obicall-gated'' # option_args (gate_options rd digest (ss_sv s))"
  let ?s = "s\<lparr>ss_files := procutil_clear_port_file rd (ascii ''gate'') (ss_files s)\<rparr>"
  have "succeeds (\<lambda>s. Some (launch env (ascii ''gate'') (program bd ''obicall-gated'') ?argv False s)) ?s 1 (ss_files ?s)"
    using assms by (intro launch_succeeds) (simp_all add: startable_def options_length gate_options_def)
  then show ?thesis
    using ok by (auto simp: succeeds_def start_gate_def Let_def added_def settings_def)
qed

lemma broker_succeeds:
  assumes "startable env fs rd (ss_sv s)" "length (sv_children (ss_sv s)) < 32" "finite (dom (wo_kernel (ss_world s)))"
  shows "succeeds (start_broker env rd bd digest bi) s 1 (ss_files s)"
proof -
  obtain pid ids where ok: "c_str (pc_pipeline_id (sv_cfg (ss_sv s))) = Some pid"
      "c_str (pc_sensor_ids_csv (sv_cfg (ss_sv s))) = Some ids"
    using assms(1) by (auto simp: startable_def)
  let ?argv = "program bd ''obicall-brokerd'' #
      option_args (broker_options (broker_letter bi) rd digest pid ids (ss_sv s)) @
      (if pc_dgt_enabled (sv_cfg (ss_sv s)) then [ascii ''--dgt-enabled''] else [])"
  have "succeeds (\<lambda>s. Some (launch env (ascii ''broker_'' @ broker_letter bi) (program bd ''obicall-brokerd'') ?argv False s)) s 1 (ss_files s)"
    using assms by (intro launch_succeeds) (simp_all add: startable_def options_length broker_options_def)
  then show ?thesis
    using ok by (simp add: succeeds_def start_broker_def Let_def)
qed

lemma worker_succeeds:
  assumes "startable env (ss_files s) rd (ss_sv s)" "length (sv_children (ss_sv s)) < 32" "p < pc_provider_count (sv_cfg (ss_sv s))"
    "finite (dom (wo_kernel (ss_world s)))"
  shows "succeeds (start_worker env rd bd bi p) s 1 (ss_files s)"
proof -
  obtain dir where dir: "c_str (pc_manifests_dir (sv_cfg (ss_sv s))) = Some dir"
      "provider_startable env (ss_files s) dir (pc_providers (sv_cfg (ss_sv s)) ! p)"
    using assms(1,3) by (auto simp: startable_def)
  let ?pr = "pc_providers (sv_cfg (ss_sv s)) ! p" and ?fs = "ss_files s"
  obtain manifest wname where ok: "c_str (pr_manifest ?pr) = Some manifest" "c_str (pr_worker_name ?pr) = Some wname"
      "length (dir @ SLASH # manifest) < 1200"
      "provider_manifest_language ?fs (dir @ SLASH # manifest) = OBICALL_LANG_PYTHON \<longrightarrow> resolve_python_exe env ?fs 600 \<noteq> None"
    using dir(2) by (auto simp: provider_startable_def)
  let ?name = "take 95 (wname @ 0x5F # broker_letter bi)"
  let ?seed = "num_to_buf 32 (sint (pr_instance_seed ?pr + (if bi = 1 then 1000000 else 0)))"
  let ?opts = "worker_options (dir @ SLASH # manifest) rd ?name ?seed (ss_sv s)"
  have "\<exists>name exe argv. start_worker env rd bd bi p s = Some (launch env name exe argv True s) \<and> length argv \<le> 39"
  proof (cases "provider_manifest_language ?fs (dir @ SLASH # manifest) = OBICALL_LANG_PYTHON")
    case True
    then obtain exe where "resolve_python_exe env ?fs 600 = Some exe" using ok(4) by auto
    with True have "start_worker env rd bd bi p s = Some (launch env ?name exe (exe # script_path env ?fs bd #
        option_args (?opts @ [(''--core-lib'', core_lib_path env ?fs bd)])) True s)"
      using dir(1) ok by (simp add: start_worker_def snprintf_def Let_def)
    moreover have "length (exe # script_path env ?fs bd #
        option_args (?opts @ [(''--core-lib'', core_lib_path env ?fs bd)])) \<le> 39"
      by (simp add: options_length worker_options_def)
    ultimately show ?thesis by blast
  next
    case False
    then have "start_worker env rd bd bi p s = Some (launch env ?name (program bd ''obicall-workerd'')
        (program bd ''obicall-workerd'' # option_args ?opts) True s)"
      using dir(1) ok by (simp add: start_worker_def snprintf_def Let_def)
    moreover have "length (program bd ''obicall-workerd'' # option_args ?opts) \<le> 39"
      by (simp add: options_length worker_options_def)
    ultimately show ?thesis by blast
  qed
  then obtain name exe argv where l: "start_worker env rd bd bi p s = Some (launch env name exe argv True s)" "length argv \<le> 39"
    by blast
  have "succeeds (\<lambda>s. Some (launch env name exe argv True s)) s 1 (ss_files s)"
    using assms l(2) by (intro launch_succeeds) (simp_all add: startable_def)
  then show ?thesis using l(1) by (simp add: succeeds_def)
qed

lemma succeeds_next:
  assumes "succeeds f s m fs" and "\<And>s' cs. added s cs s' \<Longrightarrow> length cs = m \<Longrightarrow> ss_files s' = fs \<Longrightarrow> succeeds (run_stages gs) s' n fs'"
  shows "succeeds (run_stages (f # gs)) s (m + n) fs'"
proof -
  obtain s1 cs where f: "f s = Some (True, s1)" "added s cs s1" "length cs = m" "ss_files s1 = fs"
    using assms(1) by (auto simp: succeeds_def)
  then obtain s2 ds where "run_stages gs s1 = Some (True, s2)" "added s1 ds s2" "length ds = n" "ss_files s2 = fs'"
    using assms(2) by (force simp: succeeds_def)
  with f added_trans [OF f(2), of ds s2] show ?thesis
    by (auto simp: succeeds_def)
qed

lemma succeeds_nil: "succeeds (run_stages []) s 0 (ss_files s)"
  by (simp add: succeeds_def added_def)

lemma succeeds_append:
  assumes "succeeds (run_stages fs) s m fl" and "\<And>s' cs. added s cs s' \<Longrightarrow> length cs = m \<Longrightarrow> ss_files s' = fl \<Longrightarrow> succeeds (run_stages gs) s' n fl'"
  shows "succeeds (run_stages (fs @ gs)) s (m + n) fl'"
  using succeeds_next [of "run_stages fs" s m fl gs n fl'] assms by (simp add: succeeds_def run_stages_append)

lemma startable_added: "added s cs s' \<Longrightarrow> startable env fs rd (ss_sv s') = startable env fs rd (ss_sv s)"
  by (rule startable_settings) (simp add: added_def)

lemma workers_succeed:
  assumes "startable env (ss_files s) rd (ss_sv s)" "length (sv_children (ss_sv s)) + length ps \<le> 32"
    "\<forall>p \<in> set ps. p < pc_provider_count (sv_cfg (ss_sv s))" "finite (dom (wo_kernel (ss_world s)))"
  shows "succeeds (run_stages (map (start_worker env rd bd bi) ps)) s (length ps) (ss_files s)"
  using assms
proof (induction ps arbitrary: s)
  case Nil
  then show ?case by (simp add: succeeds_def added_def)
next
  case (Cons p ps)
  have "succeeds (start_worker env rd bd bi p) s 1 (ss_files s)"
    using Cons.prems by (intro worker_succeeds) simp_all
  then have "succeeds (run_stages (start_worker env rd bd bi p # map (start_worker env rd bd bi) ps)) s (1 + length ps) (ss_files s)"
  proof (rule succeeds_next)
    fix s' cs assume s': "added s cs s'" "length cs = 1" "ss_files s' = ss_files s"
    then show "succeeds (run_stages (map (start_worker env rd bd bi) ps)) s' (length ps) (ss_files s)"
      using Cons.IH [of s'] Cons.prems startable_added [OF s'(1)] added_fields(1) [OF s'(1)] by (simp add: added_def)
  qed
  then show ?case by (simp del: run_stages.simps)
qed

lemma side_succeeds:
  assumes "startable env (ss_files s) rd (ss_sv s)" "length (sv_children (ss_sv s)) \<le> 16" "n = pc_provider_count (sv_cfg (ss_sv s))"
    "finite (dom (wo_kernel (ss_world s)))"
  shows "succeeds (run_stages (start_side env rd bd digest n bi)) s (1 + n) (ss_files s)"
  unfolding start_side_def
proof (rule succeeds_next)
  show "succeeds (start_broker env rd bd digest bi) s 1 (ss_files s)"
    using assms by (intro broker_succeeds) simp_all
  fix s' cs assume s': "added s cs s'" "length cs = 1" "ss_files s' = ss_files s"
  have "n \<le> 8" using assms by (simp add: startable_def)
  then show "succeeds (run_stages (map (start_worker env rd bd bi) [0..<n])) s' n (ss_files s)"
    using workers_succeed [of env s' rd "[0..<n]" bd bi] assms s' startable_added [OF s'(1)] added_fields(1) [OF s'(1)]
    by (simp add: added_def)
qed


lemma pipeline_succeeds:
  assumes "startable env (procutil_clear_port_file rd (ascii ''gate'') (procutil_clear_port_file rd (ascii ''journal'') (ss_files s)))
      rd (ss_sv s)" (is "startable env ?fs rd _")
    and "sv_children (ss_sv s) = []" "n = pc_provider_count (sv_cfg (ss_sv s))" "finite (dom (wo_kernel (ss_world s)))"
  shows "succeeds (run_stages (pipeline_stages env rd bd digest n)) s (4 + 2 * n) ?fs"
proof -
  have n: "n \<le> 8" using assms by (simp add: startable_def)
  have sides: "succeeds (run_stages (start_side env rd bd digest n 0 @ start_side env rd bd digest n 1)) s' ((1 + n) + (1 + n)) ?fs"
    if s': "added s cs s'" "length cs = 2" "ss_files s' = ?fs" "finite (dom (wo_kernel (ss_world s')))" for s' cs
  proof (rule succeeds_append)
    have st: "startable env ?fs rd (ss_sv s')" "pc_provider_count (sv_cfg (ss_sv s')) = n" "length (sv_children (ss_sv s')) = 2"
      using assms s' startable_added [OF s'(1), of env ?fs rd] added_fields(1) [OF s'(1)] by (simp_all add: added_def)
    then show "succeeds (run_stages (start_side env rd bd digest n 0)) s' (1 + n) ?fs"
      using side_succeeds [of env s' rd n bd digest 0] s'(3,4) by simp
    fix s'' ds assume s'': "added s' ds s''" "length ds = 1 + n" "ss_files s'' = ?fs"
    have "startable env (ss_files s'') rd (ss_sv s'')"
      using st(1) startable_added [OF s''(1)] unfolding s''(3) by blast
    moreover have "length (sv_children (ss_sv s'')) \<le> 16"
      using st(3) s''(1,2) n by (simp add: added_def)
    moreover have "n = pc_provider_count (sv_cfg (ss_sv s''))"
      using st(2) added_fields(1) [OF s''(1)] by simp
    moreover have "finite (dom (wo_kernel (ss_world s'')))"
      using s'(4) s''(1) by (simp add: added_def)
    ultimately show "succeeds (run_stages (start_side env rd bd digest n 1)) s'' (1 + n) ?fs"
      using side_succeeds unfolding s''(3) [symmetric] by blast
  qed
  have "succeeds (run_stages (start_journal env rd bd # start_gate env rd bd digest #
      start_side env rd bd digest n 0 @ start_side env rd bd digest n 1)) s (1 + (1 + ((1 + n) + (1 + n)))) ?fs"
  proof (rule succeeds_next [OF journal_succeeds [OF assms(1)]])
    fix s1 cs assume s1: "added s cs s1" "length cs = 1"
      "ss_files s1 = procutil_clear_port_file rd (ascii ''journal'') (ss_files s)"
    show "succeeds (run_stages (start_gate env rd bd digest #
        start_side env rd bd digest n 0 @ start_side env rd bd digest n 1)) s1 (1 + ((1 + n) + (1 + n))) ?fs"
    proof (rule succeeds_next)
      have "startable env ?fs rd (ss_sv s1)"
        using assms(1) startable_added [OF s1(1)] by blast
      moreover have "length (sv_children (ss_sv s1)) < 32"
        using s1(1,2) assms(2) by (simp add: added_def)
      moreover have fin: "finite (dom (wo_kernel (ss_world s1)))"
        using assms(4) s1(1) by (simp add: added_def)
      ultimately show "succeeds (start_gate env rd bd digest) s1 1 ?fs"
        unfolding s1(3) [symmetric] by (rule gate_succeeds)
      fix s2 ds assume s2: "added s1 ds s2" "length ds = 1" "ss_files s2 = ?fs"
      have fin2: "finite (dom (wo_kernel (ss_world s2)))"
        using fin s2(1) by (simp add: added_def)
      have two: "length (cs @ ds) = 2" unfolding length_append s1(2) s2(2) by simp
      show "succeeds (run_stages (start_side env rd bd digest n 0 @ start_side env rd bd digest n 1)) s2 ((1 + n) + (1 + n)) ?fs"
        by (rule sides [OF added_trans [OF s1(1) s2(1)] two s2(3) fin2])
    qed
  qed (use assms(2,4) in simp_all)
  moreover have "1 + (1 + ((1 + n) + (1 + n))) = 4 + 2 * n" by simp
  ultimately show ?thesis
    by (simp only: pipeline_stages_def append.simps)
qed

lemma digest_length:
  assumes "pipeline_config_load path file = Some (Inr cfg)"
  shows "length (pc_config_digest cfg) = 32"
proof -
  obtain content where "file = Some content"
    using assms by (auto simp: pipeline_config_load_def split: option.splits)
  then show ?thesis
    using loaded_config_wf [of path content cfg] assms length_sha256_spec [of content] by (auto simp: sha256_is_spec)
qed

lemma start_outcome:
  assumes "pipeline_config_load config_path (fs config_path) = Some (Inr cfg)" "configured env config_path rd bd cfg = Some sv"
    "length (pc_config_digest cfg) \<le> 32" "startable env (start_files env rd fs) rd sv" "finite (dom (wo_kernel w))"
  shows "\<exists>s. supervisor_start env config_path rd bd w fs = Some (True, s) \<and>
    length (sv_children (ss_sv s)) = 4 + 2 * pc_provider_count cfg \<and> settings (ss_sv s) = settings sv"
proof -
  obtain out where out: "procutil_hex_encode (pc_config_digest cfg) (replicate 65 0) = Some out"
    using assms(3) by (auto simp: procutil_hex_encode_def)
  let ?s0 = "\<lparr>ss_sv = sv, ss_world = w, ss_files = snd (procutil_write_token_file (se_token_file env) rd (se_token env) fs)\<rparr>"
  have "succeeds (run_stages (pipeline_stages env rd bd (cstring out) (pc_provider_count cfg))) ?s0
      (4 + 2 * pc_provider_count cfg) (start_files env rd fs)"
    using pipeline_succeeds [of env rd ?s0 "pc_provider_count cfg"] assms(4,5) configured_fields [OF assms(2)]
    by (simp add: start_files_def)
  then obtain s cs where "run_stages (pipeline_stages env rd bd (cstring out) (pc_provider_count cfg)) ?s0 = Some (True, s)"
      "added ?s0 cs s" "length cs = 4 + 2 * pc_provider_count cfg"
    by (auto simp: succeeds_def)
  then show ?thesis
    using assms(1,2) out configured_fields(2) [OF assms(2)]
    by (auto simp: supervisor_start_def Let_def added_def settings_def)
qed

text \<open>A start of the example pipeline, which has one provider.\<close>

definition free_number :: fork where
  "free_number k = (if \<exists>pid. k pid = None then Some (LEAST pid. k pid = None) else None)"

lemma free_number_laws: "lawful_fork free_number" "finite (dom k) \<Longrightarrow> free_number k \<noteq> None"
proof -
  show "lawful_fork free_number"
    by (auto simp: lawful_fork_def free_number_def intro: LeastI split: if_splits)
  show "free_number k \<noteq> None" if "finite (dom k)"
    using ex_new_if_finite [OF infinite_UNIV_nat that] by (auto simp: free_number_def)
qed

definition example_start :: start_env where
  "example_start = \<lparr>se_token = replicate 32 7, se_token_file = good_env, se_spawn = (\<lambda>i. (free_number, 0)),
     se_polled = (\<lambda>_ _ _. Some (int_text 5000)), se_python = None, se_path = None, se_source_dir = None,
     se_libdir = [], se_lib_name = [], se_end_time = 0\<rparr>"

definition example_files :: files where
  "example_files = [ascii ''/c'' \<mapsto> sample_config]"

lemma example_port_found:
  assumes "port_file_path example_dir (ascii name) \<noteq> None"
  shows "procutil_read_port_file example_dir (ascii name) 5000 (se_polled example_start name) \<noteq> None"
proof -
  have "read_port_loop (\<lambda>_. Some (int_text 5000)) 5000 0 0 = Some 5000"
    by (rule read_port_loop_finds [of 0]) simp_all
  then show ?thesis
    using assms by (auto simp: procutil_read_port_file_def example_start_def)
qed

lemma example_ports: "port_file_path example_dir (ascii ''journal'') \<noteq> None" "port_file_path example_dir (ascii ''gate'') \<noteq> None"
  by (simp_all add: port_file_path_def file_path_def snprintf_def example_dir_def ascii_def)

lemma example_manifest_missing: "start_files example_start example_dir example_files (ascii ''/providers/m'') = None"
  by (simp add: start_files_def procutil_clear_port_file_def procutil_write_token_file_def replace_file_def
      osal_file_atomic_replace_def token_path_def port_file_path_def file_path_def snprintf_def example_dir_def
      example_start_def good_env_def example_files_def ascii_def Let_def)

lemma c_str_fixed: "length s < cap \<Longrightarrow> 0 \<notin> set (ascii s) \<Longrightarrow> c_str (fixed_string cap s) = Some (ascii s)"
proof -
  assume "length s < cap" "0 \<notin> set (ascii s)"
  moreover have "takeWhile (\<lambda>b. b \<noteq> 0) (t @ 0 # rest) = t" if "0 \<notin> set t" for t rest :: bytes
    using that by (auto simp: takeWhile_tail)
  moreover have "fixed_string cap s = ascii s @ 0 # replicate (cap - Suc (length s)) 0" if "length s < cap"
    using that by (simp add: fixed_string_def memcpy_def ascii_def Suc_diff_Suc flip: replicate_Suc)
  ultimately show ?thesis
    by (simp add: c_str_def cstring_def)
qed

lemma configured_example:
  assumes "fs (ascii ''/c'') = Some sample_config"
    and "provider_manifest_language (start_files example_start example_dir fs) (ascii ''/providers/m'') = 0"
  shows "\<exists>cfg sv. pipeline_config_load (ascii ''/c'') (fs (ascii ''/c'')) = Some (Inr cfg) \<and>
     configured example_start (ascii ''/c'') example_dir example_dir cfg = Some sv \<and> pc_provider_count cfg = 1 \<and>
     startable example_start (start_files example_start example_dir fs) example_dir sv"
proof -
  obtain cfg where cfg: "pipeline_config_load (ascii ''/c'') (Some sample_config) = Some (Inr cfg)"
    "pc_pipeline_id cfg = fixed_string 32 ''default''" "pc_manifests_dir cfg = fixed_string 512 ''providers''"
    "pc_provider_count cfg = 1" "pr_manifest (pc_providers cfg ! 0) = fixed_string 512 ''m''"
    "pr_worker_name (pc_providers cfg ! 0) = replicate 64 0"
    using sample_fields by blast
  have "wf_config cfg"
    using loaded_config_wf [OF cfg(1)] by simp
  then have csv: "c_str (pc_sensor_ids_csv cfg) \<noteq> None"
    by (simp add: wf_config_def c_str_def)
  have dir: "c_str (pc_manifests_dir cfg) = Some (ascii ''providers'')"
    "resolved_manifests_dir (ascii ''/c'') (ascii ''providers'') = ascii ''/providers''"
    by (simp_all add: cfg(3) c_str_fixed ascii_def resolved_manifests_dir_def dirname_of_def before_last_def is_slash_def
        snprintf_def strncpy_str_def)
  obtain token where "procutil_hex_encode (se_token example_start) (replicate 65 0) = Some token"
    by (simp add: procutil_hex_encode_def example_start_def)
  with dir obtain sv where sv: "configured example_start (ascii ''/c'') example_dir example_dir cfg = Some sv"
      "sv_cfg sv = cfg\<lparr>pc_manifests_dir := fixed_string 512 ''/providers''\<rparr>"
    by (auto simp: configured_def fixed_string_def memcpy_def Let_def)
  have dir': "c_str (fixed_string 512 ''/providers'') = Some (ascii ''/providers'')"
    "c_str (fixed_string 512 ''m'') = Some (ascii ''m'')" "c_str (fixed_string 32 ''default'') \<noteq> None"
    by (simp_all add: c_str_fixed ascii_def)
  have path: "ascii ''/providers'' @ SLASH # ascii ''m'' = ascii ''/providers/m''"
    by (simp add: ascii_def)
  have "provider_startable example_start (start_files example_start example_dir fs) (ascii ''/providers'')
      (pc_providers cfg ! 0)"
    unfolding provider_startable_def cfg(5,6) dir'
    by (intro exI [of _ "ascii ''m''"] exI [of _ "[]"])
      (simp only: path, simp add: assms(2) c_str_def cstring_def,
        simp add: ascii_def)
  then have "startable example_start (start_files example_start example_dir fs) example_dir sv"
    using csv dir'(1,3) example_port_found [OF example_ports(1)] example_port_found [OF example_ports(2)] cfg(2,4)
      free_number_laws(2) by (simp add: startable_def sv(2) example_start_def)
  then show ?thesis
    using cfg(1,4) sv(1) assms(1) by auto
qed

lemma example_configured:
  "\<exists>cfg sv. pipeline_config_load (ascii ''/c'') (example_files (ascii ''/c'')) = Some (Inr cfg) \<and>
     configured example_start (ascii ''/c'') example_dir example_dir cfg = Some sv \<and> pc_provider_count cfg = 1 \<and>
     startable example_start (start_files example_start example_dir example_files) example_dir sv"
proof (rule configured_example)
  show "provider_manifest_language (start_files example_start example_dir example_files) (ascii ''/providers/m'') = 0"
    unfolding provider_manifest_language_def example_manifest_missing by simp
qed (simp add: example_files_def)

lemma started_pipeline:
  assumes "supervisor_start env config_path runtime_dir bin_dir w fs = Some (True, s)"
  shows "\<exists>cfg sv. pipeline_config_load config_path (fs config_path) = Some (Inr cfg) \<and>
    configured env config_path runtime_dir bin_dir cfg = Some sv \<and> settings (ss_sv s) = settings sv \<and>
    pipeline_runs runtime_dir bin_dir (hex_text (pc_config_digest cfg)) (ss_sv s) (sv_children (ss_sv s))"
proof -
  obtain cfg where cfg: "pipeline_config_load config_path (fs config_path) = Some (Inr cfg)"
    using assms by (auto simp: supervisor_start_def split: bind_splits sum.splits)
  obtain sv where sv: "configured env config_path runtime_dir bin_dir cfg = Some sv"
    using assms cfg by (auto simp: supervisor_start_def split: bind_splits)
  obtain out where out: "procutil_hex_encode (pc_config_digest cfg) (replicate 65 0) = Some out"
    using assms cfg sv by (auto simp: supervisor_start_def split: bind_splits)
  let ?s0 = "\<lparr>ss_sv = sv, ss_world = w,
    ss_files = snd (procutil_write_token_file (se_token_file env) runtime_dir (se_token env) fs)\<rparr>"
  obtain s1 where run: "run_stages (pipeline_stages env runtime_dir bin_dir (hex_text (pc_config_digest cfg))
        (pc_provider_count cfg)) ?s0 = Some (True, s1)"
    and s: "s = s1\<lparr>ss_sv := (ss_sv s1)\<lparr>sv_started_at_ns := se_end_time env\<rparr>\<rparr>"
    using assms cfg sv out cstring_hex [OF out]
    by (auto simp: supervisor_start_def Let_def split: bind_splits if_splits)
  obtain cs where cs: "added ?s0 cs s1" "pipeline_runs runtime_dir bin_dir (hex_text (pc_config_digest cfg)) (ss_sv s1) cs"
    using pipeline_stages_run [OF run] configured_fields(3) [OF sv] by auto
  have "pipeline_runs runtime_dir bin_dir (hex_text (pc_config_digest cfg)) (ss_sv s) cs"
    using cs(2) s by (subst pipeline_runs_stable [of _ "ss_sv s1"]) (simp_all add: settings_def)
  moreover have "settings (ss_sv s) = settings sv" "sv_children (ss_sv s) = cs"
    using cs(1) s configured_fields(2) [OF sv] by (simp_all add: added_def settings_def)
  ultimately show ?thesis
    using cfg sv by blast
qed

lemma example_start_runs:
  "\<exists>s. supervisor_start example_start (ascii ''/c'') example_dir example_dir \<lparr>wo_kernel = Map.empty, wo_signals = []\<rparr>
     example_files = Some (True, s)"
proof -
  obtain cfg sv where ok: "pipeline_config_load (ascii ''/c'') (example_files (ascii ''/c'')) = Some (Inr cfg)"
    "configured example_start (ascii ''/c'') example_dir example_dir cfg = Some sv"
    "startable example_start (start_files example_start example_dir example_files) example_dir sv"
    using example_configured by blast
  then show ?thesis
    using start_outcome [OF ok(1,2) digest_length [OF ok(1), THEN eq_imp_le] ok(3), of "\<lparr>wo_kernel = Map.empty, wo_signals = []\<rparr>"] by auto
qed



text \<open>
  a start returns 0, with four processes and two workers per provider, whenever the configuration loads and
  its strings end, every spawn succeeds, the journal and the gate report their ports in time, and an interpreter
  is found for every provider written in Python. Neither the table of children nor a command line ever overflows.
\<close>

theorem start_succeeds:
  assumes "pipeline_config_load config_path (fs config_path) = Some (Inr cfg)"
    and "configured env config_path runtime_dir bin_dir cfg = Some sv"
    and "startable env (start_files env runtime_dir fs) runtime_dir sv" and "finite (dom (wo_kernel w))"
  shows "\<exists>s. supervisor_start env config_path runtime_dir bin_dir w fs = Some (True, s) \<and>
    length (sv_children (ss_sv s)) = 4 + 2 * pc_provider_count cfg \<and> settings (ss_sv s) = settings sv"
  by (rule start_outcome [OF assms(1,2) digest_length [OF assms(1), THEN eq_imp_le] assms(3,4)])

theorem start_succeeds_witness:
  "\<exists>s. supervisor_start example_start (ascii ''/c'') example_dir example_dir \<lparr>wo_kernel = Map.empty, wo_signals = []\<rparr>
     example_files = Some (True, s) \<and> length (sv_children (ss_sv s)) = 6"
proof -
  obtain cfg sv where ok: "pipeline_config_load (ascii ''/c'') (example_files (ascii ''/c'')) = Some (Inr cfg)"
    "configured example_start (ascii ''/c'') example_dir example_dir cfg = Some sv" "pc_provider_count cfg = 1"
    "startable example_start (start_files example_start example_dir example_files) example_dir sv"
    using example_configured by blast
  then show ?thesis
    using start_succeeds [OF ok(1,2,4), of "\<lparr>wo_kernel = Map.empty, wo_signals = []\<rparr>"] by auto
qed

end
