(* ===== verification/Supervisor_Run.thy ===== *)
theory Supervisor_Run
  imports Supervisor
begin

text \<open>
  Runs of the supervisor: after a start, successful or not, any sequence of monitoring ticks, kills,
  suspensions, resumptions and stops, between which children end. The laws: every signal reaches a child of
  the supervisor's own, restarts are bounded, and a child that was stopped stays stopped.
\<close>

section \<open>Steps\<close>

definition lawful_child :: "child_env \<Rightarrow> bool" where
  "lawful_child ce \<longleftrightarrow> lawful (ce_before ce) \<and> (\<forall>k. lawful (ce_wait ce k)) \<and> lawful_fork (fst (ce_spawn ce))"

inductive supervisor_step :: "supervisor \<times> world \<Rightarrow> supervisor \<times> world \<Rightarrow> bool" where
  time_passes: "lawful mv \<Longrightarrow> supervisor_step (sv, w) (sv, moved mv w)"
| tick: "(\<And>i. lawful_child (envs i)) \<Longrightarrow> supervisor_step (sv, w) (supervisor_monitor_tick now envs sv w)"
| kill: "supervisor_step (sv, w) (sv, snd (supervisor_kill_child name sv w))"
| suspend: "supervisor_step (sv, w) (snd (supervisor_kill_child_and_suspend name sv w))"
| resume: "supervisor_step (sv, w) (supervisor_resume_child name now sv, w)"
| stop: "lawful pause \<Longrightarrow> (\<And>i k. lawful (mvs i k)) \<Longrightarrow> supervisor_step (sv, w) (supervisor_stop_all pause mvs sv w)"

inductive supervisor_reachable :: "supervisor \<times> world \<Rightarrow> bool" where
  started: "\<lbrakk>supervisor_start env config_path runtime_dir bin_dir w fs = Some (ok, s); \<And>i. lawful_fork (fst (se_spawn env i));
     wo_signals w = []\<rbrakk> \<Longrightarrow> supervisor_reachable (ss_sv s, ss_world s)"
| step: "\<lbrakk>supervisor_reachable sw; supervisor_step sw sw'\<rbrakk> \<Longrightarrow> supervisor_reachable sw'"

section \<open>Signals reach the supervisor's own children\<close>

text \<open>The processes of a child, and what is true of a child and of the others while it is handled.\<close>

definition pids :: "child_proc \<Rightarrow> nat set" where
  "pids c = (case ch_proc c of None \<Rightarrow> {} | Some p \<Rightarrow> {op_pid p})"

definition held :: "child_proc \<Rightarrow> world \<Rightarrow> bool" where
  "held c w \<longleftrightarrow> (\<forall>p. ch_proc c = Some p \<longrightarrow> \<not> op_reaped p \<and> wo_kernel w (op_pid p) \<noteq> None)"

definition keeps :: "child_proc \<Rightarrow> world \<Rightarrow> child_proc \<Rightarrow> world \<Rightarrow> bool" where
  "keeps c w c' w' \<longleftrightarrow> (held c w \<longrightarrow>
     held c' w' \<and> (all_hit w \<longrightarrow> all_hit w') \<and>
     (\<forall>pid. pid \<notin> pids c \<longrightarrow> wo_kernel w pid \<noteq> None \<longrightarrow> pid \<notin> pids c' \<and> wo_kernel w' pid \<noteq> None))"

primrec all_held :: "child_proc list \<Rightarrow> world \<Rightarrow> bool" where
  "all_held [] w = True"
| "all_held (c # cs) w \<longleftrightarrow> held c w \<and> (\<forall>d \<in> set cs. pids c \<inter> pids d = {}) \<and> all_held cs w"

lemma keeps_refl: "keeps c w c w"
  by (simp add: keeps_def)

lemma keeps_trans: "keeps c w c1 w1 \<Longrightarrow> keeps c1 w1 c' w' \<Longrightarrow> keeps c w c' w'"
  by (simp add: keeps_def)

lemma held_pids: "held c w \<Longrightarrow> pid \<in> pids c \<Longrightarrow> wo_kernel w pid \<noteq> None"
  by (auto simp: held_def pids_def split: option.splits)

lemma all_held_member: "all_held cs w \<Longrightarrow> c \<in> set cs \<Longrightarrow> held c w"
  by (induction cs) auto

lemma all_held_moves:
  assumes "all_held cs w" "\<And>c pid. c \<in> set cs \<Longrightarrow> pid \<in> pids c \<Longrightarrow> wo_kernel w' pid \<noteq> None"
  shows "all_held cs w'"
  using assms
proof (induction cs)
  case (Cons c cs)
  have "wo_kernel w' (op_pid p) \<noteq> None" if "ch_proc c = Some p" for p
    using Cons.prems(2) [of c "op_pid p"] that by (simp add: pids_def)
  then have "held c w'" using Cons.prems(1) by (auto simp: held_def)
  moreover have "all_held cs w'"
    using Cons.prems by (intro Cons.IH) auto
  ultimately show ?case using Cons.prems(1) by simp
qed simp

lemma all_held_kernel:
  assumes "all_held cs w" "\<And>pid. wo_kernel w pid \<noteq> None \<Longrightarrow> wo_kernel w' pid \<noteq> None"
  shows "all_held cs w'"
  using assms(1) by (rule all_held_moves) (rule assms(2), rule held_pids [OF all_held_member [OF assms(1)]])

lemma all_held_procs: "map ch_proc cs = map ch_proc ds \<Longrightarrow> all_held cs w = all_held ds w"
proof (induction cs arbitrary: ds)
  case (Cons c cs)
  then obtain d ds' where ds: "ds = d # ds'" "ch_proc c = ch_proc d" "map ch_proc cs = map ch_proc ds'"
    by (cases ds) auto
  have "map pids cs = map pids ds'"
    using arg_cong [OF ds(3), of "map (case_option {} (\<lambda>p. {op_pid p}))"] by (simp add: pids_def [abs_def] o_def)
  then have "pids ` set cs = pids ` set ds'" by (metis list.set_map)
  then have "(\<forall>e \<in> set cs. pids c \<inter> pids e = {}) \<longleftrightarrow> (\<forall>e \<in> set ds'. pids c \<inter> pids e = {})"
    by (metis (no_types, lifting) image_iff)
  moreover have "pids c = pids d" "held c w = held d w" using ds(2) by (simp_all add: pids_def held_def)
  ultimately show ?case using Cons.IH [OF ds(3)] ds(1) by simp
qed simp

lemma each_child_keeps:
  assumes "\<And>i c w c' w'. f i c w = (c', w') \<Longrightarrow> keeps c w c' w'"
    and "each_child f i cs w = (cs', w')" "all_held cs w" "all_hit w"
  shows "all_held cs' w' \<and> all_hit w' \<and>
    (\<forall>pid. wo_kernel w pid \<noteq> None \<longrightarrow> (\<forall>c \<in> set cs. pid \<notin> pids c) \<longrightarrow>
       wo_kernel w' pid \<noteq> None \<and> (\<forall>c \<in> set cs'. pid \<notin> pids c))"
  using assms(2-4)
proof (induction cs arbitrary: i w cs')
  case (Cons c cs)
  obtain c1 w1 where c1: "f i c w = (c1, w1)" by (cases "f i c w")
  obtain cs1 where cs1: "each_child f (i + 1) cs w1 = (cs1, w')" "cs' = c1 # cs1"
    using Cons.prems(1) c1 by (cases "each_child f (i + 1) cs w1") auto
  note k = assms(1) [OF c1, unfolded keeps_def]
  have others: "pid \<notin> pids c1 \<and> wo_kernel w1 pid \<noteq> None" if "d \<in> set cs" "pid \<in> pids d" for d pid
    using k Cons.prems(2) that held_pids [OF all_held_member [of cs w d] that(2)] by auto
  then have "all_held cs w1"
    using Cons.prems(2) by (auto intro: all_held_moves)
  then have ih: "all_held cs1 w' \<and> all_hit w' \<and> (\<forall>pid. wo_kernel w1 pid \<noteq> None \<longrightarrow> (\<forall>c \<in> set cs. pid \<notin> pids c) \<longrightarrow>
       wo_kernel w' pid \<noteq> None \<and> (\<forall>c \<in> set cs1. pid \<notin> pids c))"
    using Cons.IH [OF cs1(1)] k Cons.prems(2,3) by simp
  have c1_held: "held c1 w1" using k Cons.prems(2) by simp
  have "\<forall>pid \<in> pids c1. wo_kernel w' pid \<noteq> None \<and> (\<forall>d \<in> set cs1. pid \<notin> pids d)"
    using ih others held_pids [OF c1_held] by blast
  then have "held c1 w'" "\<forall>d \<in> set cs1. pids c1 \<inter> pids d = {}"
    using c1_held by (auto simp: held_def pids_def)
  then show ?case
    using ih k Cons.prems(2) cs1(2) by auto
qed simp

lemma drop_keeps:
  assumes "ch_proc c = Some p" "ch_proc c' = None" "only (op_pid p) w w'" "held c w \<Longrightarrow> all_hit w \<Longrightarrow> all_hit w'"
  shows "keeps c w c' w'"
  using assms by (auto simp: keeps_def held_def pids_def only_def)

lemma all_hit_same: "wo_signals w' = wo_signals w \<Longrightarrow> all_hit w' = all_hit w"
  by (simp add: all_hit_def)

lemma wait_and_close:
  assumes "osal_process_wait mvs timeout_ms p w = (r, p', w')" "\<And>k. lawful (mvs k)"
  shows "only (op_pid p) w (osal_process_close (Some p') w')" "wo_signals (osal_process_close (Some p') w') = wo_signals w"
proof -
  have laws: "only (op_pid p) w w'" "wo_signals w' = wo_signals w" "op_pid p' = op_pid p"
    using wait_laws [of mvs p w timeout_ms] assms by (auto simp: wait_law_def)
  show "only (op_pid p) w (osal_process_close (Some p') w')"
    using only_trans [OF laws(1)] close_laws(1) [of p' w'] laws(3) by simp
  show "wo_signals (osal_process_close (Some p') w') = wo_signals w"
    using close_laws(2) [of p' w'] laws(2) by simp
qed

lemma spawn_child_keeps:
  assumes "spawn_child sp c w = (ok, c', w')" "ch_proc c = None" "lawful_fork (fst sp)"
  shows "keeps c w c' w'"
proof -
  obtain proc w1 where s: "osal_process_spawn (fst sp) w = (proc, w1)" by (cases "osal_process_spawn (fst sp) w")
  note laws = spawn_laws(1-3) [OF s] spawn_laws(4) [OF s]
  show ?thesis
    using assms laws s all_hit_same [of w1 w]
    by (cases proc) (auto simp: spawn_child_def keeps_def held_def pids_def)
qed

lemma keeps_proc: "ch_proc d = ch_proc c \<Longrightarrow> ch_proc d' = ch_proc c' \<Longrightarrow> keeps d w d' w' = keeps c w c' w'"
  by (simp add: keeps_def held_def pids_def)

lemma restart_keeps:
  assumes "restart_child now sp c w = (r, c', w')" "ch_proc c = None" "lawful_fork (fst sp)"
  shows "keeps c w c' w'"
proof -
  define c1 where "c1 = (if sint (now - ch_window_start_ns c) > 60000000000
    then c\<lparr>ch_restart_count := 0, ch_window_start_ns := now\<rparr> else c)"
  have c1: "ch_proc c1 = ch_proc c" by (simp add: c1_def)
  consider "w' = w" "ch_proc c' = ch_proc c"
    | ok where "spawn_child sp (c1\<lparr>ch_restart_count := ch_restart_count c1 + 1\<rparr>) w = (ok, c', w')"
    using assms(1) c1 unfolding restart_child_def Let_def c1_def [symmetric]
    by (cases "spawn_child sp (c1\<lparr>ch_restart_count := ch_restart_count c1 + 1\<rparr>) w") (auto split: if_splits)
  then show ?thesis
  proof cases
    case 1
    then show ?thesis using keeps_refl [of c w] keeps_proc by blast
  next
    case 2
    have "keeps (c1\<lparr>ch_restart_count := ch_restart_count c1 + 1\<rparr>) w c' w'"
      using spawn_child_keeps [OF 2] assms(2,3) c1 by simp
    then show ?thesis using keeps_proc [of "c1\<lparr>ch_restart_count := ch_restart_count c1 + 1\<rparr>" c c' c'] c1 by simp
  qed
qed

lemma moved_keeps: "lawful mv \<Longrightarrow> keeps c w c (moved mv w)"
  using lawful_None [of mv "wo_kernel w"] by (auto simp: keeps_def held_def pids_def moved_def all_hit_def)

lemma monitor_child_keeps:
  assumes "monitor_child runtime_dir now ce c w = (r, c', w')" "lawful_child ce"
  shows "keeps c w c' w'"
proof (cases "ch_proc c")
  case None
  then show ?thesis using assms(1) keeps_refl by (simp add: monitor_child_def)
next
  case (Some p)
  obtain dead p1 w1 where reap: "reap_nonblocking p (moved (ce_before ce) w) = (dead, p1, w1)"
    by (cases "reap_nonblocking p (moved (ce_before ce) w)")
  let ?hung = "\<not> dead \<and> appears_hung runtime_dir now ce c"
  define w2 where "w2 = (if ?hung then osal_process_kill p1 w1 else w1)"
  obtain code p3 w3 where wait: "osal_process_wait (ce_wait ce) (if ?hung then 2000 else 500) p1 w2 = (code, p3, w3)"
    by (cases "osal_process_wait (ce_wait ce) (if ?hung then 2000 else 500) p1 w2")
  have lawful: "lawful (ce_before ce)" "\<And>k. lawful (ce_wait ce k)" "lawful_fork (fst (ce_spawn ce))"
    using assms(2) by (simp_all add: lawful_child_def)
  note laws = reap_laws [OF reap] 
  note before = moved_laws(1) [OF lawful(1), of "op_pid p" w] moved_laws(2) [OF lawful(1), of p w] moved_laws(3) [OF lawful(1), of w]
  have near: "only (op_pid p) w w1"
    using only_trans [OF before(1) laws(1)] .
  have alive: "op_pid p1 = op_pid p" "wo_signals w1 = wo_signals w"
    "held c w \<Longrightarrow> \<not> dead \<Longrightarrow> \<not> op_reaped p1 \<and> wo_kernel w1 (op_pid p) \<noteq> None"
    using laws before(2,3) Some by (auto simp: held_def sound_handle_def)
  show ?thesis
  proof (cases "dead \<or> ?hung")
    case False
    then have "c' = c\<lparr>ch_proc := Some p1\<rparr>" "w' = w1"
      using assms(1) Some reap by (auto simp: monitor_child_def osal_process_is_alive_def Let_def)
    then show ?thesis
      using near alive False Some all_hit_same [of w1 w] by (auto simp: keeps_def held_def pids_def only_def)
  next
    case True
    let ?w4 = "osal_process_close (Some p3) w3" and ?c = "c\<lparr>ch_proc := None\<rparr>"
    have rest: "restart_child now (ce_spawn ce) ?c ?w4 = (r, c', w')"
      using assms(1) Some reap True wait w2_def
      by (auto simp: monitor_child_def osal_process_is_alive_def Let_def split: if_splits)
    have w2: "only (op_pid p) w1 w2" "held c w \<Longrightarrow> all_hit w \<Longrightarrow> all_hit w2"
      using alive signal_laws(1) [of "op_pid p" w1] signal_laws(3) [of SIGKILL "op_pid p1" w1] all_hit_same [of w1 w]
      by (auto simp: w2_def osal_process_kill_def)
    note close = wait_and_close [OF wait lawful(2)]
    have "only (op_pid p) w ?w4"
      using only_trans [OF only_trans [OF near w2(1)]] close(1) alive(1) by simp
    then have "keeps c w ?c ?w4"
      using Some w2(2) all_hit_same [OF close(2)] by (intro drop_keeps) auto
    then show ?thesis
      using keeps_trans restart_keeps [OF rest _ lawful(3)] by simp
  qed
qed

lemma stop_child_keeps:
  assumes "stop_child mvs c w = (c', w')" "\<And>k. lawful (mvs k)"
  shows "keeps c w c' w'"
proof (cases "ch_proc c")
  case None
  then show ?thesis
    using assms(1) keeps_refl [of c w] keeps_proc [of c c c' c] by (auto simp: stop_child_def)
next
  case (Some p)
  obtain code p3 w3 where wait: "osal_process_wait mvs 2000 p (osal_process_kill p w) = (code, p3, w3)"
    by (cases "osal_process_wait mvs 2000 p (osal_process_kill p w)")
  note close = wait_and_close [OF wait assms(2)]
  have "c' = c\<lparr>ch_proc := None, ch_argv := []\<rparr>" "w' = osal_process_close (Some p3) w3"
    using assms(1) Some wait by (auto simp: stop_child_def)
  then show ?thesis
    using Some only_trans [OF signal_laws(1) close(1) [unfolded osal_process_kill_def]]
      signal_laws(3) [of SIGKILL "op_pid p" w] all_hit_same [OF close(2)]
    by (intro drop_keeps) (auto simp: osal_process_kill_def held_def)
qed

definition good :: "supervisor \<times> world \<Rightarrow> bool" where
  "good sw \<longleftrightarrow> all_held (sv_children (fst sw)) (snd sw) \<and> all_hit (snd sw)"

lemma all_held_append:
  "all_held (cs @ [c]) w \<longleftrightarrow> all_held cs w \<and> held c w \<and> (\<forall>d \<in> set cs. pids d \<inter> pids c = {})"
  by (induction cs) auto

section \<open>Invariants of the start\<close>

text \<open>
  A predicate that launching a child keeps, and that depends on the children only, holds after every start, however
  far it gets.
\<close>

locale start_invariant =
  fixes env :: start_env and P :: "supervisor \<times> world \<Rightarrow> bool"
  assumes launched: "launch env name exe argv wk s = (ok, s') \<Longrightarrow> P (ss_sv s, ss_world s) \<Longrightarrow> P (ss_sv s', ss_world s')"
    and same_children: "P (sv, w) \<Longrightarrow> sv_children sv' = sv_children sv \<Longrightarrow> P (sv', w)"
begin

definition stage_keeps :: "stage \<Rightarrow> bool" where
  "stage_keeps f \<longleftrightarrow> (\<forall>s ok s'. f s = Some (ok, s') \<longrightarrow> P (ss_sv s, ss_world s) \<longrightarrow> P (ss_sv s', ss_world s'))"

lemma stages_keep:
  "stage_keeps (start_journal env rd bd)" "stage_keeps (start_gate env rd bd digest)"
  "stage_keeps (start_broker env rd bd digest bi)" "stage_keeps (start_worker env rd bd bi p)"
proof -
  show "stage_keeps (start_journal env rd bd)"
    unfolding stage_keeps_def start_journal_def Let_def
    by (auto split: bind_splits prod.splits if_splits option.splits dest!: launched intro: same_children)
  show "stage_keeps (start_gate env rd bd digest)"
    unfolding stage_keeps_def start_gate_def Let_def
    by (auto split: bind_splits prod.splits if_splits option.splits dest!: launched intro: same_children)
  show "stage_keeps (start_broker env rd bd digest bi)"
    unfolding stage_keeps_def start_broker_def Let_def
    by (auto split: bind_splits dest!: launched)
  show "stage_keeps (start_worker env rd bd bi p)"
    unfolding stage_keeps_def start_worker_def Let_def
    by (auto split: bind_splits prod.splits if_splits option.splits dest!: launched)
qed

lemma run_stages_keep: "list_all stage_keeps fs \<Longrightarrow> stage_keeps (run_stages fs)"
proof (induction fs)
  case Nil
  show ?case by (simp add: stage_keeps_def)
next
  case (Cons f fs)
  then have "stage_keeps f" "stage_keeps (run_stages fs)" by simp_all
  then show ?case
    unfolding stage_keeps_def by (auto split: option.splits prod.splits bool.splits)
qed

lemma after_start:
  assumes "supervisor_start env config_path rd bd w fs = Some (ok, s)" "\<And>sv. sv_children sv = [] \<Longrightarrow> P (sv, w)"
  shows "P (ss_sv s, ss_world s)"
proof -
  have keep: "stage_keeps (run_stages (pipeline_stages env rd bd digest n))" for digest n
    using stages_keep by (intro run_stages_keep) (auto simp: pipeline_stages_def start_side_def list_all_iff)
  show ?thesis
  proof (cases "\<exists>msg. pipeline_config_load config_path (fs config_path) = Some (Inl msg)")
    case True
    then show ?thesis
      using assms by (auto simp: supervisor_start_def zero_supervisor_def)
  next
    case False
    then obtain cfg sv digest fs' s1 where sv: "configured env config_path rd bd cfg = Some sv"
      and run: "run_stages (pipeline_stages env rd bd digest (pc_provider_count cfg))
        \<lparr>ss_sv = sv, ss_world = w, ss_files = fs'\<rparr> = Some (ok, s1)"
      and s: "sv_children (ss_sv s) = sv_children (ss_sv s1)" "ss_world s = ss_world s1"
      using assms(1) by (auto simp: supervisor_start_def Let_def split: bind_splits sum.splits)
    show ?thesis
      using keep [unfolded stage_keeps_def] run assms(2) [OF configured_fields(2) [OF sv]] same_children [OF _ s(1)] s(2)
      by fastforce
  qed
qed

end

lemma launch_keeps:
  assumes "launch env name exe argv wk s = (ok, s')" "\<And>i. lawful_fork (fst (se_spawn env i))" "good (ss_sv s, ss_world s)"
  shows "good (ss_sv s', ss_world s')"
proof (cases "add_child name exe argv wk (ss_sv s)")
  case None
  then show ?thesis using assms by (auto simp: launch_def)
next
  case (Some sv)
  then obtain c where sv: "sv_children sv = sv_children (ss_sv s) @ [c]" "ch_proc c = None"
    by (auto simp: add_child_def set_argv_def Let_def split: if_splits)
  let ?i = "length (sv_children (ss_sv s))"
  obtain c' w' where spawn: "spawn_child (se_spawn env ?i) c (ss_world s) = (ok, c', w')"
    and s': "sv_children (ss_sv s') = sv_children (ss_sv s) @ [c']" "ss_world s' = w'"
    using assms(1) Some sv by (auto simp: launch_def Let_def split: prod.splits)
  have k: "held c' w'" "all_hit w'"
    "\<And>pid. wo_kernel (ss_world s) pid \<noteq> None \<Longrightarrow> pid \<notin> pids c' \<and> wo_kernel w' pid \<noteq> None"
    using spawn_child_keeps [OF spawn sv(2) assms(2)] sv(2) assms(3)
    by (auto simp: keeps_def held_def pids_def good_def)
  have others: "pid \<notin> pids c' \<and> wo_kernel w' pid \<noteq> None" if "d \<in> set (sv_children (ss_sv s))" "pid \<in> pids d" for d pid
    using k(3) [of pid] held_pids [OF all_held_member [of _ "ss_world s"] that(2)] that(1) assms(3)
    by (auto simp: good_def)
  then have "all_held (sv_children (ss_sv s)) w'"
    using assms(3) by (auto simp: good_def intro: all_held_moves)
  then show ?thesis
    using k(1,2) others s' by (auto simp: good_def all_held_append)
qed

definition lawful_start :: "start_env \<Rightarrow> bool" where
  "lawful_start env \<longleftrightarrow> (\<forall>i. lawful_fork (fst (se_spawn env i)))"

interpretation start_keeps: start_invariant env "\<lambda>sw. lawful_start env \<longrightarrow> good sw" for env
proof
  fix name exe argv wk s ok s'
  assume "launch env name exe argv wk s = (ok, s')" "lawful_start env \<longrightarrow> good (ss_sv s, ss_world s)"
  then show "lawful_start env \<longrightarrow> good (ss_sv s', ss_world s')"
    using launch_keeps [of env name exe argv wk s ok s'] by (auto simp: lawful_start_def)
qed (simp add: good_def)

lemma start_good:
  assumes "supervisor_start env config_path rd bd w fs = Some (ok, s)" "\<And>i. lawful_fork (fst (se_spawn env i))" "wo_signals w = []"
  shows "good (ss_sv s, ss_world s)"
  using start_keeps.after_start [OF assms(1)] assms(2,3) by (simp add: lawful_start_def good_def all_hit_def)

text \<open>The operations.\<close>

lemma each_child_good:
  assumes "each_child f 0 (sv_children sv) w = (cs, w')" "\<And>i c w c' w'. f i c w = (c', w') \<Longrightarrow> keeps c w c' w'" "good (sv, w)"
  shows "good (sv\<lparr>sv_children := cs\<rparr>, w')"
  using each_child_keeps [OF assms(2,1)] assms(3) by (simp add: good_def)

lemma moved_good: "lawful mv \<Longrightarrow> good (sv, w) \<Longrightarrow> good (sv, moved mv w)"
  using lawful_None [of mv "wo_kernel w"] all_held_kernel [of "sv_children sv" w "moved mv w"]
  by (auto simp: good_def all_hit_def moved_def)

lemma kill_good:
  assumes "good (sv, w)" "c \<in> set (sv_children sv)" "ch_proc c = Some p"
  shows "good (sv, send_signal sig (op_pid p) w)"
proof -
  have "wo_kernel w (op_pid p) \<noteq> None"
    using assms all_held_member [of "sv_children sv" w c] by (auto simp: good_def held_def)
  moreover have "all_held (sv_children sv) (send_signal sig (op_pid p) w)"
    using assms(1) all_held_kernel [of "sv_children sv" w] by (simp add: good_def send_signal_def)
  ultimately show ?thesis
    using assms(1) signal_laws(3) [of sig "op_pid p" w] by (simp add: good_def)
qed

lemma terminate_good:
  assumes "good (sv, w)" "set cs \<subseteq> set (sv_children sv)"
  shows "good (sv, fold terminate_child cs w)"
  using assms
proof (induction cs arbitrary: w)
  case (Cons c cs)
  have "good (sv, terminate_child c w)"
    using kill_good [OF Cons.prems(1), of c] Cons.prems by (auto simp: terminate_child_def osal_process_terminate_def split: option.split)
  then show ?case using Cons by simp
qed simp

lemma find_child_Some:
  assumes "find_child P sv = Some i"
  shows "i < length (sv_children sv)" "P (sv_children sv ! i)"
  using assms by (auto simp: find_child_def find_Some_iff)

lemma update_good:
  assumes "good (sv, w)" "i < length (sv_children sv)" "ch_proc (f (sv_children sv ! i)) = ch_proc (sv_children sv ! i)"
  shows "good (update_child i f sv, w)"
proof -
  have "map ch_proc ((sv_children sv)[i := f (sv_children sv ! i)]) = map ch_proc (sv_children sv)"
    using assms(2,3) list_update_id [of "map ch_proc (sv_children sv)" i] by (simp add: map_update)
  then have "all_held ((sv_children sv)[i := f (sv_children sv ! i)]) w = all_held (sv_children sv) w"
    by (rule all_held_procs)
  then show ?thesis using assms by (simp add: good_def update_child_def)
qed

lemma step_good:
  assumes "supervisor_step sw sw'" "good sw"
  shows "good sw'"
  using assms
proof cases
  case (time_passes mv sv w)
  then show ?thesis using moved_good assms(2) by simp
next
  case (tick envs sv w now)
  obtain cs w' where run: "each_child (\<lambda>i c w. snd (monitor_child (sv_runtime_dir sv) now (envs i) c w)) 0 (sv_children sv) w = (cs, w')"
    by fastforce
  have "good (sv\<lparr>sv_children := cs\<rparr>, w')"
    using run
  proof (rule each_child_good)
    show "good (sv, w)" using assms(2) tick(1) by simp
    show "keeps c w c' w'" if "snd (monitor_child (sv_runtime_dir sv) now (envs i) c w) = (c', w')" for i c w c' w'
      using that monitor_child_keeps tick(3) by (metis prod.collapse)
  qed
  then show ?thesis using tick(2) run by (simp add: supervisor_monitor_tick_def)
next
  case (kill sv w name)
  show ?thesis
  proof (cases "find_child (\<lambda>c. ch_name c = name \<and> ch_proc c \<noteq> None) sv")
    case None
    then show ?thesis using assms(2) kill by (simp add: supervisor_kill_child_def)
  next
    case (Some i)
    then obtain p where "i < length (sv_children sv)" "ch_proc (sv_children sv ! i) = Some p"
      using find_child_Some [OF Some] by auto
    then show ?thesis
      using Some kill assms(2) kill_good [of sv w "sv_children sv ! i" p]
      by (simp add: supervisor_kill_child_def osal_process_kill_def)
  qed
next
  case (suspend sv w name)
  show ?thesis
  proof (cases "find_child (\<lambda>c. ch_name c = name \<and> ch_proc c \<noteq> None) sv")
    case None
    then show ?thesis using assms(2) suspend by (simp add: supervisor_kill_child_and_suspend_def)
  next
    case (Some i)
    then obtain p where i: "i < length (sv_children sv)" "ch_proc (sv_children sv ! i) = Some p"
      using find_child_Some [OF Some] by auto
    have "good (sv, send_signal SIGKILL (op_pid p) w)"
      using kill_good [of sv w "sv_children sv ! i" p] assms(2) suspend(1) i by simp
    then show ?thesis
      using Some suspend(2) i update_good [of sv _ i] by (simp add: supervisor_kill_child_and_suspend_def osal_process_kill_def)
  qed
next
  case (resume sv w name now)
  then show ?thesis
    using assms(2) update_good [of sv w] find_child_Some by (auto simp: supervisor_resume_child_def split: option.split)
next
  case (stop pause mvs sv w)
  obtain cs w' where run: "each_child (\<lambda>i. stop_child (mvs i)) 0 (sv_children sv)
      (moved pause (fold terminate_child (sv_children sv) w)) = (cs, w')"
    by fastforce
  have "good (sv\<lparr>sv_children := cs\<rparr>, w')"
    using run
  proof (rule each_child_good)
    show "good (sv, moved pause (fold terminate_child (sv_children sv) w))"
      using moved_good [OF stop(3)] terminate_good [of sv w "sv_children sv"] assms(2) stop(1) by simp
    show "keeps c w c' w'" if "stop_child (mvs i) c w = (c', w')" for i c w c' w'
      using that stop(4) by (rule stop_child_keeps)
  qed
  then show ?thesis using stop(2) run by (simp add: supervisor_stop_all_def)
qed

text \<open>
  C14: whatever the supervisor is asked to do, in any order and however its children end meanwhile, every
  signal it sends goes to a process it has spawned and not yet reaped, so never to a stranger whose number has
  been used again; and no two of its children share a process.
\<close>

theorem signals_hit_own_children:
  assumes "supervisor_reachable (sv, w)"
  shows "all_hit w \<and> all_held (sv_children sv) w"
proof -
  have "good sw" if "supervisor_reachable sw" for sw
    using that by induction (auto intro: start_good step_good)
  from this [OF assms] show ?thesis by (simp add: good_def)
qed

theorem signals_hit_own_children_witness:
  "\<exists>sv w. supervisor_reachable (sv, w) \<and> wo_signals w \<noteq> [] \<and> all_hit w"
proof -
  let ?w = "\<lparr>wo_kernel = Map.empty, wo_signals = []\<rparr>"
  obtain s where s: "supervisor_start example_start (ascii ''/c'') example_dir example_dir ?w example_files = Some (True, s)"
    using example_start_runs by blast
  have "supervisor_reachable (ss_sv s, ss_world s)"
    by (rule supervisor_reachable.started [OF s]) (simp_all add: example_start_def free_number_laws)
  then have r: "supervisor_reachable (ss_sv s, snd (supervisor_kill_child (ascii ''journal'') (ss_sv s) (ss_world s)))"
    by (rule supervisor_reachable.step) (rule kill)
  obtain digest where "pipeline_runs example_dir example_dir digest (ss_sv s) (sv_children (ss_sv s))"
    using started_pipeline [OF s] by blast
  then have "ch_name (sv_children (ss_sv s) ! 0) = ascii ''journal''" "ch_proc (sv_children (ss_sv s) ! 0) \<noteq> None"
      "sv_children (ss_sv s) \<noteq> []"
    by (auto simp: pipeline_runs_def journal_runs_def runs_def strncpy_str_def ascii_def)
  then have "find_child (\<lambda>c. ch_name c = ascii ''journal'' \<and> ch_proc c \<noteq> None) (ss_sv s) = Some 0"
    by (cases "sv_children (ss_sv s)") (auto simp: find_child_def upt_conv_Cons simp del: upt_Suc)
  then have "wo_signals (snd (supervisor_kill_child (ascii ''journal'') (ss_sv s) (ss_world s))) \<noteq> []"
    by (simp add: supervisor_kill_child_def osal_process_kill_def send_signal_def)
  with r signals_hit_own_children [OF r] show ?thesis by blast
qed

section \<open>Restarts are bounded\<close>

text \<open>
  A child between ticks, with the times of its restarts, the latest first. Time does not run backwards; other
  children do not matter here, and neither does a suspension. A resumption starts a new count, as the code says.
\<close>

inductive watched :: "child_proc \<Rightarrow> i64 \<Rightarrow> int list \<Rightarrow> bool" where
  launched: "\<lbrakk>ch_restart_count c = 0; 0 \<le> sint (ch_window_start_ns c); sint (ch_window_start_ns c) \<le> sint t\<rbrakk> \<Longrightarrow> watched c t []"
| later: "\<lbrakk>watched c t ts; sint t \<le> sint t'\<rbrakk> \<Longrightarrow> watched c t' ts"
| ticked: "\<lbrakk>watched c t ts; sint t \<le> sint now; monitor_child runtime_dir now ce c w = (restarted, c', w');
     sint now \<le> sint (snd (ce_spawn ce)); snd (ce_spawn ce) = t'\<rbrakk> \<Longrightarrow>
     watched c' t' (if restarted then sint now # ts else ts)"
| suspended: "watched c t ts \<Longrightarrow> watched (c\<lparr>ch_restart_suspended := True\<rparr>) t ts"

text \<open>At most five of the times lie in any 60 seconds.\<close>

definition bounded_rate :: "int list \<Rightarrow> bool" where
  "bounded_rate ts \<longleftrightarrow> (\<forall>from. length (filter (\<lambda>s. from \<le> s \<and> s \<le> from + 60000000000) ts) \<le> 5)"

text \<open>The current streak of restarts, of the length of the counter, and the older ones, more than 60 seconds before it.\<close>

definition streak :: "child_proc \<Rightarrow> i64 \<Rightarrow> int list \<Rightarrow> bool" where
  "streak c t ts \<longleftrightarrow> (\<exists>recent older. ts = recent @ older \<and> length recent = nat (ch_restart_count c) \<and>
     0 \<le> ch_restart_count c \<and> ch_restart_count c \<le> 5 \<and> bounded_rate older \<and> (recent = [] \<longrightarrow> older = []) \<and>
     (\<forall>s \<in> set recent. \<forall>s' \<in> set older. s' + 60000000000 < s) \<and>
     (ch_proc c \<noteq> None \<longrightarrow> (\<forall>s \<in> set ts. s \<le> sint (ch_window_start_ns c))) \<and>
     0 \<le> sint (ch_window_start_ns c) \<and> sint (ch_window_start_ns c) \<le> sint t)"

lemma streak_bounded:
  assumes "streak c t ts"
  shows "bounded_rate ts"
  unfolding bounded_rate_def
proof
  fix "from" :: int
  let ?in = "\<lambda>s. from \<le> s \<and> s \<le> from + 60000000000"
  obtain recent older where ts: "ts = recent @ older" "bounded_rate older"
    and count: "length recent = nat (ch_restart_count c)" "ch_restart_count c \<le> 5"
    and gap: "\<forall>s \<in> set recent. \<forall>s' \<in> set older. s' + 60000000000 < s"
    using assms unfolding streak_def by blast
  show "length (filter ?in ts) \<le> 5"
  proof (cases "\<exists>s \<in> set recent. ?in s")
    case True
    then have "filter ?in older = []" using gap by (force simp: filter_empty_conv)
    then have "filter ?in ts = filter ?in recent" using ts(1) by simp
    then show ?thesis using count length_filter_le [of ?in recent] by (auto simp: nat_le_iff)
  next
    case False
    then have "filter ?in recent = []" by (simp add: filter_empty_conv)
    then show ?thesis using ts by (simp add: bounded_rate_def)
  qed
qed

text \<open>The counter and the start of the window once the window has been reset, if it is due.\<close>

definition due :: "i64 \<Rightarrow> child_proc \<Rightarrow> bool" where
  "due now c \<longleftrightarrow> sint (now - ch_window_start_ns c) > 60000000000"

definition tick_outcome :: "i64 \<Rightarrow> i64 \<Rightarrow> child_proc \<Rightarrow> bool \<Rightarrow> child_proc \<Rightarrow> bool" where
  "tick_outcome now after c r c' \<longleftrightarrow>
     (if r then
        (if due now c then ch_restart_count c' = 1
         else ch_restart_count c < 5 \<and> ch_restart_count c' = ch_restart_count c + 1) \<and>
        ch_window_start_ns c' = (if ch_proc c' \<noteq> None then after else if due now c then now else ch_window_start_ns c)
      else ch_restart_count c' = ch_restart_count c \<and> ch_window_start_ns c' = ch_window_start_ns c)"

lemma restart_outcome:
  assumes "restart_child now sp c w = (r, c', w')" "ch_proc c = None"
  shows "tick_outcome now (snd sp) c r c'" "ch_proc c' \<noteq> None \<Longrightarrow> r"
  using assms
  by (auto simp: tick_outcome_def restart_child_def due_def spawn_child_def Let_def split: if_splits option.splits prod.splits)

lemma monitor_outcome:
  assumes "monitor_child runtime_dir now ce c w = (r, c', w')"
  shows "tick_outcome now (snd (ce_spawn ce)) c r c' \<and> (r \<or> ch_proc c' \<noteq> None \<longrightarrow> ch_proc c \<noteq> None)"
proof (cases "ch_proc c")
  case None
  then show ?thesis using assms by (auto simp: monitor_child_def tick_outcome_def)
next
  case (Some p)
  have same: "tick_outcome now t (c\<lparr>ch_proc := q\<rparr>) r' d = tick_outcome now t c r' d" for t q r' d
    by (simp add: tick_outcome_def due_def)
  have restarted: "tick_outcome now (snd (ce_spawn ce)) c r c'"
    if "restart_child now (ce_spawn ce) (c\<lparr>ch_proc := None\<rparr>) w1 = (r, c', w')" for w1
    using restart_outcome(1) [OF that] by (simp add: same)
  have "tick_outcome now (snd (ce_spawn ce)) c False (c\<lparr>ch_proc := Some q\<rparr>)" for q
    by (simp add: tick_outcome_def)
  then show ?thesis
    using assms Some restarted
    by (auto simp: monitor_child_def Let_def split: prod.splits if_splits)
qed

lemma sint_diff:
  assumes "0 \<le> sint a" "sint a \<le> sint b"
  shows "sint (b - a :: i64) = sint b - sint a"
proof -
  have "sint b < 2 ^ 63" using sint_less [of b] by simp
  then show ?thesis
    using assms by (simp add: sint_word_ariths signed_take_bit_int_eq_self)
qed

lemma streak_step:
  assumes "streak c t ts" "sint t \<le> sint now" "monitor_child runtime_dir now ce c w = (r, c', w')"
    "sint now \<le> sint (snd (ce_spawn ce))"
  shows "streak c' (snd (ce_spawn ce)) (if r then sint now # ts else ts)"
proof -
  obtain recent older where ts: "ts = recent @ older" "length recent = nat (ch_restart_count c)" "0 \<le> ch_restart_count c"
      "ch_restart_count c \<le> 5" "bounded_rate older" "recent = [] \<longrightarrow> older = []"
      "\<forall>s \<in> set recent. \<forall>s' \<in> set older. s' + 60000000000 < s"
    and window: "ch_proc c \<noteq> None \<longrightarrow> (\<forall>s \<in> set ts. s \<le> sint (ch_window_start_ns c))"
      "0 \<le> sint (ch_window_start_ns c)" "sint (ch_window_start_ns c) \<le> sint t"
    using assms(1) unfolding streak_def by blast
  note out = monitor_outcome [OF assms(3)]
  show ?thesis
  proof (cases r)
    case False
    then show ?thesis
      using out ts window assms(2,4) unfolding streak_def tick_outcome_def
      by (intro exI [of _ recent] exI [of _ older]) auto
  next
    case True
    then have alive: "\<forall>s \<in> set ts. s \<le> sint (ch_window_start_ns c)"
      using out window(1) by simp
    show ?thesis
    proof (cases "due now c")
      case due: True
      then have "sint now - sint (ch_window_start_ns c) > 60000000000"
        using sint_diff [of "ch_window_start_ns c" now] window assms(2) by (simp add: due_def)
      then show ?thesis
        using out due True alive window assms(2,4) streak_bounded [OF assms(1)] unfolding streak_def tick_outcome_def
        by (intro exI [of _ "[sint now]"] exI [of _ ts]) (auto split: if_splits)
    next
      case False
      have "\<forall>s' \<in> set older. s' + 60000000000 < sint now"
        using ts(1,6,7) alive window assms(2) by (cases recent) fastforce+
      moreover have "ch_restart_count c' = ch_restart_count c + 1" "ch_restart_count c < 5"
        using out False True by (simp_all add: tick_outcome_def)
      moreover from this have "length (sint now # recent) = nat (ch_restart_count c')"
        using ts(2,3) by simp
      moreover have "0 \<le> sint (ch_window_start_ns c') \<and> sint (ch_window_start_ns c') \<le> sint (snd (ce_spawn ce))"
        using out True False window(2,3) assms(2,4) by (simp add: tick_outcome_def)
      moreover have "\<forall>s \<in> set (sint now # ts). s \<le> sint (ch_window_start_ns c')" if "ch_proc c' \<noteq> None"
        using that out True False alive window(3) assms(2,4) by (auto simp: tick_outcome_def)
      ultimately show ?thesis
        using ts True unfolding streak_def
        by (intro exI [of _ "sint now # recent"] exI [of _ older] conjI) simp_all
    qed
  qed
qed

lemma streak_later:
  assumes "streak c t ts" "sint t \<le> sint t'"
  shows "streak c t' ts"
proof -
  have "streak c t ts \<longleftrightarrow> sint (ch_window_start_ns c) \<le> sint t \<and> streak c t ts" for t
    unfolding streak_def by blast
  moreover have "sint (ch_window_start_ns c) \<le> sint t' \<Longrightarrow> sint (ch_window_start_ns c) \<le> sint t \<Longrightarrow> streak c t' ts = streak c t ts"
    unfolding streak_def by simp
  ultimately show ?thesis using assms by (meson order_trans)
qed

lemma watched_streak: "watched c t ts \<Longrightarrow> streak c t ts"
proof (induction rule: watched.induct)
  case (launched c t)
  then show ?case by (simp add: streak_def bounded_rate_def)
next
  case (later c t ts t')
  then show ?case using streak_later by blast
next
  case (ticked c t ts now runtime_dir ce w restarted c' w' t')
  then show ?case using streak_step by blast
next
  case (suspended c t ts)
  then show ?case by (simp add: streak_def)
qed

text \<open>
  C26: unless it is resumed, no child is restarted more than five times within any 60 seconds, however often
  it ends or hangs and whenever the supervisor looks at it.
\<close>

theorem restarts_bounded:
  assumes "watched c t ts"
  shows "length (filter (\<lambda>s. from \<le> s \<and> s \<le> from + 60000000000) ts) \<le> 5"
  using streak_bounded [OF watched_streak [OF assms]] by (simp add: bounded_rate_def)

text \<open>A child that ends at every look, one second apart, is restarted five times and then left.\<close>

definition crashing :: child_proc where
  "crashing = \<lparr>ch_name = ascii ''gate'', ch_exe_path = [], ch_argv = [], ch_proc = Some \<lparr>op_pid = 7, op_reaped = False, op_exit_code = -1\<rparr>,
     ch_restart_count = 0, ch_window_start_ns = 0, ch_is_worker = False, ch_restart_suspended = False\<rparr>"

definition crash_env :: "i64 \<Rightarrow> child_env" where
  "crash_env now = \<lparr>ce_before = (\<lambda>k. map_option (\<lambda>_. Zombie (Exited 1)) \<circ> k), ce_mtime = (\<lambda>_. 0), ce_realtime = 0,
     ce_wait = (\<lambda>_ k. k), ce_spawn = (\<lambda>_. Some 7, now)\<rparr>"

lemma crash_tick:
  assumes "ch_proc c = Some \<lparr>op_pid = 7, op_reaped = False, op_exit_code = -1\<rparr>" "wo_kernel w 7 = Some Running"
    "ch_restart_count c < 5" "\<not> ch_restart_suspended c" "\<not> due now c"
  shows "\<exists>w'. monitor_child [] now (crash_env now) c w =
      (True, c\<lparr>ch_restart_count := ch_restart_count c + 1, ch_window_start_ns := now\<rparr>, w') \<and> wo_kernel w' 7 = Some Running"
proof -
  have "reap_nonblocking \<lparr>op_pid = 7, op_reaped = False, op_exit_code = -1\<rparr> (moved (ce_before (crash_env now)) w) =
      (True, \<lparr>op_pid = 7, op_reaped = True, op_exit_code = 1\<rparr>,
       w\<lparr>wo_kernel := (map_option (\<lambda>_. Zombie (Exited 1)) \<circ> wo_kernel w)(7 := None)\<rparr>)"
    using assms(2) by (simp add: reap_nonblocking_def waitpid_nohang_def moved_def crash_env_def exit_code_of_def)
  moreover have "osal_process_wait mvs 500 \<lparr>op_pid = 7, op_reaped = True, op_exit_code = 1\<rparr> v =
      (Some 1, \<lparr>op_pid = 7, op_reaped = True, op_exit_code = 1\<rparr>, v)" for mvs v
    by (simp add: osal_process_wait_def wait_loop.simps [of mvs 500 0] reap_nonblocking_def)
  ultimately show ?thesis
    using assms(1,3-5) unfolding due_def
    by (simp add: monitor_child_def osal_process_is_alive_def osal_process_close_def restart_child_def spawn_child_def
        osal_process_spawn_def crash_env_def Let_def)
qed

theorem restarts_bounded_witness:
  "\<exists>c. watched c 2000000000 [2000000000, 1000000000] \<and>
     length (filter (\<lambda>s. 0 \<le> s \<and> s \<le> 0 + 60000000000) [2000000000, 1000000000 :: int]) \<le> 5"
proof -
  let ?w = "\<lparr>wo_kernel = [7 \<mapsto> Running], wo_signals = []\<rparr>"
  have w0: "watched crashing 0 []"
    by (rule launched) (simp_all add: crashing_def)
  obtain w1 where t1: "monitor_child [] 1000000000 (crash_env 1000000000) crashing ?w =
      (True, crashing\<lparr>ch_restart_count := 1, ch_window_start_ns := 1000000000\<rparr>, w1)" "wo_kernel w1 7 = Some Running"
    using crash_tick [of crashing ?w 1000000000] by (auto simp: crashing_def due_def)
  have w1: "watched (crashing\<lparr>ch_restart_count := 1, ch_window_start_ns := 1000000000\<rparr>) 1000000000 [1000000000]"
    using ticked [OF w0 _ t1(1) _ refl] by (simp add: crash_env_def)
  obtain c w2 where t2: "monitor_child [] 2000000000 (crash_env 2000000000)
      (crashing\<lparr>ch_restart_count := 1, ch_window_start_ns := 1000000000\<rparr>) w1 = (True, c, w2)"
    using crash_tick [of "crashing\<lparr>ch_restart_count := 1, ch_window_start_ns := 1000000000\<rparr>" w1 2000000000] t1(2)
    by (auto simp: crashing_def due_def)
  have "watched c 2000000000 [2000000000, 1000000000]"
    using ticked [OF w1 _ t2 _ refl] by (simp add: crash_env_def)
  then show ?thesis
    using restarts_bounded [of c 2000000000 "[2000000000, 1000000000]" 0] by blast
qed

text \<open>
  Every spawn starts the window anew, so what is bounded is the number of restarts since the last 60 seconds
  without one: a child that ends 50 seconds after each restart is given up at the sixth time, after five minutes.
\<close>

lemma slow_crashes_give_up:
  assumes "ch_restart_count c = 5" "sint (now - ch_window_start_ns c) = 50000000000" "\<not> ch_restart_suspended c"
  shows "restart_child now sp c w = (False, c, w)"
  using assms by (simp add: restart_child_def)

section \<open>Children that have been stopped\<close>

lemma each_child_stopped:
  assumes "\<And>i c w. ch_proc c = None \<Longrightarrow> ch_proc (fst (f i c w)) = None" "each_child f i cs w = (cs', w')"
  shows "length cs' = length cs \<and> (\<forall>k < length cs. ch_proc (cs ! k) = None \<longrightarrow> ch_proc (cs' ! k) = None)"
  using assms(2)
proof (induction cs arbitrary: i w cs')
  case (Cons c cs)
  obtain c1 w1 where c1: "f i c w = (c1, w1)" by (cases "f i c w")
  obtain cs1 where cs1: "each_child f (i + 1) cs w1 = (cs1, w')" "cs' = c1 # cs1"
    using Cons.prems(1) c1 by (cases "each_child f (i + 1) cs w1") auto
  have "ch_proc c = None \<Longrightarrow> ch_proc c1 = None"
    using assms(1) [of c i w] c1 by simp
  then show ?case
    using Cons.IH [OF cs1(1)] cs1(2) by (auto simp: nth_Cons split: nat.split)
qed simp

definition stays_stopped :: "supervisor \<Rightarrow> supervisor \<Rightarrow> bool" where
  "stays_stopped sv sv' \<longleftrightarrow> length (sv_children sv') = length (sv_children sv) \<and>
     (\<forall>k < length (sv_children sv). ch_proc (sv_children sv ! k) = None \<longrightarrow> ch_proc (sv_children sv' ! k) = None)"

lemma update_stopped:
  assumes "\<And>c. ch_proc (f c) = ch_proc c"
  shows "stays_stopped sv (update_child i f sv)"
  using assms by (cases "i < length (sv_children sv)") (auto simp: stays_stopped_def update_child_def nth_list_update)

lemma each_child_stays_stopped:
  assumes "\<And>i c w. ch_proc c = None \<Longrightarrow> ch_proc (fst (f i c w)) = None" "each_child f i (sv_children sv) w = (cs', w')"
  shows "stays_stopped sv (sv\<lparr>sv_children := cs'\<rparr>)"
  using each_child_stopped [of f, OF assms] by (simp add: stays_stopped_def)

lemma step_stopped:
  assumes "supervisor_step (sv, w) (sv', w')"
  shows "stays_stopped sv sv'"
  using assms
proof cases
  case (tick envs now)
  obtain cs w1 where run: "each_child (\<lambda>i c w. snd (monitor_child (sv_runtime_dir sv) now (envs i) c w)) 0 (sv_children sv) w = (cs, w1)"
    by fastforce
  have "stays_stopped sv (sv\<lparr>sv_children := cs\<rparr>)"
    by (rule each_child_stays_stopped [OF _ run]) (simp add: monitor_child_def)
  then show ?thesis using tick(1) run by (simp add: supervisor_monitor_tick_def)
next
  case (suspend name)
  then show ?thesis
    using update_stopped [of "\<lambda>c. c\<lparr>ch_restart_suspended := True\<rparr>"]
    by (auto simp: supervisor_kill_child_and_suspend_def stays_stopped_def split: option.splits)
next
  case (resume name now)
  then show ?thesis
    using update_stopped [of "\<lambda>c. c\<lparr>ch_restart_suspended := False, ch_restart_count := 0, ch_window_start_ns := now\<rparr>"]
    by (auto simp: supervisor_resume_child_def stays_stopped_def split: option.splits)
next
  case (stop pause mvs)
  obtain cs w1 where run: "each_child (\<lambda>i. stop_child (mvs i)) 0 (sv_children sv)
      (moved pause (fold terminate_child (sv_children sv) w)) = (cs, w1)"
    by fastforce
  have "stays_stopped sv (sv\<lparr>sv_children := cs\<rparr>)"
    by (rule each_child_stays_stopped [OF _ run]) (simp add: stop_child_def)
  then show ?thesis using stop(1) run by (simp add: supervisor_stop_all_def)
qed (auto simp: stays_stopped_def)

text \<open>
  a child without a process never gets one again, whatever is asked of the supervisor later: a suspended
  child that a tick has found dead, or one that could not be spawned again or was given up, stays stopped also
  when it is resumed.
\<close>

theorem stopped_child_stays_stopped:
  assumes "supervisor_step\<^sup>*\<^sup>* (sv, w) (sv', w')" "i < length (sv_children sv)" "ch_proc (sv_children sv ! i) = None"
  shows "i < length (sv_children sv') \<and> ch_proc (sv_children sv' ! i) = None"
  using assms(1)
proof (induction rule: rtranclp_induct2)
  case (step sv1 w1 sv2 w2)
  then show ?case using step_stopped [of sv1 w1 sv2 w2] by (simp add: stays_stopped_def)
qed (use assms in simp)

definition suspended_gate :: supervisor where
  "suspended_gate = (zero_supervisor [] [])\<lparr>sv_children := [crashing\<lparr>ch_proc := None, ch_restart_suspended := True\<rparr>]\<rparr>"

definition calm_env :: child_env where
  "calm_env = \<lparr>ce_before = (\<lambda>k. k), ce_mtime = (\<lambda>_. 0), ce_realtime = 0, ce_wait = (\<lambda>_ k. k), ce_spawn = (free_number, 0)\<rparr>"

theorem stopped_child_stays_stopped_witness:
  "\<exists>sv' w'. supervisor_monitor_tick 9 (\<lambda>_. calm_env) (supervisor_resume_child (ascii ''gate'') 5 suspended_gate)
      \<lparr>wo_kernel = Map.empty, wo_signals = []\<rparr> = (sv', w') \<and>
    ch_name (sv_children sv' ! 0) = ascii ''gate'' \<and> \<not> ch_restart_suspended (sv_children sv' ! 0) \<and>
    ch_proc (sv_children sv' ! 0) = None"
proof -
  let ?w = "\<lparr>wo_kernel = Map.empty, wo_signals = []\<rparr>"
  let ?sv = "supervisor_resume_child (ascii ''gate'') 5 suspended_gate"
  obtain sv' w' where tick: "supervisor_monitor_tick 9 (\<lambda>_. calm_env) ?sv ?w = (sv', w')" by fastforce
  have "lawful_child calm_env"
    by (simp add: lawful_child_def calm_env_def lawful_def free_number_laws)
  then have "supervisor_step\<^sup>*\<^sup>* (suspended_gate, ?w) (sv', w')"
    using resume [of suspended_gate ?w "ascii ''gate''" 5] supervisor_step.tick [of "\<lambda>_. calm_env" ?sv ?w 9] tick
    by (metis (no_types, lifting) converse_rtranclp_into_rtranclp r_into_rtranclp)
  then have "ch_proc (sv_children sv' ! 0) = None"
    using stopped_child_stays_stopped [of suspended_gate ?w sv' w' 0] by (simp add: suspended_gate_def)
  moreover have "ch_name (sv_children sv' ! 0) = ascii ''gate'' \<and> \<not> ch_restart_suspended (sv_children sv' ! 0)"
    using tick by (auto simp: suspended_gate_def supervisor_resume_child_def find_child_def update_child_def
        supervisor_monitor_tick_def monitor_child_def crashing_def zero_supervisor_def)
  ultimately show ?thesis using tick by blast
qed

text \<open>
  A worker touches a file named after its whole name, the supervisor looks for the name it has kept, which is at
  most 63 characters long: with 62 characters and more in the configuration it finds no heartbeat.
\<close>

lemma long_worker_name_unseen:
  fixes name :: bytes
  assumes "name = replicate 62 0x77"
  shows "file_path example_dir (name @ 0x5F # broker_letter 0) ''.pid'' \<noteq>
    Some (heartbeat_path example_dir (strncpy_str 64 (name @ 0x5F # broker_letter 0)))"
  by (simp add: assms file_path_def snprintf_def heartbeat_path_def strncpy_str_def broker_letter_def example_dir_def
      ascii_def)

end
