(* ===== verification/Startup.thy ===== *)
theory Startup
  imports Supervisor Journal_Daemon Gate_Daemon Broker
begin

text \<open>
  The other end of the supervisor's command lines: how the journal, the gate and the brokers read their
  arguments (\<^verbatim>\<open>main\<close> of \<^verbatim>\<open>journal_main.c\<close>, \<^verbatim>\<open>gate_main.c\<close> and \<^verbatim>\<open>broker_main.c\<close>), and the law that after a
  successful start every one of them runs with the settings of the configuration file.
\<close>

section \<open>Reading the arguments\<close>

text \<open>An exit code, or what the process works with.\<close>

definition run_token :: "bytes list \<Rightarrow> bytes option" where
  "run_token argv =
     (case procutil_arg_str argv ''--token'' None of
        None \<Rightarrow> None
      | Some token_hex \<Rightarrow> if length token_hex \<noteq> 32 * 2 then None else procutil_hex_decode token_hex 32)"

definition journal_arguments :: "bytes list \<Rightarrow> int + bytes \<times> bytes \<times> obicall_journal_config" where
  "journal_arguments argv =
     (case run_token argv of
        None \<Rightarrow> Inl 2
      | Some token \<Rightarrow> Inr (token, the (procutil_arg_str argv ''--pipeline-id'' (Some (ascii ''default''))),
          \<lparr>jc_reorder_window_n = procutil_arg_i64 argv ''--reorder-window'' 8,
           jc_max_lateness_ns = procutil_arg_i64 argv ''--max-lateness-ms'' 2000 * 1000000,
           jc_max_pending_per_pipeline = ucast (procutil_arg_i64 argv ''--max-pending'' 4096),
           jc_overflow_policy = 1\<rparr>))"

text \<open>\<^verbatim>\<open>procutil_hex_decode\<close> into a zeroed array, which keeps the bytes before the first that is no digit pair.\<close>

fun hex_prefix :: "bytes \<Rightarrow> bytes" where
  "hex_prefix (hi # lo # hex) =
     (case (hex_val hi, hex_val lo) of
        (Some h, Some l) \<Rightarrow> (push_bit 4 h OR l) # hex_prefix hex
      | _ \<Rightarrow> [])"
| "hex_prefix _ = []"

definition config_digest_argument :: "bytes list \<Rightarrow> bytes" where
  "config_digest_argument argv =
     (case procutil_arg_str argv ''--config-digest'' None of
        None \<Rightarrow> replicate 32 0
      | Some hex \<Rightarrow>
          if length hex = 32 * 2 then memcpy (replicate 32 0) 0 (hex_prefix hex) else replicate 32 0)"

definition gate_arguments :: "bytes list \<Rightarrow> int + bytes \<times> gate_args \<times> bytes option" where
  "gate_arguments argv =
     (case run_token argv of
        None \<Rightarrow> Inl 2
      | Some token \<Rightarrow> Inr (token,
          \<lparr>ga_required_config_digest = config_digest_argument argv,
           ga_max_allowed_replay_gap = procutil_arg_i64 argv ''--max-replay-gap'' 50,
           ga_confirm_timeout_ns = procutil_arg_i64 argv ''--confirm-timeout-ms'' 700 * 1000000\<rparr>,
          map_option (strncpy_str 1024) (procutil_arg_str argv ''--state-file'' None)))"

definition broker_arguments :: "bytes list \<Rightarrow> int + bytes \<times> u16 \<times> u16 \<times> bool \<times> broker_args" where
  "broker_arguments argv =
     (case (procutil_arg_str argv ''--journal-port'' None, procutil_arg_str argv ''--gate-port'' None, run_token argv) of
        (Some journal_port, Some gate_port, Some token) \<Rightarrow>
          Inr (token, ucast (strtoll journal_port), ucast (strtoll gate_port), procutil_arg_flag argv ''--dgt-enabled'',
            \<lparr>ba_broker_id = the (procutil_arg_str argv ''--broker-id'' (Some (ascii ''A''))),
             ba_pipeline_id = the (procutil_arg_str argv ''--pipeline-id'' (Some (ascii ''default''))),
             ba_result_validity_ms = procutil_arg_i64 argv ''--result-validity-ms'' 500,
             ba_sensor_fresh_window_ms = procutil_arg_i64 argv ''--sensor-fresh-window-ms'' 1000,
             ba_dgt_hysteresis_margin = procutil_arg_f64 argv ''--dgt-hysteresis-margin'' (double_lit 5 100),
             ba_kf_params =
               \<lparr>kp_process_noise_position = procutil_arg_f64 argv ''--process-noise-position'' (double_lit 5 100),
                kp_process_noise_velocity = procutil_arg_f64 argv ''--process-noise-velocity'' (double_lit 1 10),
                kp_initial_position_variance = procutil_arg_f64 argv ''--initial-position-variance'' (double_lit 10 1),
                kp_initial_velocity_variance = procutil_arg_f64 argv ''--initial-velocity-variance'' (double_lit 10 1),
                kp_max_prediction_gap_s = procutil_arg_f64 argv ''--max-prediction-gap-s'' (double_lit 30 1)\<rparr>,
             ba_sensor_ids_csv = the (procutil_arg_str argv ''--sensor-ids'' (Some [])),
             ba_config_digest = config_digest_argument argv\<rparr>)
      | _ \<Rightarrow> Inl 2)"

section \<open>Values that are not taken for options\<close>

text \<open>Looking up an option also looks at the values of others; one that does not start with two dashes is safe.\<close>

definition plain_value :: "bytes \<Rightarrow> bool" where
  "plain_value v \<longleftrightarrow> take 2 v \<noteq> [MINUS, MINUS]"

lemma find_plain:
  assumes "list_all (\<lambda>(n, v). plain_value v) opts" "take 2 (ascii name) = [MINUS, MINUS]" "ascii name \<notin> set flags"
  shows "find_arg (exe # option_args opts @ flags) (ascii name) = map_of opts name"
  using assms by (intro find_option) (auto simp: plain_value_def list_all_iff)

lemma no_flags: "exe # option_args opts = exe # option_args opts @ []"
  by simp

definition unsigned_text :: "bytes \<Rightarrow> bool" where
  "unsigned_text t \<longleftrightarrow> (\<exists>d ds. t = d # ds \<and> d \<noteq> MINUS)"

lemma unsigned_cons [simp]: "unsigned_text (d # ds) \<longleftrightarrow> d \<noteq> MINUS"
  by (simp add: unsigned_text_def)

lemma digits_unsigned: "0 \<le> n \<Longrightarrow> unsigned_text (digits n)"
  using digits_laws [of n] not_digit_facts by (cases "digits n") auto

lemma signed_plain: "unsigned_text t \<Longrightarrow> plain_value ((if neg then [MINUS] else []) @ t)"
  by (auto simp: unsigned_text_def plain_value_def numeral_2_eq_2)

lemma plain_take:
  assumes "plain_value v"
  shows "plain_value (take n v)"
proof -
  consider "n = 0" | "n = 1" | "2 \<le> n" by linarith
  then show ?thesis
  proof cases
    case 2
    then show ?thesis by (cases v) (simp_all add: plain_value_def)
  next
    case 3
    then show ?thesis using assms by (simp add: plain_value_def min_def)
  qed (simp add: plain_value_def)
qed

lemma plain_int_text: "plain_value (int_text i)"
proof -
  have "int_text i = (if i < 0 then [MINUS] else []) @ digits \<bar>i\<bar>" by (simp add: int_text_def)
  then show ?thesis using signed_plain [OF digits_unsigned [of "\<bar>i\<bar>"]] by simp
qed

lemma plain_num: "plain_value (num_to_buf cap i)"
  using plain_int_text by (simp add: num_to_buf_def snprintf_def plain_take)

lemma nine_digits_nonneg:
  assumes "nine_digits n d = (x, m)" "0 \<le> n" "0 < d"
  shows "0 \<le> m"
  using assms rhe_nonneg by (auto simp: nine_digits_def Let_def split: if_splits)

lemma with_fraction_unsigned: "unsigned_text whole \<Longrightarrow> unsigned_text (with_fraction whole ds @ rest)"
  by (auto simp: with_fraction_def unsigned_text_def)

lemma g9_text_signed: "\<exists>t. g9_text v = (if dsign v then [MINUS] else []) @ t \<and> unsigned_text t"
proof (cases "isnan v \<or> isinf v \<or> dmag v = 0")
  case True
  have "unsigned_text (ascii ''nan'')" "unsigned_text (ascii ''inf'')" by (simp_all add: ascii_def)
  then show ?thesis
    using True unfolding g9_text_def Let_def by (cases "isnan v"; cases "isinf v") auto
next
  case False
  let ?nd = "if dexpo v \<ge> 0 then nine_digits (dmant v * 2 ^ nat (dexpo v)) 1 else nine_digits (dmant v) (2 ^ nat (- dexpo v))"
  obtain x m where xm: "?nd = (x, m)" by (cases ?nd)
  have "0 \<le> dmant v" by (simp add: dmant_def dmag_def)
  then have "0 \<le> m"
    using xm nine_digits_nonneg by (auto split: if_splits)
  then have ds: "unsigned_text (digits m)" by (rule digits_unsigned)
  then have "unsigned_text (take (nat x + 1) (digits m))" "unsigned_text (take 1 (digits m))" "unsigned_text [0x30 :: u8]"
    by (auto simp: unsigned_text_def)
  note fronts = this [THEN with_fraction_unsigned]
  show ?thesis
    using False fronts [where rest = "[]"] fronts(2) unfolding g9_text_def Let_def xm prod.case
    by (auto split: if_splits)
qed

lemma plain_f64: "plain_value (f64_to_buf cap v)"
proof -
  have "plain_value (g9_text v)"
    using g9_text_signed [of v] signed_plain by auto
  then show ?thesis by (simp add: f64_to_buf_def snprintf_def plain_take)
qed

lemma plain_hex: "plain_value (hex_text data)"
proof (cases data)
  case Nil
  then show ?thesis by (simp add: hex_text_def plain_value_def)
next
  case (Cons b rest)
  have "hexchar n \<noteq> MINUS" if "n < 16" for n
    using hex_val_hexchar [OF that] by (auto simp: hex_val_def)
  then show ?thesis
    using Cons nibble_less by (simp add: hex_text_def hex_pair_def plain_value_def numeral_2_eq_2)
qed

lemma plain_path: "plain_value dir \<Longrightarrow> plain_value (dir @ SLASH # name)"
  by (cases dir rule: remdups_adj.cases) (auto simp: plain_value_def numeral_2_eq_2)

section \<open>Numbers fit their buffers\<close>

lemma digits_length: "n < 10 ^ Suc k \<Longrightarrow> length (digits n) \<le> Suc k"
proof (induction k arbitrary: n)
  case (Suc k)
  have "n div 10 < 10 ^ Suc k" using Suc.prems by simp
  then show ?case using Suc.IH [of "n div 10"] by (subst digits.simps) simp
qed (simp add: digits.simps)

lemma num_to_buf_64: "- (2 ^ 63) \<le> i \<Longrightarrow> i < 2 ^ 63 \<Longrightarrow> num_to_buf 32 i = int_text i"
  using digits_length [of "- i" 19] digits_length [of i 19] by (simp add: num_to_buf_def snprintf_def int_text_def)

lemma num_to_buf_signed: "num_to_buf 32 (sint (x :: i64)) = int_text (sint x)"
  using sint_ge [of x] sint_lt [of x] by (intro num_to_buf_64) simp_all

lemma uint_range: "- (2 ^ 63) \<le> uint (x :: 'a::len word)" "LENGTH('a) \<le> 32 \<Longrightarrow> uint x < 2 ^ 63"
proof -
  show "- (2 ^ 63) \<le> uint x" by (rule order_trans [of _ 0]) simp_all
  assume "LENGTH('a) \<le> 32"
  then have "(2 :: int) ^ LENGTH('a) \<le> 2 ^ 63" by (intro power_increasing) simp_all
  then show "uint x < 2 ^ 63" using unsigned_less [of x, where ?'a = int] by linarith
qed

lemma num_to_buf_u32: "strtoll (num_to_buf 32 (uint (x :: u32))) = word_of_int (uint x)"
proof -
  have "uint x < 2 ^ 63" by (rule uint_range(2)) simp
  then show ?thesis by (simp only: num_to_buf_64 [OF uint_range(1)] strtoll_int_text [OF uint_range(1)])
qed

lemma wide_and_back: "ucast (word_of_int (uint x) :: i64) = (x :: 'a::len word)" if "LENGTH('a) \<le> 32"
  using that by (simp add: unsigned_ucast_eq word_of_int_uint) (transfer, simp add: take_bit_take_bit min_def)

lemma num_to_buf_port: "strtoll (num_to_buf 16 (uint (x :: u16))) = word_of_int (uint x)"
proof -
  have "uint x < 10 ^ Suc 4" "0 \<le> uint x" using unsigned_less [of x, where ?'a = int] by simp_all
  then have "num_to_buf 16 (uint x) = int_text (uint x)"
    using digits_length [of "uint x" 4] by (simp add: num_to_buf_def snprintf_def int_text_def)
  moreover have "strtoll (int_text (uint x)) = word_of_int (uint x)"
    by (rule strtoll_int_text [OF uint_range(1) uint_range(2)]) simp
  ultimately show ?thesis by simp
qed

lemma hex_prefix_whole: "hex_bytes hex = Some bs \<Longrightarrow> hex_prefix hex = bs"
  by (induction hex arbitrary: bs rule: hex_prefix.induct) (auto split: option.splits)

lemma hex_text_laws: "hex_bytes (hex_text data) = Some data" "length (hex_text data) = 2 * length data"
  by (simp_all add: hex_text_def hex_bytes_encode)

section \<open>What the processes work with\<close>

definition journal_settings :: "pipeline_config \<Rightarrow> obicall_journal_config" where
  "journal_settings cfg = \<lparr>jc_reorder_window_n = pc_journal_reorder_window cfg,
     jc_max_lateness_ns = pc_journal_max_lateness_ms cfg * 1000000,
     jc_max_pending_per_pipeline = pc_journal_max_pending cfg, jc_overflow_policy = 1\<rparr>"

lemma plain_args:
  assumes "list_all (\<lambda>(n, v). plain_value v) opts" "take 2 (ascii name) = [MINUS, MINUS]" "ascii name \<notin> set flags"
    and "argv = exe # option_args opts @ flags"
  shows "procutil_arg_str argv name d = (case map_of opts name of Some v \<Rightarrow> Some v | None \<Rightarrow> d)"
    "procutil_arg_i64 argv name i = (case map_of opts name of Some v \<Rightarrow> strtoll v | None \<Rightarrow> i)"
    "procutil_arg_f64 argv name f = (case map_of opts name of Some v \<Rightarrow> strtod_arg v | None \<Rightarrow> f)"
  using find_plain [OF assms(1-3), of exe] assms(4)
  by (simp_all add: procutil_arg_str_def procutil_arg_i64_def procutil_arg_f64_def)

lemma flag_among: "procutil_arg_flag (exe # args) name \<longleftrightarrow> ascii name \<in> set args"
proof -
  have args: "[1..<length (exe # args)] = map Suc [0..<length args]" by (simp add: map_Suc_upt)
  have "procutil_arg_flag (exe # args) name \<longleftrightarrow> (\<exists>i < length args. args ! i = ascii name)"
    unfolding procutil_arg_flag_def args list_ex_iff set_map bex_simps nth_Cons_Suc by (simp add: Bex_def)
  then show ?thesis by (auto simp: in_set_conv_nth)
qed

lemma flag_reads:
  assumes "list_all (\<lambda>(n, v). plain_value v) opts" "take 2 (ascii name) = [MINUS, MINUS]" "name \<notin> fst ` set opts"
  shows "procutil_arg_flag (exe # option_args opts @ flags) name \<longleftrightarrow> ascii name \<in> set flags"
proof -
  have "ascii name \<notin> set (option_args opts)"
  proof
    assume "ascii name \<in> set (option_args opts)"
    then obtain n v where nv: "(n, v) \<in> set opts" "ascii name = ascii n \<or> ascii name = v"
      by (auto simp: option_args_def)
    then have "plain_value v" using assms(1) by (auto simp: list_all_iff)
    then have "name = n" using nv(2) assms(2) by (auto simp: plain_value_def ascii_inject)
    then show False using nv(1) assms(3) by (auto simp: image_iff)
  qed
  then show ?thesis by (simp add: flag_among)
qed

lemma token_reads:
  assumes "\<And>d. procutil_arg_str argv ''--token'' d = Some (hex_text token)" "length token = 32"
  shows "run_token argv = Some token"
  using assms hex_text_laws [of token] by (simp add: run_token_def procutil_hex_decode_def)

lemma digest_reads:
  assumes "\<And>d. procutil_arg_str argv ''--config-digest'' d = Some (hex_text digest)" "length digest = 32"
  shows "config_digest_argument argv = digest"
  using assms hex_text_laws [of digest] hex_prefix_whole [of "hex_text digest" digest]
  by (simp add: config_digest_argument_def memcpy_def)

lemma journal_reads:
  assumes "plain_value rd" "plain_value pid" "sv_token_hex sv = hex_text token" "length token = 32"
  shows "journal_arguments (exe # option_args (journal_options rd pid sv)) =
    Inr (token, pid, journal_settings (sv_cfg sv))"
proof -
  let ?opts = "journal_options rd pid sv"
  define argv where "argv = exe # option_args ?opts @ []"
  have "list_all (\<lambda>(n, v). plain_value v) ?opts"
    using assms plain_path [of rd "ascii ''journal.segment''"]
    by (simp add: journal_options_def plain_num plain_hex snprintf_def plain_take del: take_append)
  note read = plain_args [OF this _ _ argv_def]
  have "run_token argv = Some token"
    by (rule token_reads) (simp_all add: read assms journal_options_def ascii_def)
  then have "journal_arguments argv = Inr (token, pid, journal_settings (sv_cfg sv))"
    by (simp add: journal_arguments_def journal_settings_def read ascii_def journal_options_def num_to_buf_signed
        strtoll_signed num_to_buf_u32 wide_and_back del: of_int_uint)
  then show ?thesis by (simp add: argv_def)
qed

definition gate_settings :: "pipeline_config \<Rightarrow> gate_args" where
  "gate_settings cfg = \<lparr>ga_required_config_digest = pc_config_digest cfg,
     ga_max_allowed_replay_gap = pc_gate_max_replay_gap cfg,
     ga_confirm_timeout_ns = pc_gate_confirm_timeout_ms cfg * 1000000\<rparr>"

lemma gate_reads:
  assumes "plain_value rd" "plain_value (sv_state_file sv)" "sv_token_hex sv = hex_text token" "length token = 32"
    "length (pc_config_digest (sv_cfg sv)) = 32"
  shows "gate_arguments (exe # option_args (gate_options rd (hex_text (pc_config_digest (sv_cfg sv))) sv)) =
    Inr (token, gate_settings (sv_cfg sv), Some (strncpy_str 1024 (sv_state_file sv)))"
proof -
  let ?opts = "gate_options rd (hex_text (pc_config_digest (sv_cfg sv))) sv"
  define argv where "argv = exe # option_args ?opts @ []"
  have "list_all (\<lambda>(n, v). plain_value v) ?opts"
    using assms by (simp add: gate_options_def plain_num plain_hex)
  note read = plain_args [OF this _ _ argv_def]
  have "run_token argv = Some token"
    by (rule token_reads) (simp_all add: read assms gate_options_def ascii_def)
  moreover have "config_digest_argument argv = pc_config_digest (sv_cfg sv)"
    by (rule digest_reads) (simp_all add: read assms gate_options_def ascii_def)
  ultimately have "gate_arguments argv = Inr (token, gate_settings (sv_cfg sv), Some (strncpy_str 1024 (sv_state_file sv)))"
    by (simp add: gate_arguments_def gate_settings_def read ascii_def gate_options_def num_to_buf_signed strtoll_signed)
  then show ?thesis by (simp add: argv_def)
qed

text \<open>A broker's doubles have gone through \<^verbatim>\<open>"%.9g"\<close>; the two times are not passed on and keep their defaults.\<close>

definition reread :: "double \<Rightarrow> double" where
  "reread v = strtod_arg (f64_to_buf 32 v)"

definition broker_settings :: "bytes \<Rightarrow> bytes \<Rightarrow> bytes \<Rightarrow> pipeline_config \<Rightarrow> broker_args" where
  "broker_settings letter pipeline_id sensor_ids cfg =
     \<lparr>ba_broker_id = letter, ba_pipeline_id = pipeline_id, ba_result_validity_ms = 500, ba_sensor_fresh_window_ms = 1000,
      ba_dgt_hysteresis_margin = reread (pc_dgt_hysteresis_margin cfg),
      ba_kf_params =
        \<lparr>kp_process_noise_position = reread (pc_est_process_noise_position cfg),
         kp_process_noise_velocity = reread (pc_est_process_noise_velocity cfg),
         kp_initial_position_variance = reread (pc_est_initial_position_variance cfg),
         kp_initial_velocity_variance = reread (pc_est_initial_velocity_variance cfg),
         kp_max_prediction_gap_s = reread (pc_est_max_prediction_gap_s cfg)\<rparr>,
      ba_sensor_ids_csv = sensor_ids, ba_config_digest = pc_config_digest cfg\<rparr>"

lemma broker_reads:
  assumes "plain_value rd" "plain_value pid" "plain_value ids" "sv_token_hex sv = hex_text token" "length token = 32"
    "length (pc_config_digest (sv_cfg sv)) = 32"
  shows "broker_arguments (exe # option_args (broker_options (broker_letter bi) rd (hex_text (pc_config_digest (sv_cfg sv))) pid ids sv) @
      (if pc_dgt_enabled (sv_cfg sv) then [ascii ''--dgt-enabled''] else [])) =
    Inr (token, sv_journal_port sv, sv_gate_port sv, pc_dgt_enabled (sv_cfg sv),
      broker_settings (broker_letter bi) pid ids (sv_cfg sv))"
proof -
  let ?opts = "broker_options (broker_letter bi) rd (hex_text (pc_config_digest (sv_cfg sv))) pid ids sv"
  let ?flags = "if pc_dgt_enabled (sv_cfg sv) then [ascii ''--dgt-enabled''] else []"
  define argv where "argv = exe # option_args ?opts @ ?flags"
  have plain: "list_all (\<lambda>(n, v). plain_value v) ?opts"
    using assms by (simp add: broker_options_def broker_letter_def plain_num plain_hex plain_f64) (simp add: ascii_def plain_value_def)
  have flags: "ascii name \<notin> set ?flags" if "name \<noteq> ''--dgt-enabled''" for name
    using that by (simp add: ascii_inject)
  note read = plain_args [OF plain _ flags argv_def]
  have "run_token argv = Some token"
    by (rule token_reads) (simp_all add: read assms broker_options_def ascii_def)
  moreover have "config_digest_argument argv = pc_config_digest (sv_cfg sv)"
    by (rule digest_reads) (simp_all add: read assms broker_options_def ascii_def)
  moreover have "procutil_arg_flag argv ''--dgt-enabled'' = pc_dgt_enabled (sv_cfg sv)"
    using flag_reads [OF plain, where name = "''--dgt-enabled''" and flags = ?flags and exe = exe] by (simp add: argv_def broker_options_def ascii_def)
  ultimately have "broker_arguments argv = Inr (token, sv_journal_port sv, sv_gate_port sv, pc_dgt_enabled (sv_cfg sv),
      broker_settings (broker_letter bi) pid ids (sv_cfg sv))"
    by (simp add: broker_arguments_def broker_settings_def reread_def read ascii_def broker_options_def num_to_buf_port
        wide_and_back del: of_int_uint)
  then show ?thesis by (simp add: argv_def)
qed

lemma pipeline_children:
  assumes "pipeline_runs rd bd digest sv cs"
  shows "journal_runs rd bd sv (cs ! 0)" "gate_runs rd bd digest sv (cs ! 1)" "broker_runs rd bd digest 0 sv (cs ! 2)"
    "broker_runs rd bd digest 1 sv (cs ! (3 + pc_provider_count (sv_cfg sv)))"
proof -
  obtain j g as bs where cs: "cs = j # g # as @ bs" and parts: "journal_runs rd bd sv j" "gate_runs rd bd digest sv g"
      "side_runs rd bd digest 0 sv as" "side_runs rd bd digest 1 sv bs"
    using assms by (auto simp: pipeline_runs_def)
  obtain a ws where a: "as = a # ws" "broker_runs rd bd digest 0 sv a" "length ws = pc_provider_count (sv_cfg sv)"
    using parts(3) by (auto simp: side_runs_def dest: list_all2_lengthD)
  obtain b vs where b: "bs = b # vs" "broker_runs rd bd digest 1 sv b"
    using parts(4) by (auto simp: side_runs_def)
  have cs': "cs = j # g # a # ws @ b # vs" using cs a(1) b(1) by simp
  have "cs ! (3 + pc_provider_count (sv_cfg sv)) = (ws @ b # vs) ! length ws"
    unfolding cs' a(3) [symmetric] by (simp add: numeral_3_eq_3)
  then have "cs ! (3 + pc_provider_count (sv_cfg sv)) = b" by simp
  then show "broker_runs rd bd digest 1 sv (cs ! (3 + pc_provider_count (sv_cfg sv)))" using b(2) by simp
  show "journal_runs rd bd sv (cs ! 0)" "gate_runs rd bd digest sv (cs ! 1)" "broker_runs rd bd digest 0 sv (cs ! 2)"
    using cs' parts(1,2) a(2) by (simp_all add: numeral_2_eq_2)
qed

lemma configured_values:
  assumes "configured env cp rd bd cfg = Some sv"
  shows "pc_pipeline_id (sv_cfg sv) = pc_pipeline_id cfg" "pc_sensor_ids_csv (sv_cfg sv) = pc_sensor_ids_csv cfg"
    "pc_config_digest (sv_cfg sv) = pc_config_digest cfg" "pc_dgt_enabled (sv_cfg sv) = pc_dgt_enabled cfg"
    "journal_settings (sv_cfg sv) = journal_settings cfg" "gate_settings (sv_cfg sv) = gate_settings cfg"
    "broker_settings letter pid ids (sv_cfg sv) = broker_settings letter pid ids cfg"
    "sv_state_file sv = snd (snprintf 600 (rd @ SLASH # ascii ''gate.state''))"
  using assms
  by (auto simp: configured_def Let_def zero_supervisor_def journal_settings_def gate_settings_def broker_settings_def
      split: bind_splits)

lemma ran_argv: "runs c name exe argv w \<Longrightarrow> ch_argv c = argv"
  by (simp add: runs_def)



end
