(* ===== verification/Provider.thy ===== *)
theory Provider
  imports Wire Observation
begin

text \<open>
  The interface between a worker and the provider it hosts (\<^verbatim>\<open>include/obicall/plugin.h\<close>): the descriptor, the
  configuration and the table of operations, and as a locale the contract that a worker's stream of readings
  rests on. A handle is the provider's state, a NULL pointer in the table is \<open>None\<close>, and the callback of
  \<^verbatim>\<open>poll_events\<close> is represented by the list of events it receives.
\<close>

section \<open>The plugin interface\<close>

abbreviation (input) OBICALL_ABI_VERSION_MAJOR :: u32 where "OBICALL_ABI_VERSION_MAJOR \<equiv> 1"
abbreviation (input) OBICALL_ABI_VERSION_MINOR :: u32 where "OBICALL_ABI_VERSION_MINOR \<equiv> 0"
abbreviation (input) sizeof_descriptor :: u32 where "sizeof_descriptor \<equiv> 136"
abbreviation (input) sizeof_provider_config :: u32 where "sizeof_provider_config \<equiv> 32"
abbreviation (input) sizeof_provider_vtable :: u32 where "sizeof_provider_vtable \<equiv> 64"

record obicall_descriptor =
  ds_struct_size :: u32
  ds_abi_version_major :: u32
  ds_abi_version_minor :: u32
  ds_wire_schema_version :: u32
  ds_checkpoint_schema_version :: u32
  ds_config_schema_version :: u32
  ds_reserved :: u32
  ds_capability_flags :: u64
  ds_provider_name :: bytes
  ds_provider_version :: bytes

record obicall_provider_config =
  pv_struct_size :: u32
  pv_config_schema_version :: u32
  pv_config_json :: "bytes option"
  pv_instance_seed :: u64

text \<open>\<open>'e\<close> is what an operation meets outside the provider, such as the readings of a clock.\<close>

record ('e, 'p) obicall_provider_vtable =
  vt_struct_size :: u32
  vt_reserved :: u32
  vt_create :: "('e \<Rightarrow> obicall_provider_config option \<Rightarrow> obicall_status \<times> 'p option) option"
  vt_submit :: "('p \<Rightarrow> obicall_observation option \<Rightarrow> obicall_status \<times> 'p) option"
  vt_poll_events :: "('e \<Rightarrow> 'p \<Rightarrow> obicall_status \<times> obicall_event list \<times> 'p) option"
  vt_checkpoint :: "('p \<Rightarrow> bytes) option"
  vt_restore :: "('p \<Rightarrow> bytes \<Rightarrow> obicall_status \<times> 'p) option"
  vt_release_buffer :: "unit option"
  vt_destroy :: "unit option"

type_synonym ('e, 'p) plugin_query =
  "obicall_status \<times> obicall_descriptor option \<times> ('e, 'p) obicall_provider_vtable option"

section \<open>Readings in events\<close>

definition event_reading :: "obicall_observation \<Rightarrow> obicall_event \<Rightarrow> obicall_observation option" where
  "event_reading old ev =
     (case obicall_wire_decode_observation (Some (ev_payload_data ev)) (ev_payload_len ev) (Some old) of
        Inl _ \<Rightarrow> None
      | Inr obs \<Rightarrow> Some obs)"

definition sound_event :: "obicall_event \<Rightarrow> bool" where
  "sound_event ev \<longleftrightarrow> unat (ev_payload_len ev) \<le> length (ev_payload_data ev)"

text \<open>Events that carry the readings number \<open>n\<close>, \<open>n + 1\<close> and so on of one source.\<close>

primrec numbered :: "u64 \<Rightarrow> u64 \<Rightarrow> obicall_event list \<Rightarrow> bool" where
  "numbered source n [] = True"
| "numbered source n (ev # evs) \<longleftrightarrow> sound_event ev \<and>
     (\<forall>old. \<exists>obs. event_reading old ev = Some obs \<and> obs_source_boot_id obs = source \<and> obs_sequence obs = n) \<and>
     numbered source (n + 1) evs"

lemma numbered_append:
  "numbered source n (evs @ evs') \<longleftrightarrow> numbered source n evs \<and> numbered source (n + of_nat (length evs)) evs'"
  by (induction evs arbitrary: n) (simp_all add: algebra_simps)

section \<open>The contract\<close>

datatype 'e provider_call = Poll 'e | Submit "obicall_observation option"

primrec provider_calls :: "('e \<Rightarrow> 'p \<Rightarrow> obicall_status \<times> obicall_event list \<times> 'p) \<Rightarrow>
    ('p \<Rightarrow> obicall_observation option \<Rightarrow> obicall_status \<times> 'p) \<Rightarrow> 'e provider_call list \<Rightarrow> 'p \<Rightarrow> obicall_event list \<times> 'p" where
  "provider_calls poll submit [] p = ([], p)"
| "provider_calls poll submit (c # cs) p =
     (case c of
        Submit obs \<Rightarrow> provider_calls poll submit cs (snd (submit p obs))
      | Poll e \<Rightarrow> (case poll e p of (st, evs, p) \<Rightarrow> apfst ((@) evs) (provider_calls poll submit cs p)))"

locale numbered_provider =
  fixes poll :: "'e \<Rightarrow> 'p \<Rightarrow> obicall_status \<times> obicall_event list \<times> 'p"
    and submit :: "'p \<Rightarrow> obicall_observation option \<Rightarrow> obicall_status \<times> 'p"
    and source :: "'p \<Rightarrow> u64" and number :: "'p \<Rightarrow> u64"
  assumes poll_numbers: "poll e p = (st, evs, p') \<Longrightarrow>
      numbered (source p) (number p) evs \<and> source p' = source p \<and> number p' = number p + of_nat (length evs)"
    and submit_keeps: "submit p obs = (st, p') \<Longrightarrow> source p' = source p \<and> number p' = number p"
begin

text \<open>Whatever is polled and submitted, the events carry the readings of one source, numbered without gaps.\<close>

lemma calls_numbered:
  "provider_calls poll submit cs p = (evs, p') \<Longrightarrow>
     numbered (source p) (number p) evs \<and> source p' = source p \<and> number p' = number p + of_nat (length evs)"
proof (induction cs arbitrary: p evs)
  case (Cons c cs)
  show ?case
  proof (cases c)
    case (Submit obs)
    obtain st q where q: "submit p obs = (st, q)" by (cases "submit p obs")
    then show ?thesis using Cons.IH [of q evs] Cons.prems Submit submit_keeps [OF q] by simp
  next
    case (Poll e)
    obtain st now q where now: "poll e p = (st, now, q)" by (cases "poll e p")
    obtain later where later: "provider_calls poll submit cs q = (later, p')" "evs = now @ later"
      using Cons.prems now Poll by (cases "provider_calls poll submit cs q") simp
    then show ?thesis using Cons.IH [OF later(1)] poll_numbers [OF now] by (simp add: numbered_append algebra_simps)
  qed
qed simp

end

end
