(* ===== verification/C_Sim.thy ===== *)
theory C_Sim
  imports Provider Manifest Stdio
begin

text \<open>
  The reference provider \<^verbatim>\<open>src/providers/c_sim/provider_c_sim.c\<close>, a simulated position sensor: its creation from
  the configuration, the control observation that switches faults on, polling, checkpoints. \<^verbatim>\<open>sqrt\<close> is rounded
  correctly; \<^verbatim>\<open>log\<close> and \<^verbatim>\<open>cos\<close>, which the standard leaves to the implementation, are parameters.
\<close>

section \<open>State\<close>

record sim_provider =
  sp_sensor_id :: bytes
  sp_noise_std :: double
  sp_update_period_ns :: i64
  sp_origin_x :: double
  sp_origin_y :: double
  sp_speed_x :: double
  sp_speed_y :: double
  sp_source_boot_id :: u64
  sp_next_sequence :: u64
  sp_start_time_ns :: i64
  sp_last_emit_time_ns :: i64
  sp_rng_state :: u32
  sp_fault_mode :: u32
  sp_fault_bias :: double
  sp_fault_dropout_prob :: double
  sp_fault_extra_delay_ns :: i64

abbreviation (input) SIM_FAULT_NONE :: u32 where "SIM_FAULT_NONE \<equiv> 0"
abbreviation (input) SIM_FAULT_DROPOUT :: u32 where "SIM_FAULT_DROPOUT \<equiv> 1"
abbreviation (input) SIM_FAULT_BIAS :: u32 where "SIM_FAULT_BIAS \<equiv> 2"
abbreviation (input) SIM_FAULT_DELAY :: u32 where "SIM_FAULT_DELAY \<equiv> 3"

record libm =
  lm_log :: "double \<Rightarrow> double"
  lm_cos :: "double \<Rightarrow> double"

section \<open>Numbers\<close>

definition copy_bounded :: "bytes \<Rightarrow> bytes \<Rightarrow> bytes" where
  "copy_bounded dst src = memcpy dst 0 (takeWhile (\<lambda>c. c \<noteq> 0) (take (length dst - 1) src) @ [0])"

definition xorshift32 :: "u32 \<Rightarrow> u32" where
  "xorshift32 x =
     (let x = x XOR push_bit 13 x; x = x XOR drop_bit 17 x
      in x XOR push_bit 5 x)"

definition uniform01 :: "u32 \<Rightarrow> double \<times> u32" where
  "uniform01 state =
     (let x = xorshift32 state
      in (double_of_int (uint (drop_bit 8 x)) / double_of_int 16777216, x))"

definition gaussian :: "libm \<Rightarrow> u32 \<Rightarrow> double \<Rightarrow> double \<Rightarrow> double \<times> u32" where
  "gaussian lm state mean stddev =
     (case uniform01 state of (u1, state) \<Rightarrow>
        let u1 = (if u1 < double_lit 1 1000000000000 then double_lit 1 1000000000000 else u1) in
        case uniform01 state of (u2, state) \<Rightarrow>
          let two_pi = double_lit 6283185307179586 1000000000000000;
              z = dsqrt (- double_lit 2 1 * lm_log lm u1) * lm_cos lm (two_pi * u2)
          in (mean + stddev * z, state))"

section \<open>Creation\<close>

definition sim_number :: "bytes \<Rightarrow> string \<Rightarrow> double \<Rightarrow> double" where
  "sim_number js key d =
     (case json_object_find js key of
        None \<Rightarrow> d
      | Some sp \<Rightarrow>
          if js_is_string sp then d
          else (case json_parse_number (window js sp) of None \<Rightarrow> d | Some num \<Rightarrow> num))"

definition sim_period :: "bytes \<Rightarrow> i64 \<Rightarrow> i64" where
  "sim_period js d =
     (case json_object_find js ''update_period_ms'' of
        None \<Rightarrow> d
      | Some sp \<Rightarrow>
          if js_is_string sp then d
          else (case json_parse_number (window js sp) of
                  None \<Rightarrow> d
                | Some num \<Rightarrow> word_of_int (double_trunc (num * double_lit 1000000 1))))"

definition sim_sensor_id :: "bytes \<Rightarrow> bytes \<Rightarrow> bytes" where
  "sim_sensor_id js sensor_id =
     (case json_object_find js ''sensor_id'' of
        None \<Rightarrow> sensor_id
      | Some sp \<Rightarrow> if js_is_string sp then snd (json_decode_string (window js sp) sensor_id) else sensor_id)"

definition sim_configure :: "bytes \<Rightarrow> sim_provider \<Rightarrow> sim_provider" where
  "sim_configure js p = p
     \<lparr>sp_sensor_id := sim_sensor_id js (sp_sensor_id p),
      sp_noise_std := sim_number js ''noise_std_m'' (sp_noise_std p),
      sp_update_period_ns := sim_period js (sp_update_period_ns p),
      sp_origin_x := sim_number js ''origin_x'' (sp_origin_x p),
      sp_origin_y := sim_number js ''origin_y'' (sp_origin_y p),
      sp_speed_x := sim_number js ''speed_x'' (sp_speed_x p),
      sp_speed_y := sim_number js ''speed_y'' (sp_speed_y p)\<rparr>"

definition sim_defaults :: sim_provider where
  "sim_defaults =
     \<lparr>sp_sensor_id = copy_bounded (replicate 32 0) (ascii ''sim_sensor''), sp_noise_std = double_lit 2 10,
      sp_update_period_ns = 100 * 1000000, sp_origin_x = 0, sp_origin_y = 0, sp_speed_x = double_lit 1 1,
      sp_speed_y = double_lit 5 10, sp_source_boot_id = 0, sp_next_sequence = 0, sp_start_time_ns = 0,
      sp_last_emit_time_ns = 0, sp_rng_state = 0, sp_fault_mode = SIM_FAULT_NONE, sp_fault_bias = 0,
      sp_fault_dropout_prob = 0, sp_fault_extra_delay_ns = 0\<rparr>"

definition sim_seed :: "u64 \<Rightarrow> u32" where
  "sim_seed instance_seed =
     (let s = (if instance_seed \<noteq> 0 then ucast instance_seed else 0x9E3779B9)
      in if s = 0 then 0x9E3779B9 else s)"

text \<open>The outcome of \<^verbatim>\<open>calloc\<close> and the readings of the clock that an operation makes.\<close>

record sim_env =
  sm_alloc :: bool
  sm_clock :: "nat \<Rightarrow> i64"

definition sim_create :: "sim_env \<Rightarrow> obicall_provider_config option \<Rightarrow> obicall_status \<times> sim_provider option" where
  "sim_create env config =
     (case config of
        None \<Rightarrow> (OBICALL_ERR_NULL_POINTER, None)
      | Some config \<Rightarrow>
          if \<not> sm_alloc env then (OBICALL_ERR_INTERNAL, None)
          else
            (let p = (case pv_config_json config of
                        Some js \<Rightarrow> if js \<noteq> [] then sim_configure js sim_defaults else sim_defaults
                      | None \<Rightarrow> sim_defaults)
             in (OBICALL_OK, Some (p\<lparr>sp_rng_state := sim_seed (pv_instance_seed config),
                  sp_source_boot_id := sm_clock env 0 XOR pv_instance_seed config, sp_next_sequence := 1,
                  sp_start_time_ns := sm_clock env 1, sp_last_emit_time_ns := 0, sp_fault_mode := SIM_FAULT_NONE\<rparr>))))"

section \<open>Faults\<close>

definition sim_control :: bytes where
  "sim_control = ascii ''$ctrl:fault''"

definition sim_submit :: "sim_provider \<Rightarrow> obicall_observation option \<Rightarrow> obicall_status \<times> sim_provider" where
  "sim_submit p obs =
     (case obs of
        None \<Rightarrow> (OBICALL_ERR_NULL_POINTER, p)
      | Some obs \<Rightarrow>
          (let n = obs_payload_count obs; v = (\<lambda>i. obs_payload obs ! i) in
           if cstr (obs_sensor_id obs) = sim_control \<and> n \<ge> 1 then
             (OBICALL_OK, p\<lparr>sp_fault_mode := u32_of_double (v 0),
                sp_fault_bias := (if n \<ge> 2 then v 1 else sp_fault_bias p),
                sp_fault_dropout_prob := (if n \<ge> 3 then v 2 else sp_fault_dropout_prob p),
                sp_fault_extra_delay_ns := (if n \<ge> 4 then word_of_int (double_trunc (v 3 * double_lit 1000000000 1))
                  else sp_fault_extra_delay_ns p)\<rparr>)
           else (OBICALL_OK, p)))"

section \<open>Polling\<close>

definition sim_reading :: "sim_provider \<Rightarrow> i64 \<Rightarrow> double \<Rightarrow> double \<Rightarrow> obicall_observation" where
  "sim_reading p now zx zy =
     (let var = sp_noise_std p * sp_noise_std p in
      \<lparr>obs_struct_size = sizeof_observation, obs_schema_version = OBICALL_OBSERVATION_SCHEMA_VERSION,
       obs_sensor_id = copy_bounded (replicate 32 0) (sp_sensor_id p), obs_source_boot_id = sp_source_boot_id p,
       obs_sequence = sp_next_sequence p,
       obs_sample_time_ns = (if sp_fault_mode p = SIM_FAULT_DELAY then now - sp_fault_extra_delay_ns p else now),
       obs_arrival_time_ns = now, obs_clock_domain = 1, obs_time_uncertainty_s = double_lit 1 100,
       obs_coordinate_frame = OBICALL_FRAME_LOCAL_ENU, obs_units = OBICALL_UNITS_METERS, obs_calibration_version = 1,
       obs_payload_shape = OBICALL_SHAPE_POSITION_2D, obs_payload_count = 2,
       obs_payload = [zx, zy, 0, 0, 0, 0], obs_covariance_count = 4,
       obs_covariance = [var, 0, 0, var] @ replicate 32 0\<rparr>)"

definition sim_event :: "i64 \<Rightarrow> bytes \<Rightarrow> u32 \<Rightarrow> obicall_event" where
  "sim_event now wire_buf wire_len =
     \<lparr>ev_struct_size = sizeof_event, ev_schema_version = 1, ev_event_type = 1, ev_reserved = 0,
      ev_timestamp_ns = now, ev_payload_data = take (unat wire_len) wire_buf, ev_payload_len = wire_len\<rparr>"

text \<open>The position: its two coordinates and the state of the generator.\<close>

definition sim_position :: "libm \<Rightarrow> i64 \<Rightarrow> sim_provider \<Rightarrow> double \<times> double \<times> u32" where
  "sim_position lm now p =
     (let t = double_of_int (sint (now - sp_start_time_ns p)) / double_lit 1000000000 1;
          bias = (if sp_fault_mode p = SIM_FAULT_BIAS then sp_fault_bias p else 0)
      in case gaussian lm (sp_rng_state p) 0 (sp_noise_std p) of (gx, rng) \<Rightarrow>
         case gaussian lm rng 0 (sp_noise_std p) of (gy, rng) \<Rightarrow>
           (sp_origin_x p + sp_speed_x p * t + bias + gx, sp_origin_y p + sp_speed_y p * t + bias + gy, rng))"

definition sim_emit :: "libm \<Rightarrow> i64 \<Rightarrow> sim_provider \<Rightarrow> obicall_status \<times> obicall_event list \<times> sim_provider" where
  "sim_emit lm now p =
     (case sim_position lm now p of (zx, zy, rng) \<Rightarrow>
        let obs = sim_reading p now zx zy;
            p = p\<lparr>sp_rng_state := rng, sp_next_sequence := sp_next_sequence p + 1\<rparr>
        in case obicall_wire_encode_observation (Some obs) (Some (replicate 1024 0)) 1024 (Some 0) of
             Inl _ \<Rightarrow> (OBICALL_ERR_INTERNAL, [], p)
           | Inr (wire_buf, wire_len) \<Rightarrow> (OBICALL_OK, [sim_event now wire_buf wire_len], p))"

text \<open>The events are those passed to the callback; \<^verbatim>\<open>*out_count\<close> is their number.\<close>

definition sim_poll_events :: "libm \<Rightarrow> i64 \<Rightarrow> sim_provider \<Rightarrow> obicall_status \<times> obicall_event list \<times> sim_provider" where
  "sim_poll_events lm now p =
     (if sp_last_emit_time_ns p \<noteq> 0 \<and> sint (now - sp_last_emit_time_ns p) < sint (sp_update_period_ns p)
      then (OBICALL_OK, [], p)
      else
        (let p = p\<lparr>sp_last_emit_time_ns := now\<rparr> in
         if sp_fault_mode p = SIM_FAULT_DROPOUT
         then (case uniform01 (sp_rng_state p) of (u, rng) \<Rightarrow>
                 let p = p\<lparr>sp_rng_state := rng\<rparr>
                 in if u < sp_fault_dropout_prob p then (OBICALL_OK, [], p) else sim_emit lm now p)
         else sim_emit lm now p))"

section \<open>Checkpoints\<close>

definition sim_checkpoint :: "sim_provider \<Rightarrow> bytes" where
  "sim_checkpoint p =
     le_bytes 4 (1 :: u32) @ le_bytes 8 (sp_next_sequence p) @ le_bytes 4 (sp_rng_state p) @
     le_bytes 8 (sp_last_emit_time_ns p)"

definition sim_restore :: "sim_provider \<Rightarrow> bytes \<Rightarrow> obicall_status \<times> sim_provider" where
  "sim_restore p blob =
     (if length blob \<noteq> 24 then (OBICALL_ERR_INVALID_ARGUMENT, p)
      else if (le_word (take 4 blob) :: u32) \<noteq> 1 then (OBICALL_ERR_UNSUPPORTED, p)
      else (OBICALL_OK, p\<lparr>sp_next_sequence := le_word (take 8 (drop 4 blob)),
              sp_rng_state := le_word (take 4 (drop 12 blob)),
              sp_last_emit_time_ns := le_word (take 8 (drop 16 blob))\<rparr>))"

section \<open>The exported tables\<close>

definition fixed_name :: "nat \<Rightarrow> string \<Rightarrow> bytes" where
  "fixed_name n s = memcpy (replicate n 0) 0 (ascii s)"

definition g_descriptor :: obicall_descriptor where
  "g_descriptor = \<lparr>ds_struct_size = sizeof_descriptor, ds_abi_version_major = OBICALL_ABI_VERSION_MAJOR,
     ds_abi_version_minor = OBICALL_ABI_VERSION_MINOR, ds_wire_schema_version = OBICALL_OBSERVATION_SCHEMA_VERSION,
     ds_checkpoint_schema_version = 1, ds_config_schema_version = 1, ds_reserved = 0, ds_capability_flags = 25,
     ds_provider_name = fixed_name 64 ''provider_c_sim'', ds_provider_version = fixed_name 32 ''0.1.0''\<rparr>"

definition g_vtable :: "libm \<Rightarrow> (sim_env, sim_provider) obicall_provider_vtable" where
  "g_vtable lm = \<lparr>vt_struct_size = sizeof_provider_vtable, vt_reserved = 0, vt_create = Some sim_create,
     vt_submit = Some sim_submit, vt_poll_events = Some (\<lambda>env. sim_poll_events lm (sm_clock env 0)),
     vt_checkpoint = Some sim_checkpoint, vt_restore = Some sim_restore, vt_release_buffer = Some (),
     vt_destroy = Some ()\<rparr>"

definition obicall_plugin_query_v1 :: "libm \<Rightarrow> (sim_env, sim_provider) plugin_query" where
  "obicall_plugin_query_v1 lm = (OBICALL_OK, Some g_descriptor, Some (g_vtable lm))"

section \<open>Laws\<close>

text \<open>Shifts and the generator.\<close>

lemma push_bit_fixed:
  assumes "push_bit k x = (x :: 'a::len word)" "0 < k"
  shows "x = 0"
proof (rule bit_eqI)
  fix n
  show "bit x n = bit 0 n"
  proof (induction n rule: less_induct)
    case (less n)
    have "bit x n = bit (push_bit k x) n" using assms(1) by simp
    then show ?case using less [of "n - k"] assms(2) by (auto simp: bit_push_bit_iff)
  qed
qed

lemma drop_bit_fixed:
  assumes "drop_bit k x = (x :: 'a::len word)" "0 < k"
  shows "x = 0"
proof (rule bit_eqI)
  fix n
  have "bit x n = bit x (n + j * k)" for j
  proof (induction j)
    case (Suc j)
    then show ?case using arg_cong [OF assms(1), of "\<lambda>y. bit y (n + j * k)"] by (simp add: bit_drop_bit_eq ac_simps)
  qed simp
  moreover have "LENGTH('a) \<le> n + LENGTH('a) * k" using assms(2) by (simp add: trans_le_add2)
  then have "\<not> bit x (n + LENGTH('a) * k)"
    using bit_imp_le_length [of x "n + LENGTH('a) * k"] by auto
  ultimately show "bit x n = bit 0 n" by simp
qed

lemma xor_eq_zero: "x XOR y = 0 \<longleftrightarrow> y = (x :: 'a::len word)"
  by (metis xor.right_neutral xor.assoc xor_self_eq xor.left_neutral)

lemma xorshift32_nonzero: "x \<noteq> 0 \<Longrightarrow> xorshift32 x \<noteq> 0"
  using push_bit_fixed [of 13 x] drop_bit_fixed [of 17 "x XOR push_bit 13 x"]
    push_bit_fixed [of 5 "(x XOR push_bit 13 x) XOR drop_bit 17 (x XOR push_bit 13 x)"]
  by (auto simp: xorshift32_def Let_def xor_eq_zero)

lemma generator_nonzero:
  "x \<noteq> 0 \<Longrightarrow> snd (uniform01 x) \<noteq> 0" "x \<noteq> 0 \<Longrightarrow> snd (gaussian lm x mean stddev) \<noteq> 0"
  using xorshift32_nonzero by (simp_all add: uniform01_def gaussian_def Let_def case_prod_unfold)

lemma sim_seed_nonzero: "sim_seed seed \<noteq> 0"
  by (simp add: sim_seed_def Let_def)


text \<open>The sensor's name and the arrays of a reading.\<close>

lemma copy_bounded_id: "copy_bounded (replicate 32 0) src = strncpy_id src"
proof -
  let ?s = "takeWhile (\<lambda>c. c \<noteq> 0) (take 31 src)"
  have "length ?s \<le> 31" using length_takeWhile_le [of "\<lambda>c. c \<noteq> 0" "take 31 src"] by simp
  then have "replicate (32 - length ?s) (0 :: u8) = 0 # replicate (31 - length ?s) 0"
    by (simp add: Suc_diff_le flip: replicate_Suc)
  then show ?thesis by (simp add: copy_bounded_def strncpy_id_def memcpy_def Let_def)
qed

lemma strncpy_id_terminated: "0 \<in> set (take 32 (strncpy_id src))"
proof -
  let ?s = "takeWhile (\<lambda>c. c \<noteq> 0) (take 31 src)"
  have "length ?s \<le> 31" using length_takeWhile_le [of "\<lambda>c. c \<noteq> 0" "take 31 src"] by simp
  then show ?thesis by (simp add: strncpy_id_def Let_def)
qed

lemma strncpy_id_first: "src \<noteq> [] \<Longrightarrow> strncpy_id src ! 0 = src ! 0"
  by (cases src) (simp_all add: strncpy_id_def Let_def take_Cons')

lemma reading_encodable: "encodable_observation (sim_reading p now zx zy)" "wf_observation (sim_reading p now zx zy)"
  by (simp_all add: encodable_observation_def wf_observation_def sim_reading_def Let_def copy_bounded_id length_strncpy_id)

lemma reading_norm: "norm_observation (sim_reading p now zx zy) = sim_reading p now zx zy"
proof -
  have "replicate 4 (0 :: double) = [0, 0, 0, 0]" "replicate 32 (0 :: double) = drop 4 (replicate 36 0)"
    by (simp_all add: numeral_eq_Suc)
  then show ?thesis by (simp add: norm_observation_def sim_reading_def Let_def memcpy_def)
qed

lemma reading_encodes:
  "\<exists>buf n. obicall_wire_encode_observation (Some (sim_reading p now zx zy)) (Some (replicate 1024 0)) 1024 (Some 0) =
     Inr (buf, n) \<and> unat n \<le> length buf \<and>
     (\<forall>old. obicall_wire_decode_observation (Some buf) n (Some old) = Inr (sim_reading p now zx zy))"
proof -
  note ok = reading_encodable(1) [of p now zx zy]
  obtain buf n where enc: "obicall_wire_encode_observation (Some (sim_reading p now zx zy)) (Some (replicate 1024 0)) 1024 (Some 0) =
      Inr (buf, n)" "length buf = 1024" "unat n \<le> 444"
    using observation_round_trip [OF ok, of 1024 "replicate 1024 0" 0 "sim_reading p now zx zy"] by auto
  moreover have "obicall_wire_decode_observation (Some buf) n (Some old) = Inr (sim_reading p now zx zy)" for old
    using observation_round_trip [OF ok, of 1024 "replicate 1024 0" 0 old] enc(1) by (auto simp: reading_norm)
  ultimately show ?thesis by auto
qed

text \<open>Emitting a reading.\<close>

definition event_of :: "i64 \<Rightarrow> obicall_observation \<Rightarrow> obicall_event \<Rightarrow> bool" where
  "event_of now obs ev \<longleftrightarrow> sound_event ev \<and> ev_event_type ev = 1 \<and> ev_timestamp_ns ev = now \<and>
     (\<forall>old. event_reading old ev = Some obs)"

lemma emit_outcome:
  assumes "sim_emit lm now p = (st, evs, p')"
  shows "\<exists>ev zx zy rng. st = OBICALL_OK \<and> evs = [ev] \<and> event_of now (sim_reading p now zx zy) ev \<and>
    sim_position lm now p = (zx, zy, rng) \<and>
    p' = p\<lparr>sp_rng_state := rng, sp_next_sequence := sp_next_sequence p + 1\<rparr>"
proof -
  obtain zx zy rng where pos: "sim_position lm now p = (zx, zy, rng)" by (cases "sim_position lm now p")
  obtain buf n where enc: "obicall_wire_encode_observation (Some (sim_reading p now zx zy)) (Some (replicate 1024 0)) 1024 (Some 0) =
      Inr (buf, n)" "unat n \<le> length buf"
    "\<forall>old. obicall_wire_decode_observation (Some buf) n (Some old) = Inr (sim_reading p now zx zy)"
    using reading_encodes [of p now zx zy] by blast
  have "obicall_wire_decode_observation (Some (take (unat n) buf)) n (Some old) = Inr (sim_reading p now zx zy)" for old
    using enc(2,3) observation.decode_local [of n "take (unat n) buf" buf old old] by simp
  then have "event_of now (sim_reading p now zx zy) (sim_event now buf n)"
    using enc(2) by (simp add: event_of_def sound_event_def event_reading_def sim_event_def)
  then show ?thesis
    using assms pos enc(1) by (auto simp: sim_emit_def Let_def)
qed

lemma position_rng: "sim_position lm now p = (zx, zy, rng) \<Longrightarrow> sp_rng_state p \<noteq> 0 \<Longrightarrow> rng \<noteq> 0"
  using generator_nonzero(2) by (auto simp: sim_position_def Let_def split: prod.splits) (metis snd_conv)+

text \<open>A poll: nothing yet, a dropped reading, or one reading.\<close>

lemma poll_outcome:
  assumes "sim_poll_events lm now p = (st, evs, p')"
  shows "st = OBICALL_OK \<and> sp_source_boot_id p' = sp_source_boot_id p \<and>
    sp_update_period_ns p' = sp_update_period_ns p \<and> (sp_rng_state p \<noteq> 0 \<longrightarrow> sp_rng_state p' \<noteq> 0) \<and>
    (p' = p \<and> evs = [] \<or>
     (sp_last_emit_time_ns p = 0 \<or> sint (sp_update_period_ns p) \<le> sint (now - sp_last_emit_time_ns p)) \<and>
     sp_last_emit_time_ns p' = now \<and>
     (evs = [] \<and> sp_next_sequence p' = sp_next_sequence p \<or>
      sp_next_sequence p' = sp_next_sequence p + 1 \<and>
      (\<exists>ev q zx zy. evs = [ev] \<and> event_of now (sim_reading q now zx zy) ev \<and>
         sp_next_sequence q = sp_next_sequence p \<and> sp_source_boot_id q = sp_source_boot_id p \<and>
         sp_sensor_id q = sp_sensor_id p \<and> sp_noise_std q = sp_noise_std p)))"
proof (cases "sp_last_emit_time_ns p \<noteq> 0 \<and> sint (now - sp_last_emit_time_ns p) < sint (sp_update_period_ns p)")
  case True
  then show ?thesis using assms by (simp add: sim_poll_events_def)
next
  case False
  then have due: "sp_last_emit_time_ns p = 0 \<or> sint (sp_update_period_ns p) \<le> sint (now - sp_last_emit_time_ns p)"
    by linarith
  obtain u rng where u: "uniform01 (sp_rng_state p) = (u, rng)" by (cases "uniform01 (sp_rng_state p)")
  then have rng: "sp_rng_state p \<noteq> 0 \<longrightarrow> rng \<noteq> 0" using generator_nonzero(1) [of "sp_rng_state p"] by simp
  let ?p = "p\<lparr>sp_last_emit_time_ns := now\<rparr>"
  let ?q = "?p\<lparr>sp_rng_state := rng\<rparr>"
  have poll: "sim_poll_events lm now p = (if sp_fault_mode p = SIM_FAULT_DROPOUT
      then if u < sp_fault_dropout_prob p then (OBICALL_OK, [], ?q) else sim_emit lm now ?q else sim_emit lm now ?p)"
    unfolding sim_poll_events_def if_not_P [OF False] Let_def by (simp add: u)
  consider "evs = []" "st = OBICALL_OK" "p' = ?q" | q where "sim_emit lm now q = (st, evs, p')" "q = ?p \<or> q = ?q"
  proof (cases "sp_fault_mode p = SIM_FAULT_DROPOUT \<and> u < sp_fault_dropout_prob p")
    case True
    then show ?thesis using assms poll that(1) by simp
  next
    case not_dropped: False
    then have "sim_emit lm now ?q = (st, evs, p') \<or> sim_emit lm now ?p = (st, evs, p')"
      using assms poll by (cases "sp_fault_mode p = SIM_FAULT_DROPOUT") simp_all
    then show ?thesis using that(2) by blast
  qed
  then show ?thesis
  proof cases
    case 1
    then have "sp_source_boot_id p' = sp_source_boot_id p" "sp_update_period_ns p' = sp_update_period_ns p"
      "sp_rng_state p \<noteq> 0 \<longrightarrow> sp_rng_state p' \<noteq> 0" "sp_last_emit_time_ns p' = now"
      "sp_next_sequence p' = sp_next_sequence p"
      using rng by simp_all
    then show ?thesis using due 1(1,2) by blast
  next
    case 2
    obtain ev zx zy r where out: "st = OBICALL_OK" "evs = [ev]" "event_of now (sim_reading q now zx zy) ev"
      "sim_position lm now q = (zx, zy, r)" "p' = q\<lparr>sp_rng_state := r, sp_next_sequence := sp_next_sequence q + 1\<rparr>"
      using emit_outcome [OF 2(1)] by blast
    have q: "sp_next_sequence q = sp_next_sequence p" "sp_source_boot_id q = sp_source_boot_id p"
      "sp_sensor_id q = sp_sensor_id p" "sp_noise_std q = sp_noise_std p" "sp_last_emit_time_ns q = now"
      "sp_update_period_ns q = sp_update_period_ns p" "sp_rng_state p \<noteq> 0 \<longrightarrow> sp_rng_state q \<noteq> 0"
      using 2(2) rng by auto
    have fields: "sp_source_boot_id p' = sp_source_boot_id p" "sp_update_period_ns p' = sp_update_period_ns p"
      "sp_rng_state p \<noteq> 0 \<longrightarrow> sp_rng_state p' \<noteq> 0" "sp_last_emit_time_ns p' = now"
      "sp_next_sequence p' = sp_next_sequence p + 1"
      using out(5) q position_rng [OF out(4)] by simp_all
    have "\<exists>ev q zx zy. evs = [ev] \<and> event_of now (sim_reading q now zx zy) ev \<and>
         sp_next_sequence q = sp_next_sequence p \<and> sp_source_boot_id q = sp_source_boot_id p \<and>
         sp_sensor_id q = sp_sensor_id p \<and> sp_noise_std q = sp_noise_std p"
      using out(2,3) q by blast
    then show ?thesis using fields due out(1) by blast
  qed
qed

lemma submit_outcome:
  "sim_submit p obs = (st, p') \<Longrightarrow> sp_source_boot_id p' = sp_source_boot_id p \<and>
     sp_next_sequence p' = sp_next_sequence p \<and> sp_rng_state p' = sp_rng_state p \<and>
     sp_last_emit_time_ns p' = sp_last_emit_time_ns p \<and> sp_update_period_ns p' = sp_update_period_ns p"
  by (auto simp: sim_submit_def Let_def split: option.splits if_splits)

interpretation sim: numbered_provider "\<lambda>env. sim_poll_events lm (sm_clock env 0)" sim_submit sp_source_boot_id sp_next_sequence
  for lm
proof unfold_locales
  fix e p st evs p'
  assume "sim_poll_events lm (sm_clock e 0) p = (st, evs, p')"
  from poll_outcome [OF this] show "numbered (sp_source_boot_id p) (sp_next_sequence p) evs \<and>
      sp_source_boot_id p' = sp_source_boot_id p \<and> sp_next_sequence p' = sp_next_sequence p + of_nat (length evs)"
    by (auto simp: event_of_def sim_reading_def Let_def)
qed (use submit_outcome in blast)

text \<open>When validation accepts a reading: the variance must be finite, and then the position decides.\<close>

lemma dmant_nonneg: "0 \<le> dmant x"
  by (simp add: dmant_def)

lemma times_sign: "\<not> isnan (x * y) \<Longrightarrow> dsign (x * y) = (dsign x \<noteq> dsign (y :: double))"
  using dround_parts(2) [of "dmant x * dmant y" 1 "dsign x \<noteq> dsign y" "dexpo x + dexpo y"]
    mult_nonneg_nonneg [OF dmant_nonneg dmant_nonneg, of x y]
  by (auto simp: times_double_def Let_def split: if_splits)

lemma plus_sign: "\<not> isnan (x + y) \<Longrightarrow> \<not> dsign x \<Longrightarrow> \<not> dsign y \<Longrightarrow> \<not> dsign (x + y :: double)"
proof -
  assume signs: "\<not> isnan (x + y)" "\<not> dsign x" "\<not> dsign y"
  let ?e = "min (dexpo x) (dexpo y)"
  let ?a = "dmant x * 2 ^ nat (dexpo x - ?e)" and ?b = "dmant y * 2 ^ nat (dexpo y - ?e)"
  have "0 \<le> ?a + ?b" using dmant_nonneg [of x] dmant_nonneg [of y] by simp
  then have "\<not> dsign (dround (?a + ?b < 0) \<bar>?a + ?b\<bar> 1 ?e)" by (subst dround_parts(2)) simp_all
  then show ?thesis using signs by (auto simp: plus_double_def Let_def split: if_splits)
qed

lemma finite_square: "isfinite (x * x) \<Longrightarrow> \<not> dsign (x * x :: double)"
  using times_sign [of x x] isfinite_not_isnan by auto

lemma not_below_negative: "\<not> dsign x \<Longrightarrow> dsign y \<or> dmag y = 0 \<Longrightarrow> \<not> x < (y :: double)"
  by (auto simp: less_double_def) (use dmag_nonneg [of x] dmag_nonneg [of y] in linarith)+

lemma minus_zero: "isfinite x \<Longrightarrow> \<not> dsign x \<Longrightarrow> x - 0 = (x :: double)"
  by (auto simp: minus_double_def plus_double_def isfinite_def isnan_def isinf_def double_eq_iff)

lemma eps_facts: "\<not> dsign eps_1e9" "\<not> isnan eps_1e9" "0 \<le> eps_1e9" "0 * 0 = (0 :: double)"
proof -
  have "eps_1e9 = dround False 1 1000000000 0" by (simp add: double_lit_def)
  then show sign: "\<not> dsign eps_1e9" and nan: "\<not> isnan eps_1e9"
    using dround_parts [of 1 1000000000 False 0] by simp_all
  show "0 \<le> eps_1e9"
    using double_not_less [OF nan not_isnan_zero] not_below_negative [OF sign, of 0] by simp
  show "0 * 0 = (0 :: double)" by code_simp
qed

lemma entry_symmetric: "x - y = 0 \<or> isnan (x - y) \<Longrightarrow> \<not> eps_1e9 * (1 + \<bar>x\<bar> + \<bar>y\<bar>) < \<bar>x - y\<bar>"
proof (cases "isnan (x - y) \<or> isnan (eps_1e9 * (1 + \<bar>x\<bar> + \<bar>y\<bar>))")
  case True
  then show ?thesis using not_less_nan isnan_abs by blast
next
  case False
  assume "x - y = 0 \<or> isnan (x - y)"
  then have zero: "x - y = 0" using False by blast
  have one: "\<not> dsign 1" by code_simp
  have "\<not> isnan (1 + \<bar>x\<bar> + \<bar>y\<bar>)" using False by (auto simp: times_double_def Let_def)
  moreover from this have "\<not> isnan (1 + \<bar>x\<bar>)" by (auto simp: plus_double_def [of "1 + \<bar>x\<bar>"])
  ultimately have "\<not> dsign (1 + \<bar>x\<bar> + \<bar>y\<bar>)" using plus_sign one by simp
  then have "\<not> dsign (eps_1e9 * (1 + \<bar>x\<bar> + \<bar>y\<bar>))" using False times_sign eps_facts(1) by blast
  then show ?thesis using not_below_negative zero by simp
qed

lemma diagonal_symmetric: "covariance_is_symmetric ([v, 0, 0, v] @ rest) 2"
proof -
  have "v - v = 0 \<or> isnan (v - v)" "(0 :: double) - 0 = 0 \<or> isnan (0 - 0 :: double)"
    using double_diff_self by blast+
  note sym = this [THEN entry_symmetric]
  have "[0..<2] = [0, 1 :: nat]" by (simp add: upt_rec)
  then show ?thesis
    using sym by (simp add: covariance_is_symmetric_def symmetric_row_def symmetric_entry_def Let_def)
qed

lemma diagonal_psd:
  assumes "isfinite v" "\<not> dsign v"
  shows "covariance_is_psd ([v, 0, 0, v] @ rest) 2 eps_1e9"
proof -
  define r where "r = (if v > 0 then dsqrt v else 0)"
  have ok: "\<not> v < - eps_1e9" using not_below_negative [OF assms(2)] eps_facts(1) by simp
  have zero: "divide 0 r = (0 :: double)" if "r > eps_1e9"
    using that divide_zero_pos double_le_less_trans [OF eps_facts(3)] by blast
  have v: "v - 0 * 0 = v" using minus_zero [OF assms] eps_facts(4) by simp
  have order: "psd_order 2 = [(0, 0), (1, 0), (1, 1)]" by code_simp
  let ?cov = "[v, 0, 0, v] @ rest" and ?l0 = "replicate 6 (replicate 6 (0 :: double))"
  let ?l1 = "?l0[0 := (?l0 ! 0)[0 := r]]"
  let ?l2 = "?l1[1 := (?l1 ! 1)[0 := 0]]"
  have e1: "psd_entry ?cov 2 eps_1e9 ?l0 (0, 0) = Some ?l1"
    using ok by (simp add: psd_entry_def Let_def r_def)
  have e2: "psd_entry ?cov 2 eps_1e9 ?l1 (1, 0) = Some ?l2"
    by (simp add: psd_entry_def Let_def zero)
  have "psd_entry ?cov 2 eps_1e9 ?l2 (1, 1) \<noteq> None"
    using ok v by (simp add: psd_entry_def Let_def psd_subtract_def)
  moreover have "unat (2 :: u32) = 2" by simp
  ultimately show ?thesis
    unfolding covariance_is_psd_def by (simp only: order psd_loop.simps e1 e2 option.case) (auto split: option.split)
qed

lemma reading_valid:
  assumes "isfinite (sp_noise_std p * sp_noise_std p)" "sp_sensor_id p \<noteq> []" "sp_sensor_id p ! 0 \<noteq> 0"
  shows "fst (obicall_observation_validate (Some (sim_reading p now zx zy))) = OBICALL_OK \<longleftrightarrow> isfinite zx \<and> isfinite zy"
proof -
  have wf: "length (obs_sensor_id (sim_reading p now zx zy)) = 32" "length (obs_payload (sim_reading p now zx zy)) = 6"
    "length (obs_covariance (sim_reading p now zx zy)) = 36"
    using reading_encodable(2) [of p now zx zy] by (simp_all add: wf_observation_def)
  have "isfinite (double_lit 1 100)" "0 \<le> double_lit 1 100" "isfinite 0" by code_simp+
  moreover have "obicall_payload_shape_dimension 2 = 2" by (simp add: obicall_payload_shape_dimension_def)
  ultimately have "observation_ok (sim_reading p now zx zy) \<longleftrightarrow> isfinite zx \<and> isfinite zy"
    using assms strncpy_id_terminated [of "sp_sensor_id p"] strncpy_id_first [OF assms(2)]
      diagonal_symmetric [of "sp_noise_std p * sp_noise_std p" "replicate 32 0"]
      diagonal_psd [OF assms(1) finite_square [OF assms(1)], of "replicate 32 0"]
    by (simp add: observation_ok_def sim_reading_def Let_def copy_bounded_id)
  then show ?thesis using validate_characterised [OF wf] by simp
qed

section \<open>The stream of readings\<close>

abbreviation sim_calls :: "libm \<Rightarrow> sim_env provider_call list \<Rightarrow> sim_provider \<Rightarrow> obicall_event list \<times> sim_provider" where
  "sim_calls lm \<equiv> provider_calls (\<lambda>env. sim_poll_events lm (sm_clock env 0)) sim_submit"

definition poll_times :: "sim_env provider_call list \<Rightarrow> int list" where
  "poll_times cs = concat (map (\<lambda>c. case c of Poll env \<Rightarrow> [sint (sm_clock env 0)] | Submit _ \<Rightarrow> []) cs)"

definition event_times :: "obicall_event list \<Rightarrow> int list" where
  "event_times evs = map (\<lambda>ev. sint (ev_timestamp_ns ev)) evs"

definition apart :: "int \<Rightarrow> int list \<Rightarrow> bool" where
  "apart d ts = sorted_wrt (\<lambda>a b. a + d \<le> b) ts"

lemma time_difference: "0 \<le> sint a \<Longrightarrow> sint a \<le> sint b \<Longrightarrow> sint (b - a) = sint (b :: i64) - sint a"
  using sint_lt [of b] by (simp add: sint_word_ariths(2) signed_take_bit_int_eq_self)

lemma calls_keep:
  "sim_calls lm cs p = (evs, p') \<Longrightarrow> sp_update_period_ns p' = sp_update_period_ns p \<and>
     (sp_rng_state p \<noteq> 0 \<longrightarrow> sp_rng_state p' \<noteq> 0)"
proof (induction cs arbitrary: p evs)
  case (Cons c cs)
  show ?case
  proof (cases c)
    case (Submit obs)
    obtain st q where "sim_submit p obs = (st, q)" by (cases "sim_submit p obs")
    then show ?thesis using Cons Submit submit_outcome [of p obs st q] by simp
  next
    case (Poll e)
    obtain st now q where "sim_poll_events lm (sm_clock e 0) p = (st, now, q)"
      by (cases "sim_poll_events lm (sm_clock e 0) p")
    then show ?thesis
      using Cons Poll poll_outcome [of lm "sm_clock e 0" p st now q] by (cases "sim_calls lm cs q") simp
  qed
qed simp

lemma calls_paced:
  assumes "sim_calls lm cs p = (evs, p')" "sorted (poll_times cs)" "\<forall>t \<in> set (poll_times cs). 0 < t \<and> sint (sp_last_emit_time_ns p) \<le> t"
    and "0 \<le> sint (sp_last_emit_time_ns p)" "sint (sp_update_period_ns p) = d"
  shows "apart d (event_times evs) \<and> set (event_times evs) \<subseteq> set (poll_times cs) \<and>
    (sp_last_emit_time_ns p = 0 \<or> (\<forall>t \<in> set (event_times evs). sint (sp_last_emit_time_ns p) + d \<le> t))"
  using assms
proof (induction cs arbitrary: p evs)
  case Nil
  then show ?case by (simp add: event_times_def apart_def)
next
  case (Cons c cs)
  show ?case
  proof (cases c)
    case (Submit obs)
    obtain st q where q: "sim_submit p obs = (st, q)" by (cases "sim_submit p obs")
    have "poll_times (c # cs) = poll_times cs" using Submit by (simp add: poll_times_def)
    then show ?thesis using Cons.IH [of q evs] Cons.prems Submit q submit_outcome [OF q] by simp
  next
    case (Poll e)
    let ?now = "sm_clock e 0" and ?last = "sp_last_emit_time_ns p"
    have times: "poll_times (c # cs) = sint ?now # poll_times cs" using Poll by (simp add: poll_times_def)
    obtain st now q where step: "sim_poll_events lm ?now p = (st, now, q)"
      by (cases "sim_poll_events lm (sm_clock e 0) p")
    obtain later where later: "sim_calls lm cs q = (later, p')" "evs = now @ later"
      using Cons.prems(1) step Poll by (cases "sim_calls lm cs q") simp
    have after: "sorted (poll_times cs)" "\<forall>t \<in> set (poll_times cs). 0 < t \<and> sint ?now \<le> t \<and> sint ?last \<le> t"
      "0 < sint ?now" "sint ?last \<le> sint ?now"
      using Cons.prems(2,3) times by auto
    note out = poll_outcome [OF step]
    show ?thesis
    proof (cases "q = p \<and> now = []")
      case True
      then have "evs = later" using later(2) by simp
      with Cons.IH [OF later(1)] True after Cons.prems(4,5) times show ?thesis by auto
    next
      case False
      have due: "?last = 0 \<or> d \<le> sint ?now - sint ?last" and q: "sp_last_emit_time_ns q = ?now"
        "sint (sp_update_period_ns q) = d"
        using out False Cons.prems(4,5) time_difference [OF Cons.prems(4) after(4)] by auto
      have rest: "apart d (event_times later)" "set (event_times later) \<subseteq> set (poll_times cs)"
        "?now = 0 \<or> (\<forall>t \<in> set (event_times later). sint ?now + d \<le> t)"
        using Cons.IH [OF later(1) after(1)] after q by auto
      have gap: "\<forall>t \<in> set (event_times later). sint ?now + d \<le> t" using rest(3) after(3) by auto
      have evs: "event_times evs = event_times later \<or> event_times evs = sint ?now # event_times later"
        using out False later(2) by (auto simp: event_times_def event_of_def)
      have "apart d (event_times evs)" using evs rest(1) gap by (auto simp: apart_def)
      moreover have "set (event_times evs) \<subseteq> set (poll_times (c # cs))" using evs rest(2) times by auto
      moreover have "?last = 0 \<or> (\<forall>t \<in> set (event_times evs). sint ?last + d \<le> t)"
        using evs gap due after(4) by fastforce
      ultimately show ?thesis by blast
    qed
  qed
qed

lemma created:
  assumes "sim_create env (Some config) = (OBICALL_OK, Some p)"
  shows "sp_next_sequence p = 1" "sp_source_boot_id p = sm_clock env 0 XOR pv_instance_seed config"
    "sp_rng_state p \<noteq> 0" "sp_last_emit_time_ns p = 0"
  using assms sim_seed_nonzero by (auto simp: sim_create_def Let_def split: if_splits)

text \<open>
  C36: from its creation on, whatever is polled and submitted, the provider's events carry its readings number 1,
  2, 3 and so on, all under the boot id of this instance; when its clock never runs backwards, they are at least
  one period of its configuration apart; and the state of its generator never becomes zero, where it would stay.
\<close>

theorem sim_stream:
  assumes "sim_create env (Some config) = (OBICALL_OK, Some p)" and "sim_calls lm cs p = (evs, p')"
    and "sorted (poll_times cs)" and "\<forall>t \<in> set (poll_times cs). 0 < t"
  shows "numbered (sm_clock env 0 XOR pv_instance_seed config) 1 evs \<and>
    apart (sint (sp_update_period_ns p)) (event_times evs) \<and> sp_rng_state p' \<noteq> 0"
proof -
  note new = created [OF assms(1)]
  have "numbered (sm_clock env 0 XOR pv_instance_seed config) 1 evs"
    using sim.calls_numbered [OF assms(2)] new(1,2) by simp
  moreover have "apart (sint (sp_update_period_ns p)) (event_times evs)"
    using calls_paced [OF assms(2,3), of "sint (sp_update_period_ns p)"] assms(4) new(4) by (simp add: order_less_imp_le)
  moreover have "sp_rng_state p' \<noteq> 0" using calls_keep [OF assms(2)] new(3) by blast
  ultimately show ?thesis by blast
qed

definition plain_config :: obicall_provider_config where
  "plain_config = \<lparr>pv_struct_size = sizeof_provider_config, pv_config_schema_version = 1,
     pv_config_json = None, pv_instance_seed = 5\<rparr>"

definition at_time :: "i64 \<Rightarrow> sim_env" where
  "at_time t = \<lparr>sm_alloc = True, sm_clock = (\<lambda>_. t)\<rparr>"

lemma plain_created: "\<exists>p. sim_create (at_time 1000) (Some plain_config) = (OBICALL_OK, Some p)"
  by (simp add: sim_create_def plain_config_def at_time_def Let_def)

theorem sim_stream_witness:
  "\<exists>p evs p'. sim_create (at_time 1000) (Some plain_config) = (OBICALL_OK, Some p) \<and>
     sim_calls \<lparr>lm_log = (\<lambda>x. x), lm_cos = (\<lambda>x. x)\<rparr> [Poll (at_time 1000), Poll (at_time 2000)] p = (evs, p') \<and>
     numbered (1000 XOR 5) 1 evs"
proof -
  let ?lm = "\<lparr>lm_log = (\<lambda>x. x), lm_cos = (\<lambda>x. x)\<rparr>" and ?cs = "[Poll (at_time 1000), Poll (at_time 2000)]"
  obtain p where p: "sim_create (at_time 1000) (Some plain_config) = (OBICALL_OK, Some p)" using plain_created by blast
  obtain evs p' where run: "sim_calls ?lm ?cs p = (evs, p')" by (cases "sim_calls ?lm ?cs p")
  have "sorted (poll_times ?cs)" "\<forall>t \<in> set (poll_times ?cs). 0 < t"
    by (simp_all add: poll_times_def at_time_def)
  from sim_stream [OF p run this] p run show ?thesis by (auto simp: at_time_def plain_config_def)
qed

section \<open>Resuming\<close>

lemma checkpoint_parts:
  "take 4 (sim_checkpoint p) = le_bytes 4 (1 :: u32)"
  "take 8 (drop 4 (sim_checkpoint p)) = le_bytes 8 (sp_next_sequence p)"
  "take 4 (drop 12 (sim_checkpoint p)) = le_bytes 4 (sp_rng_state p)"
  "take 8 (drop 16 (sim_checkpoint p)) = le_bytes 8 (sp_last_emit_time_ns p)" "length (sim_checkpoint p) = 24"
  by (simp_all add: sim_checkpoint_def)

text \<open>
  a checkpoint that is restored gives any instance the number of the next reading, the generator and the
  pace of the one it was taken from, and nothing else changes; every other length or version is refused and leaves
  the instance as it was.
\<close>

theorem sim_checkpoint_restores:
  "sim_restore q (sim_checkpoint p) = (OBICALL_OK, q\<lparr>sp_next_sequence := sp_next_sequence p,
       sp_rng_state := sp_rng_state p, sp_last_emit_time_ns := sp_last_emit_time_ns p\<rparr>) \<and>
   (fst (sim_restore q blob) = OBICALL_OK \<longleftrightarrow> length blob = 24 \<and> (le_word (take 4 blob) :: u32) = 1) \<and>
   (fst (sim_restore q blob) = OBICALL_OK \<or> snd (sim_restore q blob) = q)"
  by (simp add: sim_restore_def checkpoint_parts)

text \<open>A checkpoint is not checked beyond that: with a zero generator, every number drawn afterwards is the same.\<close>

lemma zero_generator_sticks: "uniform01 0 = (0, 0)"
  by code_simp

end
