(* ===== verification/Worker.thy ===== *)
theory Worker
  imports Startup C_Sim
begin

text \<open>
  \<^verbatim>\<open>src/worker/worker_main.c\<close>: the process that hosts one provider. Its start checks the manifest, the artifact's
  digest and the plugin's tables before it creates the provider and connects to the journal; its loop polls the
  provider and forwards every valid reading. The hooks compiled in for tests are not modelled.
\<close>

section \<open>Arguments and files\<close>

record worker_args =
  wa_manifest_path :: bytes
  wa_journal_port :: u16
  wa_token_hex :: bytes
  wa_runtime_dir :: bytes
  wa_worker_name :: bytes
  wa_fault_file :: "bytes option"
  wa_instance_seed :: i64

definition worker_arguments :: "bytes list \<Rightarrow> worker_args option" where
  "worker_arguments argv =
     (case (procutil_arg_str argv ''--manifest'' None, procutil_arg_str argv ''--journal-port'' None,
         procutil_arg_str argv ''--token'' None) of
        (Some manifest_path, Some journal_port, Some token_hex) \<Rightarrow> Some
          \<lparr>wa_manifest_path = manifest_path, wa_journal_port = ucast (strtoll journal_port), wa_token_hex = token_hex,
           wa_runtime_dir = the (procutil_arg_str argv ''--runtime-dir'' (Some [DOT])),
           wa_worker_name = the (procutil_arg_str argv ''--worker-name'' (Some (ascii ''worker''))),
           wa_fault_file = procutil_arg_str argv ''--fault-file'' None,
           wa_instance_seed = procutil_arg_i64 argv ''--instance-seed'' 1\<rparr>
      | _ \<Rightarrow> None)"

definition worker_token :: "bytes \<Rightarrow> bytes option" where
  "worker_token token_hex = (if length token_hex \<noteq> 32 * 2 then None else procutil_hex_decode token_hex 32)"

definition read_whole_file :: "files \<Rightarrow> bytes \<Rightarrow> nat \<Rightarrow> bytes option" where
  "read_whole_file fs path cap =
     (case fs path of
        None \<Rightarrow> None
      | Some content \<Rightarrow> if length content > cap then None else Some content)"

definition worker_manifest :: "files \<Rightarrow> bytes \<Rightarrow> obicall_manifest option" where
  "worker_manifest fs path =
     (case read_whole_file fs path 8192 of
        None \<Rightarrow> None
      | Some buf \<Rightarrow>
          (case obicall_manifest_parse_json (Some buf) (Some zero_manifest) (Some (replicate 256 0)) 256 of
             (Inr m, _) \<Rightarrow> Some m
           | _ \<Rightarrow> None))"

definition has_known_ext :: "bytes \<Rightarrow> bool" where
  "has_known_ext path \<longleftrightarrow>
     has_suffix path (ascii ''.so'') \<or> has_suffix path (ascii ''.dll'') \<or> has_suffix path (ascii ''.dylib'')"

definition artifact_path :: "bytes \<Rightarrow> obicall_manifest \<Rightarrow> bytes" where
  "artifact_path manifest_path m =
     (let path = cstring (mf_artifact_path m)
      in snd (snprintf 1024 (dirname_of manifest_path 512 @ SLASH # path @
           (if has_known_ext path then [] else ascii ''.so''))))"

section \<open>Integrity and compatibility\<close>

text \<open>What successive reads of a chunk each return until the end of the file.\<close>

function chunks :: "nat \<Rightarrow> bytes \<Rightarrow> bytes list" where
  "chunks n bs = (if bs = [] \<or> n = 0 then [] else take n bs # chunks n (drop n bs))"
  by pat_completeness auto
termination by (relation "measure (\<lambda>(n, bs). length bs)") auto

declare chunks.simps [simp del]

definition file_digest :: "bytes \<Rightarrow> bytes option" where
  "file_digest content = do {
     let ctx = obicall_sha256_init
       \<lparr>sha_state = replicate 8 0, sha_total_len = 0, sha_buffer = replicate 64 0, sha_buffer_len = 0\<rparr>;
     ctx \<leftarrow> sha256_update_all ctx (chunks 65536 content);
     (ctx, digest) \<leftarrow> obicall_sha256_final ctx;
     Some digest
   }"

text \<open>The exit code of a refused artifact.\<close>

definition verify_artifact :: "files \<Rightarrow> bytes \<Rightarrow> obicall_manifest \<Rightarrow> int option" where
  "verify_artifact fs path m =
     (if mf_has_artifact_sha256 m = 0 then None
      else
        (case fs path of
           None \<Rightarrow> Some 2
         | Some content \<Rightarrow> if file_digest content \<noteq> Some (mf_artifact_sha256 m) then Some 3 else None))"

definition compatible_descriptor :: "obicall_descriptor \<Rightarrow> bool" where
  "compatible_descriptor d \<longleftrightarrow>
     \<not> (ds_struct_size d < sizeof_descriptor \<or> ds_abi_version_major d \<noteq> OBICALL_ABI_VERSION_MAJOR \<or>
        ds_abi_version_minor d > OBICALL_ABI_VERSION_MINOR)"

definition complete_vtable :: "('e, 'p) obicall_provider_vtable \<Rightarrow> bool" where
  "complete_vtable v \<longleftrightarrow>
     \<not> (vt_struct_size v < sizeof_provider_vtable \<or> vt_create v = None \<or> vt_submit v = None \<or>
        vt_poll_events v = None \<or> vt_destroy v = None \<or> vt_release_buffer v = None)"

text \<open>\<open>modules\<close>: the modules that can be loaded, and their query function where they export it.\<close>

definition load_plugin :: "(bytes \<Rightarrow> ('e, 'p) plugin_query option option) \<Rightarrow> bytes \<Rightarrow>
    int + ('e, 'p) obicall_provider_vtable" where
  "load_plugin modules path =
     (case modules path of
        None \<Rightarrow> Inl 4
      | Some None \<Rightarrow> Inl 5
      | Some (Some (st, descriptor, vtable)) \<Rightarrow>
          (case (descriptor, vtable) of
             (Some d, Some v) \<Rightarrow>
               if st \<noteq> OBICALL_OK then Inl 6
               else if \<not> compatible_descriptor d then Inl 7
               else if \<not> complete_vtable v then Inl 7
               else Inr v
           | _ \<Rightarrow> Inl 6))"

section \<open>Starting\<close>

record ('e, 'p) worker_env =
  we_pid :: i64
  we_pid_file :: file_env
  we_modules :: "bytes \<Rightarrow> ('e, 'p) plugin_query option option"
  we_create :: 'e
  we_connected :: "u16 \<Rightarrow> bool"
  we_polls :: "poll list"

record ('e, 'p) worker =
  wk_args :: worker_args
  wk_vtable :: "('e, 'p) obicall_provider_vtable"
  wk_handle :: 'p
  wk_wire :: bytes
  wk_forwarded :: u32
  wk_last_fault :: bytes
  wk_last_heartbeat :: i64
  wk_files :: files

definition provider_config :: "obicall_manifest \<Rightarrow> i64 \<Rightarrow> obicall_provider_config" where
  "provider_config m instance_seed =
     \<lparr>pv_struct_size = sizeof_provider_config, pv_config_schema_version = mf_config_schema_version m,
      pv_config_json = Some (cstring (mf_config_json m)), pv_instance_seed = instance_seed\<rparr>"

definition worker_load :: "('e, 'p) worker_env \<Rightarrow> worker_args \<Rightarrow> files \<Rightarrow>
    int + bytes \<times> ('e, 'p) obicall_provider_vtable \<times> 'p" where
  "worker_load env a fs =
     (case worker_token (wa_token_hex a) of
        None \<Rightarrow> Inl 2
      | Some token \<Rightarrow>
          (case worker_manifest fs (wa_manifest_path a) of
             None \<Rightarrow> Inl 2
           | Some m \<Rightarrow>
               let path = artifact_path (wa_manifest_path a) m in
               case verify_artifact fs path m of
                 Some code \<Rightarrow> Inl code
               | None \<Rightarrow>
                   (case load_plugin (we_modules env) path of
                      Inl code \<Rightarrow> Inl code
                    | Inr v \<Rightarrow>
                        (case the (vt_create v) (we_create env) (Some (provider_config m (wa_instance_seed a))) of
                           (st, Some handle) \<Rightarrow> if st \<noteq> OBICALL_OK then Inl 8 else Inr (token, v, handle)
                         | (st, None) \<Rightarrow> Inl 8))))"

text \<open>
  The exit code and the files at that point, or the worker at its loop. The pid file is written before the token
  and the manifest are checked. The value is \<open>None\<close> while the connection is being set up.
\<close>

definition worker_start :: "('e, 'p) worker_env \<Rightarrow> bytes list \<Rightarrow> files \<Rightarrow> (int \<times> files + ('e, 'p) worker) option" where
  "worker_start env argv fs =
     (case worker_arguments argv of
        None \<Rightarrow> Some (Inl (2, fs))
      | Some a \<Rightarrow>
          let fs = snd (procutil_write_pid_file (we_pid_file env) (wa_runtime_dir a) (wa_worker_name a) (we_pid env) fs) in
          case worker_load env a fs of
            Inl code \<Rightarrow> Some (Inl (code, fs))
          | Inr (token, v, handle) \<Rightarrow>
              (case procutil_client_connect (we_connected env (wa_journal_port a)) token OBICALL_ROLE_WORKER (we_polls env) of
                 None \<Rightarrow> None
               | Some (rc, _, wire) \<Rightarrow>
                   if rc \<noteq> 0 then Some (Inl (9, fs))
                   else Some (Inr \<lparr>wk_args = a, wk_vtable = v, wk_handle = handle, wk_wire = wire, wk_forwarded = 0,
                          wk_last_fault = [], wk_last_heartbeat = 0, wk_files = fs\<rparr>)))"

section \<open>Forwarding\<close>

definition submission :: "obicall_event \<Rightarrow> (bytes \<times> u32) option" where
  "submission ev =
     (if ev_event_type ev \<noteq> 1 then None
      else
        (case obicall_wire_decode_observation (Some (ev_payload_data ev)) (ev_payload_len ev) (Some fresh_observation) of
           Inl _ \<Rightarrow> None
         | Inr obs \<Rightarrow>
             if fst (obicall_observation_validate (Some obs)) \<noteq> OBICALL_OK then None
             else
               (case obicall_wire_encode_observation (Some obs) (Some (replicate 1200 0)) 1200 (Some 0) of
                  Inl _ \<Rightarrow> None
                | Inr (buf, len) \<Rightarrow> Some (buf, len))))"

definition on_provider_event :: "poll list \<Rightarrow> obicall_event \<Rightarrow> u32 \<times> bytes \<Rightarrow> (u32 \<times> bytes) option" where
  "on_provider_event ps ev ctx =
     (case submission ev of
        None \<Rightarrow> Some ctx
      | Some (buf, len) \<Rightarrow>
          (case osal_send_frame OBICALL_MSG_OBSERVATION_SUBMIT buf len ps (snd ctx) of
             None \<Rightarrow> None
           | Some (rc, _, wire) \<Rightarrow> Some (if rc = 0 then fst ctx + 1 else fst ctx, wire)))"

text \<open>The callbacks of one poll; \<open>sends k\<close> is the schedule the socket follows for the event number \<open>k\<close>.\<close>

primrec forward_events :: "(nat \<Rightarrow> poll list) \<Rightarrow> nat \<Rightarrow> obicall_event list \<Rightarrow> u32 \<times> bytes \<Rightarrow> (u32 \<times> bytes) option" where
  "forward_events sends k [] ctx = Some ctx"
| "forward_events sends k (ev # evs) ctx =
     (case on_provider_event (sends k) ev ctx of
        None \<Rightarrow> None
      | Some ctx \<Rightarrow> forward_events sends (k + 1) evs ctx)"

section \<open>Fault control\<close>

text \<open>\<^verbatim>\<open>"%lf"\<close> on a decimal text: the number and what follows it.\<close>

definition scan_exponent :: "bytes \<Rightarrow> (int \<times> bytes) option" where
  "scan_exponent bs =
     (if bs \<noteq> [] \<and> (hd bs = CH_e \<or> hd bs = CH_E) then
        (let neg = (tl bs \<noteq> [] \<and> hd (tl bs) = MINUS);
             bs = (if tl bs \<noteq> [] \<and> (hd (tl bs) = MINUS \<or> hd (tl bs) = PLUS) then tl (tl bs) else tl bs);
             ds = takeWhile is_digit bs
         in if ds = [] then None
            else Some (if neg then - digits_value ds else digits_value ds, dropWhile is_digit bs))
      else Some (0, bs))"

definition scan_double :: "bytes \<Rightarrow> (double \<times> bytes) option" where
  "scan_double bs =
     (let bs = dropWhile is_space bs;
          neg = (bs \<noteq> [] \<and> hd bs = MINUS);
          bs = (if bs \<noteq> [] \<and> (hd bs = MINUS \<or> hd bs = PLUS) then tl bs else bs);
          whole = takeWhile is_digit bs;
          bs = dropWhile is_digit bs;
          (frac, bs) = (if bs \<noteq> [] \<and> hd bs = DOT
             then (takeWhile is_digit (tl bs), dropWhile is_digit (tl bs)) else ([], bs))
      in if whole = [] \<and> frac = [] then None
         else map_option (\<lambda>(e, bs). (decimal_double neg (digits_value (whole @ frac)) (e - int (length frac)), bs))
                (scan_exponent bs))"

primrec scan_doubles :: "nat \<Rightarrow> bytes \<Rightarrow> double list" where
  "scan_doubles 0 bs = []"
| "scan_doubles (Suc n) bs =
     (case scan_double bs of
        None \<Rightarrow> []
      | Some (d, bs) \<Rightarrow> d # scan_doubles n bs)"

definition fault_control :: "bytes \<Rightarrow> obicall_observation" where
  "fault_control buf = fresh_observation
     \<lparr>obs_struct_size := sizeof_observation, obs_schema_version := OBICALL_OBSERVATION_SCHEMA_VERSION,
      obs_sensor_id := strncpy_id sim_control, obs_coordinate_frame := OBICALL_FRAME_LOCAL_ENU,
      obs_units := OBICALL_UNITS_METERS, obs_payload_shape := OBICALL_SHAPE_POSITION_2D_VELOCITY,
      obs_payload_count := 4,
      obs_payload := (let vs = scan_doubles 4 buf in vs @ replicate (6 - length vs) 0)\<rparr>"

definition apply_fault_file :: "('p \<Rightarrow> obicall_observation option \<Rightarrow> obicall_status \<times> 'p) \<Rightarrow> bytes option \<Rightarrow>
    'p \<times> bytes \<Rightarrow> 'p \<times> bytes" where
  "apply_fault_file submit content state =
     (case content of
        None \<Rightarrow> state
      | Some content \<Rightarrow>
          (let buf = cstring (take 127 content) in
           if buf = snd state then state
           else (snd (submit (fst state) (Some (fault_control buf))), buf)))"

section \<open>The loop\<close>

record 'e pass_env =
  pa_fault :: "bytes option"
  pa_poll :: 'e
  pa_sends :: "nat \<Rightarrow> poll list"
  pa_now :: i64
  pa_pid_file :: file_env

definition heartbeat :: "i64 \<Rightarrow> 'e pass_env \<Rightarrow> ('e, 'p) worker \<Rightarrow> ('e, 'p) worker" where
  "heartbeat pid env w =
     (if sint (pa_now env - wk_last_heartbeat w) \<ge> 200 * 1000000
      then w\<lparr>wk_files := snd (procutil_write_pid_file (pa_pid_file env) (wa_runtime_dir (wk_args w))
                 (wa_worker_name (wk_args w)) pid (wk_files w)),
             wk_last_heartbeat := pa_now env\<rparr>
      else w)"

definition worker_pass :: "i64 \<Rightarrow> 'e pass_env \<Rightarrow> ('e, 'p) worker \<Rightarrow> ('e, 'p) worker option" where
  "worker_pass pid env w =
     (case (if wa_fault_file (wk_args w) = None then (wk_handle w, wk_last_fault w)
            else apply_fault_file (the (vt_submit (wk_vtable w))) (pa_fault env) (wk_handle w, wk_last_fault w)) of
        (handle, last_fault) \<Rightarrow>
          case the (vt_poll_events (wk_vtable w)) (pa_poll env) handle of
            (st, evs, handle) \<Rightarrow>
              (case forward_events (pa_sends env) 0 evs (wk_forwarded w, wk_wire w) of
                 None \<Rightarrow> None
               | Some (forwarded, wire) \<Rightarrow>
                   Some (heartbeat pid env (w\<lparr>wk_handle := handle, wk_last_fault := last_fault,
                      wk_forwarded := forwarded, wk_wire := wire\<rparr>))))"

primrec worker_passes :: "i64 \<Rightarrow> 'e pass_env list \<Rightarrow> ('e, 'p) worker \<Rightarrow> ('e, 'p) worker option" where
  "worker_passes pid [] w = Some w"
| "worker_passes pid (env # envs) w = Option.bind (worker_pass pid env w) (worker_passes pid envs)"

section \<open>Laws\<close>

text \<open>What the worker makes of an event: the reading it forwards.\<close>

definition accepted :: "obicall_event \<Rightarrow> obicall_observation option" where
  "accepted ev =
     (if ev_event_type ev = 1 then
        (case event_reading fresh_observation ev of
           Some obs \<Rightarrow> if fst (obicall_observation_validate (Some obs)) = OBICALL_OK then Some obs else None
         | None \<Rightarrow> None)
      else None)"

definition reading_frame :: "obicall_observation \<Rightarrow> u8 \<times> bytes" where
  "reading_frame obs = (OBICALL_MSG_OBSERVATION_SUBMIT, observation_layout obs)"

lemma accepted_encodable:
  assumes "sound_event ev" "accepted ev = Some obs"
  shows "encodable_observation obs" "norm_observation obs = obs" "length (observation_layout obs) \<le> 444"
proof -
  have "obicall_wire_decode_observation (Some (ev_payload_data ev)) (ev_payload_len ev) (Some fresh_observation) = Inr obs"
    using assms(2) by (auto simp: accepted_def event_reading_def split: if_splits sum.splits)
  note canonical = observation.decode_canonical [OF _ this]
  show "encodable_observation obs" "norm_observation obs = obs" using canonical assms(1) by (simp_all add: sound_event_def)
  then show "length (observation_layout obs) \<le> 444" by (intro observation_layout_max)
qed

lemma submission_accepted:
  assumes "sound_event ev"
  shows "accepted ev = None \<Longrightarrow> submission ev = None"
    and "accepted ev = Some obs \<Longrightarrow> \<exists>buf n. submission ev = Some (buf, n) \<and> take (unat n) buf = observation_layout obs \<and>
      n = of_nat (length (observation_layout obs))"
proof -
  show "submission ev = None" if "accepted ev = None"
    using that by (auto simp: accepted_def submission_def event_reading_def split: sum.splits if_splits)
  assume acc: "accepted ev = Some obs"
  note ok = accepted_encodable [OF assms acc]
  obtain buf n where enc: "obicall_wire_encode_observation (Some obs) (Some (replicate 1200 0)) 1200 (Some 0) = Inr (buf, n)"
    using observation.roundtrip [OF ok(1), of 1200 "replicate 1200 0" 0 fresh_observation] ok(3) by auto
  have "unat n = length (observation_layout obs)" "take (unat n) buf = observation_layout obs"
    using observation.encode_Inr [OF ok(1) _ enc] by simp_all
  moreover have "n = of_nat (length (observation_layout obs))"
    using arg_cong [OF \<open>unat n = _\<close>, of "of_nat :: nat \<Rightarrow> u32"] by simp
  moreover have "submission ev = Some (buf, n)"
    using acc enc by (auto simp: accepted_def submission_def event_reading_def split: sum.splits if_splits)
  ultimately show "\<exists>buf n. submission ev = Some (buf, n) \<and> take (unat n) buf = observation_layout obs \<and>
      n = of_nat (length (observation_layout obs))" by blast
qed

text \<open>A socket that takes whole frames.\<close>

definition steady_sends :: "'e pass_env \<Rightarrow> bool" where
  "steady_sends env \<longleftrightarrow> (\<forall>k. list_all ready (pa_sends env k) \<and> 460 \<le> length (pa_sends env k))"

lemma event_forwarded:
  assumes "sound_event ev" "list_all ready ps" "460 \<le> length ps"
  shows "on_provider_event ps ev (k, wire) = Some (case accepted ev of None \<Rightarrow> (k, wire)
    | Some obs \<Rightarrow> (k + 1, wire @ frame_layout (reading_frame obs)))"
proof (cases "accepted ev")
  case None
  then show ?thesis using submission_accepted(1) [OF assms(1)] by (simp add: on_provider_event_def)
next
  case (Some obs)
  obtain buf n where buf: "submission ev = Some (buf, n)" "take (unat n) buf = observation_layout obs"
      "n = of_nat (length (observation_layout obs))"
    using submission_accepted(2) [OF assms(1) Some] by blast
  have len: "length (observation_layout obs) \<le> 444" using accepted_encodable [OF assms(1) Some] by simp
  obtain ps' where "osal_send_frame OBICALL_MSG_OBSERVATION_SUBMIT (observation_layout obs)
      (of_nat (length (observation_layout obs))) ps wire =
      Some (0, ps', wire @ frame_layout (OBICALL_MSG_OBSERVATION_SUBMIT, observation_layout obs))"
    using send_frame_live [OF assms(2), of OBICALL_MSG_OBSERVATION_SUBMIT "observation_layout obs" wire] len assms(3)
    by (auto simp: frame_layout_def sendable_def)
  then have "osal_send_frame OBICALL_MSG_OBSERVATION_SUBMIT buf n ps wire =
      Some (0, ps', wire @ frame_layout (OBICALL_MSG_OBSERVATION_SUBMIT, observation_layout obs))"
    using send_frame_take [of OBICALL_MSG_OBSERVATION_SUBMIT n buf ps wire] buf(2,3) by simp
  then show ?thesis using buf(1) Some by (simp add: on_provider_event_def reading_frame_def)
qed

abbreviation frames_wire :: "(u8 \<times> bytes) list \<Rightarrow> bytes" where
  "frames_wire fs \<equiv> concat (map frame_layout fs)"

lemma events_forwarded:
  assumes "\<forall>ev \<in> set evs. sound_event ev" "steady_sends env"
  shows "forward_events (pa_sends env) j evs (k, wire) =
    Some (k + of_nat (length (List.map_filter accepted evs)),
          wire @ frames_wire (map reading_frame (List.map_filter accepted evs)))"
  using assms(1)
proof (induction evs arbitrary: j k wire)
  case Nil
  then show ?case by (simp add: map_filter_simps)
next
  case (Cons ev evs)
  have "on_provider_event (pa_sends env j) ev (k, wire) = Some (case accepted ev of None \<Rightarrow> (k, wire)
    | Some obs \<Rightarrow> (k + 1, wire @ frame_layout (reading_frame obs)))"
    using Cons.prems assms(2) by (intro event_forwarded) (auto simp: steady_sends_def)
  then show ?case using Cons by (cases "accepted ev") (simp_all add: map_filter_simps)
qed

lemma numbered_sound: "numbered source n evs \<Longrightarrow> \<forall>ev \<in> set evs. sound_event ev"
  by (induction evs arbitrary: n) auto

lemma provider_calls_append:
  "provider_calls poll submit (cs @ ds) p = (case provider_calls poll submit cs p of (evs, q) \<Rightarrow>
     apfst ((@) evs) (provider_calls poll submit ds q))"
  by (induction cs arbitrary: p)
    (simp_all add: apfst_def map_prod_def case_prod_unfold comp_def id_def split: provider_call.split)

lemma heartbeat_keeps:
  "wk_handle (heartbeat pid env w) = wk_handle w" "wk_wire (heartbeat pid env w) = wk_wire w"
  "wk_vtable (heartbeat pid env w) = wk_vtable w"
  by (simp_all add: heartbeat_def)

lemma map_filter_append: "List.map_filter f (xs @ ys) = List.map_filter f xs @ List.map_filter f ys"
  by (simp add: List.map_filter_def)

context numbered_provider
begin

text \<open>What the loop writes when the journal keeps reading: every acceptable reading, in order, once.\<close>

lemma pass_forwards:
  assumes "vt_poll_events (wk_vtable w) = Some poll" "vt_submit (wk_vtable w) = Some submit" "steady_sends env"
  shows "\<exists>cs evs w'. worker_pass pid env w = Some w' \<and> provider_calls poll submit cs (wk_handle w) = (evs, wk_handle w') \<and>
    wk_wire w' = wk_wire w @ frames_wire (map reading_frame (List.map_filter accepted evs)) \<and> wk_vtable w' = wk_vtable w"
proof -
  obtain h last cs where fault: "(if wa_fault_file (wk_args w) = None then (wk_handle w, wk_last_fault w)
      else apply_fault_file submit (pa_fault env) (wk_handle w, wk_last_fault w)) = (h, last)"
    and cs: "provider_calls poll submit cs (wk_handle w) = ([], h)"
  proof -
    have "\<exists>cs. provider_calls poll submit cs (wk_handle w) = ([], fst (apply_fault_file submit (pa_fault env) (wk_handle w, wk_last_fault w)))"
    proof (cases "fst (apply_fault_file submit (pa_fault env) (wk_handle w, wk_last_fault w)) = wk_handle w")
      case True
      then show ?thesis by (intro exI [of _ "[]"]) simp
    next
      case False
      then obtain obs where "fst (apply_fault_file submit (pa_fault env) (wk_handle w, wk_last_fault w)) =
          snd (submit (wk_handle w) obs)"
        by (auto simp: apply_fault_file_def Let_def split: option.splits if_splits)
      then show ?thesis by (intro exI [of _ "[Submit obs]"]) simp
    qed
    moreover have "provider_calls poll submit [] (wk_handle w) = ([], wk_handle w)" by simp
    ultimately show ?thesis
      using that by (metis fst_conv old.prod.exhaust)
  qed
  obtain st evs q where poll: "poll (pa_poll env) h = (st, evs, q)" by (cases "poll (pa_poll env) h")
  have calls: "provider_calls poll submit (cs @ [Poll (pa_poll env)]) (wk_handle w) = (evs, q)"
    using cs poll by (simp add: provider_calls_append)
  have "\<forall>ev \<in> set evs. sound_event ev" using poll_numbers [OF poll] numbered_sound by blast
  then have fwd: "forward_events (pa_sends env) 0 evs (wk_forwarded w, wk_wire w) =
      Some (wk_forwarded w + of_nat (length (List.map_filter accepted evs)),
        wk_wire w @ frames_wire (map reading_frame (List.map_filter accepted evs)))"
    using assms(3) by (rule events_forwarded)
  let ?u = "w\<lparr>wk_handle := q, wk_last_fault := last,
    wk_forwarded := wk_forwarded w + of_nat (length (List.map_filter accepted evs)),
    wk_wire := wk_wire w @ frames_wire (map reading_frame (List.map_filter accepted evs))\<rparr>"
  define w' where "w' = heartbeat pid env ?u"
  have "worker_pass pid env w = Some w'"
    unfolding worker_pass_def assms(1,2) option.sel fault prod.case poll fwd option.case w'_def by (rule refl)
  moreover have "wk_handle w' = q" "wk_vtable w' = wk_vtable w"
    "wk_wire w' = wk_wire w @ frames_wire (map reading_frame (List.map_filter accepted evs))"
    by (simp_all add: w'_def heartbeat_keeps)
  ultimately show ?thesis using calls by blast
qed

lemma passes_forward:
  assumes "vt_poll_events (wk_vtable w) = Some poll" "vt_submit (wk_vtable w) = Some submit" "\<forall>env \<in> set envs. steady_sends env"
  shows "\<exists>cs evs w'. worker_passes pid envs w = Some w' \<and> provider_calls poll submit cs (wk_handle w) = (evs, wk_handle w') \<and>
    wk_wire w' = wk_wire w @ frames_wire (map reading_frame (List.map_filter accepted evs))"
  using assms
proof (induction envs arbitrary: w)
  case Nil
  then show ?case by (intro exI [of _ "[]"] exI [of _ w]) (simp add: map_filter_simps)
next
  case (Cons env envs)
  obtain cs evs u where u: "worker_pass pid env w = Some u" "provider_calls poll submit cs (wk_handle w) = (evs, wk_handle u)"
    "wk_wire u = wk_wire w @ frames_wire (map reading_frame (List.map_filter accepted evs))" "wk_vtable u = wk_vtable w"
    using pass_forwards [OF Cons.prems(1,2)] Cons.prems(3) by force
  obtain ds later v where v: "worker_passes pid envs u = Some v" "provider_calls poll submit ds (wk_handle u) = (later, wk_handle v)"
    "wk_wire v = wk_wire u @ frames_wire (map reading_frame (List.map_filter accepted later))"
    using Cons.IH [of u] Cons.prems u(4) by auto
  have "provider_calls poll submit (cs @ ds) (wk_handle w) = (evs @ later, wk_handle v)"
    using u(2) v(2) by (simp add: provider_calls_append)
  moreover have "wk_wire v = wk_wire w @ frames_wire (map reading_frame (List.map_filter accepted (evs @ later)))"
    using u(3) v(3) by (simp add: map_filter_append)
  moreover have "worker_passes pid (env # envs) w = Some v" using u(1) v(1) by simp
  ultimately show ?case by blast
qed

end

section \<open>When a worker starts\<close>

lemma chunks_whole: "0 < n \<Longrightarrow> concat (chunks n bs) = bs"
  by (induction n bs rule: chunks.induct) (subst chunks.simps, simp)

lemma file_digest_whole: "file_digest content = obicall_sha256 content"
proof -
  let ?ctx = "\<lparr>sha_state = replicate 8 0, sha_total_len = 0, sha_buffer = replicate 64 0, sha_buffer_len = 0\<rparr>"
  have "map_option snd (Option.bind (sha256_update_all (obicall_sha256_init ?ctx) (chunks 65536 content)) obicall_sha256_final) =
      obicall_sha256 content"
    using sha256_streaming [of ?ctx "chunks 65536 content"] chunks_whole [of 65536 content] by simp
  moreover have "file_digest content =
      map_option snd (Option.bind (sha256_update_all (obicall_sha256_init ?ctx) (chunks 65536 content)) obicall_sha256_final)"
    unfolding file_digest_def Let_def
    by (cases "sha256_update_all (obicall_sha256_init ?ctx) (chunks 65536 content)")
      (auto split: option.split simp: bind_eq_None_conv map_option_case)
  ultimately show ?thesis by simp
qed

definition intact :: "files \<Rightarrow> bytes \<Rightarrow> obicall_manifest \<Rightarrow> bool" where
  "intact fs path m \<longleftrightarrow> mf_has_artifact_sha256 m = 0 \<or>
     (\<exists>content. fs path = Some content \<and> sha256_spec content = mf_artifact_sha256 m)"

definition offers :: "('e, 'p) worker_env \<Rightarrow> bytes \<Rightarrow> ('e, 'p) obicall_provider_vtable \<Rightarrow> bool" where
  "offers env path v \<longleftrightarrow> complete_vtable v \<and>
     (\<exists>d. compatible_descriptor d \<and> we_modules env path = Some (Some (OBICALL_OK, Some d, Some v)))"

lemma verify_intact: "verify_artifact fs path m = None \<longleftrightarrow> intact fs path m"
  by (auto simp: verify_artifact_def intact_def file_digest_whole sha256_is_spec split: option.splits)

lemma load_offers: "load_plugin (we_modules env) path = Inr v \<longleftrightarrow> offers env path v"
  by (auto simp: load_plugin_def offers_def split: option.splits prod.splits if_splits)

lemma worker_load_iff:
  "worker_load env a fs = Inr (token, v, handle) \<longleftrightarrow>
     worker_token (wa_token_hex a) = Some token \<and>
     (\<exists>m. worker_manifest fs (wa_manifest_path a) = Some m \<and>
        intact fs (artifact_path (wa_manifest_path a) m) m \<and> offers env (artifact_path (wa_manifest_path a) m) v \<and>
        the (vt_create v) (we_create env) (Some (provider_config m (wa_instance_seed a))) = (OBICALL_OK, Some handle))"
  by (auto simp: worker_load_def Let_def verify_intact [symmetric] load_offers [symmetric]
      split: option.splits sum.splits prod.splits if_splits)

lemma token_length: "worker_token hex = Some token \<Longrightarrow> length token = 32"
  by (auto simp: worker_token_def procutil_hex_decode_def dest: hex_bytes_length split: if_splits)

lemma loaded_token: "worker_load env a fs = Inr (token, v, handle) \<Longrightarrow> length token = 32"
  using token_length by (auto simp: worker_load_iff)

definition pid_written :: "('e, 'p) worker_env \<Rightarrow> worker_args \<Rightarrow> files \<Rightarrow> files" where
  "pid_written env a fs = snd (procutil_write_pid_file (we_pid_file env) (wa_runtime_dir a) (wa_worker_name a) (we_pid env) fs)"

lemma worker_start_loaded:
  assumes "worker_arguments argv = Some a"
  shows "worker_load env a (pid_written env a fs) = Inl code \<Longrightarrow> worker_start env argv fs = Some (Inl (code, pid_written env a fs))"
    and "worker_load env a (pid_written env a fs) = Inr (token, v, handle) \<Longrightarrow> worker_start env argv fs =
      (case procutil_client_connect (we_connected env (wa_journal_port a)) token OBICALL_ROLE_WORKER (we_polls env) of
         None \<Rightarrow> None
       | Some (rc, _, wire) \<Rightarrow>
           if rc \<noteq> 0 then Some (Inl (9, pid_written env a fs))
           else Some (Inr \<lparr>wk_args = a, wk_vtable = v, wk_handle = handle, wk_wire = wire, wk_forwarded = 0,
                  wk_last_fault = [], wk_last_heartbeat = 0, wk_files = pid_written env a fs\<rparr>))"
proof -
  have "worker_start env argv fs = (case worker_load env a (pid_written env a fs) of
      Inl code \<Rightarrow> Some (Inl (code, pid_written env a fs))
    | Inr (token, v, handle) \<Rightarrow>
        (case procutil_client_connect (we_connected env (wa_journal_port a)) token OBICALL_ROLE_WORKER (we_polls env) of
           None \<Rightarrow> None
         | Some (rc, _, wire) \<Rightarrow>
             if rc \<noteq> 0 then Some (Inl (9, pid_written env a fs))
             else Some (Inr \<lparr>wk_args = a, wk_vtable = v, wk_handle = handle, wk_wire = wire, wk_forwarded = 0,
                    wk_last_fault = [], wk_last_heartbeat = 0, wk_files = pid_written env a fs\<rparr>)))"
    unfolding worker_start_def assms option.case Let_def pid_written_def by (rule refl)
  then show "worker_load env a (pid_written env a fs) = Inl code \<Longrightarrow> worker_start env argv fs = Some (Inl (code, pid_written env a fs))"
    and "worker_load env a (pid_written env a fs) = Inr (token, v, handle) \<Longrightarrow> worker_start env argv fs =
      (case procutil_client_connect (we_connected env (wa_journal_port a)) token OBICALL_ROLE_WORKER (we_polls env) of
         None \<Rightarrow> None
       | Some (rc, _, wire) \<Rightarrow>
           if rc \<noteq> 0 then Some (Inl (9, pid_written env a fs))
           else Some (Inr \<lparr>wk_args = a, wk_vtable = v, wk_handle = handle, wk_wire = wire, wk_forwarded = 0,
                  wk_last_fault = [], wk_last_heartbeat = 0, wk_files = pid_written env a fs\<rparr>))"
    by simp_all
qed

lemma started:
  assumes "worker_start env argv fs = Some (Inr w)"
  shows "\<exists>a token. worker_arguments argv = Some a \<and>
    worker_load env a (pid_written env a fs) = Inr (token, wk_vtable w, wk_handle w) \<and>
    wk_wire w = frame_layout (OBICALL_MSG_AUTH_HELLO, auth_hello_layout (hello token OBICALL_ROLE_WORKER))"
proof -
  obtain a where a: "worker_arguments argv = Some a"
    using assms by (cases "worker_arguments argv") (simp_all add: worker_start_def)
  obtain token v handle where load: "worker_load env a (pid_written env a fs) = Inr (token, v, handle)"
  proof (cases "worker_load env a (pid_written env a fs)")
    case (Inl code)
    then show ?thesis using worker_start_loaded(1) [OF a Inl] assms by simp
  next
    case (Inr r)
    then show ?thesis using that by (cases r) simp
  qed
  note start = worker_start_loaded(2) [OF a load]
  obtain rc ps' wire where conn: "procutil_client_connect (we_connected env (wa_journal_port a)) token OBICALL_ROLE_WORKER
      (we_polls env) = Some (rc, ps', wire)"
    using assms start by (cases "procutil_client_connect (we_connected env (wa_journal_port a)) token OBICALL_ROLE_WORKER
      (we_polls env)") auto
  have w: "rc = 0" "wk_vtable w = v" "wk_handle w = handle" "wk_wire w = wire"
    using assms start conn by (auto split: if_splits)
  have "we_connected env (wa_journal_port a)"
    using conn w(1) by (cases "we_connected env (wa_journal_port a)") (simp_all add: procutil_client_connect_def)
  moreover have "length token = 32" using load by (rule loaded_token)
  ultimately have "wire = frame_layout (OBICALL_MSG_AUTH_HELLO, auth_hello_layout (hello token OBICALL_ROLE_WORKER))"
    using conn w(1) hello_frame_sent by simp
  then show ?thesis using a load w by blast
qed

lemma ex_manifest_first: "(\<exists>t v h. P t \<and> (\<exists>m. Q m v h)) \<longleftrightarrow> (\<exists>t m v h. P t \<and> Q m v h)"
  by blast

lemma starts_exactly:
  assumes "worker_arguments argv = Some a" and "we_connected env (wa_journal_port a)"
    and "list_all ready (we_polls env)" and "56 \<le> length (we_polls env)"
  shows "(\<exists>w. worker_start env argv fs = Some (Inr w)) \<longleftrightarrow>
    (\<exists>token m v handle. let files = pid_written env a fs; path = artifact_path (wa_manifest_path a) m in
       worker_token (wa_token_hex a) = Some token \<and> worker_manifest files (wa_manifest_path a) = Some m \<and>
       intact files path m \<and> offers env path v \<and>
       the (vt_create v) (we_create env) (Some (provider_config m (wa_instance_seed a))) = (OBICALL_OK, Some handle))"
proof -
  have "(\<exists>w. worker_start env argv fs = Some (Inr w)) \<longleftrightarrow>
      (\<exists>token v handle. worker_load env a (pid_written env a fs) = Inr (token, v, handle))"
  proof
    assume "\<exists>w. worker_start env argv fs = Some (Inr w)"
    then obtain w where "worker_start env argv fs = Some (Inr w)" by blast
    from started [OF this] assms(1) show "\<exists>token v handle. worker_load env a (pid_written env a fs) = Inr (token, v, handle)"
      by auto
  next
    assume "\<exists>token v handle. worker_load env a (pid_written env a fs) = Inr (token, v, handle)"
    then obtain token v handle where load: "worker_load env a (pid_written env a fs) = Inr (token, v, handle)" by blast
    have "length token = 32" using load by (rule loaded_token)
    then obtain ps' wire where "procutil_client_connect True token OBICALL_ROLE_WORKER (we_polls env) = Some (0, ps', wire)"
      using hello_sent [OF _ assms(3,4)] by blast
    then show "\<exists>w. worker_start env argv fs = Some (Inr w)"
      using assms(2) worker_start_loaded(2) [OF assms(1) load] by simp
  qed
  then show ?thesis
    unfolding worker_load_iff Let_def by (simp only: ex_manifest_first)
qed

text \<open>A worker with the simulator as its provider.\<close>

definition example_argv :: "bytes list" where
  "example_argv = ascii ''w'' # option_args
     [(''--manifest'', ascii ''/m''), (''--journal-port'', int_text 5000), (''--token'', hex_text (replicate 32 7))]"

definition plain_libm :: libm where
  "plain_libm = \<lparr>lm_log = (\<lambda>x. x), lm_cos = (\<lambda>x. x)\<rparr>"

definition example_worker :: "(sim_env, sim_provider) worker_env" where
  "example_worker = \<lparr>we_pid = 9, we_pid_file = \<lparr>fe_open_ok = False, fe_room = 0, fe_rename_ok = False\<rparr>,
     we_modules = (\<lambda>_. Some (Some (obicall_plugin_query_v1 plain_libm))), we_create = at_time 1000,
     we_connected = (\<lambda>_. True), we_polls = replicate 56 (Ready 9)\<rparr>"

definition example_worker_args :: worker_args where
  "example_worker_args = \<lparr>wa_manifest_path = ascii ''/m'', wa_journal_port = 5000,
     wa_token_hex = hex_text (replicate 32 7), wa_runtime_dir = [DOT], wa_worker_name = ascii ''worker'',
     wa_fault_file = None, wa_instance_seed = 1\<rparr>"

lemma example_arguments: "worker_arguments example_argv = Some example_worker_args"
proof -
  let ?opts = "[(''--manifest'', ascii ''/m''), (''--journal-port'', int_text 5000), (''--token'', hex_text (replicate 32 7))]"
  have plain: "list_all (\<lambda>(n, v). plain_value v) ?opts"
    by (simp add: plain_int_text plain_hex) (simp add: plain_value_def ascii_def)
  have "strtoll (int_text 5000) = 5000" using strtoll_int_text [of 5000] by simp
  moreover have "example_argv = ascii ''w'' # option_args ?opts @ []" by (simp add: example_argv_def)
  note read = plain_args [OF plain _ _ this]
  ultimately show ?thesis
    by (simp add: worker_arguments_def read ascii_def example_worker_args_def)
qed

definition example_worker_files :: files where
  "example_worker_files = [ascii ''/m'' \<mapsto> sample_manifest]"

lemma example_manifest:
  "\<exists>m. worker_manifest example_worker_files (ascii ''/m'') = Some m \<and> mf_has_artifact_sha256 m = 0"
proof -
  have "case fst (obicall_manifest_parse_json (Some sample_manifest) (Some zero_manifest) (Some (replicate 256 0)) 256) of
      Inl _ \<Rightarrow> False | Inr m \<Rightarrow> mf_has_artifact_sha256 m = 0"
    by code_simp
  then obtain m where m: "fst (obicall_manifest_parse_json (Some sample_manifest) (Some zero_manifest) (Some (replicate 256 0)) 256) = Inr m"
    "mf_has_artifact_sha256 m = 0"
    by (auto split: sum.splits)
  have "length sample_manifest \<le> 8192" by (simp add: sample_manifest_def ascii_def)
  then have "read_whole_file example_worker_files (ascii ''/m'') 8192 = Some sample_manifest"
    by (simp add: read_whole_file_def example_worker_files_def)
  then have "worker_manifest example_worker_files (ascii ''/m'') = Some m"
    using m(1) by (auto simp: worker_manifest_def split: prod.splits)
  then show ?thesis using m(2) by blast
qed

lemma example_ready:
  "\<exists>m handle. worker_manifest (pid_written example_worker example_worker_args example_worker_files)
       (wa_manifest_path example_worker_args) = Some m \<and> mf_has_artifact_sha256 m = 0 \<and>
     worker_token (wa_token_hex example_worker_args) = Some (replicate 32 7) \<and>
     offers example_worker path (g_vtable plain_libm) \<and>
     the (vt_create (g_vtable plain_libm)) (we_create example_worker) (Some (provider_config m 1)) = (OBICALL_OK, Some handle)"
proof -
  have "pid_written example_worker example_worker_args fs = fs" for fs
    by (simp add: pid_written_def procutil_write_pid_file_def replace_file_def example_worker_def split: option.split)
  moreover have "worker_token (hex_text (replicate 32 7)) = Some (replicate 32 7)"
    using hex_text_laws [of "replicate 32 7"] by (simp add: worker_token_def procutil_hex_decode_def)
  moreover have "offers example_worker path (g_vtable plain_libm)"
    by (simp add: offers_def complete_vtable_def compatible_descriptor_def g_vtable_def example_worker_def
        obicall_plugin_query_v1_def g_descriptor_def)
  ultimately show ?thesis
    using example_manifest by (auto simp: example_worker_args_def g_vtable_def sim_create_def example_worker_def
        at_time_def provider_config_def Let_def)
qed

lemma example_polls: "we_connected example_worker port" "list_all ready (we_polls example_worker)"
  "56 \<le> length (we_polls example_worker)"
  by (simp_all add: example_worker_def ready_def)

lemma example_starts:
  "\<exists>w. worker_start example_worker example_argv example_worker_files = Some (Inr w)"
proof -
  let ?files = "pid_written example_worker example_worker_args example_worker_files"
  obtain m handle where m: "worker_manifest ?files (wa_manifest_path example_worker_args) = Some m"
    "mf_has_artifact_sha256 m = 0" "worker_token (wa_token_hex example_worker_args) = Some (replicate 32 7)"
    "offers example_worker (artifact_path (wa_manifest_path example_worker_args) m) (g_vtable plain_libm)"
    "the (vt_create (g_vtable plain_libm)) (we_create example_worker) (Some (provider_config m 1)) = (OBICALL_OK, Some handle)"
    using example_ready by blast
  have "intact ?files (artifact_path (wa_manifest_path example_worker_args) m) m" using m(2) by (simp add: intact_def)
  moreover have "wa_instance_seed example_worker_args = 1" by (simp add: example_worker_args_def)
  ultimately show ?thesis
    using starts_exactly [OF example_arguments example_polls, of example_worker_files] m unfolding Let_def by metis
qed



section \<open>The stream of a hosted simulator\<close>

lemma reading_accepted:
  assumes "event_of now (sim_reading p now zx zy) ev" "isfinite (sp_noise_std p * sp_noise_std p)"
    and "sp_sensor_id p \<noteq> []" "sp_sensor_id p ! 0 \<noteq> 0"
  shows "accepted ev = (if isfinite zx \<and> isfinite zy then Some (sim_reading p now zx zy) else None)"
  using assms(1) reading_valid [OF assms(2-4), of now zx zy] by (auto simp: accepted_def event_of_def)

lemma created_by_worker:
  assumes "worker_start env argv fs = Some (Inr w)" "wk_vtable w = g_vtable lm" "worker_arguments argv = Some a"
  shows "sp_next_sequence (wk_handle w) = 1"
    and "sp_source_boot_id (wk_handle w) = sm_clock (we_create env) 0 XOR wa_instance_seed a"
proof -
  obtain m where "the (vt_create (wk_vtable w)) (we_create env) (Some (provider_config m (wa_instance_seed a))) =
      (OBICALL_OK, Some (wk_handle w))"
    using started [OF assms(1)] assms(3) by (auto simp: worker_load_iff)
  then have "sim_create (we_create env) (Some (provider_config m (wa_instance_seed a))) = (OBICALL_OK, Some (wk_handle w))"
    by (simp add: assms(2) g_vtable_def)
  from created [OF this] show "sp_next_sequence (wk_handle w) = 1"
    and "sp_source_boot_id (wk_handle w) = sm_clock (we_create env) 0 XOR wa_instance_seed a"
    by (simp_all add: provider_config_def)
qed

lemma reading_frames_sendable:
  assumes "numbered source n evs"
  shows "\<forall>f \<in> set (map reading_frame (List.map_filter accepted evs)). sendable f"
proof -
  have "length (observation_layout obs) \<le> 444" if "obs \<in> set (List.map_filter accepted evs)" for obs
    using that numbered_sound [OF assms] accepted_encodable(3) by (fastforce simp: List.map_filter_def)
  then show ?thesis by (fastforce simp: sendable_def reading_frame_def)
qed


definition example_pass :: "sim_env pass_env" where
  "example_pass = \<lparr>pa_fault = None, pa_poll = at_time 3000, pa_sends = (\<lambda>_. replicate 460 (Ready 100)), pa_now = 3000,
     pa_pid_file = \<lparr>fe_open_ok = True, fe_room = 100, fe_rename_ok = True\<rparr>\<rparr>"


end
