(* ===== verification/Run_Command.thy ===== *)
theory Run_Command
  imports Supervisor_Run
begin

text \<open>
  The run command of \<^verbatim>\<open>src/cli/main.c\<close>: it starts the pipeline, ticks the supervisor until it is told to stop or
  its time is over, and stops everything, also after a start that failed halfway. The law is about what it leaves
  behind: no process it has not killed.
\<close>

section \<open>The command\<close>

text \<open>What happens in one pass of the loop: the flag set by the signal handler, the clock, the children, the sleep.\<close>

record run_pass =
  rn_stop_requested :: bool
  rn_tick :: i64
  rn_children :: "nat \<Rightarrow> child_env"
  rn_clock :: i64
  rn_sleep :: move

text \<open>The value is \<open>None\<close> while the loop goes on after the passes given.\<close>

primrec run_loop :: "i64 \<Rightarrow> i64 \<Rightarrow> run_pass list \<Rightarrow> supervisor \<times> world \<Rightarrow> (supervisor \<times> world) option" where
  "run_loop start duration_s [] sw = None"
| "run_loop start duration_s (p # ps) sw =
     (if rn_stop_requested p then Some sw
      else
        (let sw = supervisor_monitor_tick (rn_tick p) (rn_children p) (fst sw) (snd sw) in
         if sint duration_s > 0 \<and> sint (rn_clock p - start) \<ge> sint (duration_s * 1000000000) then Some sw
         else run_loop start duration_s ps (fst sw, moved (rn_sleep p) (snd sw))))"

record run_env =
  ru_start :: start_env
  ru_self :: "bytes option"
  ru_begin :: i64
  ru_passes :: "run_pass list"
  ru_pause :: move
  ru_waits :: "nat \<Rightarrow> nat \<Rightarrow> move"

definition cmd_run :: "run_env \<Rightarrow> bytes list \<Rightarrow> world \<Rightarrow> files \<Rightarrow> (int \<times> (supervisor \<times> world) option) option" where
  "cmd_run env argv w fs =
     (let runtime_dir = the (procutil_arg_str argv ''--runtime-dir'' (Some (ascii ''./obicall-run'')));
          duration_s = procutil_arg_i64 argv ''--duration-seconds'' 0;
          stop_all = (\<lambda>sw. supervisor_stop_all (ru_pause env) (ru_waits env) (fst sw) (snd sw))
      in case procutil_arg_str argv ''--config'' None of
           None \<Rightarrow> Some (2, None)
         | Some config_path \<Rightarrow> do {
             exe_dir \<leftarrow> procutil_own_exe_dir (ru_self env) (Some (argv ! 0)) 1024;
             (ok, s) \<leftarrow> supervisor_start (ru_start env) config_path runtime_dir exe_dir w fs;
             if \<not> ok then Some (1, Some (stop_all (ss_sv s, ss_world s)))
             else do {
               sw \<leftarrow> run_loop (ru_begin env) duration_s (ru_passes env) (ss_sv s, ss_world s);
               Some (0, Some (stop_all sw))
             }
           })"

definition lawful_run :: "run_env \<Rightarrow> bool" where
  "lawful_run env \<longleftrightarrow> (\<forall>i. lawful_fork (fst (se_spawn (ru_start env) i))) \<and>
     (\<forall>p \<in> set (ru_passes env). lawful (rn_sleep p) \<and> (\<forall>i. lawful_child (rn_children p i))) \<and>
     lawful (ru_pause env) \<and> (\<forall>i k. lawful (ru_waits env i k))"

section \<open>Where the processes are\<close>

text \<open>
  Every process in the kernel's table is held by a child or has been killed. \<open>accounts\<close> is the contribution of one
  child to that.
\<close>

definition killed :: "nat \<Rightarrow> world \<Rightarrow> bool" where
  "killed pid w \<longleftrightarrow> (\<exists>there. (SIGKILL, pid, there) \<in> set (wo_signals w))"

definition later :: "world \<Rightarrow> world \<Rightarrow> bool" where
  "later w w' \<longleftrightarrow> set (wo_signals w) \<subseteq> set (wo_signals w')"

definition accounts :: "child_proc \<Rightarrow> world \<Rightarrow> child_proc \<Rightarrow> world \<Rightarrow> bool" where
  "accounts c w c' w' \<longleftrightarrow> (held c w \<longrightarrow> later w w' \<and>
     (\<forall>pid. wo_kernel w' pid \<noteq> None \<longrightarrow> pid \<in> pids c' \<or> killed pid w' \<or> wo_kernel w pid \<noteq> None \<and> pid \<notin> pids c))"

definition accounted :: "supervisor \<times> world \<Rightarrow> bool" where
  "accounted sw \<longleftrightarrow> (\<forall>pid. wo_kernel (snd sw) pid \<noteq> None \<longrightarrow>
     killed pid (snd sw) \<or> (\<exists>c \<in> set (sv_children (fst sw)). pid \<in> pids c))"

lemma later_same: "wo_signals w' = wo_signals w \<Longrightarrow> later w w'"
  by (simp add: later_def)

lemma later_trans: "later w w1 \<Longrightarrow> later w1 w' \<Longrightarrow> later w w'"
  by (auto simp: later_def)

lemma later_killed: "later w w' \<Longrightarrow> killed pid w \<Longrightarrow> killed pid w'"
  by (auto simp: later_def killed_def)

lemma signal_later: "later w (send_signal sig pid w)" "killed pid (send_signal SIGKILL pid w)"
  by (auto simp: later_def killed_def send_signal_def)

lemma accounts_trans:
  assumes "accounts c w c1 w1" "held c1 w1" "accounts c1 w1 c' w'"
  shows "accounts c w c' w'"
  using assms later_trans later_killed unfolding accounts_def by blast

lemma accounts_proc: "ch_proc d = ch_proc c \<Longrightarrow> ch_proc d' = ch_proc c' \<Longrightarrow> accounts d w d' w' = accounts c w c' w'"
  by (simp add: accounts_def held_def pids_def)

lemma drop_accounts:
  assumes "ch_proc c = Some p" "ch_proc c' = None" "only (op_pid p) w w'" "later w w'"
    and "held c w \<Longrightarrow> wo_kernel w' (op_pid p) = None \<or> killed (op_pid p) w'"
  shows "accounts c w c' w'"
proof -
  have "pid \<in> pids c' \<or> killed pid w' \<or> wo_kernel w pid \<noteq> None \<and> pid \<notin> pids c"
    if "held c w" "wo_kernel w' pid \<noteq> None" for pid
  proof (cases "pid = op_pid p")
    case True
    then show ?thesis using assms(5) that by auto
  next
    case False
    then have "wo_kernel w pid \<noteq> None" using assms(3) that(2) by (auto simp: only_def)
    then show ?thesis using False assms(1) by (simp add: pids_def)
  qed
  then show ?thesis using assms(4) by (simp add: accounts_def)
qed

lemma spawn_child_accounts:
  assumes "spawn_child sp c w = (ok, c', w')" "ch_proc c = None"
  shows "accounts c w c' w'"
proof -
  obtain proc w1 where s: "osal_process_spawn (fst sp) w = (proc, w1)" by (cases "osal_process_spawn (fst sp) w")
  have "later w w1" using spawn_laws(1) [OF s] by (rule later_same)
  then show ?thesis
    using assms s by (cases proc) (auto simp: spawn_child_def accounts_def pids_def osal_process_spawn_def split: option.splits if_splits)
qed

lemma restart_accounts:
  assumes "restart_child now sp c w = (r, c', w')" "ch_proc c = None"
  shows "accounts c w c' w'"
proof -
  have same: "accounts c w c w" unfolding accounts_def using later_same by blast
  have spawned: "accounts c w c' w'" if "snd (spawn_child sp d w) = (c', w')" "ch_proc d = None" for d
  proof -
    have "spawn_child sp d w = (fst (spawn_child sp d w), c', w')" using that(1) by (metis prod.collapse)
    from spawn_child_accounts [OF this that(2)] show ?thesis using that(2) assms(2) accounts_proc [of d c c' c'] by simp
  qed
  show ?thesis
    using assms same spawned accounts_proc [of c c c' c]
    by (auto simp: restart_child_def Let_def split: if_splits)
qed

lemma monitor_child_accounts:
  assumes "monitor_child runtime_dir now ce c w = (r, c', w')" "lawful_child ce"
  shows "accounts c w c' w'"
proof (cases "ch_proc c")
  case None
  then show ?thesis using assms(1) later_same [of w w] by (auto simp: monitor_child_def accounts_def)
next
  case (Some p)
  obtain dead p1 w1 where reap: "reap_nonblocking p (moved (ce_before ce) w) = (dead, p1, w1)"
    by (cases "reap_nonblocking p (moved (ce_before ce) w)")
  let ?hung = "\<not> dead \<and> appears_hung runtime_dir now ce c"
  define w2 where "w2 = (if ?hung then osal_process_kill p1 w1 else w1)"
  obtain code p3 w3 where wait: "osal_process_wait (ce_wait ce) (if ?hung then 2000 else 500) p1 w2 = (code, p3, w3)"
    by (cases "osal_process_wait (ce_wait ce) (if ?hung then 2000 else 500) p1 w2")
  have lawful: "lawful (ce_before ce)" "\<And>k. lawful (ce_wait ce k)" "lawful_fork (fst (ce_spawn ce))"
    using assms(2) by (simp_all add: lawful_child_def)
  note laws = reap_laws [OF reap] and before = moved_laws [OF lawful(1)]
  have near: "only (op_pid p) w w1" "later w w1" "op_pid p1 = op_pid p"
    using only_trans [OF before(1) laws(1)] laws(2,3) before(3) by (auto intro: later_same)
  have gone: "wo_kernel w1 (op_pid p) = None" if "held c w" "dead"
    using reap that Some by (auto simp: reap_nonblocking_def waitpid_nohang_def held_def split: option.splits child_state.splits if_splits)
  show ?thesis
  proof (cases "dead \<or> ?hung")
    case False
    then have "c' = c\<lparr>ch_proc := Some p1\<rparr>" "w' = w1"
      using assms(1) Some reap by (auto simp: monitor_child_def osal_process_is_alive_def Let_def)
    then show ?thesis using near Some by (auto simp: accounts_def pids_def only_def)
  next
    case True
    let ?w4 = "osal_process_close (Some p3) w3" and ?c = "c\<lparr>ch_proc := None\<rparr>"
    have rest: "restart_child now (ce_spawn ce) ?c ?w4 = (r, c', w')"
      using assms(1) Some reap True wait w2_def
      by (auto simp: monitor_child_def osal_process_is_alive_def Let_def split: if_splits)
    note close = wait_and_close [OF wait lawful(2)]
    have w2: "only (op_pid p) w1 w2" "later w1 w2" "?hung \<Longrightarrow> killed (op_pid p) w2"
      using near(3) signal_laws(1) signal_later later_same by (auto simp: w2_def osal_process_kill_def)
    have to4: "only (op_pid p) w2 ?w4" "later w2 ?w4" using close near(3) by (auto intro: later_same)
    have "accounts c w ?c ?w4"
    proof (rule drop_accounts [OF Some])
      show "only (op_pid p) w ?w4" using near(1) w2(1) to4(1) only_trans by blast
      show "later w ?w4" using near(2) w2(2) to4(2) later_trans by blast
      show "wo_kernel ?w4 (op_pid p) = None \<or> killed (op_pid p) ?w4" if "held c w"
        using True gone [OF that] w2 to4 later_killed [OF to4(2)] by (auto simp: only_def)
    qed simp
    moreover have "held ?c ?w4" by (simp add: held_def)
    ultimately show ?thesis using accounts_trans restart_accounts [OF rest] by simp
  qed
qed

lemma stop_child_accounts:
  assumes "stop_child mvs c w = (c', w')" "\<And>k. lawful (mvs k)"
  shows "accounts c w c' w'" "ch_proc c' = None"
proof -
  show "ch_proc c' = None" using assms(1) by (auto simp: stop_child_def split: option.splits prod.splits)
  show "accounts c w c' w'"
  proof (cases "ch_proc c")
    case None
    then show ?thesis using assms(1) later_same [of w w] by (auto simp: stop_child_def accounts_def pids_def)
  next
    case (Some p)
    let ?w1 = "osal_process_kill p w"
    obtain code p3 w3 where wait: "osal_process_wait mvs 2000 p ?w1 = (code, p3, w3)"
      by (cases "osal_process_wait mvs 2000 p ?w1")
    note close = wait_and_close [OF wait assms(2)]
    have c': "c' = c\<lparr>ch_proc := None, ch_argv := []\<rparr>" and w': "w' = osal_process_close (Some p3) w3"
      using assms(1) Some wait by (auto simp: stop_child_def)
    have kill: "later w ?w1" "killed (op_pid p) ?w1" "only (op_pid p) w ?w1"
      using signal_later signal_laws(1) by (simp_all add: osal_process_kill_def)
    have after: "later ?w1 w'" using close(2) w' by (auto intro: later_same)
    show ?thesis
    proof (rule drop_accounts [OF Some])
      show "only (op_pid p) w w'" using only_trans [OF kill(3)] close(1) w' by simp
      show "later w w'" using kill(1) after by (rule later_trans)
      show "wo_kernel w' (op_pid p) = None \<or> killed (op_pid p) w'" using later_killed [OF after kill(2)] by simp
    qed (simp add: c')
  qed
qed

section \<open>All children together\<close>

lemma each_child_accounts:
  assumes "\<And>i c w c' w'. f i c w = (c', w') \<Longrightarrow> keeps c w c' w' \<and> accounts c w c' w'"
    and "each_child f i cs w = (cs', w')" "all_held cs w" "all_hit w"
  shows "later w w' \<and> (\<forall>pid. wo_kernel w' pid \<noteq> None \<longrightarrow>
    (\<exists>c \<in> set cs'. pid \<in> pids c) \<or> killed pid w' \<or> wo_kernel w pid \<noteq> None \<and> (\<forall>c \<in> set cs. pid \<notin> pids c))"
  using assms(2-4)
proof (induction cs arbitrary: i w cs')
  case Nil
  then show ?case by (simp add: later_def)
next
  case (Cons c cs)
  obtain c1 w1 where c1: "f i c w = (c1, w1)" by (cases "f i c w")
  obtain cs1 where cs1: "each_child f (i + 1) cs w1 = (cs1, w')" "cs' = c1 # cs1"
    using Cons.prems(1) c1 by (cases "each_child f (i + 1) cs w1") auto
  have held: "held c w" "all_held cs w" using Cons.prems(2) by simp_all
  have k: "keeps c w c1 w1" "accounts c w c1 w1" using assms(1) [OF c1] by simp_all
  have "wo_kernel w1 pid \<noteq> None" if "d \<in> set cs" "pid \<in> pids d" for d pid
    using k(1) Cons.prems(2) that held_pids [OF all_held_member [OF held(2) that(1)] that(2)] by (auto simp: keeps_def)
  then have "all_held cs w1" using held(2) by (auto intro: all_held_moves)
  moreover have "all_hit w1" using k(1) held(1) Cons.prems(3) by (simp add: keeps_def)
  ultimately have ih: "later w1 w'" "\<And>pid. wo_kernel w' pid \<noteq> None \<Longrightarrow>
      (\<exists>c \<in> set cs1. pid \<in> pids c) \<or> killed pid w' \<or> wo_kernel w1 pid \<noteq> None \<and> (\<forall>c \<in> set cs. pid \<notin> pids c)"
    using Cons.IH [OF cs1(1)] by blast+
  have one: "later w w1" "\<And>pid. wo_kernel w1 pid \<noteq> None \<Longrightarrow>
      pid \<in> pids c1 \<or> killed pid w1 \<or> wo_kernel w pid \<noteq> None \<and> pid \<notin> pids c"
    using k(2) held(1) by (auto simp: accounts_def)
  have "(\<exists>c \<in> set cs'. pid \<in> pids c) \<or> killed pid w' \<or> wo_kernel w pid \<noteq> None \<and> (\<forall>c \<in> set (c # cs). pid \<notin> pids c)"
    if "wo_kernel w' pid \<noteq> None" for pid
    using ih(2) [OF that] one(2) [of pid] later_killed [OF ih(1)] cs1(2) by auto
  then show ?case using later_trans [OF one(1) ih(1)] by blast
qed

lemma each_child_accounted:
  assumes "each_child f 0 (sv_children sv) w = (cs, w')" "\<And>i c w c' w'. f i c w = (c', w') \<Longrightarrow> keeps c w c' w' \<and> accounts c w c' w'"
    and "good (sv, w)" "accounted (sv, w)"
  shows "good (sv\<lparr>sv_children := cs\<rparr>, w') \<and> accounted (sv\<lparr>sv_children := cs\<rparr>, w')"
proof -
  have held: "all_held (sv_children sv) w" "all_hit w" using assms(3) by (simp_all add: good_def)
  have after: "later w w' \<and> (\<forall>pid. wo_kernel w' pid \<noteq> None \<longrightarrow>
    (\<exists>c \<in> set cs. pid \<in> pids c) \<or> killed pid w' \<or> wo_kernel w pid \<noteq> None \<and> (\<forall>c \<in> set (sv_children sv). pid \<notin> pids c))"
    by (rule each_child_accounts [OF _ assms(1) held]) (rule assms(2))
  have "killed pid w' \<or> (\<exists>c \<in> set cs. pid \<in> pids c)" if "wo_kernel w' pid \<noteq> None" for pid
    using after that assms(4) [unfolded accounted_def fst_conv snd_conv] later_killed by blast
  then have "accounted (sv\<lparr>sv_children := cs\<rparr>, w')" by (simp add: accounted_def)
  then show ?thesis using each_child_good [OF assms(1) _ assms(3)] assms(2) by blast
qed

lemma moved_accounted: "lawful mv \<Longrightarrow> accounted (sv, w) \<Longrightarrow> accounted (sv, moved mv w)"
  using lawful_None [of mv "wo_kernel w"] by (simp add: accounted_def moved_def killed_def)

lemma signal_accounted: "accounted (sv, w) \<Longrightarrow> accounted (sv, send_signal sig pid w)"
  using later_killed [OF signal_later(1)] by (auto simp: accounted_def) (auto simp: send_signal_def)

lemma terminate_accounted: "accounted (sv, w) \<Longrightarrow> accounted (sv, fold terminate_child cs w)"
proof (induction cs arbitrary: w)
  case (Cons c cs)
  have "accounted (sv, terminate_child c w)"
    using Cons.prems signal_accounted by (auto simp: terminate_child_def osal_process_terminate_def split: option.split)
  then show ?case using Cons.IH by simp
qed simp

lemma tick_accounted:
  assumes "good (sv, w)" "accounted (sv, w)" "\<And>i. lawful_child (envs i)"
  shows "good (supervisor_monitor_tick now envs sv w) \<and> accounted (supervisor_monitor_tick now envs sv w)"
proof -
  let ?f = "\<lambda>i c w. snd (monitor_child (sv_runtime_dir sv) now (envs i) c w)"
  obtain cs w' where run: "each_child ?f 0 (sv_children sv) w = (cs, w')" by fastforce
  have "keeps c w c' w' \<and> accounts c w c' w'" if step: "?f i c w = (c', w')" for i c w c' w'
  proof -
    obtain r where "monitor_child (sv_runtime_dir sv) now (envs i) c w = (r, c', w')" using step by (metis prod.collapse)
    with assms(3) show ?thesis using monitor_child_keeps monitor_child_accounts by blast
  qed
  from each_child_accounted [OF run this assms(1,2)] show ?thesis using run by (simp add: supervisor_monitor_tick_def)
qed

lemma stop_accounted:
  assumes "good (sv, w)" "accounted (sv, w)" "lawful pause" "\<And>i k. lawful (mvs i k)"
  shows "accounted (supervisor_stop_all pause mvs sv w)"
    and "\<forall>c \<in> set (sv_children (fst (supervisor_stop_all pause mvs sv w))). ch_proc c = None"
proof -
  let ?w = "moved pause (fold terminate_child (sv_children sv) w)" and ?f = "\<lambda>i. stop_child (mvs i)"
  obtain cs w' where run: "each_child ?f 0 (sv_children sv) ?w = (cs, w')" by fastforce
  have ready: "good (sv, ?w)" "accounted (sv, ?w)"
    using moved_good [OF assms(3)] terminate_good [OF assms(1)] moved_accounted [OF assms(3)] terminate_accounted [OF assms(2)]
    by blast+
  have "keeps c w c' w' \<and> accounts c w c' w'" if "?f i c w = (c', w')" for i c w c' w'
    using stop_child_keeps [OF that] stop_child_accounts(1) [OF that] assms(4) by blast
  from each_child_accounted [OF run this ready] show "accounted (supervisor_stop_all pause mvs sv w)"
    using run by (simp add: supervisor_stop_all_def)
  have "\<forall>c \<in> set cs. ch_proc c = None" if "each_child ?f i ds w = (cs, w')" for i ds w cs w'
    using that
  proof (induction ds arbitrary: i w cs)
    case (Cons d ds)
    obtain d1 w1 where d1: "stop_child (mvs i) d w = (d1, w1)" by (cases "stop_child (mvs i) d w")
    then have "ch_proc d1 = None" using stop_child_accounts(2) assms(4) by blast
    then show ?case using Cons d1 by (cases "each_child ?f (i + 1) ds w1") auto
  qed simp
  from this [OF run] show "\<forall>c \<in> set (sv_children (fst (supervisor_stop_all pause mvs sv w))). ch_proc c = None"
    using run by (simp add: supervisor_stop_all_def)
qed

lemma stopping_leaves_nothing:
  assumes "good sw \<and> accounted sw" "lawful pause" "\<And>i k. lawful (waits i k)"
    and "supervisor_stop_all pause waits (fst sw) (snd sw) = (sv, w')"
  shows "(\<forall>c \<in> set (sv_children sv). ch_proc c = None) \<and> (\<forall>pid. wo_kernel w' pid \<noteq> None \<longrightarrow> killed pid w') \<and> all_hit w'"
proof -
  have ready: "good (fst sw, snd sw)" "accounted (fst sw, snd sw)" using assms(1) by simp_all
  have stop: "accounted (sv, w')" "\<forall>c \<in> set (sv_children sv). ch_proc c = None"
    using stop_accounted [OF ready, of pause waits] assms(2-4) by auto
  have "good (sv, w')" using step_good [OF supervisor_step.stop ready(1), of pause waits] assms(2-4) by simp
  moreover have "killed pid w'" if "wo_kernel w' pid \<noteq> None" for pid
    using stop that by (auto simp: accounted_def pids_def)
  ultimately show ?thesis using stop(2) by (auto simp: good_def)
qed

section \<open>The start\<close>

lemma launch_accounted:
  assumes "launch env name exe argv wk s = (ok, s')" "accounted (ss_sv s, ss_world s)"
  shows "accounted (ss_sv s', ss_world s')"
proof (cases "add_child name exe argv wk (ss_sv s)")
  case None
  then show ?thesis using assms by (auto simp: launch_def)
next
  case (Some sv)
  then obtain c where sv: "sv_children sv = sv_children (ss_sv s) @ [c]" "ch_proc c = None"
    by (auto simp: add_child_def set_argv_def Let_def split: if_splits)
  let ?i = "length (sv_children (ss_sv s))"
  obtain c' w' where spawn: "spawn_child (se_spawn env ?i) c (ss_world s) = (ok, c', w')"
    and s': "sv_children (ss_sv s') = sv_children (ss_sv s) @ [c']" "ss_world s' = w'"
    using assms(1) Some sv by (auto simp: launch_def Let_def split: prod.splits)
  have "held c (ss_world s)" using sv(2) by (simp add: held_def)
  then have one: "later (ss_world s) w'" "\<And>pid. wo_kernel w' pid \<noteq> None \<Longrightarrow>
      pid \<in> pids c' \<or> killed pid w' \<or> wo_kernel (ss_world s) pid \<noteq> None"
    using spawn_child_accounts [OF spawn sv(2)] by (auto simp: accounts_def)
  have "killed pid w' \<or> (\<exists>d \<in> set (sv_children (ss_sv s) @ [c']). pid \<in> pids d)" if "wo_kernel w' pid \<noteq> None" for pid
    using one(2) [OF that] later_killed [OF one(1)] assms(2) by (auto simp: accounted_def)
  then show ?thesis by (simp add: accounted_def s')
qed

interpretation start_accounts: start_invariant env accounted for env
  by unfold_locales (blast intro: launch_accounted, simp add: accounted_def)

section \<open>What a run leaves behind\<close>

lemma run_loop_keeps:
  assumes "run_loop start duration_s ps sw = Some sw'" "good sw \<and> accounted sw"
    and "\<forall>p \<in> set ps. lawful (rn_sleep p) \<and> (\<forall>i. lawful_child (rn_children p i))"
  shows "good sw' \<and> accounted sw'"
  using assms
proof (induction ps arbitrary: sw)
  case (Cons p ps)
  obtain sv w where sw: "sw = (sv, w)" by (cases sw)
  obtain sv1 w1 where tick: "supervisor_monitor_tick (rn_tick p) (rn_children p) sv w = (sv1, w1)"
    by (cases "supervisor_monitor_tick (rn_tick p) (rn_children p) sv w")
  have one: "good (sv1, w1) \<and> accounted (sv1, w1)"
    using tick_accounted [of sv w "rn_children p" "rn_tick p"] Cons.prems(2,3) tick sw by simp
  then have "good (sv1, moved (rn_sleep p) w1) \<and> accounted (sv1, moved (rn_sleep p) w1)"
    using moved_good moved_accounted Cons.prems(3) by simp
  then show ?case using Cons one tick sw by (auto simp: Let_def split: if_splits)
qed simp

lemma cmd_run_stops:
  assumes "cmd_run env argv w fs = Some (code, Some stopped)"
  obtains config_path runtime_dir exe_dir ok s sw where
    "supervisor_start (ru_start env) config_path runtime_dir exe_dir w fs = Some (ok, s)"
    "sw = (ss_sv s, ss_world s) \<or> run_loop (ru_begin env) (procutil_arg_i64 argv ''--duration-seconds'' 0)
       (ru_passes env) (ss_sv s, ss_world s) = Some sw"
    "stopped = supervisor_stop_all (ru_pause env) (ru_waits env) (fst sw) (snd sw)"
proof -
  let ?dir = "the (procutil_arg_str argv ''--runtime-dir'' (Some (ascii ''./obicall-run'')))"
  obtain config_path where config: "procutil_arg_str argv ''--config'' None = Some config_path"
    using assms by (cases "procutil_arg_str argv ''--config'' None") (simp_all add: cmd_run_def Let_def)
  obtain exe_dir where exe: "procutil_own_exe_dir (ru_self env) (Some (argv ! 0)) 1024 = Some exe_dir"
    using assms config by (cases "procutil_own_exe_dir (ru_self env) (Some (argv ! 0)) 1024") (simp_all add: cmd_run_def Let_def)
  obtain ok s where start: "supervisor_start (ru_start env) config_path ?dir exe_dir w fs = Some (ok, s)"
    using assms config exe by (cases "supervisor_start (ru_start env) config_path ?dir exe_dir w fs")
      (auto simp: cmd_run_def Let_def)
  show thesis
  proof (cases ok)
    case False
    then show ?thesis using assms config exe start that [OF start, of "(ss_sv s, ss_world s)"] by (simp add: cmd_run_def Let_def)
  next
    case True
    then obtain sw where "run_loop (ru_begin env) (procutil_arg_i64 argv ''--duration-seconds'' 0)
        (ru_passes env) (ss_sv s, ss_world s) = Some sw"
      using assms config exe start
      by (cases "run_loop (ru_begin env) (procutil_arg_i64 argv ''--duration-seconds'' 0) (ru_passes env) (ss_sv s, ss_world s)")
        (simp_all add: cmd_run_def Let_def)
    then show ?thesis using True assms config exe start that [OF start, of sw] by (simp add: cmd_run_def Let_def)
  qed
qed

text \<open>
  C27: however the run ends - stopped by a signal, at its time, or because the start failed halfway - the supervisor
  holds no child any more, every process it ever started has been reaped or, at the least, been killed, and no signal
  has gone to a stranger.
\<close>

theorem run_leaves_nothing_alive:
  assumes "cmd_run env argv w fs = Some (code, Some (sv, w'))" and "lawful_run env"
    and "wo_kernel w = Map.empty" and "wo_signals w = []"
  shows "(\<forall>c \<in> set (sv_children sv). ch_proc c = None) \<and> (\<forall>pid. wo_kernel w' pid \<noteq> None \<longrightarrow> killed pid w') \<and> all_hit w'"
proof -
  note lawful = assms(2) [unfolded lawful_run_def]
  obtain config_path runtime_dir exe_dir ok s sw where start:
      "supervisor_start (ru_start env) config_path runtime_dir exe_dir w fs = Some (ok, s)"
    and loop: "sw = (ss_sv s, ss_world s) \<or> run_loop (ru_begin env) (procutil_arg_i64 argv ''--duration-seconds'' 0)
        (ru_passes env) (ss_sv s, ss_world s) = Some sw"
    and stopped: "(sv, w') = supervisor_stop_all (ru_pause env) (ru_waits env) (fst sw) (snd sw)"
    using assms(1) by (rule cmd_run_stops)
  have "good (ss_sv s, ss_world s)" using start_good [OF start] lawful assms(4) by blast
  moreover have "accounted (ss_sv s, ss_world s)"
    using start_accounts.after_start [OF start] assms(3) by (simp add: accounted_def)
  ultimately have "good sw \<and> accounted sw"
    using run_loop_keeps [of "ru_begin env" _ "ru_passes env" _ sw] loop lawful by auto
  from stopping_leaves_nothing [OF this _ _ stopped [symmetric]] lawful show ?thesis by blast
qed

definition run_argv :: "bytes list" where
  "run_argv = [ascii ''obicall'', ascii ''run'', ascii ''--config'', ascii ''/c'', ascii ''--runtime-dir'', ascii ''/r'']"

definition example_run :: run_env where
  "example_run = \<lparr>ru_start = example_start, ru_self = Some (ascii ''/r/obicall''), ru_begin = 0,
     ru_passes = [\<lparr>rn_stop_requested = True, rn_tick = 0,
       rn_children = (\<lambda>_. \<lparr>ce_before = id, ce_mtime = (\<lambda>_. 0), ce_realtime = 0, ce_wait = (\<lambda>_. id), ce_spawn = (free_number, 0)\<rparr>),
       rn_clock = 0, rn_sleep = id\<rparr>],
     ru_pause = id, ru_waits = (\<lambda>_ _. id)\<rparr>"

theorem run_leaves_nothing_alive_witness:
  "\<exists>sv w'. cmd_run example_run run_argv \<lparr>wo_kernel = Map.empty, wo_signals = []\<rparr> example_files = Some (0, Some (sv, w')) \<and>
     (\<forall>pid. killed pid w' \<or> wo_kernel w' pid = None)"
proof -
  let ?w = "\<lparr>wo_kernel = Map.empty, wo_signals = []\<rparr>"
  obtain s where s: "supervisor_start example_start (ascii ''/c'') example_dir example_dir ?w example_files = Some (True, s)"
    using example_start_runs by blast
  have args: "procutil_arg_str run_argv ''--config'' None = Some (ascii ''/c'')"
    "the (procutil_arg_str run_argv ''--runtime-dir'' (Some (ascii ''./obicall-run''))) = example_dir"
    "procutil_own_exe_dir (Some (ascii ''/r/obicall'')) (Some (run_argv ! 0)) 1024 = Some example_dir"
    by code_simp+
  obtain sv w' where stop: "supervisor_stop_all id (\<lambda>_ _. id) (ss_sv s) (ss_world s) = (sv, w')"
    by (cases "supervisor_stop_all id (\<lambda>_ _. id) (ss_sv s) (ss_world s)")
  have run: "cmd_run example_run run_argv ?w example_files = Some (0, Some (sv, w'))"
    unfolding cmd_run_def Let_def args by (simp add: example_run_def args(3) s stop)
  have "lawful id" by (simp add: lawful_def)
  then have "lawful_run example_run"
    by (simp add: lawful_run_def example_run_def lawful_child_def example_start_def free_number_laws)
  from run_leaves_nothing_alive [OF run this] run show ?thesis by auto
qed

end
