(* ===== verification/Cli.thy ===== *)
theory Cli
  imports Worker Run_Command Resolve Gate_Daemon
begin

text \<open>
  The remaining commands of \<^verbatim>\<open>src/cli/main.c\<close>: \<^verbatim>\<open>doctor\<close>, \<^verbatim>\<open>validate\<close> and \<^verbatim>\<open>status\<close>, by their exit codes and, for
  \<^verbatim>\<open>status\<close>, what is shown. Their laws are about the processes they inspect: what \<^verbatim>\<open>validate\<close> accepts is what the
  workers of a started pipeline will find, and \<^verbatim>\<open>status\<close> shows the state of the gate.
\<close>

section \<open>doctor\<close>

definition provider_candidates :: "bytes \<Rightarrow> bytes \<Rightarrow> bytes list" where
  "provider_candidates exe_dir libdir =
     [snd (snprintf 1200 (exe_dir @ SLASH # ascii ''provider_c_sim.so'')),
      snd (snprintf 1200 (exe_dir @ SLASH # libdir @ ascii ''/obicall/providers/provider_c_sim.so''))]"

text \<open>The first candidate that can be loaded, as a module, is asked for its tables.\<close>

definition cmd_doctor :: "(bytes \<Rightarrow> ('e, 'p) plugin_query option option) \<Rightarrow> bytes option \<Rightarrow> bytes \<Rightarrow> bytes list \<Rightarrow> int option" where
  "cmd_doctor modules self libdir argv = do {
     exe_dir \<leftarrow> procutil_own_exe_dir self (Some (argv ! 0)) 1024;
     let provider_ok = (case List.find (\<lambda>path. modules path \<noteq> None) (provider_candidates exe_dir libdir) of
         None \<Rightarrow> False
       | Some path \<Rightarrow>
           (case the (modules path) of
              Some (st, Some descriptor, Some vtable) \<Rightarrow> st = OBICALL_OK
            | _ \<Rightarrow> False));
     Some (if provider_ok then 0 else 1)
   }"

section \<open>validate\<close>

definition validate_provider :: "files \<Rightarrow> obicall_manifest_set \<Rightarrow> bytes \<Rightarrow> provider_ref \<Rightarrow> bool option" where
  "validate_provider fs ms manifests_dir pr = do {
     manifest \<leftarrow> c_str (pr_manifest pr);
     case fs (snd (snprintf 1600 (manifests_dir @ SLASH # manifest))) of
       None \<Rightarrow> Some False
     | Some content \<Rightarrow>
         (case obicall_manifest_parse_json (Some (take 8192 content)) (Some zero_manifest) (Some (replicate 128 0)) 128 of
            (Inl _, _) \<Rightarrow> Some False
          | (Inr m, _) \<Rightarrow>
              map_option (\<lambda>(r, _). case r of Inl _ \<Rightarrow> False | Inr plan \<Rightarrow> True)
                (obicall_manifest_resolve (Some ms) (Some [mf_name m]) (Some \<lparr>rp_count = 0, rp_order = []\<rparr>)
                  (Some (replicate 256 0)) 256))
   }"

primrec validate_providers :: "files \<Rightarrow> obicall_manifest_set \<Rightarrow> bytes \<Rightarrow> provider_ref list \<Rightarrow> bool option" where
  "validate_providers fs ms manifests_dir [] = Some True"
| "validate_providers fs ms manifests_dir (pr # prs) = do {
     ok \<leftarrow> validate_provider fs ms manifests_dir pr;
     rest \<leftarrow> validate_providers fs ms manifests_dir prs;
     Some (ok \<and> rest)
   }"

text \<open>
  The exit code. When the manifest directory does not load, the providers are still looked up in what was loaded
  before the error, for the report only; the code is 1 in any case.
\<close>

definition cmd_validate :: "files \<Rightarrow> (bytes \<Rightarrow> bytes list option) \<Rightarrow> bytes list \<Rightarrow> int option" where
  "cmd_validate fs opendir argv =
     (case procutil_arg_str argv ''--config'' None of
        None \<Rightarrow> Some 2
      | Some config_path \<Rightarrow> do {
          loaded \<leftarrow> pipeline_config_load config_path (fs config_path);
          case loaded of
            Inl _ \<Rightarrow> Some 1
          | Inr cfg \<Rightarrow> do {
              dir \<leftarrow> c_str (pc_manifests_dir cfg);
              let manifests_dir = snd (snprintf 1024 (dirname_of config_path 512 @ SLASH # dir));
              case obicall_manifest_load_dir fs opendir (Some manifests_dir) (Some zero_set) (Some (replicate 256 0)) 256 of
                (Inl _, _) \<Rightarrow> Some 1
              | (Inr ms, _) \<Rightarrow> do {
                  ok \<leftarrow> validate_providers fs ms manifests_dir (take (pc_provider_count cfg) (pc_providers cfg));
                  Some (if ok \<and> pc_provider_count cfg > 0 then 0 else 1)
                }
            }
        })"

section \<open>status\<close>

text \<open>
  The reply, if one comes, and what has been written to the gate. \<open>stream\<close> is what the gate sends.
\<close>

definition query_status :: "bool \<Rightarrow> bytes \<Rightarrow> poll list \<Rightarrow> bytes \<Rightarrow> (obicall_msg_status_reply option \<times> bytes) option" where
  "query_status connected token ps stream = do {
     (rc, ps, wire) \<leftarrow> procutil_client_connect connected token OBICALL_ROLE_CLI ps;
     if rc \<noteq> 0 then Some (None, wire)
     else do {
       (_, ps, wire) \<leftarrow> osal_send_frame OBICALL_MSG_STATUS_QUERY [] 0 ps wire;
       (r, f, ps, stream) \<leftarrow> osal_recv_frame 64 ps stream;
       let msg_type = fst (the f);
       let buf = snd (the f);
       Some (if r \<noteq> 0 \<or> msg_type \<noteq> OBICALL_MSG_STATUS_REPLY then None
         else (case obicall_wire_decode_status_reply (Some buf) (of_nat (length buf)) (Some fresh_status_reply) of
                 Inl _ \<Rightarrow> None
               | Inr reply \<Rightarrow> Some reply), wire)
     }
   }"

record status_env =
  su_polled :: "nat \<Rightarrow> files"
  su_files :: files
  su_connected :: "u16 \<Rightarrow> bool"
  su_polls :: "poll list"
  su_stream :: bytes

definition cmd_status :: "status_env \<Rightarrow> bytes list \<Rightarrow> (int \<times> obicall_msg_status_reply option) option" where
  "cmd_status env argv =
     (let runtime_dir = the (procutil_arg_str argv ''--runtime-dir'' (Some (ascii ''./obicall-run''))) in
      case procutil_read_port_file runtime_dir (ascii ''gate'') 500 (su_polled env) of
        None \<Rightarrow> Some (1, None)
      | Some gate_port \<Rightarrow>
          (case procutil_read_token_file runtime_dir (su_files env) of
             None \<Rightarrow> Some (1, None)
           | Some token \<Rightarrow>
               map_option (\<lambda>(reply, wire). (if reply = None then 1 else 0, reply))
                 (query_status (su_connected env gate_port) token (su_polls env) (su_stream env))))"

section \<open>What status shows\<close>

abbreviation hello_frame :: "bytes \<Rightarrow> u32 \<Rightarrow> u8 \<times> bytes" where
  "hello_frame token role \<equiv> (OBICALL_MSG_AUTH_HELLO, auth_hello_layout (hello token role))"

lemma connect_live:
  assumes "length token = 32" and "list_all ready ps" and "56 \<le> length ps"
  obtains ps' where "procutil_client_connect True token role ps = Some (0, ps', frame_layout (hello_frame token role))"
    "list_all ready ps'" "length ps \<le> length ps' + 56"
proof -
  have "length (frame_layout (hello_frame token role)) = 56" "sendable (hello_frame token role)"
    using hello_layout_length [OF assms(1)] by (simp_all add: frame_layout_def sendable_def)
  then obtain ps' where sent: "osal_send_frame OBICALL_MSG_AUTH_HELLO (auth_hello_layout (hello token role))
      (of_nat (length (auth_hello_layout (hello token role)))) ps [] = Some (0, ps', frame_layout (hello_frame token role))"
      "list_all ready ps'" "length ps \<le> length ps' + 56"
    using send_frame_live [of ps OBICALL_MSG_AUTH_HELLO "auth_hello_layout (hello token role)" "[]"] assms(2,3) by auto
  obtain buf where buf: "obicall_wire_encode_auth_hello (Some (hello token role)) (Some (replicate 64 0)) 64 (Some 0) = Inr (buf, 40)"
    "osal_send_frame OBICALL_MSG_AUTH_HELLO buf 40 ps [] = Some (0, ps', frame_layout (hello_frame token role))"
    using hello_encoded [OF assms(1), of role ps] sent(1) by auto
  then have "procutil_client_connect True token role ps = Some (0, ps', frame_layout (hello_frame token role))"
    by (simp add: procutil_client_connect_def)
  then show thesis using that sent(2,3) by blast
qed

lemma query_answered:
  assumes "length token = 32" and "list_all ready ps" and "120 \<le> length ps"
  shows "query_status True token ps (frame_layout (OBICALL_MSG_STATUS_REPLY, status_reply_layout reply) @ rest) =
    Some (Some reply, frames_wire [hello_frame token OBICALL_ROLE_CLI, (OBICALL_MSG_STATUS_QUERY, [])])"
proof -
  obtain ps1 where c: "procutil_client_connect True token OBICALL_ROLE_CLI ps =
      Some (0, ps1, frame_layout (hello_frame token OBICALL_ROLE_CLI))" "list_all ready ps1" "length ps \<le> length ps1 + 56"
    using assms(3) by (rule_tac connect_live [OF assms(1,2)]) simp_all
  have q: "length (frame_layout (OBICALL_MSG_STATUS_QUERY, [])) = 16" "sendable (OBICALL_MSG_STATUS_QUERY, [])"
    by (simp_all add: frame_layout_def sendable_def)
  obtain ps2 where s: "osal_send_frame OBICALL_MSG_STATUS_QUERY [] 0 ps1 (frame_layout (hello_frame token OBICALL_ROLE_CLI)) =
      Some (0, ps2, frames_wire [hello_frame token OBICALL_ROLE_CLI, (OBICALL_MSG_STATUS_QUERY, [])])"
      "list_all ready ps2" "length ps1 \<le> length ps2 + 16"
    using send_frame_live [OF c(2), of OBICALL_MSG_STATUS_QUERY "[]"] q assms(3) c(3) by auto
  have wf: "wf_status_reply reply" by (simp add: wf_status_reply_def)
  have len: "length (status_reply_layout reply) = 32" using wf by (simp add: layout_simps)
  then obtain ps3 where r: "osal_recv_frame 64 ps2 (frame_layout (OBICALL_MSG_STATUS_REPLY, status_reply_layout reply) @ rest) =
      Some (0, Some (OBICALL_MSG_STATUS_REPLY, status_reply_layout reply), ps3, rest)"
    using recv_frame_live [of OBICALL_MSG_STATUS_REPLY "status_reply_layout reply" 64 ps2 rest] s(2,3) c(3) assms(3)
    by (auto simp: sendable_def frame_layout_def)
  have "obicall_wire_decode_status_reply (Some (status_reply_layout reply)) 32 (Some fresh_status_reply) = Inr reply"
    using status_reply.decode_prefix [OF wf, of 32] len by simp
  then show ?thesis using c(1) s(1) r len by (simp add: query_status_def)
qed

text \<open>
  C38: when the gate's port and the token are found, the connection is taken and the sockets are ready, status ends
  with exit code 0 and shows exactly the gate's state - epoch, owner, the highest window committed, the time it has
  been running - as the gate's answer to the query that status sends.
\<close>

theorem status_shows_gate:
  assumes "runtime_dir = the (procutil_arg_str argv ''--runtime-dir'' (Some (ascii ''./obicall-run'')))"
    and "procutil_read_port_file runtime_dir (ascii ''gate'') 500 (su_polled env) = Some gate_port"
    and "procutil_read_token_file runtime_dir (su_files env) = Some token" and "length token = 32"
    and "su_connected env gate_port" and "list_all ready (su_polls env)" and "120 \<le> length (su_polls env)"
    and "gate_dispatch penv now OBICALL_MSG_STATUS_QUERY [] (c, disk) = (cd, Some answer)"
    and "su_stream env = frame_layout answer @ rest"
  shows "cmd_status env argv = Some (0, Some (status_reply now c)) \<and> cd = (c, disk) \<and>
    query_status True token (su_polls env) (su_stream env) =
      Some (Some (status_reply now c), frames_wire [hello_frame token OBICALL_ROLE_CLI, (OBICALL_MSG_STATUS_QUERY, [])])"
proof -
  have wf: "wf_status_reply (status_reply now c)" by (simp add: wf_status_reply_def)
  then have "length (status_reply_layout (status_reply now c)) = 32" by (simp add: layout_simps)
  then have "send_status_reply (status_reply now c) = Some (OBICALL_MSG_STATUS_REPLY, status_reply_layout (status_reply now c))"
    using status_reply.encode_run [OF wf, of 64 "replicate 64 0" 0] by (auto simp: send_status_reply_def memcpy_def)
  then have answer: "answer = (OBICALL_MSG_STATUS_REPLY, status_reply_layout (status_reply now c))" "cd = (c, disk)"
    using assms(8) by (simp_all add: gate_dispatch_def handle_status_query_def)
  note query = query_answered [OF assms(4,6,7), of "status_reply now c" rest]
  have "cmd_status env argv = Some (0, Some (status_reply now c))"
    using assms(2,3,5) query by (simp add: cmd_status_def Let_def assms(9) answer(1) flip: assms(1))
  then show ?thesis using query by (simp add: assms(9) answer)
qed

definition status_argv :: "bytes list" where
  "status_argv = [ascii ''obicall'', ascii ''status'', ascii ''--runtime-dir'', ascii ''/r'']"

definition example_status :: "bytes \<Rightarrow> status_env" where
  "example_status stream = \<lparr>su_polled = (\<lambda>_ _. Some (int_text 5000)), su_files = (\<lambda>_. Some (hex_text (replicate 32 7))),
     su_connected = (\<lambda>_. True), su_polls = replicate 120 (Ready 9), su_stream = stream\<rparr>"

theorem status_shows_gate_witness:
  "\<forall>now c disk penv. \<exists>answer. gate_dispatch penv now OBICALL_MSG_STATUS_QUERY [] (c, disk) = ((c, disk), Some answer) \<and>
     cmd_status (example_status (frame_layout answer)) status_argv = Some (0, Some (status_reply now c))"
proof (intro allI)
  fix now c disk penv
  have wf: "wf_status_reply (status_reply now c)" by (simp add: wf_status_reply_def)
  then have "length (status_reply_layout (status_reply now c)) = 32" by (simp add: layout_simps)
  then have answer: "gate_dispatch penv now OBICALL_MSG_STATUS_QUERY [] (c, disk) =
      ((c, disk), Some (OBICALL_MSG_STATUS_REPLY, status_reply_layout (status_reply now c)))"
    using status_reply.encode_run [OF wf, of 64 "replicate 64 0" 0]
    by (auto simp: send_status_reply_def memcpy_def gate_dispatch_def handle_status_query_def)
  let ?env = "example_status (frame_layout (OBICALL_MSG_STATUS_REPLY, status_reply_layout (status_reply now c)))"
  have dir: "example_dir = the (procutil_arg_str status_argv ''--runtime-dir'' (Some (ascii ''./obicall-run'')))"
    by code_simp
  have "read_port_loop (\<lambda>_. Some (int_text 5000)) 500 0 0 = Some 5000"
    by (rule read_port_loop_finds [of 0]) simp_all
  then have port: "procutil_read_port_file example_dir (ascii ''gate'') 500 (su_polled ?env) = Some 5000"
    using example_ports(2) by (auto simp: procutil_read_port_file_def example_status_def)
  have token: "procutil_read_token_file example_dir (su_files ?env) = Some (replicate 32 7)"
    using hex_text_laws [of "replicate 32 7"] by (simp add: procutil_read_token_file_def example_status_def procutil_hex_decode_def)
  have ready: "su_connected ?env 5000" "list_all ready (su_polls ?env)" "120 \<le> length (su_polls ?env)"
    by (simp_all add: example_status_def ready_def)
  have "su_stream ?env = frame_layout (OBICALL_MSG_STATUS_REPLY, status_reply_layout (status_reply now c)) @ []"
    by (simp add: example_status_def)
  from status_shows_gate [OF dir port token _ ready answer this] answer
  show "\<exists>answer. gate_dispatch penv now OBICALL_MSG_STATUS_QUERY [] (c, disk) = ((c, disk), Some answer) \<and>
     cmd_status (example_status (frame_layout answer)) status_argv = Some (0, Some (status_reply now c))"
    by auto
qed

section \<open>What validate promises\<close>

lemma validate_providers_all:
  "validate_providers fs ms dir prs = Some True \<Longrightarrow> pr \<in> set prs \<Longrightarrow> validate_provider fs ms dir pr = Some True"
  by (induction prs) (auto split: bind_splits)

text \<open>The manifest a worker reads is the one that was validated, when it is short enough for both.\<close>

lemma validated_provider:
  assumes "validate_provider fs ms dir pr = Some True" and "c_str (pr_manifest pr) = Some manifest"
    and "length (dir @ SLASH # manifest) < 1200"
  obtains content m plan d where "fs (dir @ SLASH # manifest) = Some content"
    "length content \<le> 8192 \<Longrightarrow> worker_manifest fs (dir @ SLASH # manifest) = Some m"
    "obicall_manifest_resolve (Some ms) (Some [mf_name m]) (Some \<lparr>rp_count = 0, rp_order = []\<rparr>) (Some (replicate 256 0)) 256 =
       Some (Inr plan, d)"
proof -
  let ?path = "dir @ SLASH # manifest"
  have path: "snd (snprintf 1600 ?path) = ?path" using assms(3) by (simp add: snprintf_def)
  obtain content where content: "fs ?path = Some content"
    using assms(1,2) path by (auto simp: validate_provider_def split: option.splits)
  let ?parsed = "obicall_manifest_parse_json (Some (take 8192 content)) (Some zero_manifest)"
  obtain m d' where m: "?parsed (Some (replicate 128 0)) 128 = (Inr m, d')"
    using assms(1,2) path content by (cases "?parsed (Some (replicate 128 0)) 128") (auto simp: validate_provider_def split: sum.splits)
  let ?res = "obicall_manifest_resolve (Some ms) (Some [mf_name m]) (Some \<lparr>rp_count = 0, rp_order = []\<rparr>) (Some (replicate 256 0)) 256"
  have "map_option (\<lambda>(r, _). case r of Inl _ \<Rightarrow> False | Inr plan \<Rightarrow> True) ?res = Some True"
    using assms(1,2) path content m by (simp add: validate_provider_def)
  then obtain plan d where plan: "?res = Some (Inr plan, d)" by (cases ?res) (auto split: sum.splits)
  have "worker_manifest fs ?path = Some m" if "length content \<le> 8192"
    using that m content by (auto simp: worker_manifest_def read_whole_file_def obicall_manifest_parse_json_def split: sum.splits)
  then show thesis using that content plan by blast
qed

lemma validated:
  assumes "cmd_validate fs opendir argv = Some 0" and "procutil_arg_str argv ''--config'' None = Some config_path"
    and "pipeline_config_load config_path (fs config_path) = Some (Inr cfg)" and "c_str (pc_manifests_dir cfg) = Some dir"
    and "length (dirname_of config_path 512 @ SLASH # dir) < 512"
  obtains ms d where "obicall_manifest_load_dir fs opendir (Some (dirname_of config_path 512 @ SLASH # dir)) (Some zero_set)
      (Some (replicate 256 0)) 256 = (Inr ms, d)"
    "\<forall>p < pc_provider_count cfg. p < length (pc_providers cfg) \<longrightarrow>
       validate_provider fs ms (dirname_of config_path 512 @ SLASH # dir) (pc_providers cfg ! p) = Some True"
proof -
  let ?dir = "dirname_of config_path 512 @ SLASH # dir"
  have dir: "snd (snprintf 1024 ?dir) = ?dir" using assms(5) by (simp add: snprintf_def)
  let ?load = "obicall_manifest_load_dir fs opendir (Some ?dir) (Some zero_set) (Some (replicate 256 0)) 256"
  obtain ms d where load: "?load = (Inr ms, d)"
    using assms(1-4) dir by (cases ?load) (auto simp: cmd_validate_def Let_def split: sum.splits)
  have "validate_providers fs ms ?dir (take (pc_provider_count cfg) (pc_providers cfg)) = Some True"
    using assms(1-4) dir load by (auto simp: cmd_validate_def Let_def split: bind_splits if_splits)
  then have "validate_provider fs ms ?dir (take (pc_provider_count cfg) (pc_providers cfg) ! p) = Some True"
    if "p < pc_provider_count cfg" "p < length (pc_providers cfg)" for p
    using that by (intro validate_providers_all [OF _ nth_mem]) auto
  then have "\<forall>p < pc_provider_count cfg. p < length (pc_providers cfg) \<longrightarrow>
      validate_provider fs ms ?dir (pc_providers cfg ! p) = Some True"
    by simp
  with load show thesis by (rule that)
qed

lemma dirname_characters: "c \<in> set (dirname_of path cap) \<Longrightarrow> c \<in> set path \<or> c = DOT"
proof -
  have "set (tl xs) \<subseteq> set xs" for xs :: bytes by (cases xs) auto
  moreover have "set (dropWhile (\<lambda>c. \<not> is_slash c) (rev path)) \<subseteq> set path" by (auto dest: set_dropWhileD)
  ultimately have "set (tl (dropWhile (\<lambda>c. \<not> is_slash c) (rev path))) \<subseteq> set path" by (rule subset_trans)
  then show "c \<in> set (dirname_of path cap) \<Longrightarrow> c \<in> set path \<or> c = DOT"
    by (auto simp: dirname_of_def before_last_def dest!: in_set_takeD split: option.splits if_splits)
qed

lemma worker_command:
  assumes "worker_runs rd bi sv p c" and "c_str (pc_manifests_dir (sv_cfg sv)) = Some dir"
  shows "\<exists>manifest exe script opts. c_str (pr_manifest (pc_providers (sv_cfg sv) ! p)) = Some manifest \<and>
    length (dir @ SLASH # manifest) < 1200 \<and> length script \<le> 1 \<and>
    ch_argv c = exe # script @ option_args ((''--manifest'', dir @ SLASH # manifest) # opts)"
  using assms unfolding worker_runs_def Let_def worker_options_def runs_def append_Cons
  by (simp only: option.inject) blast

lemma manifests_dir_kept:
  assumes "configured env config_path rd bd cfg = Some sv" and "c_str (pc_manifests_dir cfg) = Some dir"
    and "0 \<notin> set config_path" and "length (dirname_of config_path 512 @ SLASH # dir) < 512"
  shows "c_str (pc_manifests_dir (sv_cfg sv)) = Some (dirname_of config_path 512 @ SLASH # dir)"
    and "pc_providers (sv_cfg sv) = pc_providers cfg" and "pc_provider_count (sv_cfg sv) = pc_provider_count cfg"
proof -
  let ?dir = "dirname_of config_path 512 @ SLASH # dir"
  have "0 \<notin> set dir" using assms(2) by (auto simp: c_str_def cstring_def dest: set_takeWhileD split: if_splits)
  moreover have "0 \<notin> set (dirname_of config_path 512)"
    using dirname_characters [of 0 config_path 512] assms(3) by auto
  ultimately have plain: "0 \<notin> set ?dir" by simp
  have sv: "sv_cfg sv = cfg\<lparr>pc_manifests_dir := ?dir @ replicate (512 - length ?dir) 0\<rparr>"
    using assms(1,2,4) by (auto simp: configured_def resolved_manifests_dir_def snprintf_def strncpy_str_def Let_def zero_supervisor_def split: bind_splits)
  have "takeWhile (\<lambda>b. b \<noteq> 0) (?dir @ replicate (512 - length ?dir) 0) = ?dir"
    using plain assms(4) by (subst takeWhile_append2) (auto simp: takeWhile_eq_Nil_iff)
  moreover have "0 \<in> set (replicate (512 - length ?dir) (0 :: u8))" using assms(4) by simp
  ultimately show "c_str (pc_manifests_dir (sv_cfg sv)) = Some ?dir"
    by (simp add: sv c_str_def cstring_def del: replicate_Suc)
  show "pc_providers (sv_cfg sv) = pc_providers cfg" "pc_provider_count (sv_cfg sv) = pc_provider_count cfg" by (simp_all add: sv)
qed


definition validated_files :: files where
  "validated_files = example_files(ascii ''/providers/m'' \<mapsto> sample_manifest,
     ascii ''/providers/a.manifest.json'' \<mapsto> sample_manifest)"

definition validated_opendir :: "bytes \<Rightarrow> bytes list option" where
  "validated_opendir dir = Some [ascii ''a.manifest.json'']"

lemma sample_manifest_facts:
  obtains m where "\<And>old detail cap. obicall_manifest_parse_json (Some sample_manifest) (Some old) detail cap = (Inr m, detail)"
    "mf_dependency_count m = 0" "mf_language m = 0"
proof -
  have "case run_steps (parse_steps sample_manifest) (zero_manifest\<lparr>mf_struct_size := sizeof_manifest\<rparr>) of
      Inl _ \<Rightarrow> False | Inr m \<Rightarrow> mf_dependency_count m = 0 \<and> mf_language m = 0"
    by code_simp
  then obtain m where "run_steps (parse_steps sample_manifest) (zero_manifest\<lparr>mf_struct_size := sizeof_manifest\<rparr>) = Inr m"
    "mf_dependency_count m = 0" "mf_language m = 0"
    by (auto split: sum.splits)
  then show thesis using that by (simp add: obicall_manifest_parse_json_def)
qed

lemma sole_manifest_resolves:
  assumes "ms_count ms = 1" and "item ms 0 = m" and "mf_dependency_count m = 0"
  shows "\<not> (\<exists>name. absent ms [mf_name m] name) \<and> orderable ms [mf_name m]"
proof -
  have none: "dep_names ms 0 = []" using assms(2,3) by (simp add: dep_names_def)
  have found: "find_by_name ms name = Some i \<Longrightarrow> i = 0" for name i
    using find_by_name_SomeD(1) [of ms name i] assms(1) by simp
  have only: "required ms [mf_name m] i \<Longrightarrow> i = 0" for i by (erule required.cases) (auto dest: found)
  have "find_by_name ms (mf_name m) \<noteq> None" using assms(1,2) by (auto simp: find_by_name_def has_name_def streq_def)
  moreover have no_deps: "dep_names ms i = []" if "required ms [mf_name m] i" for i using only [OF that] none by simp
  moreover from no_deps have "before ms [mf_name m] = {}" by (auto simp: before_def)
  ultimately show ?thesis by (auto simp: absent_def orderable_def acyclic_def)
qed

definition validate_argv :: "bytes list" where
  "validate_argv = [ascii ''obicall'', ascii ''validate'', ascii ''--config'', ascii ''/c'']"

lemma validated_paths:
  "validated_files (ascii ''/c'') = Some sample_config"
  "validated_files (ascii ''/providers/m'') = Some sample_manifest"
  "validated_files (ascii ''/providers/a.manifest.json'') = Some sample_manifest"
  "start_files example_start example_dir validated_files (ascii ''/providers/m'') = Some sample_manifest"
  by (simp_all add: validated_files_def example_files_def ascii_def)
    (simp add: start_files_def procutil_clear_port_file_def procutil_write_token_file_def replace_file_def
      osal_file_atomic_replace_def token_path_def port_file_path_def file_path_def snprintf_def example_dir_def
      example_start_def good_env_def ascii_def Let_def)

lemma sample_manifest_short: "length sample_manifest \<le> 8192"
  by (simp add: sample_manifest_def ascii_def)

lemma example_set_loads:
  obtains ms m where "obicall_manifest_load_dir validated_files validated_opendir (Some (ascii ''/providers'')) (Some zero_set)
      (Some detail) cap = (Inr ms, Some detail)" "ms_count ms = 1" "item ms 0 = m" "mf_dependency_count m = 0"
    "\<And>old detail cap. obicall_manifest_parse_json (Some sample_manifest) (Some old) detail cap = (Inr m, detail)"
proof -
  obtain m where m: "\<And>old detail cap. obicall_manifest_parse_json (Some sample_manifest) (Some old) detail cap = (Inr m, detail)"
    "mf_dependency_count m = 0" by (rule sample_manifest_facts) blast
  have name: "ascii ''/providers'' @ [0x2F] @ ascii ''a.manifest.json'' = ascii ''/providers/a.manifest.json''"
    "has_suffix (ascii ''a.manifest.json'') (ascii ''.manifest.json'')" "length (ascii ''/providers/a.manifest.json'') < 516"
    by (simp_all add: ascii_def has_suffix_def)
  define ms where "ms = zero_set\<lparr>ms_items := (ms_items zero_set)[0 := m], ms_count := 1\<rparr>"
  have "load_one_manifest_file validated_files (ascii ''/providers/a.manifest.json'') zero_set (Some detail) cap = (Inr ms, Some detail)"
    using m(1) sample_manifest_short by (simp add: load_one_manifest_file_def validated_paths zero_set_def ms_def)
  then have "obicall_manifest_load_dir validated_files validated_opendir (Some (ascii ''/providers'')) (Some zero_set) (Some detail) cap =
      (Inr ms, Some detail)"
    using name by (simp add: obicall_manifest_load_dir_def validated_opendir_def Let_def)
  moreover have "ms_count ms = 1" "item ms 0 = m" by (simp_all add: ms_def zero_set_def)
  ultimately show thesis using m by (intro that)
qed

lemma validate_argv_config: "procutil_arg_str validate_argv ''--config'' None = Some (ascii ''/c'')"
  by code_simp

lemma example_dirname: "dirname_of (ascii ''/c'') 512 @ SLASH # ascii ''providers'' = ascii ''/providers''"
  by (simp add: dirname_of_def before_last_def is_slash_def ascii_def)

lemma example_config:
  obtains cfg where "pipeline_config_load (ascii ''/c'') (validated_files (ascii ''/c'')) = Some (Inr cfg)"
    "c_str (pc_manifests_dir cfg) = Some (ascii ''providers'')" "pc_provider_count cfg = 1" "0 < length (pc_providers cfg)"
    "c_str (pr_manifest (pc_providers cfg ! 0)) = Some (ascii ''m'')"
proof -
  obtain cfg where cfg: "pipeline_config_load (ascii ''/c'') (Some sample_config) = Some (Inr cfg)"
    "pc_manifests_dir cfg = fixed_string 512 ''providers''" "pc_provider_count cfg = 1"
    "pr_manifest (pc_providers cfg ! 0) = fixed_string 512 ''m''"
    using sample_fields by blast
  have "wf_config cfg" using loaded_config_wf [OF cfg(1)] by simp
  then have "length (pc_providers cfg) = 8" by (simp add: wf_config_def)
  moreover have "c_str (fixed_string 512 ''providers'') = Some (ascii ''providers'')" "c_str (fixed_string 512 ''m'') = Some (ascii ''m'')"
    by (simp_all add: c_str_fixed ascii_def)
  ultimately show thesis using cfg that [of cfg] by (simp add: validated_paths)
qed

lemma example_accepted: "cmd_validate validated_files validated_opendir validate_argv = Some 0"
proof -
  obtain cfg where cfg: "pipeline_config_load (ascii ''/c'') (validated_files (ascii ''/c'')) = Some (Inr cfg)"
    "c_str (pc_manifests_dir cfg) = Some (ascii ''providers'')" "pc_provider_count cfg = 1" "0 < length (pc_providers cfg)"
    "c_str (pr_manifest (pc_providers cfg ! 0)) = Some (ascii ''m'')"
    by (rule example_config)
  obtain ms m where ms: "obicall_manifest_load_dir validated_files validated_opendir (Some (ascii ''/providers'')) (Some zero_set)
      (Some (replicate 256 0)) 256 = (Inr ms, Some (replicate 256 0))" "ms_count ms = 1" "item ms 0 = m" "mf_dependency_count m = 0"
    "\<And>old detail cap. obicall_manifest_parse_json (Some sample_manifest) (Some old) detail cap = (Inr m, detail)"
    by (rule example_set_loads) blast
  obtain plan d where plan: "obicall_manifest_resolve (Some ms) (Some [mf_name m]) (Some \<lparr>rp_count = 0, rp_order = []\<rparr>)
      (Some (replicate 256 0)) 256 = Some (Inr plan, d)"
    using resolve_verdict [of ms "[mf_name m]" "\<lparr>rp_count = 0, rp_order = []\<rparr>" "Some (replicate 256 0)" 256]
      sole_manifest_resolves [OF ms(2,3,4)] by auto
  have path: "snd (snprintf 1600 (ascii ''/providers'' @ SLASH # ascii ''m'')) = ascii ''/providers/m''"
    "snd (snprintf 1024 (ascii ''/providers'')) = ascii ''/providers''"
    by (simp_all add: snprintf_def ascii_def)
  have "validate_provider validated_files ms (ascii ''/providers'') (pc_providers cfg ! 0) = Some True"
    using sample_manifest_short unfolding validate_provider_def cfg(5) by (simp add: path(1) validated_paths ms(5) plan)
  moreover have "take 1 (pc_providers cfg) = [pc_providers cfg ! 0]" using cfg(4) by (cases "pc_providers cfg") simp_all
  ultimately show ?thesis
    unfolding cmd_validate_def validate_argv_config
    by (simp add: cfg(1-3) example_dirname path(2) ms(1))
qed


end
