(* ===== verification/Replay.thy ===== *)
theory Replay
  imports Journal_Daemon Broker_Run Procutil
begin

text \<open>
  The replay command of \<^verbatim>\<open>src/cli/main.c\<close>: it reads a journal segment, counts the records and runs the estimator
  over the admitted positions. It is related to the two processes it reconstructs: the journal that wrote the
  segment, and a broker without action selection that processed the same windows.
\<close>

section \<open>The command\<close>

record replay =
  rp_total :: u64
  rp_admitted :: u64
  rp_rejected :: u64
  rp_final_window_seq :: u64
  rp_kf :: "obicall_kalman_state option"

definition replay_start :: replay where
  "replay_start = \<lparr>rp_total = 0, rp_admitted = 0, rp_rejected = 0, rp_final_window_seq = 0, rp_kf = None\<rparr>"

definition replay_params :: "bytes list \<Rightarrow> obicall_kalman_params" where
  "replay_params argv =
     \<lparr>kp_process_noise_position = procutil_arg_f64 argv ''--process-noise-position'' (double_lit 5 100),
      kp_process_noise_velocity = procutil_arg_f64 argv ''--process-noise-velocity'' (double_lit 1 10),
      kp_initial_position_variance = procutil_arg_f64 argv ''--initial-position-variance'' (double_lit 10 1),
      kp_initial_velocity_variance = procutil_arg_f64 argv ''--initial-velocity-variance'' (double_lit 10 1),
      kp_max_prediction_gap_s = procutil_arg_f64 argv ''--max-prediction-gap-s'' (double_lit 30 1)\<rparr>"

definition replay_record :: "obicall_kalman_params \<Rightarrow> obicall_journal_record_header \<times> obicall_observation \<Rightarrow> replay \<Rightarrow> replay" where
  "replay_record params rec r =
     (case rec of (hdr, obs) \<Rightarrow>
        let r = r\<lparr>rp_total := rp_total r + 1, rp_final_window_seq := jh_window_seq hdr\<rparr> in
        if jh_admission_reason hdr \<noteq> admission_code OBICALL_ADMIT_OK then r\<lparr>rp_rejected := rp_rejected r + 1\<rparr>
        else
          (let r = r\<lparr>rp_admitted := rp_admitted r + 1\<rparr> in
           if obs_payload_shape obs \<noteq> OBICALL_SHAPE_POSITION_2D then r
           else
             (case rp_kf r of
                None \<Rightarrow> r\<lparr>rp_kf := Some (obicall_kalman_init params (obs_payload obs ! 0) (obs_payload obs ! 1)
                  (obs_sample_time_ns obs))\<rparr>
              | Some kf \<Rightarrow> r\<lparr>rp_kf := snd (obicall_kalman_update_position (Some kf) (Some params)
                  (obs_sample_time_ns obs) (obs_payload obs ! 0) (obs_payload obs ! 1)
                  (Some (take 4 (obs_covariance obs))))\<rparr>)))"

text \<open>
  The loop, with the status it stops at. \<open>h0\<close> and \<open>o0\<close> are its uninitialised locals.
\<close>

partial_function (option) replay_loop ::
  "obicall_journal_record_header \<Rightarrow> obicall_observation \<Rightarrow> obicall_kalman_params \<Rightarrow> FILE \<Rightarrow> replay \<Rightarrow>
   (obicall_status \<times> replay) option" where
  [code]: "replay_loop h0 o0 params f r =
     (case obicall_journal_read_record (Some f) (Some h0) (Some o0) of
        (Inl st, f1) \<Rightarrow> Some (st, r)
      | (Inr rec, f1) \<Rightarrow> replay_loop h0 o0 params (the f1) (replay_record params rec r))"

text \<open>A file opened for reading, with its content at that moment.\<close>

definition opened :: "bytes \<Rightarrow> FILE" where
  "opened content = \<lparr>f_data = content, f_pos = 0, f_room = 0, f_eof = False, f_flush_ok = True, f_sync_ok = True\<rparr>"

text \<open>The exit code, and what is printed; \<open>None\<close> would be a loop that does not end.\<close>

definition cmd_replay :: "obicall_journal_record_header \<Rightarrow> obicall_observation \<Rightarrow> bytes list \<Rightarrow> files \<Rightarrow>
    (int \<times> (obicall_status \<times> replay) option) option" where
  "cmd_replay h0 o0 argv fs =
     (case procutil_arg_str argv ''--input'' None of
        None \<Rightarrow> Some (2, None)
      | Some input \<Rightarrow>
          (case fs input of
             None \<Rightarrow> Some (1, None)
           | Some content \<Rightarrow>
               map_option (\<lambda>report. (0, Some report))
                 (replay_loop h0 o0 (replay_params argv) (opened content) replay_start)))"

section \<open>The loop is a fold over the records\<close>

lemma replay_loop_records:
  "replay_records h0 o0 f = Some (recs, st, f') \<Longrightarrow>
     replay_loop h0 o0 params f r = Some (st, fold (replay_record params) recs r)"
proof (induction recs arbitrary: f r)
  case Nil
  then show ?case
    by (auto simp: replay_records.simps [of _ _ f] replay_loop.simps [of _ _ _ f] split: prod.splits sum.splits option.splits
        bind_splits)
next
  case (Cons rec recs)
  then obtain f1 where "obicall_journal_read_record (Some f) (Some h0) (Some o0) = (Inr rec, f1)"
    "replay_records h0 o0 (the f1) = Some (recs, st, f')"
    by (auto simp: replay_records.simps [of _ _ f] split: prod.splits sum.splits option.splits bind_splits)
  with Cons.IH [of "the f1" "replay_record params rec r"] show ?case
    by (simp add: replay_loop.simps [of _ _ _ f])
qed

definition admitted_record :: "obicall_journal_record_header \<times> obicall_observation \<Rightarrow> bool" where
  "admitted_record rec \<longleftrightarrow> jh_admission_reason (fst rec) = admission_code OBICALL_ADMIT_OK"

lemma replay_counts:
  "rp_total (fold (replay_record params) recs r) = rp_total r + of_nat (length recs) \<and>
   rp_admitted (fold (replay_record params) recs r) = rp_admitted r + of_nat (length (filter admitted_record recs)) \<and>
   rp_rejected (fold (replay_record params) recs r) =
     rp_rejected r + of_nat (length (filter (\<lambda>rec. \<not> admitted_record rec) recs)) \<and>
   rp_final_window_seq (fold (replay_record params) recs r) =
     (if recs = [] then rp_final_window_seq r else jh_window_seq (fst (last recs)))"
proof (induction recs arbitrary: r)
  case (Cons rec recs)
  have one: "rp_total (replay_record params rec r) = rp_total r + 1"
    "rp_admitted (replay_record params rec r) = (if admitted_record rec then rp_admitted r + 1 else rp_admitted r)"
    "rp_rejected (replay_record params rec r) = (if admitted_record rec then rp_rejected r else rp_rejected r + 1)"
    "rp_final_window_seq (replay_record params rec r) = jh_window_seq (fst rec)"
    by (auto simp: replay_record_def admitted_record_def Let_def split: prod.split option.split)
  show ?case using Cons.IH [of "replay_record params rec r"] by (simp add: one)
qed simp

section \<open>The estimate of a broker without action selection\<close>

definition queued :: "obicall_journal_record_header \<times> obicall_observation \<Rightarrow> queue_entry" where
  "queued rec = \<lparr>qe_window_seq = jh_window_seq (fst rec), qe_obs = snd rec,
     qe_admitted = (if admitted_record rec then 1 else 0)\<rparr>"

abbreviation admitted_position :: "queue_entry \<Rightarrow> bool" where
  "admitted_position e \<equiv> qe_admitted e \<noteq> 0 \<and> obs_payload_shape (qe_obs e) = OBICALL_SHAPE_POSITION_2D"

definition fed :: "obicall_kalman_params \<Rightarrow> queue_entry \<Rightarrow> obicall_kalman_state option \<Rightarrow> obicall_kalman_state option" where
  "fed params e kf =
     (let obs = qe_obs e in
      if \<not> admitted_position e then kf
      else
        (case kf of
           None \<Rightarrow> Some (obicall_kalman_init params (obs_payload obs ! 0) (obs_payload obs ! 1) (obs_sample_time_ns obs))
         | Some kf \<Rightarrow> snd (obicall_kalman_update_position (Some kf) (Some params) (obs_sample_time_ns obs)
             (obs_payload obs ! 0) (obs_payload obs ! 1) (Some (take 4 (obs_covariance obs))))))"

definition estimate_of :: "broker_ctx \<Rightarrow> obicall_kalman_state option" where
  "estimate_of c = (if bc_kf_ready c then Some (bc_kf c) else None)"

lemma replay_estimate:
  "rp_kf (fold (replay_record params) recs r) = fold (fed params) (map queued recs) (rp_kf r)"
proof (induction recs arbitrary: r)
  case (Cons rec recs)
  have "rp_kf (replay_record params rec r) = fed params (queued rec) (rp_kf r)"
    by (simp add: replay_record_def fed_def queued_def admitted_record_def Let_def split: prod.split option.split)
  then show ?case using Cons.IH by simp
qed simp

lemma update_keeps_state: "\<exists>s'. snd (obicall_kalman_update_position (Some s) params t zx zy cov) = Some s'"
  by (auto simp: obicall_kalman_update_position_def obicall_kalman_predict_def Let_def split: option.split prod.split)

lemma feed_estimator_fed:
  assumes "admitted_position e \<Longrightarrow> selected AND sensor_bit c (obs_sensor_id (qe_obs e)) \<noteq> 0"
    and "feed_estimator selected e c = (used, c')"
  shows "estimate_of c' = fed (bc_kf_params c) e (estimate_of c) \<and> bc_kf_params c' = bc_kf_params c"
proof -
  obtain s' where s': "snd (obicall_kalman_update_position (Some (bc_kf c)) (Some (bc_kf_params c))
      (obs_sample_time_ns (qe_obs e)) (obs_payload (qe_obs e) ! 0) (obs_payload (qe_obs e) ! 1)
      (Some (take 4 (obs_covariance (qe_obs e))))) = Some s'"
    using update_keeps_state by blast
  show ?thesis
    using assms s' by (auto simp: feed_estimator_def fed_def estimate_of_def Let_def split: if_splits prod.splits)
qed

definition every_sensor :: "broker_ctx \<Rightarrow> u32" where
  "every_sensor c = (if bc_configured_sensor_count c > 0 then push_bit (unat (bc_configured_sensor_count c)) 1 - 1
     else 0xFFFFFFFF)"

lemma choose_every_sensor: "choose_action False now c = Some (zero_decision, every_sensor c, c)"
  by (simp add: choose_action_def every_sensor_def Let_def)

lemma every_sensor_selected:
  assumes "sensor_bit c sensor_id \<noteq> 0" and "bc_configured_sensor_count c \<le> 8"
  shows "every_sensor c AND sensor_bit c sensor_id \<noteq> 0"
proof -
  let ?n = "unat (bc_configured_sensor_count c)"
  obtain i where i: "List.find (\<lambda>i. strncmp_eq (bc_sensor_names c ! i) sensor_id) [0..<?n] = Some i"
    "sensor_bit c sensor_id = push_bit i 1"
    using assms(1) by (auto simp: sensor_bit_def split: option.splits)
  then have "i < ?n" by (auto simp: find_Some_iff)
  moreover have "?n \<le> 8" using assms(2) by (simp add: word_le_nat_alt)
  ultimately have "bit (mask ?n AND push_bit i 1 :: u32) i" by (simp add: bit_simps)
  moreover have "every_sensor c = mask ?n"
    using \<open>i < ?n\<close> by (simp add: every_sensor_def word_less_nat_alt mask_eq_exp_minus_1 del: unat_gt_0)
  ultimately show ?thesis using i(2) by (metis bit_0_eq bot_apply bot_bool_def)
qed

lemma touched_keeps:
  "estimate_of (touched now e c) = estimate_of c \<and> bc_kf_params (touched now e c) = bc_kf_params c"
  by (simp add: touched_def touch_sensor_locked_def estimate_of_def split: option.split)

text \<open>Without action selection, an entry feeds the estimator whenever its sensor is configured.\<close>

lemma process_entry_fed:
  assumes "wf_broker c" and "process_entry False now epoch e c = Some (r, c')"
    and "admitted_position e \<Longrightarrow> sensor_bit c (obs_sensor_id (qe_obs e)) \<noteq> 0"
  shows "estimate_of c' = fed (bc_kf_params c) e (estimate_of c) \<and> bc_kf_params c' = bc_kf_params c"
proof -
  let ?c = "touched now e c"
  have same: "same_plumbing c ?c" "wf_broker ?c" using touched_laws [OF assms(1)] by simp_all
  obtain d selected c1 used c2 r' where parts: "choose_action False now ?c = Some (d, selected, c1)"
      "feed_estimator selected e c1 = (used, c2)"
      "process_entry False now epoch e c = Some (r', c2\<lparr>bc_last_processed_window_seq := qe_window_seq e\<rparr>)"
    by (rule process_entry_parts [OF assms(1), of False now e epoch]) blast
  have feed: "feed_estimator (every_sensor ?c) e ?c = (used, c2)" "c' = c2\<lparr>bc_last_processed_window_seq := qe_window_seq e\<rparr>"
    using parts assms(2) by (auto simp: choose_every_sensor)
  have "every_sensor ?c AND sensor_bit ?c (obs_sensor_id (qe_obs e)) \<noteq> 0" if "admitted_position e"
    using every_sensor_selected [of ?c] assms(3) [OF that] same_plumbing_bit [OF same(1)] same(2)
    by (simp add: wf_broker_def)
  note fed = feed_estimator_fed [OF this feed(1)]
  have "estimate_of c' = estimate_of c2 \<and> bc_kf_params c' = bc_kf_params c2" by (simp add: feed(2) estimate_of_def)
  with fed touched_keeps show ?thesis by simp
qed

definition same_estimate :: "broker_ctx \<Rightarrow> broker_ctx \<Rightarrow> bool" where
  "same_estimate c c' \<longleftrightarrow> estimate_of c' = estimate_of c \<and> bc_kf_params c' = bc_kf_params c \<and>
     (\<forall>sensor_id. sensor_bit c' sensor_id = sensor_bit c sensor_id) \<and>
     bc_last_processed_window_seq c' = bc_last_processed_window_seq c"

lemma same_estimate_refl: "same_estimate c c"
  by (simp add: same_estimate_def)

lemma queue_push_keeps: "same_estimate c (queue_push e c)"
  by (simp add: queue_push_def same_estimate_def estimate_of_def sensor_bit_def Let_def)

lemma reader_frame_keeps: "reader_frame residue msg_type payload pending c = (pending', c', e) \<Longrightarrow> same_estimate c c'"
  using queue_push_keeps same_estimate_refl
  by (auto simp: reader_frame_def Let_def split: prod.splits if_splits sum.splits)

lemma take_batch_keeps: "take_batch n c = (b, c') \<Longrightarrow> same_estimate c c'"
proof (induction n arbitrary: c b)
  case (Suc n)
  show ?case
  proof (cases "bc_qhead c = bc_qtail c")
    case True
    then show ?thesis using Suc.prems same_estimate_refl by simp
  next
    case False
    let ?c = "c\<lparr>bc_qhead := (bc_qhead c + 1) mod QUEUE_CAP\<rparr>"
    obtain b' where "take_batch n ?c = (b', c')" using Suc.prems False by (auto split: prod.splits)
    moreover have "same_estimate c ?c" by (simp add: same_estimate_def estimate_of_def sensor_bit_def)
    ultimately show ?thesis using Suc.IH by (simp add: same_estimate_def)
  qed
qed (simp add: same_estimate_def)

definition estimates :: "broker_args \<Rightarrow> brokerd \<Rightarrow> bool" where
  "estimates args g \<longleftrightarrow> estimate_of (bk_ctx g) = fold (fed (ba_kf_params args)) (bk_processed g) None \<and>
     bc_kf_params (bk_ctx g) = ba_kf_params args \<and>
     (\<forall>sensor_id. sensor_bit (bk_ctx g) sensor_id = sensor_bit (broker_startup args) sensor_id) \<and>
     bc_last_processed_window_seq (bk_ctx g) = (if bk_processed g = [] then 0 else qe_window_seq (last (bk_processed g)))"

lemma broker_estimates:
  assumes "length (ba_config_digest args) = 32" and "brokerd_reachable False args g"
    and "\<forall>e \<in> set (bk_processed g). admitted_position e \<longrightarrow> sensor_bit (broker_startup args) (obs_sensor_id (qe_obs e)) \<noteq> 0"
  shows "estimates args g"
  using assms(2,3)
proof induction
  case (initial obs)
  then show ?case by (simp add: estimates_def estimate_of_def broker_startup_def Let_def)
next
  case (step g g')
  have inv: "wf_broker (bk_ctx g)" using brokerd_inv [OF assms(1) step(1)] by (simp add: broker_inv_def)
  from step(2) show ?case
  proof cases
    case (process e es now r c)
    then have est: "estimates args g" using step by simp
    moreover have "admitted_position e \<Longrightarrow> sensor_bit (bk_ctx g) (obs_sensor_id (qe_obs e)) \<noteq> 0"
      using est step(4) process by (simp add: estimates_def)
    note fed = process_entry_fed [OF inv process(3) this]
    moreover have "bc_last_processed_window_seq c = qe_window_seq e"
      using process(3) by (auto simp: process_entry_def Let_def split: option.splits prod.splits)
    moreover have "sensor_bit c sensor_id = sensor_bit (bk_ctx g) sensor_id" for sensor_id
      using process_entry_laws(2) [OF inv process(3)] by (rule same_plumbing_bit)
    ultimately show ?thesis using process(1) by (simp add: estimates_def)
  next
    case (receive payload residue msg_type pending c e)
    then show ?thesis using step reader_frame_keeps [OF receive(4)] by (auto simp: estimates_def same_estimate_def)
  next
    case (batch b c)
    then show ?thesis using step take_batch_keeps [OF batch(3)] by (auto simp: estimates_def same_estimate_def)
  qed (use step in \<open>auto simp: estimates_def estimate_of_def sensor_bit_def\<close>)
qed

section \<open>What a replay reports\<close>

abbreviation logged_record :: "journal_entry \<Rightarrow> obicall_journal_record_header \<times> obicall_observation" where
  "logged_record e \<equiv> (entry_header e, entry_obs e)"

definition admitted_entry :: "journal_entry \<Rightarrow> bool" where
  "admitted_entry e \<longleftrightarrow> fst (snd (snd e)) = OBICALL_ADMIT_OK"

lemma admitted_logged: "admitted_record (logged_record e) = admitted_entry e"
  by (cases e; cases "fst (snd (snd e))") (simp_all add: admitted_record_def admitted_entry_def Let_def)

lemma window_logged: "jh_window_seq (entry_header e) = fst e"
  by (cases e) (simp add: Let_def)

lemma replay_start_fields:
  "rp_total replay_start = 0" "rp_admitted replay_start = 0" "rp_rejected replay_start = 0"
  "rp_final_window_seq replay_start = 0" "rp_kf replay_start = None"
  by (simp_all add: replay_start_def)

lemma logged_counts:
  assumes "r = fold (replay_record params) (map logged_record es) replay_start"
  shows "rp_total r = of_nat (length es)" and "rp_admitted r = of_nat (length (filter admitted_entry es))"
    and "rp_rejected r = of_nat (length (filter (\<lambda>e. \<not> admitted_entry e) es))"
    and "rp_final_window_seq r = (if es = [] then 0 else fst (last es))"
  using replay_counts [of params "map logged_record es" replay_start] unfolding assms
  by (simp_all add: filter_map comp_def admitted_logged replay_start_fields last_map window_logged)

text \<open>The segment of a journal process, replayed by the command.\<close>

lemma segment_replayed:
  assumes "journald_reachable pipeline_id cfg (Some f0) g" and "f_data f0 = []" and "f_pos f0 = 0"
    and "js_segment_file (jd_state g) = Some f"
    and "procutil_arg_str argv ''--input'' None = Some input" and "fs input = Some (f_data f)"
  obtains k st where "k \<le> length (jd_log g)" "length (entries_bytes (jd_log g)) \<le> f_room f0 \<longrightarrow> k = length (jd_log g)"
    "cmd_replay h0 o0 argv fs = Some (0, Some (st,
       fold (replay_record (replay_params argv)) (map logged_record (take k (jd_log g))) replay_start))"
    "st \<in> {OBICALL_ERR_NOT_FOUND, OBICALL_ERR_WIRE_MALFORMED}"
proof -
  have "f_pos f = 0" using segment_open [OF assms(1)] assms(3,4) by force
  then have "f_data (opened (f_data f)) = f_data f" "f_pos (opened (f_data f)) = f_pos f"
    by (simp_all add: opened_def)
  from segment_replay [OF assms(1) _ assms(4) this, of h0 o0] assms(2,3) obtain k st f2 where k: "k \<le> length (jd_log g)"
    "replay_records h0 o0 (opened (f_data f)) = Some (map logged_record (take k (jd_log g)), st, f2)"
    "st \<in> {OBICALL_ERR_NOT_FOUND, OBICALL_ERR_WIRE_MALFORMED}"
    "length (entries_bytes (jd_log g)) \<le> f_room f0 \<longrightarrow> k = length (jd_log g)"
    by auto
  then show thesis using that [of k st] assms(5,6) replay_loop_records [OF k(2)] by (simp add: cmd_replay_def)
qed

text \<open>
  replaying the segment of a journal process, at any time and whatever its device has done, ends with exit code
  0 and reports a prefix of what was logged, all of it when the device had room: the number of its windows, how many
  of them were admitted and how many not, and the last one's number.
\<close>

theorem replay_reports_log:
  assumes "journald_reachable pipeline_id cfg (Some f0) g" and "f_data f0 = []" and "f_pos f0 = 0"
    and "js_segment_file (jd_state g) = Some f"
    and "procutil_arg_str argv ''--input'' None = Some input" and "fs input = Some (f_data f)"
  shows "\<exists>es st r. prefix es (jd_log g) \<and> (length (entries_bytes (jd_log g)) \<le> f_room f0 \<longrightarrow> es = jd_log g) \<and>
    cmd_replay h0 o0 argv fs = Some (0, Some (st, r)) \<and> st \<in> {OBICALL_ERR_NOT_FOUND, OBICALL_ERR_WIRE_MALFORMED} \<and>
    rp_total r = of_nat (length es) \<and> rp_admitted r = of_nat (length (filter admitted_entry es)) \<and>
    rp_rejected r = of_nat (length (filter (\<lambda>e. \<not> admitted_entry e) es)) \<and>
    rp_final_window_seq r = (if es = [] then 0 else fst (last es))"
proof -
  obtain k st where k: "k \<le> length (jd_log g)" "length (entries_bytes (jd_log g)) \<le> f_room f0 \<longrightarrow> k = length (jd_log g)"
    "cmd_replay h0 o0 argv fs = Some (0, Some (st,
       fold (replay_record (replay_params argv)) (map logged_record (take k (jd_log g))) replay_start))"
    "st \<in> {OBICALL_ERR_NOT_FOUND, OBICALL_ERR_WIRE_MALFORMED}"
    by (rule segment_replayed [where fs = fs and input = input, OF assms])
  let ?es = "take k (jd_log g)"
  have "prefix ?es (jd_log g)" by (rule take_is_prefix)
  moreover have "length (entries_bytes (jd_log g)) \<le> f_room f0 \<longrightarrow> ?es = jd_log g" using k(2) by simp
  moreover note k(3,4) logged_counts [OF refl, of "replay_params argv" ?es]
  ultimately show ?thesis by blast
qed

text \<open>
  C22: replay reproduces the estimate of a broker. Take a journal process whose device had room, and a broker without
  action selection that has processed the windows of that journal's log, with the estimator parameters on the replay
  command's command line and every admitted position from one of its configured sensors: replaying the segment ends
  with exactly the broker's estimate, mean and covariance, or with none when the broker has none, and with the
  broker's last window.
\<close>

theorem replay_reproduces_broker:
  assumes "journald_reachable pipeline_id cfg (Some f0) g" and "f_data f0 = []" and "f_pos f0 = 0"
    and "js_segment_file (jd_state g) = Some f" and "length (entries_bytes (jd_log g)) \<le> f_room f0"
    and "procutil_arg_str argv ''--input'' None = Some input" and "fs input = Some (f_data f)"
    and "length (ba_config_digest args) = 32" and "brokerd_reachable False args b"
    and "bk_processed b = map (queued \<circ> logged_record) (jd_log g)" and "ba_kf_params args = replay_params argv"
    and "\<forall>e \<in> set (bk_processed b). admitted_position e \<longrightarrow> sensor_bit (broker_startup args) (obs_sensor_id (qe_obs e)) \<noteq> 0"
  shows "\<exists>st r. cmd_replay h0 o0 argv fs = Some (0, Some (st, r)) \<and>
    rp_kf r = (if bc_kf_ready (bk_ctx b) then Some (bc_kf (bk_ctx b)) else None) \<and>
    rp_final_window_seq r = bc_last_processed_window_seq (bk_ctx b)"
proof -
  obtain k st where k: "length (entries_bytes (jd_log g)) \<le> f_room f0 \<longrightarrow> k = length (jd_log g)"
    "cmd_replay h0 o0 argv fs = Some (0, Some (st,
       fold (replay_record (replay_params argv)) (map logged_record (take k (jd_log g))) replay_start))"
    by (rule segment_replayed [where fs = fs and input = input, OF assms(1-4,6,7)])
  let ?r = "fold (replay_record (replay_params argv)) (map logged_record (jd_log g)) replay_start"
  have run: "cmd_replay h0 o0 argv fs = Some (0, Some (st, ?r))" using k assms(5) by simp
  have broker: "estimate_of (bk_ctx b) = fold (fed (replay_params argv)) (bk_processed b) None"
    "bc_last_processed_window_seq (bk_ctx b) = (if bk_processed b = [] then 0 else qe_window_seq (last (bk_processed b)))"
    using broker_estimates [OF assms(8,9,12)] by (simp_all add: estimates_def assms(11))
  have "rp_kf ?r = estimate_of (bk_ctx b)"
    using broker(1) by (simp add: replay_estimate assms(10) replay_start_fields)
  moreover have "rp_final_window_seq ?r = bc_last_processed_window_seq (bk_ctx b)"
    using broker(2) logged_counts(4) [OF refl, of "replay_params argv" "jd_log g"]
    by (simp add: assms(10) last_map queued_def window_logged)
  ultimately show ?thesis using run by (simp add: estimate_of_def)
qed

section \<open>A broker that takes in a log\<close>

text \<open>One observation with its decision is queued, and an idle broker works it off.\<close>

lemma broker_queues:
  assumes "brokerd_reachable dgt_enabled args g"
    and obs: "encodable_observation obs" "norm_observation obs = obs" and dec: "wf_admission_decision dec"
    and e: "e = \<lparr>qe_window_seq = ad_window_seq dec, qe_obs = obs, qe_admitted = ad_admitted dec\<rparr>"
  shows "\<exists>g'. brokerd_reachable dgt_enabled args g' \<and> bk_batch g' = bk_batch g \<and> bk_processed g' = bk_processed g \<and>
    bk_ctx g' = queue_push e (bk_ctx g)"
proof -
  let ?p = "observation_layout obs" and ?d = "admission_decision_layout dec"
  have len: "length ?p \<le> 444" using obs(1) by (rule observation_layout_max)
  then have "obicall_wire_decode_observation (Some ?p) (of_nat (length ?p)) (Some (fst (bk_pending g))) = Inr obs"
    using observation.decode_prefix [OF obs(1)] obs(2) by (simp add: unat_of_nat)
  then have "reader_frame zero_observation OBICALL_MSG_REPLAY_DATA ?p (bk_pending g) (bk_ctx g) = ((obs, True), bk_ctx g, None)"
    by (simp add: reader_frame_def case_prod_unfold)
  from brokerd_step.receive [OF _ wf_zero_observation this, of dgt_enabled] len
  have "brokerd_step dgt_enabled g (g\<lparr>bk_pending := (obs, True)\<rparr>)" by (simp add: entries_def)
  with assms(1) have one: "brokerd_reachable dgt_enabled args (g\<lparr>bk_pending := (obs, True)\<rparr>)"
    by (rule brokerd_reachable.step)
  have dlen: "length ?d = 96" using dec by (simp add: layout_simps)
  then have "obicall_wire_decode_admission_decision (Some ?d) (of_nat (length ?d)) (Some fresh_decision) = Inr dec"
    using admission_decision.decode_prefix [OF dec] by simp
  then have "reader_frame zero_observation OBICALL_MSG_ADMISSION_DECISION ?d (bk_pending (g\<lparr>bk_pending := (obs, True)\<rparr>))
      (bk_ctx (g\<lparr>bk_pending := (obs, True)\<rparr>)) = ((obs, False), queue_push e (bk_ctx g), Some e)"
    by (simp add: reader_frame_def Let_def e)
  note queued = brokerd_reachable.step [OF one brokerd_step.receive [OF _ wf_zero_observation this]]
  show ?thesis by (intro exI conjI, rule queued) (simp_all add: dlen)
qed

lemma broker_works_off:
  assumes "length (ba_config_digest args) = 32" and "brokerd_reachable dgt_enabled args g"
    and "bk_batch g = []" and "queue_contents (bk_ctx g) = [e]"
  shows "\<exists>g'. brokerd_reachable dgt_enabled args g' \<and> bk_batch g' = [] \<and> queue_contents (bk_ctx g') = [] \<and>
    bk_processed g' = bk_processed g @ [e]"
proof -
  let ?c = "(bk_ctx g)\<lparr>bc_qhead := bc_qtail (bk_ctx g)\<rparr>"
  have wf: "wf_broker (bk_ctx g)" using brokerd_inv [OF assms(1,2)] by (simp add: broker_inv_def)
  then have "take_batch (unat QUEUE_CAP) (bk_ctx g) = ([e], ?c)"
    using take_batch_contents [of "bk_ctx g" 512] assms(4) by (simp add: wf_broker_def)
  note taken = brokerd_reachable.step [OF assms(2) brokerd_step.batch [OF assms(3) this]]
  have wf': "wf_broker ?c" using brokerd_inv [OF assms(1) taken] by (simp add: broker_inv_def)
  let ?g = "g\<lparr>bk_batch := [e], bk_ctx := ?c\<rparr>"
  obtain r c' where p: "process_entry dgt_enabled 0 (fst (bk_belief ?g)) e (bk_ctx ?g) = Some (r, c')"
    using wf' by (rule process_entry_parts [of _ dgt_enabled 0 e "fst (bk_belief ?g)"]) simp
  have "same_plumbing ?c c'" using process_entry_laws(2) [OF wf'] p by simp
  then have "bc_qhead c' = bc_qtail c'" by (auto simp: same_plumbing_def)
  then have idle: "queue_contents c' = []" by (simp add: queue_contents_def)
  have "bk_batch ?g = e # []" by simp
  note processed = brokerd_reachable.step [OF taken brokerd_step.process [OF this p]]
  show ?thesis by (intro exI conjI, rule processed) (simp_all add: idle)
qed

lemma broker_takes:
  assumes "length (ba_config_digest args) = 32" and "brokerd_reachable dgt_enabled args g"
    and "bk_batch g = []" "queue_contents (bk_ctx g) = []"
    and "encodable_observation (snd rec)" "norm_observation (snd rec) = snd rec"
  shows "\<exists>g'. brokerd_reachable dgt_enabled args g' \<and> bk_batch g' = [] \<and> queue_contents (bk_ctx g') = [] \<and>
    bk_processed g' = bk_processed g @ [queued rec]"
proof -
  let ?dec = "example_decision\<lparr>ad_window_seq := jh_window_seq (fst rec), ad_admitted := (if admitted_record rec then 1 else 0)\<rparr>"
  have "wf_admission_decision ?dec" by (simp add: wf_admission_decision_def example_decision_def)
  from broker_queues [OF assms(2,5,6) this, of "queued rec"] obtain g1 where g1: "brokerd_reachable dgt_enabled args g1"
    "bk_batch g1 = []" "bk_processed g1 = bk_processed g" "bk_ctx g1 = queue_push (queued rec) (bk_ctx g)"
    using assms(3) by (auto simp: queued_def)
  have "wf_queue (bk_ctx g)" using brokerd_inv [OF assms(1,2)] by (simp add: broker_inv_def wf_broker_def)
  then have "queue_contents (bk_ctx g1) = [queued rec]" using g1(4) queue_push_contents(1) assms(4) by simp
  from broker_works_off [OF assms(1) g1(1,2) this] g1(3) show ?thesis by simp
qed

text \<open>Whatever list of readings, some run of the broker processes exactly these.\<close>

lemma broker_takes_all:
  assumes "length (ba_config_digest args) = 32"
    and "\<forall>rec \<in> set recs. encodable_observation (snd rec) \<and> norm_observation (snd rec) = snd rec"
  shows "\<exists>g. brokerd_reachable dgt_enabled args g \<and> bk_batch g = [] \<and> queue_contents (bk_ctx g) = [] \<and>
    bk_processed g = map queued recs"
  using assms(2)
proof (induction recs rule: rev_induct)
  case Nil
  have "queue_contents (broker_startup args) = []" by (simp add: queue_contents_def broker_startup_def Let_def)
  then show ?case using brokerd_reachable.initial [OF wf_zero_observation, of dgt_enabled args] by fastforce
next
  case (snoc rec recs)
  then obtain g where "brokerd_reachable dgt_enabled args g" "bk_batch g = []" "queue_contents (bk_ctx g) = []"
    "bk_processed g = map queued recs" by auto
  with broker_takes [OF assms(1) this(1-3), of rec] snoc.prems show ?case by simp
qed

section \<open>An example\<close>

definition wide_segment :: FILE where
  "wide_segment = example_segment\<lparr>f_room := 2000\<rparr>"

definition replay_argv :: "bytes list" where
  "replay_argv = [ascii ''obicall'', ascii ''replay'', ascii ''--input'', ascii ''/s'']"

definition replay_broker :: broker_args where
  "replay_broker = example_args\<lparr>ba_kf_params := replay_params replay_argv\<rparr>"

lemma replay_argv_input: "procutil_arg_str replay_argv ''--input'' None = Some (ascii ''/s'')"
  by code_simp

lemma example_log_size: "length (entries_bytes example_log) \<le> 2000"
proof -
  have "length (entry_bytes (w, at, reason, example_reading n)) \<le> 484" for w at reason n
    using observation_layout_max [OF example_reading_facts(1), of n] by (simp add: entry_bytes_def entry_obs_def Let_def)
  from this [of 1 50 OBICALL_ADMIT_OK 5] this [of 2 60 OBICALL_ADMIT_OK 6] show ?thesis by (simp add: example_log_def)
qed

lemma wide_segment_logged:
  obtains g f where "journald_reachable [] example_config (Some wide_segment) g" "jd_log g = example_log"
    "js_segment_file (jd_state g) = Some f"
  using example_logged [of "[]" "Some wide_segment"] segment_open by metis

theorem replay_reports_log_witness:
  "\<exists>f st r. cmd_replay (entry_header (hd example_log)) fresh_observation replay_argv [ascii ''/s'' \<mapsto> f] = Some (0, Some (st, r)) \<and>
     rp_total r = 2 \<and> rp_admitted r = 2 \<and> rp_rejected r = 0 \<and> rp_final_window_seq r = 2"
proof -
  obtain g f where g: "journald_reachable [] example_config (Some wide_segment) g" "jd_log g = example_log"
    "js_segment_file (jd_state g) = Some f" by (rule wide_segment_logged)
  have "f_data wide_segment = []" "f_pos wide_segment = 0" "f_room wide_segment = 2000"
    by (simp_all add: wide_segment_def example_segment_def)
  moreover have "[ascii ''/s'' \<mapsto> f_data f] (ascii ''/s'') = Some (f_data f)" by simp
  note replay_reports_log [where input = "ascii ''/s''" and fs = "[ascii ''/s'' \<mapsto> f_data f]", OF g(1) calculation(1,2)
      g(3) replay_argv_input this, of "entry_header (hd example_log)" fresh_observation]
  ultimately show ?thesis using example_log_size unfolding g(2)
    by (fastforce simp: example_log_def admitted_entry_def)
qed

theorem replay_reproduces_broker_witness:
  "\<exists>f b st r. brokerd_reachable False replay_broker b \<and> bk_processed b = map (queued \<circ> logged_record) example_log \<and>
     cmd_replay (entry_header (hd example_log)) fresh_observation replay_argv [ascii ''/s'' \<mapsto> f] = Some (0, Some (st, r)) \<and>
     rp_final_window_seq r = bc_last_processed_window_seq (bk_ctx b)"
proof -
  obtain g f where g: "journald_reachable [] example_config (Some wide_segment) g" "jd_log g = example_log"
    "js_segment_file (jd_state g) = Some f" by (rule wide_segment_logged)
  have seg: "f_data wide_segment = []" "f_pos wide_segment = 0" "length (entries_bytes (jd_log g)) \<le> f_room wide_segment"
    using example_log_size g(2) by (simp_all add: wide_segment_def example_segment_def)
  have args: "length (ba_config_digest replay_broker) = 32" "ba_kf_params replay_broker = replay_params replay_argv"
    using example_args_digest by (simp_all add: replay_broker_def)
  have "\<forall>rec \<in> set (map logged_record example_log). encodable_observation (snd rec) \<and> norm_observation (snd rec) = snd rec"
    by (simp add: example_log_def entry_obs_def example_reading_facts)
  from broker_takes_all [OF args(1) this, of False] obtain b where b: "brokerd_reachable False replay_broker b"
    "bk_processed b = map (queued \<circ> logged_record) (jd_log g)"
    by (auto simp: g(2))
  have "\<forall>e \<in> set (bk_processed b). admitted_position e \<longrightarrow>
      sensor_bit (broker_startup replay_broker) (obs_sensor_id (qe_obs e)) \<noteq> 0"
    by (simp add: b(2) g(2) example_log_def queued_def entry_obs_def example_reading_def example_observation_def)
  from replay_reproduces_broker [where input = "ascii ''/s''" and fs = "[ascii ''/s'' \<mapsto> f_data f]", OF g(1) seg(1,2)
      g(3) seg(3) replay_argv_input _ args(1) b args(2) this, of "entry_header (hd example_log)" fresh_observation]
  show ?thesis using b unfolding g(2) by fastforce
qed

end
