(* ===== verification/Demo.thy ===== *)
theory Demo
  imports Run_Command Cli Replay "HOL-Library.Signed_Division"
begin

text \<open>
  The failover demonstration of \<^verbatim>\<open>src/cli/main.c\<close>, and its \<^verbatim>\<open>main\<close>: the demonstration starts a pipeline, waits until
  the gate names broker A, suspends A and waits until the gate names B under a higher epoch, sends a late result of
  A, and lets the gate disappear. The laws: what it leaves behind, and that the gate it watches answers the late
  result the way it expects.
\<close>

section \<open>The demonstration\<close>

text \<open>One connection to the gate: whether it is taken, the schedule of the socket, and what the gate sends.\<close>

record connection =
  cn_open :: bool
  cn_polls :: "poll list"
  cn_stream :: bytes

definition ask_gate :: "supervisor \<Rightarrow> connection \<Rightarrow> obicall_msg_status_reply option option" where
  "ask_gate sv cn = map_option fst (query_status (cn_open cn) (sv_run_token sv) (cn_polls cn) (cn_stream cn))"

text \<open>
  What happens in one pass of a waiting loop: the clock of its condition, the tick, the query with the time it
  takes, the sleep.
\<close>

record demo_pass =
  dp_clock :: i64
  dp_tick :: i64
  dp_children :: "nat \<Rightarrow> child_env"
  dp_query :: connection
  dp_answered :: move
  dp_sleep :: move

text \<open>Whether the awaited reply came, the last reply, and the state; \<open>None\<close> while the loop goes on.\<close>

primrec await_reply :: "(obicall_msg_status_reply \<Rightarrow> bool) \<Rightarrow> i64 \<Rightarrow> demo_pass list \<Rightarrow> obicall_msg_status_reply \<Rightarrow>
    supervisor \<times> world \<Rightarrow> (bool \<times> obicall_msg_status_reply \<times> supervisor \<times> world) option" where
  "await_reply wanted deadline [] reply sw = None"
| "await_reply wanted deadline (p # ps) reply sw =
     (if \<not> sint (dp_clock p) < sint deadline then Some (False, reply, sw)
      else
        (case supervisor_monitor_tick (dp_tick p) (dp_children p) (fst sw) (snd sw) of
           (sv, w) \<Rightarrow> do {
             answer \<leftarrow> ask_gate sv (dp_query p);
             let w = moved (dp_answered p) w;
             let reply = (case answer of None \<Rightarrow> reply | Some r \<Rightarrow> r);
             if answer \<noteq> None \<and> wanted reply then Some (True, reply, sv, w)
             else await_reply wanted deadline ps reply (sv, moved (dp_sleep p) w)
           }))"

text \<open>The late result: a window no one has reached, under the epoch before the promotion.\<close>

definition late_result :: "bytes \<Rightarrow> i64 \<Rightarrow> obicall_result" where
  "late_result pipeline_id now = zero_result\<lparr>res_struct_size := sizeof_result,
     res_schema_version := OBICALL_RESULT_SCHEMA_VERSION, res_pipeline_id := strncpy_id pipeline_id,
     res_window_seq := 0xFFFFFFFFFFFFFFFF, res_broker_id := OBICALL_BROKER_A, res_epoch := 1,
     res_status := OBICALL_RESULT_VALID, res_timestamp_ns := now, res_valid_until_ns := now + 500000000\<rparr>"

definition fresh_result_ack :: obicall_msg_result_ack where
  "fresh_result_ack = \<lparr>ra_pipeline_id = replicate 32 0, ra_window_seq = 0, ra_accepted = 0, ra_reject_status = 0\<rparr>"

text \<open>Whether the gate has refused it as stale, and what has been written to the gate.\<close>

definition send_late_result :: "bytes \<Rightarrow> obicall_result \<Rightarrow> connection \<Rightarrow> (bool \<times> bytes) option" where
  "send_late_result token r cn = do {
     (rc, ps, wire) \<leftarrow> procutil_client_connect (cn_open cn) token OBICALL_ROLE_BROKER (cn_polls cn);
     if rc \<noteq> 0 then Some (False, wire)
     else (case obicall_wire_encode_result (Some r) (Some (replicate 1024 0)) 1024 (Some 0) of
         Inl _ \<Rightarrow> Some (False, wire)
       | Inr (buf, len) \<Rightarrow> do {
           (sent, ps, wire) \<leftarrow> osal_send_frame OBICALL_MSG_RESULT_PUBLISH buf len ps wire;
           if sent \<noteq> 0 then Some (False, wire)
           else do {
             (got, f, ps, stream) \<leftarrow> osal_recv_frame 64 ps (cn_stream cn);
             let mt = fst (the f);
             let ackbuf = snd (the f);
             Some (if got \<noteq> 0 \<or> mt \<noteq> OBICALL_MSG_RESULT_ACK then False
               else (case obicall_wire_decode_result_ack (Some ackbuf) (of_nat (length ackbuf)) (Some fresh_result_ack) of
                       Inl _ \<Rightarrow> False
                     | Inr ack \<Rightarrow> ra_accepted ack = 0 \<and>
                         ra_reject_status ack = status_code OBICALL_ERR_GATE_STALE_EPOCH), wire)
           }
         })
   }"

text \<open>What comes from outside, in the order it is met, and what is reported.\<close>

record demo_env =
  de_start :: start_env
  de_self :: "bytes option"
  de_pid :: int
  de_boot_begin :: i64
  de_boot :: "demo_pass list"
  de_kill_time :: i64
  de_promote_begin :: i64
  de_promote :: "demo_pass list"
  de_promoted_at :: i64
  de_resume_at :: i64
  de_late :: connection
  de_late_time :: i64
  de_last :: connection
  de_meanwhile :: move
  de_expire :: move
  de_now :: i64
  de_gone :: connection
  de_pause :: move
  de_waits :: "nat \<Rightarrow> nat \<Rightarrow> move"

record demo_report =
  dr_bootstrapped :: bool
  dr_initial_epoch :: u64
  dr_promoted :: bool
  dr_reply :: obicall_msg_status_reply
  dr_promotion_latency_ms :: i64
  dr_stale_rejected :: bool
  dr_consumer_expiry_ok :: bool

definition suspend :: "string \<Rightarrow> supervisor \<times> world \<Rightarrow> supervisor \<times> world" where
  "suspend name sw = snd (supervisor_kill_child_and_suspend (ascii name) (fst sw) (snd sw))"

definition failover :: "demo_env \<Rightarrow> supervisor \<times> world \<Rightarrow> (demo_report \<times> supervisor \<times> world) option" where
  "failover env sw = do {
     (bootstrapped, reply, sw) \<leftarrow> await_reply (\<lambda>r. sr_owner_broker_id r = OBICALL_BROKER_A)
       (de_boot_begin env + 8000000000) (de_boot env) fresh_status_reply sw;
     let initial_epoch = sr_gate_epoch reply;
     let sw = (if bootstrapped then suspend ''broker_A'' sw else sw);
     (promoted, reply2, sw) \<leftarrow> await_reply (\<lambda>r. sr_owner_broker_id r = OBICALL_BROKER_B \<and> sr_gate_epoch r > initial_epoch)
       (de_promote_begin env + 10000000000) (de_promote env) fresh_status_reply sw;
     let latency = word_of_int (sint (de_promoted_at env - de_kill_time env) sdiv 1000000);
     let sv = supervisor_resume_child (ascii ''broker_A'') (de_resume_at env) (fst sw);
     (stale_rejected, _) \<leftarrow> send_late_result (sv_run_token sv) (late_result (pc_pipeline_id (sv_cfg sv)) (de_late_time env)) (de_late env);
     last \<leftarrow> ask_gate sv (de_last env);
     let (sv, w) = suspend ''gate'' (sv, moved (de_meanwhile env) (snd sw));
     let w = moved (de_expire env) w;
     gone \<leftarrow> ask_gate sv (de_gone env);
     Some (\<lparr>dr_bootstrapped = bootstrapped, dr_initial_epoch = initial_epoch, dr_promoted = promoted, dr_reply = reply2,
         dr_promotion_latency_ms = latency, dr_stale_rejected = stale_rejected,
         dr_consumer_expiry_ok = (last \<noteq> None \<and> gone = None \<and> sint (de_now env) \<ge> 0)\<rparr>,
       sv, w)
   }"

definition cmd_demo :: "demo_env \<Rightarrow> bytes list \<Rightarrow> world \<Rightarrow> files \<Rightarrow>
    (int \<times> demo_report option \<times> (supervisor \<times> world) option) option" where
  "cmd_demo env argv w fs =
     (let scenario = the (procutil_arg_str argv ''--scenario'' (Some (ascii ''broker-failover'')));
          config_path = the (procutil_arg_str argv ''--config'' (Some (ascii ''examples/position-fusion.json'')));
          runtime_dir = snd (snprintf 128 (ascii ''./obicall-demo-run-'' @ int_text (de_pid env)));
          stop_all = (\<lambda>sw. supervisor_stop_all (de_pause env) (de_waits env) (fst sw) (snd sw))
      in if scenario \<noteq> ascii ''broker-failover'' then Some (2, None, None)
         else do {
           exe_dir \<leftarrow> procutil_own_exe_dir (de_self env) (Some (argv ! 0)) 1024;
           (ok, s) \<leftarrow> supervisor_start (de_start env) config_path runtime_dir exe_dir w fs;
           if \<not> ok then Some (1, None, Some (stop_all (ss_sv s, ss_world s)))
           else do {
             (report, sw) \<leftarrow> failover env (ss_sv s, ss_world s);
             let overall = dr_bootstrapped report \<and> dr_promoted report \<and> dr_stale_rejected report;
             Some (if overall then 0 else 1, Some report, Some (stop_all sw))
           }
         })"

section \<open>What the demonstration leaves behind\<close>

lemma some_child_holds: "(\<exists>c \<in> set cs. pid \<in> pids c) \<longleftrightarrow> pid \<in> op_pid ` {p. Some p \<in> set (map ch_proc cs)}"
  by (induction cs) (auto simp: pids_def image_iff split: option.splits)

lemma accounted_procs:
  "map ch_proc (sv_children sv') = map ch_proc (sv_children sv) \<Longrightarrow> accounted (sv', w) = accounted (sv, w)"
  by (simp only: accounted_def fst_conv snd_conv some_child_holds)

lemma update_child_procs:
  "ch_proc (f (sv_children sv ! i)) = ch_proc (sv_children sv ! i) \<Longrightarrow>
     map ch_proc (sv_children (update_child i f sv)) = map ch_proc (sv_children sv)"
  by (simp add: update_child_def map_update list_update_same_conv)
     (metis list_update_id map_update)

lemma suspend_keeps:
  assumes "good sw \<and> accounted sw"
  shows "good (suspend name sw) \<and> accounted (suspend name sw)"
proof -
  obtain sv w where sw: "sw = (sv, w)" by (cases sw)
  have "good (suspend name sw)"
    using step_good [OF supervisor_step.suspend, of sv w "ascii name"] assms sw by (simp add: suspend_def)
  moreover have "accounted (suspend name sw)"
    using assms sw by (auto simp: suspend_def supervisor_kill_child_and_suspend_def osal_process_kill_def
        accounted_procs [OF update_child_procs] intro: signal_accounted split: option.splits)
  ultimately show ?thesis by simp
qed

lemma resume_keeps:
  assumes "good (sv, w) \<and> accounted (sv, w)"
  shows "good (supervisor_resume_child name now sv, w) \<and> accounted (supervisor_resume_child name now sv, w)"
  using step_good [OF supervisor_step.resume, of sv w name now] assms
  by (auto simp: supervisor_resume_child_def accounted_procs [OF update_child_procs] split: option.splits)

definition lawful_pass :: "demo_pass \<Rightarrow> bool" where
  "lawful_pass p \<longleftrightarrow> (\<forall>i. lawful_child (dp_children p i)) \<and> lawful (dp_answered p) \<and> lawful (dp_sleep p)"

lemma moved_keeps_both: "lawful mv \<Longrightarrow> good (sv, w) \<and> accounted (sv, w) \<Longrightarrow> good (sv, moved mv w) \<and> accounted (sv, moved mv w)"
  using moved_good moved_accounted by blast

lemma await_reply_keeps:
  assumes "await_reply wanted deadline ps reply sw = Some (got, reply', sw')" "good sw \<and> accounted sw"
    and "\<forall>p \<in> set ps. lawful_pass p"
  shows "good sw' \<and> accounted sw'"
  using assms
proof (induction ps arbitrary: reply sw)
  case (Cons p ps)
  obtain sv w where sw: "sw = (sv, w)" by (cases sw)
  obtain sv1 w1 where tick: "supervisor_monitor_tick (dp_tick p) (dp_children p) sv w = (sv1, w1)"
    by (cases "supervisor_monitor_tick (dp_tick p) (dp_children p) sv w")
  have lawful: "\<And>i. lawful_child (dp_children p i)" "lawful (dp_answered p)" "lawful (dp_sleep p)"
    using Cons.prems(3) by (simp_all add: lawful_pass_def)
  have ticked: "good (sv1, w1) \<and> accounted (sv1, w1)"
    using tick_accounted [of sv w "dp_children p" "dp_tick p"] Cons.prems(2) lawful(1) tick sw by simp
  note answered = moved_keeps_both [OF lawful(2) this]
  note slept = moved_keeps_both [OF lawful(3) answered]
  show ?case
    using Cons.prems(1,3) tick sw answered Cons.IH [OF _ slept] Cons.prems(2)
    by (auto simp: Let_def split: if_splits bind_splits)
qed simp

definition lawful_demo :: "demo_env \<Rightarrow> bool" where
  "lawful_demo env \<longleftrightarrow> (\<forall>i. lawful_fork (fst (se_spawn (de_start env) i))) \<and>
     (\<forall>p \<in> set (de_boot env) \<union> set (de_promote env). lawful_pass p) \<and>
     lawful (de_meanwhile env) \<and> lawful (de_expire env) \<and> lawful (de_pause env) \<and> (\<forall>i k. lawful (de_waits env i k))"

lemma failover_keeps:
  assumes "failover env sw = Some (report, sw')" "good sw \<and> accounted sw" "lawful_demo env"
  shows "good sw' \<and> accounted sw'"
proof -
  obtain boot reply sw1 where w1: "await_reply (\<lambda>r. sr_owner_broker_id r = OBICALL_BROKER_A)
      (de_boot_begin env + 8000000000) (de_boot env) fresh_status_reply sw = Some (boot, reply, sw1)"
    using assms(1) by (auto simp: failover_def split: bind_splits)
  define sw2 where "sw2 = (if boot then suspend ''broker_A'' sw1 else sw1)"
  obtain promoted reply2 sv3 w3 where w3: "await_reply (\<lambda>r. sr_owner_broker_id r = OBICALL_BROKER_B \<and> sr_gate_epoch r > sr_gate_epoch reply)
      (de_promote_begin env + 10000000000) (de_promote env) fresh_status_reply sw2 = Some (promoted, reply2, sv3, w3)"
    using assms(1) w1 by (auto simp: failover_def sw2_def Let_def split: bind_splits)
  let ?sv = "supervisor_resume_child (ascii ''broker_A'') (de_resume_at env) sv3"
  obtain sv5 w5 where w5: "suspend ''gate'' (?sv, moved (de_meanwhile env) w3) = (sv5, w5)"
    by (cases "suspend ''gate'' (?sv, moved (de_meanwhile env) w3)")
  have sw': "sw' = (sv5, moved (de_expire env) w5)"
    using assms(1) w1 w3 w5 by (auto simp: failover_def Let_def simp flip: sw2_def split: bind_splits)
  have lawful: "\<forall>p \<in> set (de_boot env). lawful_pass p" "\<forall>p \<in> set (de_promote env). lawful_pass p"
    "lawful (de_meanwhile env)" "lawful (de_expire env)"
    using assms(3) by (simp_all add: lawful_demo_def)
  have "good sw2 \<and> accounted sw2" using await_reply_keeps [OF w1 assms(2) lawful(1)] suspend_keeps by (simp add: sw2_def)
  from await_reply_keeps [OF w3 this lawful(2)]
  have "good (?sv, moved (de_meanwhile env) w3) \<and> accounted (?sv, moved (de_meanwhile env) w3)"
    using resume_keeps moved_keeps_both lawful(3) by blast
  from suspend_keeps [OF this, of "''gate''"] show ?thesis
    unfolding sw' using moved_keeps_both [OF lawful(4)] w5 by simp
qed

text \<open>
  The demonstration cleans up after itself on every path: no child is held, every process it started has been
  reaped or killed, and no signal has gone to a stranger.
\<close>

theorem demo_leaves_nothing_alive:
  assumes "cmd_demo env argv w fs = Some (code, report, Some (sv, w'))" and "lawful_demo env"
    and "wo_kernel w = Map.empty" and "wo_signals w = []"
  shows "(\<forall>c \<in> set (sv_children sv). ch_proc c = None) \<and> (\<forall>pid. wo_kernel w' pid \<noteq> None \<longrightarrow> killed pid w') \<and> all_hit w'"
proof -
  obtain config_path runtime_dir exe_dir ok s sw where start:
      "supervisor_start (de_start env) config_path runtime_dir exe_dir w fs = Some (ok, s)"
    and kept: "sw = (ss_sv s, ss_world s) \<or> (\<exists>report. failover env (ss_sv s, ss_world s) = Some (report, sw))"
    and stopped: "supervisor_stop_all (de_pause env) (de_waits env) (fst sw) (snd sw) = (sv, w')"
    using assms(1) by (auto simp: cmd_demo_def Let_def split: bind_splits if_splits) metis+
  have lawful: "\<And>i. lawful_fork (fst (se_spawn (de_start env) i))" "lawful (de_pause env)" "\<And>i k. lawful (de_waits env i k)"
    using assms(2) by (simp_all add: lawful_demo_def)
  have "good (ss_sv s, ss_world s)" using start_good [OF start] lawful assms(4) by blast
  moreover have "accounted (ss_sv s, ss_world s)"
    using start_accounts.after_start [OF start] assms(3) by (simp add: accounted_def)
  ultimately have "good sw \<and> accounted sw" using kept failover_keeps assms(2) by blast
  from stopping_leaves_nothing [OF this lawful(2,3) stopped] show ?thesis .
qed

section \<open>The gate refuses the late result\<close>

lemma late_result_laws:
  "encodable_result (late_result pid t)" "norm_result (late_result pid t) = late_result pid t"
  "length (result_layout (late_result pid t)) = 164"
proof -
  show enc: "encodable_result (late_result pid t)"
    by (simp add: late_result_def zero_result_def encodable_result_def wf_result_def length_strncpy_id)
  show "norm_result (late_result pid t) = late_result pid t"
    by (simp add: late_result_def zero_result_def norm_result_def memcpy_zero)
  show "length (result_layout (late_result pid t)) = 164"
    using length_result_layout [OF enc] by (simp add: late_result_def zero_result_def)
qed

lemma gate_refuses_late:
  assumes "wf_gate_state (gc_state c)" and "has_room (gc_state c) (strncpy_id pid)"
    and "gs_owner_broker_id (gc_state c) = OBICALL_BROKER_B" and "1 < gs_epoch (gc_state c)"
    and "sint now < sint (t + 500000000)"
  shows "\<exists>c'. gate_dispatch penv now OBICALL_MSG_RESULT_PUBLISH (result_layout (late_result pid t)) (c, disk) =
      ((c', disk), Some (OBICALL_MSG_RESULT_ACK,
         result_ack_layout (publish_ack (late_result pid t) OBICALL_GATE_REJECT_STALE_EPOCH True))) \<and>
    abs_gate (gc_state c') = abs_gate (gc_state c)"
proof -
  let ?r = "late_result pid t"
  have fields: "res_struct_size ?r = sizeof_result" "res_schema_version ?r = OBICALL_RESULT_SCHEMA_VERSION"
    "res_pipeline_id ?r = strncpy_id pid" "res_broker_id ?r = OBICALL_BROKER_A" "res_epoch ?r = 1"
    "res_valid_until_ns ?r = t + 500000000"
    by (simp_all add: late_result_def)
  have dec: "obicall_wire_decode_result (Some (result_layout ?r)) 164 (Some fresh_result) = Inr ?r"
    using result.decode_prefix [OF late_result_laws(1), of 164 "result_layout (late_result pid t)"] late_result_laws by simp
  obtain outcome s1 idx where d: "obicall_gate_decide_publish (Some (gc_state c)) (Some ?r) now (Some 0) = (outcome, s1, idx)"
    by (metis prod_cases3)
  have id: "length (res_pipeline_id ?r) = 32" by (simp add: fields length_strncpy_id)
  obtain s' where s': "s1 = Some s'"
    "arbiter_publish (has_room (gc_state c) (res_pipeline_id ?r)) now ?r (abs_gate (gc_state c)) = (outcome, abs_gate s')"
    using decide_publish_refines [OF assms(1) id d] by blast
  have "arbiter_publish (has_room (gc_state c) (res_pipeline_id ?r)) now ?r (abs_gate (gc_state c)) =
      (OBICALL_GATE_REJECT_STALE_EPOCH, abs_gate (gc_state c))"
    using assms(2-5) by (simp add: arbiter_publish_def fields abs_gate_def not_le)
  then have "outcome = OBICALL_GATE_REJECT_STALE_EPOCH" "abs_gate s' = abs_gate (gc_state c)" using s'(2) by simp_all
  then show ?thesis
    using d s'(1) dec late_result_laws(3) [of pid t] result_ack_sent(2)
    by (simp add: gate_dispatch_def handle_result_publish_def)
qed


definition after_failover :: gate_ctx where
  "after_failover = example_ctx\<lparr>gc_state := example_gate_state\<lparr>gs_epoch := 2, gs_owner_broker_id := OBICALL_BROKER_B\<rparr>\<rparr>"


section \<open>The tool\<close>

text \<open>What the commands meet outside.\<close>

record ('e, 'p) cli_env =
  cl_modules :: "bytes \<Rightarrow> ('e, 'p) plugin_query option option"
  cl_self :: "bytes option"
  cl_libdir :: bytes
  cl_files :: files
  cl_opendir :: "bytes \<Rightarrow> bytes list option"
  cl_world :: world
  cl_run :: run_env
  cl_status :: status_env
  cl_demo :: demo_env
  cl_header :: obicall_journal_record_header
  cl_observation :: obicall_observation

text \<open>\<^verbatim>\<open>main\<close>: the exit code.\<close>

definition obicall_main :: "('e, 'p) cli_env \<Rightarrow> bytes list \<Rightarrow> int option" where
  "obicall_main env argv =
     (if length argv < 2 then Some 2
      else
        (let cmd = argv ! 1 in
         if cmd = ascii ''--help'' \<or> cmd = ascii ''-h'' \<or> cmd = ascii ''help'' then Some 0
         else if cmd = ascii ''doctor'' then cmd_doctor (cl_modules env) (cl_self env) (cl_libdir env) argv
         else if cmd = ascii ''validate'' then cmd_validate (cl_files env) (cl_opendir env) argv
         else if cmd = ascii ''run'' then map_option fst (cmd_run (cl_run env) argv (cl_world env) (cl_files env))
         else if cmd = ascii ''status'' then map_option fst (cmd_status (cl_status env) argv)
         else if cmd = ascii ''replay''
         then map_option fst (cmd_replay (cl_header env) (cl_observation env) argv (cl_files env))
         else if cmd = ascii ''demo'' then map_option fst (cmd_demo (cl_demo env) argv (cl_world env) (cl_files env))
         else Some 2))"

end
