(* ===== verification/Runtime.thy ===== *)
theory Runtime
  imports Provider
begin

text \<open>
  \<^verbatim>\<open>src/core/status.c\<close> and \<^verbatim>\<open>src/core/runtime.c\<close>: the text of a status code and the initialisation flag. The
  version string is set by the build and is not modelled.
\<close>

section \<open>Status texts\<close>

text \<open>The cases of the switch, in order.\<close>

definition status_texts :: "(obicall_status \<times> string) list" where
  "status_texts =
     [(OBICALL_OK, ''ok''),
      (OBICALL_ERR_INVALID_ARGUMENT, ''invalid argument''),
      (OBICALL_ERR_NULL_POINTER, ''null pointer''),
      (OBICALL_ERR_OUT_OF_RANGE, ''value out of range''),
      (OBICALL_ERR_BUFFER_TOO_SMALL, ''buffer too small''),
      (OBICALL_ERR_NOT_FOUND, ''not found''),
      (OBICALL_ERR_ALREADY_EXISTS, ''already exists''),
      (OBICALL_ERR_UNSUPPORTED, ''unsupported''),
      (OBICALL_ERR_ABI_VERSION_MISMATCH, ''ABI version mismatch''),
      (OBICALL_ERR_ABI_STRUCT_SIZE_MISMATCH, ''ABI struct size mismatch''),
      (OBICALL_ERR_SYMBOL_NOT_FOUND, ''symbol not found''),
      (OBICALL_ERR_ARCHITECTURE_MISMATCH, ''architecture mismatch''),
      (OBICALL_ERR_ARTIFACT_INTEGRITY, ''artifact integrity check failed''),
      (OBICALL_ERR_DEPENDENCY_CYCLE, ''dependency cycle''),
      (OBICALL_ERR_DEPENDENCY_MISSING, ''dependency missing''),
      (OBICALL_ERR_CONFORMANCE_FAILED, ''conformance check failed''),
      (OBICALL_ERR_LOAD_FAILED, ''load failed''),
      (OBICALL_ERR_VALIDATION_NON_FINITE, ''non-finite value''),
      (OBICALL_ERR_VALIDATION_DIMENSION, ''dimension mismatch''),
      (OBICALL_ERR_VALIDATION_COVARIANCE, ''invalid covariance''),
      (OBICALL_ERR_VALIDATION_SEQUENCE, ''invalid sequence''),
      (OBICALL_ERR_VALIDATION_TIMING, ''invalid timing''),
      (OBICALL_ERR_ADMISSION_DUPLICATE, ''duplicate observation''),
      (OBICALL_ERR_ADMISSION_LATE, ''late observation''),
      (OBICALL_ERR_ADMISSION_OVERFLOW, ''admission queue overflow''),
      (OBICALL_ERR_WIRE_MALFORMED, ''malformed wire frame''),
      (OBICALL_ERR_WIRE_TOO_LARGE, ''wire frame too large''),
      (OBICALL_ERR_WIRE_VERSION_UNSUPPORTED, ''unsupported wire version''),
      (OBICALL_ERR_WIRE_CHECKSUM, ''wire checksum mismatch''),
      (OBICALL_ERR_IO, ''I/O error''),
      (OBICALL_ERR_TIMEOUT, ''timeout''),
      (OBICALL_ERR_AUTH, ''authentication failed''),
      (OBICALL_ERR_CONNECTION_CLOSED, ''connection closed''),
      (OBICALL_ERR_GATE_NOT_OWNER, ''not the current epoch owner''),
      (OBICALL_ERR_GATE_STALE_EPOCH, ''stale epoch''),
      (OBICALL_ERR_GATE_DUPLICATE_WINDOW, ''duplicate window''),
      (OBICALL_ERR_GATE_EXPIRED, ''result expired''),
      (OBICALL_ERR_GATE_INCOMPATIBLE, ''incompatible with gate state''),
      (OBICALL_ERR_GATE_NOT_READY, ''not ready for promotion''),
      (OBICALL_ERR_GATE_PERSISTENCE, ''gate persistence failure''),
      (OBICALL_ERR_PROCESS_SPAWN, ''process spawn failed''),
      (OBICALL_ERR_PROCESS_NOT_RUNNING, ''process not running''),
      (OBICALL_ERR_ALREADY_RUNNING, ''already running''),
      (OBICALL_ERR_DGT_NO_ELIGIBLE_ACTION, ''no eligible DGT action''),
      (OBICALL_ERR_DGT_INVALID_SCORE, ''invalid DGT score''),
      (OBICALL_ERR_INTERNAL, ''internal error'')]"

definition obicall_status_string :: "i32 \<Rightarrow> string" where
  "obicall_status_string status =
     (case List.find (\<lambda>(s, _). status_code s = status) status_texts of
        None \<Rightarrow> ''unknown status code''
      | Some (_, text) \<Rightarrow> text)"

lemma every_status_has_text: "s \<in> fst ` set status_texts"
proof -
  have "s \<in> set (map fst status_texts)" by (cases s) (simp_all only: status_texts_def list.map fst_conv list.set insert_iff simp_thms)
  then show ?thesis by simp
qed

lemma status_texts_distinct:
  "distinct (map (status_code \<circ> fst) status_texts)" "distinct (''unknown status code'' # map snd status_texts)"
proof -
  show "distinct (map (status_code \<circ> fst) status_texts)" by code_simp
  show "distinct (''unknown status code'' # map snd status_texts)" by (simp add: status_texts_def)
qed

lemma find_unique: "distinct (map f xs) \<Longrightarrow> x \<in> set xs \<Longrightarrow> List.find (\<lambda>y. f y = f x) xs = Some x"
  by (induction xs) (auto simp: image_iff)

lemma status_string_of:
  assumes "(s, text) \<in> set status_texts"
  shows "obicall_status_string (status_code s) = text"
  using find_unique [OF status_texts_distinct(1) assms]
  by (simp add: obicall_status_string_def case_prod_beta')

lemma distinct_pairs: "distinct (map f xs) \<Longrightarrow> x \<in> set xs \<Longrightarrow> y \<in> set xs \<Longrightarrow> f x = f y \<Longrightarrow> x = y"
  by (simp add: distinct_map inj_on_def)

text \<open>A text tells which status was meant: two statuses never share one, and none is called unknown.\<close>

theorem status_string_identifies:
  "(obicall_status_string (status_code s) = obicall_status_string (status_code t) \<longleftrightarrow> s = t) \<and>
    obicall_status_string (status_code s) \<noteq> ''unknown status code''"
proof -
  obtain a b where ab: "(s, a) \<in> set status_texts" "(t, b) \<in> set status_texts"
    using every_status_has_text [of s] every_status_has_text [of t] by auto
  have "s = t" if "a = b"
    using distinct_pairs [of snd status_texts "(s, a)" "(t, b)"] status_texts_distinct(2) ab that by simp
  moreover have "a \<noteq> ''unknown status code''" using status_texts_distinct(2) ab(1) by (auto simp: image_iff)
  ultimately show ?thesis unfolding status_string_of [OF ab(1)] status_string_of [OF ab(2)]
    using status_string_of [OF ab(1)] status_string_of [OF ab(2)] by auto
qed

section \<open>Initialisation and versions\<close>

text \<open>The state is the flag \<^verbatim>\<open>g_initialized\<close>.\<close>

definition obicall_global_init :: "bool \<Rightarrow> obicall_status \<times> bool" where
  "obicall_global_init g_initialized = (if g_initialized then (OBICALL_OK, g_initialized) else (OBICALL_OK, True))"

definition obicall_global_shutdown :: "bool \<Rightarrow> bool" where
  "obicall_global_shutdown g_initialized = False"

definition obicall_abi_version :: "u32 option \<Rightarrow> u32 option \<Rightarrow> u32 option \<times> u32 option" where
  "obicall_abi_version out_major out_minor =
     (map_option (\<lambda>_. OBICALL_ABI_VERSION_MAJOR) out_major, map_option (\<lambda>_. OBICALL_ABI_VERSION_MINOR) out_minor)"

lemma global_init_idempotent:
  "obicall_global_init g = (OBICALL_OK, True)" "obicall_global_init (snd (obicall_global_init g)) = obicall_global_init g"
  by (simp_all add: obicall_global_init_def)

end
